(* ===== verification/Agent_Prelude.thy ===== *)
theory Agent_Prelude
  imports Main "HOL-Library.Sublist"
begin

text \<open>
  The prelude of the development: the C library functions on strings that the agent runtime
  uses, bounded formatting, decimal printing, and the list and option facts the components share.

  A NUL-terminated C string is a \<^typ>\<open>string\<close> (a list of characters, none of them NUL where
  it matters); a \<open>char *\<close> that may be \<open>NULL\<close> is a \<^typ>\<open>string option\<close>; a pointer into a
  string is the suffix it points at. \<open>int\<close> is HOL's \<^typ>\<open>int\<close>: every counter the agent
  increments is bounded by \<open>max_iterations\<close> and its guards, so no value leaves the 32-bit range.
\<close>

type_synonym cstr = string
type_synonym cptr = "string option"

named_theorems agent_simps \<open>unfolding facts of the agent components\<close>
named_theorems agent_intros \<open>introduction rules of the agent invariants\<close>

section \<open>Characters (C locale)\<close>

definition chr_code :: "char \<Rightarrow> nat" where
  "chr_code c = of_char c"

definition c_isspace :: "char \<Rightarrow> bool" where
  "c_isspace c \<longleftrightarrow> chr_code c = 32 \<or> (9 \<le> chr_code c \<and> chr_code c \<le> 13)"

definition c_isdigit :: "char \<Rightarrow> bool" where
  "c_isdigit c \<longleftrightarrow> 48 \<le> chr_code c \<and> chr_code c \<le> 57"

definition c_isupper :: "char \<Rightarrow> bool" where
  "c_isupper c \<longleftrightarrow> 65 \<le> chr_code c \<and> chr_code c \<le> 90"

definition c_islower :: "char \<Rightarrow> bool" where
  "c_islower c \<longleftrightarrow> 97 \<le> chr_code c \<and> chr_code c \<le> 122"

definition c_isalpha :: "char \<Rightarrow> bool" where
  "c_isalpha c \<longleftrightarrow> c_isupper c \<or> c_islower c"

definition c_isalnum :: "char \<Rightarrow> bool" where
  "c_isalnum c \<longleftrightarrow> c_isalpha c \<or> c_isdigit c"

definition c_tolower :: "char \<Rightarrow> char" where
  "c_tolower c = (if c_isupper c then char_of (chr_code c + 32) else c)"

definition LF :: char where "LF = CHR 0x0A"
definition CR :: char where "CR = CHR 0x0D"
definition TAB :: char where "TAB = CHR 0x09"
definition DQ :: char where "DQ = CHR 0x22"
definition SQ :: char where "SQ = CHR 0x27"
definition BSL :: char where "BSL = CHR 0x5C"

lemmas char_defs = LF_def CR_def TAB_def DQ_def SQ_def BSL_def

section \<open>String functions\<close>

text \<open>\<open>strncmp(a, b, n) == 0\<close> and \<open>strncasecmp(a, b, n) == 0\<close> on NUL-free strings.\<close>

definition strncmp_eq :: "cstr \<Rightarrow> cstr \<Rightarrow> nat \<Rightarrow> bool" where
  "strncmp_eq a b n \<longleftrightarrow> take n a = take n b"

definition strncasecmp_eq :: "cstr \<Rightarrow> cstr \<Rightarrow> nat \<Rightarrow> bool" where
  "strncasecmp_eq a b n \<longleftrightarrow> map c_tolower (take n a) = map c_tolower (take n b)"

text \<open>\<open>strchr\<close>, \<open>strstr\<close> and \<open>strpbrk\<close> return the suffix they point at.\<close>

fun strchr :: "cstr \<Rightarrow> char \<Rightarrow> cptr" where
  "strchr [] c = None"
| "strchr (x # xs) c = (if x = c then Some (x # xs) else strchr xs c)"

fun strstr :: "cstr \<Rightarrow> cstr \<Rightarrow> cptr" where
  "strstr [] needle = (if needle = [] then Some [] else None)"
| "strstr (x # xs) needle =
     (if prefix needle (x # xs) then Some (x # xs) else strstr xs needle)"

definition strpbrk :: "cstr \<Rightarrow> cstr \<Rightarrow> bool" where
  "strpbrk s accept \<longleftrightarrow> list_ex (\<lambda>c. c \<in> set accept) s"

text \<open>\<open>strrchr(s, c)\<close> split: what precedes the last \<open>c\<close> and what follows it.\<close>

definition strrchr_split :: "cstr \<Rightarrow> char \<Rightarrow> (cstr \<times> cstr) option" where
  "strrchr_split s c =
     (if c \<in> set s
      then Some (rev (tl (dropWhile (\<lambda>x. x \<noteq> c) (rev s))), rev (takeWhile (\<lambda>x. x \<noteq> c) (rev s)))
      else None)"

text \<open>\<open>snprintf(buf, n, "%s", s)\<close> into a buffer of \<open>n\<close> bytes.\<close>

definition snprintf_s :: "nat \<Rightarrow> cstr \<Rightarrow> cstr" where
  "snprintf_s n s = take (n - 1) s"

text \<open>\<open>p ? p : d\<close> and a string that is present and not empty.\<close>

definition or_default :: "cptr \<Rightarrow> cstr \<Rightarrow> cstr" where
  "or_default p d = (case p of None \<Rightarrow> d | Some s \<Rightarrow> s)"

definition nonempty_str :: "cptr \<Rightarrow> bool" where
  "nonempty_str p \<longleftrightarrow> (case p of None \<Rightarrow> False | Some s \<Rightarrow> s \<noteq> [])"

section \<open>Decimal printing\<close>

definition digit_char :: "nat \<Rightarrow> char" where
  "digit_char d = char_of (48 + d)"

fun show_nat :: "nat \<Rightarrow> cstr" where
  "show_nat n = (if n < 10 then [digit_char n] else show_nat (n div 10) @ [digit_char (n mod 10)])"

declare show_nat.simps [simp del]

definition show_int :: "int \<Rightarrow> cstr" where
  "show_int i = (if i < 0 then CHR ''-'' # show_nat (nat (- i)) else show_nat (nat i))"

section \<open>Facts the components share\<close>

lemma strchr_Some: "strchr s c = Some t \<longleftrightarrow> (\<exists>u. s = u @ t \<and> c \<notin> set u \<and> t \<noteq> [] \<and> hd t = c)"
proof (induction s)
  case Nil
  then show ?case by auto
next
  case (Cons x xs)
  show ?case
  proof (cases "x = c")
    case True
    have "u = []" if "x # xs = u @ t" "c \<notin> set u" for u
      using that True by (cases u) auto
    then show ?thesis using True by auto
  next
    case False
    have "(\<exists>u. xs = u @ t \<and> c \<notin> set u \<and> t \<noteq> [] \<and> hd t = c) \<longleftrightarrow>
          (\<exists>u. x # xs = u @ t \<and> c \<notin> set u \<and> t \<noteq> [] \<and> hd t = c)"
      using False by (auto simp: Cons_eq_append_conv intro: exI [of _ "x # _"])
    then show ?thesis using False Cons by simp
  qed
qed

lemma strchr_None: "strchr s c = None \<longleftrightarrow> c \<notin> set s"
  by (induction s) auto

lemma strchr_length: "strchr s c = Some t \<Longrightarrow> length t \<le> length s"
  by (induction s) (auto split: if_splits)

lemma strchr_suffix: "strchr s c = Some t \<Longrightarrow> suffix (tl t) s"
  by (induction s) (auto split: if_splits intro: suffix_ConsI)

lemma strstr_Some: "strstr s n = Some t \<Longrightarrow> \<exists>u. s = u @ t \<and> prefix n t"
proof (induction s)
  case (Cons x xs)
  show ?case
  proof (cases "prefix n (x # xs)")
    case True
    with Cons.prems show ?thesis by (auto intro: exI [of _ "[]"])
  next
    case False
    with Cons obtain u where "xs = u @ t \<and> prefix n t" by auto
    then show ?thesis by (auto intro: exI [of _ "x # u"])
  qed
qed (auto split: if_splits)

lemma strstr_None: "strstr s n = None \<longleftrightarrow> \<not> sublist n s"
  by (induction s) (auto simp: sublist_Cons_right)

lemma prefix_iff_take: "prefix xs ys \<longleftrightarrow> take (length xs) ys = xs"
  by (metis append_eq_conv_conj append_take_drop_id prefix_def)

lemma or_default_simps [simp]: "or_default None d = d" "or_default (Some s) d = s"
  by (simp_all add: or_default_def)

lemma nonempty_str_simps [simp]:
  "nonempty_str None = False" "nonempty_str (Some s) = (s \<noteq> [])"
  by (simp_all add: nonempty_str_def)

lemma snprintf_s_fits: "length s < n \<Longrightarrow> snprintf_s n s = s"
  by (simp add: snprintf_s_def)

lemma length_snprintf_s: "0 < n \<Longrightarrow> length (snprintf_s n s) < n"
  by (simp add: snprintf_s_def)

lemma strrchr_split_Some:
  assumes "strrchr_split s c = Some (a, b)"
  shows "s = a @ c # b \<and> c \<notin> set b"
proof -
  have "c \<in> set s" using assms by (simp add: strrchr_split_def split: if_splits)
  then obtain u v where s: "s = u @ c # v" and v: "c \<notin> set v" by (metis split_list_last)
  have "takeWhile (\<lambda>x. x \<noteq> c) (rev s) = rev v"
    using v unfolding s by (simp, subst takeWhile_append2) auto
  moreover have "dropWhile (\<lambda>x. x \<noteq> c) (rev s) = c # rev u"
    using v unfolding s by (simp, subst dropWhile_append2) auto
  ultimately have "a = u \<and> b = v"
    using assms \<open>c \<in> set s\<close> by (simp add: strrchr_split_def)
  then show ?thesis using s v by simp
qed

lemma strrchr_split_None: "strrchr_split s c = None \<longleftrightarrow> c \<notin> set s"
  by (simp add: strrchr_split_def)

end
