(* ===== verification/Agent_State.thy ===== *)
theory Agent_State
  imports Agent_Prelude
begin

text \<open>
  The agent's state machine, its tasks and its event bus: \<open>agent/core/state.c\<close>,
  \<open>agent/core/task.c\<close> and \<open>agent/core/events.c\<close>. The locale \<open>guarded_machine\<close> states what
  a guarded transition function promises; the model of \<open>agent_state_transition\<close> interprets it.
\<close>

section \<open>States and transitions (state.c)\<close>

datatype AgentState =
    AGENT_IDLE | AGENT_ANALYZING | AGENT_PLANNING | AGENT_EXECUTING | AGENT_OBSERVING
  | AGENT_VERIFYING | AGENT_RECOVERING | AGENT_COMPLETED | AGENT_FAILED | AGENT_WAITING_USER

fun agent_state_name :: "AgentState \<Rightarrow> cstr" where
  "agent_state_name AGENT_IDLE = ''IDLE''"
| "agent_state_name AGENT_ANALYZING = ''ANALYZING''"
| "agent_state_name AGENT_PLANNING = ''PLANNING''"
| "agent_state_name AGENT_EXECUTING = ''EXECUTING''"
| "agent_state_name AGENT_OBSERVING = ''OBSERVING''"
| "agent_state_name AGENT_VERIFYING = ''VERIFYING''"
| "agent_state_name AGENT_RECOVERING = ''RECOVERING''"
| "agent_state_name AGENT_COMPLETED = ''COMPLETED''"
| "agent_state_name AGENT_FAILED = ''FAILED''"
| "agent_state_name AGENT_WAITING_USER = ''WAITING_USER''"

definition agent_state_is_terminal :: "AgentState \<Rightarrow> bool" where
  "agent_state_is_terminal s \<longleftrightarrow> s = AGENT_COMPLETED \<or> s = AGENT_FAILED"

text \<open>The static adjacency table: a self-loop is always allowed, a terminal state is sticky.\<close>

definition allowed :: "AgentState \<Rightarrow> AgentState \<Rightarrow> bool" where
  "allowed a b =
     (if a = b then True
      else if agent_state_is_terminal a then False
      else case a of
        AGENT_IDLE \<Rightarrow> b = AGENT_ANALYZING \<or> b = AGENT_FAILED
      | AGENT_ANALYZING \<Rightarrow>
          b = AGENT_PLANNING \<or> b = AGENT_EXECUTING \<or> b = AGENT_WAITING_USER \<or>
          b = AGENT_COMPLETED \<or> b = AGENT_FAILED
      | AGENT_PLANNING \<Rightarrow>
          b = AGENT_EXECUTING \<or> b = AGENT_WAITING_USER \<or> b = AGENT_FAILED \<or> b = AGENT_COMPLETED
      | AGENT_EXECUTING \<Rightarrow>
          b = AGENT_OBSERVING \<or> b = AGENT_WAITING_USER \<or> b = AGENT_VERIFYING \<or>
          b = AGENT_COMPLETED \<or> b = AGENT_FAILED
      | AGENT_OBSERVING \<Rightarrow>
          b = AGENT_EXECUTING \<or> b = AGENT_VERIFYING \<or> b = AGENT_RECOVERING \<or>
          b = AGENT_PLANNING \<or> b = AGENT_COMPLETED \<or> b = AGENT_FAILED
      | AGENT_VERIFYING \<Rightarrow>
          b = AGENT_COMPLETED \<or> b = AGENT_PLANNING \<or> b = AGENT_EXECUTING \<or>
          b = AGENT_RECOVERING \<or> b = AGENT_FAILED
      | AGENT_RECOVERING \<Rightarrow>
          b = AGENT_EXECUTING \<or> b = AGENT_PLANNING \<or> b = AGENT_WAITING_USER \<or> b = AGENT_FAILED
      | AGENT_WAITING_USER \<Rightarrow>
          b = AGENT_ANALYZING \<or> b = AGENT_PLANNING \<or> b = AGENT_EXECUTING \<or> b = AGENT_FAILED
      | _ \<Rightarrow> False)"

text \<open>The guarded transition: the return value and the new state; an illegal move is ignored.\<close>

definition agent_state_transition :: "AgentState \<Rightarrow> AgentState \<Rightarrow> bool \<times> AgentState" where
  "agent_state_transition cur next = (if allowed cur next then (True, next) else (False, cur))"

text \<open>Most call sites ignore the return value; this is the state they leave behind.\<close>

abbreviation move :: "AgentState \<Rightarrow> AgentState \<Rightarrow> AgentState" where
  "move cur next \<equiv> snd (agent_state_transition cur next)"

text \<open>
  The state diagram of \<open>docs/agent/agent-loop.md\<close>, edge by edge. It is the reference the adjacency table of
  \<open>state.c\<close> is compared with; re-entering a state is always allowed and omitted from the diagram.
\<close>

definition state_diagram :: "(AgentState \<times> AgentState) list" where
  "state_diagram =
     [(AGENT_IDLE, AGENT_ANALYZING), (AGENT_IDLE, AGENT_FAILED),
      (AGENT_ANALYZING, AGENT_PLANNING), (AGENT_ANALYZING, AGENT_EXECUTING),
      (AGENT_ANALYZING, AGENT_WAITING_USER), (AGENT_ANALYZING, AGENT_COMPLETED),
      (AGENT_ANALYZING, AGENT_FAILED),
      (AGENT_PLANNING, AGENT_EXECUTING), (AGENT_PLANNING, AGENT_WAITING_USER),
      (AGENT_PLANNING, AGENT_FAILED), (AGENT_PLANNING, AGENT_COMPLETED),
      (AGENT_EXECUTING, AGENT_OBSERVING), (AGENT_EXECUTING, AGENT_WAITING_USER),
      (AGENT_EXECUTING, AGENT_VERIFYING), (AGENT_EXECUTING, AGENT_COMPLETED),
      (AGENT_EXECUTING, AGENT_FAILED),
      (AGENT_OBSERVING, AGENT_EXECUTING), (AGENT_OBSERVING, AGENT_VERIFYING),
      (AGENT_OBSERVING, AGENT_RECOVERING), (AGENT_OBSERVING, AGENT_PLANNING),
      (AGENT_OBSERVING, AGENT_COMPLETED), (AGENT_OBSERVING, AGENT_FAILED),
      (AGENT_VERIFYING, AGENT_COMPLETED), (AGENT_VERIFYING, AGENT_PLANNING),
      (AGENT_VERIFYING, AGENT_EXECUTING), (AGENT_VERIFYING, AGENT_RECOVERING),
      (AGENT_VERIFYING, AGENT_FAILED),
      (AGENT_RECOVERING, AGENT_EXECUTING), (AGENT_RECOVERING, AGENT_PLANNING),
      (AGENT_RECOVERING, AGENT_WAITING_USER), (AGENT_RECOVERING, AGENT_FAILED),
      (AGENT_WAITING_USER, AGENT_ANALYZING), (AGENT_WAITING_USER, AGENT_PLANNING),
      (AGENT_WAITING_USER, AGENT_EXECUTING), (AGENT_WAITING_USER, AGENT_FAILED)]"

text \<open>The states a sequence of requests goes through, the first and the last included.\<close>

primrec states_visited :: "AgentState \<Rightarrow> AgentState list \<Rightarrow> AgentState list" where
  "states_visited s [] = [s]"
| "states_visited s (b # bs) = s # states_visited (move s b) bs"

subsection \<open>The contract of a guarded machine\<close>

locale guarded_machine =
  fixes ok :: "'s \<Rightarrow> 's \<Rightarrow> bool"
    and trans :: "'s \<Rightarrow> 's \<Rightarrow> bool \<times> 's"
    and final :: "'s \<Rightarrow> bool"
  assumes legal: "ok a b \<Longrightarrow> trans a b = (True, b)"
    and illegal: "\<not> ok a b \<Longrightarrow> trans a b = (False, a)"
    and reflexive: "ok a a"
    and sticky: "final a \<Longrightarrow> ok a b \<Longrightarrow> b = a"
begin

text \<open>Requesting a sequence of moves, as the agent loop does.\<close>

primrec moves :: "'s \<Rightarrow> 's list \<Rightarrow> 's" where
  "moves a [] = a"
| "moves a (b # bs) = moves (snd (trans a b)) bs"

lemma trans_cases: "trans a b = (True, b) \<and> ok a b \<or> trans a b = (False, a) \<and> \<not> ok a b"
  using legal illegal by blast

lemma trans_ok_iff: "fst (trans a b) \<longleftrightarrow> ok a b"
  using trans_cases [of a b] by auto

lemma final_stays: "final a \<Longrightarrow> snd (trans a b) = a"
  using trans_cases [of a b] sticky [of a b] by auto

lemma moves_final: "final a \<Longrightarrow> moves a bs = a"
  by (induction bs) (simp_all add: final_stays)

lemma moves_append: "moves a (bs @ cs) = moves (moves a bs) cs"
  by (induction bs arbitrary: a) simp_all

lemma moves_reachable: "rtranclp ok a (moves a bs)"
proof (induction bs arbitrary: a)
  case (Cons b bs)
  have "rtranclp ok a (snd (trans a b))"
    using trans_cases [of a b] by auto
  also have "rtranclp ok (snd (trans a b)) (moves (snd (trans a b)) bs)" by (rule Cons.IH)
  finally show ?case by simp
qed simp

end

interpretation sm: guarded_machine allowed agent_state_transition agent_state_is_terminal
  by unfold_locales (auto simp: agent_state_transition_def allowed_def split: if_splits)

lemma allowed_iff_diagram: "allowed a b \<longleftrightarrow> a = b \<or> (a, b) \<in> set state_diagram"
  by (cases a; cases b) (simp_all add: allowed_def state_diagram_def agent_state_is_terminal_def)

lemma states_visited_not_Nil [simp]: "states_visited s bs \<noteq> []"
  by (cases bs) simp_all

lemma hd_states_visited [simp]: "hd (states_visited s bs) = s"
  by (cases bs) simp_all

lemma states_visited_last: "last (states_visited s bs) = sm.moves s bs"
  by (induction bs arbitrary: s) simp_all

lemma states_visited_edges: "successively allowed (states_visited s bs)"
proof (induction bs arbitrary: s)
  case (Cons b bs)
  have "allowed s (move s b)"
    using sm.trans_cases [of s b] sm.reflexive [of s] by auto
  with Cons.IH [of "move s b"] show ?case
    by (simp add: successively_Cons)
qed simp

lemma states_visited_final:
  "agent_state_is_terminal s \<Longrightarrow> set (states_visited s bs) = {s}"
  by (induction bs) (simp_all add: sm.final_stays)

lemma allowed_refl [simp]: "allowed a a"
  by (rule sm.reflexive)

lemma move_simps [agent_simps]:
  "allowed a b \<Longrightarrow> move a b = b" "\<not> allowed a b \<Longrightarrow> move a b = a"
  by (simp_all add: agent_state_transition_def)

lemma move_eq: "move a b = (if allowed a b then b else a)"
  by (simp add: agent_state_transition_def)

lemma agent_state_name_inject: "agent_state_name a = agent_state_name b \<Longrightarrow> a = b"
  by (cases a; cases b) simp_all

text \<open>FAILED can be entered from every state that is not terminal, so a failing loop always ends in it.\<close>

lemma allowed_failed: "\<not> agent_state_is_terminal a \<Longrightarrow> allowed a AGENT_FAILED"
  by (cases a) (simp_all add: allowed_def agent_state_is_terminal_def)

section \<open>Tasks (task.c)\<close>

text \<open>The identifier comes from \<open>gen_id\<close> and the time stamps from \<open>time(NULL)\<close>: both are arguments.\<close>

record AgentTask =
  task_id :: cstr
  task_goal :: cstr
  task_state :: AgentState
  task_plan :: cptr
  task_current_step :: int
  task_total_steps :: int
  task_max_iterations :: int
  task_iteration :: int
  task_success :: bool
  task_requires_user_input :: bool
  task_user_question :: cptr
  task_final_answer :: cptr
  task_created_at :: int
  task_updated_at :: int

definition task_create :: "cstr \<Rightarrow> int \<Rightarrow> cptr \<Rightarrow> int \<Rightarrow> AgentTask" where
  "task_create new_id now g mi =
     \<lparr>task_id = new_id, task_goal = or_default g [], task_state = AGENT_IDLE, task_plan = None,
      task_current_step = 0, task_total_steps = 0,
      task_max_iterations = (if mi > 0 then mi else 30), task_iteration = 0,
      task_success = False, task_requires_user_input = False, task_user_question = None, task_final_answer = None,
      task_created_at = now, task_updated_at = now\<rparr>"

definition task_touch :: "int \<Rightarrow> AgentTask \<Rightarrow> AgentTask" where
  "task_touch now t = t\<lparr>task_updated_at := now\<rparr>"

definition task_set_plan :: "int \<Rightarrow> AgentTask \<Rightarrow> cptr \<Rightarrow> int \<Rightarrow> AgentTask" where
  "task_set_plan now t plan_json n =
     task_touch now (t\<lparr>task_plan := plan_json, task_total_steps := n, task_current_step := 0\<rparr>)"

definition task_set_answer :: "int \<Rightarrow> AgentTask \<Rightarrow> cptr \<Rightarrow> AgentTask" where
  "task_set_answer now t answer = task_touch now (t\<lparr>task_final_answer := answer\<rparr>)"

definition task_set_question :: "int \<Rightarrow> AgentTask \<Rightarrow> cptr \<Rightarrow> AgentTask" where
  "task_set_question now t q =
     task_touch now (t\<lparr>task_user_question := q, task_requires_user_input := (q \<noteq> None)\<rparr>)"

text \<open>The state field is driven through the guarded transition only.\<close>

definition task_move :: "AgentTask \<Rightarrow> AgentState \<Rightarrow> AgentTask" where
  "task_move t s = t\<lparr>task_state := move (task_state t) s\<rparr>"

lemmas task_defs =
  task_touch_def task_set_plan_def task_set_answer_def task_set_question_def task_move_def

declare task_defs [agent_simps]

section \<open>The event bus (events.c)\<close>

datatype EventType =
    EV_TASK_CREATED | EV_TASK_STARTED | EV_PLAN_CREATED | EV_STEP_STARTED | EV_TOOL_SELECTED
  | EV_TOOL_STARTED | EV_TOOL_COMPLETED | EV_TOOL_FAILED | EV_OBSERVATION_CREATED
  | EV_REFLECTION_STARTED | EV_VERIFICATION_STARTED | EV_VERIFICATION_PASSED
  | EV_VERIFICATION_FAILED | EV_RECOVERY_STARTED | EV_TASK_COMPLETED | EV_TASK_FAILED
  | EV_USER_INPUT_REQUIRED | EV_MODEL_OUTPUT | EV_LOG

fun event_type_name :: "EventType \<Rightarrow> cstr" where
  "event_type_name EV_TASK_CREATED = ''TASK_CREATED''"
| "event_type_name EV_TASK_STARTED = ''TASK_STARTED''"
| "event_type_name EV_PLAN_CREATED = ''PLAN_CREATED''"
| "event_type_name EV_STEP_STARTED = ''STEP_STARTED''"
| "event_type_name EV_TOOL_SELECTED = ''TOOL_SELECTED''"
| "event_type_name EV_TOOL_STARTED = ''TOOL_STARTED''"
| "event_type_name EV_TOOL_COMPLETED = ''TOOL_COMPLETED''"
| "event_type_name EV_TOOL_FAILED = ''TOOL_FAILED''"
| "event_type_name EV_OBSERVATION_CREATED = ''OBSERVATION_CREATED''"
| "event_type_name EV_REFLECTION_STARTED = ''REFLECTION_STARTED''"
| "event_type_name EV_VERIFICATION_STARTED = ''VERIFICATION_STARTED''"
| "event_type_name EV_VERIFICATION_PASSED = ''VERIFICATION_PASSED''"
| "event_type_name EV_VERIFICATION_FAILED = ''VERIFICATION_FAILED''"
| "event_type_name EV_RECOVERY_STARTED = ''RECOVERY_STARTED''"
| "event_type_name EV_TASK_COMPLETED = ''TASK_COMPLETED''"
| "event_type_name EV_TASK_FAILED = ''TASK_FAILED''"
| "event_type_name EV_USER_INPUT_REQUIRED = ''USER_INPUT_REQUIRED''"
| "event_type_name EV_MODEL_OUTPUT = ''MODEL_OUTPUT''"
| "event_type_name EV_LOG = ''LOG''"

record AgentEvent =
  ev_type :: EventType
  ev_task_id :: cptr
  ev_data :: cptr
  ev_step :: int
  ev_ts :: nat

text \<open>A handler acts on the world of its subscriber; \<open>userdata\<close> is closed over by the function.\<close>

type_synonym 'w handler = "AgentEvent \<Rightarrow> 'w \<Rightarrow> 'w"

definition MAX_SUBS :: nat where "MAX_SUBS = 16"

text \<open>\<open>bus_clock\<close> is the monotonic clock (\<open>mono_seconds\<close>) as a reading of the world.\<close>

record 'w EventBus =
  handlers :: "'w handler list"
  bus_clock :: "'w \<Rightarrow> nat"

definition event_bus_create :: "('w \<Rightarrow> nat) \<Rightarrow> 'w EventBus" where
  "event_bus_create clock = \<lparr>handlers = [], bus_clock = clock\<rparr>"

definition event_bus_subscribe ::
  "'w EventBus option \<Rightarrow> 'w handler \<Rightarrow> int \<times> 'w EventBus option" where
  "event_bus_subscribe bus h =
     (case bus of None \<Rightarrow> (-1, None)
      | Some b \<Rightarrow> if length (handlers b) \<ge> MAX_SUBS then (-1, Some b)
                  else (0, Some (b\<lparr>handlers := handlers b @ [h]\<rparr>)))"

fun call_handlers :: "'w handler list \<Rightarrow> AgentEvent \<Rightarrow> 'w \<Rightarrow> 'w" where
  "call_handlers [] ev w = w"
| "call_handlers (h # hs) ev w = call_handlers hs ev (h ev w)"

definition event_bus_emit ::
  "'w EventBus option \<Rightarrow> EventType \<Rightarrow> cptr \<Rightarrow> int \<Rightarrow> cptr \<Rightarrow> 'w \<Rightarrow> 'w" where
  "event_bus_emit bus ty tid step data w =
     (case bus of None \<Rightarrow> w
      | Some b \<Rightarrow> call_handlers (handlers b)
          \<lparr>ev_type = ty, ev_task_id = tid, ev_data = data, ev_step = step,
           ev_ts = bus_clock b w\<rparr> w)"

definition bus_ok :: "'w EventBus option \<Rightarrow> bool" where
  "bus_ok bus \<longleftrightarrow> (case bus of None \<Rightarrow> True | Some b \<Rightarrow> length (handlers b) \<le> MAX_SUBS)"

lemma call_handlers_append: "call_handlers (hs @ gs) ev w = call_handlers gs ev (call_handlers hs ev w)"
  by (induction hs arbitrary: w) simp_all

lemma bus_ok_create [agent_intros]: "bus_ok (Some (event_bus_create clock))"
  by (simp add: bus_ok_def event_bus_create_def)

lemma bus_ok_subscribe [agent_intros]: "bus_ok b \<Longrightarrow> bus_ok (snd (event_bus_subscribe b h))"
  by (auto simp: bus_ok_def event_bus_subscribe_def split: option.splits)

text \<open>
  A subscriber that the bus accepted is called last, on the world its predecessors left: events are
  delivered to every handler, in subscription order.
\<close>

lemma subscribe_then_emit:
  assumes "event_bus_subscribe (Some b) h = (0, bus')"
  shows "event_bus_emit bus' ty tid step d w =
     h \<lparr>ev_type = ty, ev_task_id = tid, ev_data = d, ev_step = step, ev_ts = bus_clock b w\<rparr>
       (event_bus_emit (Some b) ty tid step d w)"
  using assms by (auto simp: event_bus_subscribe_def event_bus_emit_def call_handlers_append
      split: if_splits)

end
