(* ===== verification/Agent_Json.thy ===== *)
theory Agent_Json
  imports Agent_Prelude "HOL-Library.Word"
begin

text \<open>
  JSON values as the agent sees them through cJSON, and \<open>agent/util/jsonx.c\<close>: the scan for a
  balanced object in model output, the extraction, the repair of almost-JSON, and the typed
  accessors. The parser itself (the vendored \<open>cJSON_Parse\<close>, \<open>cJSON_ParseWithLength\<close>) and the
  printer are arguments of the definitions that use them.
\<close>

section \<open>Values\<close>

text \<open>A double is its 64-bit pattern, a float its 32-bit pattern.\<close>

type_synonym f64 = "64 word"
type_synonym f32 = "32 word"

text \<open>A number node carries cJSON's two views of it, \<open>valueint\<close> and \<open>valuedouble\<close>.\<close>

datatype json =
    JNull
  | JBool bool
  | JNumber int f64
  | JString cstr
  | JArray "json list"
  | JObject "(cstr \<times> json) list"

type_synonym json_parser = "cstr \<Rightarrow> json option"
type_synonym json_printer = "json \<Rightarrow> cstr"

text \<open>\<open>cJSON_GetObjectItemCaseSensitive\<close> walks the children and stops at the first match.\<close>

fun get_item :: "json \<Rightarrow> cstr \<Rightarrow> json option" where
  "get_item (JObject kvs) k = map_of kvs k"
| "get_item _ k = None"

fun is_object :: "json \<Rightarrow> bool" where
  "is_object (JObject _) = True" | "is_object _ = False"

fun is_array :: "json \<Rightarrow> bool" where
  "is_array (JArray _) = True" | "is_array _ = False"

text \<open>\<open>cJSON_GetArraySize\<close> counts the children of an array or an object.\<close>

fun array_size :: "json \<Rightarrow> int" where
  "array_size (JArray xs) = int (length xs)"
| "array_size (JObject xs) = int (length xs)"
| "array_size _ = 0"

section \<open>Typed accessors (jsonx.c)\<close>

definition jx_str :: "json \<Rightarrow> cstr \<Rightarrow> cptr \<Rightarrow> cptr" where
  "jx_str obj key fallback =
     (case get_item obj key of Some (JString s) \<Rightarrow> Some s | _ \<Rightarrow> fallback)"

definition jx_num :: "json \<Rightarrow> cstr \<Rightarrow> f64 \<Rightarrow> f64" where
  "jx_num obj key fallback =
     (case get_item obj key of Some (JNumber _ d) \<Rightarrow> d | _ \<Rightarrow> fallback)"

definition jx_int :: "json \<Rightarrow> cstr \<Rightarrow> int \<Rightarrow> int" where
  "jx_int obj key fallback =
     (case get_item obj key of Some (JNumber i _) \<Rightarrow> i | _ \<Rightarrow> fallback)"

definition jx_bool :: "json \<Rightarrow> cstr \<Rightarrow> bool \<Rightarrow> bool" where
  "jx_bool obj key fallback =
     (case get_item obj key of Some (JBool b) \<Rightarrow> b | _ \<Rightarrow> fallback)"

definition jx_obj :: "json \<Rightarrow> cstr \<Rightarrow> json option" where
  "jx_obj obj key =
     (case get_item obj key of Some v \<Rightarrow> if is_object v then Some v else None | None \<Rightarrow> None)"

definition jx_arr :: "json \<Rightarrow> cstr \<Rightarrow> json option" where
  "jx_arr obj key =
     (case get_item obj key of Some v \<Rightarrow> if is_array v then Some v else None | None \<Rightarrow> None)"

definition jx_strdup :: "json \<Rightarrow> cstr \<Rightarrow> cptr" where
  "jx_strdup obj key = jx_str obj key None"

lemmas jx_defs = jx_str_def jx_num_def jx_int_def jx_bool_def jx_obj_def jx_arr_def jx_strdup_def

lemma jx_obj_is_object: "jx_obj obj key = Some v \<Longrightarrow> is_object v"
  by (auto simp: jx_obj_def split: option.splits if_splits)

lemma jx_arr_is_array: "jx_arr obj key = Some v \<Longrightarrow> is_array v"
  by (auto simp: jx_arr_def split: option.splits if_splits)

section \<open>Finding a balanced object\<close>

text \<open>
  The scan of \<open>find_object\<close> from an opening brace: brace depth, inside a string, after a
  backslash; the result is the number of bytes up to and including the closing brace.
\<close>

fun scan_object :: "cstr \<Rightarrow> int \<Rightarrow> bool \<Rightarrow> bool \<Rightarrow> nat \<Rightarrow> nat option" where
  "scan_object [] depth in_str esc n = None"
| "scan_object (c # cs) depth in_str esc n =
     (if in_str then
        (if esc then scan_object cs depth True False (Suc n)
         else if c = BSL then scan_object cs depth True True (Suc n)
         else if c = DQ then scan_object cs depth False False (Suc n)
         else scan_object cs depth True False (Suc n))
      else if c = DQ then scan_object cs depth True esc (Suc n)
      else if c = CHR ''{'' then scan_object cs (depth + 1) False esc (Suc n)
      else if c = CHR ''}'' then
        (if depth - 1 = 0 then Some (Suc n) else scan_object cs (depth - 1) False esc (Suc n))
      else scan_object cs depth False esc (Suc n))"

text \<open>\<open>find_object\<close>: the pointer to the first brace and the length of the balanced span.\<close>

definition find_object :: "cstr \<Rightarrow> (cstr \<times> nat) option" where
  "find_object text =
     (case strchr text (CHR ''{'') of
        None \<Rightarrow> None
      | Some start \<Rightarrow>
          (case scan_object start 0 False False 0 of
             None \<Rightarrow> None
           | Some n \<Rightarrow> Some (start, n)))"

lemma find_object_suffix:
  assumes "find_object text = Some (start, n)"
  shows "\<exists>u. text = u @ start \<and> CHR ''{'' \<notin> set u \<and> start \<noteq> [] \<and> hd start = CHR ''{''"
  using assms by (auto simp: find_object_def strchr_Some split: option.splits)

lemma scan_object_bound:
  "scan_object cs d i e n = Some m \<Longrightarrow> n < m \<and> m \<le> n + length cs"
proof (induction cs arbitrary: d i e n)
  case (Cons c cs)
  from Cons.prems show ?case
    by (auto split: if_splits dest!: Cons.IH)
qed simp

lemma scan_object_ends:
  "scan_object cs d i e n = Some m \<Longrightarrow> cs ! (m - n - 1) = CHR ''}''"
proof (induction cs arbitrary: d i e n)
  case (Cons c cs)
  have step: "(c # cs) ! (m - n - 1) = CHR ''}''"
    if "scan_object cs d' i' e' (Suc n) = Some m" for d' i' e'
  proof -
    from scan_object_bound [OF that] have "m - n - 1 = Suc (m - Suc n - 1)" by auto
    then show ?thesis using Cons.IH [OF that] by simp
  qed
  from Cons.prems show ?case
    by (auto split: if_splits dest!: step)
qed simp

lemma find_object_span:
  assumes "find_object text = Some (start, n)"
  shows "2 \<le> n \<and> n \<le> length start \<and> hd (take n start) = CHR ''{'' \<and> last (take n start) = CHR ''}''"
proof -
  from assms have sc: "scan_object start 0 False False 0 = Some n"
    by (auto simp: find_object_def split: option.splits)
  from find_object_suffix [OF assms] have hd: "start \<noteq> []" "hd start = CHR ''{''" by auto
  from scan_object_bound [OF sc] have b: "0 < n" "n \<le> length start" by auto
  from scan_object_ends [OF sc] have e: "start ! (n - 1) = CHR ''}''" by simp
  have "n \<noteq> 1"
  proof
    assume "n = 1"
    with e hd show False by (simp add: hd_conv_nth)
  qed
  then show ?thesis using b e hd by (auto simp: hd_take last_conv_nth min_def)
qed

lemma find_object_start:
  assumes "find_object text = Some (s, n)"
  shows "find_object s = Some (s, n)"
proof -
  from find_object_suffix [OF assms] have "strchr s (CHR ''{'') = Some s" by (cases s) auto
  moreover from assms have "scan_object s 0 False False 0 = Some n"
    by (auto simp: find_object_def simp del: scan_object.simps split: option.splits)
  ultimately show ?thesis by (simp add: find_object_def del: scan_object.simps)
qed

section \<open>Extraction\<close>

text \<open>
  \<open>jx_extract_object\<close>: the parsed object, the pointer to its first byte and the length of the
  span that was parsed. A candidate that does not parse is skipped by one byte; a brace that never
  closes ends the search.
\<close>

function jx_extract_object :: "json_parser \<Rightarrow> cstr \<Rightarrow> (json \<times> cstr \<times> nat) option" where
  "jx_extract_object parse p =
     (if p = [] then None
      else case find_object p of
        None \<Rightarrow> None
      | Some (start, n) \<Rightarrow>
          (case parse (take n start) of
             Some j \<Rightarrow> Some (j, start, n)
           | None \<Rightarrow> jx_extract_object parse (tl start)))"
  by pat_completeness auto
termination
proof (relation "measure (\<lambda>(_, p). length p)", simp)
  fix parse :: json_parser and p x2 x y
  assume "find_object p = Some x2" "(x, y) = x2"
  then have "find_object p = Some (x, y)" by simp
  from find_object_suffix [OF this] show "((parse, tl x), parse, p) \<in> measure (\<lambda>(_, p). length p)"
    by (cases x) auto
qed

declare jx_extract_object.simps [simp del]

text \<open>The span starts at a brace of the text, is balanced by the scan and parses to the result.\<close>

lemma jx_extract_object_sound:
  assumes "jx_extract_object parse src = Some (j, start, n)"
  shows "suffix start src \<and> find_object start = Some (start, n) \<and> parse (take n start) = Some j"
  using assms
proof (induction parse src rule: jx_extract_object.induct)
  case (1 parse p)
  from "1.prems" have ne: "p \<noteq> []"
    by (auto simp: jx_extract_object.simps [of parse p])
  with "1.prems" obtain s m where fo: "find_object p = Some (s, m)"
    by (auto simp: jx_extract_object.simps [of parse p] split: option.splits)
  from find_object_suffix [OF fo] obtain u where u: "p = u @ s" "CHR ''{'' \<notin> set u"
    "s \<noteq> []" "hd s = CHR ''{''" by auto
  show ?case
  proof (cases "parse (take m s)")
    case (Some j')
    with "1.prems" ne fo have "j' = j" "s = start" "m = n"
      by (simp_all add: jx_extract_object.simps [of parse p])
    moreover have "find_object s = Some (s, m)" by (rule find_object_start [OF fo])
    ultimately show ?thesis using Some u by (auto simp: suffix_def)
  next
    case None
    with "1.prems" ne fo have rec: "jx_extract_object parse (tl s) = Some (j, start, n)"
      by (simp add: jx_extract_object.simps [of parse p])
    from "1.IH" [OF ne fo refl None rec] have "suffix start (tl s)" "find_object start = Some (start, n)"
      "parse (take n start) = Some j" by auto
    moreover have "suffix (tl s) p" using u by (cases s) (auto simp: suffix_def)
    ultimately show ?thesis by (auto intro: suffix_order.trans)
  qed
qed

text \<open>
  A brace in the prose before the object that nothing closes hides every later object: neither
  the extraction nor (since it scans the same way) the repair looks past it.
\<close>

lemma jx_extract_object_unbalanced:
  assumes "find_object text = None"
  shows "jx_extract_object parse text = None"
  using assms by (subst jx_extract_object.simps) simp

section \<open>Repair of almost-JSON\<close>

text \<open>A Python literal at \<open>p\<close> that no alphanumeric character continues.\<close>

definition literal_at :: "cstr \<Rightarrow> cstr \<Rightarrow> bool" where
  "literal_at lit p \<longleftrightarrow> strncmp_eq p lit (length lit) \<and>
     (case drop (length lit) p of [] \<Rightarrow> True | c # _ \<Rightarrow> \<not> c_isalnum c)"

text \<open>The look-back over the output: the last character that is no space opens a key position.\<close>

definition structural :: "cstr \<Rightarrow> bool" where
  "structural out \<longleftrightarrow>
     (case dropWhile c_isspace (rev out) of [] \<Rightarrow> False | b # _ \<Rightarrow> b = CHR ''{'' \<or> b = CHR '','')"

definition key_char :: "char \<Rightarrow> bool" where
  "key_char c \<longleftrightarrow> c_isalnum c \<or> c = CHR ''_''"

definition unquoted_key :: "cstr \<Rightarrow> cstr \<Rightarrow> cptr" where
  "unquoted_key out p =
     (case p of [] \<Rightarrow> None
      | c # _ \<Rightarrow>
          if c_isalpha c \<or> c = CHR ''_'' then
            (case dropWhile c_isspace (dropWhile key_char p) of
               [] \<Rightarrow> None
             | r # _ \<Rightarrow> if structural out \<and> r = CHR '':'' then Some (takeWhile key_char p) else None)
          else None)"

lemma unquoted_key_nonempty: "unquoted_key out p = Some k \<Longrightarrow> k \<noteq> []"
  by (auto simp: unquoted_key_def key_char_def c_isalnum_def split: if_splits list.splits)

definition trailing_comma :: "cstr \<Rightarrow> bool" where
  "trailing_comma cs \<longleftrightarrow>
     (case dropWhile c_isspace cs of [] \<Rightarrow> False | q # _ \<Rightarrow> q = CHR ''}'' \<or> q = CHR '']'')"

text \<open>
  The loop of \<open>jx_repair_object\<close> over the bytes of the span: the remaining input, the output so
  far, inside a string, after a backslash, and the quote that opened the string.
\<close>

function repair_loop :: "cstr \<Rightarrow> cstr \<Rightarrow> bool \<Rightarrow> bool \<Rightarrow> char \<Rightarrow> cstr" where
  "repair_loop p out in_str esc quote =
     (case p of
        [] \<Rightarrow> out
      | c # cs \<Rightarrow>
          if in_str then
            (if esc then repair_loop cs (out @ [c]) True False quote
             else if c = BSL then repair_loop cs (out @ [c]) True True quote
             else if c = quote then repair_loop cs (out @ [DQ]) False esc quote
             else if c = DQ \<and> quote = SQ then repair_loop cs (out @ [BSL, DQ]) True esc quote
             else if c = LF then repair_loop cs (out @ [BSL, CHR ''n'']) True esc quote
             else if c = CR then repair_loop cs out True esc quote
             else if c = TAB then repair_loop cs (out @ [BSL, CHR ''t'']) True esc quote
             else repair_loop cs (out @ [c]) True esc quote)
          else if c = DQ \<or> c = SQ then repair_loop cs (out @ [DQ]) True esc c
          else if c = CHR '','' then
            (if trailing_comma cs then repair_loop cs out False esc quote
             else repair_loop cs (out @ [c]) False esc quote)
          else if literal_at ''True'' p then repair_loop (drop 4 p) (out @ ''true'') False esc quote
          else if literal_at ''False'' p then repair_loop (drop 5 p) (out @ ''false'') False esc quote
          else if literal_at ''None'' p then repair_loop (drop 4 p) (out @ ''null'') False esc quote
          else (case unquoted_key out p of
                  Some k \<Rightarrow> repair_loop (drop (length k) p) (out @ [DQ] @ k @ [DQ]) False esc quote
                | None \<Rightarrow> repair_loop cs (out @ [c]) False esc quote))"
  by pat_completeness auto
termination
  by (relation "measure (\<lambda>(p, _). length p)") (auto dest: unquoted_key_nonempty)

declare repair_loop.simps [simp del]

definition jx_repair_object :: "json_parser \<Rightarrow> cstr \<Rightarrow> json option" where
  "jx_repair_object parse src =
     (case find_object src of
        None \<Rightarrow> None
      | Some (start, n) \<Rightarrow> parse (repair_loop (take n start) [] False False (CHR 0x00)))"

text \<open>
  Text that calls for no repair: outside strings no single quote, no trailing comma, no Python
  literal and no unquoted key; inside strings no line break and no tab.
\<close>

fun needs_no_repair :: "cstr \<Rightarrow> cstr \<Rightarrow> bool \<Rightarrow> bool \<Rightarrow> bool" where
  "needs_no_repair [] out in_str esc = True"
| "needs_no_repair (c # cs) out in_str esc =
     (if in_str then
        (if esc then needs_no_repair cs (out @ [c]) True False
         else if c = BSL then needs_no_repair cs (out @ [c]) True True
         else if c = DQ then needs_no_repair cs (out @ [c]) False False
         else c \<notin> {LF, CR, TAB} \<and> needs_no_repair cs (out @ [c]) True False)
      else if c = DQ then needs_no_repair cs (out @ [c]) True False
      else c \<noteq> SQ \<and> (c = CHR '','' \<longrightarrow> \<not> trailing_comma cs) \<and>
        (c \<noteq> CHR '','' \<longrightarrow>
           \<not> literal_at ''True'' (c # cs) \<and> \<not> literal_at ''False'' (c # cs) \<and>
           \<not> literal_at ''None'' (c # cs) \<and> unquoted_key out (c # cs) = None) \<and>
        needs_no_repair cs (out @ [c]) False False)"

lemma repair_loop_identity:
  "needs_no_repair p out in_str esc \<Longrightarrow> (\<not> in_str \<longrightarrow> \<not> esc) \<Longrightarrow> (in_str \<longrightarrow> quote = DQ) \<Longrightarrow>
   repair_loop p out in_str esc quote = out @ p"
proof (induction p arbitrary: out in_str esc quote)
  case Nil
  then show ?case by (simp add: repair_loop.simps)
next
  case (Cons c cs)
  note unfold = repair_loop.simps [of "x # cs" for x] Cons.IH
  have qs: "DQ \<noteq> SQ" "DQ \<noteq> BSL" "CHR '','' \<noteq> DQ" "CHR '','' \<noteq> SQ" by (simp_all add: char_defs)
  show ?case
  proof (cases in_str)
    case in_string: True
    show ?thesis
    proof (cases esc)
      case True
      with Cons.prems in_string show ?thesis by (simp add: unfold)
    next
      case False
      consider "c = BSL" | "c = DQ" | "c \<noteq> BSL" "c \<noteq> DQ" by blast
      then show ?thesis using Cons.prems in_string False qs
        by cases (simp_all add: unfold)
    qed
  next
    case False
    consider "c = DQ" | "c = CHR '',''" | "c \<noteq> DQ" "c \<noteq> CHR '',''" by blast
    then show ?thesis using Cons.prems False qs
      by cases (simp_all add: unfold)
  qed
qed

end
