(* ===== verification/Agent_Config.thy ===== *)
theory Agent_Config
  imports Agent_Json
begin

text \<open>
  The runtime configuration, \<open>agent/core/config.c\<close>: the defaults, the overlay of a JSON file and
  the clamp of the autonomy level. The file's content (\<open>None\<close> when it cannot be read), the JSON
  parser and the two float conversions are arguments.
\<close>

datatype ApprovalMode = APPROVAL_ALWAYS | APPROVAL_RISKY | APPROVAL_NEVER

record AgentConfig =
  cfg_backend :: cstr
  cfg_model_dir :: cstr
  cfg_tok_dir :: cstr
  cfg_cfg_path :: cstr
  cfg_trunk_dir :: cstr
  cfg_trunk_gb :: f64
  cfg_cache_gb :: f64
  cfg_n_layers :: int
  cfg_max_tokens :: int
  cfg_temperature :: f32
  cfg_top_p :: f32
  cfg_max_iterations :: int
  cfg_max_retries :: int
  cfg_max_reflections :: int
  cfg_max_repair_attempts :: int
  cfg_autonomy_level :: int
  cfg_memory_enabled :: bool
  cfg_database :: cstr
  cfg_sandbox :: bool
  cfg_workspace :: cstr
  cfg_confirm_dangerous_tools :: bool
  cfg_approval :: ApprovalMode
  cfg_system_prompt_path :: cstr
  cfg_log_level :: cstr
  cfg_log_file :: cstr
  cfg_api_enabled :: bool
  cfg_api_port :: int

text \<open>\<open>cpy\<close> into a buffer of \<open>n\<close> bytes.\<close>

definition cpy :: "nat \<Rightarrow> cptr \<Rightarrow> cstr" where
  "cpy n src = (case src of None \<Rightarrow> [] | Some s \<Rightarrow> snprintf_s n s)"

text \<open>The bit patterns are those of \<open>0.0\<close>, \<open>0.5\<close>, \<open>0.2f\<close> and \<open>0.95f\<close>.\<close>

definition agent_config_defaults :: "cstr \<Rightarrow> AgentConfig" where
  "agent_config_defaults prompt_dir =
     \<lparr>cfg_backend = cpy 32 (Some ''k3''), cfg_model_dir = cpy 1024 (Some ''./model''),
      cfg_tok_dir = [], cfg_cfg_path = [], cfg_trunk_dir = [],
      cfg_trunk_gb = 0, cfg_cache_gb = 0x3FE0000000000000, cfg_n_layers = 0,
      cfg_max_tokens = 1024, cfg_temperature = 0x3E4CCCCD, cfg_top_p = 0x3F733333,
      cfg_max_iterations = 30, cfg_max_retries = 3, cfg_max_reflections = 2,
      cfg_max_repair_attempts = 5, cfg_autonomy_level = 3,
      cfg_memory_enabled = True, cfg_database = cpy 1024 (Some ''agent.db''),
      cfg_sandbox = True, cfg_workspace = cpy 1024 (Some ''./workspace''),
      cfg_confirm_dangerous_tools = True, cfg_approval = APPROVAL_RISKY,
      cfg_system_prompt_path = cpy 1024 (Some (prompt_dir @ ''/system.txt'')),
      cfg_log_level = cpy 16 (Some ''INFO''), cfg_log_file = [],
      cfg_api_enabled = False, cfg_api_port = 8080\<rparr>"

definition agent_config_parse_approval :: "cptr \<Rightarrow> ApprovalMode" where
  "agent_config_parse_approval s =
     (case s of None \<Rightarrow> APPROVAL_RISKY
      | Some t \<Rightarrow> if t = ''always'' then APPROVAL_ALWAYS
                  else if t = ''never'' then APPROVAL_NEVER else APPROVAL_RISKY)"

fun agent_config_approval_name :: "ApprovalMode \<Rightarrow> cstr" where
  "agent_config_approval_name APPROVAL_ALWAYS = ''always''"
| "agent_config_approval_name APPROVAL_NEVER = ''never''"
| "agent_config_approval_name APPROVAL_RISKY = ''risky''"

text \<open>The overlay, one block of the file at a time, in the order of the code.\<close>

record float_conv =
  narrow :: "f64 \<Rightarrow> f32"
  widen :: "f32 \<Rightarrow> f64"

definition load_model :: "float_conv \<Rightarrow> json \<Rightarrow> AgentConfig \<Rightarrow> AgentConfig" where
  "load_model fc m c = c\<lparr>
     cfg_backend := cpy 32 (jx_str m ''backend'' (Some (cfg_backend c))),
     cfg_model_dir := cpy 1024 (jx_str m ''model_dir'' (Some (cfg_model_dir c))),
     cfg_tok_dir := cpy 1024 (jx_str m ''tok_dir'' (Some (cfg_tok_dir c))),
     cfg_cfg_path := cpy 1024 (jx_str m ''config_path'' (Some (cfg_cfg_path c))),
     cfg_trunk_dir := cpy 1024 (jx_str m ''trunk_dir'' (Some (cfg_trunk_dir c))),
     cfg_trunk_gb := jx_num m ''trunk_gb'' (cfg_trunk_gb c),
     cfg_cache_gb := jx_num m ''cache_gb'' (cfg_cache_gb c),
     cfg_n_layers := jx_int m ''layers'' (cfg_n_layers c),
     cfg_max_tokens := jx_int m ''max_tokens'' (cfg_max_tokens c),
     cfg_temperature := narrow fc (jx_num m ''temperature'' (widen fc (cfg_temperature c))),
     cfg_top_p := narrow fc (jx_num m ''top_p'' (widen fc (cfg_top_p c)))\<rparr>"

definition load_agent :: "json \<Rightarrow> AgentConfig \<Rightarrow> AgentConfig" where
  "load_agent a c = c\<lparr>
     cfg_max_iterations := jx_int a ''max_iterations'' (cfg_max_iterations c),
     cfg_max_retries := jx_int a ''max_retries'' (cfg_max_retries c),
     cfg_max_reflections := jx_int a ''max_reflections'' (cfg_max_reflections c),
     cfg_max_repair_attempts := jx_int a ''max_repair_attempts'' (cfg_max_repair_attempts c),
     cfg_autonomy_level := jx_int a ''autonomy_level'' (cfg_autonomy_level c)\<rparr>"

definition load_memory :: "json \<Rightarrow> AgentConfig \<Rightarrow> AgentConfig" where
  "load_memory m c = c\<lparr>
     cfg_memory_enabled := jx_bool m ''enabled'' (cfg_memory_enabled c),
     cfg_database := cpy 1024 (jx_str m ''database'' (Some (cfg_database c)))\<rparr>"

definition load_security :: "json \<Rightarrow> AgentConfig \<Rightarrow> AgentConfig" where
  "load_security s c = c\<lparr>
     cfg_sandbox := jx_bool s ''sandbox'' (cfg_sandbox c),
     cfg_workspace := cpy 1024 (jx_str s ''workspace'' (Some (cfg_workspace c))),
     cfg_confirm_dangerous_tools :=
       jx_bool s ''confirm_dangerous_tools'' (cfg_confirm_dangerous_tools c),
     cfg_approval := agent_config_parse_approval
       (jx_str s ''approval'' (Some (agent_config_approval_name (cfg_approval c))))\<rparr>"

definition load_prompts :: "json \<Rightarrow> AgentConfig \<Rightarrow> AgentConfig" where
  "load_prompts p c = c\<lparr>
     cfg_system_prompt_path := cpy 1024 (jx_str p ''system'' (Some (cfg_system_prompt_path c)))\<rparr>"

definition load_logging :: "json \<Rightarrow> AgentConfig \<Rightarrow> AgentConfig" where
  "load_logging l c = c\<lparr>
     cfg_log_level := cpy 16 (jx_str l ''level'' (Some (cfg_log_level c))),
     cfg_log_file := cpy 1024 (jx_str l ''file'' (Some (cfg_log_file c)))\<rparr>"

definition load_api :: "json \<Rightarrow> AgentConfig \<Rightarrow> AgentConfig" where
  "load_api a c = c\<lparr>
     cfg_api_enabled := jx_bool a ''enabled'' (cfg_api_enabled c),
     cfg_api_port := jx_int a ''port'' (cfg_api_port c)\<rparr>"

definition overlay ::
  "json \<Rightarrow> cstr \<Rightarrow> (json \<Rightarrow> AgentConfig \<Rightarrow> AgentConfig) \<Rightarrow> AgentConfig \<Rightarrow> AgentConfig" where
  "overlay root key load c = (case jx_obj root key of None \<Rightarrow> c | Some ob \<Rightarrow> load ob c)"

definition clamp_autonomy :: "AgentConfig \<Rightarrow> AgentConfig" where
  "clamp_autonomy c =
     (let c1 = (if cfg_autonomy_level c < 0 then c\<lparr>cfg_autonomy_level := 0\<rparr> else c)
      in if cfg_autonomy_level c1 > 4 then c1\<lparr>cfg_autonomy_level := 4\<rparr> else c1)"

definition agent_config_load ::
  "json_parser \<Rightarrow> float_conv \<Rightarrow> cstr \<Rightarrow> cptr \<Rightarrow> int \<times> AgentConfig" where
  "agent_config_load parse fc prompt_dir data =
     (let c = agent_config_defaults prompt_dir in
      case data of
        None \<Rightarrow> (0, c)
      | Some d \<Rightarrow>
          (case parse d of
             None \<Rightarrow> (-1, c)
           | Some root \<Rightarrow>
               (0, clamp_autonomy
                    (overlay root ''api'' load_api
                    (overlay root ''logging'' load_logging
                    (overlay root ''prompts'' load_prompts
                    (overlay root ''security'' load_security
                    (overlay root ''memory'' load_memory
                    (overlay root ''agent'' load_agent
                    (overlay root ''model'' (load_model fc) c))))))))))"

section \<open>What every loaded configuration satisfies\<close>

text \<open>Every string fits its buffer with its terminator, and the autonomy level is a level.\<close>

definition strings_fit :: "AgentConfig \<Rightarrow> bool" where
  "strings_fit c \<longleftrightarrow>
     length (cfg_backend c) < 32 \<and> length (cfg_log_level c) < 16 \<and>
     (\<forall>s \<in> {cfg_model_dir c, cfg_tok_dir c, cfg_cfg_path c, cfg_trunk_dir c, cfg_database c,
            cfg_workspace c, cfg_system_prompt_path c, cfg_log_file c}. length s < 1024)"

definition config_ok :: "AgentConfig \<Rightarrow> bool" where
  "config_ok c \<longleftrightarrow> strings_fit c \<and> 0 \<le> cfg_autonomy_level c \<and> cfg_autonomy_level c \<le> 4"

lemma length_cpy: "0 < n \<Longrightarrow> length (cpy n src) < n"
  by (simp add: cpy_def length_snprintf_s split: option.split)

lemma strings_fit_defaults: "strings_fit (agent_config_defaults d)"
  by (simp add: strings_fit_def agent_config_defaults_def length_cpy)

lemma strings_fit_overlay [agent_intros]:
  "strings_fit c \<Longrightarrow> strings_fit (overlay root k (load_model fc) c)"
  "strings_fit c \<Longrightarrow> strings_fit (overlay root k load_agent c)"
  "strings_fit c \<Longrightarrow> strings_fit (overlay root k load_memory c)"
  "strings_fit c \<Longrightarrow> strings_fit (overlay root k load_security c)"
  "strings_fit c \<Longrightarrow> strings_fit (overlay root k load_prompts c)"
  "strings_fit c \<Longrightarrow> strings_fit (overlay root k load_logging c)"
  "strings_fit c \<Longrightarrow> strings_fit (overlay root k load_api c)"
  by (auto simp: strings_fit_def overlay_def load_model_def load_agent_def load_memory_def
      load_security_def load_prompts_def load_logging_def load_api_def length_cpy
      split: option.split)

lemma config_ok_clamp: "strings_fit c \<Longrightarrow> config_ok (clamp_autonomy c)"
  by (auto simp: config_ok_def strings_fit_def clamp_autonomy_def Let_def)

lemma agent_config_load_ok: "config_ok (snd (agent_config_load parse fc d data))"
proof -
  have "config_ok (agent_config_defaults d)"
    using strings_fit_defaults [of d] by (simp add: config_ok_def agent_config_defaults_def)
  then show ?thesis
    by (auto simp: agent_config_load_def Let_def split: option.split
        intro!: config_ok_clamp agent_intros strings_fit_defaults)
qed

lemma parse_approval_name: "agent_config_parse_approval (Some (agent_config_approval_name m)) = m"
  by (cases m) (simp_all add: agent_config_parse_approval_def)

end
