(* ===== verification/Agent_Permissions.thy ===== *)
theory Agent_Permissions
  imports Agent_Config
begin

text \<open>
  The permission policy, \<open>agent/security/permissions.c\<close>: the bounded table of per-tool overrides,
  the autonomy levels and the confirmation rule. The locale \<open>override_table\<close> is the contract
  of a bounded first-match table; the model's \<open>find\<close>/\<open>permissions_set\<close> pair interprets it.
\<close>

section \<open>Security levels (tool.h)\<close>

datatype SecurityLevel = SEC_SAFE | SEC_LOW_RISK | SEC_MEDIUM_RISK | SEC_HIGH_RISK | SEC_CRITICAL

text \<open>The enum's order, which the code compares with \<open>\<le>\<close> and \<open>\<ge>\<close>.\<close>

fun level_rank :: "SecurityLevel \<Rightarrow> nat" where
  "level_rank SEC_SAFE = 0"
| "level_rank SEC_LOW_RISK = 1"
| "level_rank SEC_MEDIUM_RISK = 2"
| "level_rank SEC_HIGH_RISK = 3"
| "level_rank SEC_CRITICAL = 4"

instantiation SecurityLevel :: linorder
begin

definition less_eq_SecurityLevel :: "SecurityLevel \<Rightarrow> SecurityLevel \<Rightarrow> bool" where
  "less_eq_SecurityLevel a b \<longleftrightarrow> level_rank a \<le> level_rank b"

definition less_SecurityLevel :: "SecurityLevel \<Rightarrow> SecurityLevel \<Rightarrow> bool" where
  "less_SecurityLevel a b \<longleftrightarrow> level_rank a < level_rank b"

instance
proof
  fix a b :: SecurityLevel
  assume "a \<le> b" "b \<le> a"
  then show "a = b" by (cases a; cases b) (simp_all add: less_eq_SecurityLevel_def)
qed (auto simp: less_eq_SecurityLevel_def less_SecurityLevel_def)

end

lemmas level_ord = less_eq_SecurityLevel_def less_SecurityLevel_def

fun security_level_name :: "SecurityLevel \<Rightarrow> cstr" where
  "security_level_name SEC_SAFE = ''SAFE''"
| "security_level_name SEC_LOW_RISK = ''LOW_RISK''"
| "security_level_name SEC_MEDIUM_RISK = ''MEDIUM_RISK''"
| "security_level_name SEC_HIGH_RISK = ''HIGH_RISK''"
| "security_level_name SEC_CRITICAL = ''CRITICAL''"

section \<open>The policy\<close>

record ToolPerm =
  tp_name :: cstr
  tp_enabled :: bool
  tp_require_confirmation :: bool
  tp_has_override :: bool

record Permissions =
  perm_tools :: "ToolPerm list"
  perm_approval :: ApprovalMode
  perm_autonomy :: int

definition PERM_MAX :: nat where "PERM_MAX = 64"
definition PERM_NAME :: nat where "PERM_NAME = 64"

definition permissions_create :: "ApprovalMode \<Rightarrow> int \<Rightarrow> Permissions" where
  "permissions_create ap lvl = \<lparr>perm_tools = [], perm_approval = ap, perm_autonomy = lvl\<rparr>"

text \<open>\<open>find\<close> returns the index of the first entry of that name.\<close>

fun find_perm :: "ToolPerm list \<Rightarrow> cstr \<Rightarrow> nat option" where
  "find_perm [] tool = None"
| "find_perm (tp # tps) tool =
     (if tp_name tp = tool then Some 0 else map_option Suc (find_perm tps tool))"

definition permissions_set :: "Permissions \<Rightarrow> cstr \<Rightarrow> bool \<Rightarrow> bool \<Rightarrow> Permissions" where
  "permissions_set p tool enabled conf =
     (let fill = (\<lambda>tp. tp\<lparr>tp_enabled := enabled, tp_require_confirmation := conf,
                          tp_has_override := True\<rparr>) in
      case find_perm (perm_tools p) tool of
        Some i \<Rightarrow> p\<lparr>perm_tools := (perm_tools p)[i := fill (perm_tools p ! i)]\<rparr>
      | None \<Rightarrow>
          if length (perm_tools p) < PERM_MAX then
            p\<lparr>perm_tools := perm_tools p @
               [fill \<lparr>tp_name = snprintf_s PERM_NAME tool, tp_enabled = False,
                      tp_require_confirmation = False, tp_has_override = False\<rparr>]\<rparr>
          else p)"

definition lookup_perm :: "Permissions \<Rightarrow> cstr \<Rightarrow> ToolPerm option" where
  "lookup_perm p tool = map_option (\<lambda>i. perm_tools p ! i) (find_perm (perm_tools p) tool)"

fun load_entries :: "(cstr \<times> json) list \<Rightarrow> Permissions \<Rightarrow> Permissions" where
  "load_entries [] p = p"
| "load_entries ((k, it) # rest) p =
     (if \<not> is_object it then load_entries rest p
      else if k = ''approval'' \<or> k = ''autonomy_level'' \<or> k = ''tools'' then load_entries rest p
      else load_entries rest
             (permissions_set p k (jx_bool it ''enabled'' True)
                (jx_bool it ''require_confirmation'' False)))"

fun children :: "json \<Rightarrow> (cstr \<times> json) list" where
  "children (JObject kvs) = kvs"
| "children _ = []"

text \<open>
  The file's content is an argument (\<open>None\<close>: no readable file, or no path). Children of an array at
  the top level have no name and are skipped, which \<open>children\<close> models as no child.
\<close>

definition permissions_load :: "json_parser \<Rightarrow> Permissions \<Rightarrow> cptr \<Rightarrow> int \<times> Permissions" where
  "permissions_load parse p data =
     (case data of
        None \<Rightarrow> (0, p)
      | Some d \<Rightarrow>
          (case parse d of
             None \<Rightarrow> (-1, p)
           | Some root \<Rightarrow>
               let p1 = (case jx_str root ''approval'' None of
                           None \<Rightarrow> p
                         | Some ap \<Rightarrow> p\<lparr>perm_approval := agent_config_parse_approval (Some ap)\<rparr>);
                   p2 = (case get_item root ''autonomy_level'' of
                           Some (JNumber i _) \<Rightarrow> p1\<lparr>perm_autonomy := i\<rparr>
                         | _ \<Rightarrow> p1);
                   scan = (case jx_obj root ''tools'' of
                             Some t \<Rightarrow> children t
                           | None \<Rightarrow> children root)
               in (0, load_entries scan p2)))"

definition permissions_is_enabled :: "Permissions \<Rightarrow> cstr \<Rightarrow> bool" where
  "permissions_is_enabled p tool =
     (case lookup_perm p tool of None \<Rightarrow> True | Some tp \<Rightarrow> tp_enabled tp)"

definition permissions_autonomy_allows :: "Permissions \<Rightarrow> SecurityLevel \<Rightarrow> bool" where
  "permissions_autonomy_allows p lvl =
     (if perm_autonomy p = 0 then False
      else if perm_autonomy p = 1 then False
      else if perm_autonomy p = 2 then lvl \<le> SEC_SAFE
      else if perm_autonomy p = 3 then lvl \<le> SEC_MEDIUM_RISK
      else if perm_autonomy p = 4 then lvl \<le> SEC_HIGH_RISK
      else lvl \<le> SEC_SAFE)"

definition permissions_needs_confirmation :: "Permissions \<Rightarrow> cstr \<Rightarrow> SecurityLevel \<Rightarrow> bool" where
  "permissions_needs_confirmation p tool lvl =
     (let tp = lookup_perm p tool in
      if perm_approval p = APPROVAL_NEVER then lvl \<ge> SEC_CRITICAL
      else if perm_approval p = APPROVAL_ALWAYS then True
      else if (case tp of None \<Rightarrow> False
               | Some t \<Rightarrow> tp_has_override t \<and> tp_require_confirmation t) then True
      else if \<not> permissions_autonomy_allows p lvl then True
      else if lvl \<ge> SEC_MEDIUM_RISK \<and> perm_autonomy p < 4 then True
      else if lvl \<ge> SEC_HIGH_RISK then True
      else False)"

section \<open>The table as a contract\<close>

text \<open>
  A bounded table of named overrides. A name that fits the table's buffer is found again after it
  was set, with what was set; other names are unaffected; a full table drops new names.
\<close>

locale override_table =
  fixes look :: "'t \<Rightarrow> cstr \<Rightarrow> 'v option"
    and set_entry :: "'t \<Rightarrow> cstr \<Rightarrow> 'v \<Rightarrow> 't"
    and has_room :: "'t \<Rightarrow> bool"
    and fits :: "cstr \<Rightarrow> bool"
  assumes look_set: "fits k \<Longrightarrow> has_room t \<or> look t k \<noteq> None \<Longrightarrow> look (set_entry t k v) k = Some v"
    and look_other: "fits k \<Longrightarrow> k' \<noteq> k \<Longrightarrow> look (set_entry t k v) k' = look t k'"
    and look_full: "\<not> has_room t \<Longrightarrow> look t k = None \<Longrightarrow> set_entry t k v = t"
begin

lemma set_set: "fits k \<Longrightarrow> has_room t \<or> look t k \<noteq> None \<Longrightarrow>
    look (set_entry (set_entry t k v) k v') k = Some v'"
  by (intro look_set) (simp_all add: look_set)

lemma set_commute_look:
  assumes "fits k" "fits k'" "k \<noteq> k'" "has_room t \<or> look t k \<noteq> None"
  shows "look (set_entry (set_entry t k v) k' v') k = Some v"
  using assms by (simp add: look_other look_set)

end

lemma find_perm_Some: "find_perm tps tool = Some i \<Longrightarrow> i < length tps \<and> tp_name (tps ! i) = tool"
  by (induction tps arbitrary: i) (auto split: if_splits)

lemma find_perm_append: "find_perm (xs @ ys) tool =
   (case find_perm xs tool of Some i \<Rightarrow> Some i | None \<Rightarrow> map_option (\<lambda>i. length xs + i) (find_perm ys tool))"
proof (cases "find_perm ys tool")
  case None
  then show ?thesis by (induction xs) (auto split: option.split)
next
  case (Some i)
  then show ?thesis by (induction xs) (auto split: option.split)
qed

lemma find_perm_update:
  "i < length tps \<Longrightarrow> tp_name tp = tp_name (tps ! i) \<Longrightarrow> find_perm (tps[i := tp]) tool = find_perm tps tool"
proof (induction tps arbitrary: i)
  case (Cons a tps)
  then show ?case by (cases i) auto
qed simp

text \<open>What an override of a tool says: enabled, and confirmation required.\<close>

definition perm_look :: "Permissions \<Rightarrow> cstr \<Rightarrow> (bool \<times> bool) option" where
  "perm_look p k = map_option (\<lambda>tp. (tp_enabled tp, tp_require_confirmation tp)) (lookup_perm p k)"

definition perm_room :: "Permissions \<Rightarrow> bool" where
  "perm_room p \<longleftrightarrow> length (perm_tools p) < PERM_MAX"

lemma lookup_perm_set:
  assumes "length k < PERM_NAME" and "perm_room p \<or> lookup_perm p k \<noteq> None"
  shows "\<exists>tp. lookup_perm (permissions_set p k e c) k = Some tp \<and> tp_enabled tp = e \<and>
     tp_require_confirmation tp = c \<and> tp_has_override tp"
  using assms find_perm_Some [of "perm_tools p" k]
  by (auto simp: permissions_set_def lookup_perm_def perm_room_def find_perm_append find_perm_update
      snprintf_s_fits Let_def split: option.splits)

lemma lookup_perm_set_other:
  assumes "length k < PERM_NAME" and "k' \<noteq> k"
  shows "lookup_perm (permissions_set p k e c) k' = lookup_perm p k'"
  using assms find_perm_Some [of "perm_tools p" k] find_perm_Some [of "perm_tools p" k']
  by (auto simp: permissions_set_def lookup_perm_def find_perm_append find_perm_update
      snprintf_s_fits nth_list_update nth_append Let_def split: option.splits)

lemma permissions_set_full:
  "\<not> perm_room p \<Longrightarrow> lookup_perm p k = None \<Longrightarrow> permissions_set p k e c = p"
  by (auto simp: permissions_set_def lookup_perm_def perm_room_def split: option.splits)

interpretation pt: override_table perm_look "\<lambda>p k v. permissions_set p k (fst v) (snd v)"
  perm_room "\<lambda>k. length k < PERM_NAME"
proof unfold_locales
  fix k :: cstr and t :: Permissions and v :: "bool \<times> bool"
  assume "length k < PERM_NAME" "perm_room t \<or> perm_look t k \<noteq> None"
  then have "length k < PERM_NAME" "perm_room t \<or> lookup_perm t k \<noteq> None"
    by (auto simp: perm_look_def)
  from lookup_perm_set [OF this, of "fst v" "snd v"]
  obtain tp where "lookup_perm (permissions_set t k (fst v) (snd v)) k = Some tp"
    "tp_enabled tp = fst v" "tp_require_confirmation tp = snd v" by blast
  then show "perm_look (permissions_set t k (fst v) (snd v)) k = Some v"
    by (simp add: perm_look_def)
next
  fix k k' :: cstr and t :: Permissions and v :: "bool \<times> bool"
  assume "length k < PERM_NAME" "k' \<noteq> k"
  then show "perm_look (permissions_set t k (fst v) (snd v)) k' = perm_look t k'"
    by (simp add: perm_look_def lookup_perm_set_other)
next
  fix t :: Permissions and k :: cstr and v :: "bool \<times> bool"
  assume "\<not> perm_room t" "perm_look t k = None"
  then show "permissions_set t k (fst v) (snd v) = t"
    by (simp add: perm_look_def permissions_set_full)
qed

lemma is_enabled_look:
  "permissions_is_enabled p k = (case perm_look p k of None \<Rightarrow> True | Some (e, c) \<Rightarrow> e)"
  by (simp add: permissions_is_enabled_def perm_look_def split: option.split)

section \<open>Shape of the table\<close>

definition perms_ok :: "Permissions \<Rightarrow> bool" where
  "perms_ok p \<longleftrightarrow> length (perm_tools p) \<le> PERM_MAX \<and>
     (\<forall>tp \<in> set (perm_tools p). length (tp_name tp) < PERM_NAME \<and> tp_has_override tp)"

lemma perms_ok_create: "perms_ok (permissions_create ap lvl)"
  by (simp add: perms_ok_def permissions_create_def)

lemma perms_ok_set: "perms_ok p \<Longrightarrow> perms_ok (permissions_set p k e c)"
  using find_perm_Some [of "perm_tools p" k]
  by (auto simp: perms_ok_def permissions_set_def snprintf_s_def PERM_NAME_def Let_def
      dest!: set_update_subset_insert [THEN subsetD] split: option.split)

lemma perms_ok_load_entries: "perms_ok p \<Longrightarrow> perms_ok (load_entries kvs p)"
  by (induction kvs p rule: load_entries.induct) (simp_all add: perms_ok_set)

lemma perms_ok_load: "perms_ok p \<Longrightarrow> perms_ok (snd (permissions_load parse p data))"
  by (auto simp: permissions_load_def Let_def perms_ok_def [of "_ \<lparr>perm_approval := _\<rparr>"]
      perms_ok_def [of "_ \<lparr>perm_autonomy := _\<rparr>"] split: option.split json.split
      intro!: perms_ok_load_entries) (simp_all add: perms_ok_def)

end
