(* ===== verification/Agent_Reasoning.thy ===== *)
theory Agent_Reasoning
  imports Agent_Prelude
begin

text \<open>
  Failure classes, the choice of a recovery strategy, structural verification and the reflection
  budget: \<open>agent/reasoning/verification.c\<close> and \<open>agent/reasoning/reflection.c\<close>. Whether a path
  exists (\<open>fs_exists\<close>) is an argument.
\<close>

section \<open>Failure classes and strategies\<close>

datatype RecoveryClass =
    REC_NONE | REC_TOOL_ERROR | REC_TIMEOUT | REC_INVALID_ARGUMENT | REC_MODEL_ERROR
  | REC_PARSER_ERROR | REC_PERMISSION_ERROR | REC_FILE_NOT_FOUND | REC_COMPILATION_ERROR
  | REC_TEST_FAILURE | REC_NETWORK_ERROR

fun recovery_class_name :: "RecoveryClass \<Rightarrow> cstr" where
  "recovery_class_name REC_NONE = ''NONE''"
| "recovery_class_name REC_TOOL_ERROR = ''TOOL_ERROR''"
| "recovery_class_name REC_TIMEOUT = ''TIMEOUT''"
| "recovery_class_name REC_INVALID_ARGUMENT = ''INVALID_ARGUMENT''"
| "recovery_class_name REC_MODEL_ERROR = ''MODEL_ERROR''"
| "recovery_class_name REC_PARSER_ERROR = ''PARSER_ERROR''"
| "recovery_class_name REC_PERMISSION_ERROR = ''PERMISSION_ERROR''"
| "recovery_class_name REC_FILE_NOT_FOUND = ''FILE_NOT_FOUND''"
| "recovery_class_name REC_COMPILATION_ERROR = ''COMPILATION_ERROR''"
| "recovery_class_name REC_TEST_FAILURE = ''TEST_FAILURE''"
| "recovery_class_name REC_NETWORK_ERROR = ''NETWORK_ERROR''"

datatype RecoveryStrategy = STRAT_RETRY | STRAT_REPLAN | STRAT_ASK_USER | STRAT_ABORT

definition recovery_strategy_for2 ::
  "RecoveryClass \<Rightarrow> int \<Rightarrow> int \<Rightarrow> int \<Rightarrow> RecoveryStrategy" where
  "recovery_strategy_for2 c attempts max_retries max_repair =
     (if c = REC_TIMEOUT \<or> c = REC_NETWORK_ERROR \<or> c = REC_TOOL_ERROR then
        (if attempts < max_retries then STRAT_RETRY else STRAT_REPLAN)
      else if c = REC_COMPILATION_ERROR \<or> c = REC_TEST_FAILURE then
        (if max_repair > 0 \<and> attempts \<ge> max_repair then STRAT_ABORT else STRAT_REPLAN)
      else if c = REC_INVALID_ARGUMENT \<or> c = REC_PARSER_ERROR then
        (if attempts < max_retries then STRAT_REPLAN else STRAT_ASK_USER)
      else if c = REC_FILE_NOT_FOUND then STRAT_REPLAN
      else if c = REC_PERMISSION_ERROR then STRAT_ASK_USER
      else if c = REC_MODEL_ERROR then
        (if attempts < max_retries then STRAT_RETRY else STRAT_ABORT)
      else STRAT_ABORT)"

definition recovery_strategy_for :: "RecoveryClass \<Rightarrow> int \<Rightarrow> int \<Rightarrow> RecoveryStrategy" where
  "recovery_strategy_for c attempts max_retries = recovery_strategy_for2 c attempts max_retries 5"

lemma strategy_retry_bounded:
  "recovery_strategy_for2 c attempts mr mp = STRAT_RETRY \<Longrightarrow> attempts < mr"
  by (auto simp: recovery_strategy_for2_def split: if_splits)

lemma strategy_permission: "recovery_strategy_for2 REC_PERMISSION_ERROR a mr mp = STRAT_ASK_USER"
  by (simp add: recovery_strategy_for2_def)

lemma strategy_parser:
  "recovery_strategy_for2 REC_PARSER_ERROR a mr mp = (if a < mr then STRAT_REPLAN else STRAT_ASK_USER)"
  by (simp add: recovery_strategy_for2_def)

section \<open>Structural verification\<close>

text \<open>The loop both \<open>contains_ci\<close> functions run: a case-insensitive match at some byte of \<open>hay\<close>.\<close>

fun ci_match :: "cstr \<Rightarrow> cstr \<Rightarrow> bool" where
  "ci_match [] needle = False"
| "ci_match (c # cs) needle =
     (if strncasecmp_eq (c # cs) needle (length needle) then True else ci_match cs needle)"

definition contains_ci :: "cptr \<Rightarrow> cptr \<Rightarrow> bool" where
  "contains_ci hay needle =
     (case (hay, needle) of
        (Some h, Some n) \<Rightarrow> n \<noteq> [] \<and> ci_match h n
      | _ \<Rightarrow> False)"

lemma ci_match_iff:
  assumes "needle \<noteq> []"
  shows "ci_match hay needle \<longleftrightarrow> sublist (map c_tolower needle) (map c_tolower hay)"
proof (induction hay)
  case Nil
  show ?case using assms by simp
next
  case (Cons c cs)
  have "strncasecmp_eq (c # cs) needle (length needle) \<longleftrightarrow>
        prefix (map c_tolower needle) (map c_tolower (c # cs))"
    by (auto simp: strncasecmp_eq_def prefix_iff_take simp flip: take_map)
  then show ?case using Cons by (auto simp: sublist_Cons_right)
qed

record VerifyCheck =
  vc_kind :: cptr
  vc_arg :: cptr

text \<open>The verdict and, on failure (or for an unknown kind), the reason, cut to its buffer.\<close>

definition verify_check ::
  "(cstr \<Rightarrow> bool) \<Rightarrow> VerifyCheck option \<Rightarrow> cptr \<Rightarrow> cptr \<Rightarrow> int \<Rightarrow> bool \<times> cptr" where
  "verify_check fs_exists vc workspace observation last_exit_code =
     (case vc of
        None \<Rightarrow> (True, None)
      | Some v \<Rightarrow>
          (case vc_kind v of
             None \<Rightarrow> (True, None)
           | Some kind \<Rightarrow>
               if kind = ''file_exists'' then
                 (let path = (if nonempty_str (vc_arg v) \<and> hd (the (vc_arg v)) = CHR ''/''
                              then snprintf_s 4096 (the (vc_arg v))
                              else snprintf_s 4096 (or_default workspace ''.'' @ ''/'' @
                                     or_default (vc_arg v) []))
                  in if fs_exists path then (True, None)
                     else (False, Some (snprintf_s 4200 (''file does not exist: '' @ path))))
               else if kind = ''contains'' then
                 (if contains_ci observation (vc_arg v) then (True, None)
                  else (False, Some (snprintf_s 512
                         (''output does not contain '' @ [SQ] @ or_default (vc_arg v) [] @ [SQ]))))
               else if kind = ''exit_zero'' then
                 (if last_exit_code = 0 then (True, None)
                  else (False, Some (snprintf_s 128
                         (''exit code was '' @ show_int last_exit_code @ '', expected 0''))))
               else if kind = ''nonempty'' then
                 (if nonempty_str observation then (True, None)
                  else (False, Some ''observation was empty''))
               else (True, Some (snprintf_s 128
                      (''unknown verification kind '' @ [SQ] @ kind @ [SQ])))))"

text \<open>A failed check always explains itself.\<close>

lemma verify_check_reason:
  "verify_check ex vc ws obs ec = (False, r) \<Longrightarrow> r \<noteq> None"
  by (auto simp: verify_check_def Let_def split: option.splits if_splits)

section \<open>Bounded reflection\<close>

record ReflectionBudget =
  refl_used :: int
  refl_max :: int

definition reflection_init :: "int \<Rightarrow> ReflectionBudget" where
  "reflection_init max_per_step =
     \<lparr>refl_used = 0, refl_max = (if max_per_step > 0 then max_per_step else 2)\<rparr>"

definition reflection_reset :: "ReflectionBudget \<Rightarrow> ReflectionBudget" where
  "reflection_reset r = r\<lparr>refl_used := 0\<rparr>"

definition reflection_allowed :: "ReflectionBudget \<Rightarrow> bool \<times> ReflectionBudget" where
  "reflection_allowed r =
     (if refl_used r \<ge> refl_max r then (False, r) else (True, r\<lparr>refl_used := refl_used r + 1\<rparr>))"

definition reflection_prompt :: "cptr \<Rightarrow> cptr \<Rightarrow> cptr \<Rightarrow> cstr" where
  "reflection_prompt action_summary observation expected =
     ''Reflect briefly on the last action, then decide the next action.'' @ [LF] @
     (case action_summary of None \<Rightarrow> [] | Some a \<Rightarrow> ''Action: '' @ a @ [LF]) @
     (case expected of None \<Rightarrow> [] | Some e \<Rightarrow> ''Expected: '' @ e @ [LF]) @
     (case observation of None \<Rightarrow> [] | Some b \<Rightarrow> ''Observed: '' @ b @ [LF]) @
     ''Did it achieve the expected result? What should happen next?'' @ [LF]"

definition budget_ok :: "ReflectionBudget \<Rightarrow> bool" where
  "budget_ok r \<longleftrightarrow> 0 \<le> refl_used r \<and> refl_used r \<le> refl_max r \<and> 0 < refl_max r"

lemma budget_ok_init [agent_intros]: "budget_ok (reflection_init m)"
  by (simp add: budget_ok_def reflection_init_def)

lemma budget_ok_reset [agent_intros]: "budget_ok r \<Longrightarrow> budget_ok (reflection_reset r)"
  by (simp add: budget_ok_def reflection_reset_def)

lemma budget_ok_allowed [agent_intros]: "budget_ok r \<Longrightarrow> budget_ok (snd (reflection_allowed r))"
  by (simp add: budget_ok_def reflection_allowed_def)

text \<open>How many reflections in a row a budget grants.\<close>

fun grants :: "nat \<Rightarrow> ReflectionBudget \<Rightarrow> nat" where
  "grants 0 r = 0"
| "grants (Suc n) r =
     (case reflection_allowed r of (ok, r') \<Rightarrow> (if ok then 1 else 0) + grants n r')"

lemma grants_bounded: "budget_ok r \<Longrightarrow> int (grants n r) \<le> refl_max r - refl_used r"
proof (induction n arbitrary: r)
  case (Suc n)
  have "budget_ok (snd (reflection_allowed r))" using Suc.prems by (rule budget_ok_allowed)
  from Suc.IH [OF this] Suc.prems show ?case
    by (auto simp: reflection_allowed_def budget_ok_def split: if_splits)
qed (simp add: budget_ok_def)

text \<open>After a reset the next reflection is always allowed.\<close>

lemma reset_allows: "budget_ok r \<Longrightarrow> fst (reflection_allowed (reflection_reset r))"
  by (simp add: budget_ok_def reflection_allowed_def reflection_reset_def)

end
