(* ===== verification/Agent_Protocol.thy ===== *)
theory Agent_Protocol
  imports Agent_Json
begin

text \<open>
  The action protocol between model and runtime, \<open>agent/planner/protocol.c\<close>: parsing model
  output into an action and validating the action against the tools that exist.
\<close>

datatype ActionType = ACT_INVALID | ACT_TOOL | ACT_FINAL | ACT_ASK_USER | ACT_PLAN | ACT_REFLECT

record AgentAction =
  act_type :: ActionType
  act_tool :: cptr
  act_arguments :: "json option"
  act_answer :: cptr
  act_question :: cptr
  act_message :: cptr
  act_expected_result :: cptr
  act_reason :: cptr
  act_steps :: "json option"
  act_raw :: cptr
  act_error :: cstr

fun action_type_name :: "ActionType \<Rightarrow> cstr" where
  "action_type_name ACT_TOOL = ''tool''"
| "action_type_name ACT_FINAL = ''final''"
| "action_type_name ACT_ASK_USER = ''ask_user''"
| "action_type_name ACT_PLAN = ''plan''"
| "action_type_name ACT_REFLECT = ''reflect''"
| "action_type_name ACT_INVALID = ''invalid''"

definition agent_action_init :: AgentAction where
  "agent_action_init =
     \<lparr>act_type = ACT_INVALID, act_tool = None, act_arguments = None, act_answer = None,
      act_question = None, act_message = None, act_expected_result = None, act_reason = None,
      act_steps = None, act_raw = None, act_error = []\<rparr>"

definition type_of_name :: "cptr \<Rightarrow> ActionType" where
  "type_of_name s =
     (case s of None \<Rightarrow> ACT_INVALID
      | Some t \<Rightarrow>
          if t = ''tool'' then ACT_TOOL
          else if t = ''final'' then ACT_FINAL
          else if t = ''ask_user'' then ACT_ASK_USER
          else if t = ''plan'' then ACT_PLAN
          else if t = ''reflect'' then ACT_REFLECT
          else ACT_INVALID)"

definition set_error :: "cstr \<Rightarrow> AgentAction \<Rightarrow> AgentAction" where
  "set_error msg a = a\<lparr>act_error := snprintf_s 256 msg\<rparr>"

definition fill_from_obj :: "AgentAction \<Rightarrow> json \<Rightarrow> AgentAction" where
  "fill_from_obj a0 obj =
     (let act = jx_str obj ''action'' None;
          a = a0\<lparr>act_type := type_of_name act, act_reason := jx_strdup obj ''reason'',
                 act_expected_result := jx_strdup obj ''expected_result''\<rparr>
      in case act_type a of
           ACT_TOOL \<Rightarrow>
             a\<lparr>act_tool := jx_strdup obj ''tool'',
               act_arguments :=
                 (case jx_obj obj ''arguments'' of
                    Some args \<Rightarrow> Some args
                  | None \<Rightarrow> (case jx_obj obj ''input'' of
                               Some args \<Rightarrow> Some args
                             | None \<Rightarrow> Some (JObject [])))\<rparr>
         | ACT_FINAL \<Rightarrow>
             a\<lparr>act_answer := (case jx_strdup obj ''answer'' of
                                Some s \<Rightarrow> Some s | None \<Rightarrow> jx_strdup obj ''message'')\<rparr>
         | ACT_ASK_USER \<Rightarrow> a\<lparr>act_question := jx_strdup obj ''question''\<rparr>
         | ACT_REFLECT \<Rightarrow> a\<lparr>act_message := jx_strdup obj ''message''\<rparr>
         | ACT_PLAN \<Rightarrow> a\<lparr>act_steps := jx_arr obj ''steps''\<rparr>
         | ACT_INVALID \<Rightarrow>
             set_error (''unknown or missing action '' @ [SQ] @ or_default act ''(none)'' @ [SQ]) a)"

definition agent_action_parse ::
  "json_parser \<Rightarrow> json_printer \<Rightarrow> cptr \<Rightarrow> AgentAction" where
  "agent_action_parse parse print model_text =
     (case model_text of
        None \<Rightarrow> set_error ''empty model output'' agent_action_init
      | Some src \<Rightarrow>
          (case jx_extract_object parse src of
             Some (obj, start, n) \<Rightarrow>
               fill_from_obj (agent_action_init\<lparr>act_raw := Some (take n start)\<rparr>) obj
           | None \<Rightarrow>
               (case jx_repair_object parse src of
                  Some obj \<Rightarrow> fill_from_obj (agent_action_init\<lparr>act_raw := Some (print obj)\<rparr>) obj
                | None \<Rightarrow>
                    set_error ''no valid JSON action object found in model output''
                      agent_action_init)))"

definition agent_action_validate :: "AgentAction \<Rightarrow> cstr list option \<Rightarrow> bool \<times> AgentAction" where
  "agent_action_validate a tool_names =
     (case act_type a of
        ACT_INVALID \<Rightarrow>
          (False, if act_error a = [] then set_error ''invalid action'' a else a)
      | ACT_TOOL \<Rightarrow>
          if \<not> nonempty_str (act_tool a) then
            (False, set_error (''tool action missing '' @ [SQ] @ ''tool'' @ [SQ] @ '' name'') a)
          else if (case tool_names of None \<Rightarrow> False
                   | Some names \<Rightarrow> the (act_tool a) \<notin> set names) then
            (False, set_error (''unknown tool '' @ [SQ] @ the (act_tool a) @ [SQ]) a)
          else if (case act_arguments a of None \<Rightarrow> True | Some v \<Rightarrow> \<not> is_object v) then
            (False, set_error ''tool action arguments must be an object'' a)
          else (True, a)
      | ACT_FINAL \<Rightarrow>
          if act_answer a = None then
            (False, set_error (''final action missing '' @ [SQ] @ ''answer'' @ [SQ]) a)
          else (True, a)
      | ACT_ASK_USER \<Rightarrow>
          if \<not> nonempty_str (act_question a) then
            (False, set_error (''ask_user action missing '' @ [SQ] @ ''question'' @ [SQ]) a)
          else (True, a)
      | ACT_PLAN \<Rightarrow>
          (case act_steps a of
             Some v \<Rightarrow> if is_array v \<and> array_size v \<noteq> 0 then (True, a)
               else (False, set_error (''plan action needs a non-empty '' @ [SQ] @ ''steps'' @
                      [SQ] @ '' array'') a)
           | None \<Rightarrow> (False, set_error (''plan action needs a non-empty '' @ [SQ] @ ''steps'' @
                      [SQ] @ '' array'') a))
      | ACT_REFLECT \<Rightarrow> (True, a))"

section \<open>What a validated action is\<close>

definition wf_action :: "cstr list \<Rightarrow> AgentAction \<Rightarrow> bool" where
  "wf_action names a \<longleftrightarrow>
     (case act_type a of
        ACT_INVALID \<Rightarrow> False
      | ACT_TOOL \<Rightarrow> (\<exists>t args. act_tool a = Some t \<and> t \<noteq> [] \<and> t \<in> set names \<and>
                       act_arguments a = Some (JObject args))
      | ACT_FINAL \<Rightarrow> act_answer a \<noteq> None
      | ACT_ASK_USER \<Rightarrow> (\<exists>q. act_question a = Some q \<and> q \<noteq> [])
      | ACT_PLAN \<Rightarrow> (\<exists>xs. act_steps a = Some (JArray xs) \<and> xs \<noteq> [])
      | ACT_REFLECT \<Rightarrow> True)"

lemma is_object_iff: "is_object v \<longleftrightarrow> (\<exists>kvs. v = JObject kvs)"
  by (cases v) auto

lemma is_array_iff: "is_array v \<longleftrightarrow> (\<exists>xs. v = JArray xs)"
  by (cases v) auto

lemma validate_sound:
  "fst (agent_action_validate a (Some names)) \<longleftrightarrow> wf_action names a"
proof (cases "act_type a")
  case ACT_TOOL
  then show ?thesis
    by (cases "act_tool a"; cases "act_arguments a")
      (simp_all add: agent_action_validate_def wf_action_def is_object_iff)
next
  case ACT_ASK_USER
  then show ?thesis
    by (cases "act_question a") (simp_all add: agent_action_validate_def wf_action_def)
next
  case ACT_PLAN
  show ?thesis
  proof (cases "act_steps a")
    case (Some v)
    with ACT_PLAN show ?thesis
      by (cases v) (simp_all add: agent_action_validate_def wf_action_def)
  qed (simp add: ACT_PLAN agent_action_validate_def wf_action_def)
qed (simp_all add: agent_action_validate_def wf_action_def)

lemma validate_ok_same: "fst (agent_action_validate a names) \<Longrightarrow> snd (agent_action_validate a names) = a"
  by (cases "act_type a")
    (auto simp: agent_action_validate_def simp del: append.simps split: option.splits if_splits)

text \<open>A rejected action always carries a reason.\<close>

lemma set_error_nonempty: "msg \<noteq> [] \<Longrightarrow> act_error (set_error msg a) \<noteq> []"
  by (simp add: set_error_def snprintf_s_def)

lemma validate_explains:
  "\<not> fst (agent_action_validate a names) \<Longrightarrow> act_error (snd (agent_action_validate a names)) \<noteq> []"
  by (cases "act_type a")
    (simp_all add: agent_action_validate_def set_error_nonempty split: option.splits if_split_asm, blast)

lemma type_of_name_round: "t \<noteq> ACT_INVALID \<Longrightarrow> type_of_name (Some (action_type_name t)) = t"
  by (cases t) (simp_all add: type_of_name_def)

end
