(* ===== verification/Agent_Plan.thy ===== *)
theory Agent_Plan
  imports Agent_Json
begin

text \<open>
  Plans: \<open>agent/planner/plan_parser.c\<close> (parsing, validation and serialisation) and
  \<open>agent/planner/planner.c\<close> (asking the model, with a single-step fallback), over the backend
  interface of \<open>agent/model/model_interface.h\<close>. The backend acts on a world \<open>'w\<close> that the
  definitions thread; the printer, \<open>(double) int\<close> and the float addition of the temperature
  schedule are arguments.
\<close>

section \<open>The model backend (model_interface.h)\<close>

record K3GenerationRequest =
  req_prompt :: cstr
  req_max_tokens :: int
  req_temperature :: f32
  req_top_p :: f32

record K3GenerationResult =
  res_text :: cptr
  res_error :: cstr

record 'w ModelBackend =
  mb_generate :: "K3GenerationRequest \<Rightarrow> 'w \<Rightarrow> (int \<times> K3GenerationResult) \<times> 'w"
  mb_count_tokens :: "(cstr \<Rightarrow> int) option"
  mb_context_window :: int

section \<open>Plans (plan_parser.c)\<close>

record PlanStep =
  step_id :: int
  step_description :: cptr
  step_tool :: cptr
  step_expected_result :: cptr
  step_verification :: cptr
  step_done :: bool
  step_ok :: bool

text \<open>\<open>n_steps\<close> is the length of the list.\<close>

record Plan =
  plan_goal :: cptr
  plan_steps :: "PlanStep list"
  plan_error :: cstr

definition plan_init :: Plan where
  "plan_init = \<lparr>plan_goal = None, plan_steps = [], plan_error = []\<rparr>"

abbreviation n_steps :: "Plan \<Rightarrow> int" where
  "n_steps p \<equiv> int (length (plan_steps p))"

definition MAX_PLAN :: int where "MAX_PLAN = 64"

text \<open>One element of the steps array; an object without a description is skipped.\<close>

definition parse_step :: "int \<Rightarrow> json \<Rightarrow> PlanStep option" where
  "parse_step idx it =
     (if \<not> is_object it then None
      else case (case jx_strdup it ''description'' of
                   Some d \<Rightarrow> Some d | None \<Rightarrow> jx_strdup it ''step'') of
             None \<Rightarrow> None
           | Some d \<Rightarrow>
               Some \<lparr>step_id = jx_int it ''id'' (idx + 1), step_description = Some d,
                     step_tool = jx_strdup it ''tool'',
                     step_expected_result = jx_strdup it ''expected_result'',
                     step_verification = jx_strdup it ''verification'',
                     step_done = False, step_ok = False\<rparr>)"

text \<open>The loop over the array: at most \<open>n\<close> usable steps, \<open>idx\<close> of them so far.\<close>

fun steps_loop :: "int \<Rightarrow> json list \<Rightarrow> int \<Rightarrow> PlanStep list" where
  "steps_loop n [] idx = []"
| "steps_loop n (it # rest) idx =
     (if idx \<ge> n then []
      else case parse_step idx it of
             None \<Rightarrow> steps_loop n rest idx
           | Some s \<Rightarrow> s # steps_loop n rest (idx + 1))"

fun elements :: "json \<Rightarrow> json list" where
  "elements (JArray xs) = xs"
| "elements _ = []"

definition plan_from_steps_array :: "json option \<Rightarrow> cptr \<Rightarrow> bool \<times> Plan" where
  "plan_from_steps_array steps goal =
     (case steps of
        None \<Rightarrow> (False, plan_init\<lparr>plan_error := ''steps is not an array''\<rparr>)
      | Some v \<Rightarrow>
          if \<not> is_array v then (False, plan_init\<lparr>plan_error := ''steps is not an array''\<rparr>)
          else if array_size v \<le> 0 then (False, plan_init\<lparr>plan_error := ''empty plan''\<rparr>)
          else let n = min (array_size v) MAX_PLAN;
                   p = plan_init\<lparr>plan_goal := goal, plan_steps := steps_loop n (elements v) 0\<rparr>
               in if plan_steps p = [] then (False, p\<lparr>plan_error := ''no usable steps in plan''\<rparr>)
                  else (True, p))"

text \<open>The fallback format: a bare array of strings under \<open>plan\<close>.\<close>

fun strings_loop :: "int \<Rightarrow> json list \<Rightarrow> int \<Rightarrow> PlanStep list" where
  "strings_loop n [] idx = []"
| "strings_loop n (it # rest) idx =
     (if idx \<ge> n then []
      else case it of
             JString s \<Rightarrow>
               \<lparr>step_id = idx + 1, step_description = Some s, step_tool = Some [],
                step_expected_result = None, step_verification = None,
                step_done = False, step_ok = False\<rparr> # strings_loop n rest (idx + 1)
           | _ \<Rightarrow> strings_loop n rest idx)"

definition plan_from_strings :: "json \<Rightarrow> bool \<times> Plan" where
  "plan_from_strings arr =
     (let n = min (array_size arr) MAX_PLAN;
          p = plan_init\<lparr>plan_steps := strings_loop n (elements arr) 0\<rparr>
      in (plan_steps p \<noteq> [], p))"

text \<open>\<open>plan_parse_text\<close> once an object was found: the steps array, else the fallback format.\<close>

definition plan_from_object :: "json \<Rightarrow> bool \<times> Plan" where
  "plan_from_object ob =
     (let r = plan_from_steps_array (jx_arr ob ''steps'') (jx_str ob ''goal'' None)
      in if fst r then r
         else case jx_arr ob ''plan'' of None \<Rightarrow> r | Some arr \<Rightarrow> plan_from_strings arr)"

definition find_json :: "json_parser \<Rightarrow> cptr \<Rightarrow> json option" where
  "find_json parse model_text =
     (case model_text of
        None \<Rightarrow> None
      | Some t \<Rightarrow> (case jx_extract_object parse t of
                     Some (j, _, _) \<Rightarrow> Some j
                   | None \<Rightarrow> jx_repair_object parse t))"

definition plan_parse_text :: "json_parser \<Rightarrow> cptr \<Rightarrow> bool \<times> Plan" where
  "plan_parse_text parse model_text =
     (case find_json parse model_text of
        None \<Rightarrow> (False, plan_init\<lparr>plan_error := ''no JSON plan found''\<rparr>)
      | Some ob \<Rightarrow> plan_from_object ob)"

section \<open>Serialisation\<close>

definition opt_field :: "cstr \<Rightarrow> cptr \<Rightarrow> (cstr \<times> json) list" where
  "opt_field k v = (case v of None \<Rightarrow> [] | Some s \<Rightarrow> [(k, JString s)])"

definition step_value :: "(int \<Rightarrow> f64) \<Rightarrow> PlanStep \<Rightarrow> json" where
  "step_value dbl s = JObject
     ([(''id'', JNumber (step_id s) (dbl (step_id s)))] @
      opt_field ''description'' (step_description s) @ opt_field ''tool'' (step_tool s) @
      opt_field ''expected_result'' (step_expected_result s) @
      opt_field ''verification'' (step_verification s) @ [(''done'', JBool (step_done s))])"

definition plan_value :: "(int \<Rightarrow> f64) \<Rightarrow> Plan \<Rightarrow> json" where
  "plan_value dbl p = JObject
     (opt_field ''goal'' (plan_goal p) @
      [(''steps'', JArray (map (step_value dbl) (plan_steps p)))])"

definition plan_to_json :: "json_printer \<Rightarrow> (int \<Rightarrow> f64) \<Rightarrow> Plan \<Rightarrow> cstr" where
  "plan_to_json print dbl p = print (plan_value dbl p)"

text \<open>A verification spec \<open>kind:arg\<close>, cut to the scratch buffer: the kind and the argument.\<close>

definition plan_parse_verification :: "cptr \<Rightarrow> nat \<Rightarrow> cptr \<times> cptr" where
  "plan_parse_verification spec scratchsz =
     (if \<not> nonempty_str spec then (None, None)
      else let scratch = snprintf_s scratchsz (the spec)
           in case strchr scratch (CHR '':'') of
                Some t \<Rightarrow> (Some (takeWhile (\<lambda>c. c \<noteq> CHR '':'') scratch), Some (tl t))
              | None \<Rightarrow> (Some scratch, None))"

section \<open>Well-formed plans\<close>

definition step_usable :: "PlanStep \<Rightarrow> bool" where
  "step_usable s \<longleftrightarrow> step_description s \<noteq> None \<and> \<not> step_done s \<and> \<not> step_ok s"

definition plan_ok :: "Plan \<Rightarrow> bool" where
  "plan_ok p \<longleftrightarrow> plan_steps p \<noteq> [] \<and> n_steps p \<le> MAX_PLAN \<and> (\<forall>s \<in> set (plan_steps p). step_usable s)"

lemma parse_step_usable: "parse_step idx it = Some s \<Longrightarrow> step_usable s"
  by (auto simp: parse_step_def step_usable_def split: if_splits option.splits)

lemma steps_loop_usable: "s \<in> set (steps_loop n its idx) \<Longrightarrow> step_usable s"
  by (induction n its idx rule: steps_loop.induct)
    (auto split: if_splits option.splits dest: parse_step_usable)

lemma steps_loop_length: "idx \<le> n \<Longrightarrow> int (length (steps_loop n its idx)) \<le> n - idx"
  by (induction n its idx rule: steps_loop.induct) (auto split: option.splits)

lemma strings_loop_usable: "s \<in> set (strings_loop n its idx) \<Longrightarrow> step_usable s"
  by (induction n its idx rule: strings_loop.induct)
    (auto simp: step_usable_def split: if_splits json.splits)

lemma strings_loop_length: "idx \<le> n \<Longrightarrow> int (length (strings_loop n its idx)) \<le> n - idx"
  by (induction n its idx rule: strings_loop.induct) (auto split: json.splits)

lemma array_size_nonneg [simp]: "0 \<le> array_size v"
  by (cases v) auto

lemma plan_from_steps_array_ok:
  assumes "plan_from_steps_array steps goal = (True, p)"
  shows "plan_ok p \<and> plan_goal p = goal"
proof -
  from assms obtain v where
    p: "p = plan_init\<lparr>plan_goal := goal, plan_steps := steps_loop (min (array_size v) MAX_PLAN) (elements v) 0\<rparr>"
    and ne: "plan_steps p \<noteq> []"
    by (auto simp: plan_from_steps_array_def Let_def split: option.splits if_splits)
  have "0 \<le> min (array_size v) MAX_PLAN" by (simp add: MAX_PLAN_def)
  from steps_loop_length [OF this, of "elements v"] ne show ?thesis
    unfolding plan_ok_def by (auto simp: p dest: steps_loop_usable)
qed

lemma plan_from_strings_ok:
  assumes "plan_from_strings arr = (True, p)"
  shows "plan_ok p"
proof -
  have "0 \<le> min (array_size arr) MAX_PLAN" by (simp add: MAX_PLAN_def)
  from strings_loop_length [OF this, of "elements arr"] assms show ?thesis
    by (auto simp: plan_ok_def plan_from_strings_def Let_def dest: strings_loop_usable)
qed

lemma plan_parse_text_ok:
  assumes "plan_parse_text parse t = (True, p)"
  shows "plan_ok p"
proof -
  from assms obtain ob where ob: "plan_from_object ob = (True, p)"
    by (auto simp: plan_parse_text_def split: option.splits)
  show ?thesis
  proof (cases "fst (plan_from_steps_array (jx_arr ob ''steps'') (jx_str ob ''goal'' None))")
    case True
    with ob have "plan_from_steps_array (jx_arr ob ''steps'') (jx_str ob ''goal'' None) = (True, p)"
      by (simp add: plan_from_object_def Let_def)
    then show ?thesis using plan_from_steps_array_ok by blast
  next
    case False
    with ob show ?thesis
      by (auto simp: plan_from_object_def Let_def split: option.splits intro: plan_from_strings_ok)
  qed
qed

section \<open>Serialise, then parse\<close>

lemma get_step_value [simp]:
  "jx_strdup (step_value dbl s) ''description'' = step_description s"
  "jx_strdup (step_value dbl s) ''tool'' = step_tool s"
  "jx_strdup (step_value dbl s) ''expected_result'' = step_expected_result s"
  "jx_strdup (step_value dbl s) ''verification'' = step_verification s"
  "jx_int (step_value dbl s) ''id'' i = step_id s"
  "is_object (step_value dbl s)"
  by (auto simp: jx_defs step_value_def opt_field_def map_add_def split: option.splits)

text \<open>What survives: everything but the progress flags, which the parser never reads.\<close>

definition reset_step :: "PlanStep \<Rightarrow> PlanStep" where
  "reset_step s = s\<lparr>step_done := False, step_ok := False\<rparr>"

lemma parse_step_value:
  "step_description s \<noteq> None \<Longrightarrow> parse_step idx (step_value dbl s) = Some (reset_step s)"
  by (auto simp: parse_step_def reset_step_def split: option.splits)

lemma steps_loop_values:
  assumes "\<forall>s \<in> set ss. step_description s \<noteq> None" and "idx + int (length ss) \<le> n"
  shows "steps_loop n (map (step_value dbl) ss) idx = map reset_step ss"
  using assms by (induction ss arbitrary: idx) (auto simp: parse_step_value)

lemma plan_value_accessors:
  "jx_arr (plan_value dbl p) ''steps'' = Some (JArray (map (step_value dbl) (plan_steps p)))"
  "jx_str (plan_value dbl p) ''goal'' None = plan_goal p"
  by (auto simp: jx_defs plan_value_def opt_field_def split: option.splits)

lemma plan_from_value:
  assumes "plan_steps p \<noteq> []" "n_steps p \<le> MAX_PLAN" "\<forall>s \<in> set (plan_steps p). step_description s \<noteq> None"
  shows "plan_from_steps_array (jx_arr (plan_value dbl p) ''steps'') (jx_str (plan_value dbl p) ''goal'' None) =
    (True, \<lparr>plan_goal = plan_goal p, plan_steps = map reset_step (plan_steps p), plan_error = []\<rparr>)"
proof -
  have "steps_loop (min (n_steps p) MAX_PLAN) (map (step_value dbl) (plan_steps p)) 0 =
        map reset_step (plan_steps p)"
    using assms by (intro steps_loop_values) auto
  then show ?thesis
    using assms by (simp add: plan_value_accessors plan_from_steps_array_def plan_init_def Let_def)
qed

section \<open>The planner (planner.c)\<close>

record planner =
  pl_max_attempts :: int
  pl_temperature :: f32
  pl_max_tokens :: int
  pl_tools_desc :: cptr

definition planner_instructions :: cstr where
  \<open>planner_instructions =
     ''You are the PLANNER of an autonomous agent. Decompose the objective into a '' @
     ''short sequence of concrete, verifiable steps.'' @ [LF, LF] @
     ''Respond with ONE JSON object and nothing else:'' @ [LF] @
     ''{'' @ [LF] @
     ''  "goal": "restated objective",'' @ [LF] @
     ''  "steps": ['' @ [LF] @
     ''    {"id":1, "description":"what to do", "tool":"tool_name_or_empty", '' @
     ''"expected_result":"what success looks like", '' @
     ''"verification":"file_exists:PATH | contains:TEXT | exit_zero | nonempty"}'' @ [LF] @
     ''  ]'' @ [LF] @
     ''}'' @ [LF, LF] @
     ''Rules: keep it minimal (1-8 steps). Use only listed tools. A step needing no '' @
     ''tool leaves "tool" empty. Prefer verifiable steps.'' @ [LF, LF]\<close>

definition build_prompt :: "cstr \<Rightarrow> cptr \<Rightarrow> cptr \<Rightarrow> cstr" where
  "build_prompt goal tools mem =
     planner_instructions @
     (if nonempty_str tools then ''AVAILABLE TOOLS:'' @ [LF] @ the tools @ [LF] else []) @
     (if nonempty_str mem then ''RELEVANT MEMORY:'' @ [LF] @ the mem @ [LF] else []) @
     ''OBJECTIVE: '' @ goal @ [LF, LF] @ ''JSON plan:'' @ [LF]"

definition fallback_plan :: "cstr \<Rightarrow> Plan" where
  "fallback_plan goal = plan_init\<lparr>plan_goal := Some goal, plan_steps :=
     [\<lparr>step_id = 1, step_description = Some goal, step_tool = Some [],
       step_expected_result = None, step_verification = None,
       step_done = False, step_ok = False\<rparr>]\<rparr>"

text \<open>Attempt \<open>i\<close> of \<open>i + left\<close>: generate, parse, and on either failure try again.\<close>

fun planner_loop ::
  "json_parser \<Rightarrow> (f32 \<Rightarrow> nat \<Rightarrow> f32) \<Rightarrow> 'w ModelBackend \<Rightarrow> planner \<Rightarrow> cstr \<Rightarrow> nat \<Rightarrow> nat \<Rightarrow> 'w \<Rightarrow>
   Plan option \<times> 'w" where
  "planner_loop parse bump be pl prompt i 0 w = (None, w)"
| "planner_loop parse bump be pl prompt i (Suc left) w =
     (let req = \<lparr>req_prompt = prompt,
                 req_max_tokens = (if pl_max_tokens pl > 0 then pl_max_tokens pl else 1024),
                 req_temperature = (if i = 0 then pl_temperature pl
                                    else bump (pl_temperature pl) i),
                 req_top_p = 0x3F733333\<rparr>
      in case mb_generate be req w of
           ((rc, res), w') \<Rightarrow>
             if rc \<noteq> 0 then planner_loop parse bump be pl prompt (Suc i) left w'
             else (case plan_parse_text parse (res_text res) of
                     (True, p) \<Rightarrow> (Some p, w')
                   | (False, _) \<Rightarrow> planner_loop parse bump be pl prompt (Suc i) left w'))"

definition planner_make_plan ::
  "json_parser \<Rightarrow> (f32 \<Rightarrow> nat \<Rightarrow> f32) \<Rightarrow> 'w ModelBackend \<Rightarrow> planner \<Rightarrow> cstr \<Rightarrow> cptr \<Rightarrow> 'w \<Rightarrow> Plan \<times> 'w" where
  "planner_make_plan parse bump be pl goal mem w =
     (let attempts = (if pl_max_attempts pl > 0 then nat (pl_max_attempts pl) else 3)
      in case planner_loop parse bump be pl (build_prompt goal (pl_tools_desc pl) mem) 0 attempts w of
           (Some p, w') \<Rightarrow> (p, w')
         | (None, w') \<Rightarrow> (fallback_plan goal, w'))"

lemma planner_loop_ok:
  "planner_loop parse bump be pl prompt i n w = (Some p, w') \<Longrightarrow> plan_ok p"
proof (induction n arbitrary: i w)
  case (Suc n)
  from Suc.prems show ?case
    by (auto simp: Let_def split: prod.splits if_splits bool.splits
        dest: plan_parse_text_ok Suc.IH)
qed simp

lemma plan_ok_fallback: "plan_ok (fallback_plan goal)"
  by (simp add: plan_ok_def fallback_plan_def step_usable_def MAX_PLAN_def)

lemma planner_make_plan_ok: "plan_ok (fst (planner_make_plan parse bump be pl goal mem w))"
  by (auto simp: planner_make_plan_def Let_def plan_ok_fallback
      split: prod.splits option.splits dest: planner_loop_ok)

end
