(* ===== verification/Agent_Memory.thy ===== *)
theory Agent_Memory
  imports Agent_State Agent_Json
begin

text \<open>
  The agent's memory, \<open>agent/memory/memory.c\<close>: the short-term ring of observations and the calls
  that record to and recall from the database. The database is an interface (a record of the
  operations of \<open>agent/storage/database.h\<close> the runtime calls, acting on the world \<open>'w\<close>). The
  locale \<open>bounded_log\<close> is the contract of a log that keeps the newest entries; the ring
  interprets it.
\<close>

section \<open>The database interface (database.h)\<close>

record 'w Database =
  db_save_task :: "AgentTask \<Rightarrow> 'w \<Rightarrow> 'w"
  db_log_tool_call :: "cstr \<Rightarrow> int \<Rightarrow> cstr \<Rightarrow> cstr \<Rightarrow> bool \<Rightarrow> cstr \<Rightarrow> 'w \<Rightarrow> 'w"
  db_log_observation :: "cstr \<Rightarrow> int \<Rightarrow> cstr \<Rightarrow> 'w \<Rightarrow> 'w"
  db_log_message :: "cstr \<Rightarrow> cstr \<Rightarrow> cptr \<Rightarrow> 'w \<Rightarrow> 'w"
  db_log_trace :: "cstr \<Rightarrow> int \<Rightarrow> cstr \<Rightarrow> cptr \<Rightarrow> 'w \<Rightarrow> 'w"
  db_add_memory :: "cstr \<Rightarrow> cstr \<Rightarrow> f64 \<Rightarrow> cstr \<Rightarrow> 'w \<Rightarrow> 'w"
  db_add_procedure :: "cstr \<Rightarrow> cstr \<Rightarrow> cstr \<Rightarrow> 'w \<Rightarrow> 'w"
  db_search_memories :: "cstr \<Rightarrow> cstr \<Rightarrow> int \<Rightarrow> 'w \<Rightarrow> json"

section \<open>Short-term memory\<close>

text \<open>\<open>st_recent\<close> is the filled part of the array, so \<open>count\<close> is its length.\<close>

record ShortTerm =
  st_goal :: cptr
  st_plan :: cptr
  st_recent :: "cstr list"
  st_cap :: nat
  st_head :: nat

record Memory =
  mem_st :: ShortTerm
  mem_task_id :: cstr

definition memory_init :: "cstr \<Rightarrow> int \<Rightarrow> Memory" where
  "memory_init tid cap =
     \<lparr>mem_st = \<lparr>st_goal = None, st_plan = None, st_recent = [],
                st_cap = (if cap > 0 then nat cap else 12), st_head = 0\<rparr>,
      mem_task_id = tid\<rparr>"

definition memory_set_goal :: "Memory \<Rightarrow> cptr \<Rightarrow> Memory" where
  "memory_set_goal m g = m\<lparr>mem_st := (mem_st m)\<lparr>st_goal := g\<rparr>\<rparr>"

definition memory_set_plan :: "Memory \<Rightarrow> cptr \<Rightarrow> Memory" where
  "memory_set_plan m p = m\<lparr>mem_st := (mem_st m)\<lparr>st_plan := p\<rparr>\<rparr>"

definition ring_add :: "cstr \<Rightarrow> ShortTerm \<Rightarrow> ShortTerm" where
  "ring_add obs s =
     (if length (st_recent s) < st_cap s then s\<lparr>st_recent := st_recent s @ [obs]\<rparr>
      else s\<lparr>st_recent := (st_recent s)[st_head s := obs],
             st_head := (st_head s + 1) mod st_cap s\<rparr>)"

definition memory_add_observation ::
  "'w Database option \<Rightarrow> Memory \<Rightarrow> cptr \<Rightarrow> 'w \<Rightarrow> Memory \<times> 'w" where
  "memory_add_observation db m obs w =
     (case obs of
        None \<Rightarrow> (m, w)
      | Some ob \<Rightarrow>
          (m\<lparr>mem_st := ring_add ob (mem_st m)\<rparr>,
           case db of None \<Rightarrow> w | Some d \<Rightarrow> db_log_observation d (mem_task_id m) (-1) ob w))"

text \<open>The index loop of \<open>memory_recent_observations\<close>: entry \<open>i\<close>, oldest first.\<close>

definition ring_at :: "ShortTerm \<Rightarrow> nat \<Rightarrow> cstr" where
  "ring_at s i = st_recent s ! (if length (st_recent s) < st_cap s then i
                                else (st_head s + i) mod st_cap s)"

definition ring_list :: "ShortTerm \<Rightarrow> cstr list" where
  "ring_list s = map (ring_at s) [0..<length (st_recent s)]"

definition obs_line :: "cstr \<Rightarrow> cstr" where
  "obs_line ob = ''- '' @ ob @ [LF]"

text \<open>The joined lines, cut from the front at a line boundary when they exceed the budget.\<close>

definition memory_recent_observations :: "Memory \<Rightarrow> int \<Rightarrow> cstr" where
  "memory_recent_observations m max_chars =
     (let b = concat (map obs_line (ring_list (mem_st m))) in
      if max_chars > 0 \<and> int (length b) > max_chars then
        (let rest = drop (nat (int (length b) - max_chars)) b
         in case strchr rest LF of None \<Rightarrow> rest | Some t \<Rightarrow> tl t)
      else b)"

section \<open>Persistent memory\<close>

definition memory_record_episode ::
  "json_printer \<Rightarrow> 'w Database option \<Rightarrow> Memory \<Rightarrow> cptr \<Rightarrow> cptr \<Rightarrow> cptr \<Rightarrow> cptr \<Rightarrow> 'w \<Rightarrow> 'w" where
  "memory_record_episode print db m tsk action result solution w =
     (case db of
        None \<Rightarrow> w
      | Some d \<Rightarrow>
          let field = (\<lambda>k v. case v of None \<Rightarrow> [] | Some s \<Rightarrow> [(k, JString s)]);
              ob = JObject (field ''task'' tsk @ field ''action'' action @
                            field ''result'' result @ field ''solution'' solution)
          in db_add_memory d ''episodic'' (print ob) 0x3FE0000000000000 (mem_task_id m) w)"

definition memory_record_fact :: "'w Database option \<Rightarrow> Memory \<Rightarrow> cptr \<Rightarrow> f64 \<Rightarrow> 'w \<Rightarrow> 'w" where
  "memory_record_fact db m f0 importance w =
     (case (db, f0) of
        (Some d, Some f) \<Rightarrow> db_add_memory d ''semantic'' f importance (mem_task_id m) w
      | _ \<Rightarrow> w)"

definition memory_record_procedure ::
  "'w Database option \<Rightarrow> Memory \<Rightarrow> cptr \<Rightarrow> cptr \<Rightarrow> 'w \<Rightarrow> 'w" where
  "memory_record_procedure db m name steps_json w =
     (case (db, name) of
        (Some d, Some n) \<Rightarrow> db_add_procedure d n (or_default steps_json ''[]'') (mem_task_id m) w
      | _ \<Rightarrow> w)"

definition item_line :: "json \<Rightarrow> cstr" where
  "item_line it = (case get_item it ''content'' of
                     Some (JString c) \<Rightarrow> ''  - '' @ c @ [LF] | _ \<Rightarrow> [])"

fun append_items :: "json \<Rightarrow> cstr \<Rightarrow> cstr" where
  "append_items (JArray []) label = []"
| "append_items (JArray its) label = label @ '':'' @ [LF] @ concat (map item_line its)"
| "append_items _ label = []"

definition memory_recall :: "'w Database option \<Rightarrow> cstr \<Rightarrow> int \<Rightarrow> 'w \<Rightarrow> cstr" where
  "memory_recall db query max_items w =
     (case db of
        None \<Rightarrow> []
      | Some d \<Rightarrow>
          let n = (if max_items \<le> 0 then 6 else max_items) in
          append_items (db_search_memories d ''semantic'' query n w) ''Known facts'' @
          append_items (db_search_memories d ''episodic'' query n w) ''Past experiences'' @
          append_items (db_search_memories d ''procedural'' query n w) ''Procedures'')"

section \<open>A log that keeps the newest entries\<close>

definition keep_last :: "nat \<Rightarrow> 'a list \<Rightarrow> 'a list" where
  "keep_last n xs = drop (length xs - n) xs"

lemma keep_last_keep: "keep_last n (keep_last n xs @ ys) = keep_last n (xs @ ys)"
  by (cases "length xs \<le> n") (simp_all add: keep_last_def add.commute)

lemma length_keep_last: "length (keep_last n xs) = min n (length xs)"
  by (simp add: keep_last_def)

locale bounded_log =
  fixes add :: "'a \<Rightarrow> 's \<Rightarrow> 's"
    and entries :: "'s \<Rightarrow> 'a list"
    and size_of :: "'s \<Rightarrow> nat"
    and invar :: "'s \<Rightarrow> bool"
  assumes invar_add: "invar s \<Longrightarrow> invar (add x s)"
    and size_add: "size_of (add x s) = size_of s"
    and entries_add: "invar s \<Longrightarrow> entries (add x s) = keep_last (size_of s) (entries s @ [x])"
begin

lemma invar_fold: "invar s \<Longrightarrow> invar (fold add xs s)"
  by (induction xs arbitrary: s) (simp_all add: invar_add)

lemma size_fold: "size_of (fold add xs s) = size_of s"
  by (induction xs arbitrary: s) (simp_all add: size_add)

lemma entries_fold:
  "invar s \<Longrightarrow> length (entries s) \<le> size_of s \<Longrightarrow>
   entries (fold add xs s) = keep_last (size_of s) (entries s @ xs)"
proof (induction xs arbitrary: s)
  case Nil
  then show ?case by (simp add: keep_last_def)
next
  case (Cons x xs)
  have "entries (fold add xs (add x s)) = keep_last (size_of s) (entries (add x s) @ xs)"
    using Cons by (simp add: invar_add size_add entries_add length_keep_last)
  also have "\<dots> = keep_last (size_of s) ((entries s @ [x]) @ xs)"
    using Cons.prems by (simp only: entries_add keep_last_keep)
  finally show ?case by simp
qed

end

definition ring_ok :: "ShortTerm \<Rightarrow> bool" where
  "ring_ok s \<longleftrightarrow> 0 < st_cap s \<and> length (st_recent s) \<le> st_cap s \<and> st_head s < st_cap s \<and>
     (length (st_recent s) < st_cap s \<longrightarrow> st_head s = 0)"

lemma ring_list_partial: "length (st_recent s) < st_cap s \<Longrightarrow> ring_list s = st_recent s"
  by (auto simp: ring_list_def ring_at_def intro: nth_equalityI)

lemma ring_list_full:
  assumes "length (st_recent s) = st_cap s" "st_head s < st_cap s"
  shows "ring_list s = drop (st_head s) (st_recent s) @ take (st_head s) (st_recent s)"
proof (rule nth_equalityI)
  fix i
  assume "i < length (ring_list s)"
  then have i: "i < st_cap s" using assms by (simp add: ring_list_def)
  show "ring_list s ! i = (drop (st_head s) (st_recent s) @ take (st_head s) (st_recent s)) ! i"
  proof (cases "st_head s + i < st_cap s")
    case True
    with assms i show ?thesis by (auto simp: ring_list_def ring_at_def nth_append)
  next
    case False
    then have "(st_head s + i) mod st_cap s = st_head s + i - st_cap s"
      using assms i by (simp add: mod_if)
    moreover have "\<not> i < st_cap s - st_head s" using False by simp
    ultimately show ?thesis
      using assms i by (simp add: ring_list_def ring_at_def nth_append add.commute)
  qed
qed (use assms in \<open>simp add: ring_list_def\<close>)

lemma ring_add_full:
  assumes full: "length (st_recent s) = st_cap s" and head: "st_head s < st_cap s"
  shows "ring_list (ring_add obs s) = tl (ring_list s) @ [obs]"
proof -
  let ?h = "st_head s" and ?r = "st_recent s"
  have new: "ring_add obs s = s\<lparr>st_recent := ?r[?h := obs], st_head := (?h + 1) mod st_cap s\<rparr>"
    using full by (simp add: ring_add_def)
  have old: "tl (ring_list s) = drop (Suc ?h) ?r @ take ?h ?r"
    using full head by (simp add: ring_list_full tl_drop drop_Suc)
  show ?thesis
  proof (cases "Suc ?h < st_cap s")
    case True
    then have "ring_list (ring_add obs s) = drop (Suc ?h) (?r[?h := obs]) @ take (Suc ?h) (?r[?h := obs])"
      using full by (simp add: new ring_list_full)
    also have "\<dots> = drop (Suc ?h) ?r @ take ?h ?r @ [obs]"
      using full head by (simp add: take_Suc_conv_app_nth)
    finally show ?thesis using old by simp
  next
    case False
    then have h: "Suc ?h = st_cap s" using head by simp
    then have "ring_list (ring_add obs s) = ?r[?h := obs]"
      using full by (simp add: new ring_list_full)
    also have "\<dots> = take ?h ?r @ [obs]"
      using full h by (simp add: list_update_append take_Suc_conv_app_nth upd_conv_take_nth_drop)
    finally show ?thesis using old full h by simp
  qed
qed

interpretation ring: bounded_log ring_add ring_list st_cap ring_ok
proof unfold_locales
  fix s x
  show "st_cap (ring_add x s) = st_cap s" by (simp add: ring_add_def)
  assume ok: "ring_ok s"
  then show "ring_ok (ring_add x s)"
    by (auto simp: ring_ok_def ring_add_def)
  show "ring_list (ring_add x s) = keep_last (st_cap s) (ring_list s @ [x])"
  proof (cases "length (st_recent s) < st_cap s")
    case room: True
    let ?s' = "ring_add x s"
    have "ring_list ?s' = st_recent s @ [x]"
    proof (cases "Suc (length (st_recent s)) < st_cap s")
      case True
      with room show ?thesis by (simp add: ring_list_partial ring_add_def)
    next
      case False
      with room ok show ?thesis
        by (simp add: ring_list_full ring_add_def ring_ok_def)
    qed
    then show ?thesis using room by (simp add: ring_list_partial keep_last_def)
  next
    case False
    then have full: "length (st_recent s) = st_cap s" "st_head s < st_cap s"
      using ok by (auto simp: ring_ok_def)
    moreover have "length (ring_list s) = st_cap s" using full by (simp add: ring_list_def)
    ultimately show ?thesis by (simp add: ring_add_full keep_last_def drop_Suc)
  qed
qed

lemma ring_ok_init: "ring_ok (mem_st (memory_init tid cap))"
  by (simp add: ring_ok_def memory_init_def)

lemma recent_observations_budget:
  assumes "0 < max_chars"
  shows "int (length (memory_recent_observations m max_chars)) \<le> max_chars"
proof -
  define b where "b = concat (map obs_line (ring_list (mem_st m)))"
  define rest where "rest = drop (nat (int (length b) - max_chars)) b"
  have eq: "memory_recent_observations m max_chars =
      (if max_chars < int (length b)
       then (case strchr rest LF of None \<Rightarrow> rest | Some t \<Rightarrow> tl t) else b)"
    using assms unfolding memory_recent_observations_def Let_def b_def rest_def by simp
  show ?thesis
  proof (cases "max_chars < int (length b)")
    case True
    then have "int (length rest) = max_chars" using assms by (simp add: rest_def)
    moreover have "length (tl t) \<le> length rest" if "strchr rest LF = Some t" for t
      using strchr_length [OF that] by (simp only: length_tl)
    ultimately show ?thesis using True by (cases "strchr rest LF") (simp_all add: eq)
  qed (simp add: eq)
qed

lemma recent_observations_suffix:
  "suffix (memory_recent_observations m max_chars) (concat (map obs_line (ring_list (mem_st m))))"
proof -
  have "suffix (tl t) b" if "strchr (drop k b) LF = Some t" for k t and b :: cstr
    using strchr_suffix [OF that] by (blast intro: suffix_drop suffix_order.trans)
  then show ?thesis
    by (auto simp: memory_recent_observations_def Let_def suffix_drop split: option.split)
qed

end
