(* ===== verification/Agent_Context.thy ===== *)
theory Agent_Context
  imports Agent_Plan
begin

text \<open>
  The context builder, \<open>agent/context/context.c\<close>: the sections of the prompt, the truncation of
  the two elastic sections and the three passes of \<open>context_build\<close>.
\<close>

definition context_output_format :: cstr where
  \<open>context_output_format =
     ''REQUIRED OUTPUT FORMAT'' @ [LF] @
     ''Respond with EXACTLY ONE JSON object, no prose around it, one of:'' @ [LF] @
     ''  {"action":"tool","tool":"NAME","arguments":{...},"expected_result":"..."}'' @ [LF] @
     ''  {"action":"final","answer":"..."}'' @ [LF] @
     ''  {"action":"ask_user","question":"..."}'' @ [LF] @
     ''  {"action":"plan","steps":[...]}'' @ [LF] @
     ''  {"action":"reflect","message":"..."}'' @ [LF] @
     ''Never invent tool results. Choose a tool only from AVAILABLE TOOLS.'' @ [LF]\<close>

record ContextParts =
  cp_system_prompt :: cptr
  cp_role :: cptr
  cp_goal :: cptr
  cp_state :: cptr
  cp_plan_json :: cptr
  cp_tools_desc :: cptr
  cp_memory :: cptr
  cp_observations :: cptr
  cp_step_desc :: cptr
  cp_extra :: cptr

definition section_text :: "cstr \<Rightarrow> cptr \<Rightarrow> cstr" where
  "section_text title body =
     (if nonempty_str body
      then [LF] @ ''=== '' @ title @ '' ==='' @ [LF] @ the body @ [LF] else [])"

definition compressed_mark :: cstr where
  "compressed_mark = ''[... earlier context compressed ...]'' @ [LF]"

text \<open>Keep the tail of a section; a budget that is not positive keeps everything.\<close>

definition tail_trim :: "cstr \<Rightarrow> int \<Rightarrow> cstr" where
  "tail_trim s max_chars =
     (if max_chars \<le> 0 \<or> int (length s) \<le> max_chars then s
      else let start = drop (length s - nat max_chars) s;
               start' = (case strchr start LF of None \<Rightarrow> start | Some t \<Rightarrow> tl t)
           in compressed_mark @ start')"

text \<open>One assembly of the prompt with the current memory and observation texts.\<close>

definition assemble :: "ContextParts \<Rightarrow> cptr \<Rightarrow> cptr \<Rightarrow> cstr" where
  "assemble p mem obs =
     or_default (cp_system_prompt p) [] @
     section_text ''ROLE'' (cp_role p) @
     section_text ''TASK'' (cp_goal p) @
     section_text ''CURRENT STATE'' (cp_state p) @
     section_text ''CURRENT STEP'' (cp_step_desc p) @
     section_text ''PLAN'' (cp_plan_json p) @
     section_text ''AVAILABLE TOOLS'' (cp_tools_desc p) @
     section_text ''MEMORY'' mem @
     section_text ''OBSERVATIONS'' obs @
     section_text ''NOTE'' (cp_extra p) @
     [LF] @ context_output_format @ [LF] @ ''Your JSON response:'' @ [LF]"

definition prompt_tokens :: "'w ModelBackend \<Rightarrow> cstr \<Rightarrow> int" where
  "prompt_tokens be b =
     (case mb_count_tokens be of Some count \<Rightarrow> count b | None \<Rightarrow> int (length b) div 4)"

text \<open>The compression of one pass, \<open>over\<close> tokens above the budget.\<close>

definition compress :: "int \<Rightarrow> cptr \<Rightarrow> cptr \<Rightarrow> cptr \<times> cptr" where
  "compress over mem obs =
     (let cut0 = over * 4 + 512;
          obs' = map_option (\<lambda>ob. tail_trim ob (int (length ob) - cut0)) obs;
          cut1 = (case obs' of None \<Rightarrow> cut0 | Some t \<Rightarrow> cut0 - int (length t));
          mem' = (if cut1 > 0 then map_option (\<lambda>m. tail_trim m (int (length m) - cut1)) mem else mem)
      in (mem', obs'))"

text \<open>\<open>left\<close> passes remain after this one; the last pass returns whatever it has.\<close>

fun context_pass ::
  "'w ModelBackend \<Rightarrow> ContextParts \<Rightarrow> int \<Rightarrow> nat \<Rightarrow> cptr \<Rightarrow> cptr \<Rightarrow> cstr" where
  "context_pass be p budget 0 mem obs = assemble p mem obs"
| "context_pass be p budget (Suc left) mem obs =
     (let b = assemble p mem obs; tokens = prompt_tokens be b
      in if budget \<le> 0 \<or> tokens \<le> budget then b
         else case compress (tokens - budget) mem obs of
                (mem', obs') \<Rightarrow> context_pass be p budget left mem' obs')"

definition context_build :: "'w ModelBackend \<Rightarrow> ContextParts \<Rightarrow> int \<Rightarrow> cstr" where
  "context_build be p budget = context_pass be p budget 2 (cp_memory p) (cp_observations p)"

section \<open>What the prompt always keeps\<close>

lemma context_pass_assembled: "\<exists>mem' obs'. context_pass be p budget left mem obs = assemble p mem' obs'"
  by (induction left arbitrary: mem obs) (auto simp: Let_def split: prod.split)

lemma context_build_assembled: "\<exists>mem obs. context_build be p budget = assemble p mem obs"
  by (simp add: context_build_def context_pass_assembled)

lemma context_build_unbudgeted:
  "budget \<le> 0 \<or> prompt_tokens be (assemble p (cp_memory p) (cp_observations p)) \<le> budget \<Longrightarrow>
   context_build be p budget = assemble p (cp_memory p) (cp_observations p)"
  by (simp add: context_build_def numeral_2_eq_2 Let_def)

section \<open>When compression does nothing\<close>

lemma tail_trim_nonpos: "m \<le> 0 \<Longrightarrow> tail_trim s m = s"
  by (simp add: tail_trim_def)

lemma tail_trim_length:
  assumes "0 < m" "m < int (length s)"
  shows "length (tail_trim s m) \<le> length compressed_mark + nat m"
proof -
  let ?start = "drop (length s - nat m) s"
  have "length ?start = nat m" using assms by simp
  moreover have "length (tl t) \<le> length ?start" if "strchr ?start LF = Some t" for t
    using strchr_length [OF that] by (simp only: length_tl)
  ultimately show ?thesis
    using assms by (auto simp: tail_trim_def Let_def split: option.split)
qed

lemma compress_noop:
  assumes "\<forall>ob. obs = Some ob \<longrightarrow> int (length ob) \<le> over * 4 + 512"
    and "\<forall>m. mem = Some m \<longrightarrow>
       int (length m) \<le> over * 4 + 512 - (case obs of None \<Rightarrow> 0 | Some ob \<Rightarrow> int (length ob))"
  shows "compress over mem obs = (mem, obs)"
  using assms by (cases mem; cases obs) (auto simp: compress_def Let_def tail_trim_nonpos)

lemma context_pass_noop:
  assumes "compress (prompt_tokens be (assemble p mem obs) - budget) mem obs = (mem, obs)"
  shows "context_pass be p budget left mem obs = assemble p mem obs"
  using assms by (induction left) (simp_all add: Let_def)

text \<open>
  A prompt that exceeds its budget by more than its elastic sections hold is not compressed at all: the
  truncation treats a budget below zero as no limit, and all three passes return the text as it is.
\<close>

lemma hopeless_prompts_stay_uncompressed:
  assumes "cp_memory p = Some m" and "cp_observations p = Some ob"
    and "over = prompt_tokens be (assemble p (Some m) (Some ob)) - limit"
    and "int (length ob) + int (length m) \<le> over * 4 + 512"
  shows "context_build be p limit = assemble p (Some m) (Some ob)"
proof -
  have "compress over (Some m) (Some ob) = (Some m, Some ob)"
    by (rule compress_noop) (use assms(4) in auto)
  then show ?thesis
    using context_pass_noop [of be p "Some m" "Some ob" limit 2] assms by (simp add: context_build_def)
qed

end
