(* ===== verification/Agent_Tools.thy ===== *)
theory Agent_Tools
  imports Agent_State Agent_Permissions Agent_Reasoning
begin

text \<open>
  Tool results, tools and the registry: \<open>agent/tools/tool.c\<close> and \<open>agent/tools/tool_registry.c\<close>.
  Tools act on a world \<open>'w\<close>; the confirmation hook is a function on it too. The locale
  \<open>gatekeeper\<close> states what a gate in front of an effect promises; the registry interprets it.
\<close>

section \<open>Results (tool.c)\<close>

record ToolResult =
  tr_ok :: bool
  tr_output :: cptr
  tr_truncated :: bool
  tr_error :: cptr
  tr_error_class :: RecoveryClass
  tr_data :: "json option"

definition tool_result_init :: ToolResult where
  "tool_result_init = \<lparr>tr_ok = False, tr_output = None, tr_truncated = False, tr_error = None,
     tr_error_class = REC_NONE, tr_data = None\<rparr>"

definition tool_result_ok :: "ToolResult \<Rightarrow> cptr \<Rightarrow> ToolResult" where
  "tool_result_ok r out = r\<lparr>tr_ok := True, tr_output := Some (or_default out []),
     tr_error := None, tr_error_class := REC_NONE\<rparr>"

text \<open>\<open>tool_result_okf\<close> and \<open>tool_result_fail\<close> get the text their format string produces.\<close>

definition tool_result_okf :: "ToolResult \<Rightarrow> cstr \<Rightarrow> ToolResult" where
  "tool_result_okf r msg = r\<lparr>tr_ok := True, tr_output := Some msg, tr_error := None\<rparr>"

definition tool_result_fail :: "ToolResult \<Rightarrow> RecoveryClass \<Rightarrow> cstr \<Rightarrow> ToolResult" where
  "tool_result_fail r cls msg = r\<lparr>tr_ok := False, tr_error := Some msg, tr_error_class := cls,
     tr_output := Some (or_default (tr_output r) [])\<rparr>"

lemmas tool_result_defs =
  tool_result_init_def tool_result_ok_def tool_result_okf_def tool_result_fail_def

section \<open>Tools and their context (tool.h)\<close>

record 'w ToolContext =
  tc_workspace :: cstr
  tc_permissions :: "Permissions option"
  tc_confirm :: "(cstr \<Rightarrow> SecurityLevel \<Rightarrow> cstr \<Rightarrow> 'w \<Rightarrow> bool \<times> 'w) option"
  tc_events :: "'w EventBus option"
  tc_task_id :: cptr

text \<open>
  The arguments are an object; a \<open>NULL\<close> pointer reads like \<open>JNull\<close> through every accessor. The
  result is the dispatch code, the filled result and the world.
\<close>

record 'w AgentTool =
  tool_name :: cstr
  tool_description :: cstr
  tool_args_schema :: cptr
  tool_security_level :: SecurityLevel
  tool_requires_confirmation :: bool
  tool_execute :: "json \<Rightarrow> 'w ToolContext \<Rightarrow> ToolResult \<Rightarrow> 'w \<Rightarrow> int \<times> ToolResult \<times> 'w"

section \<open>The registry (tool_registry.c)\<close>

definition MAX_TOOLS :: nat where "MAX_TOOLS = 64"

record 'w ToolRegistry =
  reg_tools :: "'w AgentTool list"

definition tool_registry_create :: "'w ToolRegistry" where
  "tool_registry_create = \<lparr>reg_tools = []\<rparr>"

definition tool_registry_find :: "'w ToolRegistry \<Rightarrow> cstr \<Rightarrow> 'w AgentTool option" where
  "tool_registry_find r name = find (\<lambda>t. tool_name t = name) (reg_tools r)"

definition tool_registry_register :: "'w ToolRegistry \<Rightarrow> 'w AgentTool \<Rightarrow> int \<times> 'w ToolRegistry" where
  "tool_registry_register r t =
     (if length (reg_tools r) \<ge> MAX_TOOLS then (-1, r)
      else if tool_registry_find r (tool_name t) \<noteq> None then (-1, r)
      else (0, r\<lparr>reg_tools := reg_tools r @ [t]\<rparr>))"

definition tool_registry_count :: "'w ToolRegistry \<Rightarrow> int" where
  "tool_registry_count r = int (length (reg_tools r))"

definition tool_registry_at :: "'w ToolRegistry \<Rightarrow> int \<Rightarrow> 'w AgentTool option" where
  "tool_registry_at r i =
     (if 0 \<le> i \<and> i < tool_registry_count r then Some (reg_tools r ! nat i) else None)"

text \<open>Whether a call has to be confirmed: the policy, or the tool itself.\<close>

definition needs_confirmation :: "'w AgentTool \<Rightarrow> cstr \<Rightarrow> Permissions option \<Rightarrow> bool" where
  "needs_confirmation t name perm =
     (case perm of
        None \<Rightarrow> tool_requires_confirmation t
      | Some p \<Rightarrow> permissions_needs_confirmation p name (tool_security_level t) \<or>
                  tool_requires_confirmation t)"

text \<open>The dispatch after the gates: events around the call, and the normalisation of its result.\<close>

definition dispatch ::
  "'w AgentTool \<Rightarrow> cstr \<Rightarrow> json option \<Rightarrow> 'w ToolContext \<Rightarrow> 'w \<Rightarrow> ToolResult \<times> 'w" where
  "dispatch t name args ctx w =
     (let w1 = event_bus_emit (tc_events ctx) EV_TOOL_STARTED (tc_task_id ctx) 0 (Some name) w
      in case tool_execute t (case args of None \<Rightarrow> JNull | Some a \<Rightarrow> a) ctx tool_result_init w1 of
           (rc, res, w2) \<Rightarrow>
             let res' = (if rc \<noteq> 0 \<and> tr_ok res
                         then tool_result_fail res REC_TOOL_ERROR ''tool dispatch error'' else res)
             in (res', event_bus_emit (tc_events ctx)
                         (if tr_ok res' then EV_TOOL_COMPLETED else EV_TOOL_FAILED)
                         (tc_task_id ctx) 0 (Some name) w2))"

definition refuse :: "RecoveryClass \<Rightarrow> cstr \<Rightarrow> ToolResult" where
  "refuse cls msg = tool_result_fail tool_result_init cls msg"

definition quoted :: "cstr \<Rightarrow> cstr" where
  "quoted s = [SQ] @ s @ [SQ]"

definition tool_registry_execute ::
  "json_printer \<Rightarrow> 'w ToolRegistry \<Rightarrow> cstr \<Rightarrow> json option \<Rightarrow> 'w ToolContext \<Rightarrow> 'w \<Rightarrow> ToolResult \<times> 'w" where
  "tool_registry_execute print r name args ctx w =
     (case tool_registry_find r name of
        None \<Rightarrow> (refuse REC_INVALID_ARGUMENT (''unknown tool '' @ quoted name), w)
      | Some t \<Rightarrow>
          if (case tc_permissions ctx of None \<Rightarrow> False | Some p \<Rightarrow> \<not> permissions_is_enabled p name) then
            (refuse REC_PERMISSION_ERROR
               (''tool '' @ quoted name @ '' is disabled by the permission policy''), w)
          else if needs_confirmation t name (tc_permissions ctx) then
            (case tc_confirm ctx of
               None \<Rightarrow>
                 (refuse REC_PERMISSION_ERROR
                    (quoted name @ '' ('' @ security_level_name (tool_security_level t) @
                     '') requires confirmation but no approver is attached; refusing''), w)
             | Some confirm \<Rightarrow>
                 (case confirm name (tool_security_level t)
                         (case args of None \<Rightarrow> ''{}'' | Some a \<Rightarrow> print a) w of
                    (False, w1) \<Rightarrow>
                      (refuse REC_PERMISSION_ERROR
                         (''user denied confirmation for '' @ quoted name), w1)
                  | (True, w1) \<Rightarrow> dispatch t name args ctx w1))
          else dispatch t name args ctx w)"

definition describe_tool :: "Permissions option \<Rightarrow> 'w AgentTool \<Rightarrow> cstr" where
  "describe_tool perm t =
     (if (case perm of None \<Rightarrow> False | Some p \<Rightarrow> \<not> permissions_is_enabled p (tool_name t)) then []
      else ''- '' @ tool_name t @ '' ['' @ security_level_name (tool_security_level t) @ '']: '' @
           tool_description t @ [LF] @
           (if nonempty_str (tool_args_schema t)
            then ''    args: '' @ the (tool_args_schema t) @ [LF] else []))"

definition tool_registry_describe :: "'w ToolRegistry \<Rightarrow> 'w ToolContext \<Rightarrow> cstr" where
  "tool_registry_describe r ctx = concat (map (describe_tool (tc_permissions ctx)) (reg_tools r))"

section \<open>The registry as a table\<close>

definition registry_ok :: "'w ToolRegistry \<Rightarrow> bool" where
  "registry_ok r \<longleftrightarrow> length (reg_tools r) \<le> MAX_TOOLS \<and> distinct (map tool_name (reg_tools r))"

lemma registry_ok_create: "registry_ok tool_registry_create"
  by (simp add: registry_ok_def tool_registry_create_def)

lemma find_None_names:
  "tool_registry_find r name = None \<longleftrightarrow> name \<notin> tool_name ` set (reg_tools r)"
  by (auto simp: tool_registry_find_def find_None_iff)

lemma find_Some_name: "tool_registry_find r name = Some t \<Longrightarrow> tool_name t = name \<and> t \<in> set (reg_tools r)"
  by (auto simp: tool_registry_find_def find_Some_iff)

lemma registry_ok_register:
  "registry_ok r \<Longrightarrow> registry_ok (snd (tool_registry_register r t))"
  by (auto simp: registry_ok_def tool_registry_register_def find_None_names)

lemma find_append: "find P (xs @ ys) = (case find P xs of None \<Rightarrow> find P ys | Some x \<Rightarrow> Some x)"
  by (induction xs) auto

lemma find_after_register:
  assumes "tool_registry_register r t = (0, r')"
  shows "tool_registry_find r' (tool_name t) = Some t"
    and "name \<noteq> tool_name t \<Longrightarrow> tool_registry_find r' name = tool_registry_find r name"
  using assms
  by (auto simp: tool_registry_register_def tool_registry_find_def find_append
      split: if_splits option.splits)

section \<open>A gate in front of an effect\<close>

text \<open>
  \<open>run\<close> either refuses, with a failed result and a world that only the approver touched, or performs
  the effect on that world; which of the two is decided by \<open>permit\<close> alone.
\<close>

locale gatekeeper =
  fixes run :: "'c \<Rightarrow> 'w \<Rightarrow> 'r \<times> 'w"
    and permit :: "'c \<Rightarrow> 'w \<Rightarrow> bool"
    and consult :: "'c \<Rightarrow> 'w \<Rightarrow> 'w"
    and effect :: "'c \<Rightarrow> 'w \<Rightarrow> 'r \<times> 'w"
    and failed :: "'r \<Rightarrow> bool"
  assumes denied: "\<not> permit c w \<Longrightarrow> failed (fst (run c w)) \<and> snd (run c w) = consult c w"
    and granted: "permit c w \<Longrightarrow> run c w = effect c (consult c w)"
begin

lemma success_was_permitted: "\<not> failed (fst (run c w)) \<Longrightarrow> permit c w"
  using denied by blast

lemma untouched_unless_permitted:
  assumes "snd (run c w) \<noteq> consult c w"
  shows "permit c w \<and> run c w = effect c (consult c w)"
  using assms denied granted by blast

end

text \<open>The permission decision of the registry, as a predicate on the call and the world.\<close>

type_synonym 'w call = "json_printer \<times> 'w ToolRegistry \<times> cstr \<times> json option \<times> 'w ToolContext"

definition enabled_in :: "'w ToolContext \<Rightarrow> cstr \<Rightarrow> bool" where
  "enabled_in ctx name \<longleftrightarrow>
     (case tc_permissions ctx of None \<Rightarrow> True | Some p \<Rightarrow> permissions_is_enabled p name)"

definition ask :: "'w AgentTool \<Rightarrow> 'w call \<Rightarrow> 'w \<Rightarrow> bool \<times> 'w" where
  "ask t c w = (case c of (print, r, name, args, ctx) \<Rightarrow>
     if needs_confirmation t name (tc_permissions ctx) then
       (case tc_confirm ctx of
          None \<Rightarrow> (False, w)
        | Some confirm \<Rightarrow> confirm name (tool_security_level t)
            (case args of None \<Rightarrow> ''{}'' | Some a \<Rightarrow> print a) w)
     else (True, w))"

definition permitted :: "'w call \<Rightarrow> 'w \<Rightarrow> bool" where
  "permitted c w = (case c of (print, r, name, args, ctx) \<Rightarrow>
     case tool_registry_find r name of
       None \<Rightarrow> False
     | Some t \<Rightarrow> enabled_in ctx name \<and> fst (ask t c w))"

definition consulted :: "'w call \<Rightarrow> 'w \<Rightarrow> 'w" where
  "consulted c w = (case c of (print, r, name, args, ctx) \<Rightarrow>
     case tool_registry_find r name of
       None \<Rightarrow> w
     | Some t \<Rightarrow> if enabled_in ctx name then snd (ask t c w) else w)"

definition run_call :: "'w call \<Rightarrow> 'w \<Rightarrow> ToolResult \<times> 'w" where
  "run_call c w = (case c of (print, r, name, args, ctx) \<Rightarrow>
     tool_registry_execute print r name args ctx w)"

definition effect_call :: "'w call \<Rightarrow> 'w \<Rightarrow> ToolResult \<times> 'w" where
  "effect_call c w = (case c of (print, r, name, args, ctx) \<Rightarrow>
     case tool_registry_find r name of
       None \<Rightarrow> (tool_result_init, w)
     | Some t \<Rightarrow> dispatch t name args ctx w)"

lemma refuse_fails [simp]: "\<not> tr_ok (refuse cls msg)" "tr_error_class (refuse cls msg) = cls"
  by (simp_all add: refuse_def tool_result_fail_def)

interpretation rg: gatekeeper run_call permitted consulted effect_call "\<lambda>r. \<not> tr_ok r"
proof unfold_locales
  fix c :: "'a call" and w :: 'a
  assume "\<not> permitted c w"
  then show "\<not> tr_ok (fst (run_call c w)) \<and> snd (run_call c w) = consulted c w"
    by (cases c) (auto simp: run_call_def permitted_def consulted_def ask_def enabled_in_def
        tool_registry_execute_def split: option.splits prod.splits bool.splits if_splits)
next
  fix c :: "'a call" and w :: 'a
  assume "permitted c w"
  then show "run_call c w = effect_call c (consulted c w)"
    by (cases c) (auto simp: run_call_def permitted_def consulted_def ask_def enabled_in_def
        effect_call_def tool_registry_execute_def
        split: option.splits prod.splits bool.splits if_splits)
qed

lemma critical_needs_confirmation:
  "needs_confirmation t name (Some p)" if "tool_security_level t = SEC_CRITICAL"
  using that
  by (auto simp: needs_confirmation_def permissions_needs_confirmation_def
      permissions_autonomy_allows_def level_ord Let_def)

end
