(* ===== verification/Agent_Platform.thy ===== *)
theory Agent_Platform
  imports Agent_Json Agent_Reasoning
begin

text \<open>
  The platform layer, \<open>agent/util/platform.c\<close>, and the file helpers of \<open>agent/util/buf.c\<close>. The
  POSIX calls they make (\<open>realpath\<close>, \<open>stat\<close>, \<open>opendir\<close>, \<open>fopen\<close>, \<open>rename\<close>, \<open>fork\<close>, ...) act on a
  world \<open>'w\<close> and are the fields of the record \<open>Posix\<close>, an argument of every definition here.
\<close>

section \<open>The operating system as an argument\<close>

datatype errno = ENOENT | EEXIST | EOTHER

record Stat =
  stat_is_dir :: bool
  stat_size :: int
  stat_mtime :: int

text \<open>
  A file opened for reading: what \<open>fseek\<close>/\<open>ftell\<close> say of its size (\<open>None\<close> when they fail), the
  bytes \<open>fread\<close> delivers until it stops, and whether it stopped with \<open>ferror\<close>.
\<close>

record ReadFile =
  rf_size :: "nat option"
  rf_data :: cstr
  rf_error :: bool

text \<open>Opening for writing, writing every byte and closing: not opened, cut short, or stored.\<close>

datatype PutResult = NoOpen | Short | Stored

datatype WaitStatus = Exited int | Killed

text \<open>What one turn of the poll loop of \<open>proc_run\<close> sees.\<close>

record Tick =
  tk_expired :: bool
  tk_ready :: bool
  tk_reads :: "cstr list"
  tk_wait :: "WaitStatus option"
  tk_final :: "cstr list"
  tk_reaped :: WaitStatus

text \<open>
  \<open>px_spawn\<close> is \<open>pipe\<close>, \<open>fork\<close> and what the parent observes of the child, turn by turn, up to the
  turn that ends the loop; \<open>None\<close> is a failure of \<open>pipe\<close> or \<open>fork\<close>.
\<close>

record 'w Posix =
  px_realpath :: "cstr \<Rightarrow> 'w \<Rightarrow> errno + cstr"
  px_getcwd :: "'w \<Rightarrow> cptr"
  px_stat :: "cstr \<Rightarrow> 'w \<Rightarrow> Stat option"
  px_readdir :: "cstr \<Rightarrow> 'w \<Rightarrow> cstr list option"
  px_mkdir :: "cstr \<Rightarrow> 'w \<Rightarrow> errno option \<times> 'w"
  px_fopen_read :: "cstr \<Rightarrow> 'w \<Rightarrow> ReadFile option"
  px_create :: "cstr \<Rightarrow> cstr \<Rightarrow> 'w \<Rightarrow> PutResult \<times> 'w"
  px_append :: "cstr \<Rightarrow> cstr \<Rightarrow> 'w \<Rightarrow> PutResult \<times> 'w"
  px_rename :: "cstr \<Rightarrow> cstr \<Rightarrow> 'w \<Rightarrow> bool \<times> 'w"
  px_remove :: "cstr \<Rightarrow> 'w \<Rightarrow> bool \<times> 'w"
  px_time :: "'w \<Rightarrow> nat"
  px_spawn :: "cstr \<Rightarrow> cptr \<Rightarrow> int \<Rightarrow> bool \<Rightarrow> 'w \<Rightarrow> (Tick list \<times> f64) option \<times> 'w"

definition PATH_MAX :: nat where "PATH_MAX = 4096"

section \<open>Paths and files (platform.c)\<close>

text \<open>\<open>fs_realpath\<close> into a buffer of \<open>outsz\<close> bytes; \<open>None\<close> is the return value \<open>-1\<close>.\<close>

definition realpath_leaf :: "'w Posix \<Rightarrow> cstr \<Rightarrow> cstr \<Rightarrow> nat \<Rightarrow> 'w \<Rightarrow> cptr" where
  "realpath_leaf px parent leaf outsz w =
     (if strstr leaf ''..'' \<noteq> None then None
      else case px_realpath px parent w of
             Inl _ \<Rightarrow> None
           | Inr rparent \<Rightarrow>
               if length (rparent @ ''/'' @ leaf) \<ge> outsz then None
               else Some (rparent @ ''/'' @ leaf))"

definition fs_realpath :: "'w Posix \<Rightarrow> cstr \<Rightarrow> nat \<Rightarrow> 'w \<Rightarrow> cptr" where
  "fs_realpath px path outsz w =
     (case px_realpath px path w of
        Inr resolved \<Rightarrow> if length resolved + 1 > outsz then None else Some resolved
      | Inl e \<Rightarrow>
          if e \<noteq> ENOENT then None
          else case strrchr_split path (CHR ''/'') of
            None \<Rightarrow>
              (case px_getcwd px w of
                 None \<Rightarrow> None
               | Some cwd \<Rightarrow> realpath_leaf px cwd (snprintf_s PATH_MAX path) outsz w)
          | Some (before, after) \<Rightarrow>
              if before = [] then realpath_leaf px ''/'' (snprintf_s PATH_MAX after) outsz w
              else if length before \<ge> PATH_MAX then None
              else realpath_leaf px before (snprintf_s PATH_MAX after) outsz w)"

definition fs_exists :: "'w Posix \<Rightarrow> cstr \<Rightarrow> 'w \<Rightarrow> bool" where
  "fs_exists px path w \<longleftrightarrow> px_stat px path w \<noteq> None"

definition fs_is_dir :: "'w Posix \<Rightarrow> cstr \<Rightarrow> 'w \<Rightarrow> bool" where
  "fs_is_dir px path w = (case px_stat px path w of None \<Rightarrow> False | Some st \<Rightarrow> stat_is_dir st)"

definition fs_file_size :: "'w Posix \<Rightarrow> cstr \<Rightarrow> 'w \<Rightarrow> int" where
  "fs_file_size px path w = (case px_stat px path w of None \<Rightarrow> -1 | Some st \<Rightarrow> stat_size st)"

text \<open>The copy loop writes what it reads; it reports a short write and a read error.\<close>

definition fs_copy_file :: "'w Posix \<Rightarrow> cstr \<Rightarrow> cstr \<Rightarrow> 'w \<Rightarrow> int \<times> 'w" where
  "fs_copy_file px src dst w =
     (case px_fopen_read px src w of
        None \<Rightarrow> (-1, w)
      | Some f \<Rightarrow>
          (case px_create px dst (rf_data f) w of
             (NoOpen, w1) \<Rightarrow> (-1, w1)
           | (Short, w1) \<Rightarrow> (-1, w1)
           | (Stored, w1) \<Rightarrow> (if rf_error f then -1 else 0, w1)))"

definition fs_remove_file :: "'w Posix \<Rightarrow> cstr \<Rightarrow> 'w \<Rightarrow> int \<times> 'w" where
  "fs_remove_file px path w = (case px_remove px path w of (ok, w1) \<Rightarrow> (if ok then 0 else -1, w1))"

text \<open>The walk of \<open>fs_mkdir_p\<close>: a directory for every prefix that ends before a slash.\<close>

fun mkdir_walk :: "'w Posix \<Rightarrow> cstr \<Rightarrow> cstr \<Rightarrow> 'w \<Rightarrow> int \<times> 'w" where
  "mkdir_walk px before [] w =
     (case px_mkdir px before w of
        (e, w1) \<Rightarrow> (if e \<noteq> None \<and> e \<noteq> Some EEXIST then -1 else 0, w1))"
| "mkdir_walk px before (c # cs) w =
     (if c = CHR ''/'' then
        (case px_mkdir px before w of
           (e, w1) \<Rightarrow> if e \<noteq> None \<and> e \<noteq> Some EEXIST then (-1, w1)
                       else mkdir_walk px (before @ [c]) cs w1)
      else mkdir_walk px (before @ [c]) cs w)"

definition fs_mkdir_p :: "'w Posix \<Rightarrow> cstr \<Rightarrow> 'w \<Rightarrow> int \<times> 'w" where
  "fs_mkdir_p px path w =
     (let tmp = snprintf_s PATH_MAX path in
      if tmp = [] then (-1, w)
      else let t = (if last tmp = CHR ''/'' then butlast tmp else tmp)
           in mkdir_walk px (take 1 t) (drop 1 t) w)"

record DirEntryInfo =
  de_name :: cstr
  de_is_dir :: bool
  de_size :: int
  de_mtime :: int

definition entry_info :: "'w Posix \<Rightarrow> cstr \<Rightarrow> 'w \<Rightarrow> cstr \<Rightarrow> DirEntryInfo" where
  "entry_info px path w name =
     (case px_stat px (snprintf_s PATH_MAX (path @ ''/'' @ name)) w of
        Some st \<Rightarrow> \<lparr>de_name = snprintf_s 256 name, de_is_dir = stat_is_dir st,
                    de_size = stat_size st, de_mtime = stat_mtime st\<rparr>
      | None \<Rightarrow> \<lparr>de_name = snprintf_s 256 name, de_is_dir = False, de_size = 0, de_mtime = 0\<rparr>)"

definition fs_list_dir :: "'w Posix \<Rightarrow> cstr \<Rightarrow> 'w \<Rightarrow> DirEntryInfo list option" where
  "fs_list_dir px path w =
     (case px_readdir px path w of
        None \<Rightarrow> None
      | Some names \<Rightarrow>
          Some (map (entry_info px path w) (filter (\<lambda>n. n \<noteq> ''.'' \<and> n \<noteq> ''..'') names)))"

section \<open>Whole files (buf.c)\<close>

text \<open>The bytes and the truncation flag; \<open>max_bytes = 0\<close> is no limit.\<close>

definition read_entire_file :: "'w Posix \<Rightarrow> cstr \<Rightarrow> nat \<Rightarrow> 'w \<Rightarrow> (cstr \<times> bool) option" where
  "read_entire_file px path max_bytes w =
     (case px_fopen_read px path w of
        None \<Rightarrow> None
      | Some f \<Rightarrow>
          (case rf_size f of
             None \<Rightarrow> None
           | Some sz \<Rightarrow>
               let cut = max_bytes > 0 \<and> sz > max_bytes
               in Some (take (if cut then max_bytes else sz) (rf_data f), cut)))"

definition tmp_name :: "cstr \<Rightarrow> cstr" where
  "tmp_name path = path @ ''.tmp.agent''"

text \<open>Write to a temporary sibling, then rename over the target; the temporary never stays behind a failure.\<close>

definition write_entire_file :: "'w Posix \<Rightarrow> cstr \<Rightarrow> cstr \<Rightarrow> 'w \<Rightarrow> int \<times> 'w" where
  "write_entire_file px path data w =
     (if length (tmp_name path) \<ge> 4096 then (-1, w)
      else case px_create px (tmp_name path) data w of
             (NoOpen, w1) \<Rightarrow> (-1, w1)
           | (Short, w1) \<Rightarrow> (-1, snd (px_remove px (tmp_name path) w1))
           | (Stored, w1) \<Rightarrow>
               (case px_rename px (tmp_name path) path w1 of
                  (True, w2) \<Rightarrow> (0, w2)
                | (False, w2) \<Rightarrow> (-1, snd (px_remove px (tmp_name path) w2))))"

section \<open>Subprocesses (proc_run)\<close>

record ProcResult =
  pr_exit_code :: int
  pr_timed_out :: bool
  pr_signaled :: bool
  pr_output_truncated :: bool
  pr_output :: cstr
  pr_seconds :: f64

text \<open>The read loop: bytes beyond \<open>max_output\<close> are dropped and the flag is raised.\<close>

fun drain :: "nat \<Rightarrow> cstr list \<Rightarrow> cstr \<times> bool \<Rightarrow> cstr \<times> bool" where
  "drain mx [] st = st"
| "drain mx (c # cs) (out, tr) =
     (if mx = 0 \<or> length out < mx then
        (if mx > 0 \<and> length out + length c > mx
         then drain mx cs (out @ take (mx - length out) c, True)
         else drain mx cs (out @ c, tr))
      else drain mx cs (out, True))"

text \<open>
  The poll loop. The state is the output, its truncation flag and \<open>timed_out\<close>; the result adds the
  status of the child once it is reaped (\<open>None\<close>: the loop is still running).
\<close>

fun poll_loop ::
  "nat \<Rightarrow> bool \<Rightarrow> Tick list \<Rightarrow> cstr \<times> bool \<Rightarrow> bool \<Rightarrow> (cstr \<times> bool) \<times> bool \<times> WaitStatus option" where
  "poll_loop mx deadline [] st timed = (st, timed, None)"
| "poll_loop mx deadline (t # ts) st timed =
     (let timed' = (timed \<or> (deadline \<and> tk_expired t));
          st1 = (if tk_ready t then drain mx (tk_reads t) st else st)
      in case tk_wait t of
           Some s \<Rightarrow> (drain mx (tk_final t) st1, timed', Some s)
         | None \<Rightarrow> if timed' then (st1, timed', Some (tk_reaped t))
                    else poll_loop mx deadline ts st1 timed')"

definition proc_run ::
  "'w Posix \<Rightarrow> cstr \<Rightarrow> cptr \<Rightarrow> int \<Rightarrow> nat \<Rightarrow> bool \<Rightarrow> 'w \<Rightarrow> ProcResult option \<times> 'w" where
  "proc_run px command workdir timeout_s max_output clean_env w =
     (case px_spawn px command workdir timeout_s clean_env w of
        (None, w1) \<Rightarrow> (None, w1)
      | (Some (ticks, secs), w1) \<Rightarrow>
          (case poll_loop max_output (timeout_s > 0) ticks ([], False) False of
             ((out, tr), timed, status) \<Rightarrow>
               (Some \<lparr>pr_exit_code =
                        (if timed then -1 else case status of Some (Exited n) \<Rightarrow> n | _ \<Rightarrow> -1),
                      pr_timed_out = timed,
                      pr_signaled = (status = Some Killed),
                      pr_output_truncated = tr, pr_output = out, pr_seconds = secs\<rparr>, w1)))"

section \<open>The output cap and the end of the loop\<close>

text \<open>The kept output is the prefix of what the child wrote; the flag says whether bytes were lost.\<close>

lemma drain_capped:
  assumes "0 < mx" "length out \<le> mx" "\<forall>c \<in> set cs. c \<noteq> []"
  shows "drain mx cs (out, tr) =
    (take mx (out @ concat cs), tr \<or> mx < length out + length (concat cs))"
  using assms
proof (induction cs arbitrary: out tr)
  case (Cons c cs)
  have c: "0 < length c" using Cons.prems by simp
  consider "length out + length c \<le> mx" | "length out < mx" "mx < length out + length c" | "length out = mx"
    using Cons.prems by linarith
  then show ?case
  proof cases
    case 1
    then have "length out < mx" using c by linarith
    then show ?thesis using 1 Cons.prems by (simp add: Cons.IH add.assoc)
  next
    case 2
    then show ?thesis using Cons.prems by (simp add: Cons.IH)
  next
    case 3
    then show ?thesis using Cons.prems c by (simp add: Cons.IH)
  qed
qed simp

lemma drain_uncapped: "drain 0 cs (out, tr) = (out @ concat cs, tr)"
  by (induction cs arbitrary: out) simp_all

lemma drain_bound:
  "0 < mx \<Longrightarrow> length (fst st) \<le> mx \<Longrightarrow> length (fst (drain mx cs st)) \<le> mx"
proof (induction mx cs st rule: drain.induct)
  case (2 mx c cs out tr)
  then show ?case by (cases "length out < mx") (auto simp: min_def)
qed simp

lemma poll_loop_bound:
  "0 < mx \<Longrightarrow> length (fst st) \<le> mx \<Longrightarrow> length (fst (fst (poll_loop mx dl ts st timed))) \<le> mx"
proof (induction ts arbitrary: st timed)
  case (Cons t ts)
  define st1 where "st1 = (if tk_ready t then drain mx (tk_reads t) st else st)"
  have "length (fst st1) \<le> mx" using Cons.prems by (simp add: st1_def drain_bound)
  then show ?case
    using Cons.IH Cons.prems(1) by (simp add: Let_def drain_bound flip: st1_def split: option.split)
qed simp

lemma proc_run_bound:
  assumes "0 < mx" "proc_run px cmd wd t mx env w = (Some r, w')"
  shows "length (pr_output r) \<le> mx"
proof -
  obtain ticks secs where sp: "px_spawn px cmd wd t env w = (Some (ticks, secs), w')"
    using assms(2) by (auto simp: proc_run_def split: prod.splits option.splits)
  have "length (fst (fst (poll_loop mx (t > 0) ticks ([], False) False))) \<le> mx"
    using assms(1) by (rule poll_loop_bound) simp
  then show ?thesis using assms(2) sp by (auto simp: proc_run_def split: prod.splits)
qed

text \<open>A deadline that passes, or a child that exits, ends the loop in that very turn.\<close>

lemma poll_loop_ends:
  assumes "t \<in> set ts" "tk_wait t \<noteq> None \<or> dl \<and> tk_expired t"
  shows "snd (snd (poll_loop mx dl ts st timed)) \<noteq> None"
  using assms
proof (induction ts arbitrary: st timed)
  case (Cons t' ts)
  show ?case
  proof (cases "t \<in> set ts")
    case True
    from Cons.IH [OF True Cons.prems(2)] show ?thesis
      by (simp add: Let_def del: not_None_eq split: option.split)
  next
    case False
    then have "t' = t" using Cons.prems(1) by simp
    then show ?thesis using Cons.prems(2) by (auto simp: Let_def split: option.split)
  qed
qed simp

section \<open>What the poll loop reads\<close>

text \<open>
  The turns the loop takes, up to and including the first one in which the child has exited or the deadline has passed,
  and what is read in them: whatever \<open>poll\<close> announced, and after the child has exited what is left in the pipe.
\<close>

definition turn_ends :: "bool \<Rightarrow> Tick \<Rightarrow> bool" where
  "turn_ends deadline t \<longleftrightarrow> tk_wait t \<noteq> None \<or> deadline \<and> tk_expired t"

definition turns :: "bool \<Rightarrow> Tick list \<Rightarrow> Tick list" where
  "turns deadline ts = takeWhile (\<lambda>t. \<not> turn_ends deadline t) ts @ take 1 (dropWhile (\<lambda>t. \<not> turn_ends deadline t) ts)"

definition turn_reads :: "Tick \<Rightarrow> cstr list" where
  "turn_reads t = (if tk_ready t then tk_reads t else []) @ (if tk_wait t \<noteq> None then tk_final t else [])"

definition output_read :: "bool \<Rightarrow> Tick list \<Rightarrow> cstr" where
  "output_read deadline ts = concat (concat (map turn_reads (turns deadline ts)))"

text \<open>\<open>read\<close> returned more than zero for every chunk.\<close>

definition proper_reads :: "Tick list \<Rightarrow> bool" where
  "proper_reads ts \<longleftrightarrow> (\<forall>t\<in>set ts. [] \<notin> set (tk_reads t) \<and> [] \<notin> set (tk_final t))"

lemma turns_simps [simp]:
  "turns dl [] = []"
  "turns dl (t # ts) = (if turn_ends dl t then [t] else t # turns dl ts)"
  by (simp_all add: turns_def)

text \<open>Draining twice is draining once.\<close>

lemma drain_append: "drain mx (cs @ ds) st = drain mx ds (drain mx cs st)"
proof (induction mx cs st rule: drain.induct)
  case (2 mx c cs out tr)
  then show ?case by (cases "mx = 0") simp_all
qed simp

lemma poll_loop_reads:
  "poll_loop mx dl ts st False =
     (drain mx (concat (map turn_reads (turns dl ts))) st,
      \<exists>t\<in>set (turns dl ts). dl \<and> tk_expired t,
      if \<exists>t\<in>set ts. turn_ends dl t
      then Some (case tk_wait (last (turns dl ts)) of Some s \<Rightarrow> s | None \<Rightarrow> tk_reaped (last (turns dl ts)))
      else None)"
proof (induction ts arbitrary: st)
  case (Cons t ts)
  define st1 where "st1 = (if tk_ready t then drain mx (tk_reads t) st else st)"
  have st1: "drain mx (if tk_ready t then tk_reads t else []) st = st1" by (simp add: st1_def)
  have ne: "turns dl ts \<noteq> []" if "\<exists>t\<in>set ts. turn_ends dl t" using that by (cases ts) auto
  show ?case
  proof (cases "turn_ends dl t")
    case True
    then show ?thesis
      by (cases "tk_wait t") (simp_all add: turn_ends_def turn_reads_def drain_append st1 Let_def flip: st1_def)
  next
    case False
    then have t: "tk_wait t = None" "(dl \<and> tk_expired t) = False" by (simp_all add: turn_ends_def)
    then have "poll_loop mx dl (t # ts) st False = poll_loop mx dl ts st1 False"
      by (simp only: poll_loop.simps Let_def t option.case if_False simp_thms flip: st1_def)
    moreover have "turn_reads t = (if tk_ready t then tk_reads t else [])" by (simp add: turn_reads_def t)
    then have "drain mx (concat (map turn_reads (turns dl (t # ts)))) st =
        drain mx (concat (map turn_reads (turns dl ts))) st1"
      using False by (simp add: drain_append st1_def)
    moreover have "(\<exists>x\<in>set (turns dl (t # ts)). dl \<and> tk_expired x) \<longleftrightarrow> (\<exists>x\<in>set (turns dl ts). dl \<and> tk_expired x)"
      "(\<exists>x\<in>set (t # ts). turn_ends dl x) \<longleftrightarrow> (\<exists>x\<in>set ts. turn_ends dl x)"
      using False t(2) by auto
    moreover have "last (turns dl (t # ts)) = last (turns dl ts)" if "\<exists>x\<in>set ts. turn_ends dl x"
      using False ne [OF that] by simp
    ultimately show ?thesis by (simp only: Cons.IH cong: if_cong)
  qed
qed simp

lemma proper_turn_reads: "proper_reads ts \<Longrightarrow> [] \<notin> set (concat (map turn_reads (turns dl ts)))"
  by (induction ts) (auto simp: proper_reads_def turn_reads_def)

text \<open>What is still in the pipe when the deadline passes before the child is reaped is not read: nothing depends on it.\<close>

lemma timeout_skips_the_final_drain:
  assumes "tk_wait t = None" "dl \<and> tk_expired t"
  shows "poll_loop mx dl (t\<lparr>tk_final := left_over\<rparr> # ts) st timed = poll_loop mx dl (t # ts) st timed"
  using assms by (simp add: Let_def)

section \<open>Replacing a file\<close>

text \<open>
  What \<open>write_entire_file\<close> relies on. Two paths may denote the same file without being equal (a doubled slash, a symbolic
  or a hard link); \<open>same a b w\<close> says that they do in the world \<open>w\<close>. The laws are the documented ones: creating and
  removing a file changes no file but the one the path denotes and creating one makes no other two paths the same, a
  stored file holds what was written, a successful \<open>rename\<close> gives the target the content of the source and leaves the
  files that neither path denotes alone, and a failed one changes nothing.
\<close>

definition file_content :: "'w Posix \<Rightarrow> cstr \<Rightarrow> 'w \<Rightarrow> cptr" where
  "file_content px p w = map_option rf_data (px_fopen_read px p w)"

definition file_laws :: "'w Posix \<Rightarrow> (cstr \<Rightarrow> cstr \<Rightarrow> 'w \<Rightarrow> bool) \<Rightarrow> bool" where
  "file_laws px same \<longleftrightarrow>
     (\<forall>p q d w. \<not> same p q w \<longrightarrow> file_content px q (snd (px_create px p d w)) = file_content px q w) \<and>
     (\<forall>p a b d w. \<not> same a b w \<longrightarrow> \<not> same a b (snd (px_create px p d w))) \<and>
     (\<forall>p q w. \<not> same p q w \<longrightarrow> file_content px q (snd (px_remove px p w)) = file_content px q w) \<and>
     (\<forall>p d w. fst (px_create px p d w) = Stored \<longrightarrow>
        file_content px p (snd (px_create px p d w)) = Some d) \<and>
     (\<forall>p q w. fst (px_rename px p q w) \<longrightarrow>
        file_content px q (snd (px_rename px p q w)) = file_content px p w) \<and>
     (\<forall>p q w. \<not> fst (px_rename px p q w) \<longrightarrow> snd (px_rename px p q w) = w) \<and>
     (\<forall>p q r w. \<not> same p r w \<longrightarrow> \<not> same q r w \<longrightarrow>
        file_content px r (snd (px_rename px p q w)) = file_content px r w)"

lemma file_lawsD:
  assumes "file_laws px same"
  shows "px_create px p d w = (pr, w') \<Longrightarrow> \<not> same p q w \<Longrightarrow> file_content px q w' = file_content px q w"
    and "px_create px p d w = (pr, w') \<Longrightarrow> \<not> same a b w \<Longrightarrow> \<not> same a b w'"
    and "\<not> same p q w \<Longrightarrow> file_content px q (snd (px_remove px p w)) = file_content px q w"
    and "px_create px p d w = (Stored, w') \<Longrightarrow> file_content px p w' = Some d"
    and "px_rename px p q w = (True, w') \<Longrightarrow> file_content px q w' = file_content px p w"
    and "px_rename px p q w = (False, w') \<Longrightarrow> w' = w"
    and "px_rename px p q w = (ok, w') \<Longrightarrow> \<not> same p r w \<Longrightarrow> \<not> same q r w \<Longrightarrow>
      file_content px r w' = file_content px r w"
  using assms unfolding file_laws_def
  by (metis snd_conv, metis snd_conv, metis, metis fst_conv snd_conv, metis fst_conv snd_conv,
      metis fst_conv snd_conv, metis snd_conv)

text \<open>
  The four ways a write ends. In each of them the target keeps its content or has the new one, and a file that
  neither the path nor its temporary sibling denotes keeps its own.
\<close>

lemma write_entire_file_atomic:
  assumes fl: "file_laws px same" and run: "write_entire_file px p d w = (rc, w')"
    and tmp: "\<not> same (tmp_name p) p w"
  shows "file_content px p w' = (if rc = 0 then Some d else file_content px p w)"
    and "\<not> same (tmp_name p) q w \<Longrightarrow> \<not> same p q w \<Longrightarrow> file_content px q w' = file_content px q w"
proof -
  obtain pr w1 where c: "px_create px (tmp_name p) d w = (pr, w1)" by fastforce
  obtain ok w2 where r: "px_rename px (tmp_name p) p w1 = (ok, w2)" by fastforce
  note created = file_lawsD(1,2) [OF fl c]
  note facts = created created(1) [OF tmp] created(2) [OF tmp] file_lawsD(3) [OF fl]
    file_lawsD(4) [OF fl, of "tmp_name p" d w w1] file_lawsD(5,6) [OF fl, of "tmp_name p" p w1 w2]
    file_lawsD(7) [OF fl r]
  show "file_content px p w' = (if rc = 0 then Some d else file_content px p w)"
    using run c r facts
    by (auto simp: write_entire_file_def split: if_splits PutResult.splits bool.splits)
  show "file_content px q w' = file_content px q w" if "\<not> same (tmp_name p) q w" "\<not> same p q w"
    using run c r facts created(1) [OF that(1)] created(2) [OF that(1)] created(2) [OF that(2)]
    by (auto simp: write_entire_file_def split: if_splits PutResult.splits bool.splits)
qed

end
