(* ===== verification/Agent_Sandbox.thy ===== *)
theory Agent_Sandbox
  imports Agent_Platform
begin

text \<open>
  The workspace sandbox, \<open>agent/security/sandbox.c\<close>: path confinement, backups and rollback. What
  confinement means is stated on the components of a path.
\<close>

record Sandbox =
  sb_root :: cstr
  sb_enabled :: bool
  sb_backup_seq :: nat

definition sandbox_create :: "'w Posix \<Rightarrow> cstr \<Rightarrow> bool \<Rightarrow> 'w \<Rightarrow> Sandbox \<times> 'w" where
  "sandbox_create px root enabled w =
     (let w1 = snd (fs_mkdir_p px root w);
          r = (case fs_realpath px root 4096 w1 of
                 Some resolved \<Rightarrow> resolved | None \<Rightarrow> snprintf_s 4096 root);
          w2 = snd (fs_mkdir_p px (snprintf_s 4200 (r @ ''/.agent/backups'')) w1)
      in (\<lparr>sb_root = r, sb_enabled = enabled, sb_backup_seq = 0\<rparr>, w2))"

definition within :: "cstr \<Rightarrow> cstr \<Rightarrow> bool" where
  "within root abspath =
     (let rl = length root in
      if \<not> strncmp_eq abspath root rl then False
      else case drop rl abspath of [] \<Rightarrow> True | c # _ \<Rightarrow> c = CHR ''/'')"

definition sandbox_resolve :: "'w Posix \<Rightarrow> Sandbox \<Rightarrow> cptr \<Rightarrow> nat \<Rightarrow> 'w \<Rightarrow> cptr" where
  "sandbox_resolve px s path outsz w =
     (if \<not> nonempty_str path then None
      else let p = the path;
               joined = (if hd p = CHR ''/'' then Some (snprintf_s 4096 p)
                         else if length (sb_root s @ ''/'' @ p) \<ge> 4096 then None
                         else Some (sb_root s @ ''/'' @ p))
           in case joined of
                None \<Rightarrow> None
              | Some j \<Rightarrow>
                  (case fs_realpath px j 4096 w of
                     None \<Rightarrow> None
                   | Some resolved \<Rightarrow>
                       if sb_enabled s \<and> \<not> within (sb_root s) resolved then None
                       else if length resolved + 1 > outsz then None
                       else Some resolved))"

definition base_name :: "cstr \<Rightarrow> cstr" where
  "base_name abspath = (case strrchr_split abspath (CHR ''/'') of None \<Rightarrow> abspath | Some (_, b) \<Rightarrow> b)"

definition backup_dir :: "Sandbox \<Rightarrow> cstr" where
  "backup_dir s = sb_root s @ ''/.agent/backups''"

definition backup_path :: "Sandbox \<Rightarrow> cstr \<Rightarrow> nat \<Rightarrow> nat \<Rightarrow> cstr" where
  "backup_path s base seq ts =
     snprintf_s 4300 (backup_dir s @ ''/'' @ base @ ''.'' @ show_nat seq @ ''.'' @ show_nat ts @ ''.bak'')"

definition sandbox_backup :: "'w Posix \<Rightarrow> Sandbox \<Rightarrow> cstr \<Rightarrow> 'w \<Rightarrow> int \<times> Sandbox \<times> 'w" where
  "sandbox_backup px s abspath w =
     (if \<not> fs_exists px abspath w then (0, s, w)
      else let dst = backup_path s (base_name abspath) (sb_backup_seq s) (px_time px w);
               s1 = s\<lparr>sb_backup_seq := sb_backup_seq s + 1\<rparr>
           in case fs_copy_file px abspath dst w of
                (rc, w1) \<Rightarrow> (if rc \<noteq> 0 then -1 else 0, s1, w1))"

text \<open>The scan for the newest backup: a later entry with an equal time stamp wins.\<close>

fun newest :: "cstr \<Rightarrow> DirEntryInfo list \<Rightarrow> cstr \<Rightarrow> int \<Rightarrow> cstr" where
  "newest pre [] best best_mt = best"
| "newest pre (e # es) best best_mt =
     (if strncmp_eq (de_name e) pre (length pre) \<and> de_mtime e \<ge> best_mt
      then newest pre es (snprintf_s 512 (de_name e)) (de_mtime e)
      else newest pre es best best_mt)"

definition sandbox_rollback :: "'w Posix \<Rightarrow> Sandbox \<Rightarrow> cstr \<Rightarrow> 'w \<Rightarrow> int \<times> 'w" where
  "sandbox_rollback px s abspath w =
     (let bdir = snprintf_s 4200 (backup_dir s) in
      case fs_list_dir px bdir w of
        None \<Rightarrow> (-1, w)
      | Some ents \<Rightarrow>
          let best = newest (snprintf_s 512 (base_name abspath @ ''.'')) ents [] 0
          in if best = [] then (-1, w)
             else case fs_copy_file px (snprintf_s 4400 (bdir @ ''/'' @ best)) abspath w of
                    (rc, w1) \<Rightarrow> (if rc \<noteq> 0 then -1 else 0, w1))"

section \<open>Components of a path\<close>

definition keep_comp :: "cstr \<Rightarrow> cstr list" where
  "keep_comp acc = (if acc = [] \<or> acc = ''.'' then [] else [acc])"

fun split_path :: "cstr \<Rightarrow> cstr \<Rightarrow> cstr list" where
  "split_path acc [] = keep_comp acc"
| "split_path acc (c # cs) =
     (if c = CHR ''/'' then keep_comp acc @ split_path [] cs else split_path (acc @ [c]) cs)"

definition path_comps :: "cstr \<Rightarrow> cstr list" where
  "path_comps p = split_path [] p"

lemma split_path_append: "split_path acc (a @ CHR ''/'' # b) = split_path acc a @ path_comps b"
  by (induction a arbitrary: acc) (simp_all add: path_comps_def)

lemma path_comps_append: "path_comps (a @ ''/'' @ b) = path_comps a @ path_comps b"
  using split_path_append [of "[]" a b] by (simp add: path_comps_def)

lemma split_path_no_slash: "CHR ''/'' \<notin> set b \<Longrightarrow> split_path acc b = keep_comp (acc @ b)"
  by (induction b arbitrary: acc) auto

lemma path_comps_leaf: "CHR ''/'' \<notin> set leaf \<Longrightarrow> set (path_comps leaf) \<subseteq> {leaf}"
  by (simp add: path_comps_def split_path_no_slash keep_comp_def)

text \<open>A path is confined to a root when its components extend the root's without going up.\<close>

definition confined :: "cstr \<Rightarrow> cstr \<Rightarrow> bool" where
  "confined root p \<longleftrightarrow> prefix (path_comps root) (path_comps p) \<and>
     ''..'' \<notin> set (drop (length (path_comps root)) (path_comps p))"

lemma within_comps: "within root p \<Longrightarrow> \<exists>rest. path_comps p = path_comps root @ rest"
proof -
  assume w: "within root p"
  then have pre: "prefix root p"
    by (auto simp: within_def strncmp_eq_def prefix_iff_take Let_def split: if_splits)
  then obtain r where p: "p = root @ r" by (auto simp: prefix_def)
  show ?thesis
  proof (cases r)
    case (Cons c cs)
    with w p have "p = root @ ''/'' @ cs" by (simp add: within_def Let_def split: if_splits)
    then show ?thesis by (metis path_comps_append)
  qed (simp add: p)
qed

section \<open>Confinement\<close>

text \<open>What \<open>realpath\<close> promises of its result: no component of it is \<open>..\<close>.\<close>

definition realpath_canonical :: "'w Posix \<Rightarrow> bool" where
  "realpath_canonical px \<longleftrightarrow> (\<forall>p w r. px_realpath px p w = Inr r \<longrightarrow> ''..'' \<notin> set (path_comps r))"

lemma realpath_leaf_no_up:
  assumes "realpath_canonical px" "CHR ''/'' \<notin> set leaf" "realpath_leaf px parent leaf n w = Some out"
  shows "''..'' \<notin> set (path_comps out)"
proof -
  from assms(3) obtain r where r: "px_realpath px parent w = Inr r" "out = r @ ''/'' @ leaf"
    and leaf: "strstr leaf ''..'' = None"
    by (auto simp: realpath_leaf_def split: if_splits sum.splits)
  have "''..'' \<notin> set (path_comps r)" using assms(1) r(1) by (auto simp: realpath_canonical_def)
  moreover have "leaf \<noteq> ''..''" using leaf by auto
  ultimately show ?thesis
    using path_comps_leaf [OF assms(2)] unfolding r(2) path_comps_append by auto
qed

lemma in_snprintf_s: "c \<in> set (snprintf_s n s) \<Longrightarrow> c \<in> set s"
  by (auto simp: snprintf_s_def dest: in_set_takeD)

lemma fs_realpath_no_up:
  assumes can: "realpath_canonical px" and run: "fs_realpath px p n w = Some out"
  shows "''..'' \<notin> set (path_comps out)"
proof (cases "px_realpath px p w")
  case (Inr r)
  then show ?thesis using run can by (auto simp: fs_realpath_def realpath_canonical_def split: if_splits)
next
  case (Inl e)
  show ?thesis
  proof (cases "strrchr_split p (CHR ''/'')")
    case None
    then have "CHR ''/'' \<notin> set (snprintf_s PATH_MAX p)"
      by (auto simp: strrchr_split_None dest: in_snprintf_s)
    then show ?thesis using run Inl None
      by (auto simp: fs_realpath_def split: if_splits option.splits dest: realpath_leaf_no_up [OF can])
  next
    case (Some ab)
    obtain a b where ab: "ab = (a, b)" by fastforce
    with Some have "CHR ''/'' \<notin> set (snprintf_s PATH_MAX b)"
      using strrchr_split_Some [of p "CHR ''/''" a b] by (auto dest: in_snprintf_s)
    then show ?thesis using run Inl Some ab
      by (auto simp: fs_realpath_def split: if_splits dest: realpath_leaf_no_up [OF can])
  qed
qed

lemma sandbox_resolve_real:
  assumes "sandbox_resolve px s path n w = Some out"
  shows "\<exists>j. fs_realpath px j 4096 w = Some out" and "sb_enabled s \<Longrightarrow> within (sb_root s) out"
    and "length out < n"
  using assms by (auto simp: sandbox_resolve_def Let_def split: if_splits option.splits)

lemma sandbox_resolve_confined:
  assumes "realpath_canonical px" "sb_enabled s" "sandbox_resolve px s path n w = Some out"
  shows "confined (sb_root s) out"
proof -
  obtain rest where rest: "path_comps out = path_comps (sb_root s) @ rest"
    using within_comps [OF sandbox_resolve_real(2) [OF assms(3,2)]] by blast
  moreover obtain j where "fs_realpath px j 4096 w = Some out"
    using sandbox_resolve_real(1) [OF assms(3)] by blast
  ultimately show ?thesis
    using fs_realpath_no_up [OF assms(1)] by (fastforce simp: confined_def)
qed

section \<open>Backups\<close>

lemma show_nat_digits: "c \<in> set (show_nat n) \<Longrightarrow> 48 \<le> chr_code c \<and> chr_code c \<le> 57"
proof (induction n rule: show_nat.induct)
  case (1 n)
  show ?case
  proof (cases "n < 10")
    case True
    with "1.prems" show ?thesis
      by (auto simp: show_nat.simps [of n] digit_char_def chr_code_def)
  next
    case False
    with "1.prems" have "c \<in> set (show_nat (n div 10)) \<or> c = digit_char (n mod 10)"
      by (auto simp: show_nat.simps [of n])
    then show ?thesis
    proof
      assume "c = digit_char (n mod 10)"
      moreover have "n mod 10 < 10" by simp
      ultimately show ?thesis by (simp add: digit_char_def chr_code_def)
    qed (rule "1.IH" [OF False])
  qed
qed

lemma show_nat_no_dot: "CHR ''.'' \<notin> set (show_nat n)"
  using show_nat_digits [of "CHR ''.''" n] by (auto simp: chr_code_def)

lemma show_nat_nonempty [simp]: "show_nat n \<noteq> []"
  by (simp add: show_nat.simps [of n])

lemma digit_char_inject: "a < 10 \<Longrightarrow> b < 10 \<Longrightarrow> digit_char a = digit_char b \<Longrightarrow> a = b"
  using arg_cong [of "digit_char a" "digit_char b" "of_char :: char \<Rightarrow> nat"]
  by (simp add: digit_char_def)

lemma show_nat_inject: "show_nat a = show_nat b \<Longrightarrow> a = b"
proof (induction a arbitrary: b rule: show_nat.induct)
  case (1 a)
  have short: "length (show_nat n) = 1 \<longleftrightarrow> n < 10" for n
    by (simp add: show_nat.simps [of n])
  show ?case
  proof (cases "a < 10")
    case True
    moreover from True short [of a] short [of b] "1.prems" have "b < 10" by simp
    ultimately show ?thesis using "1.prems"
      by (simp add: show_nat.simps [of a] show_nat.simps [of b] digit_char_inject)
  next
    case False
    moreover from False short [of a] short [of b] "1.prems" have b: "\<not> b < 10" by simp
    ultimately have "show_nat (a div 10) = show_nat (b div 10)"
      and "digit_char (a mod 10) = digit_char (b mod 10)"
      using "1.prems" by (simp_all add: show_nat.simps [of a] show_nat.simps [of b])
    then have "a div 10 = b div 10" "a mod 10 = b mod 10"
      using "1.IH" [OF False] by (simp_all add: digit_char_inject)
    then show ?thesis by (metis div_mult_mod_eq)
  qed
qed

text \<open>Cutting at the last occurrence of a separator is unambiguous.\<close>

lemma last_sep_unique:
  assumes "u @ c # v = u' @ c # v'" "c \<notin> set v" "c \<notin> set v'"
  shows "u = u' \<and> v = v'"
proof -
  have no: "us = [] \<and> x = y" if "us @ c # x = c # y" "c \<notin> set y" for us x y
    using that by (cases us) auto
  from assms(1) show ?thesis
    using assms(2,3) no [of _ v v'] no [of _ v' v] by (auto simp: append_eq_append_conv2 dest: sym)
qed

lemma backup_name_inject:
  assumes "a @ ''.'' @ show_nat n @ ''.'' @ show_nat t @ ''.bak'' =
           b @ ''.'' @ show_nat m @ ''.'' @ show_nat u @ ''.bak''"
  shows "a = b \<and> n = m \<and> t = u"
proof -
  let ?dot = "CHR ''.''"
  have "((a @ ?dot # show_nat n) @ ?dot # show_nat t) @ ?dot # ''bak'' =
        ((b @ ?dot # show_nat m) @ ?dot # show_nat u) @ ?dot # ''bak''"
    using assms by simp
  then have "(a @ ?dot # show_nat n) @ ?dot # show_nat t = (b @ ?dot # show_nat m) @ ?dot # show_nat u"
    by simp
  from last_sep_unique [OF this show_nat_no_dot show_nat_no_dot]
  have ab: "a @ ?dot # show_nat n = b @ ?dot # show_nat m" and t: "show_nat t = show_nat u" by auto
  from last_sep_unique [OF ab show_nat_no_dot show_nat_no_dot] t show ?thesis
    by (auto dest: show_nat_inject)
qed

text \<open>As long as the name fits its buffer, a backup never lands on an earlier one of the session.\<close>

lemma backup_path_inject:
  assumes "length (backup_path s base n t) < 4299" "length (backup_path s base' m u) < 4299"
    and eq: "backup_path s base n t = backup_path s base' m u"
  shows "base = base' \<and> n = m \<and> t = u"
proof -
  have fits: "x = snprintf_s 4300 x" if "length (snprintf_s 4300 x) < 4299" for x
    using that by (simp add: snprintf_s_def)
  note whole = fits [OF assms(1) [unfolded backup_path_def]] fits [OF assms(2) [unfolded backup_path_def]]
  from eq have "backup_dir s @ ''/'' @ base @ ''.'' @ show_nat n @ ''.'' @ show_nat t @ ''.bak'' =
        backup_dir s @ ''/'' @ base' @ ''.'' @ show_nat m @ ''.'' @ show_nat u @ ''.bak''"
    unfolding backup_path_def by (simp only: whole [symmetric])
  then have "base @ ''.'' @ show_nat n @ ''.'' @ show_nat t @ ''.bak'' =
        base' @ ''.'' @ show_nat m @ ''.'' @ show_nat u @ ''.bak''"
    by (simp only: same_append_eq)
  then show ?thesis by (rule backup_name_inject)
qed

lemma newest_choice:
  assumes "newest pre es best mt = r"
  shows "r = best \<and> (\<forall>e \<in> set es. prefix pre (de_name e) \<longrightarrow> de_mtime e < mt) \<or>
    (\<exists>e \<in> set es. prefix pre (de_name e) \<and> r = snprintf_s 512 (de_name e) \<and> mt \<le> de_mtime e \<and>
       (\<forall>e' \<in> set es. prefix pre (de_name e') \<longrightarrow> de_mtime e' \<le> de_mtime e))"
  using assms
proof (induction es arbitrary: best mt)
  case (Cons e es)
  have pre: "strncmp_eq (de_name e) pre (length pre) \<longleftrightarrow> prefix pre (de_name e)"
    by (simp add: strncmp_eq_def prefix_iff_take)
  show ?case
  proof (cases "prefix pre (de_name e) \<and> de_mtime e \<ge> mt")
    case True
    with Cons.prems have "newest pre es (snprintf_s 512 (de_name e)) (de_mtime e) = r"
      by (simp add: pre)
    from Cons.IH [OF this] True show ?thesis
      by (elim disjE) (force, force intro: order_trans)
  next
    case False
    with Cons.prems have "newest pre es best mt = r" by (simp add: pre)
    from Cons.IH [OF this] False show ?thesis by (elim disjE) force+
  qed
qed simp

end
