(* ===== verification/Agent_Builtins.thy ===== *)
theory Agent_Builtins
  imports Agent_Tools Agent_Sandbox
begin

text \<open>
  The built-in tools: \<open>agent/tools/filesystem.c\<close>, \<open>shell.c\<close>, \<open>git.c\<close> and \<open>web.c\<close>. They act on
  the operating system's world together with the sandbox object the tool context points at. The
  locale \<open>path_tool\<close> is the contract the file tools share: a path that the sandbox does not
  resolve is a permission error and nothing happens.
\<close>

record 'w Env =
  env_os :: 'w
  env_sb :: Sandbox

text \<open>Formatting the C library does: \<open>strftime\<close> on a time stamp, \<open>%.2f\<close>, and \<open>(double) int\<close>.\<close>

record Libc =
  lc_strftime :: "int \<Rightarrow> cstr"
  lc_fixed2 :: "f64 \<Rightarrow> cstr"
  lc_double :: "int \<Rightarrow> f64"

type_synonym 'w tool_fn =
  "json \<Rightarrow> 'w Env ToolContext \<Rightarrow> ToolResult \<Rightarrow> 'w Env \<Rightarrow> int \<times> ToolResult \<times> 'w Env"

definition pad_left :: "nat \<Rightarrow> cstr \<Rightarrow> cstr" where
  "pad_left n s = replicate (n - length s) (CHR '' '') @ s"

definition pad_right :: "nat \<Rightarrow> cstr \<Rightarrow> cstr" where
  "pad_right n s = s @ replicate (n - length s) (CHR '' '')"

text \<open>Bytes of a file read as a C string: up to the first NUL.\<close>

definition as_cstr :: "cstr \<Rightarrow> cstr" where
  "as_cstr d = takeWhile (\<lambda>c. c \<noteq> CHR 0x00) d"

definition resolve_in :: "'w Posix \<Rightarrow> 'w Env \<Rightarrow> cstr \<Rightarrow> cptr" where
  "resolve_in px e path = sandbox_resolve px (env_sb e) (Some path) 4096 (env_os e)"

definition backup_in :: "'w Posix \<Rightarrow> 'w Env \<Rightarrow> cstr \<Rightarrow> 'w Env" where
  "backup_in px e abspath =
     (case sandbox_backup px (env_sb e) abspath (env_os e) of
        (_, s, w) \<Rightarrow> \<lparr>env_os = w, env_sb = s\<rparr>)"

section \<open>filesystem.c\<close>

definition MAX_READ_BYTES :: int where "MAX_READ_BYTES = 256 * 1024"

function number_lines :: "nat \<Rightarrow> cstr \<Rightarrow> cstr" where
  "number_lines line p =
     (if p = [] then []
      else pad_left 6 (show_nat line) @ [TAB] @ takeWhile (\<lambda>c. c \<noteq> LF) p @ [LF] @
           (case dropWhile (\<lambda>c. c \<noteq> LF) p of
              [] \<Rightarrow> []
            | _ # rest \<Rightarrow> number_lines (line + 1) rest))"
  by pat_completeness auto
termination
proof (relation "measure (\<lambda>(_, p). length p)", simp)
  fix line p c and rest :: cstr
  assume "dropWhile (\<lambda>c. c \<noteq> LF) p = c # rest"
  then have "length (c # rest) \<le> length p" by (metis length_dropWhile_le)
  then show "((line + 1, rest), line, p) \<in> measure (\<lambda>(_, p). length p)" by simp
qed

declare number_lines.simps [simp del]

definition t_read_file :: "'w Posix \<Rightarrow> 'w tool_fn" where
  "t_read_file px args ctx res e =
     (case jx_str args ''path'' None of
        None \<Rightarrow> (0, tool_result_fail res REC_INVALID_ARGUMENT (''read_file needs '' @ quoted ''path''), e)
      | Some path \<Rightarrow>
          let m = jx_int args ''max_bytes'' MAX_READ_BYTES;
              max_bytes = (if m \<le> 0 \<or> m > MAX_READ_BYTES then MAX_READ_BYTES else m)
          in case resolve_in px e path of
               None \<Rightarrow> (0, tool_result_fail res REC_PERMISSION_ERROR
                            (''path '' @ quoted path @ '' is outside the workspace''), e)
             | Some abspath \<Rightarrow>
                 if \<not> fs_exists px abspath (env_os e) then
                   (0, tool_result_fail res REC_FILE_NOT_FOUND (''no such file: '' @ path), e)
                 else case read_entire_file px abspath (nat max_bytes) (env_os e) of
                        None \<Rightarrow> (0, tool_result_fail res REC_TOOL_ERROR (''cannot read '' @ path), e)
                      | Some (data, trunc) \<Rightarrow>
                          (0, tool_result_ok (res\<lparr>tr_truncated := trunc\<rparr>)
                                (Some (path @ '' ('' @ show_nat (length data) @ '' bytes'' @
                                       (if trunc then '', truncated'' else []) @ ''):'' @ [LF] @
                                       number_lines 1 (as_cstr data))), e))"

text \<open>The effect of a resolved \<open>write_file\<close>: backup, parent directories, then the write itself.\<close>

definition store_file :: "'w Posix \<Rightarrow> cstr \<Rightarrow> cstr \<Rightarrow> cstr \<Rightarrow> 'w Env \<Rightarrow> int option \<times> 'w Env" where
  "store_file px abspath mode content e =
     (let e1 = (if fs_exists px abspath (env_os e) then backup_in px e abspath else e);
          w1 = (case strrchr_split (snprintf_s 4096 abspath) (CHR ''/'') of
                  None \<Rightarrow> env_os e1
                | Some (parent, _) \<Rightarrow> snd (fs_mkdir_p px parent (env_os e1)))
      in if mode = ''append'' then
           (case px_append px abspath content w1 of
              (NoOpen, w2) \<Rightarrow> (None, e1\<lparr>env_os := w2\<rparr>)
            | (Short, w2) \<Rightarrow> (Some (-1), e1\<lparr>env_os := w2\<rparr>)
            | (Stored, w2) \<Rightarrow> (Some 0, e1\<lparr>env_os := w2\<rparr>))
         else (case write_entire_file px abspath content w1 of
                 (rc, w2) \<Rightarrow> (Some rc, e1\<lparr>env_os := w2\<rparr>)))"

definition t_write_file :: "'w Posix \<Rightarrow> 'w tool_fn" where
  "t_write_file px args ctx res e =
     (case (jx_str args ''path'' None, jx_str args ''content'' None) of
        (Some path, Some content) \<Rightarrow>
          let mode = or_default (jx_str args ''mode'' (Some ''overwrite'')) []
          in (case resolve_in px e path of
                None \<Rightarrow> (0, tool_result_fail res REC_PERMISSION_ERROR
                             (''path '' @ quoted path @ '' outside workspace''), e)
              | Some abspath \<Rightarrow>
                  let existed = fs_exists px abspath (env_os e)
                  in if mode = ''create'' \<and> existed then
                       (0, tool_result_fail res REC_INVALID_ARGUMENT
                             (''file exists and mode=create: '' @ path), e)
                     else (case store_file px abspath mode content e of
                             (None, e1) \<Rightarrow>
                               (0, tool_result_fail res REC_TOOL_ERROR (''cannot open '' @ path), e1)
                           | (Some rc, e1) \<Rightarrow>
                               if rc \<noteq> 0 then
                                 (0, tool_result_fail res REC_TOOL_ERROR (''write failed: '' @ path), e1)
                               else (0, tool_result_okf res
                                       (''wrote '' @ show_nat (length content) @ '' bytes to '' @ path @
                                        '' ('' @ mode @ '')'' @
                                        (if existed then '' [backed up prior version]'' else [])), e1)))
      | _ \<Rightarrow> (0, tool_result_fail res REC_INVALID_ARGUMENT
                  (''write_file needs '' @ quoted ''path'' @ '' and '' @ quoted ''content''), e))"

text \<open>
  The patch of \<open>edit_file\<close>: the offset of the first occurrence, refused when there is none or (for a
  block that is not empty) when a second one starts later.
\<close>

datatype Patch = NotFound | Ambiguous | Patched cstr

definition patch :: "cstr \<Rightarrow> cstr \<Rightarrow> cstr \<Rightarrow> Patch" where
  "patch data olds news =
     (case strstr (as_cstr data) olds of
        None \<Rightarrow> NotFound
      | Some first \<Rightarrow>
          if olds \<noteq> [] \<and> strstr (tl first) olds \<noteq> None then Ambiguous
          else let off = length (as_cstr data) - length first
               in Patched (take off data @ news @ drop (off + length olds) data))"

definition t_edit_file :: "'w Posix \<Rightarrow> 'w tool_fn" where
  "t_edit_file px args ctx res e =
     (case (jx_str args ''path'' None, jx_str args ''old'' None, jx_str args ''new'' None) of
        (Some path, Some olds, Some news) \<Rightarrow>
          (case resolve_in px e path of
             None \<Rightarrow> (0, tool_result_fail res REC_PERMISSION_ERROR
                          (''path '' @ quoted path @ '' outside workspace''), e)
           | Some abspath \<Rightarrow>
               if \<not> fs_exists px abspath (env_os e) then
                 (0, tool_result_fail res REC_FILE_NOT_FOUND (''no such file: '' @ path), e)
               else case read_entire_file px abspath 0 (env_os e) of
                      None \<Rightarrow> (0, tool_result_fail res REC_TOOL_ERROR (''cannot read '' @ path), e)
                    | Some (data, _) \<Rightarrow>
                        (case patch data olds news of
                           NotFound \<Rightarrow>
                             (0, tool_result_fail res REC_INVALID_ARGUMENT
                                   (''the '' @ quoted ''old'' @ '' block was not found in '' @ path @
                                    ''; read the file and copy exact text''), e)
                         | Ambiguous \<Rightarrow>
                             (0, tool_result_fail res REC_INVALID_ARGUMENT
                                   (''the '' @ quoted ''old'' @ '' block occurs more than once in '' @ path @
                                    ''; include more context to disambiguate''), e)
                         | Patched out \<Rightarrow>
                             let e1 = backup_in px e abspath
                             in (case write_entire_file px abspath out (env_os e1) of
                                   (rc, w2) \<Rightarrow>
                                     if rc \<noteq> 0 then
                                       (0, tool_result_fail res REC_TOOL_ERROR (''write failed: '' @ path),
                                        e1\<lparr>env_os := w2\<rparr>)
                                     else (0, tool_result_okf res
                                             (''patched '' @ path @ '' ('' @ show_nat (length olds) @ '' -> '' @
                                              show_nat (length news) @
                                              '' bytes in the edited region) [backed up]''),
                                           e1\<lparr>env_os := w2\<rparr>))))
      | _ \<Rightarrow> (0, tool_result_fail res REC_INVALID_ARGUMENT
                  (''edit_file needs '' @ quoted ''path'' @ '', '' @ quoted ''old'' @ '', '' @ quoted ''new''), e))"

text \<open>\<open>cmp_entry\<close> (directories first, then \<open>strcmp\<close>) and the sorted listing.\<close>

fun strcmp_le :: "cstr \<Rightarrow> cstr \<Rightarrow> bool" where
  "strcmp_le [] ys = True"
| "strcmp_le (x # xs) [] = False"
| "strcmp_le (x # xs) (y # ys) =
     (if chr_code x = chr_code y then strcmp_le xs ys else chr_code x < chr_code y)"

definition cmp_entry_le :: "DirEntryInfo \<Rightarrow> DirEntryInfo \<Rightarrow> bool" where
  "cmp_entry_le x y =
     (if de_is_dir x \<noteq> de_is_dir y then de_is_dir x else strcmp_le (de_name x) (de_name y))"

fun insert_entry :: "DirEntryInfo \<Rightarrow> DirEntryInfo list \<Rightarrow> DirEntryInfo list" where
  "insert_entry e [] = [e]"
| "insert_entry e (x # xs) = (if cmp_entry_le e x then e # x # xs else x # insert_entry e xs)"

definition sort_entries :: "DirEntryInfo list \<Rightarrow> DirEntryInfo list" where
  "sort_entries es = foldr insert_entry es []"

definition entry_line :: "Libc \<Rightarrow> DirEntryInfo \<Rightarrow> cstr" where
  "entry_line lc d = ''  '' @ (if de_is_dir d then ''d'' else ''-'') @ ''  '' @ pad_right 40 (de_name d) @
     ''  '' @ pad_left 10 (show_int (de_size d)) @ ''  '' @ lc_strftime lc (de_mtime d) @ [LF]"

definition t_list_directory :: "'w Posix \<Rightarrow> Libc \<Rightarrow> 'w tool_fn" where
  "t_list_directory px lc args ctx res e =
     (let path = or_default (jx_str args ''path'' (Some ''.'')) [] in
      case resolve_in px e path of
        None \<Rightarrow> (0, tool_result_fail res REC_PERMISSION_ERROR
                     (''path '' @ quoted path @ '' outside workspace''), e)
      | Some abspath \<Rightarrow>
          if \<not> fs_is_dir px abspath (env_os e) then
            (0, tool_result_fail res REC_FILE_NOT_FOUND (''not a directory: '' @ path), e)
          else case fs_list_dir px abspath (env_os e) of
                 None \<Rightarrow> (0, tool_result_fail res REC_TOOL_ERROR (''cannot list '' @ path), e)
               | Some ents \<Rightarrow>
                   (0, tool_result_ok res
                         (Some (path @ '' ('' @ show_nat (length ents) @ '' entries):'' @ [LF] @
                                concat (map (entry_line lc) (sort_entries ents)))), e))"

definition t_delete_file :: "'w Posix \<Rightarrow> 'w tool_fn" where
  "t_delete_file px args ctx res e =
     (case jx_str args ''path'' None of
        None \<Rightarrow> (0, tool_result_fail res REC_INVALID_ARGUMENT (''delete_file needs '' @ quoted ''path''), e)
      | Some path \<Rightarrow>
          (case resolve_in px e path of
             None \<Rightarrow> (0, tool_result_fail res REC_PERMISSION_ERROR
                          (''path '' @ quoted path @ '' outside workspace''), e)
           | Some abspath \<Rightarrow>
               if \<not> fs_exists px abspath (env_os e) then
                 (0, tool_result_fail res REC_FILE_NOT_FOUND (''no such file: '' @ path), e)
               else let e1 = backup_in px e abspath
                    in (case fs_remove_file px abspath (env_os e1) of
                          (rc, w2) \<Rightarrow>
                            if rc \<noteq> 0 then
                              (0, tool_result_fail res REC_TOOL_ERROR (''delete failed: '' @ path),
                               e1\<lparr>env_os := w2\<rparr>)
                            else (0, tool_result_okf res
                                    (''deleted '' @ path @ '' [backed up; recoverable via rollback]''),
                                  e1\<lparr>env_os := w2\<rparr>))))"

section \<open>shell.c\<close>

definition SHELL_TIMEOUT_DEFAULT :: int where "SHELL_TIMEOUT_DEFAULT = 60"
definition SHELL_TIMEOUT_MAX :: int where "SHELL_TIMEOUT_MAX = 600"
definition SHELL_OUTPUT_MAX :: nat where "SHELL_OUTPUT_MAX = 128 * 1024"

definition DANGER :: "cstr list" where
  "DANGER =
     [''rm -rf'', ''rm -fr'', ''rm  -rf'', '':(){'', ''mkfs'', ''dd if='', ''> /dev/sd'',
      ''format '', ''diskpart'', ''shutdown'', ''reboot'', ''halt'', ''poweroff'',
      ''del /s'', ''del /q'', ''rmdir /s'', ''git reset --hard'', ''git clean -f'',
      ''chmod -r 777 /'', ''chown -r'', ''/etc/shadow'', ''/etc/passwd'', ''id_rsa'',
      ''.aws/credentials'', ''.ssh/'', ''curl http'', ''wget http'',
      ''sudo '', ''su '', ''doas '', ''pkexec'', ''setcap'', ''insmod'', ''modprobe'',
      ''nc -'', ''ncat'', ''/dev/tcp/'', ''base64 -d'', ''eval $('', ''history -c'']"

definition FORBIDDEN :: "cstr list" where
  "FORBIDDEN =
     [''mkfs'', ''diskpart'', ''shutdown'', ''reboot'', ''halt'', ''poweroff'',
      '':(){'', ''> /dev/sd'', ''insmod'', ''modprobe'', ''pkexec'']"

fun match_any :: "cstr \<Rightarrow> cstr list \<Rightarrow> cptr" where
  "match_any cmd [] = None"
| "match_any cmd (pat # pats) = (if ci_match cmd pat then Some pat else match_any cmd pats)"

definition clamp_timeout :: "int \<Rightarrow> int" where
  "clamp_timeout t =
     (let t1 = (if t \<le> 0 then SHELL_TIMEOUT_DEFAULT else t)
      in if t1 > SHELL_TIMEOUT_MAX then SHELL_TIMEOUT_MAX else t1)"

definition shell_output :: "Libc \<Rightarrow> cstr \<Rightarrow> ProcResult \<Rightarrow> cstr" where
  "shell_output lc command pr =
     ''$ '' @ command @ [LF] @
     (if as_cstr (pr_output pr) \<noteq> []
      then as_cstr (pr_output pr) @ (if last (pr_output pr) \<noteq> LF then [LF] else []) else []) @
     (if pr_output_truncated pr then ''[output truncated]'' @ [LF] else []) @
     ''[exit '' @ show_int (pr_exit_code pr) @ '', '' @ lc_fixed2 lc (pr_seconds pr) @ ''s'' @
     (if pr_timed_out pr then '', TIMED OUT''
      else if pr_signaled pr then '', killed by signal'' else []) @ '']''"

definition shell_result :: "Libc \<Rightarrow> cstr \<Rightarrow> ProcResult \<Rightarrow> ToolResult \<Rightarrow> ToolResult" where
  "shell_result lc command pr res0 =
     (let out = shell_output lc command pr;
          res = res0\<lparr>tr_data := Some (JObject
                  [(''exit_code'', JNumber (pr_exit_code pr) (lc_double lc (pr_exit_code pr))),
                   (''timed_out'', JBool (pr_timed_out pr))])\<rparr>;
          res' = (if pr_timed_out pr then
                    res\<lparr>tr_output := Some out, tr_ok := False, tr_error := Some ''command timed out'',
                        tr_error_class := REC_TIMEOUT\<rparr>
                  else if pr_exit_code pr \<noteq> 0 then
                    res\<lparr>tr_output := Some out, tr_ok := False,
                        tr_error := Some (snprintf_s 64 (''command exited '' @ show_int (pr_exit_code pr))),
                        tr_error_class := REC_TOOL_ERROR\<rparr>
                  else tool_result_ok res (Some out))
      in res'\<lparr>tr_truncated := pr_output_truncated pr\<rparr>)"

definition t_shell_execute :: "'w Posix \<Rightarrow> Libc \<Rightarrow> 'w tool_fn" where
  "t_shell_execute px lc args ctx res e =
     (let command = jx_str args ''command'' None in
      if \<not> nonempty_str command then
        (0, tool_result_fail res REC_INVALID_ARGUMENT (''shell_execute needs '' @ quoted ''command''), e)
      else let cmd = the command;
               timeout = clamp_timeout (jx_int args ''timeout'' SHELL_TIMEOUT_DEFAULT)
           in case match_any cmd FORBIDDEN of
                Some fb \<Rightarrow>
                  (0, tool_result_fail res REC_PERMISSION_ERROR
                        (''refused: command contains forbidden pattern '' @ quoted fb @
                         '' (irrecoverable/system scope)''), e)
              | None \<Rightarrow>
                  if match_any cmd DANGER \<noteq> None \<and> \<not> jx_bool args ''confirmed'' False then
                    (0, tool_result_fail res REC_PERMISSION_ERROR
                          (''refused: command matches dangerous pattern '' @
                           quoted (the (match_any cmd DANGER)) @ ''; needs explicit confirmation''), e)
                  else case (case jx_str args ''working_directory'' None of
                               None \<Rightarrow> Some (sb_root (env_sb e))
                             | Some wd \<Rightarrow> resolve_in px e wd) of
                         None \<Rightarrow>
                           (0, tool_result_fail res REC_PERMISSION_ERROR
                                 (''working_directory '' @
                                  quoted (or_default (jx_str args ''working_directory'' None) []) @
                                  '' is outside the workspace''), e)
                       | Some runwd \<Rightarrow>
                           (case proc_run px cmd (Some runwd) timeout SHELL_OUTPUT_MAX True (env_os e) of
                              (None, w1) \<Rightarrow>
                                (0, tool_result_fail res REC_TOOL_ERROR ''failed to spawn command'',
                                 e\<lparr>env_os := w1\<rparr>)
                            | (Some pr, w1) \<Rightarrow>
                                (0, shell_result lc cmd pr res, e\<lparr>env_os := w1\<rparr>)))"

section \<open>git.c\<close>

definition git_meta :: cstr where
  "git_meta = '';|&`$><'' @ [LF]"

definition run_git :: "'w Posix \<Rightarrow> cstr \<Rightarrow> ToolResult \<Rightarrow> 'w Env \<Rightarrow> int \<times> ToolResult \<times> 'w Env" where
  "run_git px gitargs res e =
     (if strpbrk gitargs git_meta then
        (0, tool_result_fail res REC_INVALID_ARGUMENT ''illegal characters in git arguments'', e)
      else let root = sb_root (env_sb e);
               cmd = snprintf_s 8192 (''git -C '' @ quoted root @ '' '' @ gitargs @ '' 2>&1'')
           in case proc_run px cmd (Some root) 60 (128 * 1024) True (env_os e) of
                (None, w1) \<Rightarrow> (0, tool_result_fail res REC_TOOL_ERROR ''cannot run git'', e\<lparr>env_os := w1\<rparr>)
              | (Some pr, w1) \<Rightarrow>
                  let out = as_cstr (pr_output pr) @ [LF] @ ''[git exit '' @ show_int (pr_exit_code pr) @ '']''
                  in if pr_exit_code pr \<noteq> 0 then
                       (0, res\<lparr>tr_output := Some out, tr_ok := False,
                               tr_error := Some ''git command failed'',
                               tr_error_class := REC_TOOL_ERROR\<rparr>, e\<lparr>env_os := w1\<rparr>)
                     else (0, tool_result_ok res (Some out), e\<lparr>env_os := w1\<rparr>))"

definition t_git_status :: "'w Posix \<Rightarrow> 'w tool_fn" where
  "t_git_status px args ctx res e = run_git px ''status --short --branch'' res e"

definition git_diff_args :: "cptr \<Rightarrow> cstr" where
  "git_diff_args path =
     (case path of
        None \<Rightarrow> ''diff''
      | Some p \<Rightarrow> if \<not> strpbrk p (git_meta @ [SQ]) then snprintf_s 4096 (''diff -- '' @ quoted p)
                  else ''diff'')"

definition t_git_diff :: "'w Posix \<Rightarrow> 'w tool_fn" where
  "t_git_diff px args ctx res e = run_git px (git_diff_args (jx_str args ''path'' None)) res e"

definition t_git_log :: "'w Posix \<Rightarrow> 'w tool_fn" where
  "t_git_log px args ctx res e =
     (let n0 = jx_int args ''count'' 10;
          n = (if n0 \<le> 0 \<or> n0 > 100 then 10 else n0)
      in run_git px (snprintf_s 64 (''log --oneline -n '' @ show_int n)) res e)"

definition t_git_branch :: "'w Posix \<Rightarrow> 'w tool_fn" where
  "t_git_branch px args ctx res e = run_git px ''branch -a'' res e"

definition t_git_commit :: "'w Posix \<Rightarrow> 'w tool_fn" where
  "t_git_commit px args ctx res e =
     (let msg = jx_str args ''message'' None in
      if \<not> nonempty_str msg then
        (0, tool_result_fail res REC_INVALID_ARGUMENT (''git_commit needs '' @ quoted ''message''), e)
      else if strpbrk (the msg) ([SQ] @ ''`$'' @ [LF]) then
        (0, tool_result_fail res REC_INVALID_ARGUMENT ''commit message has illegal characters'', e)
      else let staged = (if jx_bool args ''add_all'' True
                         then (case run_git px ''add -A'' tool_result_init e of
                                 (_, tmp, e1) \<Rightarrow> (tr_ok tmp, e1))
                         else (True, e))
           in case staged of
                (False, e1) \<Rightarrow> (0, tool_result_fail res REC_TOOL_ERROR ''git add failed'', e1)
              | (True, e1) \<Rightarrow> run_git px (snprintf_s 8192 (''commit -m '' @ quoted (the msg))) res e1)"

section \<open>web.c\<close>

definition lt :: char where "lt = CHR ''<''"
definition gt :: char where "gt = CHR ''>''"

text \<open>The loop of \<open>html_to_text\<close>: the rest of the page, the output, inside a tag, inside a script.\<close>

function html_loop :: "nat \<Rightarrow> cstr \<Rightarrow> cstr \<Rightarrow> bool \<Rightarrow> bool \<Rightarrow> cstr" where
  "html_loop cap p out in_tag in_script =
     (case p of
        [] \<Rightarrow> out
      | c # cs \<Rightarrow>
          if length out \<ge> cap then out
          else let scr = (in_script \<or> strncasecmp_eq p ''<script'' 7)
               in if scr \<and> strncasecmp_eq p ''</script>'' 9
                  then html_loop cap (drop 9 p) out in_tag False
                  else if scr then html_loop cap cs out in_tag True
                  else if c = lt then html_loop cap cs out True False
                  else if c = gt then html_loop cap cs (out @ '' '') False False
                  else if in_tag then html_loop cap cs out True False
                  else if c_isspace c then
                    html_loop cap cs (if out \<noteq> [] \<and> last out \<noteq> CHR '' '' then out @ '' '' else out) False False
                  else html_loop cap cs (out @ [c]) False False)"
  by pat_completeness auto
termination by (relation "measure (\<lambda>(_, p, _). length p)") (auto simp: Let_def)

declare html_loop.simps [simp del]

definition html_to_text :: "cstr \<Rightarrow> nat \<Rightarrow> cstr" where
  "html_to_text html cap = html_loop cap html [] False False"

definition url_meta :: cstr where
  "url_meta = [SQ] @ ''`$;|&'' @ [LF, CR] @ ''<>'' @ [DQ]"

definition url_is_safe :: "cstr \<Rightarrow> bool" where
  "url_is_safe url =
     (if \<not> strncmp_eq url ''http://'' 7 \<and> \<not> strncmp_eq url ''https://'' 8 then False
      else if strpbrk url url_meta then False
      else if list_ex (\<lambda>pat. strstr url pat \<noteq> None)
                [''://localhost'', ''://127.'', ''://169.254.'', ''://0.0.0.0'', ''://10.'', ''://192.168.'']
           then False
      else True)"

definition fetch_command :: "cstr \<Rightarrow> cstr" where
  "fetch_command url = snprintf_s 4200
     (''curl -sSL --max-time 30 --max-filesize 5000000 -A '' @ quoted ''k3-agent/1.0'' @ '' '' @ quoted url)"

definition t_web_fetch :: "'w Posix \<Rightarrow> 'w tool_fn" where
  "t_web_fetch px args ctx res e =
     (case jx_str args ''url'' None of
        None \<Rightarrow> (0, tool_result_fail res REC_INVALID_ARGUMENT (''web_fetch needs '' @ quoted ''url''), e)
      | Some url \<Rightarrow>
          if \<not> url_is_safe url then
            (0, tool_result_fail res REC_PERMISSION_ERROR
                  ''refused: url must be http(s) and not a private/loopback address'', e)
          else let m = jx_int args ''max_bytes'' 32768;
                   max_bytes = (if m \<le> 0 \<or> m > 262144 then 32768 else m)
               in case proc_run px (fetch_command url) None 35 (nat max_bytes * 4) True (env_os e) of
                    (None, w1) \<Rightarrow>
                      (0, tool_result_fail res REC_NETWORK_ERROR ''cannot spawn curl (is it installed?)'',
                       e\<lparr>env_os := w1\<rparr>)
                  | (Some pr, w1) \<Rightarrow>
                      let out = as_cstr (pr_output pr)
                      in if pr_exit_code pr \<noteq> 0 \<or> out = [] then
                           (0, tool_result_fail res REC_NETWORK_ERROR
                                 (''fetch failed (curl exit '' @ show_int (pr_exit_code pr) @ '')'' @
                                  (if out \<noteq> [] then '': '' @ out else [])), e\<lparr>env_os := w1\<rparr>)
                         else (0, tool_result_ok
                                 (res\<lparr>tr_data := Some (JObject [(''source_url'', JString url)])\<rparr>)
                                 (Some (''Fetched '' @ url @ '':'' @ [LF, LF] @
                                        html_to_text out (nat max_bytes))), e\<lparr>env_os := w1\<rparr>))"

definition t_web_search :: "'w tool_fn" where
  "t_web_search args ctx res e =
     (case jx_str args ''query'' None of
        None \<Rightarrow> (0, tool_result_fail res REC_INVALID_ARGUMENT (''web_search needs '' @ quoted ''query''), e)
      | Some q \<Rightarrow>
          (0, tool_result_fail res REC_NETWORK_ERROR
                (''web_search is not configured (no search backend/API key). '' @
                 ''Use web_fetch with a specific URL, or ask the user for a source. '' @
                 ''No results were retrieved.''), e))"

section \<open>Registration\<close>

text \<open>Each \<open>*_tools_register\<close> fills a zeroed \<open>AgentTool\<close> and registers it, ignoring the return value.\<close>

definition builtin ::
  "cstr \<Rightarrow> SecurityLevel \<Rightarrow> bool \<Rightarrow> cstr \<Rightarrow> cstr \<Rightarrow> 'w tool_fn \<Rightarrow> 'w Env AgentTool" where
  "builtin name lvl conf desc schema fn =
     \<lparr>tool_name = name, tool_description = desc, tool_args_schema = Some schema,
      tool_security_level = lvl, tool_requires_confirmation = conf, tool_execute = fn\<rparr>"

definition add_tools :: "'w AgentTool list \<Rightarrow> 'w ToolRegistry \<Rightarrow> 'w ToolRegistry" where
  "add_tools ts r = fold (\<lambda>t r. snd (tool_registry_register r t)) ts r"

definition fs_tools :: "'w Posix \<Rightarrow> Libc \<Rightarrow> 'w Env AgentTool list" where
  \<open>fs_tools px lc =
     [builtin ''read_file'' SEC_SAFE False ''Read a text file with line numbers.''
        ''{"path":"str","max_bytes":int?}'' (t_read_file px),
      builtin ''write_file'' SEC_LOW_RISK False
        ''Create/overwrite/append a file. Backs up any prior version.''
        ''{"path":"str","content":"str","mode":"overwrite|append|create"}'' (t_write_file px),
      builtin ''edit_file'' SEC_LOW_RISK False
        (''Patch a file by replacing an exact unique '' @ quoted ''old'' @ '' block with '' @ quoted ''new'' @ ''.'')
        ''{"path":"str","old":"str","new":"str"}'' (t_edit_file px),
      builtin ''list_directory'' SEC_SAFE False ''List a directory: name, type, size, modified time.''
        ''{"path":"str"}'' (t_list_directory px lc),
      builtin ''delete_file'' SEC_HIGH_RISK True ''Delete a file (backed up first; recoverable).''
        ''{"path":"str"}'' (t_delete_file px)]\<close>

definition shell_tools :: "'w Posix \<Rightarrow> Libc \<Rightarrow> 'w Env AgentTool list" where
  \<open>shell_tools px lc =
     [builtin ''shell_execute'' SEC_MEDIUM_RISK False
        (''Run a shell command inside the workspace (timeout, output cap, '' @
         ''clean env, allow/denylist). Dangerous commands are refused or gated.'')
        ''{"command":"str","working_directory":"str?","timeout":int?}'' (t_shell_execute px lc)]\<close>

definition git_tools :: "'w Posix \<Rightarrow> 'w Env AgentTool list" where
  \<open>git_tools px =
     [builtin ''git_status'' SEC_SAFE False ''Show working-tree status.'' ''{}'' (t_git_status px),
      builtin ''git_diff'' SEC_SAFE False ''Show unstaged diff (optionally for one path).''
        ''{"path":"str?"}'' (t_git_diff px),
      builtin ''git_log'' SEC_SAFE False ''Show recent commit log.'' ''{"count":int?}'' (t_git_log px),
      builtin ''git_branch'' SEC_SAFE False ''List branches.'' ''{}'' (t_git_branch px),
      builtin ''git_commit'' SEC_LOW_RISK True ''Stage all and commit (never pushes).''
        ''{"message":"str","add_all":bool?}'' (t_git_commit px)]\<close>

definition web_tools :: "'w Posix \<Rightarrow> 'w Env AgentTool list" where
  \<open>web_tools px =
     [builtin ''web_fetch'' SEC_MEDIUM_RISK False
        ''Fetch a public http(s) URL and return readable text. Records the source URL.''
        ''{"url":"str","max_bytes":int?}'' (t_web_fetch px),
      builtin ''web_search'' SEC_MEDIUM_RISK False
        ''Search the web (requires a configured backend; fails honestly otherwise).''
        ''{"query":"str"}'' t_web_search]\<close>

text \<open>The order of \<open>tool_registry_register_builtins\<close>; \<open>code\<close> is what \<open>code_tools_register\<close> adds.\<close>

definition tool_registry_register_builtins ::
  "'w Posix \<Rightarrow> Libc \<Rightarrow> 'w Env AgentTool list \<Rightarrow> 'w Env ToolRegistry \<Rightarrow> 'w Env ToolRegistry" where
  "tool_registry_register_builtins px lc code r =
     add_tools (web_tools px) (add_tools (git_tools px) (add_tools code
       (add_tools (shell_tools px lc) (add_tools (fs_tools px lc) r))))"

lemma registry_ok_add_tools: "registry_ok r \<Longrightarrow> registry_ok (add_tools ts r)"
  by (induction ts arbitrary: r) (simp_all add: add_tools_def registry_ok_register)

section \<open>The contract of the file tools\<close>

text \<open>
  \<open>run\<close> is a tool whose path argument \<open>path_of\<close> reads; \<open>resolve\<close> is the sandbox. Without a usable
  path, or with one that does not resolve, the tool fails and the world stays as it is.
\<close>

locale path_tool =
  fixes run :: "json \<Rightarrow> 'e \<Rightarrow> ToolResult \<times> 'e"
    and path_of :: "json \<Rightarrow> cptr"
    and resolve :: "'e \<Rightarrow> cstr \<Rightarrow> cptr"
  assumes no_path: "path_of a = None \<Longrightarrow>
      \<not> tr_ok (fst (run a e)) \<and> snd (run a e) = e"
    and outside: "path_of a = Some p \<Longrightarrow> resolve e p = None \<Longrightarrow>
      \<not> tr_ok (fst (run a e)) \<and> snd (run a e) = e"
begin

lemma acts_inside:
  assumes "tr_ok (fst (run a e)) \<or> snd (run a e) \<noteq> e"
  shows "\<exists>p q. path_of a = Some p \<and> resolve e p = Some q"
proof (cases "path_of a")
  case None
  then show ?thesis using no_path assms by blast
next
  case (Some p)
  then show ?thesis using outside [OF Some, of e] assms by (cases "resolve e p") auto
qed

end

definition run_fn :: "'w tool_fn \<Rightarrow> 'w Env ToolContext \<Rightarrow> json \<Rightarrow> 'w Env \<Rightarrow> ToolResult \<times> 'w Env" where
  "run_fn fn ctx a e = snd (fn a ctx tool_result_init e)"

abbreviation path_arg :: "json \<Rightarrow> cptr" where
  "path_arg a \<equiv> jx_str a ''path'' None"

lemmas file_tool_defs = run_fn_def tool_result_defs Let_def

interpretation rd: path_tool "run_fn (t_read_file px) ctx" path_arg "resolve_in px" for px ctx
  by unfold_locales (simp_all add: file_tool_defs t_read_file_def)

interpretation wr: path_tool "run_fn (t_write_file px) ctx" path_arg "resolve_in px" for px ctx
  by unfold_locales (auto simp: file_tool_defs t_write_file_def split: option.split)

interpretation ed: path_tool "run_fn (t_edit_file px) ctx" path_arg "resolve_in px" for px ctx
  by unfold_locales (auto simp: file_tool_defs t_edit_file_def split: option.split)

interpretation dl: path_tool "run_fn (t_delete_file px) ctx" path_arg "resolve_in px" for px ctx
  by unfold_locales (simp_all add: file_tool_defs t_delete_file_def)

interpretation ls: path_tool "run_fn (t_list_directory px lc) ctx"
  "\<lambda>a. jx_str a ''path'' (Some ''.'')" "resolve_in px" for px lc ctx
proof unfold_locales
  fix a e
  assume "jx_str a ''path'' (Some ''.'') = None"
  then show "\<not> tr_ok (fst (run_fn (t_list_directory px lc) ctx a e)) \<and>
      snd (run_fn (t_list_directory px lc) ctx a e) = e"
    by (auto simp: jx_str_def split: option.splits json.splits)
next
  fix a p e
  assume "jx_str a ''path'' (Some ''.'') = Some p" "resolve_in px e p = None"
  then show "\<not> tr_ok (fst (run_fn (t_list_directory px lc) ctx a e)) \<and>
      snd (run_fn (t_list_directory px lc) ctx a e) = e"
    by (simp add: file_tool_defs t_list_directory_def)
qed

section \<open>Patches\<close>

lemma strstr_first:
  assumes "strstr s n = Some t"
  shows "\<exists>u. s = u @ t \<and> prefix n t \<and> (\<forall>v t'. s = v @ t' \<and> length v < length u \<longrightarrow> \<not> prefix n t')"
  using assms
proof (induction s)
  case (Cons x xs)
  show ?case
  proof (cases "prefix n (x # xs)")
    case True
    with Cons.prems show ?thesis by (auto intro: exI [of _ "[]"])
  next
    case False
    with Cons obtain u where u: "xs = u @ t" "prefix n t"
      "\<forall>v t'. xs = v @ t' \<and> length v < length u \<longrightarrow> \<not> prefix n t'" by auto
    have "\<not> prefix n t'" if "x # xs = v @ t'" "length v < length (x # u)" for v t'
      using that False u(3) by (cases v) auto
    then show ?thesis using u(1,2) by (auto intro!: exI [of _ "x # u"])
  qed
qed (auto split: if_splits)

lemma as_cstr_id: "CHR 0x00 \<notin> set d \<Longrightarrow> as_cstr d = d"
  by (simp add: as_cstr_def takeWhile_eq_all_conv) blast

lemma as_cstr_split: "\<exists>rest. d = as_cstr d @ rest"
  by (metis as_cstr_def takeWhile_dropWhile_id)

lemma patch_sound:
  assumes "patch data olds news = Patched out"
  shows "\<exists>a b. data = a @ olds @ b \<and> out = a @ news @ b"
proof -
  obtain first where f: "strstr (as_cstr data) olds = Some first"
    and out: "out = (let off = length (as_cstr data) - length first
       in take off data @ news @ drop (off + length olds) data)"
    using assms by (auto simp: patch_def Let_def split: option.splits if_splits)
  obtain u where u: "as_cstr data = u @ first" "prefix olds first"
    using strstr_Some [OF f] by blast
  obtain r where r: "data = as_cstr data @ r" using as_cstr_split by blast
  obtain b where b: "first = olds @ b" using u(2) by (auto simp: prefix_def)
  have data: "data = u @ olds @ b @ r" using r u(1) b by simp
  have "out = u @ news @ b @ r"
    unfolding out Let_def u(1) by (simp add: data b)
  then show ?thesis using data by blast
qed

text \<open>In a text without NULs, an accepted block that is not empty occurs exactly once.\<close>

lemma patch_unique:
  assumes "patch data olds news = Patched out" "olds \<noteq> []" "CHR 0x00 \<notin> set data"
    and "data = a @ olds @ b" "data = a' @ olds @ b'"
  shows "a = a'"
proof -
  obtain first where f: "strstr data olds = Some first" and two: "\<not> sublist olds (tl first)"
    using assms(1,2) by (auto simp: patch_def as_cstr_id [OF assms(3)] strstr_None
        split: option.splits if_splits)
  obtain u where u: "data = u @ first" "prefix olds first"
    and min: "\<forall>v t'. data = v @ t' \<and> length v < length u \<longrightarrow> \<not> prefix olds t'"
    using strstr_first [OF f] by blast
  have "length v = length u" if v: "data = v @ olds @ t" for v t
  proof (rule ccontr)
    assume ne: "length v \<noteq> length u"
    have "\<not> length v < length u" using min [rule_format, of v "olds @ t"] v by auto
    with ne have gt: "length u < length v" by simp
    have fne: "first \<noteq> []" using u(2) assms(2) by auto
    have "drop (Suc (length u)) data = tl first" using u(1) fne by (simp add: drop_Suc tl_drop)
    moreover have "drop (Suc (length u)) data = drop (Suc (length u)) v @ olds @ t"
      using gt v by simp
    ultimately show False using two by (metis sublist_appendI)
  qed
  then have "length a = length a'" using assms(4,5) by metis
  then show ?thesis using assms(4,5) by auto
qed

section \<open>The shell, git and web gates\<close>

lemma match_any_None: "match_any cmd pats = None \<longleftrightarrow> (\<forall>p \<in> set pats. \<not> ci_match cmd p)"
  by (induction pats) auto

lemma clamp_timeout_range: "1 \<le> clamp_timeout t \<and> clamp_timeout t \<le> 600"
  by (simp add: clamp_timeout_def SHELL_TIMEOUT_DEFAULT_def SHELL_TIMEOUT_MAX_def Let_def)

text \<open>What must hold of the arguments for \<open>shell_execute\<close> to start a process, and where it starts it.\<close>

definition shell_cleared :: "json \<Rightarrow> cstr \<Rightarrow> bool" where
  "shell_cleared args cmd \<longleftrightarrow> jx_str args ''command'' None = Some cmd \<and> cmd \<noteq> [] \<and>
     match_any cmd FORBIDDEN = None \<and>
     (match_any cmd DANGER = None \<or> jx_bool args ''confirmed'' False)"

definition shell_workdir :: "'w Posix \<Rightarrow> json \<Rightarrow> 'w Env \<Rightarrow> cptr" where
  "shell_workdir px args e =
     (case jx_str args ''working_directory'' None of
        None \<Rightarrow> Some (sb_root (env_sb e)) | Some wd \<Rightarrow> resolve_in px e wd)"

lemma shell_execute_gate:
  "t_shell_execute px lc args ctx res e = (rc, r, e') \<Longrightarrow>
   (\<not> tr_ok r \<and> e' = e) \<or>
   (\<exists>cmd wd. shell_cleared args cmd \<and> shell_workdir px args e = Some wd \<and>
      e' = e\<lparr>env_os := snd (proc_run px cmd (Some wd)
        (clamp_timeout (jx_int args ''timeout'' SHELL_TIMEOUT_DEFAULT)) SHELL_OUTPUT_MAX True (env_os e))\<rparr>)"
  unfolding t_shell_execute_def shell_cleared_def shell_workdir_def Let_def tool_result_fail_def
  by (cases "jx_str args ''command'' None")
    (auto split: if_splits option.splits prod.splits)

lemma strpbrk_iff: "strpbrk s acc \<longleftrightarrow> set s \<inter> set acc \<noteq> {}"
  by (auto simp: strpbrk_def list_ex_iff)

lemma run_git_gate:
  "run_git px gitargs res e = (rc, r, e') \<Longrightarrow>
   (\<not> tr_ok r \<and> e' = e) \<or> set gitargs \<inter> set git_meta = {}"
  by (auto simp: run_git_def strpbrk_iff tool_result_fail_def split: if_splits)

text \<open>Whatever appending one character below the cap keeps, \<open>html_loop\<close> keeps.\<close>

lemma html_loop_induct:
  assumes step: "\<And>b c. I b \<Longrightarrow> length b < cap \<Longrightarrow> c \<noteq> lt \<Longrightarrow> c \<noteq> gt \<Longrightarrow> I (b @ [c])"
  shows "I out \<Longrightarrow> I (html_loop cap p out t sc)"
proof (induction "length p" arbitrary: p out t sc rule: less_induct)
  case less
  have sp: "CHR '' '' \<noteq> lt" "CHR '' '' \<noteq> gt" by (simp_all add: lt_def gt_def)
  show ?case
  proof (cases p)
    case Nil
    then show ?thesis using less.prems by (simp add: html_loop.simps)
  next
    case (Cons c cs)
    have rec: "I (html_loop cap q b t' s')" if "length q \<le> length cs" "I b" for q b t' s'
      using less.hyps [of q b] that Cons by simp
    show ?thesis
    proof (cases "length out \<ge> cap")
      case True
      then show ?thesis using less.prems Cons by (simp add: html_loop.simps)
    next
      case False
      then have sp': "I (out @ '' '')" using step [OF less.prems _ sp] by simp
      have ch: "c \<noteq> lt \<Longrightarrow> c \<noteq> gt \<Longrightarrow> I (out @ [c])" using step [OF less.prems] False by simp
      have "I (html_loop cap (c # cs) out t sc)"
        unfolding html_loop.simps [of cap "c # cs"] Let_def list.case
        using False less.prems sp' ch by (simp add: rec)
      then show ?thesis using Cons by simp
    qed
  qed
qed

text \<open>The text handed to the model holds no markup delimiter and never exceeds the cap.\<close>

lemma html_to_text_clean: "lt \<notin> set (html_to_text html cap) \<and> gt \<notin> set (html_to_text html cap)"
  unfolding html_to_text_def
  by (rule html_loop_induct [where I = "\<lambda>b. lt \<notin> set b \<and> gt \<notin> set b"]) auto

lemma html_to_text_cap: "length (html_to_text html cap) \<le> cap"
  unfolding html_to_text_def
  by (rule html_loop_induct [where I = "\<lambda>b. length b \<le> cap"]) auto

text \<open>A URL that passes the filter cannot close the quotes around it in the command line.\<close>

lemma url_is_safe_chars: "url_is_safe url \<Longrightarrow> set url \<inter> set url_meta = {}"
  by (auto simp: url_is_safe_def strpbrk_iff split: if_splits)

end
