(* ===== verification/Agent_Loop.thy ===== *)
theory Agent_Loop
  imports Agent_Tools Agent_Protocol Agent_Plan Agent_Memory Agent_Context
begin

text \<open>
  The autonomous loop, \<open>agent/core/agent_loop.c\<close>, and the agent object of \<open>agent/core/agent.h\<close>.
  One world \<open>'w\<close> is threaded through every call the loop makes: the model, the tools, the database,
  the event handlers and the approver all act on it. The iteration engine is a total function: its
  measure is the iteration budget of the task.
\<close>

section \<open>The agent and what it runs on\<close>

record 'w Agent =
  ag_cfg :: AgentConfig
  ag_backend :: "'w ModelBackend"
  ag_tools :: "'w ToolRegistry"
  ag_perm :: Permissions
  ag_root :: cstr
  ag_db :: "'w Database option"
  ag_events :: "'w EventBus option"
  ag_system_prompt :: cptr
  ag_confirm :: "(cstr \<Rightarrow> SecurityLevel \<Rightarrow> cstr \<Rightarrow> 'w \<Rightarrow> bool \<times> 'w) option"

text \<open>
  What the loop takes from outside the repository: the JSON library, float arithmetic, and what
  the operating system says of files and the clock.
\<close>

record 'w Host =
  h_parse :: json_parser
  h_print :: json_printer
  h_double :: "int \<Rightarrow> f64"
  h_bump :: "f32 \<Rightarrow> nat \<Rightarrow> f32"
  h_exists :: "cstr \<Rightarrow> 'w \<Rightarrow> bool"
  h_now :: "'w \<Rightarrow> int"

definition agent_tool_context :: "'w Agent \<Rightarrow> cstr \<Rightarrow> 'w ToolContext" where
  "agent_tool_context a tid =
     \<lparr>tc_workspace = ag_root a, tc_permissions = Some (ag_perm a), tc_confirm = ag_confirm a,
      tc_events = ag_events a, tc_task_id = Some tid\<rparr>"

definition agent_subscribe :: "'w Agent \<Rightarrow> 'w handler \<Rightarrow> int \<times> 'w Agent" where
  "agent_subscribe a h =
     (case event_bus_subscribe (ag_events a) h of (rc, bus) \<Rightarrow> (rc, a\<lparr>ag_events := bus\<rparr>))"

datatype RunOutcome = RUN_COMPLETED | RUN_FAILED | RUN_NEEDS_USER | RUN_MAX_ITERS

record RunOptions =
  opt_plan_only :: bool
  opt_dry_run :: bool

record LoopCtx =
  L_task :: AgentTask
  L_mem :: Memory
  L_plan :: Plan
  L_refl :: ReflectionBudget
  L_tools_desc :: cstr
  L_last_exit_code :: int
  L_last_observation :: cptr
  L_step_attempts :: int

abbreviation upd_task :: "(AgentTask \<Rightarrow> AgentTask) \<Rightarrow> LoopCtx \<Rightarrow> LoopCtx" where
  "upd_task f L \<equiv> L\<lparr>L_task := f (L_task L)\<rparr>"

section \<open>Helpers of the loop\<close>

definition emit :: "'w Agent \<Rightarrow> LoopCtx \<Rightarrow> EventType \<Rightarrow> cptr \<Rightarrow> 'w \<Rightarrow> 'w" where
  "emit a L t data w =
     (let tid = task_id (L_task L); step = task_current_step (L_task L);
          w1 = event_bus_emit (ag_events a) t (Some tid) step data w
      in case ag_db a of
           None \<Rightarrow> w1
         | Some d \<Rightarrow> db_log_trace d tid step (event_type_name t) data w1)"

definition set_obs :: "'w Agent \<Rightarrow> LoopCtx \<Rightarrow> cptr \<Rightarrow> 'w \<Rightarrow> LoopCtx \<times> 'w" where
  "set_obs a L obs w =
     (case memory_add_observation (ag_db a) (L_mem L) obs w of
        (m, w1) \<Rightarrow>
          let L1 = L\<lparr>L_last_observation := obs, L_mem := m\<rparr>
          in (L1, emit a L1 EV_OBSERVATION_CREATED obs w1))"

definition save_task :: "'w Agent \<Rightarrow> AgentTask \<Rightarrow> 'w \<Rightarrow> 'w" where
  "save_task a t w = (case ag_db a of None \<Rightarrow> w | Some d \<Rightarrow> db_save_task d t w)"

definition tool_name_list :: "'w Agent \<Rightarrow> cstr list" where
  "tool_name_list a = map tool_name (reg_tools (ag_tools a))"

text \<open>The step the task is at, when the index is one of the plan.\<close>

definition current_plan_step :: "LoopCtx \<Rightarrow> PlanStep option" where
  "current_plan_step L =
     (if task_current_step (L_task L) < n_steps (L_plan L)
      then Some (plan_steps (L_plan L) ! nat (task_current_step (L_task L))) else None)"

definition step_text :: "LoopCtx \<Rightarrow> cptr" where
  "step_text L =
     (case current_plan_step L of
        None \<Rightarrow> None
      | Some s \<Rightarrow>
          Some (snprintf_s 512
            (''Step '' @ show_int (task_current_step (L_task L) + 1) @ ''/'' @
             show_int (n_steps (L_plan L)) @ '': '' @ or_default (step_description s) [] @
             (if nonempty_str (step_tool s) then '' | suggested tool: '' @ the (step_tool s) else []))))"

text \<open>
  Ask the model for the next action. The first component is the return value (0 as \<open>True\<close>), the
  second the action, with its error text when it is not usable.
\<close>

definition decide_action ::
  "'w Host \<Rightarrow> 'w Agent \<Rightarrow> LoopCtx \<Rightarrow> cptr \<Rightarrow> 'w \<Rightarrow> (bool \<times> AgentAction) \<times> 'w" where
  "decide_action h a L extra_note w =
     (let t = L_task L;
          cp = \<lparr>cp_system_prompt = ag_system_prompt a, cp_role = None, cp_goal = Some (task_goal t),
                cp_state = Some (agent_state_name (task_state t)), cp_plan_json = task_plan t,
                cp_tools_desc = Some (L_tools_desc L),
                cp_memory = Some (memory_recall (ag_db a) (task_goal t) 6 w),
                cp_observations = Some (memory_recent_observations (L_mem L) 4000),
                cp_step_desc = step_text L, cp_extra = extra_note\<rparr>;
          req = \<lparr>req_prompt = context_build (ag_backend a) cp (mb_context_window (ag_backend a)),
                 req_max_tokens = cfg_max_tokens (ag_cfg a),
                 req_temperature = cfg_temperature (ag_cfg a), req_top_p = cfg_top_p (ag_cfg a)\<rparr>
      in case mb_generate (ag_backend a) req w of
           ((rc, res), w1) \<Rightarrow>
             if rc \<noteq> 0 then
               ((False, set_error (''model error: '' @ take 230 (res_error res)) agent_action_init), w1)
             else
               let w2 = (case ag_db a of None \<Rightarrow> w1
                         | Some d \<Rightarrow> db_log_message d (task_id t) ''assistant'' (res_text res) w1);
                   act = agent_action_parse (h_parse h) (h_print h) (res_text res)
               in (case agent_action_validate act (Some (tool_name_list a)) of
                     (valid, act') \<Rightarrow> ((\<not> (act_type act = ACT_INVALID \<or> \<not> valid), act'), w2)))"

definition run_tool ::
  "'w Host \<Rightarrow> 'w Agent \<Rightarrow> LoopCtx \<Rightarrow> AgentAction \<Rightarrow> 'w \<Rightarrow> ToolResult \<times> LoopCtx \<times> 'w" where
  "run_tool h a L act w =
     (let t = L_task L; tool = the (act_tool act);
          w1 = emit a L EV_TOOL_SELECTED (Some tool) w
      in case tool_registry_execute (h_print h) (ag_tools a) tool (act_arguments act)
                (agent_tool_context a (task_id t)) w1 of
           (res, w2) \<Rightarrow>
             let w3 = (case ag_db a of None \<Rightarrow> w2
                       | Some d \<Rightarrow> db_log_tool_call d (task_id t) (task_current_step t) tool
                                     (h_print h (the (act_arguments act))) (tr_ok res)
                                     (recovery_class_name (tr_error_class res)) w2);
                 L1 = (case tr_data res of
                         None \<Rightarrow> L
                       | Some v \<Rightarrow> (case get_item v ''exit_code'' of
                                      Some (JNumber i _) \<Rightarrow> L\<lparr>L_last_exit_code := i\<rparr>
                                    | _ \<Rightarrow> L))
             in (res, L1, w3))"

definition verify_step :: "'w Host \<Rightarrow> 'w Agent \<Rightarrow> LoopCtx \<Rightarrow> 'w \<Rightarrow> (bool \<times> cptr) \<times> 'w" where
  "verify_step h a L w =
     (case current_plan_step L of
        None \<Rightarrow> ((True, None), w)
      | Some s \<Rightarrow>
          if \<not> nonempty_str (step_verification s) then ((True, None), w)
          else
            let w1 = emit a L EV_VERIFICATION_STARTED (step_verification s) w
            in (case plan_parse_verification (step_verification s) 512 of
                  (kind, arg) \<Rightarrow>
                    (case verify_check (\<lambda>p. h_exists h p w1) (Some \<lparr>vc_kind = kind, vc_arg = arg\<rparr>)
                            (Some (ag_root a)) (L_last_observation L) (L_last_exit_code L) of
                       (ok, reason) \<Rightarrow>
                         ((ok, reason),
                          emit a L (if ok then EV_VERIFICATION_PASSED else EV_VERIFICATION_FAILED)
                            (if ok then step_verification s
                             else Some (or_default reason ''failed'')) w1))))"

fun strategy_advice :: "RecoveryStrategy \<Rightarrow> cstr" where
  "strategy_advice STRAT_RETRY = ''Retry with a corrected approach.''"
| "strategy_advice STRAT_REPLAN = ''Choose a DIFFERENT action; do not repeat the failed one.''"
| "strategy_advice STRAT_ASK_USER = ''If you cannot proceed safely, ask the user.''"
| "strategy_advice STRAT_ABORT = ''Recovery exhausted.''"

definition do_recovery ::
  "'w Agent \<Rightarrow> LoopCtx \<Rightarrow> RecoveryClass \<Rightarrow> 'w \<Rightarrow> (RecoveryStrategy \<times> cstr) \<times> LoopCtx \<times> 'w" where
  "do_recovery a L cls w =
     (let w1 = emit a L EV_RECOVERY_STARTED (Some (recovery_class_name cls)) w;
          L1 = L\<lparr>L_step_attempts := L_step_attempts L + 1\<rparr>;
          strat = recovery_strategy_for2 cls (L_step_attempts L1) (cfg_max_retries (ag_cfg a))
                    (cfg_max_repair_attempts (ag_cfg a));
          note = ''The previous action failed ('' @ recovery_class_name cls @ ''). '' @
                 (case L_last_observation L of None \<Rightarrow> []
                  | Some ob \<Rightarrow> ''Observation: '' @ take 400 ob @ ''. '') @
                 strategy_advice strat
      in ((strat, note), L1, w1))"

section \<open>One iteration\<close>

text \<open>Either the loop returns an outcome, or it goes on with a note for the model.\<close>

type_synonym 'w step_out = "(RunOutcome + cptr) \<times> LoopCtx \<times> 'w"

text \<open>No usable action: recovery from a parser error.\<close>

definition on_no_action :: "'w Host \<Rightarrow> 'w Agent \<Rightarrow> LoopCtx \<Rightarrow> 'w \<Rightarrow> 'w step_out" where
  "on_no_action h a L w =
     (case do_recovery a L REC_PARSER_ERROR w of
        ((strat, note), L1, w1) \<Rightarrow>
          if strat = STRAT_ABORT then
            (Inl RUN_FAILED,
             upd_task (\<lambda>t. task_set_answer (h_now h w1) (task_move t AGENT_FAILED)
               (Some ''The model did not produce a valid action after retries.'')) L1, w1)
          else if strat = STRAT_ASK_USER then
            (Inl RUN_NEEDS_USER,
             upd_task (\<lambda>t. task_set_question (h_now h w1) (task_move t AGENT_WAITING_USER)
               (Some ''I could not determine a valid next step. How should I proceed?'')) L1, w1)
          else (Inr (Some note), L1, w1))"

definition on_final :: "'w Host \<Rightarrow> 'w Agent \<Rightarrow> LoopCtx \<Rightarrow> AgentAction \<Rightarrow> 'w \<Rightarrow> 'w step_out" where
  "on_final h a L act w =
     (let L1 = upd_task (\<lambda>t. task_move t AGENT_VERIFYING) L in
      case verify_step h a L1 w of
        ((ok, reason), w1) \<Rightarrow>
          if \<not> ok \<and> L_step_attempts L1 < cfg_max_retries (ag_cfg a) then
            (Inr (Some (''Verification failed before finalizing: '' @ or_default reason ''unknown'' @
                        ''. Continue working; do not claim completion yet.'')),
             upd_task (\<lambda>t. task_move t AGENT_EXECUTING)
               (L1\<lparr>L_step_attempts := L_step_attempts L1 + 1\<rparr>), w1)
          else
            let L2 = upd_task (\<lambda>t. task_set_answer (h_now h w1)
                       (task_move (t\<lparr>task_success := True\<rparr>) AGENT_COMPLETED) (act_answer act)) L1
            in (Inl RUN_COMPLETED, L2, emit a L2 EV_TASK_COMPLETED (act_answer act) w1))"

definition on_ask_user :: "'w Host \<Rightarrow> 'w Agent \<Rightarrow> LoopCtx \<Rightarrow> AgentAction \<Rightarrow> 'w \<Rightarrow> 'w step_out" where
  "on_ask_user h a L act w =
     (let L1 = upd_task (\<lambda>t. task_set_question (h_now h w) (task_move t AGENT_WAITING_USER)
                 (act_question act)) L
      in (Inl RUN_NEEDS_USER, L1, emit a L1 EV_USER_INPUT_REQUIRED (act_question act) w))"

definition on_reflect :: "LoopCtx \<Rightarrow> AgentAction \<Rightarrow> 'w \<Rightarrow> 'w step_out" where
  "on_reflect L act w =
     (case reflection_allowed (L_refl L) of
        (ok, r) \<Rightarrow>
          (Inr (Some (if ok then ''Noted: '' @ or_default (act_message act) [] @ ''. Now take a concrete action.''
                      else ''Enough reflection. Take a concrete action now.'')),
           L\<lparr>L_refl := r\<rparr>, w))"

definition on_plan :: "'w Host \<Rightarrow> 'w Agent \<Rightarrow> LoopCtx \<Rightarrow> AgentAction \<Rightarrow> 'w \<Rightarrow> 'w step_out" where
  "on_plan h a L act w =
     (case (case plan_from_steps_array (act_steps act) (Some (task_goal (L_task L))) of
              (True, np) \<Rightarrow>
                let pj = plan_to_json (h_print h) (h_double h) np;
                    L1 = L\<lparr>L_plan := np, L_task := task_set_plan (h_now h w) (L_task L) (Some pj) (n_steps np),
                           L_mem := memory_set_plan (L_mem L) (Some pj)\<rparr>
                in (L1\<lparr>L_step_attempts := 0\<rparr>, emit a L1 EV_PLAN_CREATED (task_plan (L_task L1)) w)
            | (False, _) \<Rightarrow> (L, w)) of
        (L2, w2) \<Rightarrow> (Inr None, upd_task (\<lambda>t. task_move t AGENT_EXECUTING) L2, w2))"

text \<open>\<open>if (task->current_step < L->plan.n_steps) task->current_step++\<close>\<close>

definition advance :: "LoopCtx \<Rightarrow> LoopCtx" where
  "advance L =
     (if task_current_step (L_task L) < n_steps (L_plan L)
      then upd_task (\<lambda>t. t\<lparr>task_current_step := task_current_step t + 1\<rparr>) L else L)"

definition on_dry_run :: "'w Host \<Rightarrow> 'w Agent \<Rightarrow> LoopCtx \<Rightarrow> AgentAction \<Rightarrow> 'w \<Rightarrow> 'w step_out" where
  "on_dry_run h a L act w =
     (case set_obs a L (Some (''[dry-run] would execute tool '' @ quoted (the (act_tool act)) @
             '' with '' @ h_print h (the (act_arguments act)))) w of
        (L1, w1) \<Rightarrow>
          let L2 = advance L1
          in if task_current_step (L_task L2) \<ge> n_steps (L_plan L2) then
               (Inl RUN_COMPLETED,
                upd_task (\<lambda>t. task_move (task_set_answer (h_now h w1) t
                  (Some ''Dry run complete: listed the actions that would run.'')) AGENT_COMPLETED) L2, w1)
             else (Inr None, L2, w1))"

text \<open>A tool that failed: recovery, and an episode for the memory.\<close>

definition on_tool_failed ::
  "'w Host \<Rightarrow> 'w Agent \<Rightarrow> LoopCtx \<Rightarrow> AgentAction \<Rightarrow> ToolResult \<Rightarrow> 'w \<Rightarrow> 'w step_out" where
  "on_tool_failed h a L act res w =
     (let cls = (if tr_error_class res = REC_NONE then REC_TOOL_ERROR else tr_error_class res);
          L1 = upd_task (\<lambda>t. task_move t AGENT_RECOVERING) L
      in case do_recovery a L1 cls w of
           ((strat, note), L2, w1) \<Rightarrow>
             let w2 = memory_record_episode (h_print h) (ag_db a) (L_mem L2)
                        (Some (task_goal (L_task L2))) (act_tool act) (Some ''failed'') (tr_error res) w1
             in if strat = STRAT_ABORT then
                  let L3 = upd_task (\<lambda>t. task_set_answer (h_now h w2) (task_move t AGENT_FAILED) (Some note)) L2
                  in (Inl RUN_FAILED, L3, emit a L3 EV_TASK_FAILED (Some note) w2)
                else if strat = STRAT_ASK_USER then
                  (Inl RUN_NEEDS_USER,
                   upd_task (\<lambda>t. task_set_question (h_now h w2) (task_move t AGENT_WAITING_USER)
                     (Some (''I hit an error I can'' @ [SQ] @ ''t safely resolve. How should I proceed?''))) L2, w2)
                else (Inr (Some note), L2, w2))"

definition mark_done :: "LoopCtx \<Rightarrow> LoopCtx" where
  "mark_done L =
     (if task_current_step (L_task L) < n_steps (L_plan L)
      then let i = nat (task_current_step (L_task L)); p = L_plan L
           in L\<lparr>L_plan := p\<lparr>plan_steps := (plan_steps p)[i := (plan_steps p ! i)\<lparr>step_done := True\<rparr>]\<rparr>,
                L_task := (L_task L)\<lparr>task_current_step := task_current_step (L_task L) + 1\<rparr>\<rparr>
      else L)"

text \<open>A tool that succeeded: verify the step, then advance.\<close>

definition on_tool_ok :: "'w Host \<Rightarrow> 'w Agent \<Rightarrow> LoopCtx \<Rightarrow> 'w \<Rightarrow> 'w step_out" where
  "on_tool_ok h a L w =
     (let L1 = upd_task (\<lambda>t. task_move t AGENT_VERIFYING) L in
      case verify_step h a L1 w of
        ((ok, reason), w1) \<Rightarrow>
          if \<not> ok then
            let L2 = L1\<lparr>L_step_attempts := L_step_attempts L1 + 1\<rparr>;
                L3 = (if L_step_attempts L2 > cfg_max_retries (ag_cfg a)
                      then (advance L2)\<lparr>L_step_attempts := 0\<rparr> else L2)
            in (Inr (Some (''Step verification failed: '' @ or_default reason ''unknown'' @
                           ''. Adjust and try again.'')),
                upd_task (\<lambda>t. task_move t AGENT_EXECUTING) L3, w1)
          else
            let L2 = (mark_done L1)\<lparr>L_step_attempts := 0\<rparr>
            in (Inr None, L2, save_task a (L_task L2) w1))"

definition on_tool :: "'w Host \<Rightarrow> 'w Agent \<Rightarrow> LoopCtx \<Rightarrow> AgentAction \<Rightarrow> 'w \<Rightarrow> 'w step_out" where
  "on_tool h a L act w =
     (case run_tool h a (upd_task (\<lambda>t. task_move t AGENT_EXECUTING) L) act w of
        (res, L1, w1) \<Rightarrow>
          (case set_obs a (upd_task (\<lambda>t. task_move t AGENT_OBSERVING) L1)
                  (if tr_ok res then tr_output res else Some (or_default (tr_error res) ''tool failed'')) w1 of
             (L2, w2) \<Rightarrow>
               if \<not> tr_ok res then on_tool_failed h a L2 act res w2 else on_tool_ok h a L2 w2))"

definition on_action ::
  "'w Host \<Rightarrow> 'w Agent \<Rightarrow> RunOptions option \<Rightarrow> LoopCtx \<Rightarrow> AgentAction \<Rightarrow> 'w \<Rightarrow> 'w step_out" where
  "on_action h a opt L act w =
     (case act_type act of
        ACT_FINAL \<Rightarrow> on_final h a L act w
      | ACT_ASK_USER \<Rightarrow> on_ask_user h a L act w
      | ACT_REFLECT \<Rightarrow> on_reflect L act w
      | ACT_PLAN \<Rightarrow> on_plan h a L act w
      | _ \<Rightarrow> if (case opt of None \<Rightarrow> False | Some op \<Rightarrow> opt_dry_run op)
             then on_dry_run h a L act w else on_tool h a L act w)"

text \<open>The body of the \<open>while\<close> loop.\<close>

definition iterate ::
  "'w Host \<Rightarrow> 'w Agent \<Rightarrow> RunOptions option \<Rightarrow> LoopCtx \<Rightarrow> cptr \<Rightarrow> 'w \<Rightarrow> 'w step_out" where
  "iterate h a opt L note w =
     (let L1 = upd_task (\<lambda>t. t\<lparr>task_iteration := task_iteration t + 1\<rparr>) L;
          w1 = emit a L1 EV_STEP_STARTED None w;
          L2 = L1\<lparr>L_refl := reflection_reset (L_refl L1)\<rparr>
      in case decide_action h a L2 note w1 of
           ((ok, act), w2) \<Rightarrow>
             if \<not> ok then on_no_action h a L2 w2 else on_action h a opt L2 act w2)"

section \<open>What an iteration keeps\<close>

lemmas step_defs = on_no_action_def on_final_def on_ask_user_def on_reflect_def on_plan_def
  on_dry_run_def on_tool_failed_def on_tool_ok_def on_tool_def

text \<open>The budget fields of the task, which only the loop head writes.\<close>

abbreviation budget :: "LoopCtx \<Rightarrow> int \<times> int" where
  "budget L \<equiv> (task_iteration (L_task L), task_max_iterations (L_task L))"

lemma set_obs_ctx: "fst (set_obs a L obs w) =
    L\<lparr>L_last_observation := obs, L_mem := fst (memory_add_observation (ag_db a) (L_mem L) obs w)\<rparr>"
  by (simp add: set_obs_def Let_def split: prod.split)

lemma set_obs_D: "set_obs a L obs w = (L', w') \<Longrightarrow>
    L' = L\<lparr>L_last_observation := obs, L_mem := fst (memory_add_observation (ag_db a) (L_mem L) obs w)\<rparr>"
  using set_obs_ctx [of a L obs w] by simp

lemma run_tool_ctx: "\<exists>x. fst (snd (run_tool h a L act w)) = L\<lparr>L_last_exit_code := x\<rparr>"
  by (auto simp: run_tool_def Let_def split: prod.split option.split json.split
      intro: exI [of _ "L_last_exit_code L"])

lemma do_recovery_D: "do_recovery a L cls w = (sn, L', w') \<Longrightarrow>
    L' = L\<lparr>L_step_attempts := L_step_attempts L + 1\<rparr> \<and>
    fst sn = recovery_strategy_for2 cls (L_step_attempts L + 1) (cfg_max_retries (ag_cfg a))
      (cfg_max_repair_attempts (ag_cfg a))"
  by (auto simp: do_recovery_def Let_def)

lemma budget_advance [simp]: "budget (advance L) = budget L"
  by (simp add: advance_def)

lemma budget_mark_done [simp]: "budget (mark_done L) = budget L"
  by (simp add: mark_done_def Let_def)

lemma budget_no_action: "budget (fst (snd (on_no_action h a L w))) = budget L"
  by (auto simp: on_no_action_def task_defs split: prod.splits dest!: do_recovery_D)

lemma budget_final: "budget (fst (snd (on_final h a L act w))) = budget L"
  by (auto simp: on_final_def task_defs Let_def split: prod.splits)

lemma budget_ask_user: "budget (fst (snd (on_ask_user h a L act w))) = budget L"
  by (simp add: on_ask_user_def task_defs Let_def)

lemma budget_reflect: "budget (fst (snd (on_reflect L act w))) = budget L"
  by (simp add: on_reflect_def split: prod.splits)

lemma budget_plan: "budget (fst (snd (on_plan h a L act w))) = budget L"
  by (auto simp: on_plan_def task_defs Let_def split: prod.splits bool.splits)

lemma budget_dry_run: "budget (fst (snd (on_dry_run h a L act w))) = budget L"
  by (auto simp: on_dry_run_def task_defs Let_def advance_def split: prod.splits dest!: set_obs_D)

lemma budget_tool_failed: "budget (fst (snd (on_tool_failed h a L act res w))) = budget L"
  by (auto simp: on_tool_failed_def task_defs Let_def split: prod.splits dest!: do_recovery_D)

lemma budget_tool_ok: "budget (fst (snd (on_tool_ok h a L w))) = budget L"
  by (auto simp: on_tool_ok_def task_defs Let_def advance_def mark_done_def split: prod.splits)

lemma budget_tool: "budget (fst (snd (on_tool h a L act w))) = budget L"
proof -
  define L0 where "L0 = upd_task (\<lambda>t. task_move t AGENT_EXECUTING) L"
  obtain res L1 w1 where rt: "run_tool h a L0 act w = (res, L1, w1)" by (metis prod.exhaust)
  obtain x where L1: "L1 = L0\<lparr>L_last_exit_code := x\<rparr>"
    using run_tool_ctx [of h a L0 act w] rt by auto
  define ob where "ob = (if tr_ok res then tr_output res else Some (or_default (tr_error res) ''tool failed''))"
  obtain L2 w2 where so: "set_obs a (upd_task (\<lambda>t. task_move t AGENT_OBSERVING) L1) ob w1 = (L2, w2)"
    by fastforce
  have "budget L2 = budget L"
    using set_obs_ctx [of a "upd_task (\<lambda>t. task_move t AGENT_OBSERVING) L1" ob w1] so
    by (simp add: L1 L0_def task_defs)
  then show ?thesis
    using rt so budget_tool_failed [of h a L2 act res w2] budget_tool_ok [of h a L2 w2]
    by (simp add: on_tool_def L0_def ob_def)
qed

lemmas budget_steps = budget_no_action budget_final budget_ask_user budget_reflect budget_plan
  budget_dry_run budget_tool

lemma budget_iterate:
  "budget (fst (snd (iterate h a opt L note w))) =
   (task_iteration (L_task L) + 1, task_max_iterations (L_task L))"
  by (simp only: iterate_def on_action_def Let_def split: prod.split ActionType.split option.split if_split)
    (simp add: budget_steps)

lemma budget_iterate_D:
  assumes "(r, L', w') = iterate h a opt L nt w"
  shows "task_iteration (L_task L') = task_iteration (L_task L) + 1 \<and>
    task_max_iterations (L_task L') = task_max_iterations (L_task L)"
  using budget_iterate [of h a opt L nt w] by (simp flip: assms)

section \<open>The loop\<close>

text \<open>\<open>loop_body\<close>: iterate while the budget lasts; running out of it is a failure of its own.\<close>

definition out_of_budget :: "'w Host \<Rightarrow> 'w Agent \<Rightarrow> LoopCtx \<Rightarrow> 'w \<Rightarrow> RunOutcome \<times> LoopCtx \<times> 'w" where
  "out_of_budget h a L w =
     (let L1 = upd_task (\<lambda>t. task_set_answer (h_now h w) (task_move t AGENT_FAILED)
                 (Some ''Reached the maximum iteration budget without completing.'')) L
      in (RUN_MAX_ITERS, L1, emit a L1 EV_TASK_FAILED (Some ''max iterations'') w))"

function loop_body ::
  "'w Host \<Rightarrow> 'w Agent \<Rightarrow> RunOptions option \<Rightarrow> LoopCtx \<Rightarrow> cptr \<Rightarrow> 'w \<Rightarrow> RunOutcome \<times> LoopCtx \<times> 'w" where
  "loop_body h a opt L note w =
     (if task_iteration (L_task L) < task_max_iterations (L_task L) then
        (case iterate h a opt L note w of
           (Inl outcome, L1, w1) \<Rightarrow> (outcome, L1, w1)
         | (Inr note1, L1, w1) \<Rightarrow> loop_body h a opt L1 note1 w1)
      else out_of_budget h a L w)"
  by pat_completeness auto
termination
  by (relation "measure (\<lambda>(_, _, _, L, _, _).
        nat (task_max_iterations (L_task L) - task_iteration (L_task L)))")
    (auto dest!: budget_iterate_D)

declare loop_body.simps [simp del]

section \<open>Setup, run and resume\<close>

definition loop_init :: "'w Agent \<Rightarrow> AgentTask \<Rightarrow> LoopCtx" where
  "loop_init a task =
     \<lparr>L_task = task,
      L_mem = memory_set_goal (memory_init (task_id task) 16) (Some (task_goal task)),
      L_plan = plan_init, L_refl = reflection_init (cfg_max_reflections (ag_cfg a)),
      L_tools_desc = tool_registry_describe (ag_tools a) (agent_tool_context a (task_id task)),
      L_last_exit_code = 0, L_last_observation = None, L_step_attempts = 0\<rparr>"

text \<open>A task without a plan gets one from the planner; a resumed task reloads its plan.\<close>

definition ensure_plan :: "'w Host \<Rightarrow> 'w Agent \<Rightarrow> LoopCtx \<Rightarrow> 'w \<Rightarrow> LoopCtx \<times> 'w" where
  "ensure_plan h a L w =
     (case task_plan (L_task L) of
        Some pj \<Rightarrow> (L\<lparr>L_plan := snd (plan_parse_text (h_parse h) (Some pj))\<rparr>, w)
      | None \<Rightarrow>
          let L1 = upd_task (\<lambda>t. task_move (task_move t AGENT_ANALYZING) AGENT_PLANNING) L;
              goal = task_goal (L_task L1);
              memc = memory_recall (ag_db a) goal 6 w;
              pl = \<lparr>pl_max_attempts = cfg_max_retries (ag_cfg a),
                    pl_temperature = cfg_temperature (ag_cfg a),
                    pl_max_tokens = cfg_max_tokens (ag_cfg a),
                    pl_tools_desc = Some (L_tools_desc L1)\<rparr>
          in (case planner_make_plan (h_parse h) (h_bump h) (ag_backend a) pl goal (Some memc) w of
                (plan, w1) \<Rightarrow>
                  let pj = plan_to_json (h_print h) (h_double h) plan;
                      L2 = L1\<lparr>L_plan := plan,
                              L_task := task_set_plan (h_now h w1) (L_task L1) (Some pj) (n_steps plan),
                              L_mem := memory_set_plan (L_mem L1) (Some pj)\<rparr>;
                      w2 = emit a L2 EV_PLAN_CREATED (Some pj) w1
                  in (L2, save_task a (L_task L2) w2)))"

definition run_planned ::
  "'w Host \<Rightarrow> 'w Agent \<Rightarrow> RunOptions option \<Rightarrow> LoopCtx \<Rightarrow> cptr \<Rightarrow> 'w \<Rightarrow> RunOutcome \<times> LoopCtx \<times> 'w" where
  "run_planned h a opt L initial_note w =
     (if (case opt of None \<Rightarrow> False | Some op \<Rightarrow> opt_plan_only op) then
        (RUN_COMPLETED,
         upd_task (\<lambda>t. task_move (task_set_answer (h_now h w) t
           (Some (or_default (task_plan t) ''(no plan)''))) AGENT_COMPLETED) L, w)
      else loop_body h a opt (upd_task (\<lambda>t. task_move t AGENT_EXECUTING) L) initial_note w)"

definition loop_setup_and_run ::
  "'w Host \<Rightarrow> 'w Agent \<Rightarrow> AgentTask \<Rightarrow> RunOptions option \<Rightarrow> cptr \<Rightarrow> 'w \<Rightarrow> RunOutcome \<times> AgentTask \<times> 'w" where
  "loop_setup_and_run h a task opt initial_note w =
     (let L = loop_init a task;
          w1 = save_task a task (emit a L EV_TASK_STARTED (Some (task_goal task)) w)
      in case ensure_plan h a L w1 of
           (L1, w2) \<Rightarrow>
             (case run_planned h a opt L1 initial_note w2 of
                (outcome, L2, w3) \<Rightarrow>
                  let w4 = (if outcome = RUN_COMPLETED \<and> n_steps (L_plan L2) > 0
                            then memory_record_procedure (ag_db a) (L_mem L2)
                                   (Some (snprintf_s 128 (''goal:'' @ take 100 (task_goal (L_task L2)))))
                                   (Some (plan_to_json (h_print h) (h_double h) (L_plan L2))) w3
                            else w3)
                  in (outcome, L_task L2, save_task a (L_task L2) w4)))"

definition agent_loop_run ::
  "'w Host \<Rightarrow> 'w Agent \<Rightarrow> AgentTask \<Rightarrow> RunOptions option \<Rightarrow> 'w \<Rightarrow> RunOutcome \<times> AgentTask \<times> 'w" where
  "agent_loop_run h a task opt w = loop_setup_and_run h a task opt None w"

definition agent_loop_resume ::
  "'w Host \<Rightarrow> 'w Agent \<Rightarrow> AgentTask \<Rightarrow> cptr \<Rightarrow> RunOptions option \<Rightarrow> 'w \<Rightarrow> RunOutcome \<times> AgentTask \<times> 'w" where
  "agent_loop_resume h a task user_answer opt w =
     (let t1 = task\<lparr>task_requires_user_input := False, task_user_question := None\<rparr>;
          note = ''The user answered: '' @ or_default user_answer ''(no answer)'' @
                 ''. Continue the task using this.'';
          w1 = (case ag_db a of None \<Rightarrow> w
                | Some d \<Rightarrow> db_log_message d (task_id t1) ''user'' user_answer w);
          t2 = (if agent_state_is_terminal (task_state t1) then t1\<lparr>task_state := AGENT_EXECUTING\<rparr> else t1)
      in loop_setup_and_run h a t2 opt (Some note) w1)"

section \<open>The invariant of the loop\<close>

text \<open>
  The step index is one of the plan or its end, the ring and the reflection budget are well formed,
  and the task is not in a terminal state.
\<close>

definition loop_inv :: "LoopCtx \<Rightarrow> bool" where
  "loop_inv L \<longleftrightarrow> 0 \<le> task_current_step (L_task L) \<and> task_current_step (L_task L) \<le> n_steps (L_plan L) \<and>
     ring_ok (mem_st (L_mem L)) \<and> budget_ok (L_refl L)"

abbreviation live :: "LoopCtx \<Rightarrow> bool" where
  "live L \<equiv> \<not> agent_state_is_terminal (task_state (L_task L))"

text \<open>What the task looks like when the loop returns.\<close>

definition outcome_ok :: "RunOutcome \<Rightarrow> AgentTask \<Rightarrow> bool" where
  "outcome_ok r t =
     (case r of
        RUN_COMPLETED \<Rightarrow> task_final_answer t \<noteq> None
      | RUN_FAILED \<Rightarrow> task_state t = AGENT_FAILED \<and> task_final_answer t \<noteq> None
      | RUN_NEEDS_USER \<Rightarrow> task_requires_user_input t \<and> task_user_question t \<noteq> None
      | RUN_MAX_ITERS \<Rightarrow> task_state t = AGENT_FAILED \<and> task_final_answer t \<noteq> None \<and>
          task_iteration t \<ge> task_max_iterations t)"

definition step_ok_out :: "RunOutcome + cptr \<Rightarrow> LoopCtx \<Rightarrow> bool" where
  "step_ok_out r L \<longleftrightarrow> loop_inv L \<and>
     (case r of Inr _ \<Rightarrow> live L | Inl o1 \<Rightarrow> outcome_ok o1 (L_task L) \<and> o1 \<noteq> RUN_MAX_ITERS)"

lemma move_live: "b \<notin> {AGENT_COMPLETED, AGENT_FAILED} \<Longrightarrow> \<not> agent_state_is_terminal a \<Longrightarrow>
    \<not> agent_state_is_terminal (move a b)"
  by (auto simp: move_eq agent_state_is_terminal_def)

lemma move_failed: "\<not> agent_state_is_terminal a \<Longrightarrow> move a AGENT_FAILED = AGENT_FAILED"
  by (simp add: move_eq allowed_failed)

lemma ring_ok_observation: "ring_ok (mem_st m) \<Longrightarrow> ring_ok (mem_st (fst (memory_add_observation db m ob w)))"
  by (simp add: memory_add_observation_def ring.invar_add split: option.split)

lemmas inv_defs = loop_inv_def step_ok_out_def outcome_ok_def task_defs

lemma no_action_ok: "loop_inv L \<Longrightarrow> live L \<Longrightarrow> on_no_action h a L w = (r, L', w') \<Longrightarrow> step_ok_out r L'"
  by (auto simp: on_no_action_def inv_defs move_failed
      split: prod.splits if_splits dest!: do_recovery_D)

lemma final_ok:
  "loop_inv L \<Longrightarrow> live L \<Longrightarrow> act_answer act \<noteq> None \<Longrightarrow> on_final h a L act w = (r, L', w') \<Longrightarrow> step_ok_out r L'"
  by (auto simp: on_final_def inv_defs move_live Let_def split: prod.splits if_splits)

lemma ask_user_ok:
  "loop_inv L \<Longrightarrow> act_question act \<noteq> None \<Longrightarrow> on_ask_user h a L act w = (r, L', w') \<Longrightarrow> step_ok_out r L'"
  by (auto simp: on_ask_user_def inv_defs Let_def)

lemma reflect_ok: "loop_inv L \<Longrightarrow> live L \<Longrightarrow> on_reflect L act w = (r, L', w') \<Longrightarrow> step_ok_out r L'"
  using budget_ok_allowed [of "L_refl L"]
  by (auto simp: on_reflect_def inv_defs split: prod.splits)

lemma plan_step_ok: "loop_inv L \<Longrightarrow> live L \<Longrightarrow> on_plan h a L act w = (r, L', w') \<Longrightarrow> step_ok_out r L'"
  by (auto simp: on_plan_def inv_defs move_live memory_set_plan_def ring_ok_def Let_def
      split: prod.splits bool.splits)

lemma advance_inv: "loop_inv L \<Longrightarrow> loop_inv (advance L)"
  by (simp add: loop_inv_def advance_def)

lemma mark_done_inv: "loop_inv L \<Longrightarrow> loop_inv (mark_done L)"
  by (simp add: loop_inv_def mark_done_def Let_def)

lemma dry_run_ok:
  "loop_inv L \<Longrightarrow> live L \<Longrightarrow> on_dry_run h a L act w = (r, L', w') \<Longrightarrow> step_ok_out r L'"
  by (auto simp: on_dry_run_def inv_defs advance_def Let_def ring_ok_observation
      split: prod.splits if_splits dest!: set_obs_D)

lemma tool_failed_ok:
  "loop_inv L \<Longrightarrow> live L \<Longrightarrow> on_tool_failed h a L act res w = (r, L', w') \<Longrightarrow> step_ok_out r L'"
  by (auto simp: on_tool_failed_def inv_defs Let_def move_live move_failed
      split: prod.splits if_splits dest!: do_recovery_D)

lemma tool_ok_ok: "loop_inv L \<Longrightarrow> live L \<Longrightarrow> on_tool_ok h a L w = (r, L', w') \<Longrightarrow> step_ok_out r L'"
  by (auto simp: on_tool_ok_def inv_defs Let_def move_live advance_def mark_done_def
      split: prod.splits if_splits)

lemma tool_ok_out:
  assumes inv: "loop_inv L" "live L" and run: "on_tool h a L act w = (r, L', w')"
  shows "step_ok_out r L'"
proof -
  define L0 where "L0 = upd_task (\<lambda>t. task_move t AGENT_EXECUTING) L"
  obtain res L1 w1 where rt: "run_tool h a L0 act w = (res, L1, w1)" by (metis prod.exhaust)
  obtain x where L1: "L1 = L0\<lparr>L_last_exit_code := x\<rparr>"
    using run_tool_ctx [of h a L0 act w] rt by auto
  define ob where "ob = (if tr_ok res then tr_output res else Some (or_default (tr_error res) ''tool failed''))"
  obtain L2 w2 where so: "set_obs a (upd_task (\<lambda>t. task_move t AGENT_OBSERVING) L1) ob w1 = (L2, w2)"
    by fastforce
  have L2: "loop_inv L2" "live L2"
    using inv set_obs_D [OF so]
    by (auto simp: L1 L0_def loop_inv_def task_defs move_live ring_ok_observation)
  show ?thesis
  proof (cases "tr_ok res")
    case True
    then have "on_tool_ok h a L2 w2 = (r, L', w')"
      using run rt so by (simp add: on_tool_def L0_def ob_def)
    then show ?thesis by (rule tool_ok_ok [OF L2])
  next
    case False
    then have "on_tool_failed h a L2 act res w2 = (r, L', w')"
      using run rt so by (simp add: on_tool_def L0_def ob_def)
    then show ?thesis by (rule tool_failed_ok [OF L2])
  qed
qed

text \<open>Only well-formed actions leave \<open>decide_action\<close> with success.\<close>

lemma decide_action_wf:
  assumes "decide_action h a L nt w = ((True, act), w')"
  shows "wf_action (tool_name_list a) act"
proof -
  obtain act0 where v: "agent_action_validate act0 (Some (tool_name_list a)) = (True, act)"
    using assms by (auto simp: decide_action_def Let_def split: prod.splits if_splits)
  then have "act = act0"
    using validate_ok_same [of act0 "Some (tool_name_list a)"] by simp
  then show ?thesis using v validate_sound [of act0 "tool_name_list a"] by simp
qed

lemma action_ok:
  assumes "loop_inv L" "live L" "wf_action names act" "on_action h a opt L act w = (r, L', w')"
  shows "step_ok_out r L'"
proof (cases "act_type act")
  case ACT_FINAL
  then have "act_answer act \<noteq> None" "on_final h a L act w = (r, L', w')"
    using assms by (simp_all add: on_action_def wf_action_def)
  then show ?thesis by (rule final_ok [OF assms(1,2)])
next
  case ACT_ASK_USER
  then have "act_question act \<noteq> None" "on_ask_user h a L act w = (r, L', w')"
    using assms by (auto simp: on_action_def wf_action_def)
  then show ?thesis by (rule ask_user_ok [OF assms(1)])
next
  case ACT_REFLECT
  then show ?thesis using assms reflect_ok [OF assms(1,2)] by (simp add: on_action_def)
next
  case ACT_PLAN
  then show ?thesis using assms plan_step_ok [OF assms(1,2)] by (simp add: on_action_def)
next
  case ACT_TOOL
  then show ?thesis using assms dry_run_ok [OF assms(1,2)] tool_ok_out [OF assms(1,2)]
    by (auto simp: on_action_def split: if_splits)
next
  case ACT_INVALID
  then show ?thesis using assms by (simp add: wf_action_def)
qed

lemma iterate_ok:
  assumes "loop_inv L" "live L" "iterate h a opt L nt w = (r, L', w')"
  shows "step_ok_out r L'"
proof -
  define L2 where "L2 = L\<lparr>L_task := (L_task L)\<lparr>task_iteration := task_iteration (L_task L) + 1\<rparr>,
    L_refl := reflection_reset (L_refl L)\<rparr>"
  have L2: "loop_inv L2" "live L2"
    using assms by (simp_all add: L2_def loop_inv_def budget_ok_reset)
  obtain ok act w2 where d: "decide_action h a L2 nt
      (emit a (upd_task (\<lambda>t. t\<lparr>task_iteration := task_iteration t + 1\<rparr>) L) EV_STEP_STARTED None w) =
      ((ok, act), w2)" by (metis prod.exhaust)
  show ?thesis
  proof (cases ok)
    case True
    with assms(3) d have "on_action h a opt L2 act w2 = (r, L', w')"
      by (simp add: iterate_def L2_def Let_def)
    then show ?thesis using d True by (auto intro: action_ok [OF L2] decide_action_wf)
  next
    case False
    with assms(3) d have "on_no_action h a L2 w2 = (r, L', w')"
      by (simp add: iterate_def L2_def Let_def)
    then show ?thesis by (rule no_action_ok [OF L2])
  qed
qed

lemma out_of_budget_ok:
  assumes "loop_inv L" "live L" "task_max_iterations (L_task L) \<le> task_iteration (L_task L)"
    and "out_of_budget h a L w = (r, L', w')"
  shows "loop_inv L' \<and> outcome_ok r (L_task L')"
  using assms by (auto simp: out_of_budget_def inv_defs move_failed Let_def)

lemma loop_body_ok:
  "loop_inv L \<Longrightarrow> live L \<Longrightarrow> loop_body h a opt L nt w = (r, L', w') \<Longrightarrow>
   loop_inv L' \<and> outcome_ok r (L_task L')"
proof (induction h a opt L nt w rule: loop_body.induct)
  case (1 h a opt L nt w)
  show ?case
  proof (cases "task_iteration (L_task L) < task_max_iterations (L_task L)")
    case False
    then have "out_of_budget h a L w = (r, L', w')"
      using "1.prems"(3) by (simp add: loop_body.simps [of h a opt L])
    then show ?thesis using out_of_budget_ok [OF "1.prems"(1,2)] False by simp
  next
    case True
    obtain x L1 w1 where it: "iterate h a opt L nt w = (x, L1, w1)" by (metis prod.exhaust)
    have so: "step_ok_out x L1" by (rule iterate_ok [OF "1.prems"(1,2) it])
    show ?thesis
    proof (cases x)
      case (Inl oc)
      with it True "1.prems"(3) so show ?thesis
        by (auto simp: loop_body.simps [of h a opt L] step_ok_out_def)
    next
      case (Inr n1)
      with it True "1.prems"(3) have "loop_body h a opt L1 n1 w1 = (r, L', w')"
        by (simp add: loop_body.simps [of h a opt L])
      then show ?thesis using "1.IH" [OF True it [symmetric] Inr refl] so Inr
        by (auto simp: step_ok_out_def)
    qed
  qed
qed

text \<open>The loop uses at most the iterations the task has left.\<close>

lemma loop_body_budget:
  "loop_body h a opt L nt w = (r, L', w') \<Longrightarrow>
   task_max_iterations (L_task L') = task_max_iterations (L_task L) \<and>
   task_iteration (L_task L) \<le> task_iteration (L_task L') \<and>
   task_iteration (L_task L') \<le> max (task_iteration (L_task L)) (task_max_iterations (L_task L))"
proof (induction h a opt L nt w rule: loop_body.induct)
  case (1 h a opt L nt w)
  show ?case
  proof (cases "task_iteration (L_task L) < task_max_iterations (L_task L)")
    case False
    with "1.prems" show ?thesis
      by (auto simp: loop_body.simps [of h a opt L] out_of_budget_def task_defs Let_def)
  next
    case True
    obtain x L1 w1 where it: "iterate h a opt L nt w = (x, L1, w1)" by (metis prod.exhaust)
    note b = budget_iterate_D [OF it [symmetric]]
    show ?thesis
    proof (cases x)
      case (Inl oc)
      with it True "1.prems" b show ?thesis by (auto simp: loop_body.simps [of h a opt L])
    next
      case (Inr n1)
      with it True "1.prems" have "loop_body h a opt L1 n1 w1 = (r, L', w')"
        by (simp add: loop_body.simps [of h a opt L])
      then show ?thesis using "1.IH" [OF True it [symmetric] Inr refl] b True by auto
    qed
  qed
qed

section \<open>From setup to outcome\<close>

lemma planner_D: "planner_make_plan parse bump be pl goal mem w = (p, w') \<Longrightarrow> plan_ok p"
  using planner_make_plan_ok [of parse bump be pl goal mem w] by simp

lemma ensure_plan_ok:
  assumes "task_plan t = None" "\<not> agent_state_is_terminal (task_state t)"
    and "ensure_plan h a (loop_init a t) w = (L, w')"
  shows "loop_inv L \<and> live L \<and> plan_ok (L_plan L) \<and> task_current_step (L_task L) = 0 \<and>
    task_plan (L_task L) \<noteq> None \<and>
    task_iteration (L_task L) = task_iteration t \<and> task_max_iterations (L_task L) = task_max_iterations t"
  using assms ring_ok_init [of "task_id t" 16]
  by (auto simp: ensure_plan_def loop_init_def loop_inv_def task_defs move_live memory_set_plan_def
      memory_set_goal_def ring_ok_def budget_ok_init Let_def split: prod.splits
      dest!: planner_D)

lemma run_planned_ok:
  assumes "loop_inv L" "live L" "run_planned h a opt L nt w = (r, L', w')"
  shows "outcome_ok r (L_task L') \<and> loop_inv L'"
proof (cases "case opt of None \<Rightarrow> False | Some op \<Rightarrow> opt_plan_only op")
  case True
  with assms show ?thesis by (auto simp: run_planned_def inv_defs split: option.splits)
next
  case False
  let ?L = "upd_task (\<lambda>t. task_move t AGENT_EXECUTING) L"
  have "loop_inv ?L" "live ?L" using assms by (auto simp: loop_inv_def task_defs move_live)
  moreover have "loop_body h a opt ?L nt w = (r, L', w')"
    using False assms(3) by (simp add: run_planned_def)
  ultimately show ?thesis by (auto dest: loop_body_ok)
qed

lemma run_planned_budget:
  assumes "run_planned h a opt L nt w = (r, L', w')"
  shows "task_max_iterations (L_task L') = task_max_iterations (L_task L) \<and>
    task_iteration (L_task L') \<le> max (task_iteration (L_task L)) (task_max_iterations (L_task L))"
proof (cases "case opt of None \<Rightarrow> False | Some op \<Rightarrow> opt_plan_only op")
  case True
  with assms show ?thesis by (auto simp: run_planned_def task_defs split: option.splits)
next
  case False
  let ?L = "upd_task (\<lambda>t. task_move t AGENT_EXECUTING) L"
  have "loop_body h a opt ?L nt w = (r, L', w')" using False assms by (simp add: run_planned_def)
  from loop_body_budget [OF this] show ?thesis by (simp add: task_defs)
qed

lemma setup_and_run_ok:
  assumes "task_plan t = None" "\<not> agent_state_is_terminal (task_state t)"
    and "loop_setup_and_run h a t opt nt w = (r, t', w')"
  shows "outcome_ok r t' \<and> task_max_iterations t' = task_max_iterations t \<and>
    task_iteration t' \<le> max (task_iteration t) (task_max_iterations t) \<and> task_current_step t' \<ge> 0"
proof -
  obtain L1 w2 where ep: "ensure_plan h a (loop_init a t)
      (save_task a t (emit a (loop_init a t) EV_TASK_STARTED (Some (task_goal t)) w)) = (L1, w2)"
    by fastforce
  obtain r1 L2 w3 where rp: "run_planned h a opt L1 nt w2 = (r1, L2, w3)" by (metis prod.exhaust)
  from assms(3) ep rp have "r = r1" "t' = L_task L2"
    by (auto simp: loop_setup_and_run_def Let_def)
  moreover note e = ensure_plan_ok [OF assms(1,2) ep]
  moreover have "outcome_ok r1 (L_task L2) \<and> loop_inv L2"
    using e run_planned_ok [OF _ _ rp] by blast
  ultimately show ?thesis
    using run_planned_budget [OF rp] by (simp add: loop_inv_def)
qed

section \<open>A dry run executes nothing\<close>

text \<open>The same agent with other bodies for its tools.\<close>

definition with_bodies ::
  "('w AgentTool \<Rightarrow> json \<Rightarrow> 'w ToolContext \<Rightarrow> ToolResult \<Rightarrow> 'w \<Rightarrow> int \<times> ToolResult \<times> 'w) \<Rightarrow> 'w Agent \<Rightarrow> 'w Agent" where
  "with_bodies f a = a\<lparr>ag_tools := \<lparr>reg_tools = map (\<lambda>t. t\<lparr>tool_execute := f t\<rparr>) (reg_tools (ag_tools a))\<rparr>\<rparr>"

lemma with_bodies_simps [simp]:
  "ag_cfg (with_bodies f a) = ag_cfg a" "ag_backend (with_bodies f a) = ag_backend a"
  "ag_perm (with_bodies f a) = ag_perm a" "ag_root (with_bodies f a) = ag_root a"
  "ag_db (with_bodies f a) = ag_db a" "ag_events (with_bodies f a) = ag_events a"
  "ag_system_prompt (with_bodies f a) = ag_system_prompt a" "ag_confirm (with_bodies f a) = ag_confirm a"
  "tool_name_list (with_bodies f a) = tool_name_list a"
  by (simp_all add: with_bodies_def tool_name_list_def)

lemma describe_bodies:
  "tool_registry_describe (ag_tools (with_bodies f a)) ctx = tool_registry_describe (ag_tools a) ctx"
proof -
  have "describe_tool p (t\<lparr>tool_execute := e\<rparr>) = describe_tool p t" for p e and t :: "'a AgentTool"
    by (simp add: describe_tool_def cong: if_cong option.case_cong)
  then show ?thesis by (simp add: with_bodies_def tool_registry_describe_def comp_def)
qed

lemma context_bodies: "agent_tool_context (with_bodies f a) tid = agent_tool_context a tid"
  by (simp add: agent_tool_context_def)

lemma emit_bodies [simp]: "emit (with_bodies f a) = emit a" "save_task (with_bodies f a) = save_task a"
  unfolding fun_eq_iff emit_def save_task_def with_bodies_simps by simp_all

lemma helpers_bodies [simp]:
  "decide_action h (with_bodies f a) = decide_action h a"
  "verify_step h (with_bodies f a) = verify_step h a"
  "do_recovery (with_bodies f a) = do_recovery a" "set_obs (with_bodies f a) = set_obs a"
  unfolding fun_eq_iff decide_action_def verify_step_def do_recovery_def set_obs_def
    with_bodies_simps emit_bodies by simp_all

lemma steps_bodies [simp]:
  "on_no_action h (with_bodies f a) = on_no_action h a"
  "on_final h (with_bodies f a) = on_final h a" "on_ask_user h (with_bodies f a) = on_ask_user h a"
  "on_plan h (with_bodies f a) = on_plan h a" "on_dry_run h (with_bodies f a) = on_dry_run h a"
  unfolding fun_eq_iff on_no_action_def on_final_def on_ask_user_def on_plan_def on_dry_run_def
    with_bodies_simps emit_bodies helpers_bodies by simp_all

definition dry :: "RunOptions option \<Rightarrow> bool" where
  "dry opt \<longleftrightarrow> (case opt of None \<Rightarrow> False | Some op \<Rightarrow> opt_dry_run op)"

lemma iterate_dry: "dry opt \<Longrightarrow> iterate h (with_bodies f a) opt L nt w = iterate h a opt L nt w"
  by (simp add: iterate_def on_action_def dry_def Let_def split: prod.split ActionType.split)

lemma loop_body_dry:
  "dry opt \<Longrightarrow> loop_body h (with_bodies f a) opt L nt w = loop_body h a opt L nt w"
proof (induction h a opt L nt w rule: loop_body.induct)
  case (1 h a opt L nt w)
  obtain x L1 w1 where it: "iterate h a opt L nt w = (x, L1, w1)" by (metis prod.exhaust)
  show ?case
  proof (cases "task_iteration (L_task L) < task_max_iterations (L_task L)")
    case True
    then show ?thesis
      using it iterate_dry [OF "1.prems", of h f a L nt w] "1.IH" [OF True it [symmetric] _ refl "1.prems"]
      by (simp add: loop_body.simps [of h _ opt L] split: sum.split)
  next
    case False
    then show ?thesis by (simp add: loop_body.simps [of h _ opt L] out_of_budget_def)
  qed
qed

lemma setup_and_run_dry:
  "dry opt \<Longrightarrow> loop_setup_and_run h (with_bodies f a) t opt nt w = loop_setup_and_run h a t opt nt w"
proof -
  assume d: "dry opt"
  have "loop_init (with_bodies f a) t = loop_init a t"
    by (simp add: loop_init_def describe_bodies context_bodies)
  moreover have "ensure_plan h (with_bodies f a) = ensure_plan h a"
    unfolding fun_eq_iff ensure_plan_def with_bodies_simps emit_bodies by simp
  moreover have "run_planned h (with_bodies f a) opt = run_planned h a opt"
    using d by (simp add: fun_eq_iff run_planned_def loop_body_dry)
  ultimately show ?thesis unfolding loop_setup_and_run_def with_bodies_simps emit_bodies by simp
qed

section \<open>Two consequences of the transition table\<close>

text \<open>
  The reflection budget is reset at the head of every iteration and an iteration takes one action,
  so a reflection is always granted.
\<close>

lemma reflect_granted:
  "budget_ok (L_refl L) \<Longrightarrow>
   on_reflect (L\<lparr>L_refl := reflection_reset (L_refl L)\<rparr>) act w =
     (Inr (Some (''Noted: '' @ or_default (act_message act) [] @ ''. Now take a concrete action.'')),
      L\<lparr>L_refl := (L_refl L)\<lparr>refl_used := 1\<rparr>\<rparr>, w)"
  using reset_allows [of "L_refl L"]
  by (auto simp: on_reflect_def reflection_allowed_def reflection_reset_def budget_ok_def)

lemma iterate_grants_reflection:
  assumes "budget_ok (L_refl L)"
    and "decide_action h a
       (L\<lparr>L_task := (L_task L)\<lparr>task_iteration := task_iteration (L_task L) + 1\<rparr>,
          L_refl := reflection_reset (L_refl L)\<rparr>) nt
       (emit a (upd_task (\<lambda>t. t\<lparr>task_iteration := task_iteration t + 1\<rparr>) L) EV_STEP_STARTED None w) =
       ((True, act), w2)"
    and "act_type act = ACT_REFLECT"
  shows "fst (iterate h a opt L nt w) =
     Inr (Some (''Noted: '' @ or_default (act_message act) [] @ ''. Now take a concrete action.''))"
proof -
  define L1 where "L1 = upd_task (\<lambda>t. t\<lparr>task_iteration := task_iteration t + 1\<rparr>) L"
  have "budget_ok (L_refl L1)" using assms(1) by (simp add: L1_def)
  from reflect_granted [OF this, of act w2] show ?thesis
    using assms(2,3) by (simp add: iterate_def on_action_def Let_def L1_def)
qed

text \<open>
  After a tool failure the state is RECOVERING, from which neither VERIFYING nor COMPLETED can be
  entered: a final answer that follows completes the run and leaves the task in RECOVERING.
\<close>

lemma final_from_recovering:
  assumes "task_state (L_task L) = AGENT_RECOVERING" "fst (fst (verify_step h a L w))"
  shows "\<exists>L' w'. on_final h a L act w = (Inl RUN_COMPLETED, L', w') \<and>
     task_state (L_task L') = AGENT_RECOVERING \<and> task_success (L_task L')"
proof -
  have stay: "upd_task (\<lambda>t. task_move t AGENT_VERIFYING) L = L"
    using assms(1) by (simp add: task_move_def move_eq allowed_def agent_state_is_terminal_def)
  obtain ok re w1 where v: "verify_step h a L w = ((ok, re), w1)" by (metis prod.exhaust)
  define L2 where "L2 = upd_task (\<lambda>t. task_set_answer (h_now h w1)
      (task_move (t\<lparr>task_success := True\<rparr>) AGENT_COMPLETED) (act_answer act)) L"
  have "ok" using assms(2) v by simp
  then have "on_final h a L act w = (Inl RUN_COMPLETED, L2, emit a L2 EV_TASK_COMPLETED (act_answer act) w1)"
    unfolding on_final_def Let_def stay v L2_def by simp
  moreover have "\<not> allowed AGENT_RECOVERING AGENT_COMPLETED"
    by (simp add: allowed_def agent_state_is_terminal_def)
  then have "task_state (L_task L2) = AGENT_RECOVERING" "task_success (L_task L2)"
    using assms(1) by (simp_all add: L2_def task_defs move_eq)
  ultimately show ?thesis by blast
qed

end
