(* ===== verification/Agent_Balance.thy ===== *)
theory Agent_Balance
  imports Agent_Json
begin

text \<open>
  What \<open>find_object\<close> and \<open>jx_extract_object\<close> (\<open>agent/util/jsonx.c\<close>) find, stated without their scan: a grammar of
  balanced text. The scan returns exactly the spans of the grammar, and the extraction the first one that parses.
\<close>

section \<open>Balanced text\<close>

text \<open>
  The rest of a string literal, its closing quote included. The flag says that the next character is escaped.
\<close>

fun string_rest :: "bool \<Rightarrow> cstr \<Rightarrow> bool" where
  "string_rest esc [] \<longleftrightarrow> False"
| "string_rest True (c # cs) \<longleftrightarrow> string_rest False cs"
| "string_rest False (c # cs) \<longleftrightarrow>
     (if c = DQ then cs = [] else if c = BSL then string_rest True cs else string_rest False cs)"

text \<open>
  The inside of an object: characters that are neither quotes nor braces, string literals, whatever they hold, and
  objects whose inside is balanced in turn.
\<close>

inductive braces_match :: "cstr \<Rightarrow> bool" where
  match_empty: "braces_match []"
| match_plain: "braces_match (c # s)" if "c \<noteq> DQ" "c \<noteq> CHR ''{''" "c \<noteq> CHR ''}''" "braces_match s"
| match_string: "braces_match (DQ # q @ s)" if "string_rest False q" "braces_match s"
| match_object: "braces_match (CHR ''{'' # b @ CHR ''}'' # s)" if "braces_match b" "braces_match s"

text \<open>The text up to the brace that closes the outermost of \<open>d\<close> open objects.\<close>

inductive closes :: "nat \<Rightarrow> cstr \<Rightarrow> bool" where
  close_last: "closes 1 (b @ ''}'')" if "braces_match b"
| close_inner: "closes (Suc d) (b @ CHR ''}'' # s)" if "braces_match b" "closes d s"

inductive_cases closesE: "closes d s"

lemma closes_pos: "closes d s \<Longrightarrow> 0 < d"
  by (erule closes.cases) simp_all

lemma closes_extend:
  assumes "closes d s" "\<And>b. braces_match b \<Longrightarrow> braces_match (p @ b)"
  shows "closes d (p @ s)"
  using assms(1)
proof (cases rule: closes.cases)
  case (close_last b)
  then show ?thesis using closes.close_last [OF assms(2)] by simp
next
  case (close_inner d' b s')
  then show ?thesis using closes.close_inner [OF assms(2)] by simp
qed

lemma closes_plain:
  assumes "closes d s" "c \<noteq> DQ" "c \<noteq> CHR ''{''" "c \<noteq> CHR ''}''"
  shows "closes d (c # s)"
  using closes_extend [OF assms(1), of "[c]"] assms(2-4) by (simp add: match_plain)

lemma closes_string:
  assumes "closes d s" "string_rest False q"
  shows "closes d (DQ # q @ s)"
  using closes_extend [OF assms(1), of "DQ # q"] assms(2) by (simp add: match_string)

lemma closes_open:
  assumes "closes (Suc d) s" "0 < d"
  shows "closes d (CHR ''{'' # s)"
  using assms(1)
proof (cases rule: closes.cases)
  case (close_inner b s')
  then have "closes d ((CHR ''{'' # b @ ''}'') @ s')"
    by (intro closes_extend) (simp_all add: match_object)
  then show ?thesis using close_inner by simp
qed (use assms(2) in simp)

lemma closes_close: "closes d s \<Longrightarrow> closes (Suc d) (CHR ''}'' # s)"
  using close_inner [OF match_empty] by simp

section \<open>The scan and the grammar\<close>

text \<open>
  Inside a string the scan first finishes the literal. Both statements by one induction on the text.
\<close>

lemma scan_object_sound:
  "scan_object cs (int d) in_str esc n = Some m \<Longrightarrow> 0 < d \<Longrightarrow> (\<not> in_str \<longrightarrow> \<not> esc) \<Longrightarrow>
   \<exists>q s. take (m - n) cs = q @ s \<and> closes d s \<and> (if in_str then string_rest esc q else q = [])"
proof (induction cs arbitrary: d in_str esc n)
  case (Cons c cs)
  have step: "take (m - n) (c # cs) = c # take (m - Suc n) cs" if "scan_object cs d' i' e' (Suc n) = Some m" for d' i' e'
    using scan_object_bound [OF that] by (simp add: take_Cons' Suc_diff_Suc)
  show ?case
  proof (cases in_str)
    case True
    define e2 where "e2 = (\<not> esc \<and> c = BSL)"
    show ?thesis
    proof (cases "\<not> esc \<and> c = DQ")
      case True
      with Cons.prems \<open>in_str\<close> have r: "scan_object cs (int d) False False (Suc n) = Some m"
        by (simp add: char_defs split: if_splits)
      from Cons.IH [OF r Cons.prems(2)] obtain s where "take (m - Suc n) cs = s" "closes d s" by auto
      then show ?thesis using step [OF r] True \<open>in_str\<close> by (intro exI [of _ "[DQ]"] exI [of _ s]) simp
    next
      case False
      with Cons.prems \<open>in_str\<close> have r: "scan_object cs (int d) True e2 (Suc n) = Some m"
        by (auto simp: e2_def split: if_splits)
      from Cons.IH [OF r Cons.prems(2)] obtain q s where
        "take (m - Suc n) cs = q @ s" "closes d s" "string_rest e2 q" by auto
      moreover have "string_rest esc (c # q)"
        using \<open>string_rest e2 q\<close> False by (cases esc) (auto simp: e2_def)
      ultimately show ?thesis using step [OF r] \<open>in_str\<close> by (intro exI [of _ "c # q"] exI [of _ s]) simp
    qed
  next
    case False
    with Cons.prems(3) have [simp]: "\<not> in_str" "\<not> esc" by simp_all
    have "closes d (take (m - n) (c # cs))"
    proof (cases "c = DQ")
      case True
      with Cons.prems have r: "scan_object cs (int d) True False (Suc n) = Some m" by simp
      from Cons.IH [OF r Cons.prems(2)] obtain q s where
        "take (m - Suc n) cs = q @ s" "closes d s" "string_rest False q" by auto
      then show ?thesis using step [OF r] True by (simp add: closes_string)
    next
      case nq: False
      show ?thesis
      proof (cases "c = CHR ''{''")
        case True
        with Cons.prems nq have r: "scan_object cs (int (Suc d)) False False (Suc n) = Some m"
          by (simp add: add.commute)
        from Cons.IH [OF r] have "closes (Suc d) (take (m - Suc n) cs)" by auto
        then show ?thesis using step [OF r] True Cons.prems(2) by (simp add: closes_open)
      next
        case no: False
        show ?thesis
        proof (cases "c = CHR ''}''")
          case True
          show ?thesis
          proof (cases "d = 1")
            case one: True
            then have "m = Suc n" using Cons.prems True nq no by simp
            then show ?thesis using one True close_last [OF match_empty] by simp
          next
            case False
            then obtain d' where d': "d = Suc d'" "0 < d'" using Cons.prems(2) by (cases d) auto
            with Cons.prems True nq no have r: "scan_object cs (int d') False False (Suc n) = Some m" by simp
            from Cons.IH [OF r d'(2)] have "closes d' (take (m - Suc n) cs)" by auto
            then show ?thesis using step [OF r] True d'(1) by (simp add: closes_close)
          qed
        next
          case nc: False
          with Cons.prems nq no have r: "scan_object cs (int d) False False (Suc n) = Some m" by simp
          from Cons.IH [OF r Cons.prems(2)] have "closes d (take (m - Suc n) cs)" by auto
          then show ?thesis using step [OF r] nq no nc by (simp add: closes_plain)
        qed
      qed
    qed
    then show ?thesis by (intro exI [of _ "[]"] exI [of _ "take (m - n) (c # cs)"]) simp
  qed
qed simp

lemma scan_string:
  "string_rest esc q \<Longrightarrow> scan_object (q @ r) d True esc n = scan_object r d False False (n + length q)"
proof (induction q arbitrary: esc n)
  case (Cons c q)
  then show ?case by (cases esc) (auto simp: char_defs split: if_splits)
qed simp

lemma scan_matched:
  "braces_match b \<Longrightarrow> 0 < d \<Longrightarrow>
   scan_object (b @ r) d False False n = scan_object r d False False (n + length b)"
proof (induction b arbitrary: d r n rule: braces_match.induct)
  case (match_string q s)
  then show ?case by (simp add: scan_string add.assoc)
next
  case (match_object b s)
  then show ?case by (simp add: char_defs add.assoc)
qed simp_all

text \<open>\<open>find_object\<close> returns the first brace of the text and the balanced span that starts there, if there is one.\<close>

theorem find_object_iff:
  "find_object src = Some (start, n) \<longleftrightarrow>
   (\<exists>u b r. src = u @ start \<and> CHR ''{'' \<notin> set u \<and> start = CHR ''{'' # b @ CHR ''}'' # r \<and>
      n = length b + 2 \<and> braces_match b)"
proof
  assume a: "find_object src = Some (start, n)"
  from find_object_suffix [OF a] obtain u cs where u: "src = u @ start" "CHR ''{'' \<notin> set u" "start = CHR ''{'' # cs"
    by (metis list.collapse)
  from a have "scan_object start 0 False False 0 = Some n"
    by (auto simp: find_object_def simp del: scan_object.simps split: option.splits)
  then have sc: "scan_object cs (int 1) False False 1 = Some n" by (simp add: u(3) char_defs)
  from scan_object_sound [OF this] have "closes 1 (take (n - 1) cs)" by auto
  then obtain b where b: "braces_match b" "take (n - 1) cs = b @ ''}''"
    by (cases rule: closes.cases) (auto dest: closes_pos)
  have "n - 1 \<le> length cs" "1 < n" using scan_object_bound [OF sc] by auto
  moreover have "length (take (n - 1) cs) = length b + 1" unfolding b(2) by simp
  ultimately have "n - 1 = length b + 1" by simp
  with \<open>1 < n\<close> have n: "n = length b + 2" by simp
  have "cs = b @ CHR ''}'' # drop (n - 1) cs" 
    using append_take_drop_id [of "n - 1" cs] unfolding b(2) by simp
  with u b(1) n show "\<exists>u b r. src = u @ start \<and> CHR ''{'' \<notin> set u \<and> start = CHR ''{'' # b @ CHR ''}'' # r \<and>
      n = length b + 2 \<and> braces_match b" by blast
next
  assume "\<exists>u b r. src = u @ start \<and> CHR ''{'' \<notin> set u \<and> start = CHR ''{'' # b @ CHR ''}'' # r \<and>
      n = length b + 2 \<and> braces_match b"
  then obtain u b r where b: "src = u @ start" "CHR ''{'' \<notin> set u" "start = CHR ''{'' # b @ CHR ''}'' # r"
    "n = length b + 2" "braces_match b" by blast
  have "strchr src (CHR ''{'') = Some start" using b(1,2,3) by (induction u arbitrary: src) auto
  moreover have "scan_object start 0 False False 0 = Some n"
    using scan_matched [OF b(5), of 1] b(3,4) by (simp add: char_defs)
  ultimately show "find_object src = Some (start, n)" by (simp add: find_object_def del: scan_object.simps)
qed

text \<open>The extraction passes over balanced spans only if they do not parse.\<close>

lemma jx_extract_object_first:
  assumes "jx_extract_object parse src = Some (j, start, n)"
  shows "\<exists>u. src = u @ start \<and> (\<forall>u' s b r. src = u' @ s \<longrightarrow> length u' < length u \<longrightarrow>
     s = CHR ''{'' # b @ CHR ''}'' # r \<longrightarrow> braces_match b \<longrightarrow> parse (take (length b + 2) s) = None)"
  using assms
proof (induction parse src rule: jx_extract_object.induct)
  case (1 parse p)
  from "1.prems" have ne: "p \<noteq> []" by (auto simp: jx_extract_object.simps [of parse p])
  with "1.prems" obtain s m where fo: "find_object p = Some (s, m)"
    by (auto simp: jx_extract_object.simps [of parse p] split: option.splits)
  from find_object_suffix [OF fo] obtain u t where u: "p = u @ s" "CHR ''{'' \<notin> set u" "s = CHR ''{'' # t"
    by (metis list.collapse)
  have early: False if "p = u' @ CHR ''{'' # w" "length u' < length u" for u' w
  proof -
    have "(u @ s) ! length u' = CHR ''{''" using that(1) u(1) by (simp add: nth_append)
    then have "u ! length u' = CHR ''{''" using that(2) by (simp add: nth_append)
    then show False using u(2) that(2) by (metis nth_mem)
  qed
  show ?case
  proof (cases "parse (take m s)")
    case (Some j')
    with "1.prems" ne fo have "s = start" by (simp add: jx_extract_object.simps [of parse p])
    then show ?thesis using u(1) early by blast
  next
    case None
    with "1.prems" ne fo have rec: "jx_extract_object parse (tl s) = Some (j, start, n)"
      by (simp add: jx_extract_object.simps [of parse p])
    from "1.IH" [OF ne fo refl None rec] obtain v where v: "t = v @ start"
      and first: "\<And>u' s' b r. t = u' @ s' \<Longrightarrow> length u' < length v \<Longrightarrow>
        s' = CHR ''{'' # b @ CHR ''}'' # r \<Longrightarrow> braces_match b \<Longrightarrow> parse (take (length b + 2) s') = None"
      using u(3) by auto
    have "parse (take (length b + 2) s') = None"
      if w: "p = u' @ s'" "length u' < length (u @ CHR ''{'' # v)" "s' = CHR ''{'' # b @ CHR ''}'' # r" "braces_match b"
      for u' s' b r
    proof (cases "length u' \<le> length u")
      case True
      with early w have "length u' = length u" by (metis le_neq_implies_less)
      with w(1) u(1) have "s' = s" by simp
      then have "find_object p = Some (s, length b + 2)" using w u unfolding find_object_iff by metis
      then show ?thesis using fo None \<open>s' = s\<close> by simp
    next
      case False
      then obtain k where k: "u' = u @ CHR ''{'' # k"
      proof -
        have "u' @ s' = (u @ [CHR ''{'']) @ t" using w(1) u by simp
        moreover have "length (u @ [CHR ''{'']) \<le> length u'" using False by simp
        ultimately have "\<exists>k. u' = (u @ [CHR ''{'']) @ k" by (auto simp: append_eq_append_conv2 append_eq_Cons_conv)
        then show thesis using that by auto
      qed
      then have "t = k @ s'" "length k < length v" using w u by simp_all
      then show ?thesis by (rule first [OF _ _ w(3,4)])
    qed
    moreover have "p = (u @ CHR ''{'' # v) @ start" using u v by simp
    ultimately show ?thesis by blast
  qed
qed

end
