(* ===== verification/Agent_Fence.thy ===== *)
theory Agent_Fence
  imports Agent_Builtins
begin

text \<open>
  What it means that the file tools (\<open>agent/tools/filesystem.c\<close>) act inside the workspace only, stated as
  noninterference: \<open>fence\<close> is the same operating system, except that it refuses every operation on a path outside the
  workspace root. A tool that runs on the fenced system exactly as it does on the real one performs none.
\<close>

section \<open>The fenced operating system\<close>

text \<open>
  Making a directory is let through for the root and the directories above it as well, because \<open>fs_mkdir_p\<close> starts at
  \<open>/\<close>. Resolving a name (\<open>realpath\<close>) is what the sandbox decides with; \<open>stat\<close> is refused for names that do not start with
  the root.
\<close>

definition may_make :: "cstr \<Rightarrow> cstr \<Rightarrow> bool" where
  "may_make root p \<longleftrightarrow> confined root p \<or> prefix p root"

definition fence :: "cstr \<Rightarrow> 'w Posix \<Rightarrow> 'w Posix" where
  "fence root px = px\<lparr>
     px_stat := (\<lambda>p w. if within root p then px_stat px p w else None),
     px_readdir := (\<lambda>p w. if confined root p then px_readdir px p w else None),
     px_mkdir := (\<lambda>p w. if may_make root p then px_mkdir px p w else (Some EOTHER, w)),
     px_fopen_read := (\<lambda>p w. if confined root p then px_fopen_read px p w else None),
     px_create := (\<lambda>p d w. if confined root p then px_create px p d w else (NoOpen, w)),
     px_append := (\<lambda>p d w. if confined root p then px_append px p d w else (NoOpen, w)),
     px_rename := (\<lambda>p q w. if confined root p \<and> confined root q then px_rename px p q w else (False, w)),
     px_remove := (\<lambda>p w. if confined root p then px_remove px p w else (False, w))\<rparr>"

lemma fence_same [simp]:
  "px_realpath (fence root px) = px_realpath px" "px_getcwd (fence root px) = px_getcwd px"
  "px_time (fence root px) = px_time px" "px_spawn (fence root px) = px_spawn px"
  by (simp_all add: fence_def)

lemma fence_inside [simp]:
  "within root p \<Longrightarrow> px_stat (fence root px) p w = px_stat px p w"
  "confined root p \<Longrightarrow> px_readdir (fence root px) p w = px_readdir px p w"
  "may_make root p \<Longrightarrow> px_mkdir (fence root px) p w = px_mkdir px p w"
  "confined root p \<Longrightarrow> px_fopen_read (fence root px) p w = px_fopen_read px p w"
  "confined root p \<Longrightarrow> px_create (fence root px) p d w = px_create px p d w"
  "confined root p \<Longrightarrow> px_append (fence root px) p d w = px_append px p d w"
  "confined root p \<Longrightarrow> confined root q \<Longrightarrow> px_rename (fence root px) p q w = px_rename px p q w"
  "confined root p \<Longrightarrow> px_remove (fence root px) p w = px_remove px p w"
  by (simp_all add: fence_def)

lemma fence_realpath_leaf: "realpath_leaf (fence root px) = realpath_leaf px"
  unfolding fun_eq_iff realpath_leaf_def fence_same by simp

lemma fence_realpath: "fs_realpath (fence root px) = fs_realpath px"
  unfolding fun_eq_iff fs_realpath_def fence_same fence_realpath_leaf by simp

lemma fence_resolve [simp]: "resolve_in (fence root px) e p = resolve_in px e p"
  unfolding resolve_in_def sandbox_resolve_def fence_realpath by (rule refl)

section \<open>Paths derived from a path inside\<close>

lemma within_split: "within root p \<longleftrightarrow> p = root \<or> (\<exists>r. p = root @ ''/'' @ r)"
proof
  assume w: "within root p"
  then have "prefix root p"
    by (auto simp: within_def strncmp_eq_def prefix_iff_take Let_def split: if_splits)
  then obtain r where p: "p = root @ r" by (auto simp: prefix_def)
  show "p = root \<or> (\<exists>r. p = root @ ''/'' @ r)"
  proof (cases r)
    case (Cons c cs)
    with w p have "p = root @ ''/'' @ cs" by (simp add: within_def Let_def split: if_splits)
    then show ?thesis by blast
  qed (simp add: p)
qed (auto simp: within_def strncmp_eq_def)

lemma split_path_tail:
  "CHR ''/'' \<notin> set b \<Longrightarrow> x \<in> set (split_path acc (a @ b)) \<Longrightarrow>
   x \<in> set (split_path acc a) \<or> (\<exists>y. x = y @ b)"
proof (induction a arbitrary: acc)
  case Nil
  then show ?case by (auto simp: split_path_no_slash keep_comp_def split: if_splits)
next
  case (Cons c a)
  then show ?case by (auto split: if_splits)
qed

lemma confined_tmp:
  assumes "within root q" "confined root q" "q \<noteq> root"
  shows "confined root (tmp_name q)"
proof -
  obtain r where r: "q = root @ ''/'' @ r" using assms(1,3) unfolding within_split by blast
  have q: "path_comps q = path_comps root @ path_comps r" unfolding r by (rule path_comps_append)
  have "path_comps (root @ ''/'' @ (r @ ''.tmp.agent'')) = path_comps root @ path_comps (r @ ''.tmp.agent'')"
    by (rule path_comps_append)
  then have t: "path_comps (tmp_name q) = path_comps root @ path_comps (r @ ''.tmp.agent'')"
    by (simp add: tmp_name_def r)
  have "''..'' \<notin> set (path_comps r)" using assms(2) q by (simp add: confined_def)
  then have "''..'' \<notin> set (path_comps (r @ ''.tmp.agent''))"
    using split_path_tail [of "''.tmp.agent''" "''..''" "[]" r] by (auto simp: path_comps_def append_eq_Cons_conv)
  then show ?thesis by (simp add: confined_def t)
qed

lemma confined_backup:
  assumes "length (sb_root s) < 4096" "CHR ''/'' \<notin> set base"
  shows "confined (sb_root s) (backup_path s base n t)"
proof -
  define name where "name = base @ ''.'' @ show_nat n @ ''.'' @ show_nat t @ ''.bak''"
  define pre where "pre = sb_root s @ ''/.agent/backups/''"
  define k where "k = 4299 - length pre"
  have k: "2 < k" "length pre \<le> 4299" using assms(1) by (simp_all add: k_def pre_def)
  have "backup_path s base n t = take 4299 (pre @ name)"
    by (simp add: backup_path_def backup_dir_def snprintf_s_def name_def pre_def)
  also have "\<dots> = pre @ take k name" using k(2) by (simp add: k_def)
  finally have p: "backup_path s base n t = sb_root s @ ''/'' @ (''.agent'' @ ''/'' @ (''backups'' @ ''/'' @ take k name))"
    by (simp add: pre_def)
  have slash: "CHR ''/'' \<notin> set name"
    using assms(2) show_nat_digits [of "CHR ''/''"] by (auto simp: name_def chr_code_def)
  then have "path_comps (take k name) = keep_comp (take k name)"
    by (simp add: path_comps_def split_path_no_slash) (metis in_set_takeD split_path_no_slash append_Nil)
  moreover have "2 < length (take k name)" using k by (simp add: name_def)
  then have "length (take k name) \<noteq> length ''..''" by (simp add: min_def)
  then have "take k name \<noteq> ''..''" by metis
  ultimately have "''..'' \<notin> set (path_comps (take k name))" by (simp add: keep_comp_def)
  moreover have "path_comps ''.agent'' = [''.agent'']" "path_comps ''backups'' = [''backups'']"
    by (simp_all add: path_comps_def keep_comp_def)
  ultimately show ?thesis unfolding p confined_def path_comps_append by simp
qed

lemma base_name_no_slash: "CHR ''/'' \<notin> set (base_name p)"
  using strrchr_split_Some [of p "CHR ''/''"] strrchr_split_None [of p "CHR ''/''"]
  by (auto simp: base_name_def split: option.split)

text \<open>The directories above a path inside, up to a slash of it.\<close>

lemma may_make_parent:
  assumes "within root q" "confined root q" "q = x @ CHR ''/'' # z"
  shows "may_make root x"
proof (cases "length x \<le> length root")
  case True
  moreover have "prefix root q" using assms(1) by (auto simp: within_split)
  moreover have "prefix x q" using assms(3) by simp
  ultimately have "prefix x root" by (metis prefix_length_prefix)
  then show ?thesis by (simp add: may_make_def)
next
  case False
  then obtain r where r: "q = root @ ''/'' @ r" using assms(1,3) by (auto simp: within_split)
  have "x @ CHR ''/'' # z = (root @ ''/'') @ r" using assms(3) r by simp
  moreover have "length (root @ ''/'') \<le> length x" using False by simp
  ultimately obtain y where y: "x = (root @ ''/'') @ y" "r = y @ CHR ''/'' # z"
    by (auto simp: append_eq_append_conv2 append_eq_Cons_conv)
  have x: "path_comps x = path_comps root @ path_comps y" using y(1) path_comps_append [of root y] by simp
  have "path_comps q = path_comps root @ path_comps y @ path_comps z"
    using path_comps_append [of root r] path_comps_append [of y z] r y(2) by simp
  then have "''..'' \<notin> set (path_comps y)" using assms(2) by (simp add: confined_def)
  then show ?thesis by (simp add: may_make_def confined_def x)
qed

section \<open>Every operation on a path inside\<close>

lemma fence_exists [simp]: "within root p \<Longrightarrow> fs_exists (fence root px) p w = fs_exists px p w"
  by (simp add: fs_exists_def)

lemma fence_is_dir [simp]: "within root p \<Longrightarrow> fs_is_dir (fence root px) p w = fs_is_dir px p w"
  by (simp add: fs_is_dir_def)

lemma fence_read [simp]: "confined root p \<Longrightarrow> read_entire_file (fence root px) p n w = read_entire_file px p n w"
  by (simp add: read_entire_file_def)

lemma fence_remove [simp]: "confined root p \<Longrightarrow> fs_remove_file (fence root px) p w = fs_remove_file px p w"
  by (simp add: fs_remove_file_def)

lemma within_entry:
  assumes "within root p" "length root < 4096"
  shows "within root (snprintf_s PATH_MAX (p @ ''/'' @ name))"
proof -
  obtain r where "p @ ''/'' @ name = root @ CHR ''/'' # r" using assms(1) by (auto simp: within_split)
  then have "snprintf_s PATH_MAX (p @ ''/'' @ name) = root @ take (4095 - length root) (CHR ''/'' # r)"
    using assms(2) by (simp add: snprintf_s_def PATH_MAX_def)
  then show ?thesis by (auto simp: within_split take_Cons')
qed

lemma fence_list:
  assumes "within root p" "confined root p" "length root < 4096"
  shows "fs_list_dir (fence root px) p w = fs_list_dir px p w"
proof -
  have "entry_info (fence root px) p w = entry_info px p w"
    using within_entry [OF assms(1,3)] by (simp add: entry_info_def fun_eq_iff)
  then show ?thesis using assms(2) by (simp add: fs_list_dir_def split: option.split)
qed

lemma fence_copy [simp]:
  "confined root p \<Longrightarrow> confined root q \<Longrightarrow> fs_copy_file (fence root px) p q w = fs_copy_file px p q w"
  by (simp add: fs_copy_file_def split: option.split)

lemma fence_backup:
  assumes "within (sb_root s) p" "confined (sb_root s) p" "length (sb_root s) < 4096"
  shows "sandbox_backup (fence (sb_root s) px) s p w = sandbox_backup px s p w"
  using assms confined_backup [OF assms(3) base_name_no_slash]
  by (simp add: sandbox_backup_def Let_def)

lemma fence_write [simp]:
  "confined root p \<Longrightarrow> confined root (tmp_name p) \<Longrightarrow>
   write_entire_file (fence root px) p d w = write_entire_file px p d w"
  by (simp add: write_entire_file_def split: PutResult.split bool.split prod.split)

lemma fence_mkdir_walk:
  assumes "\<And>a b. rest = a @ b \<Longrightarrow> b = [] \<or> hd b = CHR ''/'' \<Longrightarrow> may_make root (before @ a)"
  shows "mkdir_walk (fence root px) before rest w = mkdir_walk px before rest w"
  using assms
proof (induction rest arbitrary: before w)
  case Nil
  then show ?case by simp
next
  case (Cons c rest)
  have "may_make root ((before @ [c]) @ a)" if "rest = a @ b" "b = [] \<or> hd b = CHR ''/''" for a b
    using Cons.prems [of "c # a" b] that by simp
  note rec = Cons.IH [of "before @ [c]", OF this]
  have "may_make root before" if "c = CHR ''/''" using Cons.prems [of "[]" "c # rest"] that by simp
  then show ?case
  proof (cases "c = CHR ''/''")
    case True
    then show ?thesis using \<open>c = CHR ''/'' \<Longrightarrow> may_make root before\<close> rec [unfolded True]
      by (simp split: prod.split)
  next
    case False
    then show ?thesis by (simp add: rec)
  qed
qed

lemma fence_mkdir_p:
  assumes "within root q" "confined root q" "length q < 4096" "q = parent @ CHR ''/'' # leaf"
  shows "fs_mkdir_p (fence root px) parent w = fs_mkdir_p px parent w"
proof -
  have tmp: "snprintf_s PATH_MAX parent = parent" using assms(3,4) by (simp add: snprintf_s_def PATH_MAX_def)
  define t where "t = (if last parent = CHR ''/'' then butlast parent else parent)"
  have t: "\<exists>z. q = t @ CHR ''/'' # z" if "parent \<noteq> []"
  proof (cases "last parent = CHR ''/''")
    case True
    then have "parent = t @ ''/''" using append_butlast_last_id [OF that] by (simp add: t_def)
    then show ?thesis using assms(4) by (intro exI [of _ "CHR ''/'' # leaf"]) simp
  qed (use assms(4) in \<open>simp add: t_def\<close>)
  have "may_make root (take 1 t @ a)"
    if "parent \<noteq> []" "drop 1 t = a @ b" "b = [] \<or> hd b = CHR ''/''" for a b
  proof -
    define x where "x = take 1 t @ a"
    have "t = x @ b" using that(2) append_take_drop_id [of 1 t] by (simp add: x_def)
    moreover have "\<exists>z. q = t @ CHR ''/'' # z" by (rule t [OF that(1)])
    ultimately have "\<exists>y. q = x @ CHR ''/'' # y"
      using that(3) by (cases b) auto
    then show ?thesis using may_make_parent [OF assms(1,2)] unfolding x_def by blast
  qed
  then have "mkdir_walk (fence root px) (take 1 t) (drop 1 t) w = mkdir_walk px (take 1 t) (drop 1 t) w"
    if "parent \<noteq> []"
    using that by (intro fence_mkdir_walk)
  then show ?thesis by (simp add: fs_mkdir_p_def tmp Let_def flip: t_def)
qed

section \<open>The tools\<close>

text \<open>A resolved path of an enabled sandbox, and the workspace root as the field of the C structure holds it.\<close>

lemma resolved_inside:
  assumes "realpath_canonical px" "sb_enabled (env_sb e)" "resolve_in px e p = Some q"
  shows "within (sb_root (env_sb e)) q" "confined (sb_root (env_sb e)) q" "length q < 4096"
  using sandbox_resolve_real [OF assms(3) [unfolded resolve_in_def]]
    sandbox_resolve_confined [OF assms(1,2) assms(3) [unfolded resolve_in_def]] assms(2) by simp_all

lemma path_arg_default: "path_arg args = Some p \<Longrightarrow> jx_str args ''path'' (Some ''.'') = Some p"
  by (auto simp: jx_str_def split: option.splits json.splits)

lemma backup_in_root: "sb_root (env_sb (backup_in px e p)) = sb_root (env_sb e)"
  by (simp add: backup_in_def sandbox_backup_def Let_def split: prod.split)

lemma fence_backup_in:
  assumes "within (sb_root (env_sb e)) q" "confined (sb_root (env_sb e)) q" "length (sb_root (env_sb e)) < 4096"
  shows "backup_in (fence (sb_root (env_sb e)) px) e q = backup_in px e q"
  using fence_backup [OF assms, of px "env_os e"] by (simp add: backup_in_def)

lemma fence_store_file:
  assumes q: "within (sb_root (env_sb e)) q" "confined (sb_root (env_sb e)) q" "length q < 4096"
    and "q \<noteq> sb_root (env_sb e)" and root: "length (sb_root (env_sb e)) < 4096"
  shows "store_file (fence (sb_root (env_sb e)) px) q mode content e = store_file px q mode content e"
proof -
  let ?px = "fence (sb_root (env_sb e)) px"
  have cut: "snprintf_s 4096 q = q" using q(3) by (simp add: snprintf_s_def)
  have dirs: "fs_mkdir_p ?px a w = fs_mkdir_p px a w" if "strrchr_split q (CHR ''/'') = Some (a, b)" for a b w
    by (rule fence_mkdir_p [OF q, of a b]) (use strrchr_split_Some [OF that] in simp)
  have made: "(case strrchr_split q (CHR ''/'') of None \<Rightarrow> w | Some (a, _) \<Rightarrow> snd (fs_mkdir_p ?px a w)) =
      (case strrchr_split q (CHR ''/'') of None \<Rightarrow> w | Some (a, _) \<Rightarrow> snd (fs_mkdir_p px a w))" for w
    by (cases "strrchr_split q (CHR ''/'')") (auto simp: dirs)
  show ?thesis
    unfolding store_file_def Let_def cut made fence_exists [OF q(1)] fence_backup_in [OF q(1,2) root]
      fence_inside(6) [OF q(2)] fence_write [OF q(2) confined_tmp [OF q(1,2) assms(4)]] by (rule refl)
qed

lemma fence_read_file:
  assumes "realpath_canonical px" "sb_enabled (env_sb e)"
  shows "t_read_file (fence (sb_root (env_sb e)) px) args ctx res e = t_read_file px args ctx res e"
proof (cases "\<exists>p q. path_arg args = Some p \<and> resolve_in px e p = Some q")
  case True
  then obtain p q where q: "path_arg args = Some p" "resolve_in px e p = Some q" by blast
  note i = resolved_inside [OF assms q(2)]
  show ?thesis
    unfolding t_read_file_def Let_def fence_resolve q option.case fence_exists [OF i(1)] fence_read [OF i(2)]
    by (rule refl)
qed (auto simp: t_read_file_def Let_def split: option.split)

lemma fence_list_directory:
  assumes "realpath_canonical px" "sb_enabled (env_sb e)" "length (sb_root (env_sb e)) < 4096"
  shows "t_list_directory (fence (sb_root (env_sb e)) px) lc args ctx res e = t_list_directory px lc args ctx res e"
proof (cases "resolve_in px e (or_default (jx_str args ''path'' (Some ''.'')) [])")
  case (Some q)
  note q = resolved_inside [OF assms(1,2) Some]
  show ?thesis
    unfolding t_list_directory_def Let_def fence_resolve Some option.case fence_is_dir [OF q(1)]
      fence_list [OF q(1,2) assms(3)] by (rule refl)
qed (simp add: t_list_directory_def Let_def)

lemma fence_delete_file:
  assumes "realpath_canonical px" "sb_enabled (env_sb e)" "length (sb_root (env_sb e)) < 4096"
  shows "t_delete_file (fence (sb_root (env_sb e)) px) args ctx res e = t_delete_file px args ctx res e"
proof (cases "\<exists>p q. path_arg args = Some p \<and> resolve_in px e p = Some q")
  case True
  then obtain p q where q: "path_arg args = Some p" "resolve_in px e p = Some q" by blast
  note i = resolved_inside [OF assms(1,2) q(2)]
  show ?thesis
    unfolding t_delete_file_def Let_def fence_resolve q option.case fence_exists [OF i(1)] fence_remove [OF i(2)]
      fence_backup_in [OF i(1,2) assms(3)] by (rule refl)
qed (auto simp: t_delete_file_def Let_def split: option.split)

lemma fence_write_file:
  assumes "realpath_canonical px" "sb_enabled (env_sb e)" "length (sb_root (env_sb e)) < 4096"
    and "\<And>p. path_arg args = Some p \<Longrightarrow> resolve_in px e p \<noteq> Some (sb_root (env_sb e))"
  shows "t_write_file (fence (sb_root (env_sb e)) px) args ctx res e = t_write_file px args ctx res e"
proof (cases "\<exists>p q. path_arg args = Some p \<and> resolve_in px e p = Some q")
  case True
  then obtain p q where q: "path_arg args = Some p" "resolve_in px e p = Some q" by blast
  note i = resolved_inside [OF assms(1,2) q(2)]
  have "q \<noteq> sb_root (env_sb e)" using assms(4) q by blast
  note st = fence_store_file [OF i this assms(3)]
  show ?thesis
    unfolding t_write_file_def Let_def fence_resolve q prod.case option.case fence_exists [OF i(1)] st by (rule refl)
qed (auto simp: t_write_file_def Let_def split: option.split)

lemma fence_edit_file:
  assumes "realpath_canonical px" "sb_enabled (env_sb e)" "length (sb_root (env_sb e)) < 4096"
    and "\<And>p. path_arg args = Some p \<Longrightarrow> resolve_in px e p \<noteq> Some (sb_root (env_sb e))"
  shows "t_edit_file (fence (sb_root (env_sb e)) px) args ctx res e = t_edit_file px args ctx res e"
proof (cases "\<exists>p q. path_arg args = Some p \<and> resolve_in px e p = Some q")
  case True
  then obtain p q where q: "path_arg args = Some p" "resolve_in px e p = Some q" by blast
  note i = resolved_inside [OF assms(1,2) q(2)]
  have "q \<noteq> sb_root (env_sb e)" using assms(4) q by blast
  note t = confined_tmp [OF i(1,2) this]
  show ?thesis
  proof (cases "jx_str args ''old'' None = None \<or> jx_str args ''new'' None = None")
    case False
    then obtain olds news where a: "jx_str args ''old'' None = Some olds" "jx_str args ''new'' None = Some news" by auto
    show ?thesis
      unfolding t_edit_file_def Let_def fence_resolve a q prod.case option.case fence_exists [OF i(1)]
        fence_read [OF i(2)] fence_backup_in [OF i(1,2) assms(3)] fence_write [OF i(2) t] by (rule refl)
  qed (auto simp: t_edit_file_def split: option.split)
qed (auto simp: t_edit_file_def split: option.split)

text \<open>
  Why the root itself is excepted: its temporary sibling lies beside the workspace, not in it. A \<open>write_file\<close> to \<open>.\<close>
  creates that file, and removes it once the rename over the directory has failed.
\<close>

lemma temporary_of_root_outside:
  "within ''/ws'' ''/ws'' \<and> tmp_name ''/ws'' = ''/ws.tmp.agent'' \<and> \<not> confined ''/ws'' (tmp_name ''/ws'')"
  by (simp add: within_def strncmp_eq_def tmp_name_def confined_def path_comps_def keep_comp_def)

end
