(* ===== verification/K3_Store.thy ===== *)
theory K3_Store
  imports Agent_Prelude "HOL-Library.Word"
begin

unbundle bit_operations_syntax

text \<open>
  The checkpoint reader of the inference engine, \<open>src/io/k3_st.c\<close>: data types, the header scanner, the
  open-addressed name index and the aligned reads. A descriptor is the byte sequence of its file together
  with what each \<open>pread\<close> on it delivers, an argument of the read loops.
\<close>

section \<open>Types and sizes\<close>

datatype K3Dtype = K3_DT_UNKNOWN | K3_DT_U8 | K3_DT_BF16 | K3_DT_F16 | K3_DT_F32 | K3_DT_I8R

text \<open>\<open>ndim\<close> is the length of the shape; the array has room for four dimensions.\<close>

record K3Tensor =
  t_name :: cstr
  t_shard :: int
  t_dtype :: K3Dtype
  t_shape :: "int list"
  t_off :: int
  t_nbytes :: int

text \<open>An empty bucket (\<open>-1\<close>) is \<open>None\<close>.\<close>

record K3St =
  st_nshard :: int
  st_t :: "K3Tensor list"
  st_bucket :: "nat option list"

definition K3_ST_ALIGN :: int where "K3_ST_ALIGN = 4096"

fun k3_st_elemsize :: "K3Dtype \<Rightarrow> int" where
  "k3_st_elemsize K3_DT_U8 = 1"
| "k3_st_elemsize K3_DT_BF16 = 2"
| "k3_st_elemsize K3_DT_F16 = 2"
| "k3_st_elemsize K3_DT_F32 = 4"
| "k3_st_elemsize _ = 0"

text \<open>
  \<open>int64_t\<close> arithmetic on what a header says: the exact result brought back to 64 bits in two's complement, as the
  machine instructions do. (The source does not check for overflow, and the C standard leaves it undefined.)
\<close>

definition int64 :: "int \<Rightarrow> int" where
  "int64 x = (x + 2 ^ 63) mod 2 ^ 64 - 2 ^ 63"

definition k3_st_numel :: "K3Tensor \<Rightarrow> int" where
  "k3_st_numel t = (if t_shape t \<noteq> [] then fold (\<lambda>d n. int64 (n * d)) (t_shape t) 1 else 1)"

definition dtype_of :: "cstr \<Rightarrow> K3Dtype" where
  "dtype_of s =
     (if s = ''U8'' then K3_DT_U8
      else if s = ''BF16'' then K3_DT_BF16
      else if s = ''F16'' then K3_DT_F16
      else if s = ''F32'' then K3_DT_F32
      else K3_DT_UNKNOWN)"

subsection \<open>64-bit arithmetic\<close>

lemma int64_range: "- (2 ^ 63) \<le> int64 x" "int64 x < 2 ^ 63"
  using pos_mod_bound [of "2 ^ 64" "x + 2 ^ 63"] by (simp_all add: int64_def)

lemma int64_fits: "- (2 ^ 63) \<le> x \<Longrightarrow> x < 2 ^ 63 \<Longrightarrow> int64 x = x"
  by (simp add: int64_def)

lemma int64_small [simp]: "int64 0 = 0" "int64 1 = 1"
  by (simp_all add: int64_def)

lemma int64_cong: "int64 x = int64 y \<longleftrightarrow> x mod 2 ^ 64 = y mod 2 ^ 64"
proof -
  have "int64 x = int64 y \<longleftrightarrow> (x + 2 ^ 63) mod 2 ^ 64 = (y + 2 ^ 63) mod 2 ^ 64"
    by (simp add: int64_def)
  also have "\<dots> \<longleftrightarrow> x mod 2 ^ 64 = y mod 2 ^ 64"
    unfolding mod_eq_dvd_iff by simp
  finally show ?thesis .
qed

lemma int64_mod: "int64 x mod 2 ^ 64 = x mod 2 ^ 64"
proof -
  have "int64 x mod 2 ^ 64 = (x + 2 ^ 63 - 2 ^ 63) mod 2 ^ 64"
    unfolding int64_def by (rule mod_diff_left_eq)
  then show ?thesis by simp
qed

text \<open>Only the last wrap-around counts: those of the operands may be left out.\<close>

lemma int64_absorb [simp]:
  "int64 (int64 x + y) = int64 (x + y)" "int64 (x + int64 y) = int64 (x + y)"
  "int64 (int64 x - y) = int64 (x - y)" "int64 (x - int64 y) = int64 (x - y)"
  "int64 (int64 x * y) = int64 (x * y)" "int64 (x * int64 y) = int64 (x * y)"
  unfolding int64_cong using int64_mod
  by (metis mod_add_left_eq, metis mod_add_right_eq, metis mod_diff_left_eq, metis mod_diff_right_eq,
      metis mod_mult_left_eq, metis mod_mult_right_eq)

lemma fold_int64_product:
  "int64 (fold (\<lambda>d n. int64 (n * d)) ds m * k) = int64 (m * prod_list ds * k)"
proof (induction ds arbitrary: m)
  case (Cons d ds)
  have "int64 (fold (\<lambda>d n. int64 (n * d)) (d # ds) m * k) = int64 (int64 (m * d) * (prod_list ds * k))"
    using Cons.IH [of "int64 (m * d)"] by (simp add: mult.assoc)
  also have "\<dots> = int64 (m * d * (prod_list ds * k))" by (simp only: int64_absorb)
  finally show ?case by (simp add: mult.assoc)
qed simp

lemma numel_times: "int64 (k3_st_numel t * k) = int64 (prod_list (t_shape t) * k)"
  using fold_int64_product [of "t_shape t" 1 k] by (simp add: k3_st_numel_def)

section \<open>The name index\<close>

definition fnv1a :: "cstr \<Rightarrow> 64 word" where
  "fnv1a s = fold (\<lambda>c h. (h XOR of_nat (chr_code c)) * 1099511628211) s 1469598103934665603"

definition start_bucket :: "nat \<Rightarrow> cstr \<Rightarrow> nat" where
  "start_bucket nb name = unat (fnv1a name AND (of_nat nb - 1))"

definition next_bucket :: "nat \<Rightarrow> nat \<Rightarrow> nat" where
  "next_bucket nb j = (j + 1) AND (nb - 1)"

text \<open>
  The probe loop of insertion and lookup: the bucket at which it stops, an empty one or one whose tensor
  has the name. \<open>None\<close> is a loop that ran through \<open>fuel\<close> buckets without stopping.
\<close>

fun probe :: "nat \<Rightarrow> nat \<Rightarrow> nat option list \<Rightarrow> (nat \<Rightarrow> bool) \<Rightarrow> nat \<Rightarrow> nat option" where
  "probe 0 nb b hit j = None"
| "probe (Suc fuel) nb b hit j =
     (case b ! j of
        None \<Rightarrow> Some j
      | Some i \<Rightarrow> if hit i then Some j else probe fuel nb b hit (next_bucket nb j))"

text \<open>
  \<open>int nb = 1024; while (nb < nt * 2) nb <<= 1;\<close> The source counts in \<open>int\<close>: up to \<open>2 ^ 29\<close> tensors neither \<open>nt * 2\<close>
  nor \<open>nb\<close> exceeds \<open>2 ^ 30\<close> and nothing wraps; the statements on the index are bounded accordingly.
\<close>

function bucket_count :: "nat \<Rightarrow> nat \<Rightarrow> nat" where
  "bucket_count nt nb = (if nb < nt * 2 \<and> 0 < nb then bucket_count nt (nb * 2) else nb)"
  by pat_completeness auto
termination by (relation "measure (\<lambda>(nt, nb). nt * 2 - nb)") auto

declare bucket_count.simps [simp del]

datatype index_result = Index_Ok "nat option list" | Index_Duplicate cstr | Index_Stuck

text \<open>The insertion of tensor \<open>i\<close>; two tensors of one name end the open with an error.\<close>

definition insert_name :: "nat \<Rightarrow> K3Tensor list \<Rightarrow> nat option list \<Rightarrow> nat \<Rightarrow> index_result" where
  "insert_name nb ts b i =
     (let name = t_name (ts ! i) in
      case probe nb nb b (\<lambda>k. t_name (ts ! k) = name) (start_bucket nb name) of
        None \<Rightarrow> Index_Stuck
      | Some j \<Rightarrow> (case b ! j of
                     None \<Rightarrow> Index_Ok (b[j := Some i])
                   | Some _ \<Rightarrow> Index_Duplicate name))"

fun build_index :: "nat \<Rightarrow> K3Tensor list \<Rightarrow> nat \<Rightarrow> nat \<Rightarrow> nat option list \<Rightarrow> index_result" where
  "build_index nb ts i 0 b = Index_Ok b"
| "build_index nb ts i (Suc left) b =
     (case insert_name nb ts b i of
        Index_Ok b' \<Rightarrow> build_index nb ts (Suc i) left b'
      | r \<Rightarrow> r)"

text \<open>The second half of \<open>k3_st_open\<close>, from the scanned tensors to the index.\<close>

definition index_tensors :: "K3Tensor list \<Rightarrow> index_result" where
  "index_tensors ts =
     (let nb = bucket_count (length ts) 1024
      in build_index nb ts 0 (length ts) (replicate nb None))"

definition k3_st_find :: "K3St \<Rightarrow> cstr \<Rightarrow> K3Tensor option" where
  "k3_st_find s name =
     (let nb = length (st_bucket s) in
      if nb = 0 then None
      else case probe nb nb (st_bucket s) (\<lambda>k. t_name (st_t s ! k) = name) (start_bucket nb name) of
             None \<Rightarrow> None
           | Some j \<Rightarrow> map_option (\<lambda>k. st_t s ! k) (st_bucket s ! j))"

subsection \<open>Bucket arithmetic\<close>

lemma and_mask_mod: "(x :: nat) AND (2 ^ k - 1) = x mod 2 ^ k"
  by (metis mask_eq_exp_minus_1 take_bit_eq_mask take_bit_eq_mod)

lemma next_bucket_mod: "nb = 2 ^ k \<Longrightarrow> next_bucket nb j = (j + 1) mod nb"
  using and_mask_mod [of "j + 1" k] by (simp add: next_bucket_def)

lemma start_bucket_lt:
  assumes "nb = 2 ^ k" "k < 64"
  shows "start_bucket nb name < nb"
proof -
  have "of_nat nb - 1 = (mask k :: 64 word)" using assms(1) by (simp add: mask_eq_exp_minus_1)
  then have "unat (fnv1a name AND (of_nat nb - 1)) = unat (fnv1a name) mod 2 ^ k"
    by (simp add: unsigned_take_bit_eq flip: take_bit_eq_mask take_bit_eq_mod)
  then show ?thesis using assms(1) by (simp add: start_bucket_def)
qed

lemma and_nat_le: "(x :: nat) AND y \<le> y"
  using AND_upper2 [of "int y" "int x"] by (simp flip: of_nat_and_eq)

lemma start_bucket_range: "0 < nb \<Longrightarrow> start_bucket nb name < nb"
proof -
  assume nb: "0 < nb"
  have "unat (fnv1a name AND (of_nat nb - 1)) \<le> unat (of_nat nb - 1 :: 64 word)"
    by (simp add: unsigned_and_eq and_nat_le)
  also have "of_nat nb - 1 = (of_nat (nb - 1) :: 64 word)" using nb by (simp add: of_nat_diff)
  also have "unat (of_nat (nb - 1) :: 64 word) \<le> nb - 1" by (simp add: unat_of_nat)
  finally show ?thesis using nb by (simp add: start_bucket_def)
qed

lemma bucket_count_pow: "nb = 2 ^ k \<Longrightarrow> \<exists>k'. bucket_count nt nb = 2 ^ k' \<and> k \<le> k'"
proof (induction nt nb arbitrary: k rule: bucket_count.induct)
  case (1 nt nb)
  show ?case
  proof (cases "nb < nt * 2 \<and> 0 < nb")
    case True
    have "nb * 2 = 2 ^ Suc k" using "1.prems" by simp
    from "1.IH" [OF True this] True show ?thesis
      by (metis Suc_leD bucket_count.simps)
  next
    case False
    then show ?thesis using "1.prems" by (subst bucket_count.simps) auto
  qed
qed

lemma bucket_count_load: "0 < nb \<Longrightarrow> nt * 2 \<le> bucket_count nt nb"
  by (induction nt nb rule: bucket_count.induct) (subst bucket_count.simps, auto)

lemma bucket_count_bound: "0 < nb \<Longrightarrow> bucket_count nt nb \<le> max nb (nt * 4)"
proof (induction nt nb rule: bucket_count.induct)
  case (1 nt nb)
  then show ?case by (subst bucket_count.simps) auto
qed

subsection \<open>The probe loop\<close>

abbreviation walk :: "nat \<Rightarrow> nat \<Rightarrow> nat \<Rightarrow> nat" where
  "walk nb j d \<equiv> (j + d) mod nb"

definition stops :: "nat option list \<Rightarrow> (nat \<Rightarrow> bool) \<Rightarrow> nat \<Rightarrow> bool" where
  "stops b hit j \<longleftrightarrow> (case b ! j of None \<Rightarrow> True | Some i \<Rightarrow> hit i)"

lemma probe_walk:
  assumes nb: "nb = 2 ^ k" and "j < nb" and "d < fuel" and "stops b hit (walk nb j d)"
    and "\<forall>d' < d. \<not> stops b hit (walk nb j d')"
  shows "probe fuel nb b hit j = Some (walk nb j d)"
  using assms(2-5)
proof (induction d arbitrary: j fuel)
  case 0
  then obtain f where "fuel = Suc f" by (cases fuel) auto
  with 0 show ?case by (auto simp: stops_def split: option.splits)
next
  case (Suc d)
  then obtain f where f: "fuel = Suc f" by (cases fuel) auto
  have nxt: "next_bucket nb j = (j + 1) mod nb" using next_bucket_mod [OF nb] .
  have shift: "walk nb (next_bucket nb j) e = walk nb j (Suc e)" for e
    by (simp add: nxt mod_add_left_eq)
  have "\<not> stops b hit j" using Suc.prems(1,4) by (metis add_0_right mod_less zero_less_Suc)
  then have "probe fuel nb b hit j = probe f nb b hit (next_bucket nb j)"
    by (auto simp: f stops_def split: option.splits)
  also have "\<dots> = Some (walk nb (next_bucket nb j) d)"
  proof (rule Suc.IH)
    show "next_bucket nb j < nb" using Suc.prems(1) by (simp add: nxt)
    show "d < f" using Suc.prems(2) f by simp
    show "stops b hit (walk nb (next_bucket nb j) d)" using Suc.prems(3) by (simp only: shift)
    show "\<forall>d'<d. \<not> stops b hit (walk nb (next_bucket nb j) d')"
      using Suc.prems(4) by (simp only: shift) auto
  qed
  finally show ?case by (simp only: shift)
qed

text \<open>With an empty bucket somewhere, the loop stops within one turn around the table.\<close>

lemma probe_total:
  assumes "nb = 2 ^ k" "j < nb" "e < nb" "b ! e = None"
  obtains d where "d < nb" "probe nb nb b hit j = Some (walk nb j d)" "stops b hit (walk nb j d)"
    "\<forall>d' < d. \<not> stops b hit (walk nb j d')"
proof -
  let ?P = "\<lambda>d. stops b hit (walk nb j d)"
  define e0 where "e0 = (if j \<le> e then e - j else nb - j + e)"
  have e0: "e0 < nb" "walk nb j e0 = e" using assms(2,3) by (auto simp: e0_def)
  have P: "?P e0" using assms(4) by (simp add: e0(2) stops_def)
  define d where "d = (LEAST d. ?P d)"
  have d: "?P d" "\<forall>d' < d. \<not> ?P d'" "d \<le> e0"
    unfolding d_def using P by (auto intro: LeastI Least_le dest: not_less_Least)
  have "d < nb" using d(3) e0(1) by simp
  then show thesis using that [OF _ probe_walk [OF assms(1,2) _ d(1,2)] d(1,2)] by blast
qed

subsection \<open>The index refines a search of the tensor list\<close>

abbreviation start_of :: "nat \<Rightarrow> K3Tensor list \<Rightarrow> nat \<Rightarrow> nat" where
  "start_of nb ts i \<equiv> start_bucket nb (t_name (ts ! i))"

definition placed :: "nat \<Rightarrow> K3Tensor list \<Rightarrow> nat option list \<Rightarrow> nat \<Rightarrow> bool" where
  "placed nb ts b i \<longleftrightarrow> (\<exists>d < nb. b ! walk nb (start_of nb ts i) d = Some i \<and>
     (\<forall>d' < d. b ! walk nb (start_of nb ts i) d' \<noteq> None))"

definition index_inv :: "nat \<Rightarrow> K3Tensor list \<Rightarrow> nat \<Rightarrow> nat option list \<Rightarrow> bool" where
  "index_inv nb ts m b \<longleftrightarrow> length b = nb \<and> (\<forall>i. Some i \<in> set b \<longrightarrow> i < m) \<and>
     (\<forall>i < m. placed nb ts b i) \<and> length (filter (\<lambda>x. x \<noteq> None) b) \<le> m"

lemma free_bucket:
  assumes "index_inv nb ts m b" "m < nb"
  shows "\<exists>e < nb. b ! e = None"
proof (rule ccontr)
  assume "\<not> ?thesis"
  then have "filter (\<lambda>x. x \<noteq> None) b = b"
    using assms(1) by (auto simp: index_inv_def filter_id_conv in_set_conv_nth)
  then show False using assms by (simp add: index_inv_def)
qed

lemma filter_update_length:
  "j < length b \<Longrightarrow> b ! j = None \<Longrightarrow>
   length (filter (\<lambda>x. x \<noteq> None) (b[j := Some i])) = Suc (length (filter (\<lambda>x. x \<noteq> None) b))"
proof (induction b arbitrary: j)
  case (Cons a b)
  then show ?case by (cases j) auto
qed simp

lemma placed_update:
  assumes "placed nb ts b i" "j < length b" "b ! j = None" "length b = nb" "0 < nb"
  shows "placed nb ts (b[j := Some m]) i"
proof -
  obtain d where d: "d < nb" "b ! walk nb (start_of nb ts i) d = Some i"
    "\<forall>d' < d. b ! walk nb (start_of nb ts i) d' \<noteq> None"
    using assms(1) by (auto simp: placed_def)
  have "b[j := Some m] ! walk nb (start_of nb ts i) d = Some i"
  proof (cases "walk nb (start_of nb ts i) d = j")
    case True
    then show ?thesis using d(2) assms(3) by simp
  qed (use d(2) in simp)
  moreover have "b[j := Some m] ! walk nb (start_of nb ts i) d' \<noteq> None" if "d' < d" for d'
    using d(3) that assms(2) by (cases "walk nb (start_of nb ts i) d' = j") simp_all
  ultimately show ?thesis using d(1) by (auto simp: placed_def)
qed

lemma insert_step:
  assumes inv: "index_inv nb ts m b" and nb: "nb = 2 ^ k" "k < 64" and m: "m < nb"
  shows "if t_name (ts ! m) \<in> (\<lambda>i. t_name (ts ! i)) ` {..<m}
    then insert_name nb ts b m = Index_Duplicate (t_name (ts ! m))
    else \<exists>b'. insert_name nb ts b m = Index_Ok b' \<and> index_inv nb ts (Suc m) b'"
proof -
  let ?name = "t_name (ts ! m)"
  let ?hit = "\<lambda>i. t_name (ts ! i) = ?name"
  let ?s = "start_bucket nb ?name"
  have len: "length b = nb" using inv by (simp add: index_inv_def)
  have s: "?s < nb" by (rule start_bucket_lt [OF nb])
  obtain e where e: "e < nb" "b ! e = None" using free_bucket [OF inv m] by blast
  obtain d where d: "d < nb" "probe nb nb b ?hit ?s = Some (walk nb ?s d)" "stops b ?hit (walk nb ?s d)"
    "\<forall>d' < d. \<not> stops b ?hit (walk nb ?s d')"
    using probe_total [OF nb(1) s e] by blast
  let ?j = "walk nb ?s d"
  have j: "?j < nb" using s by simp
  show ?thesis
  proof (cases "?name \<in> (\<lambda>i. t_name (ts ! i)) ` {..<m}")
    case True
    then obtain i where i: "i < m" "t_name (ts ! i) = ?name" by auto
    then obtain di where di: "di < nb" "b ! walk nb ?s di = Some i"
      "\<forall>d' < di. b ! walk nb ?s d' \<noteq> None"
      using inv by (auto simp: index_inv_def placed_def)
    have "stops b ?hit (walk nb ?s di)" using di(2) i(2) by (simp add: stops_def)
    then have "d \<le> di" using d(4) by (meson not_less)
    then have "b ! ?j \<noteq> None" using di(2,3) by (cases "d = di") auto
    then show ?thesis using True d(2) by (auto simp: insert_name_def Let_def)
  next
    case False
    have "b ! ?j = None"
    proof (cases "b ! ?j")
      case (Some i)
      then have "i < m" using inv j len by (metis index_inv_def nth_mem)
      then have "t_name (ts ! i) \<noteq> ?name" using False by (metis image_eqI lessThan_iff)
      then show ?thesis using Some d(3) by (simp add: stops_def)
    qed
    note empty = this
    have new: "placed nb ts (b[?j := Some m]) m"
      unfolding placed_def
    proof (intro exI [of _ d] conjI allI impI)
      show "b[?j := Some m] ! walk nb ?s d = Some m" using j len by simp
    next
      fix d' assume "d' < d"
      then have "b ! walk nb ?s d' \<noteq> None" using d(4) by (auto simp: stops_def split: option.splits)
      then show "b[?j := Some m] ! walk nb ?s d' \<noteq> None"
        using s len by (auto simp: nth_list_update)
    qed (rule d(1))
    have "index_inv nb ts (Suc m) (b[?j := Some m])"
      unfolding index_inv_def
    proof (intro conjI allI impI)
      fix i assume "Some i \<in> set (b[?j := Some m])"
      then have "Some i = Some m \<or> Some i \<in> set b" using set_update_subset_insert by fastforce
      then show "i < Suc m" using inv by (auto simp: index_inv_def less_SucI)
    next
      fix i assume "i < Suc m"
      then show "placed nb ts (b[?j := Some m]) i"
        using new inv placed_update [OF _ _ empty len] j len s
        by (cases "i = m") (auto simp: index_inv_def)
    qed (use inv j len empty in \<open>auto simp: index_inv_def filter_update_length simp del: not_None_eq\<close>)
    then show ?thesis using False d(2) empty by (auto simp: insert_name_def Let_def)
  qed
qed

lemma build_index_spec:
  assumes "index_inv nb ts i b" "nb = 2 ^ k" "k < 64" "i + left \<le> length ts" "i + left < nb"
    and "distinct (map t_name (take i ts))"
  shows "if distinct (map t_name (take (i + left) ts))
    then \<exists>b'. build_index nb ts i left b = Index_Ok b' \<and> index_inv nb ts (i + left) b'
    else \<exists>n. build_index nb ts i left b = Index_Duplicate n"
  using assms
proof (induction left arbitrary: i b)
  case 0
  then show ?case by simp
next
  case (Suc left)
  have i: "i < length ts" "i < nb" using Suc.prems by simp_all
  have tk: "take (Suc i) ts = take i ts @ [ts ! i]" using i(1) by (rule take_Suc_conv_app_nth)
  have img: "(\<lambda>x. t_name (ts ! x)) ` {..<i} = set (map t_name (take i ts))"
  proof -
    have "{..<i} = {0..<i}" by auto
    moreover have "take i ts = map (nth ts) [0..<i]" using i(1) by (auto intro: nth_equalityI)
    ultimately show ?thesis by (simp add: image_image)
  qed
  have step: "if t_name (ts ! i) \<in> set (map t_name (take i ts))
    then insert_name nb ts b i = Index_Duplicate (t_name (ts ! i))
    else \<exists>b'. insert_name nb ts b i = Index_Ok b' \<and> index_inv nb ts (Suc i) b'"
    using insert_step [OF Suc.prems(1-3) i(2)] by (simp only: img)
  show ?case
  proof (cases "t_name (ts ! i) \<in> set (map t_name (take i ts))")
    case True
    have "prefix (take (Suc i) ts) (take (i + Suc left) ts)"
      by (metis add_Suc_right add_Suc_shift take_add prefix_def)
    then have "\<not> distinct (map t_name (take (i + Suc left) ts))"
      using True by (auto simp: tk prefix_def)
    then show ?thesis using True step by simp
  next
    case False
    then obtain b' where b': "insert_name nb ts b i = Index_Ok b'" "index_inv nb ts (Suc i) b'"
      using step by auto
    have "distinct (map t_name (take (Suc i) ts))" using Suc.prems(6) False by (simp add: tk)
    from Suc.IH [OF b'(2) Suc.prems(2,3) _ _ this] Suc.prems(4,5) b'(1) show ?thesis
      by (simp split: if_splits)
  qed
qed

lemma index_inv_empty: "index_inv nb ts 0 (replicate nb None)"
  by (simp add: index_inv_def)

text \<open>Lookup in a finished index is the search of the tensor list.\<close>

lemma find_spec:
  assumes inv: "index_inv nb ts (length ts) b" and nb: "nb = 2 ^ k" "k < 64" and load: "length ts < nb"
    and dist: "distinct (map t_name ts)"
  shows "k3_st_find \<lparr>st_nshard = ns, st_t = ts, st_bucket = b\<rparr> name = find (\<lambda>t. t_name t = name) ts"
proof -
  let ?hit = "\<lambda>i. t_name (ts ! i) = name" and ?s = "start_bucket nb name"
  have len: "length b = nb" using inv by (simp add: index_inv_def)
  have s: "?s < nb" by (rule start_bucket_lt [OF nb])
  obtain e where e: "e < nb" "b ! e = None" using free_bucket [OF inv load] by blast
  obtain d where d: "d < nb" "probe nb nb b ?hit ?s = Some (walk nb ?s d)" "stops b ?hit (walk nb ?s d)"
    "\<forall>d' < d. \<not> stops b ?hit (walk nb ?s d')"
    using probe_total [OF nb(1) s e] by blast
  let ?j = "walk nb ?s d"
  have result: "k3_st_find \<lparr>st_nshard = ns, st_t = ts, st_bucket = b\<rparr> name = map_option (\<lambda>k. ts ! k) (b ! ?j)"
    using d(2) len s by (simp add: k3_st_find_def Let_def)
  show ?thesis
  proof (cases "find (\<lambda>t. t_name t = name) ts")
    case None
    have "b ! ?j = None"
    proof (cases "b ! ?j")
      case (Some i)
      then have "i < length ts" using inv s len by (metis index_inv_def mod_less_divisor gr_zeroI not_less_zero nth_mem)
      then have "t_name (ts ! i) \<noteq> name" using None by (auto simp: find_None_iff)
      then show ?thesis using d(3) Some by (simp add: stops_def)
    qed
    then show ?thesis using result None by simp
  next
    case (Some t)
    then obtain i where i: "i < length ts" "ts ! i = t" "t_name t = name"
      by (auto simp: find_Some_iff)
    then obtain di where di: "di < nb" "b ! walk nb ?s di = Some i"
      "\<forall>d' < di. b ! walk nb ?s d' \<noteq> None"
      using inv by (auto simp: index_inv_def placed_def)
    have "stops b ?hit (walk nb ?s di)" using di(2) i by (simp add: stops_def)
    then have "d \<le> di" using d(4) by (meson not_less)
    then have "b ! ?j \<noteq> None" using di(2,3) by (cases "d = di") simp_all
    then obtain i' where i': "b ! ?j = Some i'" by blast
    then have "i' < length ts" using inv s len by (metis index_inv_def mod_less_divisor gr_zeroI not_less_zero nth_mem)
    moreover have "t_name (ts ! i') = name" using d(3) i' by (simp add: stops_def)
    ultimately have "i' = i" using dist i by (metis distinct_conv_nth length_map nth_map)
    then show ?thesis using result i' Some i by simp
  qed
qed

text \<open>
  The whole index of a checkpoint of at most \<open>2 ^ 29\<close> tensors: it is built exactly when the names are
  distinct, and then lookup is the search of the list.
\<close>

lemma index_tensors_spec:
  assumes "length ts \<le> 2 ^ 29"
  shows "if distinct (map t_name ts)
    then \<exists>b. index_tensors ts = Index_Ok b \<and>
      (\<forall>ns name. k3_st_find \<lparr>st_nshard = ns, st_t = ts, st_bucket = b\<rparr> name = find (\<lambda>t. t_name t = name) ts)
    else \<exists>n. index_tensors ts = Index_Duplicate n"
proof -
  define nb where "nb = bucket_count (length ts) 1024"
  have "(1024 :: nat) = 2 ^ 10" by simp
  then obtain k where k: "nb = 2 ^ k" "10 \<le> k"
    using bucket_count_pow unfolding nb_def by blast
  have "nb \<le> max 1024 (length ts * 4)" unfolding nb_def by (rule bucket_count_bound) simp
  also have "\<dots> \<le> 2 ^ 62" using assms by simp
  finally have "(2 :: nat) ^ k \<le> 2 ^ 62" using k(1) by simp
  then have k64: "k < 64" using power_le_imp_le_exp [of "2 :: nat" k 62] by simp
  have "length ts * 2 \<le> nb" unfolding nb_def by (rule bucket_count_load) simp
  moreover have "(0 :: nat) < nb" using k(1) by simp
  ultimately have load: "length ts < nb" by (cases "length ts") simp_all
  have all: "take (0 + length ts) ts = ts" by simp
  from build_index_spec [OF index_inv_empty [of nb ts] k(1) k64, of "length ts"] load
  show ?thesis
    using find_spec [OF _ k(1) k64 load] by (auto simp: index_tensors_def nb_def Let_def split: if_splits)
qed

text \<open>The buckets of a finished index name tensors of the table.\<close>

lemma build_index_range:
  "build_index nb ts i left b = Index_Ok b' \<Longrightarrow> Some k \<in> set b' \<Longrightarrow> Some k \<in> set b \<or> k < i + left"
proof (induction left arbitrary: i b)
  case (Suc left)
  then obtain b1 where b1: "insert_name nb ts b i = Index_Ok b1" "build_index nb ts (Suc i) left b1 = Index_Ok b'"
    by (auto split: index_result.splits)
  have "Some k \<in> set b1 \<Longrightarrow> Some k \<in> set b \<or> k = i"
    using b1(1) set_update_subset_insert by (fastforce simp: insert_name_def Let_def split: option.splits)
  then show ?case using Suc.IH [OF b1(2) Suc.prems(2)] by auto
qed simp

lemma index_tensors_range: "index_tensors ts = Index_Ok b \<Longrightarrow> Some k \<in> set b \<Longrightarrow> k < length ts"
  unfolding index_tensors_def Let_def by (drule (1) build_index_range) auto

section \<open>Reading\<close>

text \<open>
  A positional read loop: \<open>pread\<close> at \<open>off + got\<close> until \<open>want\<close> bytes arrived or it returns nothing. A file
  is its bytes; \<open>chunks\<close> are the sizes the kernel returns, one per call (a list that runs out, or a
  zero, is a call that returned 0 or an error); no call returns more than was asked or than there is.
\<close>

type_synonym bytes = "8 word list"

definition pread :: "bytes \<Rightarrow> nat \<Rightarrow> nat \<Rightarrow> nat \<Rightarrow> bytes" where
  "pread file n off chunk = take (min n chunk) (drop off file)"

fun read_loop :: "bytes \<Rightarrow> nat \<Rightarrow> nat \<Rightarrow> nat list \<Rightarrow> bytes \<Rightarrow> bytes" where
  "read_loop file off want [] buf = buf"
| "read_loop file off want (c # cs) buf =
     (if length buf < want then
        (let r = pread file (want - length buf) (off + length buf) c
         in if r = [] then buf else read_loop file off want cs (buf @ r))
      else buf)"

text \<open>
  The disk as one operation sees it: the content of each shard, whether the shard has a descriptor opened
  with \<open>O_DIRECT\<close>, and the sizes the kernel returns to a read loop that starts at an offset of a shard.
  Each operation takes its own disk, so a read that failed once may succeed later.
\<close>

record Disk =
  dk_file :: "int \<Rightarrow> bytes"
  dk_direct :: "int \<Rightarrow> bool"
  dk_chunks :: "int \<Rightarrow> int \<Rightarrow> nat list"

text \<open>\<open>k3_st_read\<close>: the bytes that arrived; their number is the return value.\<close>

definition k3_st_read :: "Disk \<Rightarrow> K3Tensor \<Rightarrow> bytes" where
  "k3_st_read dk t =
     read_loop (dk_file dk (t_shard t)) (nat (t_off t)) (nat (t_nbytes t)) (dk_chunks dk (t_shard t) (t_off t)) []"

definition align_down :: "int \<Rightarrow> int" where
  "align_down x = x AND NOT (K3_ST_ALIGN - 1)"

text \<open>
  The two ways \<open>k3_st_read_aligned\<close> reads from a shard: the return value, the payload offset (\<open>None\<close>: not
  written) and what was stored in the buffer.
\<close>

definition read_buffered :: "bytes \<Rightarrow> int \<Rightarrow> int \<Rightarrow> int \<Rightarrow> nat list \<Rightarrow> int \<times> int option \<times> bytes" where
  "read_buffered file off nbytes bufcap chunks =
     (if bufcap < nbytes then (0, Some 0, [])
      else let buf = read_loop file (nat off) (nat nbytes) chunks []
           in (int (length buf), Some 0, buf))"

definition read_window :: "bytes \<Rightarrow> int \<Rightarrow> int \<Rightarrow> int \<Rightarrow> nat list \<Rightarrow> int \<times> int option \<times> bytes" where
  "read_window file off nbytes bufcap chunks =
     (let lo = align_down off;
          hi = align_down (off + nbytes + K3_ST_ALIGN - 1);
          len = hi - lo;
          pad = off - lo
      in if len > bufcap then (0, None, [])
         else let buf = read_loop file (nat lo) (nat len) chunks [];
                  got = int (length buf)
              in (if got \<ge> pad + nbytes then nbytes else if got > pad then got - pad else 0,
                  Some pad, buf))"

definition k3_st_read_aligned ::
  "K3St \<Rightarrow> Disk \<Rightarrow> int \<Rightarrow> int \<Rightarrow> int \<Rightarrow> int \<Rightarrow> int \<times> int option \<times> bytes" where
  "k3_st_read_aligned s dk shard off nbytes bufcap =
     (if shard < 0 \<or> shard \<ge> st_nshard s then (0, None, [])
      else let file = dk_file dk shard in
           if \<not> dk_direct dk shard then read_buffered file off nbytes bufcap (dk_chunks dk shard off)
           else read_window file off nbytes bufcap (dk_chunks dk shard (align_down off)))"

lemma read_loop_prefix:
  assumes "\<exists>n. buf = take n (drop off file)" "length buf \<le> want"
  shows "(\<exists>n. read_loop file off want cs buf = take n (drop off file)) \<and>
    length (read_loop file off want cs buf) \<le> want"
  using assms
proof (induction cs arbitrary: buf)
  case (Cons c cs)
  let ?r = "pread file (want - length buf) (off + length buf) c"
  obtain n where n: "buf = take n (drop off file)" using Cons.prems(1) by blast
  define m where "m = length buf"
  have b: "buf = take m (drop off file)" using n by (simp add: m_def min_def)
  have "buf @ ?r = take (m + min (want - m) c) (drop off file)"
    using b by (simp add: pread_def take_add m_def add.commute)
  then have "\<exists>n. buf @ ?r = take n (drop off file)" by blast
  moreover have "length (buf @ ?r) \<le> want" using Cons.prems(2) by (simp add: pread_def)
  ultimately show ?case using Cons by (auto simp: Let_def)
qed simp

lemma align_down_eq: "align_down x = x - x mod 4096"
proof -
  have m: "K3_ST_ALIGN - 1 = mask 12" by (simp add: K3_ST_ALIGN_def mask_eq_exp_minus_1)
  have "x - take_bit 12 x = x AND NOT (take_bit 12 x)"
    by (rule disjunctive_diff_eq_and_not) (auto simp: bit_eq_iff bit_simps)
  also have "\<dots> = x AND NOT (mask 12)" by (auto simp: bit_eq_iff bit_simps)
  finally show ?thesis by (simp add: align_down_def m take_bit_eq_mod)
qed

text \<open>The window of a direct read is aligned and covers the payload, with less than a page on each side.\<close>

lemma window_bounds:
  fixes off nbytes :: int
  assumes "0 \<le> nbytes"
  defines "lo \<equiv> align_down off" and "hi \<equiv> align_down (off + nbytes + K3_ST_ALIGN - 1)"
  shows "lo mod 4096 = 0 \<and> hi mod 4096 = 0 \<and> lo \<le> off \<and> off < lo + 4096 \<and>
    off + nbytes \<le> hi \<and> hi < off + nbytes + 4096"
proof -
  have "lo mod 4096 = 0" "hi mod 4096 = 0"
    unfolding lo_def hi_def align_down_eq by (simp_all add: mod_diff_right_eq flip: minus_mod_eq_mult_div)
  moreover have "0 \<le> off mod 4096" "off mod 4096 < 4096"
    "0 \<le> (off + nbytes + 4095) mod 4096" "(off + nbytes + 4095) mod 4096 < 4096" by simp_all
  ultimately show ?thesis
    unfolding lo_def hi_def align_down_eq K3_ST_ALIGN_def by auto
qed

text \<open>A full return value means the payload is in the buffer at the offset reported, byte for byte.\<close>

definition holds_payload :: "bytes \<Rightarrow> int \<Rightarrow> int \<Rightarrow> int \<Rightarrow> int option \<Rightarrow> bytes \<Rightarrow> bool" where
  "holds_payload file off nbytes cap pad buf \<longleftrightarrow>
     (\<exists>p. pad = Some p \<and> 0 \<le> p \<and> p < 4096 \<and> int (length buf) \<le> cap \<and>
       nat p + nat nbytes \<le> length buf \<and>
       take (nat nbytes) (drop (nat p) buf) = take (nat nbytes) (drop (nat off) file))"

lemma read_loop_slice:
  "(\<exists>n. read_loop file off want cs [] = take n (drop off file)) \<and> length (read_loop file off want cs []) \<le> want"
  by (rule read_loop_prefix) (auto intro: exI [of _ 0])

lemma read_loop_full:
  assumes "length (read_loop file off want cs []) = want"
  shows "read_loop file off want cs [] = take want (drop off file)"
  using read_loop_slice [of "file" off want cs] assms by (metis length_take min.cobounded1 take_all take_take min.absorb2 min_def)

lemma read_buffered_payload:
  assumes "read_buffered file off nbytes cap chunks = (nbytes, pad, buf)" "0 < nbytes"
  shows "holds_payload file off nbytes cap pad buf"
proof -
  define b where "b = read_loop file (nat off) (nat nbytes) chunks []"
  from assms have r: "buf = b" "pad = Some 0" "int (length b) = nbytes" "nbytes \<le> cap"
    by (auto simp: read_buffered_def b_def Let_def split: if_splits)
  then have "b = take (nat nbytes) (drop (nat off) file)"
    unfolding b_def by (intro read_loop_full) (simp add: b_def [symmetric])
  then show ?thesis using r by (auto simp: holds_payload_def)
qed

lemma read_window_payload:
  assumes run: "read_window file off nbytes cap chunks = (nbytes, pad, buf)" and "0 < nbytes" "0 \<le> off"
  shows "holds_payload file off nbytes cap pad buf"
proof -
  define lo where "lo = align_down off"
  define len where "len = align_down (off + nbytes + K3_ST_ALIGN - 1) - lo"
  define b where "b = read_loop file (nat lo) (nat len) chunks []"
  have w: "lo \<le> off" "off < lo + 4096"
    using window_bounds [of nbytes off] assms(2) by (auto simp: lo_def)
  have lo0: "0 \<le> lo"
    using assms(3) zmod_le_nonneg_dividend [of off 4096] by (simp add: lo_def align_down_eq)
  have b: "(\<exists>n. b = take n (drop (nat lo) file)) \<and> length b \<le> nat len"
    unfolding b_def by (rule read_loop_slice)
  from run assms(2) have r: "buf = b" "pad = Some (off - lo)" "len \<le> cap" "off - lo + nbytes \<le> int (length b)"
    by (auto simp: read_window_def b_def len_def lo_def Let_def split: if_splits)
  obtain n where n: "b = take n (drop (nat lo) file)" using b by blast
  have "nat off = nat lo + nat (off - lo)" using w(1) lo0 by simp
  then have "drop (nat (off - lo)) b = take (n - nat (off - lo)) (drop (nat off) file)"
    unfolding n by (simp add: drop_take add.commute)
  moreover have "nat (off - lo) + nat nbytes \<le> n"
    using r(4) w assms(2) unfolding n by (simp add: nat_le_iff)
  ultimately have "take (nat nbytes) (drop (nat (off - lo)) b) = take (nat nbytes) (drop (nat off) file)"
    by (simp add: min_def)
  moreover have "int (length b) \<le> cap" "nat (off - lo) + nat nbytes \<le> length b"
    using b r(3,4) w assms(2) by linarith+
  ultimately show ?thesis using r w by (auto simp: holds_payload_def)
qed

lemma read_aligned_payload:
  assumes "k3_st_read_aligned s dk shard off nbytes cap = (nbytes, pad, buf)" "0 < nbytes" "0 \<le> off"
  shows "holds_payload (dk_file dk shard) off nbytes cap pad buf"
  using assms read_buffered_payload read_window_payload
  by (auto simp: k3_st_read_aligned_def Let_def split: if_splits)

text \<open>What arrives never exceeds the buffer, whatever the return value.\<close>

lemma read_loop_fits: "int want \<le> cap \<Longrightarrow> int (length (read_loop file off want cs [])) \<le> cap"
  using read_loop_slice [of "file" off want cs] by linarith

lemma read_buffered_fits:
  "read_buffered file off nbytes cap cs = (got, pad, buf) \<Longrightarrow> 0 \<le> nbytes \<Longrightarrow> 0 \<le> cap \<Longrightarrow>
   int (length buf) \<le> cap"
  by (auto simp: read_buffered_def Let_def read_loop_fits split: if_splits)

lemma read_window_fits:
  assumes "read_window file off nbytes cap cs = (got, pad, buf)" "0 \<le> nbytes" "0 \<le> cap"
  shows "int (length buf) \<le> cap"
proof -
  define len where "len = align_down (off + nbytes + K3_ST_ALIGN - 1) - align_down off"
  have "0 \<le> len" using window_bounds [OF assms(2), of off] assms(2) unfolding len_def by linarith
  then have "int (length (read_loop file o' (nat len) cs [])) \<le> cap" if "len \<le> cap" for o'
    using that by (simp add: read_loop_fits)
  then show ?thesis
    using assms(1,3) by (auto simp: read_window_def Let_def len_def [symmetric] split: if_splits)
qed

lemma read_aligned_fits:
  assumes "k3_st_read_aligned s dk shard off nbytes cap = (got, pad, buf)" "0 \<le> nbytes" "0 \<le> cap"
  shows "int (length buf) \<le> cap"
  using assms read_buffered_fits read_window_fits
  by (auto simp: k3_st_read_aligned_def Let_def split: if_splits)

end
