(* ===== verification/K3_Load.thy ===== *)
theory K3_Load
  imports K3_Store
begin

text \<open>
  The resolution and loading of one routed expert, \<open>src/io/k3_load.c\<close>: six tensors are looked up by name,
  their geometry is checked, their place in one byte run is computed, and the run is filled by one read
  when the tensors lie together in the file and by six otherwise.
\<close>

section \<open>Geometry\<close>

record K3QMat =
  p_off :: int
  p_bytes :: int
  s_off :: int
  s_bytes :: int
  qm_rows :: int
  qm_pcols :: int
  qm_scols :: int

record K3ExpertRef =
  er_layer :: int
  er_expert :: int
  er_shard :: int
  er_off :: int
  er_nbytes :: int
  er_contiguous :: bool
  er_m :: "K3QMat list"

definition K3_MXFP4_GROUP :: int where "K3_MXFP4_GROUP = 32"

text \<open>A conversion of \<open>int64_t\<close> to \<open>int\<close> keeps the low 32 bits.\<close>

definition to_int :: "int \<Rightarrow> int" where
  "to_int x = sint (word_of_int x :: 32 word)"

definition k3_qmat_numel :: "K3QMat \<Rightarrow> int" where
  "k3_qmat_numel m = qm_rows m * qm_pcols m * 2"

definition expert_name :: "int \<Rightarrow> int \<Rightarrow> cstr \<Rightarrow> cstr \<Rightarrow> cstr" where
  "expert_name layer expert w part =
     snprintf_s 256 (''language_model.model.layers.'' @ show_int layer @ ''.block_sparse_moe.experts.'' @
       show_int expert @ ''.'' @ w @ ''.'' @ part)"

text \<open>The two tensors of matrix \<open>w\<close>: packed nibbles and scales.\<close>

type_synonym qpair = "K3Tensor \<times> K3Tensor"

definition find_pair :: "K3St \<Rightarrow> int \<Rightarrow> int \<Rightarrow> cstr \<Rightarrow> qpair option" where
  "find_pair s layer expert w =
     (case k3_st_find s (expert_name layer expert w ''weight_packed'') of
        None \<Rightarrow> None
      | Some p \<Rightarrow> map_option (Pair p) (k3_st_find s (expert_name layer expert w ''weight_scale'')))"

definition pair_ok :: "qpair \<Rightarrow> bool" where
  "pair_ok = (\<lambda>(p, c).
     t_dtype p = K3_DT_U8 \<and> t_dtype c = K3_DT_U8 \<and>
     length (t_shape p) = 2 \<and> length (t_shape c) = 2 \<and>
     t_shape p ! 0 = t_shape c ! 0 \<and>
     t_shape c ! 1 * K3_MXFP4_GROUP = t_shape p ! 1 * 2 \<and>
     t_shard p = t_shard c)"

text \<open>The loop over \<open>w1\<close>, \<open>w2\<close>, \<open>w3\<close>; every matrix after the first must be in the shard of the first.\<close>

fun resolve_pairs :: "K3St \<Rightarrow> int \<Rightarrow> int \<Rightarrow> cstr list \<Rightarrow> qpair list \<Rightarrow> qpair list option" where
  "resolve_pairs s layer expert [] acc = Some acc"
| "resolve_pairs s layer expert (w # ws) acc =
     (case find_pair s layer expert w of
        None \<Rightarrow> None
      | Some pc \<Rightarrow>
          if \<not> pair_ok pc then None
          else if acc \<noteq> [] \<and> t_shard (fst pc) \<noteq> t_shard (fst (hd acc)) then None
          else resolve_pairs s layer expert ws (acc @ [pc]))"

definition qmat_of :: "qpair \<Rightarrow> K3QMat" where
  "qmat_of = (\<lambda>(p, c).
     \<lparr>p_off = 0, p_bytes = t_nbytes p, s_off = 0, s_bytes = t_nbytes c,
      qm_rows = to_int (t_shape p ! 0), qm_pcols = to_int (t_shape p ! 1), qm_scols = to_int (t_shape c ! 1)\<rparr>)"

definition all_six :: "qpair list \<Rightarrow> K3Tensor list" where
  "all_six pcs = concat (map (\<lambda>(p, c). [p, c]) pcs)"

definition span_of :: "int \<Rightarrow> K3Tensor list \<Rightarrow> int \<times> int \<times> int" where
  "span_of lo0 ts =
     fold (\<lambda>t (lo, hi, own).
       (if t_off t < lo then t_off t else lo,
        if t_off t + t_nbytes t > hi then t_off t + t_nbytes t else hi,
        own + t_nbytes t)) ts (lo0, 0, 0)"

definition relative :: "int \<Rightarrow> qpair \<Rightarrow> K3QMat" where
  "relative lo pc = (qmat_of pc)\<lparr>p_off := t_off (fst pc) - lo, s_off := t_off (snd pc) - lo\<rparr>"

fun pack :: "int \<Rightarrow> qpair list \<Rightarrow> K3QMat list \<times> int" where
  "pack o0 [] = ([], o0)"
| "pack o0 (pc # pcs) =
     (let m = qmat_of pc;
          o1 = o0 + p_bytes m;
          o2 = o1 + s_bytes m;
          (ms, o3) = pack o2 pcs
      in (m\<lparr>p_off := o0, s_off := o1\<rparr> # ms, o3))"

definition W :: "cstr list" where "W = [''w1'', ''w2'', ''w3'']"

definition layout :: "int \<Rightarrow> int \<Rightarrow> qpair list \<Rightarrow> K3ExpertRef" where
  "layout layer expert pcs =
     (let (lo, hi, own) = span_of (t_off (fst (hd pcs))) (all_six pcs);
          contiguous = (hi - lo = own);
          (packed, tot) = pack 0 pcs
      in \<lparr>er_layer = layer, er_expert = expert, er_shard = t_shard (fst (hd pcs)), er_off = lo,
          er_nbytes = (if contiguous then own else tot), er_contiguous = contiguous,
          er_m = (if contiguous then map (relative lo) pcs else packed)\<rparr>)"

definition k3_expert_ref :: "K3St \<Rightarrow> int \<Rightarrow> int \<Rightarrow> K3ExpertRef option" where
  "k3_expert_ref s layer expert = map_option (layout layer expert) (resolve_pairs s layer expert W [])"

section \<open>Loading\<close>

text \<open>A store of bytes into a buffer at an offset. Callers keep it inside; see the bounds below.\<close>

definition splice :: "bytes \<Rightarrow> nat \<Rightarrow> bytes \<Rightarrow> bytes" where
  "splice buf o' bs = take o' buf @ bs @ drop (o' + length bs) buf"

definition expert_run :: "K3ExpertRef \<Rightarrow> K3Tensor" where
  "expert_run r = \<lparr>t_name = ''expert'', t_shard = er_shard r, t_dtype = K3_DT_U8, t_shape = [er_nbytes r],
     t_off = er_off r, t_nbytes = er_nbytes r\<rparr>"

fun load_scattered ::
  "K3St \<Rightarrow> Disk \<Rightarrow> K3ExpertRef \<Rightarrow> (cstr \<times> K3QMat) list \<Rightarrow> int \<Rightarrow> bytes \<Rightarrow> int \<times> bytes" where
  "load_scattered s dk r [] got buf = (got, buf)"
| "load_scattered s dk r ((w, m) # rest) got buf =
     (case find_pair s (er_layer r) (er_expert r) w of
        None \<Rightarrow> (got, buf)
      | Some (p, c) \<Rightarrow>
          let b1 = k3_st_read dk p; b2 = k3_st_read dk c;
              buf1 = splice buf (nat (p_off m)) b1;
              buf2 = splice buf1 (nat (s_off m)) b2
          in load_scattered s dk r rest (got + int (length b1) + int (length b2)) buf2)"

text \<open>\<open>k3_expert_load\<close>: the return value and the buffer afterwards.\<close>

definition k3_expert_load :: "K3St \<Rightarrow> Disk \<Rightarrow> K3ExpertRef \<Rightarrow> bytes \<Rightarrow> int \<times> bytes" where
  "k3_expert_load s dk r buf =
     (if er_contiguous r then
        let b = k3_st_read dk (expert_run r) in (int (length b), splice buf 0 b)
      else load_scattered s dk r (zip W (er_m r)) 0 buf)"

text \<open>\<open>k3_expert_load_direct\<close>: additionally the payload offset, which starts as 0 in every caller.\<close>

definition k3_expert_load_direct :: "K3St \<Rightarrow> Disk \<Rightarrow> K3ExpertRef \<Rightarrow> bytes \<Rightarrow> int \<Rightarrow> int \<times> int \<times> bytes" where
  "k3_expert_load_direct s dk r buf bufcap =
     (if \<not> er_contiguous r then
        let (got, buf') = k3_expert_load s dk r buf in (got, 0, buf')
      else let (got, pad, b) = k3_st_read_aligned s dk (er_shard r) (er_off r) (er_nbytes r) bufcap
           in (got, case pad of None \<Rightarrow> 0 | Some p \<Rightarrow> p, splice buf 0 b))"

lemma relative_sel [simp]:
  "p_off (relative lo pc) = t_off (fst pc) - lo" "s_off (relative lo pc) = t_off (snd pc) - lo"
  "p_bytes (relative lo pc) = t_nbytes (fst pc)" "s_bytes (relative lo pc) = t_nbytes (snd pc)"
  by (simp_all add: relative_def qmat_of_def split: prod.splits)

section \<open>Every matrix lies inside the run\<close>

definition sane :: "K3Tensor \<Rightarrow> bool" where
  "sane t \<longleftrightarrow> 0 \<le> t_off t \<and> 0 \<le> t_nbytes t"

definition qmat_inside :: "int \<Rightarrow> K3QMat \<Rightarrow> bool" where
  "qmat_inside n m \<longleftrightarrow> 0 \<le> p_off m \<and> p_off m + p_bytes m \<le> n \<and> 0 \<le> s_off m \<and> s_off m + s_bytes m \<le> n \<and>
     0 \<le> p_bytes m \<and> 0 \<le> s_bytes m"

lemma span_of_fold:
  "fold (\<lambda>t (lo, hi, own).
      (if t_off t < lo then t_off t else lo,
       if t_off t + t_nbytes t > hi then t_off t + t_nbytes t else hi, own + t_nbytes t)) ts (lo0, hi0, own0)
   = (lo, hi, own) \<Longrightarrow>
   lo \<le> lo0 \<and> hi0 \<le> hi \<and> own = own0 + (\<Sum>t\<leftarrow>ts. t_nbytes t) \<and>
   (\<forall>t\<in>set ts. lo \<le> t_off t \<and> t_off t + t_nbytes t \<le> hi) \<and> (lo = lo0 \<or> (\<exists>t\<in>set ts. lo = t_off t))"
proof (induction ts arbitrary: lo0 hi0 own0)
  case (Cons t ts)
  from Cons.prems show ?case by (auto dest!: Cons.IH split: if_splits)
qed simp

lemma span_of_spec:
  assumes "span_of lo0 ts = (lo, hi, own)"
  shows "own = (\<Sum>t\<leftarrow>ts. t_nbytes t)" "lo = lo0 \<or> (\<exists>t\<in>set ts. lo = t_off t)"
    "\<And>t. t \<in> set ts \<Longrightarrow> lo \<le> t_off t \<and> t_off t + t_nbytes t \<le> hi"
  using span_of_fold [OF assms [unfolded span_of_def]] by auto

lemma span_of_hi:
  assumes "span_of lo0 ts = (lo, hi, own)" "\<forall>t\<in>set ts. t_off t + t_nbytes t \<le> b" "0 \<le> b"
  shows "hi \<le> b"
proof -
  have "hi \<le> b" if "fold (\<lambda>t (lo, hi, own).
      (if t_off t < lo then t_off t else lo,
       if t_off t + t_nbytes t > hi then t_off t + t_nbytes t else hi, own + t_nbytes t)) xs (l, h, w) = (lo, hi, own)"
    "h \<le> b" "\<forall>t\<in>set xs. t_off t + t_nbytes t \<le> b" for xs l h w
    using that by (induction xs arbitrary: l h w) (auto split: if_splits)
  then show ?thesis using assms unfolding span_of_def by blast
qed

lemma sum_pairs: "(\<Sum>t\<leftarrow>all_six pcs. t_nbytes t) = (\<Sum>(p, c)\<leftarrow>pcs. t_nbytes p + t_nbytes c)"
  by (induction pcs) (auto simp: all_six_def)

lemma pack_inside:
  "pack o0 pcs = (ms, tot) \<Longrightarrow> \<forall>(p, c)\<in>set pcs. 0 \<le> t_nbytes p \<and> 0 \<le> t_nbytes c \<Longrightarrow> 0 \<le> o0 \<Longrightarrow>
   tot = o0 + (\<Sum>(p, c)\<leftarrow>pcs. t_nbytes p + t_nbytes c) \<and> o0 \<le> tot \<and> (\<forall>m\<in>set ms. qmat_inside tot m)"
proof (induction pcs arbitrary: o0 ms)
  case (Cons pc pcs)
  obtain p c where pc: "pc = (p, c)" by fastforce
  obtain ms' where ms': "pack (o0 + t_nbytes p + t_nbytes c) pcs = (ms', tot)"
    "ms = (qmat_of pc)\<lparr>p_off := o0, s_off := o0 + t_nbytes p\<rparr> # ms'"
    using Cons.prems(1) by (auto simp: pc Let_def qmat_of_def split: prod.splits)
  have nn: "0 \<le> t_nbytes p" "0 \<le> t_nbytes c" using Cons.prems(2) by (auto simp: pc)
  from Cons.IH [OF ms'(1)] Cons.prems(2,3) nn
  show ?case by (auto simp: ms'(2) pc qmat_inside_def qmat_of_def)
qed simp

lemma resolve_pairs_ConsD:
  "resolve_pairs s layer expert (w # ws) acc = Some pcs \<Longrightarrow>
   \<exists>pc. find_pair s layer expert w = Some pc \<and> pair_ok pc \<and>
     (acc \<noteq> [] \<longrightarrow> t_shard (fst pc) = t_shard (fst (hd acc))) \<and>
     resolve_pairs s layer expert ws (acc @ [pc]) = Some pcs"
  by (cases "find_pair s layer expert w") (auto split: if_splits)

lemma resolve_pairs_ok:
  "resolve_pairs s layer expert ws acc = Some pcs \<Longrightarrow>
   \<exists>new. pcs = acc @ new \<and> length new = length ws \<and>
     (\<forall>i < length ws. find_pair s layer expert (ws ! i) = Some (new ! i) \<and> pair_ok (new ! i))"
proof (induction ws arbitrary: acc)
  case (Cons w ws)
  from Cons.prems obtain pc where pc: "find_pair s layer expert w = Some pc" "pair_ok pc"
    "resolve_pairs s layer expert ws (acc @ [pc]) = Some pcs"
    using resolve_pairs_ConsD by metis
  from Cons.IH [OF pc(3)] obtain new where new: "pcs = (acc @ [pc]) @ new" "length new = length ws"
    "\<forall>i < length ws. find_pair s layer expert (ws ! i) = Some (new ! i) \<and> pair_ok (new ! i)" by blast
  have "\<forall>i < length (w # ws). find_pair s layer expert ((w # ws) ! i) = Some ((pc # new) ! i) \<and>
    pair_ok ((pc # new) ! i)"
    using new(3) pc(1,2) by (auto simp: nth_Cons split: nat.splits)
  then show ?case using new(1,2) by (intro exI [of _ "pc # new"]) simp
qed simp

lemma resolve_pairs_shard:
  "resolve_pairs s layer expert ws acc = Some pcs \<Longrightarrow> acc \<noteq> [] \<Longrightarrow>
   \<forall>pc\<in>set acc. t_shard (fst pc) = sh \<Longrightarrow> \<forall>pc\<in>set pcs. t_shard (fst pc) = sh"
proof (induction ws arbitrary: acc)
  case (Cons w ws)
  from Cons.prems(1,2) obtain pc where pc: "t_shard (fst pc) = t_shard (fst (hd acc))"
    "resolve_pairs s layer expert ws (acc @ [pc]) = Some pcs"
    using resolve_pairs_ConsD by metis
  show ?case by (rule Cons.IH [OF pc(2)]) (use Cons.prems(2,3) pc(1) in simp_all)
qed simp

lemma resolve_pairs_first:
  "resolve_pairs s layer expert (w # ws) [] = Some pcs \<Longrightarrow> \<exists>pc. resolve_pairs s layer expert ws [pc] = Some pcs"
  using resolve_pairs_ConsD by fastforce

text \<open>What a resolved expert is, in one rule.\<close>

lemma expert_refE:
  assumes "k3_expert_ref s layer expert = Some r"
  obtains pcs where "r = layout layer expert pcs" "length pcs = 3"
    "\<And>i. i < 3 \<Longrightarrow> find_pair s layer expert (W ! i) = Some (pcs ! i) \<and> pair_ok (pcs ! i)"
    "\<And>pc. pc \<in> set pcs \<Longrightarrow> t_shard (fst pc) = er_shard r \<and> t_shard (snd pc) = er_shard r"
proof -
  from assms obtain pcs where pcs: "resolve_pairs s layer expert W [] = Some pcs" "r = layout layer expert pcs"
    by (auto simp: k3_expert_ref_def)
  from resolve_pairs_ok [OF pcs(1)] have all: "length pcs = 3"
    "\<forall>i < 3. find_pair s layer expert (W ! i) = Some (pcs ! i) \<and> pair_ok (pcs ! i)"
    by (auto simp: W_def numeral_3_eq_3)
  obtain pc0 where "resolve_pairs s layer expert [''w2'', ''w3''] [pc0] = Some pcs"
    using resolve_pairs_first pcs(1) unfolding W_def by blast
  from resolve_pairs_shard [OF this] have sh: "\<forall>pc\<in>set pcs. t_shard (fst pc) = t_shard (fst pc0)"
    by simp
  moreover have "hd pcs \<in> set pcs" using all(1) by (cases pcs) auto
  ultimately have shard: "\<forall>pc\<in>set pcs. t_shard (fst pc) = t_shard (fst (hd pcs))" by metis
  have er: "er_shard r = t_shard (fst (hd pcs))"
    by (simp add: pcs(2) layout_def Let_def split: prod.splits)
  have "t_shard (fst pc) = er_shard r \<and> t_shard (snd pc) = er_shard r" if mem: "pc \<in> set pcs" for pc
  proof -
    obtain i where "i < 3" "pc = pcs ! i" using mem all(1) by (metis in_set_conv_nth)
    then have "pair_ok pc" using all(2) by simp
    then show ?thesis using shard mem er by (auto simp: pair_ok_def split: prod.splits)
  qed
  then show thesis using that [OF pcs(2) all(1)] all(2) by blast
qed

lemma mem_all_six: "pc \<in> set pcs \<Longrightarrow> fst pc \<in> set (all_six pcs) \<and> snd pc \<in> set (all_six pcs)"
  by (induction pcs) (auto simp: all_six_def)

lemma layout_inside:
  assumes sane: "\<forall>pc\<in>set pcs. sane (fst pc) \<and> sane (snd pc)" and "pcs \<noteq> []"
    and r: "r = layout layer expert pcs"
  shows "(\<forall>m\<in>set (er_m r). qmat_inside (er_nbytes r) m) \<and> 0 \<le> er_off r \<and> 0 \<le> er_nbytes r"
proof -
  obtain lo hi own where sp: "span_of (t_off (fst (hd pcs))) (all_six pcs) = (lo, hi, own)"
    by (metis prod.exhaust)
  obtain ms tot where pk: "pack 0 pcs = (ms, tot)" by fastforce
  have nn: "\<forall>(p, c)\<in>set pcs. 0 \<le> t_nbytes p \<and> 0 \<le> t_nbytes c" using sane by (auto simp: sane_def)
  note pi0 = pack_inside [OF pk nn order_refl]
  then have pi: "\<forall>m\<in>set ms. qmat_inside tot m" "0 \<le> tot" by blast+
  have pi3: "tot = (\<Sum>(p, c)\<leftarrow>pcs. t_nbytes p + t_nbytes c)" using pi0 by simp
  have own: "own = tot" using span_of_spec(1) [OF sp] sum_pairs pi3 by simp
  have hd: "hd pcs \<in> set pcs" using assms(2) by simp
  have "\<forall>t\<in>set (all_six pcs). 0 \<le> t_off t" using sane by (auto simp: all_six_def sane_def)
  then have lo0: "0 \<le> lo" using span_of_spec(2) [OF sp] sane hd by (auto simp: sane_def)
  have rel: "qmat_inside (hi - lo) (relative lo pc)" if "pc \<in> set pcs" for pc
    using span_of_spec(3) [OF sp, of "fst pc"] span_of_spec(3) [OF sp, of "snd pc"] mem_all_six [OF that]
      sane that by (auto simp: qmat_inside_def sane_def)
  show ?thesis
    using pi rel lo0 own by (auto simp: r layout_def sp pk Let_def)
qed

section \<open>A full load serves the six tensors\<close>

definition slice :: "bytes \<Rightarrow> int \<Rightarrow> int \<Rightarrow> bytes" where
  "slice b o' n = take (nat n) (drop (nat o') b)"

text \<open>The buffer holds both tensors of a matrix where its geometry says.\<close>

definition serves :: "(int \<Rightarrow> bytes) \<Rightarrow> bytes \<Rightarrow> int \<Rightarrow> K3QMat \<Rightarrow> qpair \<Rightarrow> bool" where
  "serves file buf pad m pc \<longleftrightarrow>
     slice buf (pad + p_off m) (p_bytes m) = slice (file (t_shard (fst pc))) (t_off (fst pc)) (t_nbytes (fst pc)) \<and>
     slice buf (pad + s_off m) (s_bytes m) = slice (file (t_shard (snd pc))) (t_off (snd pc)) (t_nbytes (snd pc))"

lemma length_splice: "o' + length bs \<le> length buf \<Longrightarrow> length (splice buf o' bs) = length buf"
  by (simp add: splice_def)

lemma take_splice: "n \<le> o' \<Longrightarrow> o' + length bs \<le> length buf \<Longrightarrow> take n (splice buf o' bs) = take n buf"
  by (simp add: splice_def min_def)

lemma slice_splice: "0 \<le> o' \<Longrightarrow> nat o' + length bs \<le> length buf \<Longrightarrow> slice (splice buf (nat o') bs) o' (int (length bs)) = bs"
  by (simp add: slice_def splice_def)

lemma slice_prefix:
  assumes "take m b = take m b'" "0 \<le> o'" "0 \<le> n" "nat (o' + n) \<le> m"
  shows "slice b o' n = slice b' o' n"
proof -
  have "take (nat n) (drop (nat o') c) = drop (nat o') (take (nat (o' + n)) c)" for c :: bytes
    using assms(2,3) by (simp add: drop_take nat_add_distrib)
  moreover have "take (nat (o' + n)) b = take (nat (o' + n)) b'"
    using assms(1,4) by (metis min.absorb1 take_take)
  ultimately show ?thesis by (simp add: slice_def)
qed

lemma slice_slice:
  assumes "slice b x n = slice f y n" "0 \<le> d" "0 \<le> k" "d + k \<le> n" "0 \<le> x" "0 \<le> y"
  shows "slice b (x + d) k = slice f (y + d) k"
proof -
  have "slice c (z + d) k = slice (slice c z n) d k" if "0 \<le> z" for c z
  proof -
    have "nat k \<le> nat n - nat d" using assms(2-4) by linarith
    then show ?thesis using that assms(2)
      by (simp add: slice_def drop_take nat_add_distrib add.commute min_def)
  qed
  then show ?thesis using assms(1,5,6) by simp
qed

lemma st_read_bounds: "length (k3_st_read dk t) \<le> nat (t_nbytes t)"
  using read_loop_slice unfolding k3_st_read_def by blast

lemma st_read_full:
  "int (length (k3_st_read dk t)) = t_nbytes t \<Longrightarrow> k3_st_read dk t = slice (dk_file dk (t_shard t)) (t_off t) (t_nbytes t)"
  using read_loop_full unfolding k3_st_read_def slice_def by (metis nat_int)

text \<open>The six reads of a scattered expert: each fills its own part, and what is below stays.\<close>

lemma load_scattered_step:
  fixes dk :: Disk and o0 :: int
  assumes "sane p" "sane c" "0 \<le> o0" "o0 + t_nbytes p + t_nbytes c \<le> int (length buf)"
  defines "b1 \<equiv> k3_st_read dk p" and "b2 \<equiv> k3_st_read dk c"
  defines "buf2 \<equiv> splice (splice buf (nat o0) b1) (nat (o0 + t_nbytes p)) b2"
  shows "length buf2 = length buf" "take (nat o0) buf2 = take (nat o0) buf"
    "int (length b1) \<le> t_nbytes p" "int (length b2) \<le> t_nbytes c"
    "int (length b1) = t_nbytes p \<Longrightarrow> slice buf2 o0 (t_nbytes p) = slice (dk_file dk (t_shard p)) (t_off p) (t_nbytes p)"
    "int (length b2) = t_nbytes c \<Longrightarrow>
       slice buf2 (o0 + t_nbytes p) (t_nbytes c) = slice (dk_file dk (t_shard c)) (t_off c) (t_nbytes c)"
proof -
  have nn: "0 \<le> t_nbytes p" "0 \<le> t_nbytes c" using assms(1,2) by (simp_all add: sane_def)
  let ?buf1 = "splice buf (nat o0) b1"
  show le: "int (length b1) \<le> t_nbytes p" "int (length b2) \<le> t_nbytes c"
    using st_read_bounds [of dk p] st_read_bounds [of dk c] nn unfolding b1_def b2_def by linarith+
  have in1: "nat o0 + length b1 \<le> length buf" using le nn assms(3,4) by linarith
  have len1: "length ?buf1 = length buf" by (rule length_splice [OF in1])
  have in2: "nat (o0 + t_nbytes p) + length b2 \<le> length ?buf1" using le nn assms(3,4) len1 by linarith
  show "length buf2 = length buf" unfolding buf2_def using length_splice [OF in2] len1 by simp
  have pre: "take n buf2 = take n ?buf1" if "n \<le> nat (o0 + t_nbytes p)" for n
    unfolding buf2_def by (rule take_splice [OF that in2])
  show "take (nat o0) buf2 = take (nat o0) buf"
    using pre [of "nat o0"] take_splice [OF order_refl in1] nn by simp
  show "slice buf2 o0 (t_nbytes p) = slice (dk_file dk (t_shard p)) (t_off p) (t_nbytes p)"
    if full: "int (length b1) = t_nbytes p"
  proof -
    have "slice buf2 o0 (t_nbytes p) = slice ?buf1 o0 (t_nbytes p)"
      by (rule slice_prefix [OF pre [OF order_refl] assms(3) nn(1) order_refl])
    also have "\<dots> = b1" using slice_splice [OF assms(3) in1] full by simp
    also have "\<dots> = slice (dk_file dk (t_shard p)) (t_off p) (t_nbytes p)"
      using st_read_full full unfolding b1_def by blast
    finally show ?thesis .
  qed
  show "slice buf2 (o0 + t_nbytes p) (t_nbytes c) = slice (dk_file dk (t_shard c)) (t_off c) (t_nbytes c)"
    if full: "int (length b2) = t_nbytes c"
  proof -
    have "slice buf2 (o0 + t_nbytes p) (t_nbytes c) = b2"
      unfolding buf2_def using slice_splice [OF _ in2] full assms(3) nn(1) by simp
    then show ?thesis using st_read_full full unfolding b2_def by metis
  qed
qed

lemma load_scattered_ok:
  assumes "pack o0 pcs = (ms, tot)" "length ws = length pcs" "0 \<le> o0" "tot \<le> int (length buf)"
    and "\<forall>i < length pcs. find_pair s (er_layer r) (er_expert r) (ws ! i) = Some (pcs ! i)"
    and "\<forall>pc\<in>set pcs. sane (fst pc) \<and> sane (snd pc)"
    and "load_scattered s dk r (zip ws ms) g0 buf = (got, buf')"
  shows "length buf' = length buf \<and> take (nat o0) buf' = take (nat o0) buf \<and> got \<le> g0 + (tot - o0) \<and>
    (got = g0 + (tot - o0) \<longrightarrow> (\<forall>i < length pcs. serves (dk_file dk) buf' 0 (ms ! i) (pcs ! i)))"
  using assms
proof (induction pcs arbitrary: o0 ms ws g0 buf)
  case (Cons pc pcs)
  obtain p c where pc: "pc = (p, c)" by fastforce
  obtain w ws' where ws: "ws = w # ws'" using Cons.prems(2) by (cases ws) auto
  let ?o1 = "o0 + t_nbytes p" let ?o2 = "?o1 + t_nbytes c"
  obtain ms' where ms: "pack ?o2 pcs = (ms', tot)" "ms = (qmat_of pc)\<lparr>p_off := o0, s_off := ?o1\<rparr> # ms'"
    using Cons.prems(1) by (auto simp: pc Let_def qmat_of_def split: prod.splits)
  let ?b1 = "k3_st_read dk p" and ?b2 = "k3_st_read dk c"
  let ?buf2 = "splice (splice buf (nat o0) ?b1) (nat ?o1) ?b2"
  have sane: "sane p" "sane c" using Cons.prems(6) by (auto simp: pc)
  then have nn: "0 \<le> t_nbytes p" "0 \<le> t_nbytes c" by (simp_all add: sane_def)
  have o2: "0 \<le> ?o2" using nn Cons.prems(3) by simp
  have nn2: "\<forall>(p, c)\<in>set pcs. 0 \<le> t_nbytes p \<and> 0 \<le> t_nbytes c" using Cons.prems(6) by (auto simp: sane_def)
  have tot: "?o2 \<le> tot" using pack_inside [OF ms(1) nn2 o2] by simp
  note st = load_scattered_step [OF sane Cons.prems(3), of buf dk]
  have fits: "?o2 \<le> int (length buf)" using tot Cons.prems(4) by simp
  note st = st [OF fits]
  have "find_pair s (er_layer r) (er_expert r) w = Some (p, c)"
    using Cons.prems(5) [THEN spec, of 0] by (simp add: ws pc)
  then have run: "load_scattered s dk r (zip ws' ms') (g0 + int (length ?b1) + int (length ?b2)) ?buf2 = (got, buf')"
    using Cons.prems(7) by (simp add: ws ms(2) pc qmat_of_def Let_def)
  have "\<forall>i < length pcs. find_pair s (er_layer r) (er_expert r) (ws' ! i) = Some (pcs ! i)"
  proof (intro allI impI)
    fix i assume "i < length pcs"
    then show "find_pair s (er_layer r) (er_expert r) (ws' ! i) = Some (pcs ! i)"
      using Cons.prems(5) [THEN spec, of "Suc i"] by (simp add: ws)
  qed
  from Cons.IH [OF ms(1) _ o2 _ this _ run] Cons.prems(2,4,6) st(1)
  have rest: "length buf' = length ?buf2" "take (nat ?o2) buf' = take (nat ?o2) ?buf2"
    "got \<le> g0 + int (length ?b1) + int (length ?b2) + (tot - ?o2)"
    "got = g0 + int (length ?b1) + int (length ?b2) + (tot - ?o2) \<Longrightarrow>
       \<forall>i < length pcs. serves (dk_file dk) buf' 0 (ms' ! i) (pcs ! i)"
    by (auto simp: ws)
  have "take (nat o0) buf' = take (nat o0) ?buf2"
    using arg_cong [OF rest(2), of "take (nat o0)"] nn by (simp add: min_absorb1)
  moreover have "\<forall>i < length (pc # pcs). serves (dk_file dk) buf' 0 (ms ! i) ((pc # pcs) ! i)" if "got = g0 + (tot - o0)"
  proof -
    have full: "int (length ?b1) = t_nbytes p" "int (length ?b2) = t_nbytes c" using that rest(3) st(3,4) by linarith+
    have "slice buf' o0 (t_nbytes p) = slice ?buf2 o0 (t_nbytes p)"
      by (rule slice_prefix [OF rest(2)]) (use nn Cons.prems(3) in auto)
    moreover have "slice buf' ?o1 (t_nbytes c) = slice ?buf2 ?o1 (t_nbytes c)"
      by (rule slice_prefix [OF rest(2)]) (use nn Cons.prems(3) in auto)
    ultimately have "serves (dk_file dk) buf' 0 (ms ! 0) pc"
      using st(5,6) full by (simp add: serves_def ms(2) pc qmat_of_def)
    moreover have "\<forall>i < length pcs. serves (dk_file dk) buf' 0 (ms' ! i) (pcs ! i)"
      using rest(4) full that by simp
    ultimately show ?thesis by (auto simp: nth_Cons ms(2) split: nat.splits)
  qed
  ultimately show ?case using st rest(1,3) by simp
qed simp

lemma relative_serves:
  assumes "slice buf pad own = slice (dk_file dk sh) lo own" "qmat_inside own (relative lo pc)"
    and "t_shard (fst pc) = sh \<and> t_shard (snd pc) = sh" "0 \<le> pad" "0 \<le> lo"
  shows "serves (dk_file dk) buf pad (relative lo pc) pc"
proof -
  have q: "0 \<le> t_off (fst pc) - lo" "t_off (fst pc) - lo + t_nbytes (fst pc) \<le> own" "0 \<le> t_nbytes (fst pc)"
    "0 \<le> t_off (snd pc) - lo" "t_off (snd pc) - lo + t_nbytes (snd pc) \<le> own" "0 \<le> t_nbytes (snd pc)"
    using assms(2) by (auto simp: qmat_inside_def)
  show ?thesis
    using slice_slice [OF assms(1) q(1,3,2) assms(4,5)] slice_slice [OF assms(1) q(4,6,5) assms(4,5)] assms(3)
    by (simp add: serves_def)
qed

text \<open>A full aligned read, stored at the start of the buffer, holds the run at the reported offset.\<close>

lemma aligned_read_run:
  assumes rd: "k3_st_read_aligned s dk sh lo own cap = (own, pd, b)" and "0 \<le> own" "0 \<le> lo"
    and buf': "buf' = splice buf 0 b" and "length b \<le> length buf" and cap: "cap = int (length buf)"
    and pad: "pad = (case pd of None \<Rightarrow> 0 | Some p \<Rightarrow> p)"
  shows "0 \<le> pad \<and> pad < 4096 \<and> pad + own \<le> cap \<and> slice buf' pad own = slice (dk_file dk sh) lo own"
proof (cases "own > 0")
  case True
  from read_aligned_payload [OF rd True assms(3)]
  have hp: "pd = Some pad" "0 \<le> pad" "pad < 4096" "nat pad + nat own \<le> length b" "slice b pad own = slice (dk_file dk sh) lo own"
    using pad by (auto simp: holds_payload_def slice_def)
  have "take (length b) buf' = take (length b) b" using buf' by (simp add: splice_def)
  then have "slice buf' pad own = slice b pad own"
    by (rule slice_prefix) (use hp True in auto)
  then show ?thesis using hp True assms(5) cap by auto
next
  case False
  have "0 \<le> pad \<and> pad < 4096 \<and> pad \<le> cap"
    using rd pad window_bounds [OF assms(2), of lo] cap assms(2)
    by (auto simp: k3_st_read_aligned_def read_buffered_def read_window_def Let_def split: if_splits)
  then show ?thesis using False assms(2) by (simp add: slice_def)
qed

text \<open>Both layouts, through the entry point of the cache.\<close>

lemma load_direct_serves:
  assumes ref: "r = layout layer expert pcs" and len: "length pcs = 3"
    and find: "\<forall>i < 3. find_pair s layer expert (W ! i) = Some (pcs ! i)"
    and shard: "\<forall>pc\<in>set pcs. t_shard (fst pc) = er_shard r \<and> t_shard (snd pc) = er_shard r"
    and sane: "\<forall>pc\<in>set pcs. sane (fst pc) \<and> sane (snd pc)"
    and cap: "er_nbytes r \<le> cap" "int (length buf) = cap"
    and run: "k3_expert_load_direct s dk r buf cap = (got, pad, buf')"
  shows "length buf' = length buf \<and> (got = er_nbytes r \<longrightarrow>
    0 \<le> pad \<and> pad < 4096 \<and> pad + er_nbytes r \<le> cap \<and> (\<forall>i < 3. serves (dk_file dk) buf' pad (er_m r ! i) (pcs ! i)))"
proof (cases "er_contiguous r")
  case False
  obtain ms tot where pk: "pack 0 pcs = (ms, tot)" by fastforce
  have er: "er_m r = ms" "er_nbytes r = tot" "er_layer r = layer" "er_expert r = expert"
    using False by (auto simp: ref layout_def Let_def pk split: prod.splits)
  have ld: "load_scattered s dk r (zip W ms) 0 buf = (got, buf')" "pad = 0"
    using run False by (auto simp: k3_expert_load_direct_def k3_expert_load_def er split: prod.splits)
  have "length W = length pcs" using len by (simp add: W_def)
  moreover have "tot \<le> int (length buf)" using cap er(2) by simp
  moreover have "\<forall>i < length pcs. find_pair s (er_layer r) (er_expert r) (W ! i) = Some (pcs ! i)"
    using find len er by simp
  ultimately show ?thesis
    using load_scattered_ok [OF pk _ order_refl _ _ sane ld(1)] er(1,2) ld(2) len cap by simp
next
  case True
  obtain lo hi own where sp: "span_of (t_off (fst (hd pcs))) (all_six pcs) = (lo, hi, own)"
    by (metis prod.exhaust)
  have ne: "pcs \<noteq> []" using len by auto
  have er: "er_m r = map (relative lo) pcs" "er_off r = lo" "er_nbytes r = own"
    using True by (auto simp: ref layout_def Let_def sp split: prod.splits if_splits)
  from layout_inside [OF sane ne ref] have ins: "\<forall>m\<in>set (er_m r). qmat_inside own m" "0 \<le> lo" "0 \<le> own"
    using er by auto
  obtain pd b where rd: "k3_st_read_aligned s dk (er_shard r) lo own cap = (got, pd, b)"
    "pad = (case pd of None \<Rightarrow> 0 | Some p \<Rightarrow> p)" "buf' = splice buf 0 b"
    using run True er by (auto simp: k3_expert_load_direct_def split: prod.splits)
  have b: "length b \<le> length buf"
    using read_aligned_fits [OF rd(1) ins(3)] cap ins(3) er(3) by simp
  have "0 \<le> pad \<and> pad < 4096 \<and> pad + own \<le> cap \<and> (\<forall>i < 3. serves (dk_file dk) buf' pad (er_m r ! i) (pcs ! i))"
    if got: "got = own"
  proof -
    note ar = aligned_read_run [OF rd(1) [unfolded got] ins(3,2) rd(3) b cap(2) [symmetric] rd(2)]
    have "serves (dk_file dk) buf' pad (er_m r ! i) (pcs ! i)" if i: "i < 3" for i
    proof -
      have mem: "pcs ! i \<in> set pcs" using i len by simp
      then have "qmat_inside own (relative lo (pcs ! i))" using ins(1) er(1) by auto
      from relative_serves [OF _ this, of buf' pad dk "er_shard r"] ar shard mem ins(2) show ?thesis using i len by (simp add: er(1))
    qed
    then show ?thesis using ar cap(2) by simp
  qed
  then show ?thesis using length_splice [of 0 b buf] b rd(3) er(3) by simp
qed

text \<open>
  A table whose lookups return tensors with a place: no negative offset or length. The scanner does not
  enforce it, so it is stated of the table.
\<close>

definition st_sane :: "K3St \<Rightarrow> bool" where
  "st_sane s \<longleftrightarrow> list_all sane (st_t s) \<and>
     list_all (\<lambda>b. case b of None \<Rightarrow> True | Some i \<Rightarrow> i < length (st_t s)) (st_bucket s)"

lemma probe_range: "probe fuel nb b hit j = Some i \<Longrightarrow> j < nb \<Longrightarrow> i < nb"
proof (induction fuel arbitrary: j)
  case (Suc fuel)
  have "(j + 1) AND (nb - 1) \<le> nb - 1" by (rule and_nat_le)
  then have "next_bucket nb j < nb" using Suc.prems(2) by (simp add: next_bucket_def)
  then show ?case using Suc by (auto split: option.splits if_splits)
qed simp

lemma find_in_table:
  assumes "st_sane s" "k3_st_find s name = Some t"
  shows "t \<in> set (st_t s)"
proof -
  let ?nb = "length (st_bucket s)"
  obtain j i where j: "probe ?nb ?nb (st_bucket s) (\<lambda>k. t_name (st_t s ! k) = name) (start_bucket ?nb name) = Some j"
    "st_bucket s ! j = Some i" "t = st_t s ! i" "?nb \<noteq> 0"
    using assms(2) by (auto simp: k3_st_find_def Let_def split: if_splits option.splits)
  have "start_bucket ?nb name < ?nb" by (rule start_bucket_range) (use j(4) in simp)
  from probe_range [OF j(1) this] have "i < length (st_t s)"
    using assms(1) j(2) by (auto simp: st_sane_def list_all_length split: option.splits)
  then show ?thesis using j(3) by simp
qed

lemma find_sane:
  assumes "st_sane s" "k3_st_find s name = Some t"
  shows "sane t"
  using find_in_table [OF assms] assms(1) unfolding st_sane_def list_all_iff by blast

text \<open>A buffer that holds expert \<open>r\<close> from offset \<open>pad\<close> on: every matrix inside it, with the bytes of its tensors.\<close>

definition holds_expert :: "K3St \<Rightarrow> (int \<Rightarrow> bytes) \<Rightarrow> K3ExpertRef \<Rightarrow> int \<Rightarrow> bytes \<Rightarrow> bool" where
  "holds_expert s file r pad buf \<longleftrightarrow> 0 \<le> pad \<and>
     (\<forall>i < 3. qmat_inside (int (length buf) - pad) (er_m r ! i) \<and>
       (\<exists>pc. find_pair s (er_layer r) (er_expert r) (W ! i) = Some pc \<and> serves file buf pad (er_m r ! i) pc))"

lemma layout_id: "er_layer (layout layer expert pcs) = layer" "er_expert (layout layer expert pcs) = expert"
  by (simp_all add: layout_def Let_def split: prod.splits)

lemma layout_len: "length (er_m (layout layer expert pcs)) = length pcs"
proof -
  have "length (fst (pack o0 pcs)) = length pcs" for o0
    by (induction pcs arbitrary: o0) (simp_all add: Let_def split: prod.splits, metis fst_conv)
  then show ?thesis by (simp add: layout_def Let_def split: prod.splits) (metis fst_conv)
qed

lemma pack_bytes:
  "i < length pcs \<Longrightarrow> p_bytes (fst (pack o0 pcs) ! i) = t_nbytes (fst (pcs ! i)) \<and>
     s_bytes (fst (pack o0 pcs) ! i) = t_nbytes (snd (pcs ! i))"
proof (induction pcs arbitrary: i o0)
  case (Cons pc pcs)
  let ?o = "o0 + t_nbytes (fst pc) + t_nbytes (snd pc)"
  have "fst (pack o0 (pc # pcs)) = (qmat_of pc)\<lparr>p_off := o0, s_off := o0 + t_nbytes (fst pc)\<rparr> # fst (pack ?o pcs)"
    by (cases pc) (simp add: Let_def qmat_of_def case_prod_unfold)
  then show ?case using Cons by (cases i) (simp_all add: qmat_of_def split: prod.splits)
qed simp

lemma layout_bytes:
  assumes "i < length pcs"
  shows "p_bytes (er_m (layout layer expert pcs) ! i) = t_nbytes (fst (pcs ! i)) \<and>
    s_bytes (er_m (layout layer expert pcs) ! i) = t_nbytes (snd (pcs ! i))"
  using pack_bytes [OF assms, of 0] assms by (auto simp: layout_def Let_def split: prod.splits)

text \<open>The geometry of a resolved expert matches the tensors it was resolved from.\<close>

lemma expert_ref_bytes:
  assumes "k3_expert_ref s layer expert = Some r"
  shows "length (er_m r) = 3 \<and> er_layer r = layer \<and> er_expert r = expert \<and>
    (\<forall>i < 3. \<exists>pc. find_pair s layer expert (W ! i) = Some pc \<and>
      p_bytes (er_m r ! i) = t_nbytes (fst pc) \<and> s_bytes (er_m r ! i) = t_nbytes (snd pc))"
proof -
  obtain pcs where pcs: "r = layout layer expert pcs" "length pcs = 3"
    "\<And>i. i < 3 \<Longrightarrow> find_pair s layer expert (W ! i) = Some (pcs ! i) \<and> pair_ok (pcs ! i)"
    using expert_refE [OF assms] by metis
  then show ?thesis using layout_len layout_bytes [of _ pcs] layout_id by auto
qed

lemma full_load_holds:
  assumes st: "st_sane s" and ref: "k3_expert_ref s layer expert = Some r" and cap: "er_nbytes r \<le> int (length buf)"
    and run: "k3_expert_load_direct s dk r buf (int (length buf)) = (got, pad, buf')"
  shows "length buf' = length buf" "got = er_nbytes r \<Longrightarrow> holds_expert s (dk_file dk) r pad buf' \<and> 0 \<le> pad \<and> pad < 4096"
proof -
  obtain pcs where pcs: "r = layout layer expert pcs" "length pcs = 3"
    "\<And>i. i < 3 \<Longrightarrow> find_pair s layer expert (W ! i) = Some (pcs ! i) \<and> pair_ok (pcs ! i)"
    "\<And>pc. pc \<in> set pcs \<Longrightarrow> t_shard (fst pc) = er_shard r \<and> t_shard (snd pc) = er_shard r"
    using expert_refE [OF ref] by metis
  have sane: "sane (fst pc) \<and> sane (snd pc)" if mem: "pc \<in> set pcs" for pc
  proof -
    obtain i where "i < 3" "pc = pcs ! i" using mem pcs(2) by (metis in_set_conv_nth)
    then have "find_pair s layer expert (W ! i) = Some pc" using pcs(3) by simp
    then show ?thesis using find_sane [OF st] by (auto simp: find_pair_def split: option.splits)
  qed
  note ld = load_direct_serves [OF pcs(1,2) _ _ _ cap refl run]
  show "length buf' = length buf" using ld pcs(3,4) sane by blast
  assume full: "got = er_nbytes r"
  have all: "0 \<le> pad" "pad < 4096" "pad + er_nbytes r \<le> int (length buf)" "length buf' = length buf"
    "\<forall>i < 3. serves (dk_file dk) buf' pad (er_m r ! i) (pcs ! i)"
    using ld pcs(3,4) sane full by blast+
  have ne: "pcs \<noteq> []" using pcs(2) by auto
  have inside: "\<forall>m\<in>set (er_m r). qmat_inside (er_nbytes r) m"
    using layout_inside [OF _ ne pcs(1)] sane by blast
  have "qmat_inside (int (length buf') - pad) (er_m r ! i)" if "i < 3" for i
  proof -
    have "qmat_inside (er_nbytes r) (er_m r ! i)"
      using inside that pcs(2) layout_len [of layer expert pcs] by (simp add: pcs(1))
    then show ?thesis using all(3,4) by (auto simp: qmat_inside_def)
  qed
  then show "holds_expert s (dk_file dk) r pad buf' \<and> 0 \<le> pad \<and> pad < 4096"
    using all(1,2,5) pcs(3) layout_id by (auto simp: holds_expert_def pcs(1))
qed

text \<open>
  The contiguity test compares the extent of the six spans with the sum of their lengths. That is
  necessary for a tiling, not sufficient: an overlap and a gap of the same length cancel. The offsets
  within the run are right in that case too, as the lemma above does not ask for a tiling.
\<close>

definition demo_tensor :: "int \<Rightarrow> int \<Rightarrow> K3Tensor" where
  "demo_tensor o' n = \<lparr>t_name = [], t_shard = 0, t_dtype = K3_DT_U8, t_shape = [n], t_off = o', t_nbytes = n\<rparr>"

lemma overlap_passes_as_contiguous:
  "er_contiguous (layout 0 0
     [(demo_tensor 0 4, demo_tensor 0 4), (demo_tensor 8 4, demo_tensor 12 4), (demo_tensor 16 4, demo_tensor 20 4)])"
  by code_simp

end
