(* ===== verification/K3_Float.thy ===== *)
theory K3_Float
  imports Main "HOL-Library.Word"
begin

text \<open>
  Floating point as the kernels of \<open>k3_ops.c\<close> use it: \<open>float\<close> is the bit pattern of an IEEE binary32,
  \<open>double\<close> that of a binary64. Every operation decodes its operands to exact dyadic numbers, computes the
  exact result and rounds it once to nearest, ties to even; the build sets \<open>-ffp-contract=off\<close>, so each
  operator of the source is one rounding and \<open>fma\<close> is the only fused one.

  What the C standard leaves to the platform is the parameter \<open>fpu\<close>: the results of \<open>expf\<close> and \<open>tanhf\<close>,
  and which NaN an operation returns. No theorem assumes anything of it.
\<close>

type_synonym f32 = "32 word"
type_synonym f64 = "64 word"

record fpu =
  fp_expf :: "f32 \<Rightarrow> f32"
  fp_tanhf :: "f32 \<Rightarrow> f32"
  fp_nan32 :: "f32 list \<Rightarrow> f32"
  fp_nan64 :: "f64 list \<Rightarrow> f64"

section \<open>Exact values\<close>

text \<open>\<open>Fin s m e\<close> is the number \<open>(-1)\<^sup>s \<cdot> m \<cdot> 2\<^sup>e\<close>, so both zeros are values.\<close>

datatype fval = NaN | Inf bool | Fin bool int int

fun nbits :: "int \<Rightarrow> int" where
  "nbits n = (if n \<le> 0 then 0 else 1 + nbits (n div 2))"

declare nbits.simps [simp del]

text \<open>A format: the precision with the hidden bit, and the width of the exponent field.\<close>

record fmt =
  prec :: nat
  ebits :: nat

definition binary32 :: fmt where "binary32 = \<lparr>prec = 24, ebits = 8\<rparr>"
definition binary64 :: fmt where "binary64 = \<lparr>prec = 53, ebits = 11\<rparr>"

definition emin :: "fmt \<Rightarrow> int" where
  "emin f = 3 - 2 ^ (ebits f - 1) - int (prec f)"

definition inf_bits :: "fmt \<Rightarrow> int" where
  "inf_bits f = (2 ^ ebits f - 1) * 2 ^ (prec f - 1)"

definition sign_bit :: "fmt \<Rightarrow> int" where
  "sign_bit f = 2 ^ (prec f - 1 + ebits f)"

definition decode :: "fmt \<Rightarrow> int \<Rightarrow> fval" where
  "decode f b =
     (let frac = b mod 2 ^ (prec f - 1);
          ex = b div 2 ^ (prec f - 1) mod 2 ^ ebits f;
          s = odd (b div sign_bit f)
      in if ex = 2 ^ ebits f - 1 then if frac = 0 then Inf s else NaN
         else if ex = 0 then Fin s frac (emin f)
         else Fin s (frac + 2 ^ (prec f - 1)) (emin f + ex - 1))"

section \<open>Rounding\<close>

text \<open>\<open>m\<close> divided by \<open>2\<^sup>k\<close>, to nearest and ties to even.\<close>

definition rne :: "int \<Rightarrow> nat \<Rightarrow> int" where
  "rne m k =
     (let d = m div 2 ^ k; r = m mod 2 ^ k
      in if 2 * r > 2 ^ k \<or> (2 * r = 2 ^ k \<and> odd d) then d + 1 else d)"

text \<open>
  The bit pattern of \<open>m \<cdot> 2\<^sup>e\<close> without its sign. The quantum is chosen so that at most \<open>prec\<close> bits remain and
  no exponent falls below \<open>emin\<close>; a carry out of the significand moves into the exponent field by itself.
\<close>

definition round_mag :: "fmt \<Rightarrow> int \<Rightarrow> int \<Rightarrow> int" where
  "round_mag f m e =
     (if m = 0 then 0
      else let q = max (e + nbits m - int (prec f)) (emin f);
               mant = (if q \<le> e then m * 2 ^ nat (e - q) else rne m (nat (q - e)))
           in min ((q - emin f) * 2 ^ (prec f - 1) + mant) (inf_bits f))"

definition encode :: "fmt \<Rightarrow> int \<Rightarrow> fval \<Rightarrow> int" where
  "encode f nan v =
     (case v of NaN \<Rightarrow> nan
      | Inf s \<Rightarrow> inf_bits f + (if s then sign_bit f else 0)
      | Fin s m e \<Rightarrow> round_mag f m e + (if s then sign_bit f else 0))"

section \<open>Exact operations\<close>

definition signed :: "bool \<Rightarrow> int \<Rightarrow> int" where
  "signed s m = (if s then - m else m)"

definition scaled :: "int \<Rightarrow> bool \<Rightarrow> int \<Rightarrow> int \<Rightarrow> int" where
  "scaled e0 s m e = signed s m * 2 ^ nat (e - e0)"

fun v_add :: "fval \<Rightarrow> fval \<Rightarrow> fval" where
  "v_add (Fin s m e) (Fin s' m' e') =
     (let e0 = min e e'; v = scaled e0 s m e + scaled e0 s' m' e'
      in Fin (if v = 0 then s \<and> s' else v < 0) \<bar>v\<bar> e0)"
| "v_add (Inf s) (Inf s') = (if s = s' then Inf s else NaN)"
| "v_add (Inf s) (Fin _ _ _) = Inf s"
| "v_add (Fin _ _ _) (Inf s) = Inf s"
| "v_add _ _ = NaN"

fun v_neg :: "fval \<Rightarrow> fval" where
  "v_neg (Fin s m e) = Fin (\<not> s) m e"
| "v_neg (Inf s) = Inf (\<not> s)"
| "v_neg NaN = NaN"

fun v_mul :: "fval \<Rightarrow> fval \<Rightarrow> fval" where
  "v_mul (Fin s m e) (Fin s' m' e') = Fin (s \<noteq> s') (m * m') (e + e')"
| "v_mul (Inf s) (Inf s') = Inf (s \<noteq> s')"
| "v_mul (Inf s) (Fin s' m _) = (if m = 0 then NaN else Inf (s \<noteq> s'))"
| "v_mul (Fin s' m _) (Inf s) = (if m = 0 then NaN else Inf (s \<noteq> s'))"
| "v_mul _ _ = NaN"

text \<open>
  Quotients and square roots are not dyadic: they are computed to two bits more than the precision with a
  sticky bit below, which rounds as the exact number does.
\<close>

fun v_div :: "nat \<Rightarrow> fval \<Rightarrow> fval \<Rightarrow> fval" where
  "v_div p (Fin s m e) (Fin s' m' e') =
     (if m' = 0 then if m = 0 then NaN else Inf (s \<noteq> s')
      else let k = int p + 2 + nbits m'; n = m * 2 ^ nat k
           in Fin (s \<noteq> s') (2 * (n div m') + (if n mod m' = 0 then 0 else 1)) (e - e' - k - 1))"
| "v_div p (Inf s) (Fin s' _ _) = Inf (s \<noteq> s')"
| "v_div p (Fin s _ _) (Inf s') = Fin (s \<noteq> s') 0 0"
| "v_div p _ _ = NaN"

fun isqrt :: "int \<Rightarrow> int" where
  "isqrt n = (if n \<le> 0 then 0 else let r = 2 * isqrt (n div 4) in if (r + 1) * (r + 1) \<le> n then r + 1 else r)"

declare isqrt.simps [simp del]

fun v_sqrt :: "nat \<Rightarrow> fval \<Rightarrow> fval" where
  "v_sqrt p (Fin s m e) =
     (if m = 0 then Fin s m e
      else if s then NaN
      else let j = 2 * int p + 2 + (if even e then 0 else 1); n = m * 2 ^ nat j; r = isqrt n
           in Fin False (2 * r + (if r * r = n then 0 else 1)) ((e - j) div 2 - 1))"
| "v_sqrt p (Inf s) = (if s then NaN else Inf s)"
| "v_sqrt p NaN = NaN"

fun v_less :: "fval \<Rightarrow> fval \<Rightarrow> bool" where
  "v_less (Fin s m e) (Fin s' m' e') = (let e0 = min e e' in scaled e0 s m e < scaled e0 s' m' e')"
| "v_less (Inf s) (Inf s') = (s \<and> \<not> s')"
| "v_less (Inf s) (Fin _ _ _) = s"
| "v_less (Fin _ _ _) (Inf s) = (\<not> s)"
| "v_less _ _ = False"

fun v_eq :: "fval \<Rightarrow> fval \<Rightarrow> bool" where
  "v_eq (Fin s m e) (Fin s' m' e') = (let e0 = min e e' in scaled e0 s m e = scaled e0 s' m' e')"
| "v_eq (Inf s) (Inf s') = (s = s')"
| "v_eq _ _ = False"

section \<open>The operators of the source\<close>

definition f32_val :: "f32 \<Rightarrow> fval" where "f32_val x = decode binary32 (uint x)"
definition f64_val :: "f64 \<Rightarrow> fval" where "f64_val x = decode binary64 (uint x)"

definition f32_of :: "fpu \<Rightarrow> f32 list \<Rightarrow> fval \<Rightarrow> f32" where
  "f32_of F args v = word_of_int (encode binary32 (uint (fp_nan32 F args)) v)"

definition f64_of :: "fpu \<Rightarrow> f64 list \<Rightarrow> fval \<Rightarrow> f64" where
  "f64_of F args v = word_of_int (encode binary64 (uint (fp_nan64 F args)) v)"

definition fadd :: "fpu \<Rightarrow> f32 \<Rightarrow> f32 \<Rightarrow> f32" where
  "fadd F a b = f32_of F [a, b] (v_add (f32_val a) (f32_val b))"
definition fsub :: "fpu \<Rightarrow> f32 \<Rightarrow> f32 \<Rightarrow> f32" where
  "fsub F a b = f32_of F [a, b] (v_add (f32_val a) (v_neg (f32_val b)))"
definition fmul :: "fpu \<Rightarrow> f32 \<Rightarrow> f32 \<Rightarrow> f32" where
  "fmul F a b = f32_of F [a, b] (v_mul (f32_val a) (f32_val b))"
definition fdiv :: "fpu \<Rightarrow> f32 \<Rightarrow> f32 \<Rightarrow> f32" where
  "fdiv F a b = f32_of F [a, b] (v_div 24 (f32_val a) (f32_val b))"
definition fsqrt :: "fpu \<Rightarrow> f32 \<Rightarrow> f32" where
  "fsqrt F a = f32_of F [a] (v_sqrt 24 (f32_val a))"
definition fneg :: "f32 \<Rightarrow> f32" where
  "fneg a = xor a 0x80000000"
definition ffma :: "fpu \<Rightarrow> f32 \<Rightarrow> f32 \<Rightarrow> f32 \<Rightarrow> f32" where
  "ffma F a b c = f32_of F [a, b, c] (v_add (v_mul (f32_val a) (f32_val b)) (f32_val c))"
definition fless :: "f32 \<Rightarrow> f32 \<Rightarrow> bool" where
  "fless a b = v_less (f32_val a) (f32_val b)"
definition feq :: "f32 \<Rightarrow> f32 \<Rightarrow> bool" where
  "feq a b = v_eq (f32_val a) (f32_val b)"

definition dadd :: "fpu \<Rightarrow> f64 \<Rightarrow> f64 \<Rightarrow> f64" where
  "dadd F a b = f64_of F [a, b] (v_add (f64_val a) (f64_val b))"
definition dmul :: "fpu \<Rightarrow> f64 \<Rightarrow> f64 \<Rightarrow> f64" where
  "dmul F a b = f64_of F [a, b] (v_mul (f64_val a) (f64_val b))"
definition ddiv :: "fpu \<Rightarrow> f64 \<Rightarrow> f64 \<Rightarrow> f64" where
  "ddiv F a b = f64_of F [a, b] (v_div 53 (f64_val a) (f64_val b))"
definition dsqrt :: "fpu \<Rightarrow> f64 \<Rightarrow> f64" where
  "dsqrt F a = f64_of F [a] (v_sqrt 53 (f64_val a))"
definition dfma :: "fpu \<Rightarrow> f64 \<Rightarrow> f64 \<Rightarrow> f64 \<Rightarrow> f64" where
  "dfma F a b c = f64_of F [a, b, c] (v_add (v_mul (f64_val a) (f64_val b)) (f64_val c))"

text \<open>Conversions. A NaN keeps whatever payload the platform gives it.\<close>

definition d_of_f :: "fpu \<Rightarrow> f32 \<Rightarrow> f64" where
  "d_of_f F x = f64_of F [ucast x] (f32_val x)"
definition f_of_d :: "fpu \<Rightarrow> f64 \<Rightarrow> f32" where
  "f_of_d F x = f32_of F [ucast (drop_bit 32 x), ucast x] (f64_val x)"
definition f_of_int :: "int \<Rightarrow> f32" where
  "f_of_int n = word_of_int (encode binary32 0 (Fin (n < 0) \<bar>n\<bar> 0))"
definition d_of_int :: "int \<Rightarrow> f64" where
  "d_of_int n = word_of_int (encode binary64 0 (Fin (n < 0) \<bar>n\<bar> 0))"

text \<open>\<open>ldexpf(1.0f, n)\<close>: exact, or rounded below the smallest subnormal.\<close>

definition ldexpf1 :: "int \<Rightarrow> f32" where
  "ldexpf1 n = word_of_int (encode binary32 0 (Fin False 1 n))"

definition f_one :: f32 where "f_one = 0x3F800000"
definition f_ninf :: f32 where "f_ninf = 0xFF800000"
definition d_one :: f64 where "d_one = 0x3FF0000000000000"

section \<open>Order\<close>

text \<open>Comparisons may be made at any exponent not above either operand's.\<close>

lemma scaled_shift: "e0 \<le> e1 \<Longrightarrow> e1 \<le> e \<Longrightarrow> scaled e0 s m e = scaled e1 s m e * 2 ^ nat (e1 - e0)"
  by (simp add: scaled_def power_add [symmetric] nat_add_distrib [symmetric])

lemma v_less_at:
  assumes "e0 \<le> e" "e0 \<le> e'"
  shows "v_less (Fin s m e) (Fin s' m' e') \<longleftrightarrow> scaled e0 s m e < scaled e0 s' m' e'"
  using assms by (simp add: Let_def scaled_shift [of e0 "min e e'"])

lemma v_less_trans: "v_less x y \<Longrightarrow> v_less y z \<Longrightarrow> v_less x z"
proof -
  assume a: "v_less x y" "v_less y z"
  show ?thesis
  proof (cases "\<exists>s m e s' m' e' t n d. x = Fin s m e \<and> y = Fin s' m' e' \<and> z = Fin t n d")
    case True
    then obtain s m e s' m' e' t n d where f: "x = Fin s m e" "y = Fin s' m' e'" "z = Fin t n d" by blast
    define e0 where "e0 = min e (min e' d)"
    have "e0 \<le> e" "e0 \<le> e'" "e0 \<le> d" by (auto simp: e0_def)
    then show ?thesis using a unfolding f by (simp only: v_less_at)
  next
    case False
    then show ?thesis using a by (cases x; cases y; cases z) auto
  qed
qed

lemma fless_trans: "fless x y \<Longrightarrow> fless y z \<Longrightarrow> fless x z"
  unfolding fless_def by (rule v_less_trans)

lemma fless_irrefl [simp]: "\<not> fless x x"
  by (cases "f32_val x") (simp_all add: fless_def)

lemma ninf_val: "f32_val f_ninf = Inf True"
  by code_simp

lemma not_less_ninf [simp]: "\<not> fless x f_ninf"
  by (cases "f32_val x") (simp_all add: fless_def ninf_val)

end
