(* ===== verification/K3_Config.thy ===== *)
theory K3_Config
  imports K3_Float "HOL-Library.State_Monad"
begin

text \<open>
  The model configuration: \<open>K3Cfg\<close> and the layer map of \<open>k3.h\<close>, and the reader \<open>k3_cfg.h\<close>, which takes a parsed
  JSON document of either shape and refuses a document with any required field missing. The vendored parser
  is a parameter; its result is the tree \<open>jval\<close>.
\<close>

section \<open>Configuration and layer map\<close>

record K3Cfg =
  cf_hidden :: int
  cf_n_layers :: int
  cf_vocab :: int
  cf_rms_eps :: f32
  cf_kda_heads :: int
  cf_kda_head_dim :: int
  cf_conv_k :: int
  cf_gate_lb :: f32
  cf_n_heads :: int
  cf_q_lora :: int
  cf_kv_lora :: int
  cf_qk_nope :: int
  cf_qk_rope :: int
  cf_v_head :: int
  cf_mla_out_gate :: bool
  cf_n_experts :: int
  cf_topk :: int
  cf_n_shared :: int
  cf_latent :: int
  cf_moe_inter :: int
  cf_routed_scale :: f32
  cf_moe_renorm :: bool
  cf_latent_norm :: bool
  cf_first_dense :: int
  cf_dense_inter :: int
  cf_attn_res_block :: int
  cf_situ_b1 :: f32
  cf_situ_b2 :: f32
  cf_full_attn :: "int list"

text \<open>Layers are counted from zero; the list of full-attention layers from one.\<close>

definition k3_is_mla :: "K3Cfg \<Rightarrow> int \<Rightarrow> bool" where
  "k3_is_mla c layer \<longleftrightarrow> list_ex (\<lambda>f. f = layer + 1) (cf_full_attn c)"

definition k3_is_kda :: "K3Cfg \<Rightarrow> int \<Rightarrow> bool" where
  "k3_is_kda c layer \<longleftrightarrow> \<not> k3_is_mla c layer"

definition k3_is_dense :: "K3Cfg \<Rightarrow> int \<Rightarrow> bool" where
  "k3_is_dense c layer \<longleftrightarrow> layer < cf_first_dense c"

definition K3_MAX_TOPK :: nat where "K3_MAX_TOPK = 64"

section \<open>Documents\<close>

datatype jval = J_NULL | J_BOOL bool | J_NUM f64 | J_STR string | J_ARR "jval list" | J_OBJ "(string \<times> jval) list"

text \<open>The first entry with the key; \<open>NULL\<close> for anything but an object.\<close>

fun json_get :: "jval \<Rightarrow> string \<Rightarrow> jval option" where
  "json_get (J_OBJ kvs) key = map_of kvs key"
| "json_get _ key = None"

text \<open>
  \<open>(int)num\<close> truncates. A value outside the range of \<open>int\<close> is undefined in C; the conversion instruction gives
  the smallest one.
\<close>

definition int_of_d :: "f64 \<Rightarrow> int" where
  "int_of_d x =
     (case f64_val x of
        Fin s m e \<Rightarrow> (let n = signed s (if 0 \<le> e then m * 2 ^ nat e else m div 2 ^ nat (- e))
                      in if - 2147483648 \<le> n \<and> n \<le> 2147483647 then n else - 2147483648)
      | _ \<Rightarrow> - 2147483648)"

section \<open>Lookup\<close>

record K3CfgSrc =
  cs_txt :: "jval option"
  cs_lin :: "jval option"
  cs_root :: jval
  cs_nested :: bool
  cs_missing :: "string list"
  cs_nmissing :: nat

fun first_some :: "'a option list \<Rightarrow> 'a option" where
  "first_some [] = None"
| "first_some (None # xs) = first_some xs"
| "first_some (Some x # xs) = Some x"

definition some_list :: "'a option list \<Rightarrow> 'a list" where
  "some_list xs = List.map_filter (\<lambda>x. x) xs"

definition k3cfg_find :: "K3CfgSrc \<Rightarrow> string \<Rightarrow> string option \<Rightarrow> jval option" where
  "k3cfg_find s primary alias =
     first_some (concat (map (\<lambda>obj. map (json_get obj) (some_list [Some primary, alias]))
       (some_list [cs_txt s, cs_lin s, Some (cs_root s)])))"

definition k3cfg_miss :: "string \<Rightarrow> K3CfgSrc \<Rightarrow> K3CfgSrc" where
  "k3cfg_miss name s =
     s\<lparr>cs_missing := (if cs_nmissing s < 32 then cs_missing s @ [name] else cs_missing s),
       cs_nmissing := cs_nmissing s + 1\<rparr>"

definition k3cfg_i :: "string \<Rightarrow> string option \<Rightarrow> (K3CfgSrc, int) state" where
  "k3cfg_i primary alias = State (\<lambda>s.
     case k3cfg_find s primary alias of Some (J_NUM x) \<Rightarrow> (int_of_d x, s) | _ \<Rightarrow> (0, k3cfg_miss primary s))"

definition k3cfg_f :: "fpu \<Rightarrow> string \<Rightarrow> string option \<Rightarrow> (K3CfgSrc, f32) state" where
  "k3cfg_f F primary alias = State (\<lambda>s.
     case k3cfg_find s primary alias of Some (J_NUM x) \<Rightarrow> (f_of_d F x, s) | _ \<Rightarrow> (0, k3cfg_miss primary s))"

definition k3cfg_b :: "string \<Rightarrow> string option \<Rightarrow> bool \<Rightarrow> (K3CfgSrc, bool) state" where
  "k3cfg_b primary alias dflt = State (\<lambda>s.
     (case k3cfg_find s primary alias of
        Some (J_BOOL b) \<Rightarrow> b
      | Some (J_NUM x) \<Rightarrow> \<not> v_eq (f64_val x) (f64_val 0)
      | _ \<Rightarrow> dflt, s))"

section \<open>Loading\<close>

datatype cfg_error =
  CfgTooManyLayers | CfgNotNumber nat | CfgMissing "string list" nat | CfgNonPositive | CfgNoKda
  | CfgLayerOutside nat | CfgTopkMax | CfgTopkExperts | CfgAttnResBlock | CfgConvK

text \<open>Every scalar field in the order of the source; the layer list is filled in afterwards.\<close>

definition cfg_fields :: "fpu \<Rightarrow> (K3CfgSrc, K3Cfg) state" where
  "cfg_fields F = do {
     hidden \<leftarrow> k3cfg_i ''hidden_size'' None;
     n_layers \<leftarrow> k3cfg_i ''num_hidden_layers'' None;
     vocab \<leftarrow> k3cfg_i ''vocab_size'' None;
     rms_eps \<leftarrow> k3cfg_f F ''rms_norm_eps'' None;
     kda_heads \<leftarrow> k3cfg_i ''num_heads'' (Some ''kda_num_heads'');
     kda_head_dim \<leftarrow> k3cfg_i ''head_dim'' (Some ''kda_head_dim'');
     conv_k \<leftarrow> k3cfg_i ''short_conv_kernel_size'' None;
     gate_lb \<leftarrow> k3cfg_f F ''gate_lower_bound'' None;
     n_heads \<leftarrow> k3cfg_i ''num_attention_heads'' None;
     q_lora \<leftarrow> k3cfg_i ''q_lora_rank'' None;
     kv_lora \<leftarrow> k3cfg_i ''kv_lora_rank'' None;
     qk_nope \<leftarrow> k3cfg_i ''qk_nope_head_dim'' None;
     qk_rope \<leftarrow> k3cfg_i ''qk_rope_head_dim'' None;
     v_head \<leftarrow> k3cfg_i ''v_head_dim'' None;
     mla_out_gate \<leftarrow> k3cfg_b ''mla_use_output_gate'' None True;
     n_experts \<leftarrow> k3cfg_i ''num_experts'' None;
     topk \<leftarrow> k3cfg_i ''num_experts_per_token'' None;
     n_shared \<leftarrow> k3cfg_i ''num_shared_experts'' None;
     latent \<leftarrow> k3cfg_i ''routed_expert_hidden_size'' None;
     moe_inter \<leftarrow> k3cfg_i ''moe_intermediate_size'' None;
     routed_scale \<leftarrow> k3cfg_f F ''routed_scaling_factor'' None;
     moe_renorm \<leftarrow> k3cfg_b ''moe_renormalize'' None True;
     latent_norm \<leftarrow> k3cfg_b ''latent_moe_use_norm'' None True;
     first_dense \<leftarrow> k3cfg_i ''first_k_dense_replace'' None;
     dense_inter \<leftarrow> k3cfg_i ''intermediate_size'' None;
     attn_res_block \<leftarrow> k3cfg_i ''attn_res_block_size'' None;
     situ_b1 \<leftarrow> k3cfg_f F ''activation_situ_beta'' (Some ''situ_beta'');
     situ_b2 \<leftarrow> k3cfg_f F ''activation_situ_linear_beta'' (Some ''situ_linear_beta'');
     State_Monad.return \<lparr>cf_hidden = hidden, cf_n_layers = n_layers, cf_vocab = vocab, cf_rms_eps = rms_eps,
       cf_kda_heads = kda_heads, cf_kda_head_dim = kda_head_dim, cf_conv_k = conv_k, cf_gate_lb = gate_lb,
       cf_n_heads = n_heads, cf_q_lora = q_lora, cf_kv_lora = kv_lora, cf_qk_nope = qk_nope, cf_qk_rope = qk_rope,
       cf_v_head = v_head, cf_mla_out_gate = mla_out_gate, cf_n_experts = n_experts, cf_topk = topk,
       cf_n_shared = n_shared, cf_latent = latent, cf_moe_inter = moe_inter, cf_routed_scale = routed_scale,
       cf_moe_renorm = moe_renorm, cf_latent_norm = latent_norm, cf_first_dense = first_dense,
       cf_dense_inter = dense_inter, cf_attn_res_block = attn_res_block, cf_situ_b1 = situ_b1,
       cf_situ_b2 = situ_b2, cf_full_attn = []\<rparr>
   }"

text \<open>The numbers of an array of the document, or the index of its first entry that is not one.\<close>

fun layer_list :: "nat \<Rightarrow> jval list \<Rightarrow> nat + int list" where
  "layer_list i [] = Inr []"
| "layer_list i (J_NUM x # vs) = (case layer_list (i + 1) vs of Inl e \<Rightarrow> Inl e | Inr xs \<Rightarrow> Inr (int_of_d x # xs))"
| "layer_list i (_ # vs) = Inl i"

definition first_outside :: "K3Cfg \<Rightarrow> nat option" where
  "first_outside c =
     (case filter (\<lambda>i. cf_full_attn c ! i < 1 \<or> cf_full_attn c ! i > cf_n_layers c) [0..<length (cf_full_attn c)] of
        [] \<Rightarrow> None | i # _ \<Rightarrow> Some i)"

definition cfg_structure :: "K3Cfg \<Rightarrow> cfg_error + K3Cfg" where
  "cfg_structure c =
     (if cf_n_layers c \<le> 0 \<or> cf_hidden c \<le> 0 \<or> cf_vocab c \<le> 0 then Inl CfgNonPositive
      else if int (length (cf_full_attn c)) \<ge> cf_n_layers c then Inl CfgNoKda
      else case first_outside c of Some i \<Rightarrow> Inl (CfgLayerOutside i)
      | None \<Rightarrow>
          if cf_topk c > int K3_MAX_TOPK then Inl CfgTopkMax
          else if cf_topk c > cf_n_experts c then Inl CfgTopkExperts
          else if cf_attn_res_block c \<le> 0 then Inl CfgAttnResBlock
          else if cf_conv_k c < 1 then Inl CfgConvK
          else Inr c)"

definition cfg_src :: "jval \<Rightarrow> K3CfgSrc" where
  "cfg_src root =
     (let txt = json_get root ''text_config''; base = (case txt of Some t \<Rightarrow> t | None \<Rightarrow> root)
      in \<lparr>cs_txt = txt, cs_lin = json_get base ''linear_attn_config'', cs_root = root, cs_nested = (txt \<noteq> None),
          cs_missing = [], cs_nmissing = 0\<rparr>)"

definition cfg_missing :: "K3CfgSrc \<Rightarrow> K3Cfg \<Rightarrow> cfg_error + K3Cfg" where
  "cfg_missing s c = (if cs_nmissing s \<noteq> 0 then Inl (CfgMissing (cs_missing s) (cs_nmissing s)) else cfg_structure c)"

definition k3_cfg_load :: "fpu \<Rightarrow> nat \<Rightarrow> jval \<Rightarrow> cfg_error + K3Cfg" where
  "k3_cfg_load F fa_max root =
     (case run_state (cfg_fields F) (cfg_src root) of
        (c, s) \<Rightarrow>
          (case k3cfg_find s ''full_attn_layers'' None of
             Some (J_ARR kids) \<Rightarrow>
               if kids = [] then cfg_missing (k3cfg_miss ''full_attn_layers'' s) c
               else if length kids > fa_max then Inl CfgTooManyLayers
               else (case layer_list 0 kids of
                       Inl i \<Rightarrow> Inl (CfgNotNumber i)
                     | Inr fa \<Rightarrow> cfg_missing s (c\<lparr>cf_full_attn := fa\<rparr>))
           | _ \<Rightarrow> cfg_missing (k3cfg_miss ''full_attn_layers'' s) c))"

text \<open>A file of at most \<open>2\<^sup>2\<^sup>8\<close> bytes that the parser accepts.\<close>

definition k3_cfg_load_file :: "fpu \<Rightarrow> (string \<Rightarrow> jval option) \<Rightarrow> nat \<Rightarrow> string option \<Rightarrow> (cfg_error + K3Cfg) option" where
  "k3_cfg_load_file F parse fa_max content =
     (case content of None \<Rightarrow> None
      | Some txt \<Rightarrow> if length txt > 268435456 then None else map_option (k3_cfg_load F fa_max) (parse txt))"

section \<open>What a loaded configuration guarantees\<close>

text \<open>A lookup leaves the source alone or records a missing field, and nothing forgets one.\<close>

definition tidy :: "K3CfgSrc \<Rightarrow> K3CfgSrc \<Rightarrow> bool" where
  "tidy s s' \<longleftrightarrow> s' = s \<or> cs_nmissing s < cs_nmissing s'"

lemma tidy_trans: "tidy s s' \<Longrightarrow> tidy s' s'' \<Longrightarrow> tidy s s''"
  by (auto simp: tidy_def)

lemma tidy_lookup [simp]:
  "state_io_rel tidy (k3cfg_i p a)" "state_io_rel tidy (k3cfg_f F p a)" "state_io_rel tidy (k3cfg_b p a d)"
  "state_io_rel tidy (State_Monad.return x)"
  by (auto simp: state_io_rel_def k3cfg_i_def k3cfg_f_def k3cfg_b_def k3cfg_miss_def tidy_def
      split: option.splits jval.splits)

lemma tidy_bind [simp]:
  "state_io_rel tidy m \<Longrightarrow> (\<And>x. state_io_rel tidy (f x)) \<Longrightarrow> state_io_rel tidy (State_Monad.bind m f)"
  by (auto simp: state_io_rel_def split: prod.splits) (metis snd_conv tidy_trans)

lemma clean_bind:
  assumes "run_state (State_Monad.bind m f) s = (v, s')" "cs_nmissing s' \<le> cs_nmissing s"
    and "state_io_rel tidy m" "\<And>x. state_io_rel tidy (f x)"
  shows "\<exists>u. run_state m s = (u, s) \<and> run_state (f u) s = (v, s')"
proof -
  obtain u s1 where u: "run_state m s = (u, s1)" by fastforce
  then have f: "run_state (f u) s1 = (v, s')" using assms(1) by simp
  have "tidy s s1" "tidy s1 s'" using state_io_relD [OF assms(3) u] state_io_relD [OF assms(4) f] by auto
  then have "s1 = s" using assms(2) by (auto simp: tidy_def)
  then show ?thesis using u f by blast
qed

text \<open>The required fields: the spellings of each key, and the field it fills.\<close>

definition cfg_ints :: "(string \<times> string option \<times> (K3Cfg \<Rightarrow> int)) list" where
  "cfg_ints =
     [(''hidden_size'', None, cf_hidden), (''num_hidden_layers'', None, cf_n_layers),
      (''vocab_size'', None, cf_vocab), (''num_heads'', Some ''kda_num_heads'', cf_kda_heads),
      (''head_dim'', Some ''kda_head_dim'', cf_kda_head_dim), (''short_conv_kernel_size'', None, cf_conv_k),
      (''num_attention_heads'', None, cf_n_heads), (''q_lora_rank'', None, cf_q_lora),
      (''kv_lora_rank'', None, cf_kv_lora), (''qk_nope_head_dim'', None, cf_qk_nope),
      (''qk_rope_head_dim'', None, cf_qk_rope), (''v_head_dim'', None, cf_v_head),
      (''num_experts'', None, cf_n_experts), (''num_experts_per_token'', None, cf_topk),
      (''num_shared_experts'', None, cf_n_shared), (''routed_expert_hidden_size'', None, cf_latent),
      (''moe_intermediate_size'', None, cf_moe_inter), (''first_k_dense_replace'', None, cf_first_dense),
      (''intermediate_size'', None, cf_dense_inter), (''attn_res_block_size'', None, cf_attn_res_block)]"

definition cfg_floats :: "(string \<times> string option \<times> (K3Cfg \<Rightarrow> f32)) list" where
  "cfg_floats =
     [(''rms_norm_eps'', None, cf_rms_eps), (''gate_lower_bound'', None, cf_gate_lb),
      (''routed_scaling_factor'', None, cf_routed_scale),
      (''activation_situ_beta'', Some ''situ_beta'', cf_situ_b1),
      (''activation_situ_linear_beta'', Some ''situ_linear_beta'', cf_situ_b2)]"

definition cfg_num :: "K3CfgSrc \<Rightarrow> string \<Rightarrow> string option \<Rightarrow> f64 option" where
  "cfg_num s p a = (case k3cfg_find s p a of Some (J_NUM x) \<Rightarrow> Some x | _ \<Rightarrow> None)"

definition cfg_complete :: "fpu \<Rightarrow> K3CfgSrc \<Rightarrow> K3Cfg \<Rightarrow> bool" where
  "cfg_complete F s c \<longleftrightarrow>
     list_all (\<lambda>(p, a, field). \<exists>x. cfg_num s p a = Some x \<and> field c = int_of_d x) cfg_ints \<and>
     list_all (\<lambda>(p, a, field). \<exists>x. cfg_num s p a = Some x \<and> field c = f_of_d F x) cfg_floats"

lemma clean_i:
  assumes "run_state (State_Monad.bind (k3cfg_i p a) f) s = (v, s')" "cs_nmissing s' \<le> cs_nmissing s"
    and "\<And>x. state_io_rel tidy (f x)"
  shows "\<exists>x. cfg_num s p a = Some x \<and> run_state (f (int_of_d x)) s = (v, s')"
proof -
  obtain u where u: "run_state (k3cfg_i p a) s = (u, s)" "run_state (f u) s = (v, s')"
    using clean_bind [OF assms(1,2) _ assms(3)] by auto
  have "cs_nmissing (k3cfg_miss p s) = Suc (cs_nmissing s)" by (simp add: k3cfg_miss_def)
  then have "k3cfg_miss p s \<noteq> s" by (metis n_not_Suc_n)
  then show ?thesis using u
    by (auto simp: k3cfg_i_def cfg_num_def split: option.splits jval.splits)
qed

lemma clean_f:
  assumes "run_state (State_Monad.bind (k3cfg_f F p a) f) s = (v, s')" "cs_nmissing s' \<le> cs_nmissing s"
    and "\<And>x. state_io_rel tidy (f x)"
  shows "\<exists>x. cfg_num s p a = Some x \<and> run_state (f (f_of_d F x)) s = (v, s')"
proof -
  obtain u where u: "run_state (k3cfg_f F p a) s = (u, s)" "run_state (f u) s = (v, s')"
    using clean_bind [OF assms(1,2) _ assms(3)] by auto
  have "cs_nmissing (k3cfg_miss p s) = Suc (cs_nmissing s)" by (simp add: k3cfg_miss_def)
  then have "k3cfg_miss p s \<noteq> s" by (metis n_not_Suc_n)
  then show ?thesis using u
    by (auto simp: k3cfg_f_def cfg_num_def split: option.splits jval.splits)
qed

lemma clean_b:
  assumes "run_state (State_Monad.bind (k3cfg_b p a d) f) s = (v, s')"
  shows "\<exists>b. run_state (f b) s = (v, s')"
  using assms by (auto simp: k3cfg_b_def)

lemma fields_tidy: "state_io_rel tidy (cfg_fields F)"
  unfolding cfg_fields_def by (intro tidy_bind tidy_lookup)

lemma fields_clean:
  assumes "run_state (cfg_fields F) s = (c, s')" "cs_nmissing s' \<le> cs_nmissing s"
  shows "s' = s \<and> cfg_complete F s c \<and> cf_full_attn c = []"
  using assms(1) unfolding cfg_fields_def
  apply -
  apply ((drule clean_i clean_f, rule assms(2), (intro tidy_bind tidy_lookup), elim exE conjE) | (drule clean_b, elim exE))+
  apply (simp only: run_state_return prod.inject)
  apply (elim conjE)
  subgoal by hypsubst (simp add: cfg_complete_def cfg_ints_def cfg_floats_def)
  done

text \<open>The structural checks, as the kernels rely on them.\<close>

definition cfg_ok :: "K3Cfg \<Rightarrow> bool" where
  "cfg_ok c \<longleftrightarrow> 0 < cf_n_layers c \<and> 0 < cf_hidden c \<and> 0 < cf_vocab c \<and> cf_topk c \<le> int K3_MAX_TOPK \<and>
     cf_topk c \<le> cf_n_experts c \<and> 0 < cf_attn_res_block c \<and> 1 \<le> cf_conv_k c \<and> cf_full_attn c \<noteq> [] \<and>
     int (length (cf_full_attn c)) < cf_n_layers c \<and> list_all (\<lambda>f. 1 \<le> f \<and> f \<le> cf_n_layers c) (cf_full_attn c)"

lemma first_outside_None: "first_outside c = None \<Longrightarrow> list_all (\<lambda>f. 1 \<le> f \<and> f \<le> cf_n_layers c) (cf_full_attn c)"
  by (auto simp: first_outside_def list_all_length filter_empty_conv not_less split: list.splits)

lemma structure_ok: "cfg_structure c = Inr c' \<Longrightarrow> cf_full_attn c \<noteq> [] \<Longrightarrow> c' = c \<and> cfg_ok c"
  using first_outside_None [of c] by (auto simp: cfg_structure_def cfg_ok_def split: if_splits option.splits)

lemma layer_list_ok: "layer_list i kids = Inr fa \<Longrightarrow> list_all2 (\<lambda>v f. \<exists>x. v = J_NUM x \<and> f = int_of_d x) kids fa"
  by (induction i kids arbitrary: fa rule: layer_list.induct) (auto split: sum.splits)

lemma missing_Inr: "cfg_missing s c = Inr c' \<Longrightarrow> cs_nmissing s = 0 \<and> cfg_structure c = Inr c'"
  by (auto simp: cfg_missing_def split: if_splits)

lemma cfg_load_ok:
  assumes "k3_cfg_load F fa_max root = Inr c"
  shows "cfg_complete F (cfg_src root) c \<and> cfg_ok c \<and>
    (\<exists>kids. k3cfg_find (cfg_src root) ''full_attn_layers'' None = Some (J_ARR kids) \<and> length kids \<le> fa_max \<and>
       list_all2 (\<lambda>v f. \<exists>x. v = J_NUM x \<and> f = int_of_d x) kids (cf_full_attn c))"
proof -
  obtain c0 s where run: "run_state (cfg_fields F) (cfg_src root) = (c0, s)" by fastforce
  have miss: "cfg_missing (k3cfg_miss n s) c0 \<noteq> Inr c" for n by (simp add: cfg_missing_def k3cfg_miss_def)
  obtain kids fa where k: "k3cfg_find s ''full_attn_layers'' None = Some (J_ARR kids)" "kids \<noteq> []" "length kids \<le> fa_max"
    "layer_list 0 kids = Inr fa" "cfg_missing s (c0\<lparr>cf_full_attn := fa\<rparr>) = Inr c"
    using assms run miss by (auto simp: k3_cfg_load_def split: option.splits jval.splits if_splits sum.splits)
  note m = missing_Inr [OF k(5)]
  have s: "s = cfg_src root" "cfg_complete F s c0"
    using fields_clean [OF run] m by (auto simp: cfg_src_def Let_def)
  have fa: "list_all2 (\<lambda>v f. \<exists>x. v = J_NUM x \<and> f = int_of_d x) kids fa" by (rule layer_list_ok [OF k(4)])
  then have "fa \<noteq> []" using k(2) by auto
  then have c: "c = c0\<lparr>cf_full_attn := fa\<rparr>" "cfg_ok c" using structure_ok m by (force, force)
  have "cfg_complete F s c" using s(2) by (simp add: c(1) cfg_complete_def cfg_ints_def cfg_floats_def)
  then show ?thesis using s(1) c k(1,3) fa by auto
qed

text \<open>Both kinds of attention occur in a loaded model.\<close>

lemma cfg_mixed:
  assumes "cfg_ok c"
  shows "(\<exists>l. 0 \<le> l \<and> l < cf_n_layers c \<and> k3_is_mla c l) \<and> (\<exists>l. 0 \<le> l \<and> l < cf_n_layers c \<and> k3_is_kda c l)"
proof
  have "hd (cf_full_attn c) \<in> set (cf_full_attn c)" using assms by (intro hd_in_set) (simp add: cfg_ok_def)
  then obtain f where "f \<in> set (cf_full_attn c)" ..
  then show "\<exists>l. 0 \<le> l \<and> l < cf_n_layers c \<and> k3_is_mla c l" using assms
    by (intro exI [of _ "f - 1"]) (auto simp: cfg_ok_def k3_is_mla_def list_all_iff list_ex_iff)
  show "\<exists>l. 0 \<le> l \<and> l < cf_n_layers c \<and> k3_is_kda c l"
  proof (rule ccontr)
    assume no: "\<not> ?thesis"
    have "{1..cf_n_layers c} \<subseteq> set (cf_full_attn c)"
    proof
      fix f assume "f \<in> {1..cf_n_layers c}"
      then have "k3_is_mla c (f - 1)" using no by (auto simp: k3_is_kda_def)
      then show "f \<in> set (cf_full_attn c)" by (simp add: k3_is_mla_def list_ex_iff)
    qed
    then have "card {1..cf_n_layers c} \<le> length (cf_full_attn c)"
      by (meson List.finite_set card_length card_mono le_trans)
    then show False using assms by (auto simp: cfg_ok_def)
  qed
qed

end
