(* ===== verification/K3_Cache.thy ===== *)
theory K3_Cache
  imports K3_Load K3_Config "HOL-Library.Signed_Division" "HOL-Library.Multiset"
begin

text \<open>
  The streaming expert cache, \<open>src/cache/k3_cache.c\<close>: a table of slots with LRU replacement and pinning,
  filled one expert at a time by \<open>get\<close> or a batch at a time by \<open>getmany\<close>. The arena is the list of its slot
  buffers, a pointer into it a slot and an offset. Every operation that reads takes the disk it reads from.
  The wall-clock sum \<open>load_seconds\<close> is not kept.
\<close>

section \<open>State\<close>

text \<open>\<open>key_of\<close> has three states: the sentinels \<open>-1\<close> and \<open>-2\<close>, or a key.\<close>

datatype slot_key = K3_SLOT_EMPTY | K3_SLOT_INFLIGHT | Holds nat

record K3Cache =
  n_layers :: int
  n_experts :: int
  slot_bytes :: int
  arena :: "bytes list"
  slot_of :: "nat option list"
  key_of :: "slot_key list"
  used_at :: "64 word list"
  pinned :: "bool list"
  ref_at :: "K3ExpertRef list"
  pad_at :: "int list"
  clock :: "64 word"
  hits :: "64 word"
  misses :: "64 word"
  evictions :: "64 word"
  bytes_read :: "64 word"
  prefetch_reads :: "64 word"
  hist :: "32 word list"
  trace :: "int list"
  captrace :: int

definition nslot :: "K3Cache \<Rightarrow> nat" where
  "nslot c = length (key_of c)"

section \<open>Slots\<close>

text \<open>\<open>fill_q\<close>: for each of the three matrices, where its nibbles and its scales start.\<close>

type_synonym arena_ptr = "nat \<times> int"
type_synonym K3ExpertQ = "(arena_ptr \<times> arena_ptr) list"

definition fill_q :: "K3Cache \<Rightarrow> nat \<Rightarrow> K3ExpertQ" where
  "fill_q c slot =
     (let b = pad_at c ! slot
      in map (\<lambda>m. ((slot, b + p_off m), (slot, b + s_off m))) (er_m (ref_at c ! slot)))"

fun victim_scan :: "K3Cache \<Rightarrow> nat list \<Rightarrow> nat option \<Rightarrow> 64 word \<Rightarrow> nat option" where
  "victim_scan c [] best oldest = best"
| "victim_scan c (i # is) best oldest =
     (case key_of c ! i of
        K3_SLOT_INFLIGHT \<Rightarrow> victim_scan c is best oldest
      | K3_SLOT_EMPTY \<Rightarrow> Some i
      | Holds k \<Rightarrow>
          if pinned c ! i then victim_scan c is best oldest
          else if used_at c ! i < oldest then victim_scan c is (Some i) (used_at c ! i)
          else victim_scan c is best oldest)"

definition pick_victim :: "K3Cache \<Rightarrow> nat option" where
  "pick_victim c = victim_scan c [0..<nslot c] None (- 1)"

text \<open>The line that both \<open>admit\<close> and \<open>cache_getmany\<close> run on the chosen slot.\<close>

definition evict :: "nat \<Rightarrow> K3Cache \<Rightarrow> K3Cache" where
  "evict slot c =
     (case key_of c ! slot of
        Holds k \<Rightarrow> c\<lparr>slot_of := (slot_of c)[k := None], evictions := evictions c + 1\<rparr>
      | _ \<Rightarrow> c)"

definition set_key :: "nat \<Rightarrow> slot_key \<Rightarrow> K3Cache \<Rightarrow> K3Cache" where
  "set_key slot k c = c\<lparr>key_of := (key_of c)[slot := k]\<rparr>"

definition touch :: "nat \<Rightarrow> K3Cache \<Rightarrow> K3Cache" where
  "touch slot c = c\<lparr>clock := clock c + 1, used_at := (used_at c)[slot := clock c + 1]\<rparr>"

definition publish :: "nat \<Rightarrow> nat \<Rightarrow> K3ExpertRef \<Rightarrow> int \<Rightarrow> K3Cache \<Rightarrow> K3Cache" where
  "publish slot key r pad c =
     touch slot (c\<lparr>ref_at := (ref_at c)[slot := r], pad_at := (pad_at c)[slot := to_int pad],
                   key_of := (key_of c)[slot := Holds key], slot_of := (slot_of c)[key := Some slot]\<rparr>)"

text \<open>A read into a slot's buffer.\<close>

definition load_slot :: "K3St \<Rightarrow> Disk \<Rightarrow> K3ExpertRef \<Rightarrow> nat \<Rightarrow> K3Cache \<Rightarrow> int \<times> int \<times> K3Cache" where
  "load_slot st dk r slot c =
     (let (got, pad, buf) = k3_expert_load_direct st dk r (arena c ! slot) (slot_bytes c)
      in (got, pad, c\<lparr>arena := (arena c)[slot := buf]\<rparr>))"

text \<open>The key of an expert, and whether it indexes the table.\<close>

definition key_ix :: "K3Cache \<Rightarrow> int \<Rightarrow> int \<Rightarrow> int" where
  "key_ix c layer expert = layer * n_experts c + expert"

definition key_valid :: "K3Cache \<Rightarrow> int \<Rightarrow> bool" where
  "key_valid c key \<longleftrightarrow> 0 \<le> key \<and> key < int (length (slot_of c))"

section \<open>One expert\<close>

text \<open>
  \<open>admit\<close>: the slot, or \<open>None\<close> for the error \<open>-1\<close>. The outer \<open>None\<close> is an access outside \<open>slot_of\<close>, which
  the function does not check for.
\<close>

definition admit_miss :: "K3St \<Rightarrow> Disk \<Rightarrow> int \<Rightarrow> int \<Rightarrow> nat \<Rightarrow> K3Cache \<Rightarrow> nat option \<times> K3Cache" where
  "admit_miss st dk layer expert key c =
     (case k3_expert_ref st layer expert of
        None \<Rightarrow> (None, c)
      | Some r \<Rightarrow>
          if er_nbytes r > slot_bytes c then (None, c)
          else case pick_victim c of
                 None \<Rightarrow> (None, c)
               | Some slot \<Rightarrow>
                   (let (got, pad, c1) = load_slot st dk r slot (evict slot c)
                    in if got \<noteq> er_nbytes r then (None, set_key slot K3_SLOT_EMPTY c1)
                       else (Some slot, publish slot key r pad (c1\<lparr>bytes_read := bytes_read c1 + of_int got\<rparr>))))"

definition admit :: "K3St \<Rightarrow> Disk \<Rightarrow> int \<Rightarrow> int \<Rightarrow> K3Cache \<Rightarrow> (nat option \<times> K3Cache) option" where
  "admit st dk layer expert c =
     (let key = key_ix c layer expert in
      if \<not> key_valid c key then None
      else Some (case slot_of c ! nat key of
                   Some slot \<Rightarrow> (Some slot, touch slot (c\<lparr>hits := hits c + 1\<rparr>))
                 | None \<Rightarrow> admit_miss st dk layer expert (nat key) (c\<lparr>misses := misses c + 1\<rparr>)))"

definition in_range :: "K3Cache \<Rightarrow> int \<Rightarrow> int \<Rightarrow> bool" where
  "in_range c layer expert \<longleftrightarrow> 0 \<le> layer \<and> layer < n_layers c \<and> 0 \<le> expert \<and> expert < n_experts c"

definition cache_resident :: "int \<Rightarrow> int \<Rightarrow> K3Cache \<Rightarrow> K3ExpertQ option" where
  "cache_resident layer expert c =
     (if \<not> in_range c layer expert then None
      else map_option (fill_q c) (slot_of c ! nat (key_ix c layer expert)))"

text \<open>The histogram and the trace, written before the request is served; \<open>grow\<close> is whether \<open>realloc\<close> succeeds.\<close>

definition record_request :: "bool \<Rightarrow> int \<Rightarrow> int \<Rightarrow> K3Cache \<Rightarrow> K3Cache" where
  "record_request grow layer expert c =
     (let k = nat (key_ix c layer expert);
          c1 = c\<lparr>hist := (hist c)[k := hist c ! k + 1]\<rparr>;
          c2 = (if int (length (trace c1)) + 2 > captrace c1 \<and> grow
                then c1\<lparr>captrace := (if captrace c1 \<noteq> 0 then captrace c1 * 2 else 65536)\<rparr> else c1)
      in if int (length (trace c2)) + 2 \<le> captrace c2
         then c2\<lparr>trace := trace c2 @ [layer, expert]\<rparr> else c2)"

text \<open>\<open>cache_get\<close>: the pointers, or \<open>None\<close> for \<open>-1\<close>; the outer \<open>None\<close> is an access out of bounds.\<close>

definition cache_get ::
  "K3St \<Rightarrow> Disk \<Rightarrow> bool \<Rightarrow> int \<Rightarrow> int \<Rightarrow> K3Cache \<Rightarrow> (K3ExpertQ option \<times> K3Cache) option" where
  "cache_get st dk grow layer expert c =
     (if \<not> in_range c layer expert then Some (None, c)
      else case admit st dk layer expert (record_request grow layer expert c) of
             None \<Rightarrow> None
           | Some (None, c') \<Rightarrow> Some (None, c')
           | Some (Some slot, c') \<Rightarrow> Some (Some (fill_q c' slot), c'))"

definition k3_cache_prefetch :: "K3St \<Rightarrow> Disk \<Rightarrow> int \<Rightarrow> int \<Rightarrow> K3Cache \<Rightarrow> (bool \<times> K3Cache) option" where
  "k3_cache_prefetch st dk layer expert c =
     map_option (\<lambda>(slot, c'). (slot \<noteq> None, c')) (admit st dk layer expert c)"

definition k3_cache_pin :: "int \<Rightarrow> int \<Rightarrow> bool \<Rightarrow> K3Cache \<Rightarrow> bool \<times> K3Cache" where
  "k3_cache_pin layer expert pin c =
     (let key = key_ix c layer expert in
      if key < 0 \<or> key \<ge> n_layers c * n_experts c then (False, c)
      else case slot_of c ! nat key of
             None \<Rightarrow> (False, c)
           | Some slot \<Rightarrow> (True, c\<lparr>pinned := (pinned c)[slot := pin]\<rparr>))"

definition k3_cache_reset_stats :: "K3Cache \<Rightarrow> K3Cache" where
  "k3_cache_reset_stats c =
     c\<lparr>hits := 0, misses := 0, evictions := 0, bytes_read := 0, prefetch_reads := 0\<rparr>"

section \<open>A batch\<close>

record Work =
  w_slot :: nat
  w_expert :: int
  w_r :: K3ExpertRef
  w_got :: int
  w_pad :: int

text \<open>Phase 1. The outer \<open>None\<close> is again an access out of bounds.\<close>

definition reserve_slot :: "int \<Rightarrow> K3ExpertRef \<Rightarrow> nat \<Rightarrow> Work list \<Rightarrow> K3Cache \<Rightarrow> Work list \<times> K3Cache" where
  "reserve_slot e r slot w c =
     (w @ [\<lparr>w_slot = slot, w_expert = e, w_r = r, w_got = - 1, w_pad = 0\<rparr>],
      touch slot (set_key slot K3_SLOT_INFLIGHT (evict slot c)))"

fun reserve :: "K3St \<Rightarrow> int \<Rightarrow> int list \<Rightarrow> Work list \<Rightarrow> K3Cache \<Rightarrow> (Work list \<times> K3Cache) option" where
  "reserve st layer [] w c = Some (w, c)"
| "reserve st layer (e # ids) w c =
     (if length w \<ge> K3_MAX_TOPK then Some (w, c)
      else if e < 0 \<or> e \<ge> n_experts c then reserve st layer ids w c
      else if \<not> key_valid c (key_ix c layer e) then None
      else if slot_of c ! nat (key_ix c layer e) \<noteq> None then reserve st layer ids w c
      else if e \<in> w_expert ` set w then reserve st layer ids w c
      else case k3_expert_ref st layer e of
             None \<Rightarrow> reserve st layer ids w c
           | Some r \<Rightarrow>
               if er_nbytes r > slot_bytes c then reserve st layer ids w c
               else case pick_victim c of
                      None \<Rightarrow> Some (w, c)
                    | Some slot \<Rightarrow> (let (w', c') = reserve_slot e r slot w c in reserve st layer ids w' c'))"

text \<open>The insertion sort by disk position; the sorted part is kept in reverse, nearest first.\<close>

definition after :: "Work \<Rightarrow> Work \<Rightarrow> bool" where
  "after x t \<longleftrightarrow> er_shard (w_r x) > er_shard (w_r t) \<or>
     (er_shard (w_r x) = er_shard (w_r t) \<and> er_off (w_r x) > er_off (w_r t))"

fun sift :: "Work \<Rightarrow> Work list \<Rightarrow> Work list" where
  "sift t [] = [t]"
| "sift t (x # xs) = (if after x t then x # sift t xs else t # x # xs)"

definition sort_work :: "Work list \<Rightarrow> Work list" where
  "sort_work ws = rev (fold sift ws [])"

text \<open>Phase 2: one read per entry. The entries are independent; see below for the order.\<close>

definition read_one :: "K3St \<Rightarrow> Disk \<Rightarrow> Work \<Rightarrow> K3Cache \<Rightarrow> Work \<times> K3Cache" where
  "read_one st dk w c =
     (let (got, pad, c') = load_slot st dk (w_r w) (w_slot w) c in (w\<lparr>w_got := got, w_pad := pad\<rparr>, c'))"

fun read_all :: "K3St \<Rightarrow> Disk \<Rightarrow> Work list \<Rightarrow> K3Cache \<Rightarrow> Work list \<times> K3Cache" where
  "read_all st dk [] c = ([], c)"
| "read_all st dk (w # ws) c =
     (let (w', c1) = read_one st dk w c; (ws', c2) = read_all st dk ws c1 in (w' # ws', c2))"

text \<open>Phase 3.\<close>

definition publish_one :: "int \<Rightarrow> Work \<Rightarrow> int \<times> K3Cache \<Rightarrow> int \<times> K3Cache" where
  "publish_one layer w = (\<lambda>(ok, c).
     if w_got w \<noteq> er_nbytes (w_r w) then (ok, set_key (w_slot w) K3_SLOT_EMPTY c)
     else let c1 = publish (w_slot w) (nat (key_ix c layer (w_expert w))) (w_r w) (w_pad w) c
          in (ok + 1, c1\<lparr>bytes_read := bytes_read c1 + of_int (w_got w), prefetch_reads := prefetch_reads c1 + 1\<rparr>))"

definition cache_getmany :: "K3St \<Rightarrow> Disk \<Rightarrow> int \<Rightarrow> int list \<Rightarrow> K3Cache \<Rightarrow> (int \<times> K3Cache) option" where
  "cache_getmany st dk layer ids c =
     (case reserve st layer ids [] c of
        None \<Rightarrow> None
      | Some (w, c1) \<Rightarrow>
          (let (w2, c2) = read_all st dk (sort_work w) c1
           in Some (fold (publish_one layer) w2 (0, c2))))"

section \<open>Initialisation\<close>

definition find_probe :: "K3St \<Rightarrow> K3Cfg \<Rightarrow> K3ExpertRef option" where
  "find_probe st cfg =
     foldr (\<lambda>L rest. if k3_is_dense cfg L then rest
                     else case k3_expert_ref st L 0 of Some r \<Rightarrow> Some r | None \<Rightarrow> rest)
       [0..cf_n_layers cfg - 1] None"

definition slot_stride :: "int \<Rightarrow> int" where
  "slot_stride nbytes = align_down (nbytes + 2 * K3_ST_ALIGN + K3_ST_ALIGN - 1)"

definition zero_ref :: K3ExpertRef where
  "zero_ref = \<lparr>er_layer = 0, er_expert = 0, er_shard = 0, er_off = 0, er_nbytes = 0, er_contiguous = False,
     er_m = replicate 3 \<lparr>p_off = 0, p_bytes = 0, s_off = 0, s_bytes = 0, qm_rows = 0, qm_pcols = 0, qm_scols = 0\<rparr>\<rparr>"

text \<open>
  \<open>mem\<close> is whether the allocations succeed; the fresh arena has arbitrary content, \<open>junk\<close> per slot. The model has the
  slots the code uses. The length asked of \<open>posix_memalign\<close> is rounded up to 2 MB behind the last slot, so the memory
  taken can exceed the budget by less than that.
\<close>

definition k3_cache_init ::
  "K3St \<Rightarrow> K3Cfg \<Rightarrow> int \<Rightarrow> bool \<Rightarrow> (nat \<Rightarrow> 8 word) \<Rightarrow> K3Cache option" where
  "k3_cache_init st cfg budget mem junk =
     (case find_probe st cfg of
        None \<Rightarrow> None
      | Some pr \<Rightarrow>
          (let sb = slot_stride (er_nbytes pr);
               ns = to_int (budget sdiv sb);
               nk = nat (cf_n_layers cfg * cf_n_experts cfg);
               n = nat ns
           in if ns < cf_topk cfg + 1 \<or> \<not> mem then None
              else Some \<lparr>n_layers = cf_n_layers cfg, n_experts = cf_n_experts cfg, slot_bytes = sb,
                arena = map (\<lambda>i. replicate (nat sb) (junk i)) [0..<n],
                slot_of = replicate nk None, key_of = replicate n K3_SLOT_EMPTY, used_at = replicate n 0,
                pinned = replicate n False, 
                ref_at = replicate n zero_ref,
                pad_at = replicate n 0, clock = 0, hits = 0, misses = 0, evictions = 0, bytes_read = 0,
                prefetch_reads = 0, hist = replicate nk 0, trace = [], captrace = 0\<rparr>))"

end
