(* ===== verification/K3_Cache_Laws.thy ===== *)
theory K3_Cache_Laws
  imports K3_Cache
begin

text \<open>
  What keeps the expert cache of \<open>K3_Cache\<close> correct: the well-formedness of its tables, that no operation
  moves a pinned expert, that a slot which claims an expert holds its bytes, and the choice of the victim.
\<close>

section \<open>Well-formed caches\<close>

definition tables_ok :: "K3Cache \<Rightarrow> bool" where
  "tables_ok c \<longleftrightarrow> 0 \<le> n_layers c \<and> 0 < n_experts c \<and> 0 \<le> slot_bytes c \<and>
     length (slot_of c) = nat (n_layers c * n_experts c) \<and> length (hist c) = length (slot_of c) \<and>
     length (arena c) = nslot c \<and> length (used_at c) = nslot c \<and> length (pinned c) = nslot c \<and>
     length (ref_at c) = nslot c \<and> length (pad_at c) = nslot c \<and>
     (\<forall>s < nslot c. length (arena c ! s) = nat (slot_bytes c))"

text \<open>\<open>slot_of\<close> and \<open>key_of\<close> are inverse to each other.\<close>

definition maps_ok :: "K3Cache \<Rightarrow> bool" where
  "maps_ok c \<longleftrightarrow>
     (\<forall>k s. k < length (slot_of c) \<and> slot_of c ! k = Some s \<longrightarrow> s < nslot c \<and> key_of c ! s = Holds k) \<and>
     (\<forall>s k. s < nslot c \<and> key_of c ! s = Holds k \<longrightarrow> k < length (slot_of c) \<and> slot_of c ! k = Some s)"

definition pins_ok :: "K3Cache \<Rightarrow> bool" where
  "pins_ok c \<longleftrightarrow> (\<forall>s < nslot c. pinned c ! s \<longrightarrow> (\<exists>k. key_of c ! s = Holds k))"

text \<open>The slot's reference is the one of its key, and its buffer holds that expert's bytes.\<close>

definition slot_serves :: "K3St \<Rightarrow> (int \<Rightarrow> bytes) \<Rightarrow> K3Cache \<Rightarrow> nat \<Rightarrow> nat \<Rightarrow> bool" where
  "slot_serves st file c s k \<longleftrightarrow>
     k3_expert_ref st (int k div n_experts c) (int k mod n_experts c) = Some (ref_at c ! s) \<and>
     holds_expert st file (ref_at c ! s) (pad_at c ! s) (arena c ! s)"

definition contents_ok :: "K3St \<Rightarrow> (int \<Rightarrow> bytes) \<Rightarrow> K3Cache \<Rightarrow> bool" where
  "contents_ok st file c \<longleftrightarrow> (\<forall>s < nslot c. \<forall>k. key_of c ! s = Holds k \<longrightarrow> slot_serves st file c s k)"

definition cache_wf :: "K3St \<Rightarrow> (int \<Rightarrow> bytes) \<Rightarrow> K3Cache \<Rightarrow> bool" where
  "cache_wf st file c \<longleftrightarrow> tables_ok c \<and> maps_ok c \<and> pins_ok c \<and> contents_ok st file c"

text \<open>Between operations no reservation is left.\<close>

definition idle :: "K3Cache \<Rightarrow> bool" where
  "idle c \<longleftrightarrow> K3_SLOT_INFLIGHT \<notin> set (key_of c)"

definition cache_inv :: "K3St \<Rightarrow> (int \<Rightarrow> bytes) \<Rightarrow> K3Cache \<Rightarrow> bool" where
  "cache_inv st file c \<longleftrightarrow> cache_wf st file c \<and> idle c"

lemmas wf_defs = cache_wf_def tables_ok_def maps_ok_def pins_ok_def contents_ok_def slot_serves_def nslot_def

lemma wf_slotD:
  "cache_wf st file c \<Longrightarrow> k < length (slot_of c) \<Longrightarrow> slot_of c ! k = Some s \<Longrightarrow> s < nslot c \<and> key_of c ! s = Holds k"
  unfolding cache_wf_def maps_ok_def by blast

lemma wf_keyD:
  "cache_wf st file c \<Longrightarrow> s < nslot c \<Longrightarrow> key_of c ! s = Holds k \<Longrightarrow> k < length (slot_of c) \<and> slot_of c ! k = Some s"
  unfolding cache_wf_def maps_ok_def by blast

lemma wf_pinD: "cache_wf st file c \<Longrightarrow> s < nslot c \<Longrightarrow> pinned c ! s \<Longrightarrow> \<exists>k. key_of c ! s = Holds k"
  unfolding cache_wf_def pins_ok_def by blast

text \<open>Counters, stamps and the request log are not part of it.\<close>

lemma wf_counters [simp]:
  "cache_wf st file (c\<lparr>hits := a\<rparr>) = cache_wf st file c"
  "cache_wf st file (c\<lparr>misses := a\<rparr>) = cache_wf st file c"
  "cache_wf st file (c\<lparr>bytes_read := a\<rparr>) = cache_wf st file c"
  "cache_wf st file (c\<lparr>prefetch_reads := a\<rparr>) = cache_wf st file c"
  "cache_wf st file (c\<lparr>evictions := a\<rparr>) = cache_wf st file c"
  "cache_wf st file (c\<lparr>clock := a\<rparr>) = cache_wf st file c"
  "cache_wf st file (c\<lparr>trace := t\<rparr>) = cache_wf st file c"
  "cache_wf st file (c\<lparr>captrace := i\<rparr>) = cache_wf st file c"
  by (simp_all add: wf_defs)

lemma wf_touch [simp]: "cache_wf st file (touch s c) = cache_wf st file c"
  by (simp add: wf_defs touch_def)

section \<open>The steps an operation is made of\<close>

text \<open>
  Taking a slot from whatever it holds. In \<open>admit\<close> the read lies between the two halves; it does not
  depend on \<open>key_of\<close>, so the order does not matter.
\<close>

definition free_slot :: "nat \<Rightarrow> slot_key \<Rightarrow> K3Cache \<Rightarrow> K3Cache" where
  "free_slot slot k c = set_key slot k (evict slot c)"

definition store :: "nat \<Rightarrow> bytes \<Rightarrow> K3Cache \<Rightarrow> K3Cache" where
  "store slot buf c = c\<lparr>arena := (arena c)[slot := buf]\<rparr>"

lemma evict_sel [simp]:
  "n_layers (evict s c) = n_layers c" "n_experts (evict s c) = n_experts c" "slot_bytes (evict s c) = slot_bytes c"
  "arena (evict s c) = arena c" "key_of (evict s c) = key_of c" "used_at (evict s c) = used_at c"
  "pinned (evict s c) = pinned c" "ref_at (evict s c) = ref_at c" "pad_at (evict s c) = pad_at c"
  "hist (evict s c) = hist c" "length (slot_of (evict s c)) = length (slot_of c)"
  by (simp_all add: evict_def split: slot_key.splits)

lemma set_key_sel [simp]:
  "n_layers (set_key s k c) = n_layers c" "n_experts (set_key s k c) = n_experts c" "slot_bytes (set_key s k c) = slot_bytes c"
  "arena (set_key s k c) = arena c" "key_of (set_key s k c) = (key_of c)[s := k]" "used_at (set_key s k c) = used_at c"
  "pinned (set_key s k c) = pinned c" "ref_at (set_key s k c) = ref_at c" "pad_at (set_key s k c) = pad_at c"
  "hist (set_key s k c) = hist c" "slot_of (set_key s k c) = slot_of c"
  by (simp_all add: set_key_def)

lemma slot_of_evict:
  "slot_of (evict s c) = (case key_of c ! s of Holds k \<Rightarrow> (slot_of c)[k := None] | _ \<Rightarrow> slot_of c)"
  by (simp add: evict_def split: slot_key.splits)

lemma free_publish: "publish s k r p (store s b (evict s c)) = publish s k r p (store s b (free_slot s e c))"
  by (simp add: publish_def store_def free_slot_def set_key_def touch_def evict_def split: slot_key.splits)

lemma free_store: "set_key s e (store s b (evict s c)) = store s b (free_slot s e c)"
  by (simp add: store_def free_slot_def set_key_def evict_def split: slot_key.splits)

lemma load_slot_store:
  "load_slot st dk r s c =
     (let (got, pad, buf) = k3_expert_load_direct st dk r (arena c ! s) (slot_bytes c) in (got, pad, store s buf c))"
  by (simp add: load_slot_def store_def)

lemma wf_free:
  assumes wf: "cache_wf st file c" and s: "s < nslot c" "\<not> pinned c ! s" and e: "e = K3_SLOT_EMPTY \<or> e = K3_SLOT_INFLIGHT"
  shows "cache_wf st file (free_slot s e c)"
proof -
  let ?c = "free_slot s e c"
  have mp: "\<And>k t. k < length (slot_of c) \<Longrightarrow> slot_of c ! k = Some t \<Longrightarrow> t < nslot c \<and> key_of c ! t = Holds k"
    "\<And>t k. t < nslot c \<Longrightarrow> key_of c ! t = Holds k \<Longrightarrow> k < length (slot_of c) \<and> slot_of c ! k = Some t"
    using wf_slotD [OF wf] wf_keyD [OF wf] by blast+
  have key: "key_of ?c ! t = Holds k \<longleftrightarrow> t \<noteq> s \<and> key_of c ! t = Holds k" if "t < nslot c" for t k
    using e s(1) by (cases "t = s") (auto simp: free_slot_def nslot_def)
  have slot: "slot_of ?c ! k = Some t \<longleftrightarrow> t \<noteq> s \<and> slot_of c ! k = Some t" if k: "k < length (slot_of c)" for k t
  proof (cases "key_of c ! s = Holds k")
    case True
    then have "slot_of c ! k = Some s" using mp(2) s(1) by blast
    then show ?thesis using True k by (auto simp: free_slot_def slot_of_evict)
  next
    case False
    then have ne: "slot_of c ! k \<noteq> Some s" using mp(1) [OF k] by blast
    have "slot_of ?c ! k = slot_of c ! k"
      using False by (cases "key_of c ! s") (simp_all add: free_slot_def slot_of_evict)
    then show ?thesis using ne by auto
  qed
  have len: "length (slot_of ?c) = length (slot_of c)" "nslot ?c = nslot c"
    by (simp_all add: free_slot_def nslot_def)
  have "tables_ok ?c" using wf by (simp add: cache_wf_def tables_ok_def free_slot_def nslot_def)
  moreover have "maps_ok ?c" unfolding maps_ok_def len using mp key slot by blast
  moreover have "pins_ok ?c"
    unfolding pins_ok_def len
  proof (intro allI impI)
    fix t assume t: "t < nslot c" "pinned ?c ! t"
    then have "pinned c ! t" by (simp add: free_slot_def)
    then show "\<exists>k. key_of ?c ! t = Holds k" using wf_pinD [OF wf t(1)] s(2) key [OF t(1)] by auto
  qed
  moreover have "contents_ok st file ?c"
    using wf key unfolding cache_wf_def contents_ok_def len by (simp add: slot_serves_def free_slot_def)
  ultimately show ?thesis by (simp add: cache_wf_def)
qed

lemma store_sel [simp]:
  "n_layers (store s b c) = n_layers c" "n_experts (store s b c) = n_experts c" "slot_bytes (store s b c) = slot_bytes c"
  "key_of (store s b c) = key_of c" "used_at (store s b c) = used_at c" "slot_of (store s b c) = slot_of c"
  "pinned (store s b c) = pinned c" "ref_at (store s b c) = ref_at c" "pad_at (store s b c) = pad_at c"
  "hist (store s b c) = hist c" "arena (store s b c) = (arena c)[s := b]"
  by (simp_all add: store_def)

lemma wf_store:
  assumes "cache_wf st file c" "length b = nat (slot_bytes c)" "\<And>k. key_of c ! s \<noteq> Holds k"
  shows "cache_wf st file (store s b c)"
proof -
  have "length ((arena c)[s := b] ! t) = nat (slot_bytes c)" if "t < nslot c" for t
  proof -
    have "t < length (arena c)" "length (arena c ! t) = nat (slot_bytes c)"
      using assms(1) that by (simp_all add: cache_wf_def tables_ok_def)
    then show ?thesis using assms(2) by (cases "t = s") simp_all
  qed
  then have "tables_ok (store s b c)"
    using assms(1) by (simp add: cache_wf_def tables_ok_def nslot_def)
  moreover have "maps_ok (store s b c) = maps_ok c" "pins_ok (store s b c) = pins_ok c"
    by (simp_all add: maps_ok_def pins_ok_def nslot_def)
  moreover have "contents_ok st file (store s b c)"
    unfolding contents_ok_def
  proof (intro allI impI)
    fix t k assume "t < nslot (store s b c)" and key: "key_of (store s b c) ! t = Holds k"
    then have t: "t < nslot c" "key_of c ! t = Holds k" by (simp_all add: nslot_def)
    then have "t \<noteq> s" using assms(3) by auto
    then show "slot_serves st file (store s b c) t k"
      using assms(1) t by (simp add: cache_wf_def contents_ok_def slot_serves_def)
  qed
  ultimately show ?thesis using assms(1) by (simp add: cache_wf_def)
qed

lemma wf_publish:
  assumes wf: "cache_wf st file c" and s: "s < nslot c" "\<And>k. key_of c ! s \<noteq> Holds k"
    and k: "k < length (slot_of c)" "slot_of c ! k = None"
    and content: "k3_expert_ref st (int k div n_experts c) (int k mod n_experts c) = Some r"
      "holds_expert st file r (to_int pad) (arena c ! s)"
  shows "cache_wf st file (publish s k r pad c)"
proof -
  let ?c = "publish s k r pad c"
  have len: "length (slot_of ?c) = length (slot_of c)" "nslot ?c = nslot c"
    by (simp_all add: publish_def touch_def nslot_def)
  have key: "key_of ?c ! t = (if t = s then Holds k else key_of c ! t)" if "t < nslot c" for t
    using that by (simp add: publish_def touch_def nslot_def nth_list_update)
  have slot: "slot_of ?c ! j = (if j = k then Some s else slot_of c ! j)" if "j < length (slot_of c)" for j
    using that by (simp add: publish_def touch_def nth_list_update)
  have "tables_ok ?c" using wf by (simp add: cache_wf_def tables_ok_def nslot_def publish_def touch_def)
  moreover have "maps_ok ?c"
    unfolding maps_ok_def len
  proof (intro conjI allI impI; elim conjE)
    fix j t assume j: "j < length (slot_of c)" "slot_of ?c ! j = Some t"
    have "t < nslot c \<and> (if t = s then Holds k else key_of c ! t) = Holds j"
    proof (cases "j = k")
      case False
      then have "t < nslot c \<and> key_of c ! t = Holds j"
        using wf_slotD [OF wf j(1)] j(2) slot [OF j(1)] by simp
      then show ?thesis using s(2) by auto
    qed (use j slot [OF j(1)] s(1) in simp)
    then show "t < nslot c" "key_of ?c ! t = Holds j" using key by simp_all
  next
    fix t j assume t: "t < nslot c" "key_of ?c ! t = Holds j"
    have "j < length (slot_of c) \<and> (if j = k then Some s else slot_of c ! j) = Some t"
    proof (cases "t = s")
      case False
      then have "j < length (slot_of c) \<and> slot_of c ! j = Some t"
        using wf_keyD [OF wf t(1)] t(2) key [OF t(1)] by simp
      then show ?thesis using k(2) by auto
    qed (use t key [OF t(1)] k(1) in simp)
    then show "j < length (slot_of c)" "slot_of ?c ! j = Some t" using slot by simp_all
  qed
  moreover have "pins_ok ?c"
    unfolding pins_ok_def len
  proof (intro allI impI)
    fix t assume t: "t < nslot c" "pinned ?c ! t"
    then have "pinned c ! t" by (simp add: publish_def touch_def)
    then show "\<exists>j. key_of ?c ! t = Holds j" using wf_pinD [OF wf t(1)] key [OF t(1)] by simp
  qed
  moreover have "contents_ok st file ?c"
    unfolding contents_ok_def len
  proof (intro allI impI)
    fix t j assume t: "t < nslot c" "key_of ?c ! t = Holds j"
    show "slot_serves st file ?c t j"
    proof (cases "t = s")
      case True
      have "s < length (ref_at c)" "s < length (pad_at c)" using wf s(1) by (simp_all add: cache_wf_def tables_ok_def)
      then show ?thesis using True t content key [OF t(1)] by (simp add: slot_serves_def publish_def touch_def)
    next
      case False
      then show ?thesis using wf t key [OF t(1)]
        by (simp add: cache_wf_def contents_ok_def slot_serves_def publish_def touch_def)
    qed
  qed
  ultimately show ?thesis by (simp add: cache_wf_def)
qed

section \<open>The victim\<close>

definition evictable :: "K3Cache \<Rightarrow> nat \<Rightarrow> bool" where
  "evictable c i \<longleftrightarrow> (\<exists>k. key_of c ! i = Holds k) \<and> \<not> pinned c ! i"

lemma victim_scan_Some:
  "victim_scan c is best oldest = Some s \<Longrightarrow>
   (s \<in> set is \<and> key_of c ! s = K3_SLOT_EMPTY) \<or>
   (\<forall>i\<in>set is. key_of c ! i \<noteq> K3_SLOT_EMPTY) \<and>
     (best = Some s \<and> (\<forall>i\<in>set is. evictable c i \<longrightarrow> oldest \<le> used_at c ! i) \<or>
      s \<in> set is \<and> evictable c s \<and> used_at c ! s < oldest \<and>
        (\<forall>i\<in>set is. evictable c i \<longrightarrow> used_at c ! s \<le> used_at c ! i))"
proof (induction "is" arbitrary: best oldest)
  case (Cons i "is")
  note IH = Cons.IH and run = Cons.prems
  show ?case
  proof (cases "key_of c ! i = K3_SLOT_EMPTY")
    case True
    then show ?thesis using run by simp
  next
    case ne: False
    show ?thesis
    proof (cases "evictable c i \<and> used_at c ! i < oldest")
      case True
      then have "victim_scan c is (Some i) (used_at c ! i) = Some s" using run by (auto simp: evictable_def)
      from IH [OF this] True ne show ?thesis by auto
    next
      case False
      then have "victim_scan c is best oldest = Some s"
        using run ne by (auto simp: evictable_def split: slot_key.splits if_splits)
      from IH [OF this] False ne show ?thesis by auto
    qed
  qed
qed simp

lemma victim_scan_None:
  "victim_scan c is best oldest = None \<Longrightarrow>
   best = None \<and> (\<forall>i\<in>set is. key_of c ! i \<noteq> K3_SLOT_EMPTY \<and> (evictable c i \<longrightarrow> oldest \<le> used_at c ! i))"
proof (induction "is" arbitrary: best oldest)
  case (Cons i "is")
  note IH = Cons.IH and run = Cons.prems
  have ne: "key_of c ! i \<noteq> K3_SLOT_EMPTY" using run by auto
  show ?case
  proof (cases "evictable c i \<and> used_at c ! i < oldest")
    case True
    then have "victim_scan c is (Some i) (used_at c ! i) = None" using run by (auto simp: evictable_def)
    from IH [OF this] show ?thesis by simp
  next
    case False
    then have "victim_scan c is best oldest = None"
      using run ne by (auto simp: evictable_def split: slot_key.splits if_splits)
    from IH [OF this] False ne show ?thesis by auto
  qed
qed simp

text \<open>
  The victim is an empty slot if there is one, and otherwise the unpinned slot that was used least
  recently. There is none exactly when every slot is reserved, pinned, or carries the largest stamp.
\<close>

lemma pick_victim_Some:
  assumes "pick_victim c = Some s"
  shows "s < nslot c \<and> (key_of c ! s = K3_SLOT_EMPTY \<or>
    evictable c s \<and> (\<forall>i < nslot c. key_of c ! i \<noteq> K3_SLOT_EMPTY \<and> (evictable c i \<longrightarrow> used_at c ! s \<le> used_at c ! i)))"
  using victim_scan_Some [OF assms [unfolded pick_victim_def]] by auto

lemma pick_victim_None:
  assumes "pick_victim c = None" "i < nslot c"
  shows "key_of c ! i \<noteq> K3_SLOT_EMPTY \<and> (evictable c i \<longrightarrow> used_at c ! i = - 1)"
  using victim_scan_None [OF assms(1) [unfolded pick_victim_def]] assms(2)
  by (auto dest: antisym [OF word_n1_ge])

lemma victim_free:
  assumes "cache_wf st file c" "pick_victim c = Some s"
  shows "s < nslot c" "\<not> pinned c ! s" "key_of c ! s \<noteq> K3_SLOT_INFLIGHT"
proof -
  note v = pick_victim_Some [OF assms(2)]
  show s: "s < nslot c" "key_of c ! s \<noteq> K3_SLOT_INFLIGHT" using v by (auto simp: evictable_def)
  show "\<not> pinned c ! s" using v wf_pinD [OF assms(1) s(1)] by (auto simp: evictable_def)
qed

section \<open>Nothing pinned moves\<close>

text \<open>
  The geometry stays, and every pinned expert keeps its slot, its reference and its bytes.
\<close>

definition pinned_at :: "K3Cache \<Rightarrow> nat \<Rightarrow> nat \<Rightarrow> (bytes \<times> K3ExpertRef \<times> int) option" where
  "pinned_at c k s =
     (if k < length (slot_of c) \<and> slot_of c ! k = Some s \<and> pinned c ! s
      then Some (arena c ! s, ref_at c ! s, pad_at c ! s) else None)"

definition evolves :: "K3Cache \<Rightarrow> K3Cache \<Rightarrow> bool" where
  "evolves c c' \<longleftrightarrow> n_layers c' = n_layers c \<and> n_experts c' = n_experts c \<and> slot_bytes c' = slot_bytes c \<and>
     nslot c' = nslot c \<and> length (slot_of c') = length (slot_of c) \<and>
     (\<forall>k s x. pinned_at c k s = Some x \<longrightarrow> pinned_at c' k s = Some x)"

lemma evolves_refl [simp]: "evolves c c"
  by (simp add: evolves_def)

lemma evolves_trans [trans]: "evolves a b \<Longrightarrow> evolves b c \<Longrightarrow> evolves a c"
  by (simp add: evolves_def)

lemma evolves_pinned: "evolves c c' \<Longrightarrow> pinned_at c k s = Some x \<Longrightarrow> pinned_at c' k s = Some x"
  unfolding evolves_def by blast

lemma evolves_counters [simp]:
  "evolves a (c\<lparr>hits := x\<rparr>) = evolves a c"
  "evolves a (c\<lparr>misses := x\<rparr>) = evolves a c"
  "evolves a (c\<lparr>bytes_read := x\<rparr>) = evolves a c"
  "evolves a (c\<lparr>prefetch_reads := x\<rparr>) = evolves a c"
  "evolves a (c\<lparr>trace := t\<rparr>) = evolves a c"
  "evolves a (c\<lparr>captrace := i\<rparr>) = evolves a c"
  "evolves a (c\<lparr>hist := h\<rparr>) = evolves a c"
  by (simp_all add: evolves_def nslot_def pinned_at_def)

lemma evolves_touch [simp]: "evolves a (touch s c) = evolves a c"
  by (simp add: evolves_def touch_def nslot_def pinned_at_def)

lemma evolves_free:
  assumes "cache_wf st file c" "s < nslot c" "\<not> pinned c ! s"
  shows "evolves c (free_slot s e c)"
proof -
  have "slot_of (free_slot s e c) ! k = Some t"
    if "k < length (slot_of c)" "slot_of c ! k = Some t" "pinned c ! t" for k t
  proof -
    have "key_of c ! s \<noteq> Holds k" using wf_keyD [OF assms(1,2)] that assms(3) by auto
    then show ?thesis using that(2) by (cases "key_of c ! s") (simp_all add: free_slot_def slot_of_evict)
  qed
  then show ?thesis by (simp add: evolves_def pinned_at_def free_slot_def nslot_def)
qed

lemma evolves_store:
  assumes "\<not> pinned c ! s"
  shows "evolves c (store s b c)"
proof -
  have "pinned_at (store s b c) k t = pinned_at c k t" if "t \<noteq> s" for k t
    using that by (simp add: pinned_at_def)
  moreover have "pinned_at c k s = None" for k using assms by (simp add: pinned_at_def)
  ultimately show ?thesis unfolding evolves_def by (auto simp: nslot_def) (metis option.distinct(1))
qed

lemma evolves_publish:
  assumes "\<not> pinned c ! s" "slot_of c ! k = None"
  shows "evolves c (publish s k r pad c)"
proof -
  have "pinned_at (publish s k r pad c) j t = pinned_at c j t" if "t \<noteq> s" "j \<noteq> k" for j t
    using that by (simp add: pinned_at_def publish_def touch_def)
  moreover have "pinned_at c j s = None" "pinned_at c k t = None" for j t
    using assms by (simp_all add: pinned_at_def)
  ultimately show ?thesis
    unfolding evolves_def by (auto simp: nslot_def publish_def touch_def) (metis option.distinct(1))
qed

section \<open>Keys\<close>

lemma to_int_small: "- 2147483648 \<le> x \<Longrightarrow> x < 2147483648 \<Longrightarrow> to_int x = x"
  by (simp add: to_int_def signed_of_int signed_take_bit_int_eq_self)

lemma in_range_key:
  assumes "tables_ok c" "in_range c layer expert"
  defines "k \<equiv> key_ix c layer expert"
  shows "key_valid c k" "nat k < length (slot_of c)" "int (nat k) div n_experts c = layer"
    "int (nat k) mod n_experts c = expert"
proof -
  have r: "0 \<le> layer" "layer < n_layers c" "0 \<le> expert" "expert < n_experts c" "0 < n_experts c"
    using assms(1,2) by (auto simp: in_range_def tables_ok_def)
  have "(layer + 1) * n_experts c \<le> n_layers c * n_experts c"
    using r by (intro mult_right_mono) auto
  then have lt: "k < n_layers c * n_experts c" using r unfolding k_def key_ix_def by (simp add: distrib_right)
  have ge: "0 \<le> k" using r by (simp add: k_def key_ix_def)
  show "key_valid c k" "nat k < length (slot_of c)"
    using assms(1) lt ge by (auto simp: key_valid_def tables_ok_def)
  show "int (nat k) div n_experts c = layer" "int (nat k) mod n_experts c = expert"
    using ge r by (simp_all add: k_def key_ix_def)
qed

section \<open>One expert\<close>

lemma idle_set_key: "idle c \<Longrightarrow> k \<noteq> K3_SLOT_INFLIGHT \<Longrightarrow> idle (set_key s k c)"
  unfolding idle_def using set_update_subset_insert [of "key_of c" s k] by auto

lemma idle_publish: "idle c \<Longrightarrow> idle (publish s k r p c)"
  unfolding idle_def using set_update_subset_insert [of "key_of c" s "Holds k"]
  by (auto simp: publish_def touch_def)

lemma idle_sel [simp]:
  "idle (evict s c) = idle c" "idle (store s b c) = idle c" "idle (touch s c) = idle c"
  "idle (c\<lparr>hits := x\<rparr>) = idle c" "idle (c\<lparr>misses := x\<rparr>) = idle c" "idle (c\<lparr>bytes_read := x\<rparr>) = idle c"
  "idle (c\<lparr>prefetch_reads := x\<rparr>) = idle c"
  by (simp_all add: idle_def touch_def)

text \<open>A read into a slot that holds nothing: it stays inside the slot, and a full read may be published.\<close>

lemma slot_load:
  assumes wf: "cache_wf st file c" and st: "st_sane st" and dk: "dk_file dk = file"
    and s: "s < nslot c" and ref: "k3_expert_ref st layer expert = Some r" "er_nbytes r \<le> slot_bytes c"
    and run: "k3_expert_load_direct st dk r (arena c ! s) (slot_bytes c) = (got, pad, buf)"
  shows "length buf = nat (slot_bytes c)"
    "got = er_nbytes r \<Longrightarrow> to_int pad = pad \<and> holds_expert st file r pad buf"
proof -
  have len: "length (arena c ! s) = nat (slot_bytes c)" "0 \<le> slot_bytes c"
    using wf s by (auto simp: cache_wf_def tables_ok_def)
  then have sb: "slot_bytes c = int (length (arena c ! s))" by simp
  note ld = full_load_holds [OF st ref(1) ref(2) [unfolded sb] run [unfolded sb]]
  show "length buf = nat (slot_bytes c)" using ld(1) len by simp
  show "to_int pad = pad \<and> holds_expert st file r pad buf" if "got = er_nbytes r"
    using ld(2) [OF that] dk by (simp add: to_int_small)
qed

lemma free_slot_sel [simp]:
  "n_layers (free_slot s e c) = n_layers c" "n_experts (free_slot s e c) = n_experts c"
  "slot_bytes (free_slot s e c) = slot_bytes c" "arena (free_slot s e c) = arena c"
  "key_of (free_slot s e c) = (key_of c)[s := e]" "pinned (free_slot s e c) = pinned c"
  "ref_at (free_slot s e c) = ref_at c" "pad_at (free_slot s e c) = pad_at c"
  "length (slot_of (free_slot s e c)) = length (slot_of c)" "nslot (free_slot s e c) = nslot c"
  by (simp_all add: free_slot_def nslot_def)

lemma free_slot_absent: "slot_of c ! k = None \<Longrightarrow> k < length (slot_of c) \<Longrightarrow> slot_of (free_slot s e c) ! k = None"
  by (cases "key_of c ! s") (auto simp: free_slot_def slot_of_evict, metis nth_list_update_eq nth_list_update_neq)

text \<open>The two outcomes of reading expert \<open>r\<close> into the freed slot \<open>s\<close>.\<close>

lemma refill_ok:
  assumes wf: "cache_wf st file c" and st: "st_sane st" and dk: "dk_file dk = file"
    and s: "s < nslot c" "\<not> pinned c ! s"
    and k: "k < length (slot_of c)" "slot_of c ! k = None"
    and ref: "k3_expert_ref st (int k div n_experts c) (int k mod n_experts c) = Some r" "er_nbytes r \<le> slot_bytes c"
    and run: "k3_expert_load_direct st dk r (arena c ! s) (slot_bytes c) = (got, pad, buf)"
  defines "c1 \<equiv> store s buf (free_slot s K3_SLOT_EMPTY c)"
  shows "cache_wf st file c1" "evolves c c1"
    "got = er_nbytes r \<Longrightarrow> cache_wf st file (publish s k r pad c1) \<and> evolves c (publish s k r pad c1) \<and>
       slot_of (publish s k r pad c1) ! k = Some s"
proof -
  let ?f = "free_slot s K3_SLOT_EMPTY c"
  have wff: "cache_wf st file ?f" by (rule wf_free [OF wf s]) simp
  have empty: "key_of ?f ! s = K3_SLOT_EMPTY" using s(1) by (simp add: nslot_def)
  note ld = slot_load [OF wf st dk s(1) ref run]
  show wf1: "cache_wf st file c1" unfolding c1_def by (rule wf_store [OF wff]) (use ld(1) empty in simp_all)
  have ef: "evolves c ?f" by (rule evolves_free [OF wf s])
  also have "evolves ?f c1" unfolding c1_def by (rule evolves_store) (use s(2) in simp)
  finally show ev1: "evolves c c1" .
  assume full: "got = er_nbytes r"
  have none: "slot_of c1 ! k = None" unfolding c1_def using free_slot_absent [OF k(2,1)] by simp
  have sl: "s < length (arena c)" using wf s(1) by (simp add: cache_wf_def tables_ok_def)
  have "cache_wf st file (publish s k r pad c1)"
    by (rule wf_publish [OF wf1]) (use s k none ref ld(2) [OF full] empty sl in \<open>simp_all add: c1_def nslot_def\<close>)
  moreover have "evolves c1 (publish s k r pad c1)"
    by (rule evolves_publish) (use s(2) none in \<open>simp_all add: c1_def\<close>)
  moreover have "slot_of (publish s k r pad c1) ! k = Some s"
    using k(1) by (simp add: publish_def touch_def c1_def)
  ultimately show "cache_wf st file (publish s k r pad c1) \<and> evolves c (publish s k r pad c1) \<and>
       slot_of (publish s k r pad c1) ! k = Some s"
    using ev1 evolves_trans by blast
qed

lemma admit_miss_ok:
  assumes wf: "cache_wf st file c" and st: "st_sane st" and dk: "dk_file dk = file"
    and rng: "in_range c layer expert" and key: "key = nat (key_ix c layer expert)"
    and absent: "slot_of c ! key = None"
    and run: "admit_miss st dk layer expert key c = (res, c')"
  shows "cache_wf st file c' \<and> evolves c c' \<and> (idle c \<longrightarrow> idle c') \<and> (\<forall>s. res = Some s \<longrightarrow> slot_of c' ! key = Some s)"
proof (cases "res = None \<and> c' = c")
  case False
  note kf = in_range_key [OF _ rng]
  have k: "key < length (slot_of c)" "int key div n_experts c = layer" "int key mod n_experts c = expert"
    using kf(2-4) wf by (auto simp: cache_wf_def key)
  obtain r s where r: "k3_expert_ref st layer expert = Some r" "er_nbytes r \<le> slot_bytes c" "pick_victim c = Some s"
    using run False by (auto simp: admit_miss_def split: option.splits if_splits)
  have fits: "\<not> slot_bytes c < er_nbytes r" using r(2) by simp
  obtain got pad buf where ld: "k3_expert_load_direct st dk r (arena c ! s) (slot_bytes c) = (got, pad, buf)"
    by (metis prod.exhaust)
  note v = victim_free [OF wf r(3)]
  note ok = refill_ok [OF wf st dk v(1,2) k(1) absent _ r(2) ld, unfolded k(2,3), OF r(1)]
  let ?c1 = "store s buf (free_slot s K3_SLOT_EMPTY c)"
  have idle1: "idle c \<Longrightarrow> idle ?c1" by (simp add: free_slot_def idle_set_key)
  show ?thesis
  proof (cases "got = er_nbytes r")
    case True
    let ?b = "\<lambda>c. c\<lparr>bytes_read := bytes_read c + of_int got\<rparr>"
    have pub: "publish s key r pad (?b (store s buf (evict s c))) = ?b (publish s key r pad ?c1)"
      using free_publish [of s key r pad buf c K3_SLOT_EMPTY]
      by (simp add: publish_def touch_def store_def free_slot_def set_key_def evict_def split: slot_key.splits)
    have "res = Some s" "c' = ?b (publish s key r pad ?c1)"
      using run True by (simp_all add: admit_miss_def r fits load_slot_store ld Let_def pub [unfolded True])
    then show ?thesis using ok(3) [OF True] idle1 idle_publish by auto
  next
    case False
    then have "res = None" "c' = ?c1"
      using run by (simp_all add: admit_miss_def r fits load_slot_store ld Let_def free_store)
    then show ?thesis using ok(1,2) idle1 by simp
  qed
qed (use wf in simp)

lemma admit_ok:
  assumes wf: "cache_wf st file c" and st: "st_sane st" and dk: "dk_file dk = file"
    and rng: "in_range c layer expert"
  shows "\<exists>res c'. admit st dk layer expert c = Some (res, c') \<and> cache_wf st file c' \<and> evolves c c' \<and>
    (idle c \<longrightarrow> idle c') \<and> (\<forall>s. res = Some s \<longrightarrow> slot_of c' ! nat (key_ix c layer expert) = Some s)"
proof -
  let ?k = "key_ix c layer expert"
  have v: "key_valid c ?k" using in_range_key(1) [OF _ rng] wf by (simp add: cache_wf_def)
  show ?thesis
  proof (cases "slot_of c ! nat ?k")
    case (Some s)
    moreover have "slot_of (touch s (c\<lparr>hits := hits c + 1\<rparr>)) = slot_of c" by (simp add: touch_def)
    ultimately show ?thesis using v wf by (simp add: admit_def Let_def)
  next
    case None
    let ?c = "c\<lparr>misses := misses c + 1\<rparr>"
    obtain res c' where run: "admit_miss st dk layer expert (nat ?k) ?c = (res, c')" by fastforce
    have "cache_wf st file c' \<and> evolves ?c c' \<and> (idle ?c \<longrightarrow> idle c') \<and> (\<forall>s. res = Some s \<longrightarrow> slot_of c' ! nat ?k = Some s)"
      by (rule admit_miss_ok [OF _ st dk _ _ _ run]) (use wf rng None in \<open>simp_all add: in_range_def key_ix_def\<close>)
    moreover from this have "evolves c c'" using evolves_trans [of c ?c c'] by simp
    ultimately show ?thesis using v None run by (auto simp: admit_def Let_def)
  qed
qed

section \<open>What a pointer reads\<close>

definition read_ptr :: "K3Cache \<Rightarrow> arena_ptr \<Rightarrow> int \<Rightarrow> bytes" where
  "read_ptr c p n = slice (arena c ! fst p) (snd p) n"

definition ptr_inside :: "K3Cache \<Rightarrow> arena_ptr \<Rightarrow> int \<Rightarrow> bool" where
  "ptr_inside c p n \<longleftrightarrow> fst p < nslot c \<and> 0 \<le> snd p \<and> snd p + n \<le> slot_bytes c"

text \<open>A pointer to a whole tensor: inside one slot, and reading the tensor's bytes of the checkpoint.\<close>

definition reads_tensor :: "(int \<Rightarrow> bytes) \<Rightarrow> K3Cache \<Rightarrow> arena_ptr \<Rightarrow> K3Tensor \<Rightarrow> bool" where
  "reads_tensor file c p t \<longleftrightarrow> ptr_inside c p (t_nbytes t) \<and>
     read_ptr c p (t_nbytes t) = slice (file (t_shard t)) (t_off t) (t_nbytes t)"

definition q_serves :: "K3St \<Rightarrow> (int \<Rightarrow> bytes) \<Rightarrow> K3Cache \<Rightarrow> int \<Rightarrow> int \<Rightarrow> K3ExpertQ \<Rightarrow> bool" where
  "q_serves st file c layer expert q \<longleftrightarrow> length q = 3 \<and>
     (\<forall>i < 3. \<exists>p s. find_pair st layer expert (W ! i) = Some (p, s) \<and>
       reads_tensor file c (fst (q ! i)) p \<and> reads_tensor file c (snd (q ! i)) s)"

lemma fill_q_serves:
  assumes wf: "cache_wf st file c" and rng: "in_range c layer expert"
    and slot: "slot_of c ! nat (key_ix c layer expert) = Some s"
  shows "q_serves st file c layer expert (fill_q c s)"
proof -
  have tab: "tables_ok c" using wf by (simp add: cache_wf_def)
  note k = in_range_key [OF tab rng]
  have s: "s < nslot c" "key_of c ! s = Holds (nat (key_ix c layer expert))"
    using wf_slotD [OF wf k(2) slot] by simp_all
  then have sv: "k3_expert_ref st layer expert = Some (ref_at c ! s)"
    "holds_expert st file (ref_at c ! s) (pad_at c ! s) (arena c ! s)"
    using wf k(3,4) unfolding cache_wf_def contents_ok_def slot_serves_def by auto
  have len: "int (length (arena c ! s)) = slot_bytes c" using tab s(1) by (simp add: tables_ok_def)
  note eb = expert_ref_bytes [OF sv(1)]
  show ?thesis
    unfolding q_serves_def
  proof (intro conjI allI impI)
    show "length (fill_q c s) = 3" using eb by (simp add: fill_q_def Let_def)
  next
    fix i :: nat assume i: "i < 3"
    let ?m = "er_m (ref_at c ! s) ! i"
    obtain p t where pc: "find_pair st layer expert (W ! i) = Some (p, t)"
      and bytes: "p_bytes ?m = t_nbytes p" "s_bytes ?m = t_nbytes t"
      using eb i by fastforce
    have h: "qmat_inside (slot_bytes c - pad_at c ! s) ?m" "serves file (arena c ! s) (pad_at c ! s) ?m (p, t)"
      "0 \<le> pad_at c ! s"
      using sv(2) i len eb pc by (auto simp: holds_expert_def)
    have q: "fill_q c s ! i = ((s, pad_at c ! s + p_off ?m), (s, pad_at c ! s + s_off ?m))"
      using i eb by (simp add: fill_q_def Let_def)
    show "\<exists>p t. find_pair st layer expert (W ! i) = Some (p, t) \<and>
       reads_tensor file c (fst (fill_q c s ! i)) p \<and> reads_tensor file c (snd (fill_q c s ! i)) t"
      using pc h bytes s(1)
      by (auto simp: q reads_tensor_def ptr_inside_def read_ptr_def serves_def qmat_inside_def)
  qed
qed

section \<open>The operations of the interface\<close>

lemma record_request_sel [simp]:
  "in_range (record_request g l e c) = in_range c" "key_ix (record_request g l e c) = key_ix c"
  "idle (record_request g l e c) = idle c" "slot_of (record_request g l e c) = slot_of c"
  by (auto simp: record_request_def Let_def in_range_def key_ix_def idle_def fun_eq_iff)

lemma wf_hist [simp]: "length h = length (hist c) \<Longrightarrow> cache_wf st file (c\<lparr>hist := h\<rparr>) = cache_wf st file c"
  by (simp add: wf_defs)

lemma record_request_ok [simp]:
  "cache_wf st file (record_request g l e c) = cache_wf st file c"
  "evolves c (record_request g l e c)"
  by (simp_all add: record_request_def Let_def)

lemma cache_get_ok:
  assumes inv: "cache_inv st file c" and st: "st_sane st" and dk: "dk_file dk = file"
  shows "\<exists>q c'. cache_get st dk grow layer expert c = Some (q, c') \<and> cache_inv st file c' \<and> evolves c c' \<and>
    (\<forall>x. q = Some x \<longrightarrow> in_range c layer expert \<and> q_serves st file c' layer expert x \<and>
      cache_resident layer expert c' = Some x)"
proof (cases "in_range c layer expert")
  case True
  let ?c = "record_request grow layer expert c"
  have wf: "cache_wf st file ?c" "idle ?c" "in_range ?c layer expert" using inv True by (simp_all add: cache_inv_def)
  obtain res c' where run: "admit st dk layer expert ?c = Some (res, c')"
    and ok: "cache_wf st file c'" "evolves ?c c'" "idle c'"
    and sl: "\<forall>s. res = Some s \<longrightarrow> slot_of c' ! nat (key_ix ?c layer expert) = Some s"
    using admit_ok [OF wf(1) st dk wf(3)] wf(2) by blast
  have ev: "evolves c c'" using evolves_trans [OF record_request_ok(2) ok(2)] .
  then have same: "in_range c' = in_range c" "key_ix c' = key_ix c"
    by (auto simp: evolves_def in_range_def key_ix_def fun_eq_iff)
  show ?thesis
  proof (cases res)
    case None
    then show ?thesis using True run ok ev by (simp add: cache_get_def cache_inv_def)
  next
    case (Some s)
    have "q_serves st file c' layer expert (fill_q c' s)"
      by (rule fill_q_serves [OF ok(1)]) (use True same sl Some in simp_all)
    moreover have "cache_resident layer expert c' = Some (fill_q c' s)"
      using True same sl Some by (simp add: cache_resident_def)
    ultimately show ?thesis using True run ok ev Some by (simp add: cache_get_def cache_inv_def)
  qed
qed (use inv in \<open>simp add: cache_get_def\<close>)

lemma cache_resident_ok:
  assumes "cache_inv st file c" "cache_resident layer expert c = Some q"
  shows "in_range c layer expert \<and> q_serves st file c layer expert q"
  using assms fill_q_serves by (auto simp: cache_resident_def cache_inv_def split: if_splits)

text \<open>A get of a resident expert reads nothing and serves what \<open>resident\<close> would.\<close>

lemma get_hit:
  assumes "cache_inv st file c" "cache_resident layer expert c = Some q"
  shows "\<exists>c'. cache_get st dk grow layer expert c = Some (Some q, c') \<and> arena c' = arena c \<and> slot_of c' = slot_of c"
proof -
  let ?k = "nat (key_ix c layer expert)"
  obtain s where s: "in_range c layer expert" "slot_of c ! ?k = Some s" "q = fill_q c s"
    using assms(2) by (auto simp: cache_resident_def split: if_splits)
  have "key_valid c (key_ix c layer expert)"
    using in_range_key(1) [OF _ s(1)] assms(1) by (simp add: cache_inv_def cache_wf_def)
  moreover have "arena (record_request grow layer expert c) = arena c"
    "pad_at (record_request grow layer expert c) = pad_at c" "ref_at (record_request grow layer expert c) = ref_at c"
    by (simp_all add: record_request_def Let_def)
  ultimately show ?thesis
    using s by (simp add: cache_get_def admit_def Let_def touch_def fill_q_def key_valid_def)
qed

lemma pin_ok:
  assumes "cache_inv st file c" "k3_cache_pin layer expert pin c = (ok, c')"
  shows "cache_inv st file c'"
proof (cases "c' = c")
  case False
  let ?k = "key_ix c layer expert"
  obtain s where s: "0 \<le> ?k" "?k < n_layers c * n_experts c" "slot_of c ! nat ?k = Some s"
    "c' = c\<lparr>pinned := (pinned c)[s := pin]\<rparr>"
    using assms(2) False by (auto simp: k3_cache_pin_def Let_def split: if_splits option.splits)
  have wf: "cache_wf st file c" using assms(1) by (simp add: cache_inv_def)
  then have "nat ?k < length (slot_of c)" using s(1,2) by (simp add: cache_wf_def tables_ok_def)
  from wf_slotD [OF wf this s(3)] have held: "key_of c ! s = Holds (nat ?k)" by simp
  have "\<exists>k. key_of c ! t = Holds k" if "t < nslot c" "(pinned c)[s := pin] ! t" for t
    using that held wf_pinD [OF wf that(1)] by (cases "t = s") auto
  then have "pins_ok c'" by (simp add: pins_ok_def s(4) nslot_def)
  moreover have "tables_ok c' = tables_ok c" "maps_ok c' = maps_ok c" "contents_ok st file c' = contents_ok st file c"
    by (simp_all add: s(4) tables_ok_def maps_ok_def contents_ok_def slot_serves_def nslot_def)
  ultimately show ?thesis using assms(1) by (simp add: cache_inv_def cache_wf_def idle_def s(4))
qed (use assms(1) in simp)

lemma reset_stats_ok: "cache_inv st file (k3_cache_reset_stats c) = cache_inv st file c"
  by (simp add: k3_cache_reset_stats_def cache_inv_def idle_def)

end
