(* ===== verification/K3_Cache_Batch.thy ===== *)
theory K3_Cache_Batch
  imports K3_Cache_Laws
begin

text \<open>
  The batch prefetch \<open>cache_getmany\<close>: its three phases keep the cache well formed, the slots it reserves
  are distinct, its reads do not depend on their order, and no reservation survives it.
\<close>

section \<open>The reading order\<close>

lemma distinct_map_tail: "distinct (map f (x # xs)) \<Longrightarrow> y \<in> set xs \<Longrightarrow> f y \<noteq> f x"
  by (metis distinct.simps(2) image_eqI list.set_map list.simps(9))

lemma mset_sift: "mset (sift t xs) = add_mset t (mset xs)"
  by (induction xs) auto

lemma mset_fold_sift: "mset (fold sift ws acc) = mset ws + mset acc"
  by (induction ws arbitrary: acc) (auto simp: mset_sift)

lemma mset_sort_work: "mset (sort_work ws) = mset ws"
  by (simp add: sort_work_def mset_fold_sift)

lemma set_sort_work [simp]: "set (sort_work ws) = set ws"
  using mset_sort_work by (metis set_mset_mset)

lemma after_trans: "after x y \<Longrightarrow> after y z \<Longrightarrow> after x z"
  by (auto simp: after_def)

lemma not_after_trans: "\<not> after y x \<Longrightarrow> \<not> after z y \<Longrightarrow> \<not> after z x"
  by (auto simp: after_def)

lemma after_asym: "after x y \<Longrightarrow> \<not> after y x"
  by (auto simp: after_def)

lemma sift_sorted:
  assumes "sorted_wrt (\<lambda>x y. \<not> after y x) xs"
  shows "sorted_wrt (\<lambda>x y. \<not> after y x) (sift t xs)"
  using assms
proof (induction xs)
  case (Cons x xs)
  have st: "set (sift t xs) = insert t (set xs)" using mset_sift [of t xs] by (metis set_mset_add_mset_insert set_mset_mset)
  show ?case
  proof (cases "after x t")
    case True
    then show ?thesis using Cons st after_asym by auto
  next
    case False
    then show ?thesis using Cons.prems not_after_trans by (auto simp: st)
  qed
qed simp

lemma fold_sift_sorted:
  "sorted_wrt (\<lambda>x y. \<not> after y x) acc \<Longrightarrow> sorted_wrt (\<lambda>x y. \<not> after y x) (fold sift ws acc)"
  by (induction ws arbitrary: acc) (auto intro: sift_sorted)

text \<open>The reads are issued in disk order, shard by shard and forward within a shard.\<close>

lemma sort_work_sorted: "sorted_wrt (\<lambda>x y. \<not> after x y) (sort_work ws)"
  using fold_sift_sorted [of "[]" ws] by (simp add: sort_work_def sorted_wrt_rev)

section \<open>Reservations\<close>

definition reserved :: "K3St \<Rightarrow> int \<Rightarrow> K3Cache \<Rightarrow> Work \<Rightarrow> bool" where
  "reserved st layer c x \<longleftrightarrow> w_slot x < nslot c \<and> key_of c ! w_slot x = K3_SLOT_INFLIGHT \<and>
     in_range c layer (w_expert x) \<and> k3_expert_ref st layer (w_expert x) = Some (w_r x) \<and>
     er_nbytes (w_r x) \<le> slot_bytes c \<and> slot_of c ! nat (key_ix c layer (w_expert x)) = None"

definition batch_inv :: "K3St \<Rightarrow> int \<Rightarrow> K3Cache \<Rightarrow> Work list \<Rightarrow> bool" where
  "batch_inv st layer c ws \<longleftrightarrow> distinct (map w_slot ws) \<and> distinct (map w_expert ws) \<and>
     (\<forall>x\<in>set ws. reserved st layer c x) \<and>
     (\<forall>s < nslot c. key_of c ! s = K3_SLOT_INFLIGHT \<longrightarrow> s \<in> w_slot ` set ws)"

lemma batch_inv_idle: "batch_inv st layer c [] \<longleftrightarrow> idle c"
  by (auto simp: batch_inv_def idle_def in_set_conv_nth nslot_def)

lemma batch_invD:
  assumes "batch_inv st layer c ws"
  shows "distinct (map w_slot ws)" "distinct (map w_expert ws)" "\<And>x. x \<in> set ws \<Longrightarrow> reserved st layer c x"
  using assms unfolding batch_inv_def by blast+

lemma batch_inv_mset: "mset ws = mset ws' \<Longrightarrow> batch_inv st layer c ws = batch_inv st layer c ws'"
  unfolding batch_inv_def by (metis mset_eq_imp_distinct_iff mset_eq_setD mset_map)

lemma touch_sel [simp]:
  "n_layers (touch s c) = n_layers c" "n_experts (touch s c) = n_experts c" "slot_bytes (touch s c) = slot_bytes c"
  "arena (touch s c) = arena c" "key_of (touch s c) = key_of c" "slot_of (touch s c) = slot_of c"
  "pinned (touch s c) = pinned c" "ref_at (touch s c) = ref_at c" "pad_at (touch s c) = pad_at c"
  by (simp_all add: touch_def)

lemma reserve_slot_inv:
  assumes wf: "cache_wf st file c" and bi: "batch_inv st layer c w"
    and e: "in_range c layer e" "slot_of c ! nat (key_ix c layer e) = None" "e \<notin> w_expert ` set w"
    and r: "k3_expert_ref st layer e = Some r" "er_nbytes r \<le> slot_bytes c"
    and v: "pick_victim c = Some slot" and run: "reserve_slot e r slot w c = (w', c')"
  shows "cache_wf st file c'" "batch_inv st layer c' w'" "evolves c c'"
proof -
  note vf = victim_free [OF wf v]
  let ?f = "free_slot slot K3_SLOT_INFLIGHT c"
  let ?x = "\<lparr>w_slot = slot, w_expert = e, w_r = r, w_got = - 1, w_pad = 0\<rparr>"
  have c': "c' = touch slot ?f" "w' = w @ [?x]" using run by (auto simp: reserve_slot_def free_slot_def)
  show "cache_wf st file c'" using wf_free [OF wf vf(1,2)] by (simp add: c')
  show "evolves c c'" using evolves_free [OF wf vf(1,2)] by (simp add: c')
  have tab: "tables_ok c" using wf by (simp add: cache_wf_def)
  have keep: "slot_of c' ! nat (key_ix c layer y) = None"
    if "in_range c layer y" "slot_of c ! nat (key_ix c layer y) = None" for y
    using free_slot_absent [OF that(2)] in_range_key(2) [OF tab that(1)] by (simp add: c')
  have new: "slot \<notin> w_slot ` set w" using bi vf(3) by (auto simp: batch_inv_def reserved_def)
  have sel: "nslot c' = nslot c" "in_range c' = in_range c" "key_ix c' = key_ix c" "slot_bytes c' = slot_bytes c"
    by (auto simp: c' nslot_def in_range_def key_ix_def fun_eq_iff)
  have key: "key_of c' ! s = (if s = slot then K3_SLOT_INFLIGHT else key_of c ! s)" for s
    using vf(1) by (simp add: c' nslot_def)
  have "reserved st layer c' x" if x: "x \<in> set w'" for x
  proof (cases "x = ?x")
    case True
    then show ?thesis using e r keep vf(1) by (simp add: reserved_def sel key)
  next
    case False
    then have "reserved st layer c x" using x bi by (auto simp: c'(2) batch_inv_def)
    then show ?thesis using keep by (auto simp: reserved_def sel key)
  qed
  moreover have "distinct (map w_slot w')" "distinct (map w_expert w')"
    using bi new e(3) by (auto simp: c'(2) batch_inv_def)
  moreover have "s \<in> w_slot ` set w'" if "s < nslot c'" "key_of c' ! s = K3_SLOT_INFLIGHT" for s
    using that bi by (cases "s = slot") (auto simp: c'(2) batch_inv_def sel key)
  ultimately show "batch_inv st layer c' w'" by (simp add: batch_inv_def)
qed

lemma reserve_ok:
  assumes "cache_wf st file c" "batch_inv st layer c w" "0 \<le> layer" "layer < n_layers c" "length w \<le> K3_MAX_TOPK"
  shows "\<exists>w' c'. reserve st layer ids w c = Some (w', c') \<and> cache_wf st file c' \<and> batch_inv st layer c' w' \<and>
    evolves c c' \<and> length w' \<le> K3_MAX_TOPK"
  using assms
proof (induction ids arbitrary: w c)
  case (Cons e ids)
  note IH = Cons.IH [OF Cons.prems]
  show ?case
  proof (cases "length w \<ge> K3_MAX_TOPK")
    case False
    note room = this
    show ?thesis
    proof (cases "e < 0 \<or> e \<ge> n_experts c")
      case True
      then show ?thesis using IH room by simp
    next
      case False
      then have rng: "in_range c layer e" using Cons.prems(3,4) by (simp add: in_range_def)
      then have valid: "key_valid c (key_ix c layer e)"
        using in_range_key(1) Cons.prems(1) by (simp add: cache_wf_def)
      show ?thesis
      proof (cases "\<exists>r slot. slot_of c ! nat (key_ix c layer e) = None \<and> e \<notin> w_expert ` set w \<and>
          k3_expert_ref st layer e = Some r \<and> er_nbytes r \<le> slot_bytes c \<and> pick_victim c = Some slot")
        case True
        then obtain r slot where r: "slot_of c ! nat (key_ix c layer e) = None" "e \<notin> w_expert ` set w"
          "k3_expert_ref st layer e = Some r" "er_nbytes r \<le> slot_bytes c" "pick_victim c = Some slot" by blast
        obtain w1 c1 where s: "reserve_slot e r slot w c = (w1, c1)" by fastforce
        note ok = reserve_slot_inv [OF Cons.prems(1,2) rng r s]
        have run: "reserve st layer (e # ids) w c = reserve st layer ids w1 c1"
          using room False valid r s by (simp add: not_less)
        have "length w1 \<le> K3_MAX_TOPK" using s room by (auto simp: reserve_slot_def)
        moreover have "layer < n_layers c1" using ok(3) Cons.prems(4) by (simp add: evolves_def)
        ultimately show ?thesis unfolding run
          using Cons.IH [OF ok(1,2) Cons.prems(3)] evolves_trans [OF ok(3)] by meson
      next
        case none: False
        have "reserve st layer (e # ids) w c = reserve st layer ids w c \<or> reserve st layer (e # ids) w c = Some (w, c)"
          using room False valid none by (auto simp: not_less split: option.splits)
        then show ?thesis using IH Cons.prems by (metis evolves_refl)
      qed
    qed
  qed (use Cons.prems in auto)
qed auto

section \<open>The reads\<close>

text \<open>What the read of one entry delivers; it depends on the entry's own slot only.\<close>

definition delivery :: "K3St \<Rightarrow> Disk \<Rightarrow> int \<Rightarrow> bytes list \<Rightarrow> Work \<Rightarrow> int \<times> int \<times> bytes" where
  "delivery st dk sb ar w = k3_expert_load_direct st dk (w_r w) (ar ! w_slot w) sb"

definition delivered :: "K3St \<Rightarrow> Disk \<Rightarrow> int \<Rightarrow> bytes list \<Rightarrow> Work \<Rightarrow> Work" where
  "delivered st dk sb ar w = (case delivery st dk sb ar w of (got, pad, _) \<Rightarrow> w\<lparr>w_got := got, w_pad := pad\<rparr>)"

definition filled :: "K3St \<Rightarrow> Disk \<Rightarrow> int \<Rightarrow> bytes list \<Rightarrow> Work \<Rightarrow> bytes" where
  "filled st dk sb ar w = snd (snd (delivery st dk sb ar w))"

definition fill_all :: "K3St \<Rightarrow> Disk \<Rightarrow> int \<Rightarrow> Work list \<Rightarrow> bytes list \<Rightarrow> bytes list" where
  "fill_all st dk sb ws ar = fold (\<lambda>w a. a[w_slot w := filled st dk sb ar w]) ws ar"

lemma delivery_update: "w_slot w \<noteq> s \<Longrightarrow> delivery st dk sb (ar[s := b]) w = delivery st dk sb ar w"
  by (simp add: delivery_def)

lemma fold_fill_cong:
  "\<forall>w\<in>set ws. f w = g w \<Longrightarrow> fold (\<lambda>w a. a[w_slot w := f w]) ws ar = fold (\<lambda>w a. a[w_slot w := g w]) ws (ar :: bytes list)"
  by (induction ws arbitrary: ar) auto

lemma read_all_spec:
  "distinct (map w_slot ws) \<Longrightarrow>
   read_all st dk ws c =
     (map (delivered st dk (slot_bytes c) (arena c)) ws, c\<lparr>arena := fill_all st dk (slot_bytes c) ws (arena c)\<rparr>)"
proof (induction ws arbitrary: c)
  case (Cons w ws)
  let ?sb = "slot_bytes c" and ?ar = "arena c"
  let ?c1 = "c\<lparr>arena := ?ar[w_slot w := filled st dk ?sb ?ar w]\<rparr>"
  have one: "read_one st dk w c = (delivered st dk ?sb ?ar w, ?c1)"
    by (simp add: read_one_def load_slot_def delivered_def filled_def delivery_def split: prod.splits)
  have dl: "delivery st dk ?sb (arena ?c1) x = delivery st dk ?sb ?ar x" if "x \<in> set ws" for x
  proof -
    have "w_slot x \<noteq> w_slot w" using distinct_map_tail [OF Cons.prems that] .
    then show ?thesis by (simp add: delivery_update)
  qed
  have "fill_all st dk ?sb ws (arena ?c1) = fill_all st dk ?sb (w # ws) ?ar"
    unfolding fill_all_def using fold_fill_cong [of ws "filled st dk ?sb (arena ?c1)" "filled st dk ?sb ?ar"] dl
    by (simp add: filled_def)
  moreover have "map (delivered st dk ?sb (arena ?c1)) ws = map (delivered st dk ?sb ?ar) ws"
    using dl by (simp add: delivered_def)
  moreover have "read_all st dk ws ?c1 =
    (map (delivered st dk ?sb (arena ?c1)) ws, ?c1\<lparr>arena := fill_all st dk ?sb ws (arena ?c1)\<rparr>)"
    using Cons by simp
  ultimately show ?case by (simp add: one)
qed (simp add: fill_all_def)

lemma length_fold_fill: "length (fold (\<lambda>w a. a[w_slot w := f w]) ws ar) = length (ar :: bytes list)"
  by (induction ws arbitrary: ar) simp_all

lemma nth_fold_fill:
  "distinct (map w_slot ws) \<Longrightarrow> i < length (ar :: bytes list) \<Longrightarrow>
   fold (\<lambda>w a. a[w_slot w := f w]) ws ar ! i =
     (case find (\<lambda>w. w_slot w = i) ws of None \<Rightarrow> ar ! i | Some w \<Rightarrow> f w)"
proof (induction ws arbitrary: ar)
  case (Cons w ws)
  have "find (\<lambda>x. w_slot x = w_slot w) ws = None" using distinct_map_tail [OF Cons.prems(1)] by (auto simp: find_None_iff)
  then show ?case using Cons by (cases "w_slot w = i") (auto split: option.splits)
qed simp

lemma find_perm:
  assumes "distinct (map w_slot ws)" "mset ws = mset ws'"
  shows "find (\<lambda>w. w_slot w = i) ws = find (\<lambda>w. w_slot w = i) ws'"
proof -
  have d: "distinct (map w_slot ws')" "set ws = set ws'"
    using assms by (metis mset_eq_imp_distinct_iff mset_map, metis mset_eq_setD)
  have char: "find (\<lambda>w. w_slot w = i) xs = Some x \<longleftrightarrow> x \<in> set xs \<and> w_slot x = i" if "distinct (map w_slot xs)" for xs x
    using that by (induction xs) (auto simp: inj_on_def)
  show ?thesis
  proof (cases "find (\<lambda>w. w_slot w = i) ws")
    case None
    then have "find (\<lambda>w. w_slot w = i) ws' = None" using d(2) by (simp add: find_None_iff)
    then show ?thesis using None by simp
  next
    case (Some x)
    then have "find (\<lambda>w. w_slot w = i) ws' = Some x" using char [OF assms(1)] char [OF d(1)] d(2) by simp
    then show ?thesis using Some by simp
  qed
qed

text \<open>
  Phase 2 runs its reads concurrently. As the slots are distinct, every order of the entries leaves the
  same arena and delivers the same to each entry.
\<close>

lemma reads_order_irrelevant:
  assumes "distinct (map w_slot ws)" "mset ws = mset ws'"
  shows "snd (read_all st dk ws' c) = snd (read_all st dk ws c) \<and>
    mset (fst (read_all st dk ws' c)) = mset (fst (read_all st dk ws c))"
proof -
  have d: "distinct (map w_slot ws')" using assms by (metis mset_eq_imp_distinct_iff mset_map)
  have "fill_all st dk sb ws ar = fill_all st dk sb ws' ar" for sb ar
    unfolding fill_all_def
    by (rule nth_equalityI)
      (simp_all add: length_fold_fill nth_fold_fill [OF assms(1)] nth_fold_fill [OF d] find_perm [OF assms])
  then show ?thesis using assms(2) by (simp add: read_all_spec [OF assms(1)] read_all_spec [OF d])
qed

section \<open>Publishing\<close>

text \<open>The state between the reads and the publication of the entries \<open>ws\<close>.\<close>

definition loaded :: "K3St \<Rightarrow> (int \<Rightarrow> bytes) \<Rightarrow> K3Cache \<Rightarrow> Work \<Rightarrow> bool" where
  "loaded st file c x \<longleftrightarrow> (w_got x = er_nbytes (w_r x) \<longrightarrow>
     to_int (w_pad x) = w_pad x \<and> holds_expert st file (w_r x) (w_pad x) (arena c ! w_slot x))"

lemma reserved_unpinned:
  assumes "cache_wf st file c" "reserved st layer c x"
  shows "\<not> pinned c ! w_slot x"
  using assms wf_pinD [OF assms(1)] by (fastforce simp: reserved_def)

text \<open>An update that leaves the other entries' slots and keys alone keeps their reservations.\<close>

lemma batch_inv_tail:
  assumes bi: "batch_inv st layer c (x # ws)"
    and geo: "n_layers c' = n_layers c" "n_experts c' = n_experts c" "slot_bytes c' = slot_bytes c" "nslot c' = nslot c"
    and key: "\<And>s. s \<noteq> w_slot x \<Longrightarrow> key_of c' ! s = key_of c ! s" "key_of c' ! w_slot x \<noteq> K3_SLOT_INFLIGHT"
    and slot: "\<And>y. y \<in> set ws \<Longrightarrow> slot_of c' ! nat (key_ix c layer (w_expert y)) = slot_of c ! nat (key_ix c layer (w_expert y))"
  shows "batch_inv st layer c' ws"
proof -
  have other: "w_slot y \<noteq> w_slot x" if "y \<in> set ws" for y
    using batch_invD(1) [OF bi] distinct_map_tail that by metis
  have same: "in_range c' = in_range c" "key_ix c' = key_ix c" using geo by (auto simp: in_range_def key_ix_def fun_eq_iff)
  have "reserved st layer c' y" if "y \<in> set ws" for y
    using bi that other [OF that] key(1) slot [OF that] geo by (simp add: batch_inv_def reserved_def same)
  moreover have "s \<in> w_slot ` set ws" if s: "s < nslot c'" "key_of c' ! s = K3_SLOT_INFLIGHT" for s
  proof -
    have ne: "s \<noteq> w_slot x" using s key(2) by auto
    have "s < nslot c" "key_of c ! s = K3_SLOT_INFLIGHT" using s key(1) [OF ne] geo(4) by simp_all
    then have "s \<in> w_slot ` set (x # ws)" using bi unfolding batch_inv_def by blast
    then show ?thesis using ne by simp
  qed
  ultimately show ?thesis using bi by (simp add: batch_inv_def)
qed

lemma key_inj:
  assumes "tables_ok c" "in_range c layer a" "in_range c layer b" "nat (key_ix c layer a) = nat (key_ix c layer b)"
  shows "a = b"
  using in_range_key(4) [OF assms(1,2)] in_range_key(4) [OF assms(1,3)] assms(4) by simp

lemma publish_sel [simp]:
  "n_layers (publish s k r p c) = n_layers c" "n_experts (publish s k r p c) = n_experts c"
  "slot_bytes (publish s k r p c) = slot_bytes c" "nslot (publish s k r p c) = nslot c"
  "key_of (publish s k r p c) = (key_of c)[s := Holds k]" "slot_of (publish s k r p c) = (slot_of c)[k := Some s]"
  "arena (publish s k r p c) = arena c"
  by (simp_all add: publish_def nslot_def)

lemma publish_one_ok:
  assumes wf: "cache_wf st file c" and bi: "batch_inv st layer c (x # ws)"
    and ld: "\<forall>y\<in>set (x # ws). loaded st file c y"
    and run: "publish_one layer x (ok, c) = (ok', c')"
  shows "cache_wf st file c'" "batch_inv st layer c' ws" "\<forall>y\<in>set ws. loaded st file c' y" "evolves c c'"
proof -
  have rx: "reserved st layer c x" using bi by (simp add: batch_inv_def)
  let ?s = "w_slot x" and ?k = "nat (key_ix c layer (w_expert x))"
  have s: "?s < nslot c" "\<not> pinned c ! ?s" "key_of c ! ?s = K3_SLOT_INFLIGHT" "slot_of c ! ?k = None"
    using rx reserved_unpinned [OF wf rx] by (simp_all add: reserved_def)
  have tab: "tables_ok c" using wf by (simp add: cache_wf_def)
  note kr = in_range_key [OF tab, of layer "w_expert x"]
  have rng: "in_range c layer (w_expert x)" using rx by (simp add: reserved_def)
  have "cache_wf st file c' \<and> batch_inv st layer c' ws \<and> (\<forall>y\<in>set ws. loaded st file c' y) \<and> evolves c c'"
  proof (cases "w_got x = er_nbytes (w_r x)")
    case False
    have c': "c' = free_slot ?s K3_SLOT_EMPTY c"
      using run False s(3) by (simp add: publish_one_def free_slot_def evict_def)
    have "slot_of c' = slot_of c" using s(3) by (simp add: c' free_slot_def slot_of_evict)
    then have "batch_inv st layer c' ws"
      by (intro batch_inv_tail [OF bi]) (use s(1) in \<open>simp_all add: c' nslot_def\<close>)
    moreover have "\<forall>y\<in>set ws. loaded st file c' y" using ld by (simp add: loaded_def c')
    ultimately show ?thesis using wf_free [OF wf s(1,2)] evolves_free [OF wf s(1,2)] by (simp add: c')
  next
    case True
    let ?p = "publish ?s ?k (w_r x) (w_pad x) c"
    have c': "c' = ?p\<lparr>bytes_read := bytes_read ?p + of_int (w_got x), prefetch_reads := prefetch_reads ?p + 1\<rparr>"
      using run True by (auto simp: publish_one_def Let_def)
    have lx: "to_int (w_pad x) = w_pad x" "holds_expert st file (w_r x) (w_pad x) (arena c ! ?s)"
      using ld True by (simp_all add: loaded_def)
    have "cache_wf st file ?p"
      by (rule wf_publish [OF wf]) (use s kr rng rx lx in \<open>simp_all add: reserved_def\<close>)
    moreover have "evolves c ?p" by (rule evolves_publish [OF s(2,4)])
    moreover have "batch_inv st layer c' ws"
    proof (rule batch_inv_tail [OF bi])
      fix y assume y: "y \<in> set ws"
      then have "in_range c layer (w_expert y)" "w_expert y \<noteq> w_expert x"
        using batch_invD(2,3) [OF bi] distinct_map_tail [OF batch_invD(2) [OF bi] y] y by (auto simp: reserved_def)
      then have "nat (key_ix c layer (w_expert y)) \<noteq> ?k" using key_inj [OF tab _ rng] by blast
      then show "slot_of c' ! nat (key_ix c layer (w_expert y)) = slot_of c ! nat (key_ix c layer (w_expert y))"
        by (simp add: c')
    qed (use s(1) in \<open>simp_all add: c' nslot_def\<close>)
    moreover have "\<forall>y\<in>set ws. loaded st file c' y" using ld by (simp add: loaded_def c')
    ultimately show ?thesis by (simp add: c')
  qed
  then show "cache_wf st file c'" "batch_inv st layer c' ws" "\<forall>y\<in>set ws. loaded st file c' y" "evolves c c'"
    by blast+
qed

lemma publish_all_ok:
  assumes "cache_wf st file c" "batch_inv st layer c ws" "\<forall>y\<in>set ws. loaded st file c y"
    and "fold (publish_one layer) ws (ok, c) = (ok', c')"
  shows "cache_inv st file c' \<and> evolves c c'"
  using assms
proof (induction ws arbitrary: ok c)
  case Nil
  then show ?case by (simp add: cache_inv_def batch_inv_idle)
next
  case (Cons x ws)
  obtain ok1 c1 where run: "publish_one layer x (ok, c) = (ok1, c1)" by fastforce
  note st = publish_one_ok [OF Cons.prems(1-3) run]
  from Cons.IH [OF st(1-3), of ok1] Cons.prems(4) run evolves_trans [OF st(4)] show ?case by simp
qed

section \<open>The batch as a whole\<close>

lemma wf_fill_all:
  assumes wf: "cache_wf st file c" and st: "st_sane st" and dk: "dk_file dk = file" and bi: "batch_inv st layer c ws"
  shows "cache_wf st file (c\<lparr>arena := fill_all st dk (slot_bytes c) ws (arena c)\<rparr>)"
    "\<forall>x\<in>set ws. loaded st file (c\<lparr>arena := fill_all st dk (slot_bytes c) ws (arena c)\<rparr>)
       (delivered st dk (slot_bytes c) (arena c) x)"
    "evolves c (c\<lparr>arena := fill_all st dk (slot_bytes c) ws (arena c)\<rparr>)"
proof -
  let ?A = "fill_all st dk (slot_bytes c) ws (arena c)"
  let ?c = "c\<lparr>arena := ?A\<rparr>"
  have d: "distinct (map w_slot ws)" using bi by (simp add: batch_inv_def)
  have len: "length (arena c) = nslot c" using wf by (simp add: cache_wf_def tables_ok_def)
  have nth: "?A ! i = (case find (\<lambda>w. w_slot w = i) ws of None \<Rightarrow> arena c ! i | Some w \<Rightarrow> filled st dk (slot_bytes c) (arena c) w)"
    if "i < nslot c" for i
    using nth_fold_fill [OF d, of i "arena c"] that len by (simp add: fill_all_def)
  have load: "length (filled st dk (slot_bytes c) (arena c) x) = nat (slot_bytes c) \<and>
      (w_got (delivered st dk (slot_bytes c) (arena c) x) = er_nbytes (w_r x) \<longrightarrow>
        to_int (w_pad (delivered st dk (slot_bytes c) (arena c) x)) = w_pad (delivered st dk (slot_bytes c) (arena c) x) \<and>
        holds_expert st file (w_r x) (w_pad (delivered st dk (slot_bytes c) (arena c) x)) (filled st dk (slot_bytes c) (arena c) x))"
    if x: "x \<in> set ws" for x
  proof -
    obtain got pad buf where run: "k3_expert_load_direct st dk (w_r x) (arena c ! w_slot x) (slot_bytes c) = (got, pad, buf)"
      by (metis prod.exhaust)
    have rx: "reserved st layer c x" using bi x by (simp add: batch_inv_def)
    then show ?thesis
      using slot_load [OF wf st dk _ _ _ run, of layer "w_expert x"] run
      by (simp add: reserved_def filled_def delivered_def delivery_def)
  qed
  have keep: "?A ! i = arena c ! i" if "i < nslot c" "key_of c ! i \<noteq> K3_SLOT_INFLIGHT" for i
  proof -
    have "i \<notin> w_slot ` set ws" using bi that by (auto simp: batch_inv_def reserved_def)
    then have "find (\<lambda>w. w_slot w = i) ws = None" by (auto simp: find_None_iff)
    then show ?thesis using nth [OF that(1)] by simp
  qed
  have "length (?A ! i) = nat (slot_bytes c)" if "i < nslot c" for i
  proof (cases "find (\<lambda>w. w_slot w = i) ws")
    case None
    then show ?thesis using nth [OF that] wf that by (simp add: cache_wf_def tables_ok_def)
  next
    case (Some x)
    then have "x \<in> set ws" by (auto simp: find_Some_iff)
    then show ?thesis using nth [OF that] Some load by simp
  qed
  then have "tables_ok ?c" using wf len by (simp add: cache_wf_def tables_ok_def nslot_def fill_all_def length_fold_fill)
  moreover have "maps_ok ?c = maps_ok c" "pins_ok ?c = pins_ok c" by (simp_all add: maps_ok_def pins_ok_def nslot_def)
  moreover have "contents_ok st file ?c"
    using wf keep unfolding cache_wf_def contents_ok_def by (simp add: slot_serves_def nslot_def)
  ultimately show "cache_wf st file ?c" using wf by (simp add: cache_wf_def)
  show "\<forall>x\<in>set ws. loaded st file ?c (delivered st dk (slot_bytes c) (arena c) x)"
  proof
    fix x assume x: "x \<in> set ws"
    have "find (\<lambda>w. w_slot w = w_slot x) ws = Some x"
      using d x by (induction ws) (auto simp: image_iff)
    moreover have "w_slot x < nslot c" using bi x by (simp add: batch_inv_def reserved_def)
    ultimately have "?A ! w_slot x = filled st dk (slot_bytes c) (arena c) x" using nth by simp
    moreover have "w_slot (delivered st dk (slot_bytes c) (arena c) x) = w_slot x" "w_r (delivered st dk (slot_bytes c) (arena c) x) = w_r x"
      by (simp_all add: delivered_def split: prod.splits)
    ultimately show "loaded st file ?c (delivered st dk (slot_bytes c) (arena c) x)"
      using load [OF x] by (simp add: loaded_def)
  qed
  have "pinned_at ?c k s = pinned_at c k s" for k s
  proof (cases "k < length (slot_of c) \<and> slot_of c ! k = Some s")
    case True
    then have "s < nslot c" "key_of c ! s = Holds k" using wf_slotD [OF wf] by auto
    then show ?thesis using keep by (simp add: pinned_at_def)
  qed (auto simp: pinned_at_def)
  then show "evolves c ?c" by (simp add: evolves_def nslot_def)
qed

lemma delivered_keeps: "w_slot (delivered st dk sb ar x) = w_slot x" "w_r (delivered st dk sb ar x) = w_r x"
    "w_expert (delivered st dk sb ar x) = w_expert x"
  by (simp_all add: delivered_def split: prod.splits)

lemma batch_inv_delivered:
  "batch_inv st layer c ws \<Longrightarrow> batch_inv st layer (c\<lparr>arena := A\<rparr>) (map (delivered st dk sb ar) ws)"
  by (simp add: batch_inv_def reserved_def delivered_keeps nslot_def in_range_def key_ix_def comp_def image_image)

lemma cache_getmany_ok:
  assumes inv: "cache_inv st file c" and st: "st_sane st" and dk: "dk_file dk = file"
    and layer: "0 \<le> layer" "layer < n_layers c"
  shows "\<exists>n c'. cache_getmany st dk layer ids c = Some (n, c') \<and> cache_inv st file c' \<and> evolves c c'"
proof -
  have "batch_inv st layer c []" using inv by (simp add: batch_inv_idle cache_inv_def)
  moreover have "cache_wf st file c" using inv by (simp add: cache_inv_def)
  ultimately obtain w c1 where rs: "reserve st layer ids [] c = Some (w, c1)" "cache_wf st file c1"
    "batch_inv st layer c1 w" "evolves c c1"
    using reserve_ok [of st "file" c layer "[]" ids] layer by auto
  let ?ws = "sort_work w"
  have bi: "batch_inv st layer c1 ?ws" using batch_inv_mset [OF mset_sort_work] rs(3) by blast
  let ?A = "fill_all st dk (slot_bytes c1) ?ws (arena c1)"
  let ?c2 = "c1\<lparr>arena := ?A\<rparr>" and ?w2 = "map (delivered st dk (slot_bytes c1) (arena c1)) ?ws"
  have d: "distinct (map w_slot ?ws)" using bi by (simp add: batch_inv_def)
  have rd: "read_all st dk ?ws c1 = (?w2, ?c2)" by (rule read_all_spec [OF d])
  note fl = wf_fill_all [OF rs(2) st dk bi]
  obtain n c' where pub: "fold (publish_one layer) ?w2 (0, ?c2) = (n, c')" by fastforce
  have "cache_inv st file c' \<and> evolves ?c2 c'"
    by (rule publish_all_ok [OF fl(1) batch_inv_delivered [OF bi] _ pub]) (use fl(2) in simp)
  moreover have "cache_getmany st dk layer ids c = Some (n, c')"
    by (simp add: cache_getmany_def rs(1) rd pub)
  ultimately show ?thesis using evolves_trans [OF rs(4) evolves_trans [OF fl(3)]] by blast
qed

end
