(* ===== verification/K3_Source.thy ===== *)
theory K3_Source
  imports K3_Cache_Batch
begin

text \<open>
  The cache as a source of experts: what initialisation establishes, the states reachable through the
  interface, when a request must succeed, and the contract \<open>K3ExpertSrc\<close> of \<open>k3.h\<close> that the kernels rely on.
\<close>

section \<open>Initialisation\<close>

lemma find_probe_ref: "find_probe st cfg = Some r \<Longrightarrow> \<exists>L. k3_expert_ref st L 0 = Some r"
proof -
  have "foldr (\<lambda>L rest. if k3_is_dense cfg L then rest
      else case k3_expert_ref st L 0 of Some r \<Rightarrow> Some r | None \<Rightarrow> rest) Ls None = Some r \<Longrightarrow>
    \<exists>L. k3_expert_ref st L 0 = Some r" for Ls
    by (induction Ls) (auto split: if_splits option.splits)
  then show "find_probe st cfg = Some r \<Longrightarrow> ?thesis" unfolding find_probe_def by blast
qed

lemma expert_ref_nonneg:
  assumes "st_sane st" "k3_expert_ref st layer expert = Some r"
  shows "0 \<le> er_nbytes r \<and> 0 \<le> er_off r"
proof -
  obtain pcs where pcs: "r = layout layer expert pcs" "length pcs = 3"
    "\<And>i. i < 3 \<Longrightarrow> find_pair st layer expert (W ! i) = Some (pcs ! i) \<and> pair_ok (pcs ! i)"
    using expert_refE [OF assms(2)] by metis
  have "\<forall>pc\<in>set pcs. sane (fst pc) \<and> sane (snd pc)"
  proof
    fix pc assume "pc \<in> set pcs"
    then obtain i where "i < 3" "pc = pcs ! i" using pcs(2) by (metis in_set_conv_nth)
    then have "find_pair st layer expert (W ! i) = Some pc" using pcs(3) by simp
    then show "sane (fst pc) \<and> sane (snd pc)"
      using find_sane [OF assms(1)] by (auto simp: find_pair_def split: option.splits)
  qed
  moreover have "pcs \<noteq> []" using pcs(2) by auto
  ultimately show ?thesis using layout_inside [OF _ _ pcs(1)] by blast
qed

lemma slot_stride_ok: "slot_stride n mod 4096 = 0 \<and> n + 8192 \<le> slot_stride n \<and> slot_stride n < n + 8192 + 4096"
proof -
  define m where "m = n + 12287"
  have "n + 2 * K3_ST_ALIGN + K3_ST_ALIGN - 1 = m" by (simp add: K3_ST_ALIGN_def m_def)
  then have eq: "slot_stride n = m - m mod 4096" by (simp only: slot_stride_def align_down_eq)
  have "(m - m mod 4096) mod 4096 = 0" by (simp add: mod_diff_right_eq)
  moreover have "0 \<le> m mod 4096" "m mod 4096 < 4096" by simp_all
  ultimately show ?thesis unfolding eq using m_def by linarith
qed

lemma to_int_le: "0 \<le> x \<Longrightarrow> to_int x \<le> x"
proof -
  assume x: "0 \<le> x"
  have "to_int x = (x + 2147483648) mod 4294967296 - 2147483648"
    by (simp add: to_int_def int_word_sint)
  also have "\<dots> \<le> x" using zmod_le_nonneg_dividend [of "x + 2147483648" 4294967296] x by simp
  finally show ?thesis .
qed

text \<open>A cache that was set up: room for one token's experts and one more, aligned slots, all inside the budget.\<close>

lemma cache_init_ok:
  assumes run: "k3_cache_init st cfg budget mem junk = Some c" and st: "st_sane st" and "0 \<le> budget"
    and cfg: "0 \<le> cf_n_layers cfg" "0 < cf_n_experts cfg"
  shows "cache_inv st file c \<and> cf_topk cfg + 1 \<le> int (nslot c) \<and> slot_bytes c mod 4096 = 0 \<and>
    int (nslot c) * slot_bytes c \<le> budget \<and>
    (\<exists>L r. k3_expert_ref st L 0 = Some r \<and> er_nbytes r + 8192 \<le> slot_bytes c)"
proof -
  obtain pr where pr: "find_probe st cfg = Some pr" using run by (auto simp: k3_cache_init_def split: option.splits)
  then obtain L where L: "k3_expert_ref st L 0 = Some pr" using find_probe_ref by blast
  let ?sb = "slot_stride (er_nbytes pr)"
  have sb: "?sb mod 4096 = 0" "er_nbytes pr + 8192 \<le> ?sb" "0 < ?sb"
    using slot_stride_ok [of "er_nbytes pr"] expert_ref_nonneg [OF st L] by auto
  let ?ns = "to_int (budget sdiv ?sb)" and ?nk = "nat (cf_n_layers cfg * cf_n_experts cfg)"
  have c: "cf_topk cfg + 1 \<le> ?ns" "slot_bytes c = ?sb" "key_of c = replicate (nat ?ns) K3_SLOT_EMPTY"
    "arena c = map (\<lambda>i. replicate (nat ?sb) (junk i)) [0..<nat ?ns]" "slot_of c = replicate ?nk None"
    "pinned c = replicate (nat ?ns) False" "length (used_at c) = nat ?ns" "length (ref_at c) = nat ?ns"
    "length (pad_at c) = nat ?ns" "length (hist c) = ?nk" "n_layers c = cf_n_layers cfg" "n_experts c = cf_n_experts cfg"
    using run pr by (auto simp: k3_cache_init_def Let_def split: if_splits)
  have ns: "nslot c = nat ?ns" by (simp add: nslot_def c(3))
  have div: "budget sdiv ?sb = budget div ?sb"
    using \<open>0 \<le> budget\<close> sb(3) by (cases "budget = 0") (simp_all add: signed_divide_int_def)
  have "0 \<le> budget div ?sb" using \<open>0 \<le> budget\<close> sb(3) by (simp add: pos_imp_zdiv_nonneg_iff)
  then have "?ns \<le> budget div ?sb" using to_int_le div by simp
  then have "?ns * ?sb \<le> budget div ?sb * ?sb" using sb(3) by (intro mult_right_mono) auto
  also have "\<dots> \<le> budget" using \<open>0 \<le> budget\<close> sb(3) by (simp add: minus_mod_eq_div_mult [symmetric])
  finally have bud: "int (nslot c) * slot_bytes c \<le> budget"
    using \<open>0 \<le> budget\<close> by (cases "0 \<le> ?ns") (auto simp: ns c(2))
  have "tables_ok c" using cfg sb(3) by (simp add: tables_ok_def nslot_def c)
  moreover have "maps_ok c" "pins_ok c" "contents_ok st file c" "idle c"
    by (auto simp: maps_ok_def pins_ok_def contents_ok_def idle_def nslot_def c)
  ultimately have "cache_inv st file c" by (simp add: cache_inv_def cache_wf_def)
  then show ?thesis using c(1,2) sb(1,2) bud L ns by auto
qed

section \<open>Reachable caches\<close>

text \<open>
  Every sequence of operations of the interface, each on a disk of its own over the same files. Prefetches
  and batches name a layer and experts of the model, as their callers do.
\<close>

inductive cache_reach :: "K3St \<Rightarrow> (int \<Rightarrow> bytes) \<Rightarrow> K3Cache \<Rightarrow> K3Cache \<Rightarrow> bool"
  for st :: K3St and fl :: "int \<Rightarrow> bytes" and c0 :: K3Cache where
  start: "cache_reach st fl c0 c0"
| get: "cache_reach st fl c0 c \<Longrightarrow> dk_file dk = fl \<Longrightarrow> cache_get st dk grow layer expert c = Some (q, c') \<Longrightarrow>
    cache_reach st fl c0 c'"
| getmany: "cache_reach st fl c0 c \<Longrightarrow> dk_file dk = fl \<Longrightarrow> 0 \<le> layer \<Longrightarrow> layer < n_layers c \<Longrightarrow>
    cache_getmany st dk layer ids c = Some (n, c') \<Longrightarrow> cache_reach st fl c0 c'"
| pin: "cache_reach st fl c0 c \<Longrightarrow> k3_cache_pin layer expert p c = (ok, c') \<Longrightarrow> cache_reach st fl c0 c'"
| prefetch: "cache_reach st fl c0 c \<Longrightarrow> dk_file dk = fl \<Longrightarrow> in_range c layer expert \<Longrightarrow>
    k3_cache_prefetch st dk layer expert c = Some (ok, c') \<Longrightarrow> cache_reach st fl c0 c'"
| reset: "cache_reach st fl c0 c \<Longrightarrow> cache_reach st fl c0 (k3_cache_reset_stats c)"

inductive_cases cache_reachE: "cache_reach st fl c0 c"

lemma prefetch_inv:
  assumes "cache_inv st fl c" "st_sane st" "dk_file dk = fl" "in_range c layer expert"
    and "k3_cache_prefetch st dk layer expert c = Some (ok, c')"
  shows "cache_inv st fl c' \<and> evolves c c'"
proof -
  obtain res c1 where "admit st dk layer expert c = Some (res, c1)" "cache_wf st fl c1" "evolves c c1" "idle c1"
    using admit_ok [of st fl c dk layer expert] assms(1-4) by (auto simp: cache_inv_def)
  then show ?thesis using assms(5) by (auto simp: k3_cache_prefetch_def cache_inv_def)
qed

lemma reach_inv:
  assumes "cache_reach st fl c0 c" "cache_inv st fl c0" "st_sane st"
  shows "cache_inv st fl c"
  using assms(1)
proof induction
  case start
  show ?case by (rule assms(2))
next
  case (get c dk grow layer expert q c')
  then show ?case using cache_get_ok [OF get.IH assms(3) get.hyps(2), of grow layer expert] by auto
next
  case (getmany c dk layer ids n c')
  then show ?case using cache_getmany_ok [OF getmany.IH assms(3) getmany.hyps(2-4), of ids] by auto
next
  case (pin c layer expert p ok c')
  then show ?case using pin_ok by blast
next
  case (prefetch c dk layer expert ok c')
  then show ?case using prefetch_inv assms(3) by blast
next
  case (reset c)
  then show ?case by (simp add: reset_stats_ok)
qed

section \<open>The contract of an expert source\<close>

text \<open>
  \<open>K3ExpertSrc\<close>: three function pointers over a state of their own, the second and third optional. Each call
  that may read takes its disk; the outer option is an access outside the tables.
\<close>

record ('c, 'q, 'd) K3ExpertSrc =
  src_get :: "'d \<Rightarrow> int \<Rightarrow> int \<Rightarrow> 'c \<Rightarrow> ('q option \<times> 'c) option"
  src_getmany :: "('d \<Rightarrow> int \<Rightarrow> int list \<Rightarrow> 'c \<Rightarrow> (int \<times> 'c) option) option"
  src_resident :: "(int \<Rightarrow> int \<Rightarrow> 'c \<Rightarrow> 'q option) option"

locale expert_source =
  fixes src :: "('c, 'q, 'd) K3ExpertSrc"
    and inv :: "'c \<Rightarrow> bool"
    and has_layer :: "'c \<Rightarrow> int \<Rightarrow> bool"
    and disk_ok :: "'d \<Rightarrow> bool"
    and served :: "'c \<Rightarrow> int \<Rightarrow> int \<Rightarrow> 'q \<Rightarrow> bool"
  assumes get: "inv c \<Longrightarrow> disk_ok d \<Longrightarrow>
      \<exists>q c'. src_get src d l e c = Some (q, c') \<and> inv c' \<and> has_layer c' = has_layer c \<and>
        (\<forall>x. q = Some x \<longrightarrow> served c' l e x)"
    and getmany: "inv c \<Longrightarrow> disk_ok d \<Longrightarrow> has_layer c l \<Longrightarrow> src_getmany src = Some f \<Longrightarrow>
      \<exists>n c'. f d l es c = Some (n, c') \<and> inv c' \<and> has_layer c' = has_layer c"
    and resident: "inv c \<Longrightarrow> src_resident src = Some g \<Longrightarrow> g l e c = Some q \<Longrightarrow> served c l e q"

text \<open>
  The pointers \<open>k3_cache_init\<close> installs; \<open>K3_NOPREFETCH\<close> leaves the batch out. A disk here carries whether the
  trace could grow during the call.
\<close>

definition cache_src :: "K3St \<Rightarrow> bool \<Rightarrow> (K3Cache, K3ExpertQ, Disk \<times> bool) K3ExpertSrc" where
  "cache_src st noprefetch =
     \<lparr>src_get = (\<lambda>(dk, grow) l e c. cache_get st dk grow l e c),
      src_getmany = (if noprefetch then None else Some (\<lambda>(dk, grow) l es c. cache_getmany st dk l es c)),
      src_resident = Some (\<lambda>l e c. cache_resident l e c)\<rparr>"

interpretation cache_source: expert_source "cache_src st noprefetch" "\<lambda>c. st_sane st \<and> cache_inv st fl c"
  "\<lambda>c l. 0 \<le> l \<and> l < n_layers c" "\<lambda>d. dk_file (fst d) = fl" "q_serves st fl"
  for st noprefetch fl
proof unfold_locales
  fix c and d :: "Disk \<times> bool" and l e
  assume a: "st_sane st \<and> cache_inv st fl c" "dk_file (fst d) = fl"
  show "\<exists>q c'. src_get (cache_src st noprefetch) d l e c = Some (q, c') \<and> (st_sane st \<and> cache_inv st fl c') \<and>
      (\<lambda>l. 0 \<le> l \<and> l < n_layers c') = (\<lambda>l. 0 \<le> l \<and> l < n_layers c) \<and> (\<forall>x. q = Some x \<longrightarrow> q_serves st fl c' l e x)"
    using cache_get_ok [of st fl c "fst d" "snd d" l e] a
    by (auto simp: cache_src_def evolves_def split: prod.splits)
next
  fix c and d :: "Disk \<times> bool" and l f es
  assume a: "st_sane st \<and> cache_inv st fl c" "dk_file (fst d) = fl" "0 \<le> l \<and> l < n_layers c"
    "src_getmany (cache_src st noprefetch) = Some f"
  show "\<exists>n c'. f d l es c = Some (n, c') \<and> (st_sane st \<and> cache_inv st fl c') \<and>
      (\<lambda>l. 0 \<le> l \<and> l < n_layers c') = (\<lambda>l. 0 \<le> l \<and> l < n_layers c)"
    using cache_getmany_ok [of st fl c "fst d" l es] a
    by (auto simp: cache_src_def evolves_def split: prod.splits if_splits)
next
  fix c g l e q
  assume a: "st_sane st \<and> cache_inv st fl c" "src_resident (cache_src st noprefetch) = Some g" "g l e c = Some q"
  then show "q_serves st fl c l e q" using cache_resident_ok by (auto simp: cache_src_def)
qed

end
