(* ===== verification/K3_Live.thy ===== *)
theory K3_Live
  imports K3_Source
begin

text \<open>
  When a request must succeed: on a disk that delivers what the files hold, an expert whose tensors lie in
  their files and which fits a slot is brought in, in either layout and through either way of reading.
\<close>

section \<open>Complete reads\<close>

definition delivers :: "Disk \<Rightarrow> bool" where
  "delivers dk \<longleftrightarrow> (\<forall>sh o'. dk_chunks dk sh o' \<noteq> [] \<and> length (dk_file dk sh) \<le> hd (dk_chunks dk sh o'))"

text \<open>Every tensor of the table lies in the file of an existing shard.\<close>

definition inside :: "K3St \<Rightarrow> (int \<Rightarrow> bytes) \<Rightarrow> K3Tensor \<Rightarrow> bool" where
  "inside st file t \<longleftrightarrow> 0 \<le> t_shard t \<and> t_shard t < st_nshard st \<and> t_off t + t_nbytes t \<le> int (length (file (t_shard t)))"

definition st_inside :: "K3St \<Rightarrow> (int \<Rightarrow> bytes) \<Rightarrow> bool" where
  "st_inside st file \<longleftrightarrow> list_all (inside st file) (st_t st)"

lemma read_loop_done:
  "length buf \<ge> want \<or> off + length buf \<ge> length file \<Longrightarrow> read_loop file off want cs buf = buf"
  by (cases cs) (auto simp: pread_def Let_def)

lemma read_loop_whole:
  assumes "cs \<noteq> []" "length file \<le> hd cs"
  shows "read_loop file off want cs [] = take want (drop off file)"
proof -
  obtain c cs' where cs: "cs = c # cs'" using assms(1) by (cases cs) auto
  have r: "pread file want off c = take want (drop off file)"
    using assms(2) by (auto simp: pread_def cs min_def)
  show ?thesis
  proof (cases "want = 0 \<or> take want (drop off file) = []")
    case True
    then show ?thesis using r by (auto simp: cs Let_def)
  next
    case False
    have "read_loop file off want cs [] = read_loop file off want cs' (take want (drop off file))"
      using False r by (simp add: cs Let_def)
    also have "\<dots> = take want (drop off file)" by (rule read_loop_done) (auto simp: min_def)
    finally show ?thesis .
  qed
qed

lemma st_read_complete:
  assumes "delivers dk" "sane t" "inside st (dk_file dk) t"
  shows "int (length (k3_st_read dk t)) = t_nbytes t"
proof -
  have "k3_st_read dk t = take (nat (t_nbytes t)) (drop (nat (t_off t)) (dk_file dk (t_shard t)))"
    unfolding k3_st_read_def using assms(1) by (intro read_loop_whole) (auto simp: delivers_def)
  then show ?thesis using assms(2,3) by (auto simp: sane_def inside_def min_def)
qed

lemma read_aligned_complete:
  assumes "delivers dk" "0 \<le> sh" "sh < st_nshard st" "0 \<le> off" "0 \<le> n" "off + n \<le> int (length (dk_file dk sh))"
    and "n + 8192 \<le> cap"
  shows "fst (k3_st_read_aligned st dk sh off n cap) = n"
proof (cases "dk_direct dk sh")
  case False
  have "read_loop (dk_file dk sh) (nat off) (nat n) (dk_chunks dk sh off) [] = take (nat n) (drop (nat off) (dk_file dk sh))"
    using assms(1) by (intro read_loop_whole) (auto simp: delivers_def)
  then show ?thesis using assms False
    by (auto simp: k3_st_read_aligned_def read_buffered_def Let_def min_def)
next
  case True
  define lo where "lo = align_down off"
  define hi where "hi = align_down (off + n + K3_ST_ALIGN - 1)"
  have w: "lo \<le> off" "off < lo + 4096" "off + n \<le> hi" "hi < off + n + 4096"
    using window_bounds [OF assms(5), of off] by (auto simp: lo_def hi_def)
  have lo0: "0 \<le> lo" using assms(4) zmod_le_nonneg_dividend [of off 4096] by (simp add: lo_def align_down_eq)
  have rl: "read_loop (dk_file dk sh) (nat lo) (nat (hi - lo)) (dk_chunks dk sh lo) [] =
      take (nat (hi - lo)) (drop (nat lo) (dk_file dk sh))"
    using assms(1) by (intro read_loop_whole) (auto simp: delivers_def)
  have "off - lo + n \<le> int (length (take (nat (hi - lo)) (drop (nat lo) (dk_file dk sh))))"
    using w lo0 assms(5,6) by (auto simp: min_def)
  moreover have "\<not> cap < hi - lo" using w assms(7) by linarith
  ultimately show ?thesis
    using True assms(2,3) rl
    by (simp add: k3_st_read_aligned_def read_window_def Let_def lo_def [symmetric] hi_def [symmetric])
qed

lemma load_scattered_complete:
  assumes "pack o0 pcs = (ms, tot)" "length ws = length pcs" "delivers dk"
    and "\<forall>i < length pcs. find_pair s (er_layer r) (er_expert r) (ws ! i) = Some (pcs ! i)"
    and "\<forall>pc\<in>set pcs. sane (fst pc) \<and> sane (snd pc) \<and> inside s (dk_file dk) (fst pc) \<and> inside s (dk_file dk) (snd pc)"
  shows "fst (load_scattered s dk r (zip ws ms) g0 buf) = g0 + (tot - o0)"
  using assms
proof (induction pcs arbitrary: o0 ms ws g0 buf)
  case (Cons pc pcs)
  obtain p c where pc: "pc = (p, c)" by fastforce
  obtain w ws' where ws: "ws = w # ws'" using Cons.prems(2) by (cases ws) auto
  let ?o2 = "o0 + t_nbytes p + t_nbytes c"
  obtain ms' m where ms: "pack ?o2 pcs = (ms', tot)" "ms = m # ms'"
    using Cons.prems(1) by (auto simp: pc Let_def qmat_of_def split: prod.splits)
  have full: "int (length (k3_st_read dk p)) = t_nbytes p" "int (length (k3_st_read dk c)) = t_nbytes c"
    using Cons.prems(5) st_read_complete [OF Cons.prems(3)] by (auto simp: pc)
  have rest: "\<forall>i < length pcs. find_pair s (er_layer r) (er_expert r) (ws' ! i) = Some (pcs ! i)"
  proof (intro allI impI)
    fix i assume "i < length pcs"
    then show "find_pair s (er_layer r) (er_expert r) (ws' ! i) = Some (pcs ! i)"
      using Cons.prems(4) [THEN spec, of "Suc i"] by (simp add: ws)
  qed
  have "find_pair s (er_layer r) (er_expert r) w = Some (p, c)"
    using Cons.prems(4) [THEN spec, of 0] by (simp add: ws pc)
  then show ?case
    using Cons.IH [OF ms(1) _ Cons.prems(3) rest] Cons.prems(2,5) full by (simp add: ws ms(2) Let_def)
qed simp

section \<open>A complete load\<close>

lemma find_inside: "st_sane s \<Longrightarrow> st_inside s file \<Longrightarrow> k3_st_find s name = Some t \<Longrightarrow> inside s file t"
proof -
  assume s: "st_sane s" "st_inside s file" "k3_st_find s name = Some t"
  have "list_all (\<lambda>t. sane t \<and> inside s file t) (st_t s)"
    using s(1,2) by (auto simp: st_sane_def st_inside_def list_all_iff)
  then show ?thesis using find_in_table [OF s(1,3)] by (auto simp: list_all_iff)
qed

lemma load_complete:
  assumes st: "st_sane s" "st_inside s (dk_file dk)" and dk: "delivers dk"
    and ref: "k3_expert_ref s layer expert = Some r" and cap: "er_nbytes r + 8192 \<le> cap"
  shows "fst (k3_expert_load_direct s dk r buf cap) = er_nbytes r"
proof -
  obtain pcs where pcs: "r = layout layer expert pcs" "length pcs = 3"
    "\<And>i. i < 3 \<Longrightarrow> find_pair s layer expert (W ! i) = Some (pcs ! i) \<and> pair_ok (pcs ! i)"
    "\<And>pc. pc \<in> set pcs \<Longrightarrow> t_shard (fst pc) = er_shard r \<and> t_shard (snd pc) = er_shard r"
    using expert_refE [OF ref] by metis
  have good: "\<forall>pc\<in>set pcs. sane (fst pc) \<and> sane (snd pc) \<and> inside s (dk_file dk) (fst pc) \<and> inside s (dk_file dk) (snd pc)"
  proof
    fix pc assume "pc \<in> set pcs"
    then obtain i where "i < 3" "pc = pcs ! i" using pcs(2) by (metis in_set_conv_nth)
    then have "find_pair s layer expert (W ! i) = Some pc" using pcs(3) by simp
    then show "sane (fst pc) \<and> sane (snd pc) \<and> inside s (dk_file dk) (fst pc) \<and> inside s (dk_file dk) (snd pc)"
      using find_sane [OF st(1)] find_inside [OF st] by (auto simp: find_pair_def split: option.splits)
  qed
  show ?thesis
  proof (cases "er_contiguous r")
    case False
    obtain ms tot where pk: "pack 0 pcs = (ms, tot)" by fastforce
    have er: "er_m r = ms" "er_nbytes r = tot" "er_layer r = layer" "er_expert r = expert"
      using False by (auto simp: pcs(1) layout_def Let_def pk split: prod.splits)
    have "fst (load_scattered s dk r (zip W ms) 0 buf) = 0 + (tot - 0)"
      by (rule load_scattered_complete [OF pk _ dk _ good]) (use pcs er in \<open>simp_all add: W_def\<close>)
    then show ?thesis using False er by (auto simp: k3_expert_load_direct_def k3_expert_load_def split: prod.splits)
  next
    case True
    obtain lo hi own where sp: "span_of (t_off (fst (hd pcs))) (all_six pcs) = (lo, hi, own)" by (metis prod.exhaust)
    have er: "er_off r = lo" "er_nbytes r = own" "hi - lo = own"
      using True by (auto simp: pcs(1) layout_def Let_def sp split: prod.splits if_splits)
    have ne: "pcs \<noteq> []" using pcs(2) by auto
    have nn: "0 \<le> lo" "0 \<le> own" using layout_inside [OF _ ne pcs(1)] good er by auto
    have hd: "hd pcs \<in> set pcs" using ne by simp
    have sh: "0 \<le> er_shard r" "er_shard r < st_nshard s"
      using good hd pcs(4) [OF hd] by (auto simp: inside_def)
    have "\<forall>t\<in>set (all_six pcs). t_off t + t_nbytes t \<le> int (length (dk_file dk (er_shard r)))"
      using good pcs(4) by (auto simp: all_six_def inside_def)
    then have "lo + own \<le> int (length (dk_file dk (er_shard r)))"
      using span_of_hi [OF sp] er(3) by auto
    from read_aligned_complete [OF dk sh nn this, of cap] cap er show ?thesis
      using True by (auto simp: k3_expert_load_direct_def split: prod.splits)
  qed
qed

section \<open>Requests that succeed\<close>

lemma admit_miss_succeeds:
  assumes "st_sane st" "st_inside st (dk_file dk)" "delivers dk"
    and "k3_expert_ref st layer expert = Some r" "er_nbytes r + 8192 \<le> slot_bytes c" "pick_victim c = Some s"
  shows "fst (admit_miss st dk layer expert key c) = Some s"
proof -
  have "fst (k3_expert_load_direct st dk r (arena c ! s) (slot_bytes c)) = er_nbytes r"
    by (rule load_complete [OF assms(1-5)])
  moreover have "\<not> slot_bytes c < er_nbytes r" using assms(5) by simp
  ultimately show ?thesis
    using assms(4,6) by (auto simp: admit_miss_def load_slot_store split: prod.splits)
qed

lemma victim_counters [simp]:
  "pick_victim (c\<lparr>misses := a\<rparr>) = pick_victim c" "pick_victim (record_request g l e c) = pick_victim c"
proof -
  have vs: "victim_scan c' is best oldest = victim_scan c is best oldest"
    if "key_of c' = key_of c" "pinned c' = pinned c" "used_at c' = used_at c" for c' "is" best oldest
    using that by (induction "is" arbitrary: best oldest) (auto split: slot_key.splits)
  show "pick_victim (c\<lparr>misses := a\<rparr>) = pick_victim c" "pick_victim (record_request g l e c) = pick_victim c"
    unfolding pick_victim_def nslot_def by (subst vs; simp add: record_request_def Let_def)+
qed

lemma get_succeeds:
  assumes inv: "cache_inv st file c" and st: "st_sane st" "st_inside st file" and dk: "delivers dk" "dk_file dk = file"
    and rng: "in_range c layer expert" and ref: "k3_expert_ref st layer expert = Some r" "er_nbytes r + 8192 \<le> slot_bytes c"
    and v: "pick_victim c \<noteq> None"
  shows "\<exists>q c'. cache_get st dk grow layer expert c = Some (Some q, c') \<and> cache_inv st file c' \<and>
    q_serves st file c' layer expert q \<and> cache_resident layer expert c' = Some q \<and> evolves c c'"
proof -
  let ?c = "record_request grow layer expert c"
  have "key_valid c (key_ix c layer expert)"
    using in_range_key(1) [OF _ rng] inv by (simp add: cache_inv_def cache_wf_def)
  then have valid: "key_valid ?c (key_ix c layer expert)" by (simp add: key_valid_def)
  obtain s where s: "pick_victim (?c\<lparr>misses := misses ?c + 1\<rparr>) = Some s" using v by auto
  have "slot_bytes ?c = slot_bytes c" by (simp add: record_request_def Let_def)
  then have am: "fst (admit_miss st dk layer expert key (?c\<lparr>misses := misses ?c + 1\<rparr>)) = Some s" for key
    using admit_miss_succeeds [OF st(1) _ dk(1) ref(1) _ s] st(2) dk(2) ref(2) by simp
  obtain res c1 where ad: "admit st dk layer expert ?c = Some (Some res, c1)"
  proof (cases "slot_of c ! nat (key_ix c layer expert)")
    case None
    obtain a b where ab: "admit_miss st dk layer expert (nat (key_ix c layer expert)) (?c\<lparr>misses := misses ?c + 1\<rparr>) = (a, b)"
      by fastforce
    have "a = Some s" using am [of "nat (key_ix c layer expert)"] ab by simp
    then show ?thesis using that None valid ab by (simp add: admit_def Let_def)
  next
    case (Some t)
    then show ?thesis using that valid by (simp add: admit_def Let_def)
  qed
  then have "cache_get st dk grow layer expert c = Some (Some (fill_q c1 res), c1)" using rng by (simp add: cache_get_def)
  then show ?thesis using cache_get_ok [OF inv st(1) dk(2), of grow layer expert] by auto
qed

end
