(* ===== verification/K3_Header.thy ===== *)
theory K3_Header
  imports K3_Store "HOL-Library.List_Lexorder"
begin

text \<open>
  The safetensors header scanner of \<open>src/io/k3_st.c\<close>: the tokens, one tensor entry, and one shard. The
  scanner's two pointers are the remaining text; a failed token is \<open>None\<close>, the jump to \<open>bad\<close>.
  \<open>int64_t\<close> values wrap around (\<open>int64\<close>): the scanner does not check for overflow.
\<close>

section \<open>Tokens\<close>

definition ws :: "cstr \<Rightarrow> cstr" where
  "ws p = dropWhile (\<lambda>c. chr_code c \<le> 32) p"

definition lit :: "cstr \<Rightarrow> char \<Rightarrow> cptr" where
  "lit p c = (case ws p of [] \<Rightarrow> None | x # xs \<Rightarrow> if x = c then Some xs else None)"

text \<open>\<open>char\<close> is signed: the digit of \<open>\uXXXX\<close> is computed on the signed value, in 32-bit arithmetic.\<close>

definition signed_char :: "char \<Rightarrow> int" where
  "signed_char c = (if chr_code c < 128 then int (chr_code c) else int (chr_code c) - 256)"

definition hex_digit :: "char \<Rightarrow> 32 word" where
  "hex_digit h = (if signed_char h \<le> 57 then of_int (signed_char h - 48)
                  else of_int ((signed_char h OR 32) - 97 + 10))"

definition unicode_escape :: "cstr \<Rightarrow> char" where
  "unicode_escape hs =
     (let v = fold (\<lambda>h v. v * 16 + hex_digit h) hs (0 :: 32 word)
      in if v < 128 then char_of (unat v) else CHR ''?'')"

definition simple_escape :: "char \<Rightarrow> char" where
  "simple_escape e =
     (if e = CHR ''n'' then LF else if e = CHR ''t'' then TAB else if e = CHR ''r'' then CR
      else if e = CHR ''b'' then CHR 0x08 else if e = CHR ''f'' then CHR 0x0C else e)"

function str_body :: "cstr \<Rightarrow> cstr \<Rightarrow> (cstr \<times> cstr) option" where
  "str_body p acc =
     (case p of
        [] \<Rightarrow> None
      | c # cs \<Rightarrow>
          if c = DQ then Some (acc, cs)
          else if c = BSL then
            (case cs of
               [] \<Rightarrow> None
             | e # es \<Rightarrow>
                 if e = CHR ''u'' then
                   (if length es < 4 then None
                    else str_body (drop 4 es) (acc @ [unicode_escape (take 4 es)]))
                 else str_body es (acc @ [simple_escape e]))
          else str_body cs (acc @ [c]))"
  by pat_completeness auto
termination by (relation "measure (\<lambda>(p, _). length p)") auto

declare str_body.simps [simp del]

text \<open>A string token that fits a buffer of \<open>cap\<close> bytes with its terminator.\<close>

definition str_tok :: "cstr \<Rightarrow> nat \<Rightarrow> (cstr \<times> cstr) option" where
  "str_tok p cap =
     (case ws p of
        [] \<Rightarrow> None
      | c # cs \<Rightarrow>
          if c \<noteq> DQ then None
          else case str_body cs [] of
                 None \<Rightarrow> None
               | Some (s, rest) \<Rightarrow> if length s + 1 > cap then None else Some (s, rest))"

definition digits_value :: "cstr \<Rightarrow> int" where
  "digits_value ds = fold (\<lambda>c a. int64 (int64 (a * 10) + (int (chr_code c) - 48))) ds 0"

definition i64_tok :: "cstr \<Rightarrow> (int \<times> cstr) option" where
  "i64_tok p =
     (let q = ws p;
          signed = (q \<noteq> [] \<and> (hd q = CHR ''-'' \<or> hd q = CHR ''+''));
          neg = (signed \<and> hd q = CHR ''-'');
          r = (if signed then tl q else q);
          ds = takeWhile c_isdigit r
      in if ds = [] then None
         else Some (if neg then int64 (- digits_value ds) else digits_value ds, dropWhile c_isdigit r))"

function skip_str :: "cstr \<Rightarrow> cptr" where
  "skip_str p =
     (case p of
        [] \<Rightarrow> None
      | c # cs \<Rightarrow> if c = DQ then Some cs
                  else if c = BSL then skip_str (drop 1 cs) else skip_str cs)"
  by pat_completeness auto
termination by (relation "measure length") auto

declare skip_str.simps [simp del]

lemma skip_str_eqs:
  "skip_str [] = None"
  "skip_str (c # cs) = (if c = DQ then Some cs else if c = BSL then skip_str (drop 1 cs) else skip_str cs)"
  by (subst skip_str.simps, simp)+

lemma skip_str_shorter: "skip_str p = Some q \<Longrightarrow> length q < length p"
proof (induction "length p" arbitrary: p rule: less_induct)
  case less
  show ?case
  proof (cases p)
    case (Cons c cs)
    have "skip_str cs = Some q \<Longrightarrow> length q < length cs"
      "skip_str (drop 1 cs) = Some q \<Longrightarrow> length q < length (drop 1 cs)"
      by (rule less.hyps; simp add: Cons)+
    then show ?thesis using less.prems Cons by (auto simp: skip_str_eqs split: if_splits)
  qed (use less.prems in \<open>simp add: skip_str_eqs\<close>)
qed

function skip_nest :: "cstr \<Rightarrow> int \<Rightarrow> cptr" where
  "skip_nest p depth =
     (case p of
        [] \<Rightarrow> None
      | c # cs \<Rightarrow>
          if c = DQ then
            (case skip_str cs of
               None \<Rightarrow> None
             | Some r \<Rightarrow> if depth > 0 then skip_nest r depth else Some r)
          else let d = (if c = CHR ''{'' \<or> c = CHR ''['' then depth + 1
                        else if c = CHR ''}'' \<or> c = CHR '']'' then depth - 1 else depth)
               in if d > 0 then skip_nest cs d else Some cs)"
  by pat_completeness auto
termination
  by (relation "measure (\<lambda>(p, _). length p)") (auto dest: skip_str_shorter)

declare skip_nest.simps [simp del]

definition skip_value :: "cstr \<Rightarrow> cptr" where
  "skip_value p =
     (case ws p of
        [] \<Rightarrow> None
      | c # cs \<Rightarrow>
          if c = DQ then skip_str cs
          else if c = CHR ''{'' \<or> c = CHR ''['' then skip_nest (c # cs) 0
          else Some (dropWhile (\<lambda>x. x \<noteq> CHR '','' \<and> x \<noteq> CHR ''}'' \<and> x \<noteq> CHR '']'') (c # cs)))"

section \<open>Every token makes progress\<close>

lemma length_ws: "length (ws p) \<le> length p"
  by (simp add: ws_def length_dropWhile_le)

lemma lit_shorter: "lit p c = Some q \<Longrightarrow> length q < length p"
  using length_ws [of p] by (auto simp: lit_def split: list.splits if_splits)

lemma str_body_eqs:
  "str_body [] acc = None"
  "str_body (c # cs) acc =
     (if c = DQ then Some (acc, cs)
      else if c = BSL then
        (case cs of
           [] \<Rightarrow> None
         | e # es \<Rightarrow>
             if e = CHR ''u'' then
               (if length es < 4 then None
                else str_body (drop 4 es) (acc @ [unicode_escape (take 4 es)]))
             else str_body es (acc @ [simple_escape e]))
      else str_body cs (acc @ [c]))"
  by (subst str_body.simps, simp)+

lemma str_body_shorter: "str_body p acc = Some (s, q) \<Longrightarrow> length q < length p"
proof (induction "length p" arbitrary: p acc rule: less_induct)
  case less
  show ?case
  proof (cases p)
    case (Cons c cs)
    have rec: "length q < length r" if "str_body r acc' = Some (s, q)" "length r \<le> length cs" for r acc'
      using less.hyps [of r acc'] that Cons by simp
    from less.prems show ?thesis
      unfolding Cons str_body_eqs(2) [of c cs]
      by (auto split: list.splits if_splits dest!: rec)
  qed (use less.prems in \<open>simp add: str_body_eqs\<close>)
qed

lemma str_tok_shorter: "str_tok p cap = Some (s, q) \<Longrightarrow> length q < length p"
  using length_ws [of p]
  by (auto simp: str_tok_def split: list.splits if_splits option.splits dest!: str_body_shorter)

lemma str_tok_fits: "str_tok p cap = Some (s, q) \<Longrightarrow> length s < cap"
  by (auto simp: str_tok_def split: list.splits if_splits option.splits)

lemma i64_tok_shorter: "i64_tok p = Some (v, q) \<Longrightarrow> length q < length p"
proof -
  assume a: "i64_tok p = Some (v, q)"
  define r where "r = (if ws p \<noteq> [] \<and> (hd (ws p) = CHR ''-'' \<or> hd (ws p) = CHR ''+'') then tl (ws p) else ws p)"
  have q: "q = dropWhile c_isdigit r" "takeWhile c_isdigit r \<noteq> []"
    using a by (auto simp: i64_tok_def r_def Let_def split: if_splits)
  have "length (takeWhile c_isdigit r) + length q = length r"
    unfolding q(1) by (metis length_append takeWhile_dropWhile_id)
  moreover have "length r \<le> length p" using length_ws [of p] by (auto simp: r_def)
  ultimately show ?thesis using q(2) by (metis add_less_cancel_right add_0 le_trans length_greater_0_conv less_le_trans)
qed

lemma skip_nest_eqs:
  "skip_nest [] d = None"
  "skip_nest (c # cs) depth =
     (if c = DQ then
        (case skip_str cs of
           None \<Rightarrow> None
         | Some r \<Rightarrow> if depth > 0 then skip_nest r depth else Some r)
      else let d = (if c = CHR ''{'' \<or> c = CHR ''['' then depth + 1
                    else if c = CHR ''}'' \<or> c = CHR '']'' then depth - 1 else depth)
           in if d > 0 then skip_nest cs d else Some cs)"
  by (subst skip_nest.simps, simp)+

lemma skip_nest_shorter: "skip_nest p d = Some q \<Longrightarrow> length q < length p"
proof (induction "length p" arbitrary: p d rule: less_induct)
  case less
  have rec: "length q < length p" if "skip_nest r d' = Some q" "length r < length p" for r d'
    using less.hyps [OF that(2,1)] that(2) by simp
  show ?case
  proof (cases p)
    case (Cons c cs)
    show ?thesis
    proof (cases "c = DQ")
      case True
      with less.prems Cons obtain r where r: "skip_str cs = Some r"
        "(if d > 0 then skip_nest r d else Some r) = Some q"
        by (auto simp: skip_nest_eqs split: option.splits)
      from skip_str_shorter [OF r(1)] r(2) Cons show ?thesis
        using rec [of r d] by (cases "d > 0") auto
    next
      case False
      with less.prems Cons rec show ?thesis
        by (simp add: skip_nest_eqs Let_def split: if_splits)
    qed
  qed (use less.prems in \<open>simp add: skip_nest_eqs\<close>)
qed

lemma skip_value_shorter:
  assumes "skip_value p = Some q"
  shows "length q \<le> length p"
proof -
  have "length q \<le> length (ws p)"
  proof (cases "ws p")
    case (Cons c cs)
    consider "c = DQ" | "c \<noteq> DQ" "c = CHR ''{'' \<or> c = CHR ''[''"
      | "c \<noteq> DQ" "c \<noteq> CHR ''{''" "c \<noteq> CHR ''[''" by blast
    then show ?thesis
    proof cases
      case 1
      then show ?thesis using assms Cons skip_str_shorter [of cs q] by (simp add: skip_value_def)
    next
      case 2
      then have "skip_nest (c # cs) 0 = Some q" using assms Cons by (auto simp: skip_value_def)
      from skip_nest_shorter [OF this] show ?thesis using Cons by simp
    next
      case 3
      then have "q = dropWhile (\<lambda>x. x \<noteq> CHR '','' \<and> x \<noteq> CHR ''}'' \<and> x \<noteq> CHR '']'') (c # cs)"
        using assms Cons by (simp add: skip_value_def)
      then show ?thesis using length_dropWhile_le Cons by metis
    qed
  qed (use assms in \<open>simp add: skip_value_def\<close>)
  then show ?thesis using length_ws [of p] by simp
qed

section \<open>One tensor entry\<close>

text \<open>A buffer compared with \<open>strcmp\<close>: up to its first NUL.\<close>

definition cut :: "cstr \<Rightarrow> cstr" where
  "cut s = takeWhile (\<lambda>c. c \<noteq> CHR 0x00) s"

record Entry =
  en_dtype :: K3Dtype
  en_shape :: "int list"
  en_have_dt :: bool
  en_have_off :: bool
  en_o0 :: int
  en_o1 :: int

definition entry_init :: Entry where
  "entry_init = \<lparr>en_dtype = K3_DT_UNKNOWN, en_shape = [], en_have_dt = False, en_have_off = False,
     en_o0 = 0, en_o1 = 0\<rparr>"

function shape_loop :: "cstr \<Rightarrow> int list \<Rightarrow> (int list \<times> cstr) option" where
  "shape_loop p shape =
     (case i64_tok p of
        None \<Rightarrow> None
      | Some (d, r) \<Rightarrow>
          if length shape < 4 then
            (case lit r (CHR '','') of
               Some r2 \<Rightarrow> shape_loop r2 (shape @ [d])
             | None \<Rightarrow> (case lit r (CHR '']'') of
                          Some r2 \<Rightarrow> Some (shape @ [d], r2)
                        | None \<Rightarrow> None))
          else None)"
  by pat_completeness auto
termination
  by (relation "measure (\<lambda>(p, _). length p)") (auto dest!: lit_shorter i64_tok_shorter)

declare shape_loop.simps [simp del]

definition shape_field :: "cstr \<Rightarrow> int list \<Rightarrow> (int list \<times> cstr) option" where
  "shape_field p shape =
     (case lit p (CHR ''['') of
        None \<Rightarrow> None
      | Some r \<Rightarrow> (case ws r of
                     c # cs \<Rightarrow> if c = CHR '']'' then Some (shape, cs) else shape_loop r shape
                   | [] \<Rightarrow> None))"

definition offsets_field :: "cstr \<Rightarrow> ((int \<times> int) \<times> cstr) option" where
  "offsets_field p =
     (case lit p (CHR ''['') of None \<Rightarrow> None | Some r1 \<Rightarrow>
      (case i64_tok r1 of None \<Rightarrow> None | Some (o0, r2) \<Rightarrow>
      (case lit r2 (CHR '','') of None \<Rightarrow> None | Some r3 \<Rightarrow>
      (case i64_tok r3 of None \<Rightarrow> None | Some (o1, r4) \<Rightarrow>
      (case lit r4 (CHR '']'') of None \<Rightarrow> None | Some r5 \<Rightarrow> Some ((o0, o1), r5))))))"

text \<open>The value of a key, once the key and its colon were read.\<close>

definition field_value :: "cstr \<Rightarrow> cstr \<Rightarrow> Entry \<Rightarrow> (Entry \<times> cstr) option" where
  "field_value key p en =
     (if cut key = ''dtype'' then
        (case str_tok p 32 of
           None \<Rightarrow> None
         | Some (dv, r) \<Rightarrow>
             if dtype_of dv = K3_DT_UNKNOWN then None
             else Some (en\<lparr>en_dtype := dtype_of dv, en_have_dt := True\<rparr>, r))
      else if cut key = ''shape'' then
        map_option (\<lambda>(sh, r). (en\<lparr>en_shape := sh\<rparr>, r)) (shape_field p (en_shape en))
      else if cut key = ''data_offsets'' then
        map_option (\<lambda>((o0, o1), r). (en\<lparr>en_o0 := o0, en_o1 := o1, en_have_off := True\<rparr>, r)) (offsets_field p)
      else map_option (\<lambda>r. (en, r)) (skip_value p))"

definition parse_field :: "cstr \<Rightarrow> Entry \<Rightarrow> (Entry \<times> cstr) option" where
  "parse_field p en =
     (case str_tok p 64 of
        None \<Rightarrow> None
      | Some (key, r) \<Rightarrow> (case lit r (CHR '':'') of None \<Rightarrow> None | Some r1 \<Rightarrow> field_value key r1 en))"

definition at_brace :: "cstr \<Rightarrow> cptr" where
  "at_brace p = lit p (CHR ''}'')"

lemma shape_loop_shorter: "shape_loop p sh = Some (sh', q) \<Longrightarrow> length q < length p \<and> length sh' \<le> 4"
proof (induction p sh rule: shape_loop.induct)
  case (1 p sh)
  obtain d r where t: "i64_tok p = Some (d, r)" and l: "length sh < 4"
    using "1.prems" by (auto simp: shape_loop.simps [of p] split: option.splits if_splits)
  note tr = i64_tok_shorter [OF t]
  show ?case
  proof (cases "lit r (CHR '','')")
    case (Some r2)
    then have "shape_loop r2 (sh @ [d]) = Some (sh', q)"
      using "1.prems" t l by (simp add: shape_loop.simps [of p])
    from "1.IH" [OF t refl l Some this] lit_shorter [OF Some] tr show ?thesis by simp
  next
    case None
    then obtain r2 where "lit r (CHR '']'') = Some r2" "q = r2" "sh' = sh @ [d]"
      using "1.prems" t l by (auto simp: shape_loop.simps [of p] split: option.splits)
    then show ?thesis using tr l lit_shorter [of r "CHR '']''" r2] by simp
  qed
qed

lemma shape_field_shorter:
  assumes "shape_field p sh = Some (sh', q)" "length sh \<le> 4"
  shows "length q \<le> length p \<and> length sh' \<le> 4"
proof -
  obtain r where r: "lit p (CHR ''['') = Some r" using assms by (auto simp: shape_field_def split: option.splits)
  then obtain c cs where c: "ws r = c # cs" using assms by (auto simp: shape_field_def split: list.splits)
  show ?thesis
  proof (cases "c = CHR '']''")
    case True
    then show ?thesis using assms r c lit_shorter [OF r] length_ws [of r] by (simp add: shape_field_def)
  next
    case False
    then have "shape_loop r sh = Some (sh', q)" using assms r c by (simp add: shape_field_def)
    from shape_loop_shorter [OF this] lit_shorter [OF r] show ?thesis by simp
  qed
qed

lemma shape_field_progress: "shape_field p sh = Some (sh', q) \<Longrightarrow> length q \<le> length p"
  using length_ws
  by (auto simp: shape_field_def split: option.splits list.splits if_splits
      dest!: lit_shorter shape_loop_shorter)
    (metis Suc_leD Suc_le_lessD le_trans length_Cons less_imp_le_nat)

lemma offsets_field_shorter: "offsets_field p = Some (os, q) \<Longrightarrow> length q \<le> length p"
  by (auto simp: offsets_field_def split: option.splits dest!: lit_shorter i64_tok_shorter)

lemma field_value_ok:
  assumes "field_value key p en = Some (en', q)" "length (en_shape en) \<le> 4"
    and "en_have_dt en \<Longrightarrow> en_dtype en \<noteq> K3_DT_UNKNOWN"
  shows "length q \<le> length p \<and> length (en_shape en') \<le> 4 \<and>
    (en_have_dt en' \<longrightarrow> en_dtype en' \<noteq> K3_DT_UNKNOWN)"
  using assms str_tok_shorter [of p 32] shape_field_shorter [of p "en_shape en"]
    offsets_field_shorter [of p] skip_value_shorter [of p]
  by (auto simp: field_value_def less_imp_le split: if_splits option.splits)

lemma parse_field_ok:
  assumes "parse_field p en = Some (en', q)" "length (en_shape en) \<le> 4"
    and "en_have_dt en \<Longrightarrow> en_dtype en \<noteq> K3_DT_UNKNOWN"
  shows "length q < length p \<and> length (en_shape en') \<le> 4 \<and>
    (en_have_dt en' \<longrightarrow> en_dtype en' \<noteq> K3_DT_UNKNOWN)"
proof -
  obtain key r r1 where k: "str_tok p 64 = Some (key, r)" "lit r (CHR '':'') = Some r1"
    "field_value key r1 en = Some (en', q)"
    using assms(1) by (auto simp: parse_field_def split: option.splits)
  from str_tok_shorter [OF k(1)] lit_shorter [OF k(2)] field_value_ok [OF k(3) assms(2,3)]
  show ?thesis by auto
qed

lemma field_value_shorter: "field_value key p en = Some (en', q) \<Longrightarrow> length q \<le> length p"
  using str_tok_shorter [of p 32] shape_field_progress [of p "en_shape en"]
    offsets_field_shorter [of p] skip_value_shorter [of p]
  by (auto simp: field_value_def less_imp_le split: if_splits option.splits)

lemma parse_field_shorter: "parse_field p en = Some (en', q) \<Longrightarrow> length q < length p"
  by (auto simp: parse_field_def split: option.splits
      dest!: str_tok_shorter lit_shorter field_value_shorter)

text \<open>The fields of one entry, up to its closing brace; \<open>f1\<close> holds before the first.\<close>

function entry_fields :: "cstr \<Rightarrow> bool \<Rightarrow> Entry \<Rightarrow> (Entry \<times> cstr) option" where
  "entry_fields p f1 en =
     (case at_brace p of
        Some r \<Rightarrow> Some (en, r)
      | None \<Rightarrow>
          (case (if f1 then Some p else lit p (CHR '','')) of
             None \<Rightarrow> None
           | Some q \<Rightarrow>
               (case parse_field q en of
                  None \<Rightarrow> None
                | Some (en', r) \<Rightarrow> entry_fields r False en')))"
  by pat_completeness auto
termination
  by (relation "measure (\<lambda>(p, _). length p)")
    (auto split: if_splits dest!: lit_shorter parse_field_shorter)

declare entry_fields.simps [simp del]

abbreviation entry_ok :: "Entry \<Rightarrow> bool" where
  "entry_ok en \<equiv> length (en_shape en) \<le> 4 \<and> (en_have_dt en \<longrightarrow> en_dtype en \<noteq> K3_DT_UNKNOWN)"

lemma entry_fields_ok:
  "entry_fields p f1 en = Some (en', q) \<Longrightarrow> entry_ok en \<Longrightarrow> length q < length p \<and> entry_ok en'"
proof (induction p f1 en rule: entry_fields.induct)
  case (1 p f1 en)
  show ?case
  proof (cases "at_brace p")
    case (Some r)
    then show ?thesis using "1.prems" lit_shorter [of p "CHR ''}''" r]
      by (simp add: entry_fields.simps [of p] at_brace_def)
  next
    case None
    with "1.prems"(1) obtain q0 en1 r where q0: "(if f1 then Some p else lit p (CHR '','')) = Some q0"
      and r: "parse_field q0 en = Some (en1, r)" and rest: "entry_fields r False en1 = Some (en', q)"
      by (auto simp: entry_fields.simps [of p] split: option.splits)
    have "length q0 \<le> length p"
      using q0 lit_shorter [of p "CHR '',''" q0] by (cases f1) auto
    moreover have ok: "length r < length q0 \<and> entry_ok en1"
      using parse_field_ok [OF r] "1.prems"(2) by blast
    ultimately show ?thesis using "1.IH" [OF None q0 r refl rest] ok by simp
  qed
qed

section \<open>One shard\<close>

text \<open>
  The checks on a finished entry: both required fields, a span that is elements times element size, and
  an end inside the file, all in \<open>int64_t\<close> arithmetic.
\<close>

definition finish_entry :: "int \<Rightarrow> int \<Rightarrow> int \<Rightarrow> cstr \<Rightarrow> Entry \<Rightarrow> K3Tensor option" where
  "finish_entry shard base fsize name en =
     (if \<not> en_have_dt en \<or> \<not> en_have_off en then None
      else let t = \<lparr>t_name = cut name, t_shard = shard, t_dtype = en_dtype en, t_shape = en_shape en,
                    t_off = int64 (base + en_o0 en), t_nbytes = int64 (en_o1 en - en_o0 en)\<rparr>
           in if t_nbytes t \<noteq> int64 (k3_st_numel t * k3_st_elemsize (t_dtype t)) then None
              else if int64 (base + en_o1 en) > fsize then None
              else Some t)"

text \<open>\<open>push\<close>: growing the table may fail; \<open>room\<close> is the number of tensors memory holds.\<close>

definition push :: "nat \<Rightarrow> K3Tensor list \<Rightarrow> K3Tensor \<Rightarrow> K3Tensor list option" where
  "push room b t = (if length b < room then Some (b @ [t]) else None)"

text \<open>One entry from its name on: the extended table, or the unchanged one after \<open>__metadata__\<close>.\<close>

definition one_entry ::
  "nat \<Rightarrow> int \<Rightarrow> int \<Rightarrow> int \<Rightarrow> cstr \<Rightarrow> K3Tensor list \<Rightarrow> (K3Tensor list \<times> cstr) option" where
  "one_entry room shard base fsize p b =
     (case str_tok p 512 of None \<Rightarrow> None | Some (name, r1) \<Rightarrow>
      (case lit r1 (CHR '':'') of None \<Rightarrow> None | Some r2 \<Rightarrow>
       if cut name = ''__metadata__'' then map_option (\<lambda>r. (b, r)) (skip_value r2)
       else (case lit r2 (CHR ''{'') of None \<Rightarrow> None | Some r3 \<Rightarrow>
            (case entry_fields r3 True entry_init of None \<Rightarrow> None | Some (en, r4) \<Rightarrow>
            (case finish_entry shard base fsize name en of None \<Rightarrow> None | Some t \<Rightarrow>
             map_option (\<lambda>b'. (b', r4)) (push room b t))))))"

lemma entry_init_ok: "entry_ok entry_init"
  by (simp add: entry_init_def)

lemma one_entry_shorter:
  assumes "one_entry room shard base fsize p b = Some (b', q)"
  shows "length q < length p"
proof -
  obtain name r1 r2 where n: "str_tok p 512 = Some (name, r1)" "lit r1 (CHR '':'') = Some r2"
    using assms by (auto simp: one_entry_def split: option.splits)
  note len = str_tok_shorter [OF n(1)] lit_shorter [OF n(2)]
  show ?thesis
  proof (cases "cut name = ''__metadata__''")
    case True
    then show ?thesis using assms n len by (auto simp: one_entry_def dest!: skip_value_shorter)
  next
    case False
    then obtain r3 en where f: "lit r2 (CHR ''{'') = Some r3" "entry_fields r3 True entry_init = Some (en, q)"
      using assms n by (auto simp: one_entry_def split: option.splits)
    from entry_fields_ok [OF f(2) entry_init_ok] lit_shorter [OF f(1)] len show ?thesis by simp
  qed
qed

function entries ::
  "nat \<Rightarrow> int \<Rightarrow> int \<Rightarrow> int \<Rightarrow> cstr \<Rightarrow> bool \<Rightarrow> K3Tensor list \<Rightarrow> K3Tensor list option" where
  "entries room shard base fsize p first b =
     (case at_brace p of
        Some r \<Rightarrow> Some b
      | None \<Rightarrow>
          (case (if first then Some p else lit p (CHR '','')) of
             None \<Rightarrow> None
           | Some q \<Rightarrow>
               (case at_brace q of
                  Some r \<Rightarrow> Some b
                | None \<Rightarrow>
                    (case one_entry room shard base fsize q b of
                       None \<Rightarrow> None
                     | Some (b', r) \<Rightarrow> entries room shard base fsize r False b'))))"
  by pat_completeness auto
termination
  by (relation "measure (\<lambda>(_, _, _, _, p, _). length p)")
    (auto split: if_splits dest!: lit_shorter one_entry_shorter)

declare entries.simps [simp del]

text \<open>
  The 8-byte little-endian header length, checked against the file size in \<open>uint64_t\<close> arithmetic, a
  buffer of \<open>hlen + 1\<close> bytes (\<open>alloc\<close> says whether \<open>malloc\<close> of that size succeeds), and the read of the
  header into it. \<open>Scan_Overrun\<close> is a read that delivers more than the buffer holds.
\<close>

definition le_u64 :: "bytes \<Rightarrow> 64 word" where
  "le_u64 bs = foldr (\<lambda>x h. push_bit 8 h OR ucast x) bs 0"

text \<open>The errors that the source reports with messages of their own; \<open>Bad_Header\<close> is the jump to \<open>bad\<close>.\<close>

datatype scan_error = Too_Short | Impossible_Length "64 word" | No_Memory | Short_Read | Bad_Header

datatype scan_result = Scan_Ok "K3Tensor list" | Scan_Fail scan_error | Scan_Overrun

record Shard_File =
  sf_name :: cstr
  sf_bytes :: bytes
  sf_first :: nat
  sf_chunks :: "nat list"

definition text_of :: "bytes \<Rightarrow> cstr" where
  "text_of bs = map (\<lambda>x. char_of (unat x)) bs"

definition scan_shard ::
  "(64 word \<Rightarrow> bool) \<Rightarrow> nat \<Rightarrow> int \<Rightarrow> Shard_File \<Rightarrow> K3Tensor list \<Rightarrow> scan_result" where
  "scan_shard alloc room shard sf b =
     (let file = sf_bytes sf; lenbuf = pread file 8 0 (sf_first sf) in
      if length lenbuf \<noteq> 8 then Scan_Fail Too_Short
      else let hlen = le_u64 lenbuf; fsize = length file in
      if hlen = 0 \<or> of_nat fsize < 8 + hlen then Scan_Fail (Impossible_Length hlen)
      else if \<not> alloc (hlen + 1) then Scan_Fail No_Memory
      else let json = read_loop file 8 (unat hlen) (sf_chunks sf) [] in
      if length json > unat (hlen + 1) then Scan_Overrun
      else if length json \<noteq> unat hlen then Scan_Fail Short_Read
      else case lit (text_of json) (CHR ''{'') of
             None \<Rightarrow> Scan_Fail Bad_Header
           | Some r \<Rightarrow>
               (case entries room shard (sint (8 + hlen)) (int fsize) r True b of
                  None \<Rightarrow> Scan_Fail Bad_Header
                | Some b' \<Rightarrow> Scan_Ok b'))"

subsection \<open>What the scanner lets through\<close>

text \<open>
  What the scanner lets through: a known type, at most four dimensions, a span that agrees with the shape and
  an end inside the file, both as the 64-bit arithmetic of the checks has them. Where nothing wraps around these are
  the exact ones, see \<open>tensor_exact\<close> below. (Nothing is said of a lower bound for the offset: see the end of the
  section.)
\<close>

definition tensor_wf :: "int \<Rightarrow> K3Tensor \<Rightarrow> bool" where
  "tensor_wf fsize t \<longleftrightarrow> t_dtype t \<in> {K3_DT_U8, K3_DT_BF16, K3_DT_F16, K3_DT_F32} \<and>
     length (t_shape t) \<le> 4 \<and> t_nbytes t = int64 (k3_st_numel t * k3_st_elemsize (t_dtype t)) \<and>
     int64 (t_off t + t_nbytes t) \<le> fsize \<and> - (2 ^ 63) \<le> t_off t \<and> t_off t < 2 ^ 63 \<and> length (t_name t) < 512 \<and> CHR 0x00 \<notin> set (t_name t)"

lemma dtype_of_not_draft: "dtype_of s \<noteq> K3_DT_I8R"
  by (simp add: dtype_of_def)

text \<open>The type of an entry comes from \<open>dtype_of\<close>, so it is never the draft format.\<close>

lemma field_value_dtype:
  assumes "field_value key p en = Some (en', q)" "en_dtype en \<noteq> K3_DT_I8R"
  shows "en_dtype en' \<noteq> K3_DT_I8R"
  using assms dtype_of_not_draft by (auto simp: field_value_def split: if_splits option.splits)

lemma entry_fields_dtype:
  "entry_fields p f1 en = Some (en', q) \<Longrightarrow> en_dtype en \<noteq> K3_DT_I8R \<Longrightarrow> en_dtype en' \<noteq> K3_DT_I8R"
proof (induction p f1 en rule: entry_fields.induct)
  case (1 p f1 en)
  show ?case
  proof (cases "at_brace p")
    case (Some r)
    then show ?thesis using "1.prems" by (simp add: entry_fields.simps [of p])
  next
    case None
    with "1.prems"(1) obtain q0 en1 r where q0: "(if f1 then Some p else lit p (CHR '','')) = Some q0"
      and r: "parse_field q0 en = Some (en1, r)" and rest: "entry_fields r False en1 = Some (en', q)"
      by (auto simp: entry_fields.simps [of p] split: option.splits)
    have "en_dtype en1 \<noteq> K3_DT_I8R"
      using r "1.prems"(2) by (auto simp: parse_field_def split: option.splits dest: field_value_dtype)
    with "1.IH" [OF None q0 r refl rest] show ?thesis .
  qed
qed

lemma cut_clean: "CHR 0x00 \<notin> set (cut s)" "length (cut s) \<le> length s"
  by (auto simp: cut_def length_takeWhile_le dest: set_takeWhileD)

lemma finish_entryD:
  assumes "finish_entry shard base fsize name en = Some t"
  shows "en_have_dt en \<and> t_name t = cut name \<and> t_shard t = shard \<and> t_dtype t = en_dtype en \<and>
    t_shape t = en_shape en \<and> t_nbytes t = int64 (k3_st_numel t * k3_st_elemsize (t_dtype t)) \<and>
    int64 (t_off t + t_nbytes t) \<le> fsize \<and> - (2 ^ 63) \<le> t_off t \<and> t_off t < 2 ^ 63"
proof -
  define t' where "t' = \<lparr>t_name = cut name, t_shard = shard, t_dtype = en_dtype en,
    t_shape = en_shape en, t_off = int64 (base + en_o0 en), t_nbytes = int64 (en_o1 en - en_o0 en)\<rparr>"
  have "en_have_dt en" "t = t'" "t_nbytes t' = int64 (k3_st_numel t' * k3_st_elemsize (t_dtype t'))"
    "int64 (base + en_o1 en) \<le> fsize"
    using assms unfolding finish_entry_def Let_def t'_def [symmetric]
    by (simp_all del: k3_st_elemsize.simps split: if_splits)
  then show ?thesis using int64_range [of "base + en_o0 en"] by (simp add: t'_def)
qed

text \<open>
  Without a wrap-around the checks are exact: if the number of bytes the shape implies is below \<open>2 ^ 63\<close>, the span is
  that number, and if the end is a 64-bit value, it lies inside the file.
\<close>

definition no_wrap :: "K3Tensor \<Rightarrow> bool" where
  "no_wrap t \<longleftrightarrow> \<bar>prod_list (t_shape t) * k3_st_elemsize (t_dtype t)\<bar> < 2 ^ 63 \<and> t_off t + t_nbytes t < 2 ^ 63"

lemma tensor_exact:
  assumes "tensor_wf fsize t" "no_wrap t" "0 \<le> fsize"
  shows "t_nbytes t = prod_list (t_shape t) * k3_st_elemsize (t_dtype t) \<and> t_off t + t_nbytes t \<le> fsize"
proof
  have "t_nbytes t = int64 (k3_st_numel t * k3_st_elemsize (t_dtype t))"
    using assms(1) by (simp only: tensor_wf_def)
  also have "\<dots> = int64 (prod_list (t_shape t) * k3_st_elemsize (t_dtype t))" by (rule numel_times)
  also have "\<dots> = prod_list (t_shape t) * k3_st_elemsize (t_dtype t)"
    by (rule int64_fits) (use assms(2) in \<open>simp_all only: no_wrap_def abs_less_iff, auto\<close>)
  finally show "t_nbytes t = prod_list (t_shape t) * k3_st_elemsize (t_dtype t)" .
next
  show "t_off t + t_nbytes t \<le> fsize"
  proof (cases "- (2 ^ 63) \<le> t_off t + t_nbytes t")
    case True
    then have "int64 (t_off t + t_nbytes t) = t_off t + t_nbytes t"
      using assms(2) by (intro int64_fits) (simp_all only: no_wrap_def)
    moreover have "int64 (t_off t + t_nbytes t) \<le> fsize"
      using assms(1) unfolding tensor_wf_def by blast
    ultimately show ?thesis by linarith
  qed (use assms(3) in simp)
qed

lemma one_entry_wf:
  assumes "one_entry room shard base fsize p b = Some (b', q)"
  shows "b' = b \<or> (\<exists>t. b' = b @ [t] \<and> length b < room \<and> tensor_wf fsize t \<and> t_shard t = shard)"
proof -
  obtain name r1 r2 where n: "str_tok p 512 = Some (name, r1)" "lit r1 (CHR '':'') = Some r2"
    using assms by (auto simp: one_entry_def split: option.splits)
  show ?thesis
  proof (cases "cut name = ''__metadata__''")
    case True
    then show ?thesis using assms n by (auto simp: one_entry_def)
  next
    case False
    then obtain r3 en t where f: "entry_fields r3 True entry_init = Some (en, q)"
      "finish_entry shard base fsize name en = Some t" "push room b t = Some b'"
      using assms n by (auto simp: one_entry_def split: option.splits)
    have en: "entry_ok en" "en_dtype en \<noteq> K3_DT_I8R"
      using entry_fields_ok [OF f(1) entry_init_ok] entry_fields_dtype [OF f(1)] by (simp_all add: entry_init_def)
    have name: "length (cut name) < 512" using cut_clean(2) [of name] str_tok_fits [OF n(1)] by simp
    have "en_dtype en \<in> {K3_DT_U8, K3_DT_BF16, K3_DT_F16, K3_DT_F32}" if "en_have_dt en"
      using en that by (cases "en_dtype en") auto
    then have "tensor_wf fsize t \<and> t_shard t = shard"
      using finish_entryD [OF f(2)] en(1) name cut_clean(1) unfolding tensor_wf_def by metis
    then show ?thesis using f(3) by (auto simp: push_def split: if_splits)
  qed
qed

lemma entries_wf:
  "entries room shard base fsize p first b = Some b' \<Longrightarrow> length b \<le> room \<Longrightarrow>
   \<exists>new. b' = b @ new \<and> length b' \<le> room \<and> (\<forall>t\<in>set new. tensor_wf fsize t \<and> t_shard t = shard)"
proof (induction room shard base fsize p first b rule: entries.induct)
  case (1 room shard base fsize p first b)
  show ?case
  proof (cases "at_brace p")
    case (Some r)
    then show ?thesis using "1.prems" by (simp add: entries.simps [of room shard base fsize p])
  next
    case None
    then obtain q where q: "(if first then Some p else lit p (CHR '','')) = Some q"
      using "1.prems"(1) by (auto simp: entries.simps [of room shard base fsize p] split: option.splits)
    show ?thesis
    proof (cases "at_brace q")
      case (Some r)
      then show ?thesis using "1.prems" None q by (simp add: entries.simps [of room shard base fsize p])
    next
      case none2: None
      then obtain b1 r where e: "one_entry room shard base fsize q b = Some (b1, r)"
        and rest: "entries room shard base fsize r False b1 = Some b'"
        using "1.prems"(1) None q
        by (auto simp: entries.simps [of room shard base fsize p] split: option.splits)
      from one_entry_wf [OF e] obtain new1 where new1: "b1 = b @ new1" "length b1 \<le> room"
        "\<forall>t\<in>set new1. tensor_wf fsize t \<and> t_shard t = shard"
        using "1.prems"(2) by fastforce
      from "1.IH" [OF None q none2 e refl rest new1(2)] new1 show ?thesis by force
    qed
  qed
qed

lemma scan_shard_wf:
  assumes "scan_shard alloc room shard sf b = Scan_Ok b'" "length b \<le> room"
  shows "\<exists>new. b' = b @ new \<and> length b' \<le> room \<and>
    (\<forall>t\<in>set new. tensor_wf (int (length (sf_bytes sf))) t \<and> t_shard t = shard)"
  using assms
  by (auto simp: scan_shard_def Let_def split: if_splits option.splits dest!: entries_wf)

text \<open>
  The length check itself: in \<open>uint64_t\<close> arithmetic \<open>8 + hlen\<close> wraps for the eight largest lengths. For
  every other length a header that passes fits the file, and the buffer holds it.
\<close>

lemma length_check:
  assumes "\<not> of_nat fsize < 8 + (hlen :: 64 word)" "unat hlen < 2 ^ 64 - 8" "fsize < 2 ^ 63"
  shows "8 + unat hlen \<le> fsize \<and> unat (hlen + 1) = unat hlen + 1"
proof -
  have "unat (8 + hlen) = 8 + unat hlen"
    using assms(2) by (subst unat_add_lem [THEN iffD1]) auto
  moreover have "unat (of_nat fsize :: 64 word) = fsize"
    using assms(3) by (simp add: unat_of_nat)
  moreover have "unat (hlen + 1) = unat hlen + 1"
    using assms(2) by (subst unat_add_lem [THEN iffD1]) auto
  ultimately show ?thesis using assms(1) by (simp add: word_less_nat_alt)
qed

lemma scan_shard_no_overrun:
  assumes "length (sf_bytes sf) < 2 ^ 63"
    and "unat (le_u64 (pread (sf_bytes sf) 8 0 (sf_first sf))) < 2 ^ 64 - 8"
  shows "scan_shard alloc room shard sf b \<noteq> Scan_Overrun"
proof -
  let ?h = "le_u64 (pread (sf_bytes sf) 8 0 (sf_first sf))"
  let ?json = "read_loop (sf_bytes sf) 8 (unat ?h) (sf_chunks sf) []"
  have "length ?json \<le> unat ?h"
    using read_loop_prefix [of "[]" 8 "sf_bytes sf" "unat ?h" "sf_chunks sf"] by (simp add: exI [of _ 0])
  then have "\<not> length ?json > unat (?h + 1)" if "\<not> of_nat (length (sf_bytes sf)) < 8 + ?h"
    using length_check [OF that assms(2,1)] by simp
  then show ?thesis by (auto simp: scan_shard_def Let_def split: option.splits)
qed

text \<open>The check refuses exactly the lengths that are zero or do not fit the file, before memory is asked for.\<close>

lemma length_check_iff:
  assumes "unat (hlen :: 64 word) < 2 ^ 64 - 8" "fsize < 2 ^ 63"
  shows "of_nat fsize < 8 + hlen \<longleftrightarrow> fsize < 8 + unat hlen"
proof -
  have "unat (8 + hlen) = 8 + unat hlen"
    using assms(1) by (subst unat_add_lem [THEN iffD1]) auto
  moreover have "unat (of_nat fsize :: 64 word) = fsize"
    using assms(2) by (simp add: unat_of_nat)
  ultimately show ?thesis by (simp add: word_less_nat_alt)
qed

lemma impossible_length_iff:
  assumes "length (sf_bytes sf) < 2 ^ 63" "length (pread (sf_bytes sf) 8 0 (sf_first sf)) = 8"
    and "hlen = le_u64 (pread (sf_bytes sf) 8 0 (sf_first sf))" "unat hlen < 2 ^ 64 - 8"
  shows "scan_shard alloc room shard sf b = Scan_Fail (Impossible_Length hlen) \<longleftrightarrow>
    hlen = 0 \<or> length (sf_bytes sf) < 8 + unat hlen"
  using assms length_check_iff [OF assms(4,1)]
  by (auto simp: scan_shard_def Let_def split: option.splits)

text \<open>
  What the checks leave open: a negative start or a negative dimension. The entry below places its one byte
  four bytes before the data region, that is inside the header.
\<close>

lemma negative_start_accepted:
  "map_option (map (\<lambda>t. (t_off t, t_nbytes t)))
     (entries 10 0 100 200 (''\"a\":{\"dtype\":\"U8\",\"shape\":[1],\"data_offsets\":[-4,-3]}}'') True [])
   = Some [(96, 1)]"
  by code_simp

lemma wrapped_length_passes: "\<not> (of_nat 100 < 8 + (- 1 :: 64 word)) \<and> - 1 + 1 = (0 :: 64 word)"
  by simp

text \<open>
  Neither is overflow checked. The product of the shape of the first entry is \<open>2 ^ 64\<close> and wraps to 0, so an empty
  span passes for a tensor of 16 exabytes; the second entry spans \<open>2 ^ 63 - 1\<close> bytes of a file of 200, because the sum
  in the check of its end wraps around.
\<close>

lemma wrapped_shape_accepted:
  "map_option (map (\<lambda>t. (t_shape t, t_nbytes t)))
     (entries 10 0 100 200 (''\"a\":{\"dtype\":\"U8\",\"shape\":[4294967296,4294967296],\"data_offsets\":[0,0]}}'') True [])
   = Some [([2 ^ 32, 2 ^ 32], 0)]"
  by code_simp

lemma wrapped_end_accepted:
  "map_option (map (\<lambda>t. (t_off t, t_nbytes t)))
     (entries 10 0 100 200
        (''\"a\":{\"dtype\":\"U8\",\"shape\":[9223372036854775807],\"data_offsets\":[0,9223372036854775807]}}'') True [])
   = Some [(100, 2 ^ 63 - 1)]"
  by code_simp

section \<open>Opening a checkpoint\<close>

text \<open>
  \<open>k3_st_open\<close>: the directory's files whose names end in \<open>.safetensors\<close>, in \<open>strcmp\<close> order so that shard
  numbers are stable, are scanned one after the other and the names indexed. (\<open>qsort\<close> orders full paths,
  which share the prefix of the directory.)
\<close>

definition is_shard_name :: "cstr \<Rightarrow> bool" where
  "is_shard_name n \<longleftrightarrow> 12 \<le> length n \<and> drop (length n - 12) n = ''.safetensors''"

definition shard_order :: "Shard_File list \<Rightarrow> Shard_File list" where
  "shard_order fs = sort_key (\<lambda>f. map chr_code (sf_name f)) (filter (\<lambda>f. is_shard_name (sf_name f)) fs)"

fun scan_all ::
  "(64 word \<Rightarrow> bool) \<Rightarrow> nat \<Rightarrow> int \<Rightarrow> Shard_File list \<Rightarrow> K3Tensor list \<Rightarrow> scan_result" where
  "scan_all alloc room i [] b = Scan_Ok b"
| "scan_all alloc room i (f # fs) b =
     (case scan_shard alloc room i f b of
        Scan_Ok b' \<Rightarrow> scan_all alloc room (i + 1) fs b'
      | r \<Rightarrow> r)"

datatype open_result = Open_Ok K3St | Open_Fail | Open_Overrun

definition k3_st_open :: "(64 word \<Rightarrow> bool) \<Rightarrow> nat \<Rightarrow> Shard_File list option \<Rightarrow> open_result" where
  "k3_st_open alloc room dir =
     (case dir of
        None \<Rightarrow> Open_Fail
      | Some listing \<Rightarrow>
          (let files = shard_order listing in
           if files = [] then Open_Fail
           else case scan_all alloc room 0 files [] of
                  Scan_Fail _ \<Rightarrow> Open_Fail
                | Scan_Overrun \<Rightarrow> Open_Overrun
                | Scan_Ok ts \<Rightarrow>
                    (case index_tensors ts of
                       Index_Ok b \<Rightarrow> Open_Ok \<lparr>st_nshard = int (length files), st_t = ts, st_bucket = b\<rparr>
                     | _ \<Rightarrow> Open_Fail)))"

lemma scan_all_wf:
  "scan_all alloc room i fs b = Scan_Ok b' \<Longrightarrow> length b \<le> room \<Longrightarrow> 
   \<exists>new. b' = b @ new \<and> length b' \<le> room \<and>
     (\<forall>t\<in>set new. \<exists>k < length fs. t_shard t = i + int k \<and> tensor_wf (int (length (sf_bytes (fs ! k)))) t)"
proof (induction fs arbitrary: i b)
  case (Cons f fs)
  from Cons.prems(1) obtain b1 where b1: "scan_shard alloc room i f b = Scan_Ok b1"
    "scan_all alloc room (i + 1) fs b1 = Scan_Ok b'"
    by (auto split: scan_result.splits)
  from scan_shard_wf [OF b1(1) Cons.prems(2)] obtain n1 where n1: "b1 = b @ n1" "length b1 \<le> room"
    "\<forall>t\<in>set n1. tensor_wf (int (length (sf_bytes f))) t \<and> t_shard t = i" by blast
  from Cons.IH [OF b1(2) n1(2)] obtain n2 where n2: "b' = b1 @ n2" "length b' \<le> room"
    "\<forall>t\<in>set n2. \<exists>k < length fs. t_shard t = i + 1 + int k \<and> tensor_wf (int (length (sf_bytes (fs ! k)))) t"
    by blast
  have "\<exists>k < length (f # fs). t_shard t = i + int k \<and> tensor_wf (int (length (sf_bytes ((f # fs) ! k)))) t"
    if mem: "t \<in> set (n1 @ n2)" for t
  proof (cases "t \<in> set n1")
    case True
    then show ?thesis using n1(3) by (intro exI [of _ 0]) simp
  next
    case False
    then obtain k where "k < length fs" "t_shard t = i + 1 + int k" "tensor_wf (int (length (sf_bytes (fs ! k)))) t"
      using n2(3) mem by auto
    then show ?thesis by (intro exI [of _ "Suc k"]) simp
  qed
  then show ?case using n1(1) n2(1,2) by simp
qed simp

text \<open>
  An opened checkpoint has distinct names, lookup by name is the search of its table, and every tensor of
  the table is well formed in the file of its shard.
\<close>

lemma open_table:
  assumes run: "k3_st_open alloc room (Some listing) = Open_Ok s" and "room \<le> 2 ^ 29"
  shows "distinct (map t_name (st_t s)) \<and> length (st_t s) \<le> room \<and>
    (\<forall>name. k3_st_find s name = find (\<lambda>t. t_name t = name) (st_t s)) \<and>
    (\<forall>t\<in>set (st_t s). \<exists>k < length (shard_order listing). t_shard t = int k \<and>
       tensor_wf (int (length (sf_bytes (shard_order listing ! k)))) t)"
proof -
  from run obtain ts b where ts: "scan_all alloc room 0 (shard_order listing) [] = Scan_Ok ts"
    and b: "index_tensors ts = Index_Ok b"
    and s: "s = \<lparr>st_nshard = int (length (shard_order listing)), st_t = ts, st_bucket = b\<rparr>"
    by (auto simp: k3_st_open_def Let_def split: if_splits scan_result.splits index_result.splits)
  from scan_all_wf [OF ts] have wf: "length ts \<le> room"
    "\<forall>t\<in>set ts. \<exists>k < length (shard_order listing). t_shard t = int k \<and>
       tensor_wf (int (length (sf_bytes (shard_order listing ! k)))) t" by auto
  have "length ts \<le> 2 ^ 29" using wf(1) assms(2) by simp
  from index_tensors_spec [OF this] b
  have "distinct (map t_name ts)" "\<And>name. k3_st_find s name = find (\<lambda>t. t_name t = name) ts"
    by (auto simp: s split: if_splits)
  then show ?thesis using wf s by simp
qed

end
