(* ===== verification/K3_Examples.thy ===== *)
theory K3_Examples
  imports K3_Live K3_Header
begin

text \<open>
  A small checkpoint, disk and cache on which the properties of the engine are instantiated: one shard, two
  layers, one expert of 102 bytes.
\<close>

section \<open>A table of six tensors\<close>

definition demo_part :: "cstr \<Rightarrow> cstr \<Rightarrow> int \<Rightarrow> int \<Rightarrow> K3Tensor" where
  "demo_part w part n o' = \<lparr>t_name = expert_name 0 0 w part, t_shard = 0, t_dtype = K3_DT_U8,
     t_shape = [2, n], t_off = o', t_nbytes = 2 * n\<rparr>"

definition demo_pairs :: "qpair list" where
  "demo_pairs =
     [(demo_part ''w1'' ''weight_packed'' 16 0, demo_part ''w1'' ''weight_scale'' 1 32),
      (demo_part ''w2'' ''weight_packed'' 16 34, demo_part ''w2'' ''weight_scale'' 1 66),
      (demo_part ''w3'' ''weight_packed'' 16 68, demo_part ''w3'' ''weight_scale'' 1 100)]"

definition demo_ts :: "K3Tensor list" where
  "demo_ts = all_six demo_pairs"

definition demo_st :: K3St where
  "demo_st = (case index_tensors demo_ts of
      Index_Ok b \<Rightarrow> \<lparr>st_nshard = 1, st_t = demo_ts, st_bucket = b\<rparr>
    | _ \<Rightarrow> \<lparr>st_nshard = 1, st_t = [], st_bucket = []\<rparr>)"

lemma demo_distinct: "distinct (map t_name demo_ts)"
  by code_simp

lemma demo_index: "\<exists>b. index_tensors demo_ts = Index_Ok b \<and>
  (\<forall>ns name. k3_st_find \<lparr>st_nshard = ns, st_t = demo_ts, st_bucket = b\<rparr> name = find (\<lambda>t. t_name t = name) demo_ts)"
proof -
  have "length demo_ts \<le> 2 ^ 29" by (simp add: demo_ts_def demo_pairs_def all_six_def)
  from index_tensors_spec [OF this] show ?thesis by (simp add: demo_distinct)
qed

lemma demo_find: "k3_st_find demo_st name = find (\<lambda>t. t_name t = name) demo_ts"
  using demo_index by (auto simp: demo_st_def)

lemma demo_sane: "st_sane demo_st"
proof -
  obtain b where b: "index_tensors demo_ts = Index_Ok b" using demo_index by blast
  have "list_all sane demo_ts" by code_simp
  then show ?thesis
    using index_tensors_range [OF b] b by (auto simp: demo_st_def st_sane_def list_all_iff split: option.splits)
qed

definition demo_ref :: K3ExpertRef where
  "demo_ref = layout 0 0 demo_pairs"

lemma demo_find_pairs:
  "find_pair demo_st 0 0 ''w1'' = Some (demo_pairs ! 0)"
  "find_pair demo_st 0 0 ''w2'' = Some (demo_pairs ! 1)"
  "find_pair demo_st 0 0 ''w3'' = Some (demo_pairs ! 2)"
  unfolding find_pair_def demo_find by code_simp+

lemma demo_pairs_ok: "list_all pair_ok demo_pairs \<and> list_all (\<lambda>pc. t_shard (fst pc) = 0) demo_pairs \<and> length demo_pairs = 3"
  by code_simp

lemma demo_expert: "k3_expert_ref demo_st 0 0 = Some demo_ref"
  using demo_pairs_ok
  by (auto simp: k3_expert_ref_def W_def demo_find_pairs demo_ref_def demo_pairs_def)

lemma demo_ref_bytes: "er_nbytes demo_ref = 102"
  by code_simp

section \<open>A disk and a cache\<close>

definition demo_file :: "int \<Rightarrow> bytes" where
  "demo_file sh = map of_nat [0..<120]"

definition demo_disk :: Disk where
  "demo_disk = \<lparr>dk_file = demo_file, dk_direct = (\<lambda>sh. False), dk_chunks = (\<lambda>sh o'. [120])\<rparr>"

definition demo_cfg :: K3Cfg where
  "demo_cfg = \<lparr>cf_hidden = 2, cf_n_layers = 2, cf_vocab = 4, cf_rms_eps = 0, cf_kda_heads = 1, cf_kda_head_dim = 2,
     cf_conv_k = 2, cf_gate_lb = 0xC0A00000, cf_n_heads = 1, cf_q_lora = 2, cf_kv_lora = 2, cf_qk_nope = 2,
     cf_qk_rope = 1, cf_v_head = 2, cf_mla_out_gate = True, cf_n_experts = 2, cf_topk = 1, cf_n_shared = 1,
     cf_latent = 2, cf_moe_inter = 2, cf_routed_scale = f_one, cf_moe_renorm = True, cf_latent_norm = True,
     cf_first_dense = 0, cf_dense_inter = 2, cf_attn_res_block = 12, cf_situ_b1 = 0x40800000,
     cf_situ_b2 = 0x41C80000, cf_full_attn = [2]\<rparr>"

definition demo_cache :: K3Cache where
  "demo_cache = the (k3_cache_init demo_st demo_cfg 100000 True (\<lambda>i. 0))"

lemma demo_probe: "find_probe demo_st demo_cfg = Some demo_ref"
  by (simp add: find_probe_def demo_cfg_def k3_is_dense_def demo_expert upto_rec1)

lemma demo_stride: "slot_stride 102 = 12288 \<and> to_int (100000 sdiv 12288) = 8"
  by code_simp

lemma demo_init: "k3_cache_init demo_st demo_cfg 100000 True (\<lambda>i. 0) = Some demo_cache"
proof -
  have "cf_topk demo_cfg = 1" by (simp add: demo_cfg_def)
  then show ?thesis
    using demo_stride by (simp add: demo_cache_def k3_cache_init_def demo_probe demo_ref_bytes Let_def)
qed

lemma demo_inv: "cache_inv demo_st demo_file demo_cache"
  using cache_init_ok [OF demo_init demo_sane, of demo_file] by (simp add: demo_cfg_def)

lemma demo_disk_file: "dk_file demo_disk = demo_file"
  by (simp add: demo_disk_def)

lemma demo_delivers: "delivers demo_disk"
  by (simp add: delivers_def demo_disk_def demo_file_def)

lemma demo_inside: "st_inside demo_st demo_file"
proof -
  have "list_all (\<lambda>t. t_shard t = 0 \<and> t_off t + t_nbytes t \<le> 120) demo_ts" by code_simp
  then show ?thesis
    using demo_index by (auto simp: st_inside_def inside_def demo_st_def demo_file_def list_all_iff)
qed

lemma demo_cache_sel:
  "n_layers demo_cache = 2" "n_experts demo_cache = 2" "slot_bytes demo_cache = 12288" "key_of demo_cache = replicate 8 K3_SLOT_EMPTY"
proof -
  have "cf_topk demo_cfg = 1" "cf_n_layers demo_cfg = 2" "cf_n_experts demo_cfg = 2" by (simp_all add: demo_cfg_def)
  then show "n_layers demo_cache = 2" "n_experts demo_cache = 2" "slot_bytes demo_cache = 12288"
    "key_of demo_cache = replicate 8 K3_SLOT_EMPTY"
    using demo_stride by (simp_all add: demo_cache_def k3_cache_init_def demo_probe demo_ref_bytes Let_def)
qed

lemma demo_victim: "pick_victim demo_cache = Some 0"
  by (simp add: pick_victim_def nslot_def demo_cache_sel upt_rec)

text \<open>One request, then the expert pinned.\<close>

lemma demo_get: "\<exists>q c. cache_get demo_st demo_disk True 0 0 demo_cache = Some (Some q, c) \<and>
  cache_inv demo_st demo_file c \<and> cache_resident 0 0 c = Some q \<and> evolves demo_cache c"
  using get_succeeds [OF demo_inv demo_sane demo_inside demo_delivers demo_disk_file _ demo_expert, of True]
  by (simp add: in_range_def demo_cache_sel demo_ref_bytes demo_victim) blast

lemma demo_pinned: "\<exists>c s x. cache_inv demo_st demo_file c \<and> pinned_at c 0 s = Some x \<and> n_layers c = 2"
proof -
  obtain q c where c: "cache_inv demo_st demo_file c" "cache_resident 0 0 c = Some q" "evolves demo_cache c"
    using demo_get by blast
  then obtain s where s: "slot_of c ! 0 = Some s" "n_layers c = 2" "n_experts c = 2"
    by (auto simp: cache_resident_def key_ix_def evolves_def demo_cache_sel split: if_splits)
  have wf: "cache_wf demo_st demo_file c" using c(1) by (simp add: cache_inv_def)
  then have k: "0 < length (slot_of c)" using s by (simp add: cache_wf_def tables_ok_def)
  have sl: "s < length (pinned c)" using wf_slotD [OF wf k s(1)] wf by (simp add: cache_wf_def tables_ok_def)
  have pin: "k3_cache_pin 0 0 True c = (True, c\<lparr>pinned := (pinned c)[s := True]\<rparr>)"
    using s by (simp add: k3_cache_pin_def key_ix_def Let_def)
  have "cache_inv demo_st demo_file (c\<lparr>pinned := (pinned c)[s := True]\<rparr>)" by (rule pin_ok [OF c(1) pin])
  moreover have "pinned_at (c\<lparr>pinned := (pinned c)[s := True]\<rparr>) 0 s \<noteq> None" using k s(1) sl by (simp add: pinned_at_def)
  ultimately show ?thesis using s(2) by fastforce
qed

section \<open>A shard file\<close>

definition demo_json :: cstr where
  "demo_json = ''{\"a\":{\"dtype\":\"U8\",\"shape\":[2],\"data_offsets\":[0,2]}}''"

definition demo_shard :: Shard_File where
  "demo_shard = \<lparr>sf_name = ''m.safetensors'',
     sf_bytes = [53, 0, 0, 0, 0, 0, 0, 0] @ map (\<lambda>x. of_nat (chr_code x)) demo_json @ [1, 2],
     sf_first = 8, sf_chunks = [30, 30]\<rparr>"

definition demo_a :: K3Tensor where
  "demo_a = \<lparr>t_name = ''a'', t_shard = 0, t_dtype = K3_DT_U8, t_shape = [2], t_off = 61, t_nbytes = 2\<rparr>"

lemma demo_order: "shard_order [demo_shard] = [demo_shard]"
  by (simp add: shard_order_def is_shard_name_def demo_shard_def)

lemma demo_scan: "scan_shard (\<lambda>n. True) 10 0 demo_shard [] = Scan_Ok [demo_a]"
  by code_simp

text \<open>The same file with a header length of 200 where it has 63 bytes.\<close>

definition short_shard :: Shard_File where
  "short_shard = demo_shard\<lparr>sf_bytes := [200, 0, 0, 0, 0, 0, 0, 0] @ drop 8 (sf_bytes demo_shard)\<rparr>"

lemma demo_open: "\<exists>s. k3_st_open (\<lambda>n. True) 10 (Some [demo_shard]) = Open_Ok s \<and> st_t s = [demo_a]"
proof -
  have "length [demo_a] \<le> 2 ^ 29" by simp
  from index_tensors_spec [OF this] obtain b where "index_tensors [demo_a] = Index_Ok b" by auto
  then show ?thesis by (simp add: k3_st_open_def demo_order Let_def demo_scan)
qed

end
