(* ===== verification/K3_Config_Demo.thy ===== *)
theory K3_Config_Demo
  imports K3_Config
begin

text \<open>A configuration document the reader accepts: the concrete input of the property of the configuration reader.\<close>

text \<open>A configuration document: every number is two, but for one expert per token.\<close>

definition demo_doc :: jval where
  "demo_doc = J_OBJ (map (\<lambda>k. (k, J_NUM 0x4000000000000000))
     [''hidden_size'', ''num_hidden_layers'', ''vocab_size'', ''rms_norm_eps'', ''num_heads'', ''head_dim'', ''short_conv_kernel_size'',
      ''gate_lower_bound'', ''num_attention_heads'', ''q_lora_rank'', ''kv_lora_rank'', ''qk_nope_head_dim'', ''qk_rope_head_dim'',
      ''v_head_dim'', ''num_experts'', ''num_shared_experts'', ''routed_expert_hidden_size'', ''moe_intermediate_size'',
      ''routed_scaling_factor'', ''first_k_dense_replace'', ''intermediate_size'', ''attn_res_block_size'', ''activation_situ_beta'',
      ''activation_situ_linear_beta''] @
     [(''num_experts_per_token'', J_NUM 0x3FF0000000000000), (''full_attn_layers'', J_ARR [J_NUM 0x4000000000000000])])"

lemma demo_numbers: "int_of_d 0x4000000000000000 = 2" "int_of_d 0x3FF0000000000000 = 1"
  by code_simp+

lemma run_fields:
  "k3cfg_find s p a = Some (J_NUM x) \<Longrightarrow> run_state (State_Monad.bind (k3cfg_i p a) f) s = run_state (f (int_of_d x)) s"
  "k3cfg_find s p a = Some (J_NUM x) \<Longrightarrow> run_state (State_Monad.bind (k3cfg_f F p a) g) s = run_state (g (f_of_d F x)) s"
  "k3cfg_find s p a = None \<Longrightarrow> run_state (State_Monad.bind (k3cfg_b p a d) h) s = run_state (h d) s"
  by (simp_all add: k3cfg_i_def k3cfg_f_def k3cfg_b_def State_Monad.bind_def)

lemma demo_lookup: "k3cfg_find (cfg_src demo_doc) k a = (case json_get demo_doc k of Some v \<Rightarrow> Some v | None \<Rightarrow> (case a of None \<Rightarrow> None | Some k' \<Rightarrow> json_get demo_doc k'))"
proof -
  have "json_get demo_doc ''text_config'' = None" "json_get demo_doc ''linear_attn_config'' = None" by (simp_all add: demo_doc_def)
  moreover have "first_some [v] = v" for v :: "jval option" by (cases v) simp_all
  ultimately show ?thesis by (simp add: cfg_src_def Let_def k3cfg_find_def some_list_def List.map_filter_simps split: option.split)
qed

lemma demo_load: "\<exists>c. k3_cfg_load F 128 demo_doc = Inr c"
proof -
  have keys: "json_get demo_doc k = Some (J_NUM 0x4000000000000000)" if "k \<in> set [''hidden_size'', ''num_hidden_layers'', ''vocab_size'', ''rms_norm_eps'', ''num_heads'', ''head_dim'', ''short_conv_kernel_size'',
      ''gate_lower_bound'', ''num_attention_heads'', ''q_lora_rank'', ''kv_lora_rank'', ''qk_nope_head_dim'', ''qk_rope_head_dim'',
      ''v_head_dim'', ''num_experts'', ''num_shared_experts'', ''routed_expert_hidden_size'', ''moe_intermediate_size'',
      ''routed_scaling_factor'', ''first_k_dense_replace'', ''intermediate_size'', ''attn_res_block_size'', ''activation_situ_beta'',
      ''activation_situ_linear_beta'']" for k using that by (auto simp: demo_doc_def)
  have other: "json_get demo_doc ''num_experts_per_token'' = Some (J_NUM 0x3FF0000000000000)"
    "json_get demo_doc ''full_attn_layers'' = Some (J_ARR [J_NUM 0x4000000000000000])" "json_get demo_doc ''mla_use_output_gate'' = None"
    "json_get demo_doc ''moe_renormalize'' = None" "json_get demo_doc ''latent_moe_use_norm'' = None" by (simp_all add: demo_doc_def)
  have miss: "cs_nmissing (cfg_src demo_doc) = 0" by (simp add: cfg_src_def Let_def)
  show ?thesis unfolding k3_cfg_load_def cfg_fields_def
    by (simp add: run_fields demo_lookup keys other demo_numbers cfg_missing_def miss cfg_structure_def
        first_outside_def K3_MAX_TOPK_def del: run_state_bind)
qed

end
