(* ===== verification/K3_Kernels.thy ===== *)
theory K3_Kernels
  imports K3_Float K3_Store
begin

text \<open>
  The element kernels of \<open>src/src/core/k3_ops.c\<close> and the inline helpers of \<open>k3.h\<close>: norms, activation,
  convolution, the delta-rule step, the matrix products in their scalar and AVX2 forms, MXFP4.

  An array of floats is the list of its elements, a segment of one the list of the segment; a \<open>const void *\<close> weight is
  the list of its bytes, read little-endian through the cast its tag selects. Every loop is a fold over its
  index in the order of the source, so the order of the roundings is the order of the code. OpenMP splits only
  loops whose iterations write disjoint outputs, which a \<open>map\<close> over the rows states.
\<close>

unbundle bit_operations_syntax

section \<open>Loops and views\<close>

definition loop :: "nat \<Rightarrow> (nat \<Rightarrow> 's \<Rightarrow> 's) \<Rightarrow> 's \<Rightarrow> 's" where
  "loop n body s = fold body [0..<n] s"

definition seg :: "'a list \<Rightarrow> nat \<Rightarrow> nat \<Rightarrow> 'a list" where
  "seg xs off n = take n (drop off xs)"

definition mat :: "nat \<Rightarrow> nat \<Rightarrow> (nat \<Rightarrow> nat \<Rightarrow> 'a) \<Rightarrow> 'a list" where
  "mat rows cols f = concat (map (\<lambda>i. map (f i) [0..<cols]) [0..<rows])"

definition u16_at :: "bytes \<Rightarrow> nat \<Rightarrow> 16 word" where
  "u16_at b i = ucast (b ! (2 * i)) OR push_bit 8 (ucast (b ! (2 * i + 1)))"

definition u32_at :: "bytes \<Rightarrow> nat \<Rightarrow> 32 word" where
  "u32_at b o' = ucast (b ! o') OR push_bit 8 (ucast (b ! (o' + 1))) OR push_bit 16 (ucast (b ! (o' + 2)))
     OR push_bit 24 (ucast (b ! (o' + 3)))"

definition as_u16 :: "bytes \<Rightarrow> 16 word list" where
  "as_u16 b = map (u16_at b) [0..<length b div 2]"

definition as_f32 :: "bytes \<Rightarrow> f32 list" where
  "as_f32 b = map (\<lambda>i. u32_at b (4 * i)) [0..<length b div 4]"

text \<open>The bytes of an array of words.\<close>

definition put32 :: "32 word \<Rightarrow> bytes" where
  "put32 x = [ucast x, ucast (drop_bit 8 x), ucast (drop_bit 16 x), ucast (drop_bit 24 x)]"

definition put_words :: "32 word list \<Rightarrow> bytes" where
  "put_words xs = concat (map put32 xs)"

section \<open>Norms and activations\<close>

definition sum_squares :: "fpu \<Rightarrow> f32 list \<Rightarrow> nat \<Rightarrow> f64" where
  "sum_squares F v n = loop n (\<lambda>i ss. dadd F ss (dmul F (d_of_f F (v ! i)) (d_of_f F (v ! i)))) 0"

definition rms_inv :: "fpu \<Rightarrow> f32 list \<Rightarrow> nat \<Rightarrow> f32 \<Rightarrow> f32" where
  "rms_inv F v n eps =
     f_of_d F (ddiv F d_one (dsqrt F (dadd F (ddiv F (sum_squares F v n) (d_of_int (int n))) (d_of_f F eps))))"

definition k3_rmsnorm :: "fpu \<Rightarrow> f32 list \<Rightarrow> f32 list \<Rightarrow> nat \<Rightarrow> f32 \<Rightarrow> f32 list" where
  "k3_rmsnorm F x w n eps =
     (let inv = rms_inv F x n eps in map (\<lambda>i. fmul F (fmul F (w ! i) (x ! i)) inv) [0..<n])"

definition l2norm :: "fpu \<Rightarrow> f32 list \<Rightarrow> nat \<Rightarrow> f32 \<Rightarrow> f32 list" where
  "l2norm F v n eps =
     (let inv = f_of_d F (ddiv F d_one (dsqrt F (dadd F (sum_squares F v n) (d_of_f F eps))))
      in map (\<lambda>i. fmul F (v ! i) inv) [0..<n])"

definition sigmoidf :: "fpu \<Rightarrow> f32 \<Rightarrow> f32" where
  "sigmoidf F x = fdiv F f_one (fadd F f_one (fp_expf F (fneg x)))"

text \<open>The input is \<open>[gate | up]\<close>, each \<open>n\<close> wide; the sigmoid takes the uncapped gate.\<close>

definition k3_situ_glu :: "fpu \<Rightarrow> f32 list \<Rightarrow> nat \<Rightarrow> f32 \<Rightarrow> f32 \<Rightarrow> f32 list" where
  "k3_situ_glu F x n b1 b2 =
     map (\<lambda>i. let g = x ! i;
                  a = fmul F (fmul F b1 (fp_tanhf F (fdiv F g b1))) (sigmoidf F g);
                  u = fmul F b2 (fp_tanhf F (fdiv F (x ! (n + i)) b2))
              in fmul F a u) [0..<n]"

section \<open>ShortConv\<close>

text \<open>One output of a channel and its history after it: the taps run oldest to newest, \<open>w[k-1]\<close> takes the current input.\<close>

definition conv_step :: "fpu \<Rightarrow> f32 list \<Rightarrow> nat \<Rightarrow> f32 \<Rightarrow> f32 list \<Rightarrow> f32 \<times> f32 list" where
  "conv_step F wc hist cur buf =
     (let acc = loop hist (\<lambda>j acc. fadd F acc (fmul F (wc ! j) (buf ! j))) (fmul F (wc ! hist) cur);
          buf' = map (\<lambda>j. if j + 1 < hist then buf ! (j + 1) else cur) [0..<hist]
      in (fmul F acc (sigmoidf F acc), buf'))"

fun conv_run :: "fpu \<Rightarrow> f32 list \<Rightarrow> nat \<Rightarrow> f32 list \<Rightarrow> f32 list \<Rightarrow> f32 list \<times> f32 list" where
  "conv_run F wc hist [] buf = ([], buf)"
| "conv_run F wc hist (cur # xs) buf =
     (case conv_step F wc hist cur buf of (y, buf1) \<Rightarrow>
        case conv_run F wc hist xs buf1 of (ys, buf2) \<Rightarrow> (y # ys, buf2))"

definition channel :: "f32 list \<Rightarrow> nat \<Rightarrow> nat \<Rightarrow> nat \<Rightarrow> f32 list" where
  "channel x channels T c = map (\<lambda>t. x ! (t * channels + c)) [0..<T]"

definition k3_shortconv ::
  "fpu \<Rightarrow> f32 list \<Rightarrow> f32 list \<Rightarrow> f32 list option \<Rightarrow> nat \<Rightarrow> nat \<Rightarrow> nat \<Rightarrow> f32 list \<times> f32 list option" where
  "k3_shortconv F x w state channels k T =
     (let hist = k - 1;
          start = (\<lambda>c. case state of Some s \<Rightarrow> seg s (c * hist) hist | None \<Rightarrow> replicate hist 0);
          run = (\<lambda>c. conv_run F (seg w (c * k) k) hist (channel x channels T c) (start c))
      in (mat T channels (\<lambda>t c. fst (run c) ! t),
          map_option (\<lambda>_. concat (map (\<lambda>c. snd (run c)) [0..<channels])) state))"

section \<open>The delta rule\<close>

text \<open>The decay gate: \<open>A_log\<close> is read per head, \<open>dt_bias\<close> per head and channel. The result is \<open>(g, alpha)\<close>.\<close>

definition k3_kda_decay ::
  "fpu \<Rightarrow> f32 list \<Rightarrow> f32 list \<Rightarrow> f32 list \<Rightarrow> nat \<Rightarrow> nat \<Rightarrow> f32 \<Rightarrow> f32 list \<times> f32 list" where
  "k3_kda_decay F z A_log dt_bias H D lb =
     (let g = mat H D (\<lambda>h d. let i = h * D + d; a = fp_expf F (A_log ! h)
                            in fmul F lb (sigmoidf F (fmul F a (fadd F (z ! i) (dt_bias ! i)))))
      in (g, map (fp_expf F) g))"

text \<open>\<open>S\<^sup>T v\<close> as the code sums it: rows whose coefficient compares equal to zero are skipped.\<close>

definition read_along :: "fpu \<Rightarrow> f32 list \<Rightarrow> f32 list \<Rightarrow> nat \<Rightarrow> nat \<Rightarrow> f32 list" where
  "read_along F S v dk dv =
     loop dk (\<lambda>i u. if feq (v ! i) 0 then u
                    else map (\<lambda>j. fadd F (u ! j) (fmul F (v ! i) (S ! (i * dv + j)))) [0..<dv]) (replicate dv 0)"

definition k3_kda_step ::
  "fpu \<Rightarrow> f32 list \<Rightarrow> f32 list \<Rightarrow> f32 list \<Rightarrow> f32 list \<Rightarrow> f32 list \<Rightarrow> f32 \<Rightarrow> nat \<Rightarrow> nat \<Rightarrow> f32 list \<times> f32 list" where
  "k3_kda_step F S q k v alpha beta dk dv =
     (let S1 = mat dk dv (\<lambda>i j. fmul F (S ! (i * dv + j)) (alpha ! i));
          u = read_along F S1 k dk dv;
          S2 = mat dk dv (\<lambda>i j. if feq (k ! i) 0 then S1 ! (i * dv + j)
                 else fadd F (S1 ! (i * dv + j)) (fmul F (fmul F (k ! i) beta) (fsub F (v ! j) (u ! j))));
          o' = read_along F S2 q dk dv
      in (S2, o'))"

section \<open>Matrix products\<close>

text \<open>Sixteen accumulators over blocks of sixteen, the fixed reduction tree, and the tail one by one.\<close>

definition reduce16 :: "fpu \<Rightarrow> f64 list \<Rightarrow> f64" where
  "reduce16 F a =
     (let b0 = dadd F (dadd F (a ! 0) (a ! 4)) (dadd F (a ! 8) (a ! 12));
          b1 = dadd F (dadd F (a ! 1) (a ! 5)) (dadd F (a ! 9) (a ! 13));
          b2 = dadd F (dadd F (a ! 2) (a ! 6)) (dadd F (a ! 10) (a ! 14));
          b3 = dadd F (dadd F (a ! 3) (a ! 7)) (dadd F (a ! 11) (a ! 15))
      in dadd F (dadd F b0 b1) (dadd F b2 b3))"

definition lane_step :: "fpu \<Rightarrow> nat \<Rightarrow> (nat \<Rightarrow> f64) \<Rightarrow> (nat \<Rightarrow> f64) \<Rightarrow> nat \<Rightarrow> f64 list \<Rightarrow> f64 list" where
  "lane_step F k r x b a = map (\<lambda>l. dfma F (r (k * b + l)) (x (k * b + l)) (a ! l)) [0..<k]"

definition lanes16 :: "fpu \<Rightarrow> (nat \<Rightarrow> f64) \<Rightarrow> (nat \<Rightarrow> f64) \<Rightarrow> nat \<Rightarrow> f64 list" where
  "lanes16 F r x n = loop (n div 16) (lane_step F 16 r x) (replicate 16 0)"

definition dot_tail :: "fpu \<Rightarrow> (nat \<Rightarrow> f64) \<Rightarrow> (nat \<Rightarrow> f64) \<Rightarrow> nat \<Rightarrow> nat \<Rightarrow> f64 \<Rightarrow> f64" where
  "dot_tail F r x i n acc = fold (\<lambda>i acc. dfma F (r i) (x i) acc) [i..<n] acc"

definition k3_matmul :: "fpu \<Rightarrow> f32 list \<Rightarrow> f32 list \<Rightarrow> nat \<Rightarrow> nat \<Rightarrow> f32 list" where
  "k3_matmul F x W inn out =
     map (\<lambda>o'. let r = (\<lambda>i. d_of_f F (W ! (o' * inn + i))); xd = (\<lambda>i. d_of_f F (x ! i))
               in f_of_d F (dot_tail F r xd (16 * (inn div 16)) inn (reduce16 F (lanes16 F r xd inn)))) [0..<out]"

text \<open>A vector register is the list of its lanes; the intrinsics act lane by lane.\<close>

definition mm256_add_pd :: "fpu \<Rightarrow> f64 list \<Rightarrow> f64 list \<Rightarrow> f64 list" where
  "mm256_add_pd F = map2 (dadd F)"

definition mm256_fmadd_pd :: "fpu \<Rightarrow> f64 list \<Rightarrow> f64 list \<Rightarrow> f64 list \<Rightarrow> f64 list" where
  "mm256_fmadd_pd F a b c = map2 (\<lambda>(x, y) z. dfma F x y z) (zip a b) c"

definition load4 :: "(nat \<Rightarrow> f64) \<Rightarrow> nat \<Rightarrow> f64 list" where
  "load4 r i = [r i, r (i + 1), r (i + 2), r (i + 3)]"

definition setzero_pd :: "f64 list" where
  "setzero_pd = [0, 0, 0, 0]"

definition cross_lane :: "fpu \<Rightarrow> f64 list \<Rightarrow> f64" where
  "cross_lane F a = dadd F (dadd F (a ! 0) (a ! 1)) (dadd F (a ! 2) (a ! 3))"

fun vec_step4 ::
  "fpu \<Rightarrow> (nat \<Rightarrow> f64) \<Rightarrow> (nat \<Rightarrow> f64) \<Rightarrow> nat \<Rightarrow> f64 list \<times> f64 list \<times> f64 list \<times> f64 list \<Rightarrow>
    f64 list \<times> f64 list \<times> f64 list \<times> f64 list" where
  "vec_step4 F r x b (v0, v1, v2, v3) =
     (mm256_fmadd_pd F (load4 r (16 * b)) (load4 x (16 * b)) v0,
      mm256_fmadd_pd F (load4 r (16 * b + 4)) (load4 x (16 * b + 4)) v1,
      mm256_fmadd_pd F (load4 r (16 * b + 8)) (load4 x (16 * b + 8)) v2,
      mm256_fmadd_pd F (load4 r (16 * b + 12)) (load4 x (16 * b + 12)) v3)"

definition dot_avx2 :: "fpu \<Rightarrow> (nat \<Rightarrow> f64) \<Rightarrow> (nat \<Rightarrow> f64) \<Rightarrow> nat \<Rightarrow> f64" where
  "dot_avx2 F r x n =
     (case loop (n div 16) (vec_step4 F r x) (setzero_pd, setzero_pd, setzero_pd, setzero_pd) of
      (v0, v1, v2, v3) \<Rightarrow> cross_lane F (mm256_add_pd F (mm256_add_pd F v0 v1) (mm256_add_pd F v2 v3)))"

definition k3_bf16f :: "16 word \<Rightarrow> f32" where
  "k3_bf16f h = push_bit 16 (ucast h)"

text \<open>\<open>avx\<close> is whether the build defines \<open>__AVX2__\<close>.\<close>

definition k3_matmul_bf16 :: "fpu \<Rightarrow> bool \<Rightarrow> f32 list \<Rightarrow> 16 word list \<Rightarrow> nat \<Rightarrow> nat \<Rightarrow> f32 list" where
  "k3_matmul_bf16 F avx x W inn out =
     map (\<lambda>o'. let r = (\<lambda>i. d_of_f F (k3_bf16f (W ! (o' * inn + i)))); xd = (\<lambda>i. d_of_f F (x ! i));
                   acc = (if avx then dot_avx2 F r xd inn else reduce16 F (lanes16 F r xd inn))
               in f_of_d F (dot_tail F r xd (16 * (inn div 16)) inn acc)) [0..<out]"

subsection \<open>Per-row int8, for the draft model\<close>

text \<open>Each row is a float scale followed by its signed bytes. The two builds sum in different orders.\<close>

definition q8_sum_avx :: "fpu \<Rightarrow> (nat \<Rightarrow> f32) \<Rightarrow> f32 list \<Rightarrow> nat \<Rightarrow> f32" where
  "q8_sum_avx F w x n =
     (case loop (n div 16) (\<lambda>b (v0, v1).
         (map (\<lambda>l. ffma F (w (16 * b + l)) (x ! (16 * b + l)) (v0 ! l)) [0..<8],
          map (\<lambda>l. ffma F (w (16 * b + 8 + l)) (x ! (16 * b + 8 + l)) (v1 ! l)) [0..<8]))
         (replicate 8 0, replicate 8 0) of
      (v0, v1) \<Rightarrow> let vs = map2 (fadd F) v0 v1; lo = map (\<lambda>l. fadd F (vs ! l) (vs ! (l + 4))) [0..<4]
                  in fadd F (fadd F (lo ! 0) (lo ! 2)) (fadd F (lo ! 1) (lo ! 3)))"

definition q8_sum_scalar :: "fpu \<Rightarrow> (nat \<Rightarrow> f32) \<Rightarrow> f32 list \<Rightarrow> nat \<Rightarrow> f32" where
  "q8_sum_scalar F w x n =
     (let a = loop (n div 4) (\<lambda>b a. map (\<lambda>l. fadd F (a ! l) (fmul F (w (4 * b + l)) (x ! (4 * b + l)))) [0..<4])
                (replicate 4 0)
      in fadd F (fadd F (a ! 0) (a ! 1)) (fadd F (a ! 2) (a ! 3)))"

definition k3_matmul_q8 :: "fpu \<Rightarrow> bool \<Rightarrow> f32 list \<Rightarrow> bytes \<Rightarrow> nat \<Rightarrow> nat \<Rightarrow> f32 list" where
  "k3_matmul_q8 F avx x W inn out =
     map (\<lambda>o'. let row = o' * (4 + inn); scale = u32_at W row;
                   w = (\<lambda>i. f_of_int (sint (W ! (row + 4 + i))));
                   acc = (if avx then q8_sum_avx F w x inn else q8_sum_scalar F w x inn);
                   done = (if avx then 16 * (inn div 16) else 4 * (inn div 4))
               in fmul F (fold (\<lambda>i acc. fadd F acc (fmul F (w i) (x ! i))) [done..<inn] acc) scale) [0..<out]"

subsection \<open>The dispatch\<close>

definition K3_WF32 :: int where "K3_WF32 = 0"
definition K3_WBF16 :: int where "K3_WBF16 = 1"
definition K3_WI8 :: int where "K3_WI8 = 2"

definition k3_mmw :: "fpu \<Rightarrow> bool \<Rightarrow> f32 list \<Rightarrow> bytes \<Rightarrow> int \<Rightarrow> nat \<Rightarrow> nat \<Rightarrow> f32 list" where
  "k3_mmw F avx x W wdt inn out =
     (if wdt = K3_WBF16 then k3_matmul_bf16 F avx x (as_u16 W) inn out
      else if wdt = K3_WI8 then k3_matmul_q8 F avx x W inn out
      else k3_matmul F x (as_f32 W) inn out)"

definition k3_wsz :: "int \<Rightarrow> nat" where
  "k3_wsz wdt = (if wdt = K3_WBF16 then 2 else 4)"

definition k3_row_bytes :: "int \<Rightarrow> nat \<Rightarrow> nat" where
  "k3_row_bytes wdt inn = (if wdt = K3_WI8 then 4 + inn else inn * k3_wsz wdt)"

section \<open>MXFP4\<close>

definition K3_E2M1 :: "f32 list" where
  "K3_E2M1 = [0, 0x3F000000, 0x3F800000, 0x3FC00000, 0x40000000, 0x40400000, 0x40800000, 0x40C00000,
     0x80000000, 0xBF000000, 0xBF800000, 0xBFC00000, 0xC0000000, 0xC0400000, 0xC0800000, 0xC0C00000]"

text \<open>The two tables the kernel builds once: a byte to its two values, and a scale byte to its power of two.\<close>

definition K3_E2M1_PAIR :: "8 word \<Rightarrow> f32 \<times> f32" where
  "K3_E2M1_PAIR b = (K3_E2M1 ! unat (b AND 0x0F), K3_E2M1 ! unat (drop_bit 4 b))"

definition K3_E8M0 :: "8 word \<Rightarrow> f32" where
  "K3_E8M0 b = (if b = 255 then 0 else ldexpf1 (uint b - 127))"

definition expand_group :: "bytes \<Rightarrow> nat \<Rightarrow> f32 list" where
  "expand_group pb n =
     concat (map (\<lambda>j. [fst (K3_E2M1_PAIR (pb ! j)), snd (K3_E2M1_PAIR (pb ! j))]) [0..<n div 2])
     @ (if odd n then [fst (K3_E2M1_PAIR (pb ! (n div 2)))] else [])"

definition group_scalar :: "fpu \<Rightarrow> (nat \<Rightarrow> f64) \<Rightarrow> (nat \<Rightarrow> f64) \<Rightarrow> nat \<Rightarrow> f64" where
  "group_scalar F w x n =
     (let s = loop (n div 8) (lane_step F 8 w x) (replicate 8 0);
          b0 = dadd F (s ! 0) (s ! 4); b1 = dadd F (s ! 1) (s ! 5);
          b2 = dadd F (s ! 2) (s ! 6); b3 = dadd F (s ! 3) (s ! 7)
      in dadd F (dadd F b0 b1) (dadd F b2 b3))"

fun vec_step2 ::
  "fpu \<Rightarrow> (nat \<Rightarrow> f64) \<Rightarrow> (nat \<Rightarrow> f64) \<Rightarrow> nat \<Rightarrow> f64 list \<times> f64 list \<Rightarrow> f64 list \<times> f64 list" where
  "vec_step2 F w x b (v0, v1) =
     (mm256_fmadd_pd F (load4 w (8 * b)) (load4 x (8 * b)) v0,
      mm256_fmadd_pd F (load4 w (8 * b + 4)) (load4 x (8 * b + 4)) v1)"

definition group_avx2 :: "fpu \<Rightarrow> (nat \<Rightarrow> f64) \<Rightarrow> (nat \<Rightarrow> f64) \<Rightarrow> nat \<Rightarrow> f64" where
  "group_avx2 F w x n =
     (case loop (n div 8) (vec_step2 F w x) (setzero_pd, setzero_pd) of
      (v0, v1) \<Rightarrow> cross_lane F (mm256_add_pd F v0 v1))"

definition mxfp4_group :: "fpu \<Rightarrow> bool \<Rightarrow> f32 list \<Rightarrow> bytes \<Rightarrow> nat \<Rightarrow> f64" where
  "mxfp4_group F avx xg pb n =
     (let wf = expand_group pb n; w = (\<lambda>i. d_of_f F (wf ! i)); x = (\<lambda>i. d_of_f F (xg ! i))
      in dot_tail F w x (8 * (n div 8)) n (if avx then group_avx2 F w x n else group_scalar F w x n))"

definition k3_matmul_mxfp4 :: "fpu \<Rightarrow> bool \<Rightarrow> f32 list \<Rightarrow> bytes \<Rightarrow> bytes \<Rightarrow> nat \<Rightarrow> nat \<Rightarrow> nat \<Rightarrow> f32 list" where
  "k3_matmul_mxfp4 F avx x packed scales inn rows grp =
     (let pcols = inn div 2; ngrp = (inn + grp - 1) div grp; gbyte = grp div 2
      in map (\<lambda>r. f_of_d F (loop ngrp (\<lambda>g acc.
             let sb = scales ! (r * ngrp + g)
             in if sb = 255 then acc
                else let n = min (inn - g * grp) grp;
                         sub = mxfp4_group F avx (drop (g * grp) x) (drop (r * pcols + g * gbyte) packed) n
                     in dadd F acc (dmul F sub (d_of_f F (K3_E8M0 sb)))) 0)) [0..<rows])"

definition nibble :: "bytes \<Rightarrow> nat \<Rightarrow> nat" where
  "nibble pr i = (let byte = pr ! (i div 2) in if odd i then unat (drop_bit 4 byte) else unat (byte AND 0x0F))"

definition k3_mxfp4_dequant :: "fpu \<Rightarrow> bytes \<Rightarrow> bytes \<Rightarrow> nat \<Rightarrow> nat \<Rightarrow> nat \<Rightarrow> f32 list" where
  "k3_mxfp4_dequant F packed scales rows pcols grp =
     (let width = pcols * 2; ngrp = (width + grp - 1) div grp
      in mat rows width (\<lambda>r i. let sb = scales ! (r * ngrp + i div grp);
                                   mult = (if sb = 255 then 0 else ldexpf1 (uint sb - 127))
                               in fmul F (K3_E2M1 ! nibble (drop (r * pcols) packed) i) mult))"

section \<open>Block attention residuals\<close>

definition attn_score :: "fpu \<Rightarrow> f32 list \<Rightarrow> f32 list \<Rightarrow> nat \<Rightarrow> f32 \<Rightarrow> f32" where
  "attn_score F v fw n eps =
     (let inv = rms_inv F v n eps
      in f_of_d F (loop n (\<lambda>i acc. dadd F acc (dmul F (d_of_f F (fmul F (v ! i) inv)) (d_of_f F (fw ! i)))) 0))"

definition fmaxes :: "f32 list \<Rightarrow> f32 \<Rightarrow> f32" where
  "fmaxes xs m = fold (\<lambda>x m. if fless m x then x else m) xs m"

text \<open>\<open>src\<close> is the list of the sources; the keys are normalised, what is mixed are the raw sources.\<close>

definition k3_attn_res :: "fpu \<Rightarrow> f32 list list \<Rightarrow> f32 list \<Rightarrow> nat \<Rightarrow> f32 \<Rightarrow> f32 list" where
  "k3_attn_res F src fw n eps =
     (let score = map (\<lambda>v. attn_score F v fw n eps) src;
          m = fmaxes (tl score) (hd score);
          e = map (\<lambda>s. fp_expf F (fsub F s m)) score;
          z = fold (\<lambda>s z. dadd F z (d_of_f F s)) e 0
      in fold (\<lambda>(s, v) out. let p = f_of_d F (ddiv F (d_of_f F s) z)
                            in map (\<lambda>i. fadd F (out ! i) (fmul F p (v ! i))) [0..<n])
           (zip e src) (replicate n 0))"


section \<open>Sizes\<close>

lemma loop_0 [simp]: "loop 0 f s = s"
  by (simp add: loop_def)

lemma loop_Suc [simp]: "loop (Suc n) f s = f n (loop n f s)"
  by (simp add: loop_def)

lemma loop_cong: "(\<And>i s. i < n \<Longrightarrow> f i s = g i s) \<Longrightarrow> loop n f s = loop n g s"
  by (induction n arbitrary: s) (simp_all)

lemma loop_inv: "P s \<Longrightarrow> (\<And>i s. i < n \<Longrightarrow> P s \<Longrightarrow> P (f i s)) \<Longrightarrow> P (loop n f s)"
  by (induction n) auto

lemma length_mat [simp]: "length (mat r c f) = r * c"
  by (simp add: mat_def length_concat o_def sum_list_triv)

lemma nth_mat [simp]: "i < r \<Longrightarrow> j < c \<Longrightarrow> mat r c f ! (i * c + j) = f i j"
proof (induction r)
  case (Suc r)
  have "mat (Suc r) c f = mat r c f @ map (f r) [0..<c]" by (simp add: mat_def)
  moreover have "i * c + j < r * c" if "i < r"
  proof -
    have "i * c + j < Suc i * c" using Suc.prems(2) by simp
    also have "\<dots> \<le> r * c" using that by (intro mult_right_mono) auto
    finally show ?thesis .
  qed
  ultimately show ?case using Suc by (cases "i = r") (auto simp: nth_append)
qed simp

lemma length_kernels [simp]:
  "length (k3_rmsnorm F x w n eps) = n" "length (l2norm F v n eps) = n" "length (k3_situ_glu F x n b1 b2) = n"
  "length (k3_matmul F x Wf inn out) = out" "length (k3_matmul_bf16 F avx x Wh inn out) = out"
  "length (k3_matmul_q8 F avx x Wb inn out) = out" "length (k3_matmul_mxfp4 F avx x p s inn rows grp) = rows"
  by (simp_all add: k3_rmsnorm_def l2norm_def k3_situ_glu_def k3_matmul_def k3_matmul_bf16_def k3_matmul_q8_def
      k3_matmul_mxfp4_def Let_def)

lemma length_mmw [simp]: "length (k3_mmw F avx x Wb wdt inn out) = out"
  by (simp add: k3_mmw_def)

section \<open>Words as bytes\<close>

lemma put32_at: "u32_at (put32 x) 0 = x"
proof (rule bit_word_eqI)
  fix n assume "n < LENGTH(32)"
  then consider "n < 8" | "8 \<le> n" "n < 16" | "16 \<le> n" "n < 24" | "24 \<le> n" "n < 32" by fastforce
  then show "bit (u32_at (put32 x) 0) n = bit x n"
    by cases (auto simp: u32_at_def put32_def bit_simps less_diff_conv2)
qed

lemma length_put_words [simp]: "length (put_words ws) = 4 * length ws"
  by (induction ws) (simp_all add: put_words_def put32_def)

lemma words_round: "as_f32 (put_words ws) = ws"
proof -
  have "u32_at (put_words ws) (4 * i) = ws ! i" if "i < length ws" for i
    using that
  proof (induction ws arbitrary: i)
    case (Cons x ws)
    then show ?case
    proof (cases i)
      case 0
      then show ?thesis using put32_at [of x] by (simp add: put_words_def u32_at_def put32_def)
    next
      case (Suc j)
      have "put_words (x # ws) ! (4 * i + k) = put_words ws ! (4 * j + k)" for k
        using Suc by (simp add: put_words_def put32_def)
      then have "u32_at (put_words (x # ws)) (4 * i) = u32_at (put_words ws) (4 * j)" 
        unfolding u32_at_def by (metis add.right_neutral)
      then show ?thesis using Cons Suc by simp
    qed
  qed simp
  then show ?thesis by (intro nth_equalityI) (simp_all add: as_f32_def)
qed

lemma put32_words: "o' + 4 \<le> length b \<Longrightarrow> put32 (u32_at b o') = take 4 (drop o' b)"
proof -
  assume "o' + 4 \<le> length b"
  then have "take 4 (drop o' b) = [b ! o', b ! (o' + 1), b ! (o' + 2), b ! (o' + 3)]"
    by (simp add: take_Suc_conv_app_nth numeral_eq_Suc)
  moreover have hi: "bit (x :: 8 word) (k + n) \<longleftrightarrow> False" if "8 \<le> k" for x k n
    using that bit_imp_le_length [of x "k + n"] by auto
  have "ucast (u32_at b o') = b ! o'" "ucast (drop_bit 8 (u32_at b o')) = b ! (o' + 1)"
    "ucast (drop_bit 16 (u32_at b o')) = b ! (o' + 2)" "ucast (drop_bit 24 (u32_at b o')) = b ! (o' + 3)"
    by (auto intro!: bit_word_eqI simp: u32_at_def bit_simps hi)
  ultimately show ?thesis by (simp add: put32_def)
qed

lemma put_words_as_f32: "put_words (take n (as_f32 b)) = take (4 * n) b" if "4 * n \<le> length b"
  using that
proof (induction n)
  case (Suc n)
  have n: "n < length b div 4" using Suc.prems by simp
  then have "take (Suc n) (as_f32 b) = take n (as_f32 b) @ [u32_at b (4 * n)]"
    by (simp add: as_f32_def take_map take_Suc_conv_app_nth)
  then have "put_words (take (Suc n) (as_f32 b)) = put_words (take n (as_f32 b)) @ put32 (u32_at b (4 * n))"
    by (simp add: put_words_def)
  also have "\<dots> = take (4 * n) b @ take 4 (drop (4 * n) b)" using Suc put32_words [of "4 * n" b] by simp
  finally show ?case by (simp add: take_add [symmetric] add.commute)
qed (simp add: put_words_def)

section \<open>The builds agree\<close>

text \<open>The vector path keeps the sixteen scalar accumulators as four registers of four lanes.\<close>

lemma fmadd4:
  "mm256_fmadd_pd F (load4 r i) (load4 x i) [a, b, c, d] =
     [dfma F (r i) (x i) a, dfma F (r (i + 1)) (x (i + 1)) b, dfma F (r (i + 2)) (x (i + 2)) c,
      dfma F (r (i + 3)) (x (i + 3)) d]"
  by (simp add: mm256_fmadd_pd_def load4_def)

lemma upt_16: "[0..<16] = [0, 1, 2, 3, 4, 5, 6, 7, 8, 9, 10, 11, 12, 13, 14, 15 :: nat]"
  by (simp add: upt_rec)

lemma upt_8: "[0..<8] = [0, 1, 2, 3, 4, 5, 6, 7 :: nat]"
  by (simp add: upt_rec)

lemma length_4: "length v = 4 \<Longrightarrow> \<exists>a b c d. v = [a, b, c, d]"
  by (auto simp: length_Suc_conv eval_nat_numeral)

lemma lane_step_8:
  "lane_step F 8 r x b [a0, a1, a2, a3, a4, a5, a6, a7] =
     [dfma F (r (8 * b)) (x (8 * b)) a0, dfma F (r (8 * b + 1)) (x (8 * b + 1)) a1,
      dfma F (r (8 * b + 2)) (x (8 * b + 2)) a2, dfma F (r (8 * b + 3)) (x (8 * b + 3)) a3,
      dfma F (r (8 * b + 4)) (x (8 * b + 4)) a4, dfma F (r (8 * b + 5)) (x (8 * b + 5)) a5,
      dfma F (r (8 * b + 6)) (x (8 * b + 6)) a6, dfma F (r (8 * b + 7)) (x (8 * b + 7)) a7]"
  by (simp add: lane_step_def upt_8)

lemma lane_step_16:
  "lane_step F 16 r x b [a0, a1, a2, a3, a4, a5, a6, a7, a8, a9, b0, b1, b2, b3, b4, b5] =
     [dfma F (r (16 * b)) (x (16 * b)) a0, dfma F (r (16 * b + 1)) (x (16 * b + 1)) a1,
      dfma F (r (16 * b + 2)) (x (16 * b + 2)) a2, dfma F (r (16 * b + 3)) (x (16 * b + 3)) a3,
      dfma F (r (16 * b + 4)) (x (16 * b + 4)) a4, dfma F (r (16 * b + 5)) (x (16 * b + 5)) a5,
      dfma F (r (16 * b + 6)) (x (16 * b + 6)) a6, dfma F (r (16 * b + 7)) (x (16 * b + 7)) a7,
      dfma F (r (16 * b + 8)) (x (16 * b + 8)) a8, dfma F (r (16 * b + 9)) (x (16 * b + 9)) a9,
      dfma F (r (16 * b + 10)) (x (16 * b + 10)) b0, dfma F (r (16 * b + 11)) (x (16 * b + 11)) b1,
      dfma F (r (16 * b + 12)) (x (16 * b + 12)) b2, dfma F (r (16 * b + 13)) (x (16 * b + 13)) b3,
      dfma F (r (16 * b + 14)) (x (16 * b + 14)) b4, dfma F (r (16 * b + 15)) (x (16 * b + 15)) b5]"
  by (simp add: lane_step_def upt_16)

lemma avx_lanes:
  "\<exists>v0 v1 v2 v3. loop n (lane_step F 16 r x) (replicate 16 0) = v0 @ v1 @ v2 @ v3 \<and>
     length v0 = 4 \<and> length v1 = 4 \<and> length v2 = 4 \<and> length v3 = 4 \<and>
     loop n (vec_step4 F r x) (setzero_pd, setzero_pd, setzero_pd, setzero_pd) = (v0, v1, v2, v3)"
proof (induction n)
  case 0
  show ?case by (simp add: setzero_pd_def eval_nat_numeral)
next
  case (Suc n)
  then obtain v0 v1 v2 v3 where v: "loop n (lane_step F 16 r x) (replicate 16 0) = v0 @ v1 @ v2 @ v3"
    "length v0 = 4" "length v1 = 4" "length v2 = 4" "length v3 = 4"
    "loop n (vec_step4 F r x) (setzero_pd, setzero_pd, setzero_pd, setzero_pd) = (v0, v1, v2, v3)" by blast
  obtain a0 a1 a2 a3 a4 a5 a6 a7 a8 a9 b0 b1 b2 b3 b4 b5 where e: "v0 = [a0, a1, a2, a3]" "v1 = [a4, a5, a6, a7]"
    "v2 = [a8, a9, b0, b1]" "v3 = [b2, b3, b4, b5]"
    using length_4 [OF v(2)] length_4 [OF v(3)] length_4 [OF v(4)] length_4 [OF v(5)] by blast
  show ?case by (simp add: v(1,6) e fmadd4 lane_step_16 add.commute)
qed

lemma dot_avx2_scalar: "dot_avx2 F r x n = reduce16 F (lanes16 F r x n)"
  using avx_lanes [of "n div 16" F r x]
  by (elim conjE exE) (auto simp: dot_avx2_def lanes16_def reduce16_def cross_lane_def mm256_add_pd_def dest!: length_4)

lemma group_lanes:
  "\<exists>v0 v1. loop n (lane_step F 8 w x) (replicate 8 0) = v0 @ v1 \<and> length v0 = 4 \<and> length v1 = 4 \<and>
     loop n (vec_step2 F w x) (setzero_pd, setzero_pd) = (v0, v1)"
proof (induction n)
  case 0
  show ?case by (simp add: setzero_pd_def eval_nat_numeral)
next
  case (Suc n)
  then obtain v0 v1 where v: "loop n (lane_step F 8 w x) (replicate 8 0) = v0 @ v1" "length v0 = 4" "length v1 = 4"
    "loop n (vec_step2 F w x) (setzero_pd, setzero_pd) = (v0, v1)" by blast
  obtain a0 a1 a2 a3 a4 a5 a6 a7 where e: "v0 = [a0, a1, a2, a3]" "v1 = [a4, a5, a6, a7]"
    using length_4 [OF v(2)] length_4 [OF v(3)] by blast
  show ?case by (simp add: v(1,4) e fmadd4 lane_step_8 add.commute)
qed

lemma group_avx2_scalar: "group_avx2 F w x n = group_scalar F w x n"
  using group_lanes [of "n div 8" F w x]
  by (elim conjE exE) (auto simp: group_avx2_def group_scalar_def cross_lane_def mm256_add_pd_def Let_def dest!: length_4)

lemma mxfp4_builds_agree: "k3_matmul_mxfp4 F avx = k3_matmul_mxfp4 F avx'"
  by (intro ext) (simp only: k3_matmul_mxfp4_def mxfp4_group_def group_avx2_scalar if_cancel)

lemma bf16_builds_agree: "k3_matmul_bf16 F avx = k3_matmul_bf16 F avx'"
  by (intro ext) (simp only: k3_matmul_bf16_def dot_avx2_scalar if_cancel)

text \<open>bf16 weights widened on read are the fp32 weights widened beforehand.\<close>

lemma fold_cong_set: "(\<And>x s. x \<in> set xs \<Longrightarrow> f x s = g x s) \<Longrightarrow> fold f xs s = fold g xs s"
  by (rule fold_cong) auto

lemma lanes16_cong: "(\<And>i. i < n \<Longrightarrow> r i = r' i) \<Longrightarrow> (\<And>i. i < n \<Longrightarrow> x i = x' i) \<Longrightarrow> lanes16 F r x n = lanes16 F r' x' n"
  unfolding lanes16_def
proof (rule loop_cong, unfold lane_step_def, rule map_cong [OF refl])
  fix b l and s :: "f64 list"
  assume a: "\<And>i. i < n \<Longrightarrow> r i = r' i" "\<And>i. i < n \<Longrightarrow> x i = x' i" "b < n div 16" "l \<in> set [0..<16]"
  then have "16 * b + l < n" by simp
  then show "dfma F (r (16 * b + l)) (x (16 * b + l)) (s ! l) = dfma F (r' (16 * b + l)) (x' (16 * b + l)) (s ! l)"
    using a by simp
qed

lemma dot_tail_cong:
  "(\<And>i. i < n \<Longrightarrow> r i = r' i) \<Longrightarrow> (\<And>i. i < n \<Longrightarrow> x i = x' i) \<Longrightarrow> dot_tail F r x j n acc = dot_tail F r' x' j n acc"
  unfolding dot_tail_def by (rule fold_cong_set) simp

lemma bf16_is_widened:
  assumes "out * inn \<le> length Wh"
  shows "k3_matmul_bf16 F avx x Wh inn out = k3_matmul F x (map k3_bf16f Wh) inn out"
proof -
  have *: "map k3_bf16f Wh ! (o' * inn + i) = k3_bf16f (Wh ! (o' * inn + i))" if "o' < out" "i < inn" for o' i
  proof -
    have "o' * inn + i < Suc o' * inn" using that(2) by simp
    also have "\<dots> \<le> out * inn" using that(1) by (intro mult_right_mono) auto
    finally show ?thesis using assms by simp
  qed
  have "lanes16 F (\<lambda>i. d_of_f F (k3_bf16f (Wh ! (o' * inn + i)))) xd inn =
      lanes16 F (\<lambda>i. d_of_f F (map k3_bf16f Wh ! (o' * inn + i))) xd inn"
    "dot_tail F (\<lambda>i. d_of_f F (k3_bf16f (Wh ! (o' * inn + i)))) xd j inn acc =
      dot_tail F (\<lambda>i. d_of_f F (map k3_bf16f Wh ! (o' * inn + i))) xd j inn acc" if "o' < out" for o' j acc xd
    using * [OF that] by (auto intro: lanes16_cong dot_tail_cong)
  then show ?thesis unfolding k3_matmul_bf16_def k3_matmul_def Let_def dot_avx2_scalar if_cancel by simp
qed

text \<open>The expanded group holds the codes of its elements in order, low nibble first, as the dequantiser reads them.\<close>

lemma length_expand [simp]: "length (expand_group pb n) = n"
  by (auto simp: expand_group_def length_concat o_def sum_list_triv mult_2_right [symmetric] elim!: oddE
      simp del: mult_2_right)

lemma expand_group_nibble:
  assumes "i < n"
  shows "expand_group pb n ! i = K3_E2M1 ! nibble pb i"
proof -
  let ?f = "\<lambda>j c. if c = 0 then fst (K3_E2M1_PAIR (pb ! j)) else snd (K3_E2M1_PAIR (pb ! j))"
  have e: "expand_group pb n = mat (n div 2) 2 ?f @ (if odd n then [fst (K3_E2M1_PAIR (pb ! (n div 2)))] else [])"
    by (simp add: expand_group_def mat_def upt_rec)
  have i: "i = i div 2 * 2 + i mod 2" by simp
  show ?thesis
  proof (cases "i < n div 2 * 2")
    case True
    then have "mat (n div 2) 2 ?f ! i = ?f (i div 2) (i mod 2)"
      by (subst (1) i, intro nth_mat) auto
    then show ?thesis using True
      by (simp add: e nth_append nibble_def K3_E2M1_PAIR_def Let_def odd_iff_mod_2_eq_one)
  next
    case False
    then have "odd n" "i = n div 2 * 2" using assms by (auto elim!: oddE evenE)
    then show ?thesis by (simp add: e nth_append nibble_def K3_E2M1_PAIR_def Let_def)
  qed
qed

end
