(* ===== verification/K3_Moe.thy ===== *)
theory K3_Moe
  imports K3_Kernels K3_Source
begin

text \<open>
  Routing and the mixture of experts, \<open>k3_router\<close>, \<open>k3_moe\<close>, \<open>k3_moe_prefill\<close> and \<open>moe_prefill_chunk\<close> of
  \<open>k3_ops.c\<close>, over an expert source: its state is threaded through every call in the order of the code.
\<close>

section \<open>The router\<close>

definition router_score :: "fpu \<Rightarrow> f32 list \<Rightarrow> f32 list \<Rightarrow> nat \<Rightarrow> nat \<Rightarrow> f32" where
  "router_score F x gate hidden e =
     (let row = seg gate (e * hidden) hidden;
          acc = loop hidden (\<lambda>i acc. dadd F acc (dmul F (d_of_f F (row ! i)) (d_of_f F (x ! i)))) 0
      in sigmoidf F (f_of_d F acc))"

text \<open>One sweep for the largest selection score: the first index among equals, none if nothing exceeds \<open>-INFINITY\<close>.\<close>

definition best_of :: "f32 list \<Rightarrow> nat option" where
  "best_of choice =
     fst (fold (\<lambda>e (best, bv). if fless bv (choice ! e) then (Some e, choice ! e) else (best, bv))
       [0..<length choice] (None, f_ninf))"

fun top_k :: "nat \<Rightarrow> f32 list \<Rightarrow> f32 list \<Rightarrow> (nat \<times> f32) list" where
  "top_k 0 score choice = []"
| "top_k (Suc k) score choice =
     (case best_of choice of
        None \<Rightarrow> (0, 0) # top_k k score choice
      | Some b \<Rightarrow> (b, score ! b) # top_k k score (choice[b := f_ninf]))"

definition renormalise :: "fpu \<Rightarrow> f32 list \<Rightarrow> f32 list" where
  "renormalise F w =
     (let s = fold (\<lambda>x s. dadd F s (d_of_f F x)) w 0;
          inv = f_of_d F (ddiv F d_one (dadd F s 0x3BC79CA10C924223))
      in map (\<lambda>x. fmul F x inv) w)"

definition k3_router ::
  "fpu \<Rightarrow> f32 list \<Rightarrow> f32 list \<Rightarrow> f32 list option \<Rightarrow> nat \<Rightarrow> nat \<Rightarrow> nat \<Rightarrow> bool \<Rightarrow> f32 \<Rightarrow> nat list \<times> f32 list" where
  "k3_router F x gate bias hidden ne topk renorm routed_scale =
     (let score = map (router_score F x gate hidden) [0..<ne];
          choice = map (\<lambda>e. fadd F (score ! e) (case bias of Some b \<Rightarrow> b ! e | None \<Rightarrow> 0)) [0..<ne];
          sel = top_k topk score choice;
          w = map snd sel;
          w1 = (if renorm \<and> topk > 1 then renormalise F w else w)
      in (map fst sel, map (\<lambda>x. fmul F x routed_scale) w1))"

section \<open>Weights and the source\<close>

record ('c, 'q, 'd) K3MoeW =
  mo_gate :: "f32 list"
  mo_bias :: "f32 list option"
  mo_w1 :: "f32 list"
  mo_w3 :: "f32 list"
  mo_w2 :: "f32 list"
  mo_latent_norm :: "f32 list"
  mo_down :: bytes
  mo_up :: bytes
  mo_sh1 :: bytes
  mo_sh3 :: bytes
  mo_sh2 :: bytes
  mo_wdt :: int
  mo_src :: "('c, 'q, 'd) K3ExpertSrc option"
  mo_layer :: int
  mo_cache_only :: bool

text \<open>
  The state a run threads: the source, the number of source calls made so far, which selects the disk a call
  reads from, and \<open>k3_expert_drops\<close>.
\<close>

record 'c Run =
  ru_src :: 'c
  ru_calls :: nat
  ru_drops :: int

text \<open>
  The machine a kernel runs on: the arithmetic, the build, the disk of each call, and how the bytes behind an
  expert's pointers read in a state of the source: \<open>w1\<close>, \<open>w2\<close>, \<open>w3\<close>, each its nibbles and its scales.
\<close>

record ('c, 'q, 'd) Machine =
  ma_fpu :: fpu
  ma_avx :: bool
  ma_disk :: "nat \<Rightarrow> 'd"
  ma_view :: "'c \<Rightarrow> 'q \<Rightarrow> (bytes \<times> bytes) list"

section \<open>One token\<close>

definition expert_mxfp4 :: "fpu \<Rightarrow> bool \<Rightarrow> K3Cfg \<Rightarrow> f32 list \<Rightarrow> (bytes \<times> bytes) list \<Rightarrow> f32 list" where
  "expert_mxfp4 F avx c z q =
     (let L = nat (cf_latent c); I = nat (cf_moe_inter c); g = nat K3_MXFP4_GROUP;
          gu = k3_matmul_mxfp4 F avx z (fst (q ! 0)) (snd (q ! 0)) L I g
             @ k3_matmul_mxfp4 F avx z (fst (q ! 2)) (snd (q ! 2)) L I g;
          act = k3_situ_glu F gu I (cf_situ_b1 c) (cf_situ_b2 c)
      in k3_matmul_mxfp4 F avx act (fst (q ! 1)) (snd (q ! 1)) I L g)"

definition expert_bank :: "fpu \<Rightarrow> K3Cfg \<Rightarrow> ('c, 'q, 'd) K3MoeW \<Rightarrow> f32 list \<Rightarrow> nat \<Rightarrow> f32 list" where
  "expert_bank F c w z e =
     (let L = nat (cf_latent c); I = nat (cf_moe_inter c);
          gu = k3_matmul F z (drop (e * I * L) (mo_w1 w)) L I @ k3_matmul F z (drop (e * I * L) (mo_w3 w)) L I;
          act = k3_situ_glu F gu I (cf_situ_b1 c) (cf_situ_b2 c)
      in k3_matmul F act (drop (e * L * I) (mo_w2 w)) I L)"

text \<open>\<open>accL[i] += wj * edn[i]\<close>\<close>

definition axpy :: "fpu \<Rightarrow> nat \<Rightarrow> f32 \<Rightarrow> f32 list \<Rightarrow> f32 list \<Rightarrow> f32 list" where
  "axpy F n wj edn acc = map (\<lambda>i. fadd F (acc ! i) (fmul F wj (edn ! i))) [0..<n]"

text \<open>The aggregate is normalised and projected up, the shared expert of the full-width input is added unweighted.\<close>

definition moe_tail :: "fpu \<Rightarrow> bool \<Rightarrow> K3Cfg \<Rightarrow> ('c, 'q, 'd) K3MoeW \<Rightarrow> f32 list \<Rightarrow> f32 list \<Rightarrow> f32 list" where
  "moe_tail F avx c w xt acc =
     (let E = nat (cf_hidden c); L = nat (cf_latent c); SI = nat (cf_moe_inter c * cf_n_shared c);
          a = (if cf_latent_norm c then k3_rmsnorm F acc (mo_latent_norm w) L (cf_rms_eps c) else acc);
          ot = k3_mmw F avx a (mo_up w) (mo_wdt w) L E;
          sgu = k3_mmw F avx xt (mo_sh1 w) (mo_wdt w) E SI @ k3_mmw F avx xt (mo_sh3 w) (mo_wdt w) E SI;
          sact = k3_situ_glu F sgu SI (cf_situ_b1 c) (cf_situ_b2 c);
          sdn = k3_mmw F avx sact (mo_sh2 w) (mo_wdt w) SI E
      in map (\<lambda>i. fadd F (ot ! i) (sdn ! i)) [0..<E])"

definition route :: "fpu \<Rightarrow> K3Cfg \<Rightarrow> ('c, 'q, 'd) K3MoeW \<Rightarrow> f32 list \<Rightarrow> nat list \<times> f32 list" where
  "route F c w xt =
     k3_router F xt (mo_gate w) (mo_bias w) (nat (cf_hidden c)) (nat (cf_n_experts c)) (nat (cf_topk c))
       (cf_moe_renorm c) (cf_routed_scale c)"

text \<open>Cache-only routing keeps the resident experts and rescales their weights to sum as intended.\<close>

definition keep_resident ::
  "fpu \<Rightarrow> (int \<Rightarrow> int \<Rightarrow> 'c \<Rightarrow> 'q option) \<Rightarrow> int \<Rightarrow> 'c \<Rightarrow> nat list \<times> f32 list \<Rightarrow> nat list \<times> f32 list" where
  "keep_resident F resident layer s = (\<lambda>(idx, wt).
     let kept = filter (\<lambda>(e, x). resident layer (int e) s \<noteq> None) (zip idx wt);
         wsum = fold (\<lambda>(e, x) acc. fadd F acc x) kept 0
     in (map fst kept, map (\<lambda>(e, x). if fless 0 wsum then fdiv F x wsum else x) kept))"

definition select_experts ::
  "('c, 'q, 'd) Machine \<Rightarrow> K3Cfg \<Rightarrow> ('c, 'q, 'd) K3MoeW \<Rightarrow> f32 list \<Rightarrow> 'c \<Rightarrow> nat list \<times> f32 list" where
  "select_experts m c w xt s =
     (case mo_src w of
        Some src \<Rightarrow>
          (case src_resident src of
             Some resident \<Rightarrow> if mo_cache_only w then keep_resident (ma_fpu m) resident (mo_layer w) s (route (ma_fpu m) c w xt)
                              else route (ma_fpu m) c w xt
           | None \<Rightarrow> route (ma_fpu m) c w xt)
      | None \<Rightarrow> route (ma_fpu m) c w xt)"

definition moe_prefetch ::
  "('c, 'q, 'd) Machine \<Rightarrow> ('c, 'q, 'd) K3MoeW \<Rightarrow> nat list \<Rightarrow> 'c Run \<Rightarrow> 'c Run option" where
  "moe_prefetch m w ids s =
     (case mo_src w of
        None \<Rightarrow> Some s
      | Some src \<Rightarrow>
          (case src_getmany src of
             None \<Rightarrow> Some s
           | Some f \<Rightarrow> if mo_cache_only w then Some s
               else map_option (\<lambda>(n, c'). s\<lparr>ru_src := c', ru_calls := ru_calls s + 1\<rparr>)
                      (f (ma_disk m (ru_calls s)) (mo_layer w) (map int ids) (ru_src s))))"

text \<open>\<open>get\<close>, with a miss counted.\<close>

definition moe_get ::
  "('c, 'q, 'd) Machine \<Rightarrow> ('c, 'q, 'd) K3ExpertSrc \<Rightarrow> int \<Rightarrow> nat \<Rightarrow> 'c Run \<Rightarrow> ('q option \<times> 'c Run) option" where
  "moe_get m src layer e s =
     map_option (\<lambda>(q, c'). (q, s\<lparr>ru_src := c', ru_calls := ru_calls s + 1,
          ru_drops := (if q = None then ru_drops s + 1 else ru_drops s)\<rparr>))
       (src_get src (ma_disk m (ru_calls s)) layer (int e) (ru_src s))"

text \<open>One selected expert: its output, or nothing when it is skipped.\<close>

definition run_expert ::
  "('c, 'q, 'd) Machine \<Rightarrow> K3Cfg \<Rightarrow> ('c, 'q, 'd) K3MoeW \<Rightarrow> f32 list \<Rightarrow> nat \<Rightarrow> 'c Run \<Rightarrow> (f32 list option \<times> 'c Run) option" where
  "run_expert m c w z e s =
     (case mo_src w of
        None \<Rightarrow> Some (Some (expert_bank (ma_fpu m) c w z e), s)
      | Some src \<Rightarrow>
          let use = (\<lambda>c' q. expert_mxfp4 (ma_fpu m) (ma_avx m) c z (ma_view m c' q))
          in if mo_cache_only w
             then (case src_resident src of
                     None \<Rightarrow> None
                   | Some resident \<Rightarrow> Some (map_option (use (ru_src s)) (resident (mo_layer w) (int e) (ru_src s)), s))
             else map_option (\<lambda>(q, s'). (map_option (use (ru_src s')) q, s')) (moe_get m src (mo_layer w) e s))"

fun run_experts ::
  "('c, 'q, 'd) Machine \<Rightarrow> K3Cfg \<Rightarrow> ('c, 'q, 'd) K3MoeW \<Rightarrow> f32 list \<Rightarrow> (nat \<times> f32) list \<Rightarrow> f32 list \<Rightarrow> 'c Run \<Rightarrow>
    (f32 list \<times> 'c Run) option" where
  "run_experts m c w z [] acc s = Some (acc, s)"
| "run_experts m c w z ((e, wj) # es) acc s =
     (case run_expert m c w z e s of
        None \<Rightarrow> None
      | Some (None, s') \<Rightarrow> run_experts m c w z es acc s'
      | Some (Some edn, s') \<Rightarrow> run_experts m c w z es (axpy (ma_fpu m) (nat (cf_latent c)) wj edn acc) s')"

definition moe_token ::
  "('c, 'q, 'd) Machine \<Rightarrow> K3Cfg \<Rightarrow> ('c, 'q, 'd) K3MoeW \<Rightarrow> f32 list \<Rightarrow> 'c Run \<Rightarrow> (f32 list \<times> 'c Run) option" where
  "moe_token m c w xt s =
     (let (idx, wt) = select_experts m c w xt (ru_src s);
          z = k3_mmw (ma_fpu m) (ma_avx m) xt (mo_down w) (mo_wdt w) (nat (cf_hidden c)) (nat (cf_latent c))
      in case moe_prefetch m w idx s of
           None \<Rightarrow> None
         | Some s1 \<Rightarrow>
             (case run_experts m c w z (zip idx wt) (replicate (nat (cf_latent c)) 0) s1 of
                None \<Rightarrow> None
              | Some (acc, s2) \<Rightarrow> Some (moe_tail (ma_fpu m) (ma_avx m) c w xt acc, s2)))"

text \<open>The tokens of a chunk, one after the other. A chunk is the list of its token vectors, each \<open>hidden\<close> wide.\<close>

fun k3_moe ::
  "('c, 'q, 'd) Machine \<Rightarrow> K3Cfg \<Rightarrow> ('c, 'q, 'd) K3MoeW \<Rightarrow> f32 list list \<Rightarrow> 'c Run \<Rightarrow> (f32 list list \<times> 'c Run) option" where
  "k3_moe m c w [] s = Some ([], s)"
| "k3_moe m c w (xt # xs) s =
     (case moe_token m c w xt s of
        None \<Rightarrow> None
      | Some (ot, s1) \<Rightarrow>
          (case k3_moe m c w xs s1 of None \<Rightarrow> None | Some (os, s2) \<Rightarrow> Some (ot # os, s2)))"

section \<open>Batched prefill\<close>

text \<open>The experts of the whole chunk in the order they are first selected.\<close>

definition unique_experts :: "nat \<Rightarrow> nat list list \<Rightarrow> nat list" where
  "unique_experts ne routed =
     fold (\<lambda>e uniq. if e < ne \<and> e \<notin> set uniq then uniq @ [e] else uniq) (concat routed) []"

text \<open>
  The contribution buffer: for token \<open>t\<close> and slot \<open>j\<close> the output of the expert selected there, whatever the
  allocation held where no expert was applied.
\<close>

type_synonym contrib = "nat \<Rightarrow> nat \<Rightarrow> f32 list"

definition apply_expert ::
  "('c, 'q, 'd) Machine \<Rightarrow> K3Cfg \<Rightarrow> nat list list \<Rightarrow> f32 list list \<Rightarrow> nat \<Rightarrow> (bytes \<times> bytes) list \<Rightarrow> contrib \<Rightarrow> contrib" where
  "apply_expert m c ridx zz e q buf = (\<lambda>t j.
     if t < length ridx \<and> j < length (ridx ! t) \<and> ridx ! t ! j = e
     then expert_mxfp4 (ma_fpu m) (ma_avx m) c (zz ! t) q else buf t j)"

fun apply_experts ::
  "('c, 'q, 'd) Machine \<Rightarrow> K3Cfg \<Rightarrow> ('c, 'q, 'd) K3MoeW \<Rightarrow> ('c, 'q, 'd) K3ExpertSrc \<Rightarrow> nat list list \<Rightarrow> f32 list list \<Rightarrow>
    nat list \<Rightarrow> contrib \<Rightarrow> 'c Run \<Rightarrow> (contrib \<times> 'c Run) option" where
  "apply_experts m c w src ridx zz [] buf s = Some (buf, s)"
| "apply_experts m c w src ridx zz (e # es) buf s =
     (case moe_get m src (mo_layer w) e s of
        None \<Rightarrow> None
      | Some (None, s') \<Rightarrow> apply_experts m c w src ridx zz es buf s'
      | Some (Some q, s') \<Rightarrow>
          apply_experts m c w src ridx zz es (apply_expert m c ridx zz e (ma_view m (ru_src s') q) buf) s')"

definition combine :: "fpu \<Rightarrow> nat \<Rightarrow> f32 list \<Rightarrow> (nat \<Rightarrow> f32 list) \<Rightarrow> f32 list" where
  "combine F L wt buf = fold (\<lambda>(j, wj) acc. axpy F L wj (buf j) acc) (zip [0..<length wt] wt) (replicate L 0)"

definition moe_prefill_chunk ::
  "('c, 'q, 'd) Machine \<Rightarrow> contrib \<Rightarrow> K3Cfg \<Rightarrow> ('c, 'q, 'd) K3MoeW \<Rightarrow> ('c, 'q, 'd) K3ExpertSrc \<Rightarrow> f32 list list \<Rightarrow> 'c Run \<Rightarrow>
    (f32 list list \<times> 'c Run) option" where
  "moe_prefill_chunk m junk c w src xs s =
     (let F = ma_fpu m; avx = ma_avx m;
          routed = map (route F c w) xs;
          ridx = map fst routed;
          zz = map (\<lambda>xt. k3_mmw F avx xt (mo_down w) (mo_wdt w) (nat (cf_hidden c)) (nat (cf_latent c))) xs;
          uniq = unique_experts (nat (cf_n_experts c)) ridx
      in case moe_prefetch m w uniq s of
           None \<Rightarrow> None
         | Some s1 \<Rightarrow>
             (case apply_experts m c w src ridx zz uniq junk s1 of
                None \<Rightarrow> None
              | Some (buf, s2) \<Rightarrow>
                  Some (map (\<lambda>t. moe_tail F avx c w (xs ! t) (combine F (nat (cf_latent c)) (snd (routed ! t)) (buf t)))
                          [0..<length xs], s2)))"

text \<open>Sub-chunks of 64 tokens; one token alone, the resident bank and the draft take the per-token path.\<close>

function prefill_chunks ::
  "('c, 'q, 'd) Machine \<Rightarrow> contrib \<Rightarrow> K3Cfg \<Rightarrow> ('c, 'q, 'd) K3MoeW \<Rightarrow> ('c, 'q, 'd) K3ExpertSrc \<Rightarrow> f32 list list \<Rightarrow> 'c Run \<Rightarrow>
    (f32 list list \<times> 'c Run) option" where
  "prefill_chunks m junk c w src xs s =
     (if xs = [] then Some ([], s)
      else case (if length (take 64 xs) = 1 then k3_moe m c w (take 64 xs) s
                 else moe_prefill_chunk m junk c w src (take 64 xs) s) of
             None \<Rightarrow> None
           | Some (os, s1) \<Rightarrow>
               (case prefill_chunks m junk c w src (drop 64 xs) s1 of
                  None \<Rightarrow> None | Some (os', s2) \<Rightarrow> Some (os @ os', s2)))"
  by pat_completeness auto
termination by (relation "measure (\<lambda>(m, junk, c, w, src, xs, s). length xs)") auto

declare prefill_chunks.simps [simp del]

definition k3_moe_prefill ::
  "('c, 'q, 'd) Machine \<Rightarrow> bool \<Rightarrow> contrib \<Rightarrow> K3Cfg \<Rightarrow> ('c, 'q, 'd) K3MoeW \<Rightarrow> f32 list list \<Rightarrow> 'c Run \<Rightarrow>
    (f32 list list \<times> 'c Run) option" where
  "k3_moe_prefill m no_batch junk c w xs s =
     (case mo_src w of
        None \<Rightarrow> k3_moe m c w xs s
      | Some src \<Rightarrow> if length xs \<le> 1 \<or> no_batch \<or> mo_cache_only w then k3_moe m c w xs s
                    else prefill_chunks m junk c w src xs s)"

end
