(* ===== verification/K3_Attention.thy ===== *)
theory K3_Attention
  imports K3_Kernels K3_Config
begin

text \<open>
  The two attention layers of \<open>k3_ops.c\<close>: gated MLA with its optional key/value cache, and Kimi Delta Attention
  with its recurrent state. A sequence is the list of its token vectors. The scratch buffers are the
  intermediate values.
\<close>

section \<open>Rows of a flat array\<close>

definition rows :: "nat \<Rightarrow> nat \<Rightarrow> 'a list \<Rightarrow> 'a list list" where
  "rows n w xs = map (\<lambda>t. seg xs (t * w) w) [0..<n]"

section \<open>Gated MLA\<close>

record K3MlaW =
  ml_q_a :: bytes
  ml_q_b :: bytes
  ml_kv_a :: bytes
  ml_kv_b :: bytes
  ml_o :: bytes
  ml_g :: "bytes option"
  ml_q_a_norm :: "f32 list"
  ml_kv_a_norm :: "f32 list"
  ml_wdt :: int

definition mla_query :: "fpu \<Rightarrow> bool \<Rightarrow> K3MlaW \<Rightarrow> K3Cfg \<Rightarrow> f32 list \<Rightarrow> f32 list" where
  "mla_query F avx w c xt =
     (let ql = k3_mmw F avx xt (ml_q_a w) (ml_wdt w) (nat (cf_hidden c)) (nat (cf_q_lora c));
          qn = k3_rmsnorm F ql (ml_q_a_norm w) (nat (cf_q_lora c)) (cf_rms_eps c)
      in k3_mmw F avx qn (ml_q_b w) (ml_wdt w) (nat (cf_q_lora c))
           (nat (cf_n_heads c) * (nat (cf_qk_nope c) + nat (cf_qk_rope c))))"

text \<open>One projection gives the latent and the shared rope slot; the norm covers the latent only.\<close>

definition mla_kv :: "fpu \<Rightarrow> bool \<Rightarrow> K3MlaW \<Rightarrow> K3Cfg \<Rightarrow> f32 list \<Rightarrow> f32 list \<times> f32 list" where
  "mla_kv F avx w c xt =
     (let kl = nat (cf_kv_lora c); qr = nat (cf_qk_rope c);
          ct = k3_mmw F avx xt (ml_kv_a w) (ml_wdt w) (nat (cf_hidden c)) (kl + qr);
          cn = k3_rmsnorm F ct (ml_kv_a_norm w) kl (cf_rms_eps c)
      in (k3_mmw F avx cn (ml_kv_b w) (ml_wdt w) kl
            (nat (cf_n_heads c) * (nat (cf_qk_nope c) + nat (cf_v_head c))),
          seg ct kl qr))"

text \<open>The score of position \<open>s\<close>: the head's nope part against its keys, then the rope part against the shared slot.\<close>

definition mla_score :: "fpu \<Rightarrow> K3Cfg \<Rightarrow> f32 list \<Rightarrow> f32 list \<Rightarrow> f32 list \<Rightarrow> f32" where
  "mla_score F c qt ks kr =
     (let qn = nat (cf_qk_nope c); qr = nat (cf_qk_rope c);
          d = loop qn (\<lambda>i d. dadd F d (dmul F (d_of_f F (qt ! i)) (d_of_f F (ks ! i)))) 0;
          d' = loop qr (\<lambda>i d. dadd F d (dmul F (d_of_f F (qt ! (qn + i))) (d_of_f F (kr ! i)))) d;
          scale = fdiv F f_one (fsqrt F (f_of_int (int (qn + qr))))
      in fmul F (f_of_d F d') scale)"

definition mla_head :: "fpu \<Rightarrow> K3Cfg \<Rightarrow> f32 list \<Rightarrow> f32 list list \<Rightarrow> f32 list list \<Rightarrow> nat \<Rightarrow> nat \<Rightarrow> f32 list" where
  "mla_head F c q kv rope p h =
     (let qn = nat (cf_qk_nope c); qh = qn + nat (cf_qk_rope c); vh = nat (cf_v_head c); kvd = qn + vh;
          qt = seg q (h * qh) qh;
          at = (\<lambda>s. seg (kv ! s) (h * kvd) kvd);
          sc = map (\<lambda>s. mla_score F c qt (at s) (rope ! s)) [0..<p + 1];
          m = fmaxes sc f_ninf;
          e = map (\<lambda>x. fp_expf F (fsub F x m)) sc;
          z = fold (\<lambda>x z. dadd F z (d_of_f F x)) e 0
      in loop (p + 1) (\<lambda>s o'. let pr = f_of_d F (ddiv F (d_of_f F (e ! s)) z)
                              in map (\<lambda>j. fadd F (o' ! j) (fmul F pr (at s ! (qn + j)))) [0..<vh]) (replicate vh 0))"

text \<open>Every head, the output gate before the projection, and no norm.\<close>

definition mla_token ::
  "fpu \<Rightarrow> bool \<Rightarrow> K3MlaW \<Rightarrow> K3Cfg \<Rightarrow> f32 list list \<Rightarrow> f32 list list \<Rightarrow> nat \<Rightarrow> f32 list \<Rightarrow> f32 list" where
  "mla_token F avx w c kv rope p xt =
     (let E = nat (cf_hidden c); n = nat (cf_n_heads c) * nat (cf_v_head c);
          q = mla_query F avx w c xt;
          acc = concat (map (mla_head F c q kv rope p) [0..<nat (cf_n_heads c)]);
          gated = (case ml_g w of
              None \<Rightarrow> acc
            | Some g \<Rightarrow> let gb = k3_mmw F avx xt g (ml_wdt w) E n
                        in map (\<lambda>i. fmul F (acc ! i) (sigmoidf F (gb ! i))) [0..<n])
      in k3_mmw F avx gated (ml_o w) (ml_wdt w) n E)"

text \<open>
  The cache is its rows of keys and values and its rope rows, \<open>cap\<close> of each; a position past the capacity aborts.
  Without a cache the rows of the call are all there is.
\<close>

definition write_rows :: "nat \<Rightarrow> 'a list \<Rightarrow> 'a list \<Rightarrow> 'a list" where
  "write_rows p new old = take p old @ new @ drop (p + length new) old"

definition k3_mla_cached ::
  "fpu \<Rightarrow> bool \<Rightarrow> K3MlaW \<Rightarrow> K3Cfg \<Rightarrow> f32 list list \<Rightarrow> (f32 list list \<times> f32 list list) option \<Rightarrow> nat \<Rightarrow> nat \<Rightarrow>
    (f32 list list \<times> (f32 list list \<times> f32 list list) option) option" where
  "k3_mla_cached F avx w c xs kvc cached cap =
     (let new = map (mla_kv F avx w c) xs
      in case kvc of
           None \<Rightarrow> Some (map (\<lambda>t. mla_token F avx w c (map fst new) (map snd new) t (xs ! t)) [0..<length xs], None)
         | Some (kv, rope) \<Rightarrow>
             if cached + length xs > cap then None
             else let kv' = write_rows cached (map fst new) kv; rope' = write_rows cached (map snd new) rope
                  in Some (map (\<lambda>t. mla_token F avx w c kv' rope' (cached + t) (xs ! t)) [0..<length xs],
                           Some (kv', rope')))"

definition k3_mla :: "fpu \<Rightarrow> bool \<Rightarrow> K3MlaW \<Rightarrow> K3Cfg \<Rightarrow> f32 list list \<Rightarrow> f32 list list" where
  "k3_mla F avx w c xs = (case k3_mla_cached F avx w c xs None 0 0 of Some (os, _) \<Rightarrow> os | None \<Rightarrow> [])"

section \<open>Kimi Delta Attention\<close>

record K3KdaW =
  kw_q :: bytes
  kw_k :: bytes
  kw_v :: bytes
  kw_q_conv :: "f32 list"
  kw_k_conv :: "f32 list"
  kw_v_conv :: "f32 list"
  kw_f_a :: bytes
  kw_f_b :: bytes
  kw_A_log :: "f32 list"
  kw_dt_bias :: "f32 list"
  kw_b :: bytes
  kw_g :: bytes
  kw_o_norm :: "f32 list"
  kw_o :: bytes
  kw_wdt :: int

text \<open>The state of a layer: \<open>H*D*D\<close> recurrent floats, then the three convolution histories.\<close>

record KdaState =
  kd_S :: "f32 list"
  kd_q :: "f32 list"
  kd_k :: "f32 list"
  kd_v :: "f32 list"

text \<open>What one head consumes at one position: scaled query, key, value, decay and \<open>beta\<close>.\<close>

type_synonym kda_in = "f32 list \<times> f32 list \<times> f32 list \<times> f32 list \<times> f32"

definition kda_inputs ::
  "fpu \<Rightarrow> bool \<Rightarrow> K3KdaW \<Rightarrow> K3Cfg \<Rightarrow> f32 list \<Rightarrow> f32 list \<Rightarrow> f32 list \<Rightarrow> f32 list \<Rightarrow> kda_in list" where
  "kda_inputs F avx w c xt qrow krow vrow =
     (let E = nat (cf_hidden c); H = nat (cf_kda_heads c); D = nat (cf_kda_head_dim c); P = H * D;
          bt = k3_mmw F avx xt (kw_b w) (kw_wdt w) E H;
          fa = k3_mmw F avx xt (kw_f_a w) (kw_wdt w) E D;
          z = k3_mmw F avx fa (kw_f_b w) (kw_wdt w) D P;
          al = snd (k3_kda_decay F z (kw_A_log w) (kw_dt_bias w) H D (cf_gate_lb c));
          qscale = fdiv F f_one (fsqrt F (f_of_int (int D)))
      in map (\<lambda>h. (map (\<lambda>x. fmul F x qscale) (l2norm F (seg qrow (h * D) D) D 0x358637BD),
                   l2norm F (seg krow (h * D) D) D 0x358637BD, seg vrow (h * D) D, seg al (h * D) D,
                   sigmoidf F (bt ! h))) [0..<H])"

fun kda_run :: "fpu \<Rightarrow> nat \<Rightarrow> kda_in list \<Rightarrow> f32 list \<Rightarrow> f32 list list \<times> f32 list" where
  "kda_run F D [] S = ([], S)"
| "kda_run F D ((q, k, v, al, beta) # xs) S =
     (case k3_kda_step F S q k v al beta D D of (S1, o') \<Rightarrow>
        case kda_run F D xs S1 of (os, S2) \<Rightarrow> (o' # os, S2))"

text \<open>Head-wise norm, then the gate, then the projection.\<close>

definition kda_output :: "fpu \<Rightarrow> bool \<Rightarrow> K3KdaW \<Rightarrow> K3Cfg \<Rightarrow> f32 list \<Rightarrow> f32 list list \<Rightarrow> f32 list" where
  "kda_output F avx w c xt heads =
     (let E = nat (cf_hidden c); D = nat (cf_kda_head_dim c); P = nat (cf_kda_heads c) * D;
          ot = concat (map (\<lambda>o'. k3_rmsnorm F o' (kw_o_norm w) D (cf_rms_eps c)) heads);
          gb = k3_mmw F avx xt (kw_g w) (kw_wdt w) E P
      in k3_mmw F avx (map (\<lambda>i. fmul F (ot ! i) (sigmoidf F (gb ! i))) [0..<P]) (kw_o w) (kw_wdt w) P E)"

definition kda_project :: "fpu \<Rightarrow> bool \<Rightarrow> K3KdaW \<Rightarrow> K3Cfg \<Rightarrow> bytes \<Rightarrow> f32 list list \<Rightarrow> f32 list" where
  "kda_project F avx w c Wm xs =
     concat (map (\<lambda>xt. k3_mmw F avx xt Wm (kw_wdt w) (nat (cf_hidden c)) (nat (cf_kda_heads c) * nat (cf_kda_head_dim c))) xs)"

definition k3_kda_layer ::
  "fpu \<Rightarrow> bool \<Rightarrow> K3KdaW \<Rightarrow> K3Cfg \<Rightarrow> f32 list list \<Rightarrow> KdaState option \<Rightarrow> f32 list list \<times> KdaState option" where
  "k3_kda_layer F avx w c xs st =
     (let T = length xs; H = nat (cf_kda_heads c); D = nat (cf_kda_head_dim c); P = H * D; K = nat (cf_conv_k c);
          (q, cq) = k3_shortconv F (kda_project F avx w c (kw_q w) xs) (kw_q_conv w) (map_option kd_q st) P K T;
          (k, ck) = k3_shortconv F (kda_project F avx w c (kw_k w) xs) (kw_k_conv w) (map_option kd_k st) P K T;
          (v, cv) = k3_shortconv F (kda_project F avx w c (kw_v w) xs) (kw_v_conv w) (map_option kd_v st) P K T;
          ins = map (\<lambda>(xt, qr, kr, vr). kda_inputs F avx w c xt qr kr vr) (zip xs (zip (rows T P q) (zip (rows T P k) (rows T P v))));
          S = (case st of Some s \<Rightarrow> kd_S s | None \<Rightarrow> replicate (H * D * D) 0);
          run = (\<lambda>h. kda_run F D (map (\<lambda>tok. tok ! h) ins) (seg S (h * (D * D)) (D * D)))
      in (map (\<lambda>t. kda_output F avx w c (xs ! t) (map (\<lambda>h. fst (run h) ! t) [0..<H])) [0..<T],
          map_option (\<lambda>_. \<lparr>kd_S = concat (map (\<lambda>h. snd (run h)) [0..<H]), kd_q = the cq, kd_k = the ck, kd_v = the cv\<rparr>) st))"

end
