(* ===== verification/K3_Decoder.thy ===== *)
theory K3_Decoder
  imports K3_Moe K3_Attention
begin

text \<open>
  One decoder layer of \<open>k3_ops.c\<close>, and the forward pass over the bound layers as \<open>k3_run.c\<close> and the agent's
  \<open>k3_engine.c\<close> make it: embedding, layers, the model-level aggregator, final norm and logits.
\<close>

section \<open>Weights\<close>

record ('c, 'q, 'd) K3LayerW =
  ly_in_norm :: "f32 list"
  ly_post_norm :: "f32 list"
  ly_attn_res_norm :: "f32 list"
  ly_attn_res_proj :: "f32 list"
  ly_mlp_res_norm :: "f32 list"
  ly_mlp_res_proj :: "f32 list"
  ly_kda :: "K3KdaW option"
  ly_mla :: "K3MlaW option"
  ly_moe :: "('c, 'q, 'd) K3MoeW option"
  ly_dense_gate :: bytes
  ly_dense_up :: bytes
  ly_dense_down :: bytes
  ly_wdt :: int

definition vmul :: "fpu \<Rightarrow> nat \<Rightarrow> f32 list \<Rightarrow> f32 list \<Rightarrow> f32 list" where
  "vmul F n a b = map (\<lambda>i. fmul F (a ! i) (b ! i)) [0..<n]"

definition vadd :: "fpu \<Rightarrow> nat \<Rightarrow> f32 list \<Rightarrow> f32 list \<Rightarrow> f32 list" where
  "vadd F n a b = map (\<lambda>i. fadd F (a ! i) (b ! i)) [0..<n]"

section \<open>The decoder layer\<close>

text \<open>
  A token carries its residual and its stack of snapshots, one per block boundary passed; the stacks of all
  tokens have the same height \<open>n_blocks\<close>. Before attention the stack is mixed in only when it is not empty.
\<close>

type_synonym token = "f32 list \<times> f32 list list"

definition mix_before :: "fpu \<Rightarrow> K3Cfg \<Rightarrow> ('c, 'q, 'd) K3LayerW \<Rightarrow> token \<Rightarrow> f32 list" where
  "mix_before F c w = (\<lambda>(pref, blocks).
     let E = nat (cf_hidden c)
     in if blocks = [] then pref
        else k3_attn_res F (blocks @ [pref]) (vmul F E (ly_attn_res_norm w) (ly_attn_res_proj w)) E (cf_rms_eps c))"

text \<open>At a boundary the running residual is pushed and cleared.\<close>

definition boundary :: "K3Cfg \<Rightarrow> int \<Rightarrow> bool" where
  "boundary c layer_idx \<longleftrightarrow> layer_idx mod cf_attn_res_block c = 0"

definition after_attention :: "fpu \<Rightarrow> K3Cfg \<Rightarrow> int \<Rightarrow> token \<Rightarrow> f32 list \<Rightarrow> token" where
  "after_attention F c layer_idx = (\<lambda>(pref, blocks) tmp.
     if boundary c layer_idx then (tmp, blocks @ [pref]) else (vadd F (nat (cf_hidden c)) pref tmp, blocks))"

text \<open>The mix before the MLP has no emptiness guard.\<close>

definition mlp_input :: "fpu \<Rightarrow> K3Cfg \<Rightarrow> ('c, 'q, 'd) K3LayerW \<Rightarrow> token \<Rightarrow> f32 list" where
  "mlp_input F c w = (\<lambda>(pref, blocks).
     let E = nat (cf_hidden c);
         h = k3_attn_res F (blocks @ [pref]) (vmul F E (ly_mlp_res_norm w) (ly_mlp_res_proj w)) E (cf_rms_eps c)
     in k3_rmsnorm F h (ly_post_norm w) E (cf_rms_eps c))"

type_synonym kv_rows = "f32 list list \<times> f32 list list"

definition attention ::
  "fpu \<Rightarrow> bool \<Rightarrow> K3Cfg \<Rightarrow> ('c, 'q, 'd) K3LayerW \<Rightarrow> f32 list list \<Rightarrow> KdaState option \<Rightarrow> kv_rows option \<Rightarrow> nat \<Rightarrow> nat \<Rightarrow>
    (f32 list list \<times> KdaState option \<times> kv_rows option) option" where
  "attention F avx c w hin st kvc cached cap =
     (case ly_kda w of
        Some kda \<Rightarrow> (case k3_kda_layer F avx kda c hin st of (tmp, st') \<Rightarrow> Some (tmp, st', kvc))
      | None \<Rightarrow>
          (case ly_mla w of
             None \<Rightarrow> None
           | Some mla \<Rightarrow> map_option (\<lambda>(tmp, kvc'). (tmp, st, kvc')) (k3_mla_cached F avx mla c hin kvc cached cap)))"

definition layer_attention ::
  "fpu \<Rightarrow> bool \<Rightarrow> K3Cfg \<Rightarrow> ('c, 'q, 'd) K3LayerW \<Rightarrow> int \<Rightarrow> token list \<Rightarrow> KdaState option \<Rightarrow> kv_rows option \<Rightarrow> nat \<Rightarrow> nat \<Rightarrow>
    (token list \<times> KdaState option \<times> kv_rows option) option" where
  "layer_attention F avx c w layer_idx toks st kvc cached cap =
     (let E = nat (cf_hidden c);
          hin = map (\<lambda>t. k3_rmsnorm F (mix_before F c w t) (ly_in_norm w) E (cf_rms_eps c)) toks
      in map_option (\<lambda>(tmp, st', kvc'). (map2 (after_attention F c layer_idx) toks tmp, st', kvc'))
           (attention F avx c w hin st kvc cached cap))"

definition dense_mlp :: "fpu \<Rightarrow> bool \<Rightarrow> K3Cfg \<Rightarrow> ('c, 'q, 'd) K3LayerW \<Rightarrow> f32 list \<Rightarrow> f32 list" where
  "dense_mlp F avx c w x =
     (let E = nat (cf_hidden c); I = nat (cf_dense_inter c);
          gu = k3_mmw F avx x (ly_dense_gate w) (ly_wdt w) E I @ k3_mmw F avx x (ly_dense_up w) (ly_wdt w) E I;
          act = k3_situ_glu F gu I (cf_situ_b1 c) (cf_situ_b2 c)
      in k3_mmw F avx act (ly_dense_down w) (ly_wdt w) I E)"

definition layer_mlp ::
  "('c, 'q, 'd) Machine \<Rightarrow> bool \<Rightarrow> contrib \<Rightarrow> K3Cfg \<Rightarrow> ('c, 'q, 'd) K3LayerW \<Rightarrow> f32 list list \<Rightarrow> 'c Run \<Rightarrow>
    (f32 list list \<times> 'c Run) option" where
  "layer_mlp m no_batch junk c w hin s =
     (case ly_moe w of
        Some moe \<Rightarrow> k3_moe_prefill m no_batch junk c moe hin s
      | None \<Rightarrow> Some (map (dense_mlp (ma_fpu m) (ma_avx m) c w) hin, s))"

definition k3_decoder_layer_inc ::
  "('c, 'q, 'd) Machine \<Rightarrow> bool \<Rightarrow> contrib \<Rightarrow> K3Cfg \<Rightarrow> ('c, 'q, 'd) K3LayerW \<Rightarrow> int \<Rightarrow> token list \<Rightarrow> KdaState option \<Rightarrow>
    kv_rows option \<Rightarrow> nat \<Rightarrow> nat \<Rightarrow> 'c Run \<Rightarrow> (token list \<times> KdaState option \<times> kv_rows option \<times> 'c Run) option" where
  "k3_decoder_layer_inc m no_batch junk c w layer_idx toks st kvc cached cap s =
     (case layer_attention (ma_fpu m) (ma_avx m) c w layer_idx toks st kvc cached cap of
        None \<Rightarrow> None
      | Some (toks1, st', kvc') \<Rightarrow>
          map_option (\<lambda>(tmp, s'). (map2 (\<lambda>(pref, blocks) t. (vadd (ma_fpu m) (nat (cf_hidden c)) pref t, blocks)) toks1 tmp,
              st', kvc', s'))
            (layer_mlp m no_batch junk c w (map (mlp_input (ma_fpu m) c w) toks1) s))"

definition k3_decoder_layer ::
  "('c, 'q, 'd) Machine \<Rightarrow> bool \<Rightarrow> contrib \<Rightarrow> K3Cfg \<Rightarrow> ('c, 'q, 'd) K3LayerW \<Rightarrow> int \<Rightarrow> token list \<Rightarrow> KdaState option \<Rightarrow>
    'c Run \<Rightarrow> (token list \<times> KdaState option \<times> 'c Run) option" where
  "k3_decoder_layer m no_batch junk c w layer_idx toks st s =
     map_option (\<lambda>(toks', st', kvc', s'). (toks', st', s'))
       (k3_decoder_layer_inc m no_batch junk c w layer_idx toks st None 0 0 s)"

section \<open>The forward pass\<close>

text \<open>\<open>k3_embed_row\<close>: a bf16 table is widened, any other is copied.\<close>

definition k3_embed_row :: "bytes \<Rightarrow> int \<Rightarrow> nat \<Rightarrow> nat \<Rightarrow> f32 list" where
  "k3_embed_row table wdt row hidden =
     (if wdt = K3_WBF16 then map (\<lambda>i. k3_bf16f (u16_at table (row * hidden + i))) [0..<hidden]
      else map (\<lambda>i. u32_at table (4 * (row * hidden + i))) [0..<hidden])"

record ('c, 'q, 'd) Weights =
  we_lay :: "('c, 'q, 'd) K3LayerW list"
  we_embed :: bytes
  we_lm_head :: bytes
  we_norm :: "f32 list"
  we_out_res :: "(f32 list \<times> f32 list) option"
  we_wdt :: int
  we_kv_cap :: nat
  we_draft_mode :: bool

text \<open>
  What is carried from step to step: the KDA state of every bound layer, and with a cache the rows of the MLA
  layers; the dense numbering of the MLA slices is the layer's own entry here.
\<close>

record Carry =
  ca_ks :: "KdaState list"
  ca_kv :: "kv_rows list option"
  ca_cached :: nat

definition kda_zero :: "K3Cfg \<Rightarrow> KdaState" where
  "kda_zero c =
     (let H = nat (cf_kda_heads c); D = nat (cf_kda_head_dim c); n = H * D * (nat (cf_conv_k c) - 1)
      in \<lparr>kd_S = replicate (H * (D * D)) 0, kd_q = replicate n 0, kd_k = replicate n 0, kd_v = replicate n 0\<rparr>)"

text \<open>The state an incremental run starts from: everything cleared, a cache of \<open>kv_cap\<close> rows.\<close>

definition kv_width :: "K3Cfg \<Rightarrow> nat" where
  "kv_width c = nat (cf_n_heads c) * (nat (cf_qk_nope c) + nat (cf_v_head c))"

definition fresh_carry :: "K3Cfg \<Rightarrow> ('c, 'q, 'd) Weights \<Rightarrow> Carry" where
  "fresh_carry c w =
     (let n = length (we_lay w); cap = we_kv_cap w
      in \<lparr>ca_ks = replicate n (kda_zero c),
          ca_kv = Some (replicate n (replicate cap (replicate (kv_width c) 0),
                                     replicate cap (replicate (nat (cf_qk_rope c)) 0))),
          ca_cached = 0\<rparr>)"

text \<open>The layer with its mixture pointed at the expert source.\<close>

definition point_at ::
  "('c, 'q, 'd) K3ExpertSrc \<Rightarrow> bool \<Rightarrow> int \<Rightarrow> ('c, 'q, 'd) K3LayerW \<Rightarrow> ('c, 'q, 'd) K3LayerW" where
  "point_at src draft L w =
     w\<lparr>ly_moe := map_option (\<lambda>x. x\<lparr>mo_src := Some src, mo_layer := L, mo_cache_only := draft\<rparr>) (ly_moe w)\<rparr>"

text \<open>The layers from \<open>L\<close> on, each with its own state and rows; only an MLA layer sees a cache.\<close>

fun run_layers ::
  "('c, 'q, 'd) Machine \<Rightarrow> bool \<Rightarrow> contrib \<Rightarrow> K3Cfg \<Rightarrow> nat \<Rightarrow> nat \<Rightarrow> nat \<Rightarrow> ('c, 'q, 'd) K3LayerW list \<Rightarrow> token list \<Rightarrow>
    KdaState list \<Rightarrow> kv_rows option list \<Rightarrow> 'c Run \<Rightarrow> (token list \<times> KdaState list \<times> kv_rows option list \<times> 'c Run) option" where
  "run_layers m nb junk c cached cap L (w # ws) toks (st # sts) (kv # kvs) s =
     (let kvc = (if k3_is_mla c (int L) then kv else None)
      in case k3_decoder_layer_inc m nb junk c w (int L) toks (Some st) kvc cached cap s of
           None \<Rightarrow> None
         | Some (toks1, st1, kv1, s1) \<Rightarrow>
             (case run_layers m nb junk c cached cap (Suc L) ws toks1 sts kvs s1 of
                None \<Rightarrow> None
              | Some (toks2, sts2, kvs2, s2) \<Rightarrow>
                  Some (toks2, the st1 # sts2, (if k3_is_mla c (int L) then kv1 else kv) # kvs2, s2)))"
| "run_layers m nb junk c cached cap L _ toks sts kvs s = Some (toks, sts, kvs, s)"

definition aggregate :: "fpu \<Rightarrow> K3Cfg \<Rightarrow> ('c, 'q, 'd) Weights \<Rightarrow> token \<Rightarrow> f32 list" where
  "aggregate F c w = (\<lambda>(h, blocks).
     case we_out_res w of
       None \<Rightarrow> h
     | Some (nrm, proj) \<Rightarrow>
         let E = nat (cf_hidden c) in k3_attn_res F (blocks @ [h]) (vmul F E nrm proj) E (cf_rms_eps c))"

definition logits :: "fpu \<Rightarrow> bool \<Rightarrow> K3Cfg \<Rightarrow> ('c, 'q, 'd) Weights \<Rightarrow> token \<Rightarrow> f32 list" where
  "logits F avx c w t =
     (let E = nat (cf_hidden c)
      in k3_mmw F avx (k3_rmsnorm F (aggregate F c w t) (we_norm w) E (cf_rms_eps c)) (we_lm_head w) (we_wdt w) E
           (nat (cf_vocab c)))"

text \<open>
  \<open>forward\<close>: without a cache the KDA states start from zero; with one they continue. The logits of every position
  are given, of which the plain path computes the last only.
\<close>

definition forward ::
  "('c, 'q, 'd) Machine \<Rightarrow> bool \<Rightarrow> contrib \<Rightarrow> K3Cfg \<Rightarrow> ('c, 'q, 'd) Weights \<Rightarrow> ('c, 'q, 'd) K3ExpertSrc \<Rightarrow> nat list \<Rightarrow> Carry \<Rightarrow>
    'c Run \<Rightarrow> (f32 list list \<times> Carry \<times> 'c Run) option" where
  "forward m nb junk c w src ids ca s =
     (let toks = map (\<lambda>i. (k3_embed_row (we_embed w) (we_wdt w) i (nat (cf_hidden c)), [])) ids;
          n = length (we_lay w);
          ks = (case ca_kv ca of None \<Rightarrow> replicate n (kda_zero c) | Some _ \<Rightarrow> ca_ks ca);
          kvs = (case ca_kv ca of None \<Rightarrow> replicate n None | Some kv \<Rightarrow> map Some kv);
          lays = map (\<lambda>L. point_at src (we_draft_mode w) (int L) (we_lay w ! L)) [0..<n]
      in map_option (\<lambda>(toks', ks', kvs', s').
             (map (logits (ma_fpu m) (ma_avx m) c w) toks',
              ca\<lparr>ca_ks := ks', ca_kv := map_option (\<lambda>_. map the kvs') (ca_kv ca)\<rparr>, s'))
           (run_layers m nb junk c (ca_cached ca) (we_kv_cap w) 0 lays toks ks kvs s))"

definition argmax :: "f32 list \<Rightarrow> nat" where
  "argmax v = fold (\<lambda>i b. if fless (v ! b) (v ! i) then i else b) [1..<length v] 0"

end
