(* ===== verification/K3_Generate.thy ===== *)
theory K3_Generate
  imports K3_Decoder
begin

text \<open>
  The generation loop of \<open>k3_run.c\<close>: full recompute, incremental decode, drafting from the sequence's own n-grams or
  by a second model, batched verification with restore and replay, and what is appended to the sequence.
  A forward pass is an argument: the exact model's, and where there is one the draft model's.
\<close>

section \<open>Drafts from n-grams\<close>

definition K3_SPEC_MAX :: nat where
  "K3_SPEC_MAX = 8"

text \<open>The \<open>n\<close> ids at \<open>j\<close> are the last \<open>n\<close> ids of the sequence.\<close>

definition suffix_at :: "nat list \<Rightarrow> nat \<Rightarrow> nat \<Rightarrow> bool" where
  "suffix_at sq n j = list_all (\<lambda>i. sq ! (j + i) = sq ! (length sq - n + i)) [0..<n]"

definition agreed :: "nat list \<Rightarrow> nat \<Rightarrow> nat \<Rightarrow> nat option \<Rightarrow> nat \<Rightarrow> bool" where
  "agreed sq n m1 m2 i = (case m2 of None \<Rightarrow> True | Some m \<Rightarrow> m + n + i < m1 \<and> sq ! (m + n + i) = sq ! (m1 + n + i))"

text \<open>What followed the most recent earlier occurrence, as far as the one before it agrees.\<close>

definition ngram_draft :: "nat list \<Rightarrow> nat \<Rightarrow> nat \<Rightarrow> nat list" where
  "ngram_draft sq cap n =
     (if length sq < n + 1 then []
      else case filter (suffix_at sq n) (rev [0..<length sq - n]) of
             [] \<Rightarrow> []
           | m1 # older \<Rightarrow>
               map (\<lambda>i. sq ! (m1 + n + i))
                 (takeWhile (agreed sq n m1 (case older of [] \<Rightarrow> None | m2 # _ \<Rightarrow> Some m2)) [0..<min cap (length sq - (m1 + n))]))"

definition spec_draft :: "nat list \<Rightarrow> nat \<Rightarrow> nat list" where
  "spec_draft sq cap =
     (let k = min cap K3_SPEC_MAX; d4 = ngram_draft sq k 4 in if d4 \<noteq> [] then d4 else ngram_draft sq k 3)"

section \<open>One step\<close>

type_synonym 'r fwd = "nat list \<Rightarrow> Carry \<Rightarrow> 'r \<Rightarrow> (f32 list list \<times> Carry \<times> 'r) option"

record 'r Gen =
  ge_seq :: "nat list"
  ge_out :: "nat list"
  ge_ca :: Carry
  ge_dr :: Carry
  ge_run :: 'r

record GenOpt =
  go_gen :: nat
  go_tmax :: nat
  go_kv_cap :: nat
  go_incremental :: bool
  go_spec_n :: nat
  go_resumed :: bool

text \<open>A pass over \<open>ids\<close>, after which \<open>cached\<close> is set.\<close>

definition feed :: "'r fwd \<Rightarrow> nat list \<Rightarrow> nat \<Rightarrow> Carry \<Rightarrow> 'r \<Rightarrow> (f32 list list \<times> Carry \<times> 'r) option" where
  "feed fw ids n ca r = map_option (\<lambda>(lg, ca', r'). (lg, ca'\<lparr>ca_cached := n\<rparr>, r')) (fw ids ca r)"

definition resync :: "'r fwd option \<Rightarrow> nat list \<Rightarrow> nat \<Rightarrow> Carry \<Rightarrow> 'r \<Rightarrow> (Carry \<times> 'r) option" where
  "resync draft ids n dca r =
     (case draft of None \<Rightarrow> Some (dca, r) | Some dfw \<Rightarrow> map_option snd (feed dfw ids n dca r))"

text \<open>Step 0 feeds all that is not consumed yet; a resumed run replays the whole sequence through the draft model.\<close>

definition first_step :: "GenOpt \<Rightarrow> 'r fwd \<Rightarrow> 'r fwd option \<Rightarrow> 'r Gen \<Rightarrow> (nat list \<times> 'r Gen) option" where
  "first_step opt fw draft g =
     (let sq = ge_seq g; base = ca_cached (ge_ca g)
      in case feed fw (drop base sq) (length sq) (ge_ca g) (ge_run g) of
           None \<Rightarrow> None
         | Some (lg, ca, r) \<Rightarrow>
             map_option (\<lambda>(dca, r'). ([argmax (last lg)], g\<lparr>ge_ca := ca, ge_dr := dca, ge_run := r'\<rparr>))
               (resync draft (drop (if go_resumed opt then 0 else base) sq) (length sq) (ge_dr g) r))"

text \<open>The draft model proposes by chaining its own choices; a pass that fails ends the chain.\<close>

fun draft_chain :: "'r fwd \<Rightarrow> nat \<Rightarrow> nat \<Rightarrow> Carry \<Rightarrow> 'r \<Rightarrow> nat list \<times> Carry \<times> 'r" where
  "draft_chain dfw 0 prev dca r = ([], dca, r)"
| "draft_chain dfw (Suc n) prev dca r =
     (case feed dfw [prev] (ca_cached dca + 1) dca r of
        None \<Rightarrow> ([], dca, r)
      | Some (lg, dca', r') \<Rightarrow>
          (case draft_chain dfw n (argmax (last lg)) dca' r' of (d, dca2, r2) \<Rightarrow> (argmax (last lg) # d, dca2, r2)))"

definition propose :: "GenOpt \<Rightarrow> 'r fwd option \<Rightarrow> 'r Gen \<Rightarrow> nat list \<times> Carry \<times> 'r" where
  "propose opt draft g =
     (let sq = ge_seq g; base = ca_cached (ge_ca g); k = go_spec_n opt
      in if 0 < k \<and> length sq + k + 1 < go_tmax opt \<and> base + k + 1 \<le> go_kv_cap opt
         then (case draft of
                 Some dfw \<Rightarrow> draft_chain dfw k (sq ! base) (ge_dr g) (ge_run g)
               | None \<Rightarrow> (spec_draft sq k, ge_dr g, ge_run g))
         else ([], ge_dr g, ge_run g))"

text \<open>The length of the accepted prefix.\<close>

definition accepted :: "nat list \<Rightarrow> nat list \<Rightarrow> nat" where
  "accepted arg d = length (takeWhile (\<lambda>(a, b). a = b) (zip arg d))"

text \<open>
  One sweep verifies the pending id and the drafts. A partial acceptance restores the recurrent state and replays
  the accepted prefix; the rows of the rejected positions stay behind in the cache.
\<close>

definition replay :: "'r fwd \<Rightarrow> nat list \<Rightarrow> nat \<Rightarrow> nat \<Rightarrow> nat \<Rightarrow> Carry \<Rightarrow> Carry \<Rightarrow> 'r \<Rightarrow> (Carry \<times> 'r) option" where
  "replay fw ids base nd m ca ca1 r =
     (if m = nd then Some (ca1\<lparr>ca_cached := base + nd + 1\<rparr>, r)
      else map_option snd (feed fw (take (m + 1) ids) (base + m + 1) (ca1\<lparr>ca_ks := ca_ks ca, ca_cached := base\<rparr>) r))"

definition redraft :: "'r fwd option \<Rightarrow> nat list \<Rightarrow> nat list \<Rightarrow> nat \<Rightarrow> nat \<Rightarrow> Carry \<Rightarrow> Carry \<Rightarrow> 'r \<Rightarrow> (Carry \<times> 'r) option" where
  "redraft draft ids d base m dca dca1 r =
     (if m = length d then resync draft [last d] (ca_cached dca1 + 1) dca1 r
      else resync draft (take (m + 1) ids) (base + m + 1)
             (case draft of None \<Rightarrow> dca1 | Some _ \<Rightarrow> dca1\<lparr>ca_ks := ca_ks dca, ca_cached := base\<rparr>) r)"

definition verify_drafts :: "'r fwd \<Rightarrow> 'r fwd option \<Rightarrow> nat list \<Rightarrow> Carry \<Rightarrow> 'r \<Rightarrow> 'r Gen \<Rightarrow> (nat list \<times> 'r Gen) option" where
  "verify_drafts fw draft d dca r g =
     (let base = ca_cached (ge_ca g); nd = length d; ids = take (nd + 1) (drop base (ge_seq g @ d))
      in case fw ids (ge_ca g) r of
           None \<Rightarrow> None
         | Some (lg, ca1, r1) \<Rightarrow>
             let arg = map argmax lg; m = accepted arg d
             in case replay fw ids base nd m (ge_ca g) ca1 r1 of
                  None \<Rightarrow> None
                | Some (ca2, r2) \<Rightarrow>
                    map_option (\<lambda>(dca2, r3). (take m d @ [arg ! m], g\<lparr>ge_ca := ca2, ge_dr := dca2, ge_run := r3\<rparr>))
                      (redraft draft ids d base m (ge_dr g) dca r2))"

definition plain_step :: "'r fwd \<Rightarrow> 'r fwd option \<Rightarrow> Carry \<Rightarrow> 'r \<Rightarrow> 'r Gen \<Rightarrow> (nat list \<times> 'r Gen) option" where
  "plain_step fw draft dca r g =
     (let base = ca_cached (ge_ca g); ids = take 1 (drop base (ge_seq g))
      in case feed fw ids (base + 1) (ge_ca g) r of
           None \<Rightarrow> None
         | Some (lg, ca, r1) \<Rightarrow>
             map_option (\<lambda>(dca', r2). ([argmax (last lg)], g\<lparr>ge_ca := ca, ge_dr := dca', ge_run := r2\<rparr>))
               (resync draft ids (base + 1) dca r1))"

definition full_step :: "'r fwd \<Rightarrow> 'r Gen \<Rightarrow> (nat list \<times> 'r Gen) option" where
  "full_step fw g =
     map_option (\<lambda>(lg, ca, r). ([argmax (last lg)], g\<lparr>ge_ca := ca, ge_run := r\<rparr>)) (fw (ge_seq g) (ge_ca g) (ge_run g))"

definition gen_step :: "GenOpt \<Rightarrow> ('r \<Rightarrow> 'r) \<Rightarrow> 'r fwd \<Rightarrow> 'r fwd option \<Rightarrow> bool \<Rightarrow> 'r Gen \<Rightarrow> (nat list \<times> 'r Gen) option" where
  "gen_step opt reset fw draft first g =
     (let g = g\<lparr>ge_run := reset (ge_run g)\<rparr>
      in if go_incremental opt \<and> first then first_step opt fw draft g
         else if go_incremental opt
         then (case propose opt draft g of
                 (d, dca, r) \<Rightarrow> if d \<noteq> [] then verify_drafts fw draft d dca r g else plain_step fw draft dca r g)
         else full_step fw g)"

section \<open>The loop\<close>

text \<open>Emitted ids are appended while both the request and the buffer have room.\<close>

definition push_out :: "GenOpt \<Rightarrow> nat list \<Rightarrow> 'r Gen \<Rightarrow> 'r Gen" where
  "push_out opt emit g =
     (let new = take (min (go_gen opt - length (ge_out g)) (go_tmax opt - length (ge_seq g))) emit
      in g\<lparr>ge_seq := ge_seq g @ new, ge_out := ge_out g @ new\<rparr>)"

lemma step_keeps:
  assumes "gen_step opt reset fw draft first g = Some (emit, g')"
  shows "emit \<noteq> []" "ge_out g' = ge_out g" "ge_seq g' = ge_seq g"
  using assms
  by (auto simp: gen_step_def first_step_def verify_drafts_def plain_step_def full_step_def Let_def
      split: option.splits if_splits prod.splits)

function generate :: "GenOpt \<Rightarrow> ('r \<Rightarrow> 'r) \<Rightarrow> 'r fwd \<Rightarrow> 'r fwd option \<Rightarrow> bool \<Rightarrow> 'r Gen \<Rightarrow> 'r Gen option" where
  "generate opt reset fw draft first g =
     (if \<not> length (ge_out g) < go_gen opt then Some g
      else case gen_step opt reset fw draft first g of
             None \<Rightarrow> None
           | Some (emit, g1) \<Rightarrow>
               let g2 = push_out opt emit g1
               in if length (ge_seq g2) \<ge> go_tmax opt then Some g2 else generate opt reset fw draft False g2)"
  by pat_completeness auto
termination
proof (relation "measure (\<lambda>(opt, reset, fw, draft, first, g). go_gen opt - length (ge_out g))", goal_cases)
  case (2 opt reset fw draft first g a emit g1 g2)
  have "gen_step opt reset fw draft first g = Some (emit, g1)" using 2(2,3) by simp
  note k = step_keeps [OF this]
  let ?k = "min (go_gen opt - length (ge_out g)) (go_tmax opt - length (ge_seq g))"
  have g2: "length (ge_seq g2) = length (ge_seq g) + min (length emit) ?k" "length (ge_out g2) = length (ge_out g) + min (length emit) ?k"
    using k(2,3) 2(4) by (simp_all add: push_out_def Let_def)
  then have "0 < ?k" "0 < length emit" using 2(1,5) k(1) by auto
  then have "0 < min (length emit) ?k" by simp
  then have "length (ge_out g) < length (ge_out g2)" unfolding g2(2) by linarith
  then show ?case using 2(1) by simp
qed simp

declare generate.simps [simp del]

section \<open>On the streamed model\<close>

text \<open>The statistics of the expert source are cleared before every step; both models read through the same source.\<close>

definition reset_run :: "K3Cache Run \<Rightarrow> K3Cache Run" where
  "reset_run s = s\<lparr>ru_src := k3_cache_reset_stats (ru_src s)\<rparr>"

definition generate_run ::
  "(K3Cache, 'q, 'd) Machine \<Rightarrow> bool \<Rightarrow> contrib \<Rightarrow> K3Cfg \<Rightarrow> (K3Cache, 'q, 'd) Weights \<Rightarrow> (K3Cache, 'q, 'd) Weights option \<Rightarrow>
    (K3Cache, 'q, 'd) K3ExpertSrc \<Rightarrow> GenOpt \<Rightarrow> K3Cache Run Gen \<Rightarrow> K3Cache Run Gen option" where
  "generate_run m nb junk c w dw src opt g =
     generate opt reset_run (forward m nb junk c w src) (map_option (\<lambda>w. forward m nb junk c w src) dw) True g"

end
