(* ===== verification/K3_Attention_Laws.thy ===== *)
theory K3_Attention_Laws
  imports K3_Attention
begin

text \<open>
  Both attention layers may be fed a sequence in pieces: feeding the pieces in order, carrying the cache or the
  state, gives the outputs and the final state of feeding it whole.
\<close>

section \<open>Rows\<close>

lemma length_rows [simp]: "length (rows n k xs) = n"
  by (simp add: rows_def)

lemma nth_rows: "t < n \<Longrightarrow> rows n k xs ! t = seg xs (t * k) k"
  by (simp add: rows_def)

lemma rows_append: "length a = n * k \<Longrightarrow> rows (n + m) k (a @ b) = rows n k a @ rows m k b"
proof (rule nth_equalityI)
  fix t assume a: "length a = n * k" and t: "t < length (rows (n + m) k (a @ b))"
  show "rows (n + m) k (a @ b) ! t = (rows n k a @ rows m k b) ! t"
  proof (cases "t < n")
    case True
    then have "t * k + k \<le> length a" using a by (metis Suc_leI add.commute mult_Suc mult_le_mono1)
    then show ?thesis using True t by (simp add: nth_append nth_rows seg_def)
  next
    case False
    then have "t * k = length a + (t - n) * k" using a by (simp flip: add_mult_distrib)
    then show ?thesis using False t by (simp add: nth_append nth_rows seg_def)
  qed
qed simp

lemma concat_rows_mat: "mat n k f = concat (map (\<lambda>i. map (f i) [0..<k]) [0..<n])"
  by (simp add: mat_def)

lemma seg_concat:
  assumes "i < n" "\<And>j. j < n \<Longrightarrow> length (f j) = k"
  shows "seg (concat (map f [0..<n])) (i * k) k = f i"
proof -
  have len: "length (concat (map f [0..<m])) = m * k" if "m \<le> n" for m
    using that assms(2) by (induction m) auto
  have "[0..<n] = [0..<i] @ i # [Suc i..<n]" using assms(1) by (metis upt_add_eq_append upt_conv_Cons le_add_diff_inverse less_imp_le zero_le)
  then have "concat (map f [0..<n]) = concat (map f [0..<i]) @ f i @ concat (map f [Suc i..<n])" by simp
  then show ?thesis using assms len [of i] by (simp add: seg_def)
qed

section \<open>The cache of MLA\<close>

lemma length_write_rows: "p + length new \<le> length old \<Longrightarrow> length (write_rows p new old) = length old"
  by (simp add: write_rows_def)

lemma write_rows_append:
  "p + length a \<le> length old \<Longrightarrow> write_rows (p + length a) b (write_rows p a old) = write_rows p (a @ b) old"
  by (simp add: write_rows_def ac_simps)

lemma write_rows_nth:
  "p \<le> length old \<Longrightarrow> s < p + length new \<Longrightarrow> write_rows p new old ! s = (if s < p then old ! s else new ! (s - p))"
  by (auto simp: write_rows_def nth_append)

text \<open>A position attends to itself and to the positions before it, and to nothing else.\<close>

lemma mla_head_cong:
  assumes "\<And>s. s \<le> p \<Longrightarrow> kv ! s = kv' ! s" "\<And>s. s \<le> p \<Longrightarrow> rope ! s = rope' ! s"
  shows "mla_head F c q kv rope p h = mla_head F c q kv' rope' p h"
proof -
  have sc: "map (\<lambda>s. mla_score F c qt (seg (kv ! s) i n) (rope ! s)) [0..<p + 1] =
      map (\<lambda>s. mla_score F c qt (seg (kv' ! s) i n) (rope' ! s)) [0..<p + 1]" for qt i n
    using assms by (intro map_cong) auto
  show ?thesis unfolding mla_head_def Let_def sc by (rule loop_cong) (use assms(1) in simp)
qed

lemma mla_token_cong:
  assumes "\<And>s. s \<le> p \<Longrightarrow> kv ! s = kv' ! s" "\<And>s. s \<le> p \<Longrightarrow> rope ! s = rope' ! s"
  shows "mla_token F avx w c kv rope p xt = mla_token F avx w c kv' rope' p xt"
  unfolding mla_token_def using mla_head_cong [OF assms] by presburger

lemma mla_split:
  assumes "length kv = cap" "length rope = cap" "cached + length xs + length ys \<le> cap"
    and "k3_mla_cached F avx w c xs (Some (kv, rope)) cached cap = Some (a, kvc1)"
    and "k3_mla_cached F avx w c ys kvc1 (cached + length xs) cap = Some (b, kvc2)"
  shows "k3_mla_cached F avx w c (xs @ ys) (Some (kv, rope)) cached cap = Some (a @ b, kvc2)"
proof -
  let ?new = "map (mla_kv F avx w c)"
  define kv1 where "kv1 = write_rows cached (map fst (?new xs)) kv"
  define rope1 where "rope1 = write_rows cached (map snd (?new xs)) rope"
  define kv2 where "kv2 = write_rows (cached + length xs) (map fst (?new ys)) kv1"
  define rope2 where "rope2 = write_rows (cached + length xs) (map snd (?new ys)) rope1"
  have all: "kv2 = write_rows cached (map fst (?new (xs @ ys))) kv" "rope2 = write_rows cached (map snd (?new (xs @ ys))) rope"
    using write_rows_append [of cached "map fst (?new xs)" kv "map fst (?new ys)"]
      write_rows_append [of cached "map snd (?new xs)" rope "map snd (?new ys)"] assms(1-3)
    by (simp_all add: kv1_def kv2_def rope1_def rope2_def)
  have a: "a = map (\<lambda>t. mla_token F avx w c kv1 rope1 (cached + t) (xs ! t)) [0..<length xs]" "kvc1 = Some (kv1, rope1)"
    using assms(4) by (auto simp: k3_mla_cached_def Let_def kv1_def rope1_def split: if_splits)
  have b: "b = map (\<lambda>t. mla_token F avx w c kv2 rope2 (cached + length xs + t) (ys ! t)) [0..<length ys]"
    "kvc2 = Some (kv2, rope2)"
    using assms(5) by (auto simp: a(2) k3_mla_cached_def Let_def kv2_def rope2_def split: if_splits)
  have old: "kv1 ! s = kv2 ! s" "rope1 ! s = rope2 ! s" if "s < cached + length xs" for s
    using that assms(1-3) by (auto simp: kv2_def rope2_def kv1_def rope1_def write_rows_nth length_write_rows)
  have a': "a = map (\<lambda>t. mla_token F avx w c kv2 rope2 (cached + t) ((xs @ ys) ! t)) [0..<length xs]"
    unfolding a(1) using old by (intro map_cong refl) (auto simp: nth_append intro!: mla_token_cong)
  have b': "b = map (\<lambda>t. mla_token F avx w c kv2 rope2 (cached + t) ((xs @ ys) ! t)) [length xs..<length xs + length ys]"
    unfolding b(1) by (rule nth_equalityI) (auto simp: nth_append add.assoc)
  have "[0..<length (xs @ ys)] = [0..<length xs] @ [length xs..<length xs + length ys]"
    by (simp flip: upt_add_eq_append)
  then show ?thesis using assms(3) by (simp add: k3_mla_cached_def Let_def all [symmetric, simplified] a' b' b(2))
qed

text \<open>With room in the cache a call always returns, and it never touches the rows past its last position.\<close>

lemma mla_returns:
  assumes "length kv = cap" "length rope = cap" "cached + length xs \<le> cap"
  shows "\<exists>os kv' rope'. k3_mla_cached F avx w c xs (Some (kv, rope)) cached cap = Some (os, Some (kv', rope')) \<and>
    length os = length xs \<and> length kv' = cap \<and> length rope' = cap \<and> take cached kv' = take cached kv \<and> take cached rope' = take cached rope"
  using assms by (auto simp: k3_mla_cached_def Let_def write_rows_def)

text \<open>Rows the call does not attend to make no difference: a cache need only agree up to the cached positions.\<close>

lemma mla_stale:
  assumes "take cached kv = take cached kv'" "take cached rope = take cached rope'"
    and "length kv = cap" "length kv' = cap'" "length rope = cap" "length rope' = cap'" "cached + length xs \<le> cap" "cached + length xs \<le> cap'"
    and "k3_mla_cached F avx w c xs (Some (kv, rope)) cached cap = Some (os, Some (k1, r1))"
    and "k3_mla_cached F avx w c xs (Some (kv', rope')) cached cap' = Some (os', Some (k1', r1'))"
  shows "os = os' \<and> take (cached + length xs) k1 = take (cached + length xs) k1' \<and>
    take (cached + length xs) r1 = take (cached + length xs) r1'"
proof -
  have k: "k1 = write_rows cached (map fst (map (mla_kv F avx w c) xs)) kv" "r1 = write_rows cached (map snd (map (mla_kv F avx w c) xs)) rope"
    "k1' = write_rows cached (map fst (map (mla_kv F avx w c) xs)) kv'" "r1' = write_rows cached (map snd (map (mla_kv F avx w c) xs)) rope'"
    and os: "os = map (\<lambda>t. mla_token F avx w c k1 r1 (cached + t) (xs ! t)) [0..<length xs]"
    "os' = map (\<lambda>t. mla_token F avx w c k1' r1' (cached + t) (xs ! t)) [0..<length xs]"
    using assms(9,10) by (auto simp: k3_mla_cached_def Let_def split: if_splits)
  have t: "take (cached + length xs) k1 = take (cached + length xs) k1'" "take (cached + length xs) r1 = take (cached + length xs) r1'"
    using assms(1-8) by (auto simp: k write_rows_def)
  have "k1 ! s = k1' ! s" "r1 ! s = r1' ! s" if "s < cached + length xs" for s
    using t that by (metis nth_take)+
  then have "os = os'" unfolding os by (intro map_cong refl mla_token_cong) auto
  then show ?thesis using t by simp
qed

lemma mla_uncached:
  assumes "length kv = cap" "length rope = cap" "length xs \<le> cap"
    and "k3_mla_cached F avx w c xs (Some (kv, rope)) 0 cap = Some (os, kvc)"
  shows "k3_mla_cached F avx w c xs None cached' cap' = Some (os, None)"
proof -
  let ?new = "map (mla_kv F avx w c) xs"
  have os: "os = map (\<lambda>t. mla_token F avx w c (write_rows 0 (map fst ?new) kv) (write_rows 0 (map snd ?new) rope) t (xs ! t)) [0..<length xs]"
    using assms(4) by (auto simp: k3_mla_cached_def Let_def split: if_splits)
  also have "\<dots> = map (\<lambda>t. mla_token F avx w c (map fst ?new) (map snd ?new) t (xs ! t)) [0..<length xs]"
    by (intro map_cong refl mla_token_cong) (auto simp: write_rows_nth)
  finally show ?thesis by (simp add: k3_mla_cached_def Let_def)
qed

section \<open>The state of KDA\<close>

lemma conv_run_append:
  "conv_run F wc hist (xs @ ys) buf =
     (fst (conv_run F wc hist xs buf) @ fst (conv_run F wc hist ys (snd (conv_run F wc hist xs buf))),
      snd (conv_run F wc hist ys (snd (conv_run F wc hist xs buf))))"
  by (induction xs arbitrary: buf) (auto split: prod.splits)

lemma length_conv_run [simp]: "length (fst (conv_run F wc hist xs buf)) = length xs"
  by (induction xs arbitrary: buf) (simp_all add: case_prod_beta)

lemma length_conv_buf: "length buf = hist \<Longrightarrow> length (snd (conv_run F wc hist xs buf)) = hist"
  by (induction xs arbitrary: buf) (simp_all add: case_prod_beta conv_step_def Let_def)

lemma channel_append:
  assumes "length a = n * ch" "c < ch"
  shows "channel (a @ b) ch (n + m) c = channel a ch n c @ channel b ch m c"
proof -
  have "t * ch + c < n * ch" if "t < n" for t
  proof -
    have "t * ch + c < Suc t * ch" using assms(2) by simp
    also have "\<dots> \<le> n * ch" using that by (intro mult_right_mono) auto
    finally show ?thesis .
  qed
  then show ?thesis using assms(1)
    by (intro nth_equalityI) (auto simp: channel_def nth_append not_less add_mult_distrib le_iff_add)
qed

lemma length_channel [simp]: "length (channel x ch n c) = n"
  by (simp add: channel_def)

lemma mat_append: "mat (n + m) k f = mat n k f @ mat m k (\<lambda>i. f (n + i))"
  by (induction m) (simp_all add: mat_def)

lemma mat_cong: "(\<And>i j. i < n \<Longrightarrow> j < k \<Longrightarrow> f i j = g i j) \<Longrightarrow> mat n k f = mat n k g"
  unfolding mat_def by (intro arg_cong [where f = concat] map_cong refl) auto

lemma length_shortconv [simp]: "length (fst (k3_shortconv F x wv st ch k n)) = n * ch"
  by (simp add: k3_shortconv_def Let_def)

lemma seg_length: "c < ch \<Longrightarrow> length s = ch * h \<Longrightarrow> length (seg s (c * h) h) = h"
proof -
  assume a: "c < ch" "length s = ch * h"
  have "c * h + h \<le> ch * h" using a(1) by (metis Suc_leI add.commute mult_Suc mult_le_mono1)
  then show ?thesis using a(2) by (simp add: seg_def)
qed

lemma length_concat_map: "(\<And>i. i < n \<Longrightarrow> length (f i) = k) \<Longrightarrow> length (concat (map f [0..<n])) = n * k"
  by (induction n) auto

lemma conv_state_length:
  assumes "length s = ch * (k - 1)" "k3_shortconv F x wv (Some s) ch k n = (y, st)"
  shows "\<exists>s'. st = Some s' \<and> length s' = ch * (k - 1)"
proof -
  define h where "h = k - 1"
  have "st = Some (concat (map (\<lambda>c. snd (conv_run F (seg wv (c * k) k) h (channel x ch n c) (seg s (c * h) h))) [0..<ch]))"
    using assms(2) by (auto simp: k3_shortconv_def Let_def h_def)
  moreover have "length (concat (map (\<lambda>c. snd (conv_run F (seg wv (c * k) k) h (channel x ch n c) (seg s (c * h) h))) [0..<ch])) = ch * h"
    by (rule length_concat_map) (use assms(1) in \<open>auto intro!: length_conv_buf seg_length simp: h_def\<close>)
  ultimately show ?thesis by (simp add: h_def)
qed

lemma shortconv_split:
  assumes "length a = n * ch" "length s = ch * (k - 1)"
    and "k3_shortconv F a wv (Some s) ch k n = (y1, Some s1)" "k3_shortconv F b wv (Some s1) ch k m = (y2, st2)"
  shows "k3_shortconv F (a @ b) wv (Some s) ch k (n + m) = (y1 @ y2, st2)"
proof -
  define h where "h = k - 1"
  let ?r = "\<lambda>x T s c. conv_run F (seg wv (c * k) k) h (channel x ch T c) (seg s (c * h) h)"
  have y1: "y1 = mat n ch (\<lambda>t c. fst (?r a n s c) ! t)" "s1 = concat (map (\<lambda>c. snd (?r a n s c)) [0..<ch])"
    using assms(3) by (auto simp: k3_shortconv_def Let_def h_def)
  have y2: "y2 = mat m ch (\<lambda>t c. fst (?r b m s1 c) ! t)" "st2 = Some (concat (map (\<lambda>c. snd (?r b m s1 c)) [0..<ch]))"
    using assms(4) by (auto simp: k3_shortconv_def Let_def h_def)
  have s1: "seg s1 (c * h) h = snd (?r a n s c)" if "c < ch" for c
    unfolding y1(2) using that assms(2) by (intro seg_concat length_conv_buf seg_length) (auto simp: h_def)
  have run: "?r (a @ b) (n + m) s c = (fst (?r a n s c) @ fst (?r b m s1 c), snd (?r b m s1 c))" if "c < ch" for c
    using that by (simp add: channel_append assms(1) conv_run_append s1)
  have "mat (n + m) ch (\<lambda>t c. fst (?r (a @ b) (n + m) s c) ! t) = y1 @ y2"
    unfolding mat_append y1(1) y2(1) by (intro arg_cong2 [where f = append] mat_cong) (auto simp: run nth_append)
  moreover have "map (\<lambda>c. snd (?r (a @ b) (n + m) s c)) [0..<ch] = map (\<lambda>c. snd (?r b m s1 c)) [0..<ch]"
    by (intro map_cong refl) (simp add: run)
  ultimately show ?thesis
    unfolding k3_shortconv_def Let_def h_def [symmetric] by (simp only: option.case option.map y2(2))
qed

lemma kda_run_append:
  "kda_run F D (xs @ ys) S =
     (fst (kda_run F D xs S) @ fst (kda_run F D ys (snd (kda_run F D xs S))), snd (kda_run F D ys (snd (kda_run F D xs S))))"
  by (induction F D xs S rule: kda_run.induct) (auto split: prod.splits)

lemma length_kda_run [simp]: "length (fst (kda_run F D xs S)) = length xs"
  by (induction F D xs S rule: kda_run.induct) (auto split: prod.splits)

lemma length_kda_step: "length (fst (k3_kda_step F S q k v al beta dk dv)) = dk * dv"
  by (simp add: k3_kda_step_def Let_def)

lemma length_kda_S: "length S = D * D \<Longrightarrow> length (snd (kda_run F D xs S)) = D * D"
proof (induction F D xs S rule: kda_run.induct)
  case (2 F D q k v al beta xs S)
  obtain S1 o' where st: "k3_kda_step F S q k v al beta D D = (S1, o')" by fastforce
  then have "length S1 = D * D" using length_kda_step [of F S q k v al beta D D] by simp
  then show ?case using "2.IH" [OF st [symmetric]] st by (simp add: case_prod_beta)
qed simp

text \<open>The shape \<open>k3.h\<close> asks of a state.\<close>

definition kda_shape :: "K3Cfg \<Rightarrow> KdaState \<Rightarrow> bool" where
  "kda_shape c st \<longleftrightarrow>
     (let H = nat (cf_kda_heads c); D = nat (cf_kda_head_dim c); n = H * D * (nat (cf_conv_k c) - 1)
      in length (kd_S st) = H * (D * D) \<and> length (kd_q st) = n \<and> length (kd_k st) = n \<and> length (kd_v st) = n)"

lemma length_kda_project:
  "length (kda_project F avx w c Wm xs) = length xs * (nat (cf_kda_heads c) * nat (cf_kda_head_dim c))"
  by (simp add: kda_project_def length_concat o_def sum_list_triv)

lemma kda_project_append: "kda_project F avx w c Wm (xs @ ys) = kda_project F avx w c Wm xs @ kda_project F avx w c Wm ys"
  by (simp add: kda_project_def)

lemma kda_shape_next:
  assumes "kda_shape c st" "k3_kda_layer F avx w c xs (Some st) = (os, st')"
  shows "\<exists>s'. st' = Some s' \<and> kda_shape c s' \<and> length os = length xs"
proof -
  let ?H = "nat (cf_kda_heads c)" and ?D = "nat (cf_kda_head_dim c)" and ?K = "nat (cf_conv_k c)" and ?T = "length xs"
  obtain q cq k ck v cv where conv:
    "k3_shortconv F (kda_project F avx w c (kw_q w) xs) (kw_q_conv w) (Some (kd_q st)) (?H * ?D) ?K ?T = (q, cq)"
    "k3_shortconv F (kda_project F avx w c (kw_k w) xs) (kw_k_conv w) (Some (kd_k st)) (?H * ?D) ?K ?T = (k, ck)"
    "k3_shortconv F (kda_project F avx w c (kw_v w) xs) (kw_v_conv w) (Some (kd_v st)) (?H * ?D) ?K ?T = (v, cv)" by (meson surj_pair)
  have len: "length (kd_q st) = ?H * ?D * (?K - 1)" "length (kd_k st) = ?H * ?D * (?K - 1)" "length (kd_v st) = ?H * ?D * (?K - 1)"
    "length (kd_S st) = ?H * (?D * ?D)" using assms(1) by (auto simp: kda_shape_def Let_def)
  obtain a b d where "cq = Some a" "ck = Some b" "cv = Some d" "length a = ?H * ?D * (?K - 1)" "length b = ?H * ?D * (?K - 1)"
    "length d = ?H * ?D * (?K - 1)"
    using conv_state_length [OF len(1) conv(1)] conv_state_length [OF len(2) conv(2)] conv_state_length [OF len(3) conv(3)] by blast
  moreover have "length (concat (map (\<lambda>h. snd (kda_run F ?D (ins h) (seg (kd_S st) (h * (?D * ?D)) (?D * ?D)))) [0..<?H])) = ?H * (?D * ?D)" for ins
    by (rule length_concat_map) (auto intro!: length_kda_S seg_length simp: len(4))
  ultimately show ?thesis using assms(2) conv by (auto simp: k3_kda_layer_def Let_def kda_shape_def)
qed

text \<open>The layer on a state, its convolutions named.\<close>

definition kda_tokens :: "fpu \<Rightarrow> bool \<Rightarrow> K3KdaW \<Rightarrow> K3Cfg \<Rightarrow> f32 list list \<Rightarrow> f32 list \<Rightarrow> f32 list \<Rightarrow> f32 list \<Rightarrow> kda_in list list" where
  "kda_tokens F avx w c xs q k v =
     (let T = length xs; P = nat (cf_kda_heads c) * nat (cf_kda_head_dim c)
      in map (\<lambda>(xt, qr, kr, vr). kda_inputs F avx w c xt qr kr vr) (zip xs (zip (rows T P q) (zip (rows T P k) (rows T P v)))))"

definition kda_heads :: "fpu \<Rightarrow> K3Cfg \<Rightarrow> kda_in list list \<Rightarrow> f32 list \<Rightarrow> nat \<Rightarrow> f32 list list \<times> f32 list" where
  "kda_heads F c ins S h =
     (let D = nat (cf_kda_head_dim c) in kda_run F D (map (\<lambda>tok. tok ! h) ins) (seg S (h * (D * D)) (D * D)))"

lemma kda_layer_eq:
  fixes w c xs st
  defines "T \<equiv> length xs" and "P \<equiv> nat (cf_kda_heads c) * nat (cf_kda_head_dim c)" and "K \<equiv> nat (cf_conv_k c)"
  assumes "k3_shortconv F (kda_project F avx w c (kw_q w) xs) (kw_q_conv w) (Some (kd_q st)) P K T = (q, Some cq)"
    "k3_shortconv F (kda_project F avx w c (kw_k w) xs) (kw_k_conv w) (Some (kd_k st)) P K T = (k, Some ck)"
    "k3_shortconv F (kda_project F avx w c (kw_v w) xs) (kw_v_conv w) (Some (kd_v st)) P K T = (v, Some cv)"
  shows "k3_kda_layer F avx w c xs (Some st) =
    (map (\<lambda>t. kda_output F avx w c (xs ! t)
        (map (\<lambda>h. fst (kda_heads F c (kda_tokens F avx w c xs q k v) (kd_S st) h) ! t) [0..<nat (cf_kda_heads c)])) [0..<T],
     Some \<lparr>kd_S = concat (map (\<lambda>h. snd (kda_heads F c (kda_tokens F avx w c xs q k v) (kd_S st) h)) [0..<nat (cf_kda_heads c)]),
       kd_q = cq, kd_k = ck, kd_v = cv\<rparr>)"
  using assms(4-6) unfolding T_def P_def K_def
  by (simp add: k3_kda_layer_def Let_def kda_heads_def kda_tokens_def)

lemma kda_tokens_append:
  assumes "length q = length xs * (nat (cf_kda_heads c) * nat (cf_kda_head_dim c))" "length k = length q" "length v = length q"
  shows "kda_tokens F avx w c (xs @ ys) (q @ q') (k @ k') (v @ v') = kda_tokens F avx w c xs q k v @ kda_tokens F avx w c ys q' k' v'"
  using assms by (simp add: kda_tokens_def Let_def rows_append)

lemma length_kda_tokens [simp]: "length (kda_tokens F avx w c xs q k v) = length xs"
  by (simp add: kda_tokens_def Let_def)

lemma kda_heads_append:
  assumes "length S = nat (cf_kda_heads c) * (nat (cf_kda_head_dim c) * nat (cf_kda_head_dim c))" "h < nat (cf_kda_heads c)"
    and "S1 = concat (map (\<lambda>h. snd (kda_heads F c a S h)) [0..<nat (cf_kda_heads c)])"
  shows "kda_heads F c (a @ b) S h = (fst (kda_heads F c a S h) @ fst (kda_heads F c b S1 h), snd (kda_heads F c b S1 h))"
proof -
  let ?D = "nat (cf_kda_head_dim c)"
  have "seg S1 (h * (?D * ?D)) (?D * ?D) = snd (kda_heads F c a S h)"
    unfolding assms(3) using assms(1,2) by (intro seg_concat) (auto simp: kda_heads_def Let_def intro!: length_kda_S seg_length)
  then show ?thesis by (simp add: kda_heads_def Let_def kda_run_append)
qed

lemma kda_split:
  assumes sh: "kda_shape c st" and A: "k3_kda_layer F avx w c xs (Some st) = (a, Some st1)"
    and B: "k3_kda_layer F avx w c ys (Some st1) = (b, st2)"
  shows "k3_kda_layer F avx w c (xs @ ys) (Some st) = (a @ b, st2)"
proof -
  let ?H = "nat (cf_kda_heads c)" and ?D = "nat (cf_kda_head_dim c)" and ?K = "nat (cf_conv_k c)"
  let ?P = "?H * ?D"
  let ?pr = "kda_project F avx w c"
  have len: "length (kd_q st) = ?P * (?K - 1)" "length (kd_k st) = ?P * (?K - 1)" "length (kd_v st) = ?P * (?K - 1)"
    "length (kd_S st) = ?H * (?D * ?D)" using sh by (auto simp: kda_shape_def Let_def)
  obtain q1 cq1 where c1q: "k3_shortconv F (?pr (kw_q w) xs) (kw_q_conv w) (Some (kd_q st)) ?P ?K (length xs) = (q1, cq1)" by fastforce
  obtain k1 ck1 where c1k: "k3_shortconv F (?pr (kw_k w) xs) (kw_k_conv w) (Some (kd_k st)) ?P ?K (length xs) = (k1, ck1)" by fastforce
  obtain v1 cv1 where c1v: "k3_shortconv F (?pr (kw_v w) xs) (kw_v_conv w) (Some (kd_v st)) ?P ?K (length xs) = (v1, cv1)" by fastforce
  obtain q2 cq2 where c2q: "k3_shortconv F (?pr (kw_q w) ys) (kw_q_conv w) (Some (kd_q st1)) ?P ?K (length ys) = (q2, cq2)" by fastforce
  obtain k2 ck2 where c2k: "k3_shortconv F (?pr (kw_k w) ys) (kw_k_conv w) (Some (kd_k st1)) ?P ?K (length ys) = (k2, ck2)" by fastforce
  obtain v2 cv2 where c2v: "k3_shortconv F (?pr (kw_v w) ys) (kw_v_conv w) (Some (kd_v st1)) ?P ?K (length ys) = (v2, cv2)" by fastforce
  note c1 = c1q c1k c1v and c2 = c2q c2k c2v
  obtain a1 b1 d1 where cs0: "cq1 = Some a1" "ck1 = Some b1" "cv1 = Some d1"
    using conv_state_length [OF len(1) c1q] conv_state_length [OF len(2) c1k] conv_state_length [OF len(3) c1v] by auto
  note A' = kda_layer_eq [OF c1 [unfolded cs0]]
  have cs: "kd_q st1 = a1" "kd_k st1 = b1" "kd_v st1 = d1" using A A' by auto
  have sh1: "kda_shape c st1" using kda_shape_next [OF sh A] by auto
  then have len1: "length (kd_q st1) = ?P * (?K - 1)" "length (kd_k st1) = ?P * (?K - 1)" "length (kd_v st1) = ?P * (?K - 1)"
    by (auto simp: kda_shape_def Let_def)
  obtain a2 b2 d2 where cs2: "cq2 = Some a2" "ck2 = Some b2" "cv2 = Some d2"
    using conv_state_length [OF len1(1) c2q] conv_state_length [OF len1(2) c2k] conv_state_length [OF len1(3) c2v] by auto
  note B' = kda_layer_eq [OF c2 [unfolded cs2]]
  note c3 = shortconv_split [OF length_kda_project len(1) c1q [unfolded cs0, folded cs] c2q [unfolded cs2]]
    shortconv_split [OF length_kda_project len(2) c1k [unfolded cs0, folded cs] c2k [unfolded cs2]]
    shortconv_split [OF length_kda_project len(3) c1v [unfolded cs0, folded cs] c2v [unfolded cs2]]
  note C' = kda_layer_eq [of F avx w c "xs @ ys" st, unfolded kda_project_append length_append, OF c3]
  have l1: "length q1 = length xs * ?P" "length k1 = length q1" "length v1 = length q1"
    using length_shortconv [of F "?pr (kw_q w) xs" "kw_q_conv w" "Some (kd_q st)" ?P ?K "length xs"]
      length_shortconv [of F "?pr (kw_k w) xs" "kw_k_conv w" "Some (kd_k st)" ?P ?K "length xs"]
      length_shortconv [of F "?pr (kw_v w) xs" "kw_v_conv w" "Some (kd_v st)" ?P ?K "length xs"]
    by (simp_all add: c1)
  let ?i1 = "kda_tokens F avx w c xs q1 k1 v1" and ?i2 = "kda_tokens F avx w c ys q2 k2 v2"
  have i: "kda_tokens F avx w c (xs @ ys) (q1 @ q2) (k1 @ k2) (v1 @ v2) = ?i1 @ ?i2" by (rule kda_tokens_append [OF l1])
  have S1: "kd_S st1 = concat (map (\<lambda>h. snd (kda_heads F c ?i1 (kd_S st) h)) [0..<?H])" using A A' by auto
  note hd = kda_heads_append [OF len(4) _ S1, of _ ?i2]
  have l: "length (fst (kda_heads F c ?i1 (kd_S st) h)) = length xs" for h by (simp add: kda_heads_def Let_def)
  have "map (\<lambda>t. kda_output F avx w c ((xs @ ys) ! t) (map (\<lambda>h. fst (kda_heads F c (?i1 @ ?i2) (kd_S st) h) ! t) [0..<?H]))
      [0..<length xs + length ys] = a @ b" (is "?lhs = _")
  proof (rule nth_equalityI)
    have ab: "a = map (\<lambda>t. kda_output F avx w c (xs ! t) (map (\<lambda>h. fst (kda_heads F c ?i1 (kd_S st) h) ! t) [0..<?H])) [0..<length xs]"
      "b = map (\<lambda>t. kda_output F avx w c (ys ! t) (map (\<lambda>h. fst (kda_heads F c ?i2 (kd_S st1) h) ! t) [0..<?H])) [0..<length ys]"
      using A A' B B' by auto
    then show "length ?lhs = length (a @ b)" by simp
    fix t assume "t < length ?lhs"
    then have t: "t < length xs + length ys" by simp
    have "map (\<lambda>h. fst (kda_heads F c (?i1 @ ?i2) (kd_S st) h) ! t) [0..<?H] =
      map (\<lambda>h. (fst (kda_heads F c ?i1 (kd_S st) h) @ fst (kda_heads F c ?i2 (kd_S st1) h)) ! t) [0..<?H]"
      by (intro map_cong refl) (simp add: hd)
    then have e: "?lhs ! t = kda_output F avx w c ((xs @ ys) ! t)
      (map (\<lambda>h. (fst (kda_heads F c ?i1 (kd_S st) h) @ fst (kda_heads F c ?i2 (kd_S st1) h)) ! t) [0..<?H])"
      using t by (subst nth_map) (simp, simp only: nth_upt add_0 length_upt)
    show "?lhs ! t = (a @ b) ! t"
    proof (cases "t < length xs")
      case True
      then show ?thesis unfolding e by (simp add: ab nth_append l)
    next
      case False
      then have "t - length xs < length ys" using t by simp
      then show ?thesis using False unfolding e by (simp add: ab nth_append l)
    qed
  qed
  moreover have "map (\<lambda>h. snd (kda_heads F c (?i1 @ ?i2) (kd_S st) h)) [0..<?H] = map (\<lambda>h. snd (kda_heads F c ?i2 (kd_S st1) h)) [0..<?H]"
    by (intro map_cong refl) (simp add: hd)
  ultimately have "k3_kda_layer F avx w c (xs @ ys) (Some st) = (a @ b, Some \<lparr>kd_S = concat (map (\<lambda>h. snd (kda_heads F c ?i2 (kd_S st1) h))
      [0..<?H]), kd_q = a2, kd_k = b2, kd_v = d2\<rparr>)" unfolding C' i by (simp only:)
  then show ?thesis using B B' by auto
qed

end
