(* ===== verification/K3_Moe_Laws.thy ===== *)
theory K3_Moe_Laws
  imports K3_Moe
begin

text \<open>
  What routing selects, and the mixture over any source that keeps the expert contract: per token or batched,
  with no expert dropped, it computes the reference mixture over the weights the source stands for.
\<close>

section \<open>Selection\<close>

definition best_inv :: "f32 list \<Rightarrow> nat \<Rightarrow> nat option \<times> f32 \<Rightarrow> bool" where
  "best_inv choice n = (\<lambda>(best, bv).
     (\<forall>e < n. \<not> fless bv (choice ! e)) \<and>
     (case best of None \<Rightarrow> bv = f_ninf | Some b \<Rightarrow> b < n \<and> bv = choice ! b \<and> fless f_ninf bv))"

lemma best_inv_step:
  "best_inv choice n (best, bv) \<Longrightarrow>
   best_inv choice (Suc n) (if fless bv (choice ! n) then (Some n, choice ! n) else (best, bv))"
  by (auto simp: best_inv_def less_Suc_eq dest: fless_trans split: option.splits)

lemma best_fold:
  "best_inv choice n (fold (\<lambda>e (best, bv). if fless bv (choice ! e) then (Some e, choice ! e) else (best, bv))
     [0..<n] (None, f_ninf))"
proof (induction n)
  case (Suc n)
  let ?f = "\<lambda>e (best, bv). if fless bv (choice ! e) then (Some e, choice ! e) else (best, bv)"
  obtain best bv where r: "fold ?f [0..<n] (None, f_ninf) = (best, bv)" by fastforce
  have "fold ?f [0..<Suc n] (None, f_ninf) = (if fless bv (choice ! n) then (Some n, choice ! n) else (best, bv))"
    by (simp add: r)
  then show ?case using best_inv_step [of choice n best bv] Suc by (simp only: r)
qed (simp add: best_inv_def)

lemma best_of_Some:
  assumes "best_of choice = Some b"
  shows "b < length choice" "fless f_ninf (choice ! b)" "\<And>e. e < length choice \<Longrightarrow> \<not> fless (choice ! b) (choice ! e)"
  using best_fold [of choice "length choice"] assms
  by (auto simp: best_of_def best_inv_def split: prod.splits option.splits)

lemma best_of_None: "best_of choice = None \<Longrightarrow> e < length choice \<Longrightarrow> \<not> fless f_ninf (choice ! e)"
  using best_fold [of choice "length choice"]
  by (auto simp: best_of_def best_inv_def split: prod.splits option.splits)

lemma length_top_k [simp]: "length (top_k k score choice) = k"
  by (induction k arbitrary: choice) (auto split: option.splits)

lemma top_k_range: "0 < length choice \<Longrightarrow> (e, x) \<in> set (top_k k score choice) \<Longrightarrow> e < length choice"
proof (induction k arbitrary: choice)
  case (Suc k)
  show ?case
  proof (cases "best_of choice")
    case None
    then show ?thesis using Suc by auto
  next
    case (Some b)
    then show ?thesis using Suc.prems Suc.IH [of "choice[b := f_ninf]"] best_of_Some(1) [OF Some] by auto
  qed
qed simp

text \<open>With enough comparable scores every sweep finds an index no earlier sweep found, and nothing left out beats it.\<close>

lemma top_k_selects:
  assumes "k \<le> card {e. e < length choice \<and> fless f_ninf (choice ! e)}"
  shows "distinct (map fst (top_k k score choice)) \<and>
    list_all (\<lambda>(e, x). e < length choice \<and> fless f_ninf (choice ! e) \<and> x = score ! e) (top_k k score choice) \<and>
    sorted_wrt (\<lambda>a b. \<not> fless (choice ! fst a) (choice ! fst b)) (top_k k score choice) \<and>
    (\<forall>a\<in>set (top_k k score choice). \<forall>e. e < length choice \<longrightarrow> e \<notin> fst ` set (top_k k score choice) \<longrightarrow>
       \<not> fless (choice ! fst a) (choice ! e))"
  using assms
proof (induction k arbitrary: choice)
  case (Suc k)
  let ?live = "\<lambda>ch. {e. e < length ch \<and> fless f_ninf (ch ! e)}"
  have fin: "finite (?live choice)" by simp
  have "?live choice \<noteq> {}" using Suc.prems by (metis card.empty not_less_eq_eq zero_le)
  then obtain b where b: "best_of choice = Some b" using best_of_None by (cases "best_of choice") auto
  note bs = best_of_Some [OF b]
  let ?ch = "choice[b := f_ninf]"
  let ?rest = "top_k k score ?ch"
  have live: "?live ?ch = ?live choice - {b}" using bs(1) by (auto simp: nth_list_update)
  have "k \<le> card (?live ?ch)" using Suc.prems fin bs(1,2) unfolding live by (subst card_Diff_singleton) auto
  note IH = Suc.IH [OF this]
  have r: "e \<noteq> b \<and> e < length choice \<and> fless f_ninf (choice ! e) \<and> x = score ! e" if "(e, x) \<in> set ?rest" for e x
  proof -
    have "e < length choice \<and> fless f_ninf (?ch ! e) \<and> x = score ! e"
      using IH [THEN conjunct2, THEN conjunct1] that by (auto simp: list_all_iff)
    then show ?thesis using bs(1) by (cases "e = b") auto
  qed
  have eq: "?ch ! fst a = choice ! fst a" if "a \<in> set ?rest" for a
    using r [of "fst a" "snd a"] that by simp
  have "b \<notin> fst ` set ?rest" using r [of b] by auto
  then have "distinct (map fst ((b, score ! b) # ?rest))" using IH by simp
  moreover have sr: "sorted_wrt (\<lambda>a b. \<not> fless (choice ! fst a) (choice ! fst b)) ?rest"
    by (rule sorted_wrt_mono_rel [of ?rest "\<lambda>a b. \<not> fless (?ch ! fst a) (?ch ! fst b)"]) (use IH eq in simp_all)
  have "sorted_wrt (\<lambda>a b. \<not> fless (choice ! fst a) (choice ! fst b)) ((b, score ! b) # ?rest)"
    using sr bs(3) r by auto
  moreover have "\<not> fless (choice ! fst a) (choice ! e)"
    if "a \<in> set ((b, score ! b) # ?rest)" "e < length choice" "e \<notin> fst ` set ((b, score ! b) # ?rest)" for a e
  proof (cases "a = (b, score ! b)")
    case True
    then show ?thesis using bs(3) that by simp
  next
    case False
    then have "a \<in> set ?rest" "e \<noteq> b" "e \<notin> fst ` set ?rest" using that by auto
    then have "\<not> fless (?ch ! fst a) (?ch ! e)" 
      using IH [THEN conjunct2, THEN conjunct2, THEN conjunct2, THEN bspec, OF \<open>a \<in> set ?rest\<close>, THEN spec, of e] that(2)
      by (simp only: length_list_update) blast
    then show ?thesis using eq [OF \<open>a \<in> set ?rest\<close>] \<open>e \<noteq> b\<close> by simp
  qed
  moreover have "list_all (\<lambda>(e, x). e < length choice \<and> fless f_ninf (choice ! e) \<and> x = score ! e) ((b, score ! b) # ?rest)"
    using r bs(1,2) by (auto simp: list_all_iff)
  ultimately show ?case by (simp only: top_k.simps b option.case) blast
qed simp

text \<open>The score an expert is selected by: its routing score and its bias.\<close>

definition router_choice :: "fpu \<Rightarrow> f32 list \<Rightarrow> f32 list \<Rightarrow> f32 list option \<Rightarrow> nat \<Rightarrow> nat \<Rightarrow> f32" where
  "router_choice F x gate bias hidden e =
     fadd F (router_score F x gate hidden e) (case bias of Some b \<Rightarrow> b ! e | None \<Rightarrow> 0)"

lemma top_k_length: "length (top_k k score choice) = k"
  by (induction k arbitrary: choice) (auto split: option.split)

lemma router_top_k:
  "k3_router F x gate bias hidden ne topk renorm scale =
     (let sel = top_k topk (map (router_score F x gate hidden) [0..<ne]) (map (router_choice F x gate bias hidden) [0..<ne])
      in (map fst sel, map (\<lambda>y. fmul F y scale) ((if renorm \<and> topk > 1 then renormalise F else id) (map snd sel))))"
proof -
  have "map (\<lambda>e. fadd F (map (router_score F x gate hidden) [0..<ne] ! e) (case bias of Some b \<Rightarrow> b ! e | None \<Rightarrow> 0)) [0..<ne] =
      map (router_choice F x gate bias hidden) [0..<ne]"
    by (rule map_cong) (simp_all add: router_choice_def)
  then show ?thesis unfolding k3_router_def Let_def by (simp only: if_distrib [of "\<lambda>f. f _"] id_apply)
qed

lemma router_selects:
  assumes "topk \<le> card {e. e < ne \<and> fless f_ninf (router_choice F x gate bias hidden e)}"
    and "k3_router F x gate bias hidden ne topk renorm scale = (idx, wt)"
  shows "length idx = topk" and "distinct idx" and "\<forall>e\<in>set idx. e < ne"
    and "sorted_wrt (\<lambda>a b. \<not> fless (router_choice F x gate bias hidden a) (router_choice F x gate bias hidden b)) idx"
    and "\<forall>a\<in>set idx. \<forall>e < ne. e \<notin> set idx \<longrightarrow> \<not> fless (router_choice F x gate bias hidden a) (router_choice F x gate bias hidden e)"
    and "wt = map (\<lambda>y. fmul F y scale) ((if renorm \<and> topk > 1 then renormalise F else id) (map (router_score F x gate hidden) idx))"
proof -
  define ch where "ch = router_choice F x gate bias hidden"
  define sc where "sc = map (router_score F x gate hidden) [0..<ne]"
  define cs where "cs = map ch [0..<ne]"
  define sel where "sel = top_k topk sc cs"
  have cs: "length cs = ne" "\<And>e. e < ne \<Longrightarrow> cs ! e = ch e" by (simp_all add: cs_def)
  have "{e. e < length cs \<and> fless f_ninf (cs ! e)} = {e. e < ne \<and> fless f_ninf (ch e)}" using cs by auto
  then have "topk \<le> card {e. e < length cs \<and> fless f_ninf (cs ! e)}" using assms(1) unfolding ch_def by simp
  note ts = top_k_selects [OF this, of sc, folded sel_def]
  have idx: "idx = map fst sel" and wt: "wt = map (\<lambda>y. fmul F y scale) ((if renorm \<and> topk > 1 then renormalise F else id) (map snd sel))"
    using assms(2) unfolding router_top_k Let_def sel_def sc_def cs_def ch_def by simp_all
  have range: "fst a < ne \<and> snd a = router_score F x gate hidden (fst a)" if "a \<in> set sel" for a
    using ts [THEN conjunct2, THEN conjunct1] that cs(1) by (auto simp: list_all_iff sc_def)
  have at: "cs ! fst a = ch (fst a)" if "a \<in> set sel" for a using cs(2) range that by blast
  show "length idx = topk" by (simp add: idx sel_def top_k_length)
  show "distinct idx" using ts idx by blast
  show "\<forall>e\<in>set idx. e < ne" using range idx by auto
  have "sorted_wrt (\<lambda>a b. \<not> fless (ch (fst a)) (ch (fst b))) sel"
    by (rule sorted_wrt_mono_rel [OF _ ts [THEN conjunct2, THEN conjunct2, THEN conjunct1]]) (simp add: at)
  then show "sorted_wrt (\<lambda>a b. \<not> fless (router_choice F x gate bias hidden a) (router_choice F x gate bias hidden b)) idx"
    unfolding idx sorted_wrt_map ch_def .
  have "\<not> fless (ch (fst a)) (ch e)" if "a \<in> set sel" "e < ne" "e \<notin> fst ` set sel" for a e
    using ts [THEN conjunct2, THEN conjunct2, THEN conjunct2, THEN bspec, OF that(1), THEN spec, of e] that at cs by simp
  then show "\<forall>a\<in>set idx. \<forall>e < ne. e \<notin> set idx \<longrightarrow> \<not> fless (router_choice F x gate bias hidden a) (router_choice F x gate bias hidden e)"
    unfolding idx ch_def by simp
  have "map snd sel = map (router_score F x gate hidden) idx" using range by (simp add: idx)
  then show "wt = map (\<lambda>y. fmul F y scale) ((if renorm \<and> topk > 1 then renormalise F else id) (map (router_score F x gate hidden) idx))"
    unfolding wt by (rule arg_cong)
qed

text \<open>Where the bias leaves the scores as they are, the order of selection is the order of the scores.\<close>

lemma router_score_order:
  assumes "topk \<le> card {e. e < ne \<and> fless f_ninf (router_choice F x gate bias hidden e)}"
    and "k3_router F x gate bias hidden ne topk renorm scale = (idx, wt)"
    and "\<forall>e < ne. router_choice F x gate bias hidden e = router_score F x gate hidden e"
  shows "sorted_wrt (\<lambda>a b. \<not> fless (router_score F x gate hidden a) (router_score F x gate hidden b)) idx"
proof (rule sorted_wrt_mono_rel [OF _ router_selects(4) [OF assms(1,2)]])
  fix a b
  assume "a \<in> set idx" "b \<in> set idx"
    and c: "\<not> fless (router_choice F x gate bias hidden a) (router_choice F x gate bias hidden b)"
  then have "a < ne" "b < ne" using router_selects(3) [OF assms(1,2)] by blast+
  then show "\<not> fless (router_score F x gate hidden a) (router_score F x gate hidden b)"
    using c assms(3) by simp
qed

section \<open>The kernels read only their matrices\<close>

lemma expand_group_cong: "(\<And>i. i < (n + 1) div 2 \<Longrightarrow> pb ! i = pb' ! i) \<Longrightarrow> expand_group pb n = expand_group pb' n"
  unfolding expand_group_def by (intro arg_cong2 [where f = append] arg_cong [where f = concat] map_cong) (auto elim!: oddE)

text \<open>A product over MXFP4 weights reads \<open>rows * in/2\<close> bytes of nibbles and one scale per group of each row.\<close>

lemma mxfp4_cong:
  assumes p: "\<And>i. i < rows * (inn div 2) \<Longrightarrow> p ! i = p' ! i" and s: "\<And>i. i < rows * ((inn + 31) div 32) \<Longrightarrow> sc ! i = sc' ! i"
    and len: "rows * (inn div 2) \<le> length p" "rows * (inn div 2) \<le> length p'" and ev: "even inn"
  shows "k3_matmul_mxfp4 F avx x p sc inn rows 32 = k3_matmul_mxfp4 F avx x p' sc' inn rows 32"
proof -
  define ng where "ng = (inn + 32 - 1) div 32"
  have row: "r * c + i < rows * c" if "r < rows" "i < c" for r c i :: nat
  proof -
    have "r * c + i < Suc r * c" using that(2) by simp
    also have "\<dots> \<le> rows * c" using that(1) by (intro mult_right_mono) auto
    finally show ?thesis .
  qed
  have grp: "mxfp4_group F avx xg (drop (r * (inn div 2) + g * 16) p) (min (inn - g * 32) 32) =
      mxfp4_group F avx xg (drop (r * (inn div 2) + g * 16) p') (min (inn - g * 32) 32)"
    if "r < rows" for r g xg
  proof -
    have "drop (r * (inn div 2) + g * 16) p ! i = drop (r * (inn div 2) + g * 16) p' ! i"
      if "i < (min (inn - g * 32) 32 + 1) div 2" for i
    proof -
      have "g * 16 + i < inn div 2" using that ev by (auto elim!: evenE)
      from row [OF \<open>r < rows\<close> this] show ?thesis using p len by (simp add: add.assoc)
    qed
    then show ?thesis unfolding mxfp4_group_def by (subst expand_group_cong) auto
  qed
  have sc: "sc ! (r * ng + g) = sc' ! (r * ng + g)" if "r < rows" "g < ng" for r g
    using row [OF that] s [of "r * ng + g"] by (simp add: ng_def add.commute)
  show ?thesis unfolding k3_matmul_mxfp4_def Let_def ng_def [symmetric]
    by (intro map_cong refl arg_cong [where f = "f_of_d F"] loop_cong) (simp add: sc grp)
qed

section \<open>The reference mixture\<close>

text \<open>The mixture with every expert at hand: no source, no state.\<close>

definition moe_ref ::
  "fpu \<Rightarrow> bool \<Rightarrow> K3Cfg \<Rightarrow> ('c, 'q, 'd) K3MoeW \<Rightarrow> (nat \<Rightarrow> (bytes \<times> bytes) list) \<Rightarrow> f32 list \<Rightarrow> f32 list" where
  "moe_ref F avx c w weights xt =
     (let (idx, wt) = route F c w xt;
          z = k3_mmw F avx xt (mo_down w) (mo_wdt w) (nat (cf_hidden c)) (nat (cf_latent c));
          acc = fold (\<lambda>(e, wj). axpy F (nat (cf_latent c)) wj (expert_mxfp4 F avx c z (weights e))) (zip idx wt)
                  (replicate (nat (cf_latent c)) 0)
      in moe_tail F avx c w xt acc)"

lemma route_lengths: "length (fst (route F c w xt)) = nat (cf_topk c)" "length (snd (route F c w xt)) = nat (cf_topk c)"
  by (simp_all add: route_def k3_router_def renormalise_def Let_def)

lemma route_range: "0 < cf_n_experts c \<Longrightarrow> e \<in> set (fst (route F c w xt)) \<Longrightarrow> e < nat (cf_n_experts c)"
  by (auto simp: route_def k3_router_def Let_def dest!: top_k_range [rotated])

section \<open>Unique experts\<close>

lemma unique_fold:
  "set (fold (\<lambda>e uniq. if e < ne \<and> e \<notin> set uniq then uniq @ [e] else uniq) es u) = set u \<union> {e \<in> set es. e < ne} \<and>
   (distinct u \<longrightarrow> distinct (fold (\<lambda>e uniq. if e < ne \<and> e \<notin> set uniq then uniq @ [e] else uniq) es u))"
proof (induction es arbitrary: u)
  case (Cons e es)
  show ?case
  proof (cases "e < ne \<and> e \<notin> set u")
    case True
    then show ?thesis using Cons [of "u @ [e]"] by auto
  next
    case False
    then show ?thesis using Cons [of u] by auto
  qed
qed simp

lemma unique_experts_set: "set (unique_experts ne routed) = {e \<in> set (concat routed). e < ne}"
  using unique_fold [of ne "concat routed" "[]"] by (simp add: unique_experts_def)

lemma unique_experts_distinct: "distinct (unique_experts ne routed)"
  using unique_fold [of ne "concat routed" "[]"] by (simp add: unique_experts_def)

section \<open>The mixture over a source\<close>

text \<open>
  A source whose experts, wherever it serves them from, behave in the kernels as the weights of the model do.
\<close>

locale moe_source = expert_source src inv has_layer disk_ok served
  for src :: "('c, 'q, 'd) K3ExpertSrc" and inv has_layer disk_ok served +
  fixes view :: "'c \<Rightarrow> 'q \<Rightarrow> (bytes \<times> bytes) list"
    and weights :: "int \<Rightarrow> nat \<Rightarrow> (bytes \<times> bytes) list"
    and cfg :: K3Cfg
  assumes faithful: "inv c \<Longrightarrow> has_layer c l \<Longrightarrow> e < nat (cf_n_experts cfg) \<Longrightarrow> served c l (int e) q \<Longrightarrow>
      expert_mxfp4 F avx cfg z (view c q) = expert_mxfp4 F avx cfg z (weights l e)"
begin

text \<open>A run in progress: the source keeps its invariant, the machine reads through it, the layer exists.\<close>

definition ready :: "('c, 'q, 'd) Machine \<Rightarrow> ('c, 'q, 'd) K3MoeW \<Rightarrow> 'c Run \<Rightarrow> bool" where
  "ready m w s \<longleftrightarrow> inv (ru_src s) \<and> has_layer (ru_src s) (mo_layer w) \<and> (\<forall>n. disk_ok (ma_disk m n)) \<and>
     ma_view m = view \<and> mo_src w = Some src \<and> \<not> mo_cache_only w \<and> 0 < cf_n_experts cfg"

lemma get_step:
  assumes "ready m w s"
  shows "\<exists>q s'. moe_get m src (mo_layer w) e s = Some (q, s') \<and> ready m w s' \<and> ru_drops s \<le> ru_drops s' \<and>
    (q = None \<longrightarrow> ru_drops s' = ru_drops s + 1) \<and>
    (\<forall>x. q = Some x \<longrightarrow> ru_drops s' = ru_drops s \<and> served (ru_src s') (mo_layer w) (int e) x)"
proof -
  obtain q c' where "src_get src (ma_disk m (ru_calls s)) (mo_layer w) (int e) (ru_src s) = Some (q, c')" "inv c'"
    "has_layer c' = has_layer (ru_src s)" "\<forall>x. q = Some x \<longrightarrow> served c' (mo_layer w) (int e) x"
    using get [of "ru_src s" "ma_disk m (ru_calls s)" "mo_layer w" "int e"] assms by (auto simp: ready_def)
  then show ?thesis using assms by (auto simp: moe_get_def ready_def)
qed

lemma prefetch_step:
  assumes "ready m w s"
  shows "\<exists>s'. moe_prefetch m w es s = Some s' \<and> ready m w s' \<and> ru_drops s' = ru_drops s"
proof (cases "src_getmany src")
  case None
  then show ?thesis using assms by (simp add: moe_prefetch_def ready_def)
next
  case (Some f)
  obtain n c' where "f (ma_disk m (ru_calls s)) (mo_layer w) (map int es) (ru_src s) = Some (n, c')" "inv c'"
    "has_layer c' = has_layer (ru_src s)"
    using getmany [of "ru_src s" "ma_disk m (ru_calls s)" "mo_layer w" f "map int es"] Some assms by (auto simp: ready_def)
  then show ?thesis using assms Some by (auto simp: moe_prefetch_def ready_def)
qed

lemma run_experts_ok:
  assumes "ready m w s" "\<forall>(e, x)\<in>set es. e < nat (cf_n_experts cfg)"
  shows "\<exists>a s'. run_experts m cfg w z es acc s = Some (a, s') \<and> ready m w s' \<and> ru_drops s \<le> ru_drops s' \<and>
    (ru_drops s' = ru_drops s \<longrightarrow> a = fold (\<lambda>(e, wj). axpy (ma_fpu m) (nat (cf_latent cfg)) wj
       (expert_mxfp4 (ma_fpu m) (ma_avx m) cfg z (weights (mo_layer w) e))) es acc)"
  using assms
proof (induction es arbitrary: acc s)
  case (Cons ew es)
  obtain e wj where ew: "ew = (e, wj)" by fastforce
  obtain q s1 where g: "moe_get m src (mo_layer w) e s = Some (q, s1)" "ready m w s1" "ru_drops s \<le> ru_drops s1"
    "q = None \<longrightarrow> ru_drops s1 = ru_drops s + 1"
    "\<forall>x. q = Some x \<longrightarrow> ru_drops s1 = ru_drops s \<and> served (ru_src s1) (mo_layer w) (int e) x"
    using get_step [OF Cons.prems(1), of e] by auto
  have w: "mo_src w = Some src" "\<not> mo_cache_only w" "ma_view m = view" using Cons.prems(1) by (auto simp: ready_def)
  show ?case
  proof (cases q)
    case None
    then show ?thesis using Cons.IH [OF g(2), of acc] Cons.prems(2) g w by (fastforce simp: ew run_expert_def)
  next
    case (Some x)
    have "expert_mxfp4 (ma_fpu m) (ma_avx m) cfg z (view (ru_src s1) x) =
        expert_mxfp4 (ma_fpu m) (ma_avx m) cfg z (weights (mo_layer w) e)"
      using faithful [of "ru_src s1"] g(2,5) Some Cons.prems(2) by (auto simp: ready_def ew)
    then show ?thesis using Cons.IH [OF g(2)] Cons.prems(2) g Some w by (simp add: ew run_expert_def)
  qed
qed simp

lemma moe_token_ok:
  assumes "ready m w s"
  shows "\<exists>ot s'. moe_token m cfg w xt s = Some (ot, s') \<and> ready m w s' \<and> ru_drops s \<le> ru_drops s' \<and>
    (ru_drops s' = ru_drops s \<longrightarrow> ot = moe_ref (ma_fpu m) (ma_avx m) cfg w (weights (mo_layer w)) xt)"
proof -
  obtain idx wt where r: "route (ma_fpu m) cfg w xt = (idx, wt)" by fastforce
  have sel: "select_experts m cfg w xt (ru_src s) = (idx, wt)"
    using assms r by (auto simp: select_experts_def ready_def split: option.splits)
  obtain s1 where s1: "moe_prefetch m w idx s = Some s1" "ready m w s1" "ru_drops s1 = ru_drops s"
    using prefetch_step [OF assms] by blast
  have "\<forall>(e, x)\<in>set (zip idx wt). e < nat (cf_n_experts cfg)"
    using route_range [of cfg _ "ma_fpu m" w xt] r assms by (auto simp: ready_def dest: set_zip_leftD)
  note run = run_experts_ok [OF s1(2) this]
  let ?z = "k3_mmw (ma_fpu m) (ma_avx m) xt (mo_down w) (mo_wdt w) (nat (cf_hidden cfg)) (nat (cf_latent cfg))"
  obtain a s2 where "run_experts m cfg w ?z (zip idx wt) (replicate (nat (cf_latent cfg)) 0) s1 = Some (a, s2)"
    "ready m w s2" "ru_drops s1 \<le> ru_drops s2"
    "ru_drops s2 = ru_drops s1 \<longrightarrow> a = fold (\<lambda>(e, wj). axpy (ma_fpu m) (nat (cf_latent cfg)) wj
       (expert_mxfp4 (ma_fpu m) (ma_avx m) cfg ?z (weights (mo_layer w) e))) (zip idx wt) (replicate (nat (cf_latent cfg)) 0)"
    using run [of ?z "replicate (nat (cf_latent cfg)) 0"] by blast
  then show ?thesis using s1 sel r by (simp add: moe_token_def moe_ref_def Let_def)
qed

lemma k3_moe_ok:
  assumes "ready m w s"
  shows "\<exists>os s'. k3_moe m cfg w xs s = Some (os, s') \<and> ready m w s' \<and> ru_drops s \<le> ru_drops s' \<and>
    (ru_drops s' = ru_drops s \<longrightarrow> os = map (moe_ref (ma_fpu m) (ma_avx m) cfg w (weights (mo_layer w))) xs)"
  using assms
proof (induction xs arbitrary: s)
  case (Cons xt xs)
  obtain ot s1 where t: "moe_token m cfg w xt s = Some (ot, s1)" "ready m w s1" "ru_drops s \<le> ru_drops s1"
    "ru_drops s1 = ru_drops s \<longrightarrow> ot = moe_ref (ma_fpu m) (ma_avx m) cfg w (weights (mo_layer w)) xt"
    using moe_token_ok [OF Cons.prems, of xt] by blast
  obtain os s2 where "k3_moe m cfg w xs s1 = Some (os, s2)" "ready m w s2" "ru_drops s1 \<le> ru_drops s2"
    "ru_drops s2 = ru_drops s1 \<longrightarrow> os = map (moe_ref (ma_fpu m) (ma_avx m) cfg w (weights (mo_layer w))) xs"
    using Cons.IH [OF t(2)] by blast
  then show ?case using t by auto
qed simp

lemma apply_experts_ok:
  assumes "ready m w s" "\<forall>e\<in>set es. e < nat (cf_n_experts cfg)"
  shows "\<exists>b s'. apply_experts m cfg w src ridx zz es buf s = Some (b, s') \<and> ready m w s' \<and> ru_drops s \<le> ru_drops s' \<and>
    (ru_drops s' = ru_drops s \<longrightarrow> (\<forall>t j. b t j =
       (if t < length ridx \<and> j < length (ridx ! t) \<and> ridx ! t ! j \<in> set es
        then expert_mxfp4 (ma_fpu m) (ma_avx m) cfg (zz ! t) (weights (mo_layer w) (ridx ! t ! j)) else buf t j)))"
  using assms
proof (induction es arbitrary: buf s)
  case (Cons e es)
  obtain q s1 where g: "moe_get m src (mo_layer w) e s = Some (q, s1)" "ready m w s1" "ru_drops s \<le> ru_drops s1"
    "q = None \<longrightarrow> ru_drops s1 = ru_drops s + 1"
    "\<forall>x. q = Some x \<longrightarrow> ru_drops s1 = ru_drops s \<and> served (ru_src s1) (mo_layer w) (int e) x"
    using get_step [OF Cons.prems(1), of e] by auto
  have es: "\<forall>e\<in>set es. e < nat (cf_n_experts cfg)" using Cons.prems(2) by simp
  show ?case
  proof (cases q)
    case None
    then show ?thesis using Cons.IH [OF g(2) es, of buf] g by (force simp: add_increasing2)
  next
    case (Some x)
    have "expert_mxfp4 (ma_fpu m) (ma_avx m) cfg (zz ! t) (view (ru_src s1) x) =
        expert_mxfp4 (ma_fpu m) (ma_avx m) cfg (zz ! t) (weights (mo_layer w) e)" for t
      using faithful [of "ru_src s1"] g(2,5) Some Cons.prems(2) by (auto simp: ready_def)
    moreover have "ma_view m = view" using Cons.prems(1) by (simp add: ready_def)
    ultimately show ?thesis using Cons.IH [OF g(2) es, of "apply_expert m cfg ridx zz e (view (ru_src s1) x) buf"] g Some
      by (auto simp: apply_expert_def)
  qed
qed simp

lemma combine_eq:
  assumes "length idx = length wt" "\<And>j. j < length wt \<Longrightarrow> buf j = f (idx ! j)"
  shows "combine F L wt buf = fold (\<lambda>(e, wj). axpy F L wj (f e)) (zip idx wt) (replicate L 0)"
proof -
  have "fold (\<lambda>(j, wj). axpy F L wj (buf j)) (zip [k..<k + length wt] wt) acc =
      fold (\<lambda>(e, wj). axpy F L wj (f e)) (zip idx wt) acc"
    if "length idx = length wt" "\<forall>j < length wt. buf (k + j) = f (idx ! j)" for k idx wt acc
    using that
  proof (induction wt arbitrary: idx k acc)
    case (Cons x wt)
    obtain e es where i: "idx = e # es" using Cons.prems(1) by (cases idx) auto
    have "buf k = f e" using Cons.prems(2) [THEN spec, of 0] by (simp add: i)
    moreover have "buf (Suc k + j) = f (es ! j)" if "j < length wt" for j
      using Cons.prems(2) [THEN spec, of "Suc j"] that by (simp add: i)
    moreover have "[k..<k + length (x # wt)] = k # [Suc k..<Suc k + length wt]" by (subst upt_conv_Cons) simp_all
    ultimately show ?case using Cons.IH [of es "Suc k"] Cons.prems(1) by (simp only: i zip_Cons_Cons fold_simps) simp
  qed simp
  from this [of idx wt 0] show ?thesis using assms by (simp add: combine_def case_prod_beta')
qed

lemma chunk_ok:
  assumes "ready m w s"
  shows "\<exists>os s'. moe_prefill_chunk m junk cfg w src xs s = Some (os, s') \<and> ready m w s' \<and> ru_drops s \<le> ru_drops s' \<and>
    (ru_drops s' = ru_drops s \<longrightarrow> os = map (moe_ref (ma_fpu m) (ma_avx m) cfg w (weights (mo_layer w))) xs)"
proof -
  let ?F = "ma_fpu m" and ?avx = "ma_avx m" and ?L = "nat (cf_latent cfg)"
  let ?z = "\<lambda>xt. k3_mmw ?F ?avx xt (mo_down w) (mo_wdt w) (nat (cf_hidden cfg)) ?L"
  define routed where "routed = map (route ?F cfg w) xs"
  define uniq where "uniq = unique_experts (nat (cf_n_experts cfg)) (map fst routed)"
  obtain s1 where s1: "moe_prefetch m w uniq s = Some s1" "ready m w s1" "ru_drops s1 = ru_drops s"
    using prefetch_step [OF assms] by blast
  have "\<forall>e\<in>set uniq. e < nat (cf_n_experts cfg)" by (simp add: uniq_def unique_experts_set)
  from apply_experts_ok [OF s1(2) this, of "map fst routed" "map ?z xs" junk]
  obtain b s2 where b: "apply_experts m cfg w src (map fst routed) (map ?z xs) uniq junk s1 = Some (b, s2)" "ready m w s2"
    "ru_drops s1 \<le> ru_drops s2" "ru_drops s2 = ru_drops s1 \<longrightarrow> (\<forall>t j. b t j =
       (if t < length routed \<and> j < length (map fst routed ! t) \<and> map fst routed ! t ! j \<in> set uniq
        then expert_mxfp4 ?F ?avx cfg (map ?z xs ! t) (weights (mo_layer w) (map fst routed ! t ! j)) else junk t j))"
    by auto
  let ?os = "map (\<lambda>t. moe_tail ?F ?avx cfg w (xs ! t) (combine ?F ?L (snd (routed ! t)) (b t))) [0..<length xs]"
  have run: "moe_prefill_chunk m junk cfg w src xs s = Some (?os, s2)"
    using s1(1) b(1) by (simp add: moe_prefill_chunk_def Let_def routed_def uniq_def)
  have "?os = map (moe_ref ?F ?avx cfg w (weights (mo_layer w))) xs" if same: "ru_drops s2 = ru_drops s1"
  proof (rule nth_equalityI)
    fix t assume "t < length ?os"
    then have t: "t < length xs" by simp
    obtain idx wt where r: "route ?F cfg w (xs ! t) = (idx, wt)" by fastforce
    have len: "length idx = length wt" using route_lengths [of ?F cfg w "xs ! t"] r by simp
    have "idx ! j \<in> set uniq" if "j < length idx" for j
    proof -
      have "idx ! j < nat (cf_n_experts cfg)" 
        using route_range [of cfg "idx ! j" ?F w "xs ! t"] r that assms by (simp add: ready_def)
      moreover have "map fst routed ! t \<in> set (map fst routed)" using t by (intro nth_mem) (simp add: routed_def)
      then have "idx \<in> set (map fst routed)" using r t by (simp add: routed_def)
      moreover have "idx ! j \<in> set idx" using that by simp
      ultimately show ?thesis by (auto simp: uniq_def unique_experts_set)
    qed
    then have "b t j = expert_mxfp4 ?F ?avx cfg (?z (xs ! t)) (weights (mo_layer w) (idx ! j))" if "j < length wt" for j
      using b(4) same t that r len by (simp add: routed_def)
    then have "combine ?F ?L wt (b t) = fold (\<lambda>(e, wj). axpy ?F ?L wj
        (expert_mxfp4 ?F ?avx cfg (?z (xs ! t)) (weights (mo_layer w) e))) (zip idx wt) (replicate ?L 0)"
      by (rule combine_eq [OF len])
    then show "?os ! t = map (moe_ref ?F ?avx cfg w (weights (mo_layer w))) xs ! t"
      using t r by (simp add: routed_def moe_ref_def Let_def)
  qed simp
  then show ?thesis using run b(2,3) s1(3) by auto
qed

lemma prefill_chunks_ok:
  assumes "ready m w s"
  shows "\<exists>os s'. prefill_chunks m junk cfg w src xs s = Some (os, s') \<and> ready m w s' \<and> ru_drops s \<le> ru_drops s' \<and>
    (ru_drops s' = ru_drops s \<longrightarrow> os = map (moe_ref (ma_fpu m) (ma_avx m) cfg w (weights (mo_layer w))) xs)"
  using assms
proof (induction "length xs" arbitrary: xs s rule: less_induct)
  case less
  show ?case
  proof (cases "xs = []")
    case True
    then show ?thesis using less.prems by (simp add: prefill_chunks.simps)
  next
    case False
    let ?ref = "moe_ref (ma_fpu m) (ma_avx m) cfg w (weights (mo_layer w))"
    let ?head = "if length (take 64 xs) = 1 then k3_moe m cfg w (take 64 xs) s else moe_prefill_chunk m junk cfg w src (take 64 xs) s"
    obtain os s1 where h: "?head = Some (os, s1)" "ready m w s1" "ru_drops s \<le> ru_drops s1"
      "ru_drops s1 = ru_drops s \<longrightarrow> os = map ?ref (take 64 xs)"
      using k3_moe_ok [OF less.prems, of "take 64 xs"] chunk_ok [OF less.prems, of junk "take 64 xs"]
      by (cases "length (take 64 xs) = 1") (metis (no_types, lifting))+
    obtain os' s2 where t: "prefill_chunks m junk cfg w src (drop 64 xs) s1 = Some (os', s2)" "ready m w s2"
      "ru_drops s1 \<le> ru_drops s2" "ru_drops s2 = ru_drops s1 \<longrightarrow> os' = map ?ref (drop 64 xs)"
      using less.hyps [of "drop 64 xs" s1] h(2) False by auto
    have "map ?ref xs = map ?ref (take 64 xs) @ map ?ref (drop 64 xs)" by (simp flip: map_append)
    then show ?thesis using h t False by (subst prefill_chunks.simps) auto
  qed
qed

text \<open>Batched or not, a prefill with no drop is the reference mixture of every token.\<close>

lemma prefill_ok:
  assumes "ready m w s"
  shows "\<exists>os s'. k3_moe_prefill m no_batch junk cfg w xs s = Some (os, s') \<and> ready m w s' \<and> ru_drops s \<le> ru_drops s' \<and>
    (ru_drops s' = ru_drops s \<longrightarrow> os = map (moe_ref (ma_fpu m) (ma_avx m) cfg w (weights (mo_layer w))) xs)"
  using k3_moe_ok [OF assms, of xs] prefill_chunks_ok [OF assms, of junk xs] assms
  by (auto simp: k3_moe_prefill_def ready_def)

end

end
