(* ===== verification/K3_Moe_Cache.thy ===== *)
theory K3_Moe_Cache
  imports K3_Moe_Laws K3_Live
begin

text \<open>
  The mixture over the streaming cache: the pointers of a served expert read the tensors of the checkpoint, so
  the mixture is the one over the checkpoint's bytes, whatever the cache held, evicted or read from.
\<close>

section \<open>Reading through the cache\<close>

definition ptr_bytes :: "K3Cache \<Rightarrow> arena_ptr \<Rightarrow> bytes" where
  "ptr_bytes c p = drop (nat (snd p)) (arena c ! fst p)"

definition cache_view :: "K3Cache \<Rightarrow> K3ExpertQ \<Rightarrow> (bytes \<times> bytes) list" where
  "cache_view c q = map (\<lambda>(p, s). (ptr_bytes c p, ptr_bytes c s)) q"

text \<open>The bytes of a tensor on disk, and the six tensors of an expert.\<close>

definition tensor_bytes :: "(int \<Rightarrow> bytes) \<Rightarrow> K3Tensor \<Rightarrow> bytes" where
  "tensor_bytes fl t = slice (fl (t_shard t)) (t_off t) (t_nbytes t)"

definition checkpoint_expert :: "K3St \<Rightarrow> (int \<Rightarrow> bytes) \<Rightarrow> int \<Rightarrow> nat \<Rightarrow> (bytes \<times> bytes) list" where
  "checkpoint_expert st fl layer e =
     map (\<lambda>wn. case find_pair st layer (int e) wn of Some (p, s) \<Rightarrow> (tensor_bytes fl p, tensor_bytes fl s)
               | None \<Rightarrow> ([], [])) W"

text \<open>
  What the kernels take for granted of an expert's tensors: the loader checks that nibbles and scales fit each
  other, not that they fit the configuration. Widths are even, and each matrix has the bytes its rows need.
\<close>

definition matrix_fits :: "qpair option \<Rightarrow> nat \<Rightarrow> nat \<Rightarrow> bool" where
  "matrix_fits pc inn rows \<longleftrightarrow>
     (case pc of None \<Rightarrow> True
      | Some (p, s) \<Rightarrow> rows * (inn div 2) \<le> nat (t_nbytes p) \<and> rows * ((inn + 31) div 32) \<le> nat (t_nbytes s))"

definition expert_fits :: "K3St \<Rightarrow> K3Cfg \<Rightarrow> int \<Rightarrow> nat \<Rightarrow> bool" where
  "expert_fits st cfg layer e \<longleftrightarrow>
     (let L = nat (cf_latent cfg); I = nat (cf_moe_inter cfg)
      in matrix_fits (find_pair st layer (int e) (W ! 0)) L I \<and> matrix_fits (find_pair st layer (int e) (W ! 1)) I L \<and>
         matrix_fits (find_pair st layer (int e) (W ! 2)) L I)"

definition experts_fit :: "K3St \<Rightarrow> K3Cfg \<Rightarrow> bool" where
  "experts_fit st cfg \<longleftrightarrow> 0 < cf_n_experts cfg \<and> even (nat (cf_latent cfg)) \<and> even (nat (cf_moe_inter cfg)) \<and>
     list_all (\<lambda>l. list_all (expert_fits st cfg l) [0..<nat (cf_n_experts cfg)]) [0..cf_n_layers cfg - 1]"

lemma reads_tensor_bytes:
  assumes "reads_tensor fl c p t" "tables_ok c"
  shows "take (nat (t_nbytes t)) (ptr_bytes c p) = tensor_bytes fl t" "length (tensor_bytes fl t) = nat (t_nbytes t)"
    "nat (t_nbytes t) \<le> length (ptr_bytes c p)"
proof -
  show eq: "take (nat (t_nbytes t)) (ptr_bytes c p) = tensor_bytes fl t"
    using assms(1) by (simp add: reads_tensor_def read_ptr_def ptr_bytes_def tensor_bytes_def slice_def)
  have "length (arena c ! fst p) = nat (slot_bytes c)" "0 \<le> snd p" "snd p + t_nbytes t \<le> slot_bytes c"
    using assms by (auto simp: reads_tensor_def ptr_inside_def tables_ok_def)
  then show le: "nat (t_nbytes t) \<le> length (ptr_bytes c p)" by (simp add: ptr_bytes_def)
  then show "length (tensor_bytes fl t) = nat (t_nbytes t)" by (simp flip: eq)
qed

lemma matrix_reads:
  assumes "reads_tensor fl c a p" "reads_tensor fl c b t" "tables_ok c" "matrix_fits (Some (p, t)) inn rows" "even inn"
  shows "k3_matmul_mxfp4 F avx x (ptr_bytes c a) (ptr_bytes c b) inn rows 32 =
    k3_matmul_mxfp4 F avx x (tensor_bytes fl p) (tensor_bytes fl t) inn rows 32"
proof (rule mxfp4_cong [OF _ _ _ _ assms(5)])
  note pa = reads_tensor_bytes [OF assms(1,3)] and sb = reads_tensor_bytes [OF assms(2,3)]
  have fit: "rows * (inn div 2) \<le> nat (t_nbytes p)" "rows * ((inn + 31) div 32) \<le> nat (t_nbytes t)"
    using assms(4) by (auto simp: matrix_fits_def)
  show "rows * (inn div 2) \<le> length (ptr_bytes c a)" "rows * (inn div 2) \<le> length (tensor_bytes fl p)"
    using fit pa by auto
  show "ptr_bytes c a ! i = tensor_bytes fl p ! i" if "i < rows * (inn div 2)" for i
    using that fit(1) by (simp flip: pa(1))
  show "ptr_bytes c b ! i = tensor_bytes fl t ! i" if "i < rows * ((inn + 31) div 32)" for i
    using that fit(2) by (simp flip: sb(1))
qed

lemma view_faithful:
  assumes serves: "q_serves st fl c layer (int e) q" and tab: "tables_ok c" and fits: "expert_fits st cfg layer e"
    and ev: "even (nat (cf_latent cfg))" "even (nat (cf_moe_inter cfg))"
  shows "expert_mxfp4 F avx cfg z (cache_view c q) = expert_mxfp4 F avx cfg z (checkpoint_expert st fl layer e)"
proof -
  have len: "length q = 3" using serves by (simp add: q_serves_def)
  have read: "\<exists>p s. find_pair st layer (int e) (W ! i) = Some (p, s) \<and> reads_tensor fl c (fst (q ! i)) p \<and>
      reads_tensor fl c (snd (q ! i)) s" if "i < 3" for i
    using serves that by (simp add: q_serves_def)
  obtain p0 s0 p1 s1 p2 s2 where
    m: "find_pair st layer (int e) (W ! 0) = Some (p0, s0)" "find_pair st layer (int e) (W ! 1) = Some (p1, s1)"
      "find_pair st layer (int e) (W ! 2) = Some (p2, s2)"
    and r: "reads_tensor fl c (fst (q ! 0)) p0" "reads_tensor fl c (snd (q ! 0)) s0"
      "reads_tensor fl c (fst (q ! 1)) p1" "reads_tensor fl c (snd (q ! 1)) s1"
      "reads_tensor fl c (fst (q ! 2)) p2" "reads_tensor fl c (snd (q ! 2)) s2"
    using read [of 0] read [of 1] read [of 2] by auto
  have fit: "matrix_fits (Some (p0, s0)) (nat (cf_latent cfg)) (nat (cf_moe_inter cfg))"
    "matrix_fits (Some (p1, s1)) (nat (cf_moe_inter cfg)) (nat (cf_latent cfg))"
    "matrix_fits (Some (p2, s2)) (nat (cf_latent cfg)) (nat (cf_moe_inter cfg))"
    using fits m by (simp_all add: expert_fits_def Let_def)
  have lenW: "length W = 3" by (simp add: W_def)
  have g: "nat K3_MXFP4_GROUP = 32" by (simp add: K3_MXFP4_GROUP_def)
  show ?thesis unfolding expert_mxfp4_def Let_def g
    using matrix_reads [OF r(1,2) tab fit(1) ev(1)] matrix_reads [OF r(3,4) tab fit(2) ev(2)]
      matrix_reads [OF r(5,6) tab fit(3) ev(1)]
    by (simp add: cache_view_def checkpoint_expert_def len lenW m m(2) [unfolded One_nat_def] case_prod_beta)
qed

section \<open>The cache is a source for the mixture\<close>

interpretation cached_moe: moe_source "cache_src st noprefetch"
  "\<lambda>c. st_sane st \<and> cache_inv st fl c \<and> experts_fit st cfg \<and> n_layers c = cf_n_layers cfg"
  "\<lambda>c l. 0 \<le> l \<and> l < n_layers c" "\<lambda>d. dk_file (fst d) = fl" "q_serves st fl" cache_view "checkpoint_expert st fl" cfg
  for st noprefetch fl cfg
proof unfold_locales
  fix c and d :: "Disk \<times> bool" and l e
  assume a: "st_sane st \<and> cache_inv st fl c \<and> experts_fit st cfg \<and> n_layers c = cf_n_layers cfg" "dk_file (fst d) = fl"
  show "\<exists>q c'. src_get (cache_src st noprefetch) d l e c = Some (q, c') \<and>
      (st_sane st \<and> cache_inv st fl c' \<and> experts_fit st cfg \<and> n_layers c' = cf_n_layers cfg) \<and>
      (\<lambda>l. 0 \<le> l \<and> l < n_layers c') = (\<lambda>l. 0 \<le> l \<and> l < n_layers c) \<and> (\<forall>x. q = Some x \<longrightarrow> q_serves st fl c' l e x)"
    using cache_get_ok [of st fl c "fst d" "snd d" l e] a by (auto simp: cache_src_def evolves_def split: prod.splits)
next
  fix c and d :: "Disk \<times> bool" and l f es
  assume a: "st_sane st \<and> cache_inv st fl c \<and> experts_fit st cfg \<and> n_layers c = cf_n_layers cfg" "dk_file (fst d) = fl"
    "0 \<le> l \<and> l < n_layers c" "src_getmany (cache_src st noprefetch) = Some f"
  show "\<exists>n c'. f d l es c = Some (n, c') \<and>
      (st_sane st \<and> cache_inv st fl c' \<and> experts_fit st cfg \<and> n_layers c' = cf_n_layers cfg) \<and>
      (\<lambda>l. 0 \<le> l \<and> l < n_layers c') = (\<lambda>l. 0 \<le> l \<and> l < n_layers c)"
    using cache_getmany_ok [of st fl c "fst d" l es] a
    by (auto simp: cache_src_def evolves_def split: prod.splits if_splits)
next
  fix c g l e q
  assume a: "st_sane st \<and> cache_inv st fl c \<and> experts_fit st cfg \<and> n_layers c = cf_n_layers cfg"
    "src_resident (cache_src st noprefetch) = Some g" "g l e c = Some q"
  then show "q_serves st fl c l e q" using cache_resident_ok by (auto simp: cache_src_def)
next
  fix c l e q F avx z
  assume a: "st_sane st \<and> cache_inv st fl c \<and> experts_fit st cfg \<and> n_layers c = cf_n_layers cfg" "0 \<le> l \<and> l < n_layers c"
    "e < nat (cf_n_experts cfg)" "q_serves st fl c l (int e) q"
  then have "expert_fits st cfg l e" "tables_ok c" by (auto simp: experts_fit_def list_all_iff cache_inv_def cache_wf_def)
  then show "expert_mxfp4 F avx cfg z (cache_view c q) = expert_mxfp4 F avx cfg z (checkpoint_expert st fl l e)"
    using a by (intro view_faithful) (auto simp: experts_fit_def)
qed

text \<open>A layer of the model streamed through a cache: what a run of the mixture starts from.\<close>

definition streams :: "K3St \<Rightarrow> (int \<Rightarrow> bytes) \<Rightarrow> K3Cfg \<Rightarrow> (K3Cache, K3ExpertQ, Disk \<times> bool) Machine \<Rightarrow>
  (K3Cache, K3ExpertQ, Disk \<times> bool) K3MoeW \<Rightarrow> K3Cache Run \<Rightarrow> bool" where
  "streams st fl cfg m w s \<longleftrightarrow> cache_inv st fl (ru_src s) \<and> n_layers (ru_src s) = cf_n_layers cfg \<and>
     0 \<le> mo_layer w \<and> mo_layer w < cf_n_layers cfg \<and> (\<forall>n. dk_file (fst (ma_disk m n)) = fl) \<and> ma_view m = cache_view \<and>
     (\<exists>noprefetch. mo_src w = Some (cache_src st noprefetch)) \<and> \<not> mo_cache_only w"

lemma streams_ready:
  assumes "streams st fl cfg m w s" "st_sane st" "experts_fit st cfg"
  shows "\<exists>np. mo_src w = Some (cache_src st np) \<and> cached_moe.ready st np fl cfg m w s"
proof -
  obtain np where np: "mo_src w = Some (cache_src st np)" using assms(1) by (auto simp: streams_def)
  have "0 < cf_n_experts cfg" using assms(3) by (simp add: experts_fit_def)
  then have "cached_moe.ready st np fl cfg m w s"
    unfolding cached_moe.ready_def using assms np by (auto simp: streams_def)
  then show ?thesis using np by blast
qed

lemma ready_streams: "cached_moe.ready st np fl cfg m w s \<Longrightarrow> streams st fl cfg m w s"
  unfolding cached_moe.ready_def by (auto simp: streams_def)

lemma prefill_streams:
  assumes "streams st fl cfg m w s" "st_sane st" "experts_fit st cfg"
  shows "\<exists>os s'. k3_moe_prefill m no_batch junk cfg w xs s = Some (os, s') \<and> streams st fl cfg m w s' \<and>
    ru_drops s \<le> ru_drops s' \<and>
    (ru_drops s' = ru_drops s \<longrightarrow> os = map (moe_ref (ma_fpu m) (ma_avx m) cfg w (checkpoint_expert st fl (mo_layer w))) xs)"
proof -
  obtain np where "cached_moe.ready st np fl cfg m w s" using streams_ready [OF assms] by blast
  from cached_moe.prefill_ok [OF this, of no_batch junk xs] show ?thesis using ready_streams by blast
qed

section \<open>Builds\<close>

lemma mmw_builds_agree: "wdt \<noteq> K3_WI8 \<Longrightarrow> k3_mmw F avx x Wb wdt inn out = k3_mmw F avx' x Wb wdt inn out"
  using bf16_builds_agree [of F avx avx'] by (simp add: k3_mmw_def)

lemma moe_ref_builds:
  assumes "mo_wdt w \<noteq> K3_WI8"
  shows "moe_ref F avx cfg w weights xt = moe_ref F avx' cfg w weights xt"
proof -
  have mm: "k3_mmw F avx x Wb (mo_wdt w) inn out = k3_mmw F avx' x Wb (mo_wdt w) inn out" for x Wb inn out
    by (rule mmw_builds_agree [OF assms])
  have ex: "expert_mxfp4 F avx = expert_mxfp4 F avx'"
    using mxfp4_builds_agree [of F avx avx'] by (intro ext) (simp add: expert_mxfp4_def)
  show ?thesis by (simp add: moe_ref_def moe_tail_def Let_def mm [of _ _ _ _] ex)
qed

end
