(* ===== verification/K3_Forward_Laws.thy ===== *)
theory K3_Forward_Laws
  imports K3_Decoder K3_Attention_Laws K3_Moe_Cache
begin

text \<open>
  The forward pass against a reference with every weight at hand: what streaming computes when no expert is
  dropped, and that a sequence may be fed in pieces, over a cache whose rows past the cached positions are stale.
\<close>

section \<open>Attention of one layer\<close>

text \<open>A layer and its carried state fit each other: the state has its shape, an MLA layer has a cache of \<open>cap\<close> rows.\<close>

definition attn_ok :: "K3Cfg \<Rightarrow> nat \<Rightarrow> nat \<Rightarrow> ('c, 'q, 'd) K3LayerW \<Rightarrow> KdaState \<Rightarrow> kv_rows option \<Rightarrow> bool" where
  "attn_ok c cap L w st kv \<longleftrightarrow> kda_shape c st \<and>
     (ly_kda w \<noteq> None \<or> ly_mla w \<noteq> None \<and> k3_is_mla c (int L) \<and>
        (case kv of Some (k, r) \<Rightarrow> length k = cap \<and> length r = cap | None \<Rightarrow> False))"

text \<open>Two carried states that agree on the first \<open>n\<close> positions.\<close>

definition kv_agree :: "nat \<Rightarrow> kv_rows option \<Rightarrow> kv_rows option \<Rightarrow> bool" where
  "kv_agree n kv kv' \<longleftrightarrow>
     (case (kv, kv') of (Some (k, r), Some (k', r')) \<Rightarrow> take n k = take n k' \<and> take n r = take n r' | (None, None) \<Rightarrow> True | _ \<Rightarrow> False)"

definition attn_step ::
  "fpu \<Rightarrow> bool \<Rightarrow> K3Cfg \<Rightarrow> nat \<Rightarrow> nat \<Rightarrow> ('c, 'q, 'd) K3LayerW \<Rightarrow> f32 list list \<Rightarrow> KdaState \<Rightarrow> kv_rows option \<Rightarrow> nat \<Rightarrow>
    (f32 list list \<times> KdaState \<times> kv_rows option) option" where
  "attn_step F avx c cap L w hin st kv cached =
     map_option (\<lambda>(tmp, st', kv'). (tmp, the st', if k3_is_mla c (int L) then kv' else kv))
       (attention F avx c w hin (Some st) (if k3_is_mla c (int L) then kv else None) cached cap)"

lemma kda_state_Some: "\<exists>os s'. k3_kda_layer F avx w c xs (Some st) = (os, Some s')"
  by (auto simp: k3_kda_layer_def Let_def split: prod.splits)

lemma attn_step_kda:
  assumes "ly_kda w = Some kda"
  shows "attn_step F avx c cap L w hin st kv cached =
    (case k3_kda_layer F avx kda c hin (Some st) of (os, st') \<Rightarrow> Some (os, the st', kv))"
  using assms by (auto simp: attn_step_def attention_def split: prod.splits)

lemma attn_step_mla:
  assumes "ly_kda w = None" "ly_mla w = Some mla" "k3_is_mla c (int L)"
  shows "attn_step F avx c cap L w hin st kv cached =
    map_option (\<lambda>(tmp, kv'). (tmp, st, kv')) (k3_mla_cached F avx mla c hin kv cached cap)"
  using assms by (auto simp: attn_step_def attention_def map_option_case split: option.splits)

lemma attn_ok_mla:
  assumes "attn_ok c cap L w st kv" "ly_kda w = None"
  obtains mla k r where "ly_mla w = Some mla" "k3_is_mla c (int L)" "kv = Some (k, r)" "length k = cap" "length r = cap" "kda_shape c st"
  using assms by (auto simp: attn_ok_def split: option.splits)

lemma attn_returns:
  assumes "attn_ok c cap L w st kv" "cached + length hin \<le> cap"
  shows "\<exists>tmp st' kv'. attn_step F avx c cap L w hin st kv cached = Some (tmp, st', kv') \<and> length tmp = length hin \<and>
    attn_ok c cap L w st' kv'"
proof (cases "ly_kda w")
  case (Some kda)
  obtain os s' where k: "k3_kda_layer F avx kda c hin (Some st) = (os, Some s')" using kda_state_Some by blast
  then show ?thesis using kda_shape_next [of c st F avx kda hin os "Some s'"] assms(1) Some
    by (auto simp: attn_step_kda attn_ok_def)
next
  case None
  obtain mla k r where m: "ly_mla w = Some mla" "k3_is_mla c (int L)" "kv = Some (k, r)" "length k = cap" "length r = cap"
    "kda_shape c st" using attn_ok_mla [OF assms(1) None] .
  then show ?thesis using mla_returns [OF m(4,5) assms(2), of F avx mla c] None
    by (auto simp: attn_step_mla attn_ok_def)
qed

lemma attn_split:
  assumes "attn_ok c cap L w st kv" "cached + length xs + length ys \<le> cap"
    and "attn_step F avx c cap L w xs st kv cached = Some (a, st1, kv1)"
    and "attn_step F avx c cap L w ys st1 kv1 (cached + length xs) = Some (b, st2, kv2)"
  shows "attn_step F avx c cap L w (xs @ ys) st kv cached = Some (a @ b, st2, kv2)"
proof (cases "ly_kda w")
  case (Some kda)
  have sh: "kda_shape c st" using assms(1) by (simp add: attn_ok_def)
  have A: "k3_kda_layer F avx kda c xs (Some st) = (a, Some st1)" "kv1 = kv"
    using assms(3) Some kda_state_Some [of F avx kda c xs st] by (auto simp: attn_step_kda split: prod.splits)
  have B: "k3_kda_layer F avx kda c ys (Some st1) = (b, Some st2)" "kv2 = kv"
    using assms(4) Some kda_state_Some [of F avx kda c ys st1] A(2) by (auto simp: attn_step_kda split: prod.splits)
  show ?thesis using kda_split [OF sh A(1) B(1)] A(2) B(2) Some by (simp add: attn_step_kda)
next
  case None
  obtain mla k r where m: "ly_mla w = Some mla" "k3_is_mla c (int L)" "kv = Some (k, r)" "length k = cap" "length r = cap"
    "kda_shape c st" using attn_ok_mla [OF assms(1) None] .
  have A: "k3_mla_cached F avx mla c xs (Some (k, r)) cached cap = Some (a, kv1)" "st1 = st"
    using assms(3) m(3) by (auto simp: attn_step_mla [OF None m(1,2)])
  have B: "k3_mla_cached F avx mla c ys kv1 (cached + length xs) cap = Some (b, kv2)" "st2 = st"
    using assms(4) A(2) by (auto simp: attn_step_mla [OF None m(1,2)])
  show ?thesis using mla_split [OF m(4,5) assms(2) A(1) B(1)] A(2) B(2) m(3) by (simp add: attn_step_mla [OF None m(1,2)])
qed

lemma attn_stale:
  assumes "attn_ok c cap L w st kv" "attn_ok c cap' L w st kv'" "ly_kda w = None \<longrightarrow> kv_agree cached kv kv'"
    and room: "cached + length xs \<le> cap" "cached + length xs \<le> cap'"
    and step: "attn_step F avx c cap L w xs st kv cached = Some (a, st1, kv1)"
  shows "\<exists>kv1'. attn_step F avx c cap' L w xs st kv' cached = Some (a, st1, kv1') \<and>
    (ly_kda w = None \<longrightarrow> kv_agree (cached + length xs) kv1 kv1')"
proof (cases "ly_kda w")
  case (Some kda)
  then show ?thesis using step by (auto simp: attn_step_kda split: prod.splits)
next
  case None
  obtain mla k r where m: "ly_mla w = Some mla" "k3_is_mla c (int L)" "kv = Some (k, r)" "length k = cap" "length r = cap"
    "kda_shape c st" using attn_ok_mla [OF assms(1) None] .
  obtain mla' k' r' where m': "ly_mla w = Some mla'" "k3_is_mla c (int L)" "kv' = Some (k', r')" "length k' = cap'" "length r' = cap'"
    "kda_shape c st" using attn_ok_mla [OF assms(2) None] .
  have k': "take cached k = take cached k'" "take cached r = take cached r'" using assms(3) None m(3) m'(3) by (auto simp: kv_agree_def)
  obtain k1 r1 where A: "k3_mla_cached F avx mla c xs (Some (k, r)) cached cap = Some (a, Some (k1, r1))" "st1 = st" "kv1 = Some (k1, r1)"
    using step m(3) mla_returns [OF m(4,5) room(1), of F avx mla c] by (auto simp: attn_step_mla [OF None m(1,2)])
  obtain a' k1' r1' where B: "k3_mla_cached F avx mla c xs (Some (k', r')) cached cap' = Some (a', Some (k1', r1'))"
    using mla_returns [OF m'(4,5) room(2), of F avx mla c] by blast
  show ?thesis using mla_stale [OF k' m(4) m'(4) m(5) m'(5) room A(1) B(1)] A B m'(3)
    by (simp add: attn_step_mla [OF None m(1,2)] kv_agree_def)
qed

section \<open>One layer, every expert at hand\<close>

definition mlp_ref ::
  "fpu \<Rightarrow> bool \<Rightarrow> K3Cfg \<Rightarrow> (int \<Rightarrow> nat \<Rightarrow> (bytes \<times> bytes) list) \<Rightarrow> nat \<Rightarrow> ('c, 'q, 'd) K3LayerW \<Rightarrow> token \<Rightarrow> token" where
  "mlp_ref F avx c weights L w = (\<lambda>(pref, blocks).
     let x = mlp_input F c w (pref, blocks);
         tmp = (case ly_moe w of Some moe \<Rightarrow> moe_ref F avx c moe (weights (int L)) x | None \<Rightarrow> dense_mlp F avx c w x)
     in (vadd F (nat (cf_hidden c)) pref tmp, blocks))"

definition layer_in :: "fpu \<Rightarrow> K3Cfg \<Rightarrow> ('c, 'q, 'd) K3LayerW \<Rightarrow> token \<Rightarrow> f32 list" where
  "layer_in F c w t = k3_rmsnorm F (mix_before F c w t) (ly_in_norm w) (nat (cf_hidden c)) (cf_rms_eps c)"

definition layer_ref ::
  "fpu \<Rightarrow> bool \<Rightarrow> K3Cfg \<Rightarrow> (int \<Rightarrow> nat \<Rightarrow> (bytes \<times> bytes) list) \<Rightarrow> nat \<Rightarrow> nat \<Rightarrow> ('c, 'q, 'd) K3LayerW \<Rightarrow> token list \<Rightarrow>
    KdaState \<Rightarrow> kv_rows option \<Rightarrow> nat \<Rightarrow> (token list \<times> KdaState \<times> kv_rows option) option" where
  "layer_ref F avx c weights cap L w toks st kv cached =
     map_option (\<lambda>(tmp, st', kv'). (map (mlp_ref F avx c weights L w) (map2 (after_attention F c (int L)) toks tmp), st', kv'))
       (attn_step F avx c cap L w (map (layer_in F c w) toks) st kv cached)"

lemma layer_returns:
  assumes "attn_ok c cap L w st kv" "cached + length toks \<le> cap"
  shows "\<exists>toks' st' kv'. layer_ref F avx c weights cap L w toks st kv cached = Some (toks', st', kv') \<and>
    length toks' = length toks \<and> attn_ok c cap L w st' kv'"
  using attn_returns [OF assms(1), of cached "map (layer_in F c w) toks" F avx] assms(2) by (auto simp: layer_ref_def)

lemma layer_split:
  assumes ok: "attn_ok c cap L w st kv" and room: "cached + length xs + length ys \<le> cap"
    and A: "layer_ref F avx c weights cap L w xs st kv cached = Some (a, st1, kv1)"
    and B: "layer_ref F avx c weights cap L w ys st1 kv1 (cached + length xs) = Some (b, st2, kv2)"
  shows "layer_ref F avx c weights cap L w (xs @ ys) st kv cached = Some (a @ b, st2, kv2)"
proof -
  obtain ta where ta: "attn_step F avx c cap L w (map (layer_in F c w) xs) st kv cached = Some (ta, st1, kv1)"
    "a = map (mlp_ref F avx c weights L w) (map2 (after_attention F c (int L)) xs ta)"
    using A by (auto simp: layer_ref_def)
  obtain tb where tb: "attn_step F avx c cap L w (map (layer_in F c w) ys) st1 kv1 (cached + length xs) = Some (tb, st2, kv2)"
    "b = map (mlp_ref F avx c weights L w) (map2 (after_attention F c (int L)) ys tb)"
    using B by (auto simp: layer_ref_def)
  have "length ta = length xs" using attn_returns [OF ok, of cached "map (layer_in F c w) xs" F avx] room ta(1) by auto
  then show ?thesis using attn_split [OF ok _ ta(1), of "map (layer_in F c w) ys"] room tb ta(2) by (simp add: layer_ref_def)
qed

lemma layer_stale:
  assumes "attn_ok c cap L w st kv" "attn_ok c cap' L w st kv'" "ly_kda w = None \<longrightarrow> kv_agree cached kv kv'"
    and "cached + length xs \<le> cap" "cached + length xs \<le> cap'"
    and "layer_ref F avx c weights cap L w xs st kv cached = Some (a, st1, kv1)"
  shows "\<exists>kv1'. layer_ref F avx c weights cap' L w xs st kv' cached = Some (a, st1, kv1') \<and>
    (ly_kda w = None \<longrightarrow> kv_agree (cached + length xs) kv1 kv1')"
  using attn_stale [OF assms(1-3), of "map (layer_in F c w) xs" F avx] assms(4-6) by (fastforce simp: layer_ref_def)

section \<open>All layers\<close>

fun layers_ref ::
  "fpu \<Rightarrow> bool \<Rightarrow> K3Cfg \<Rightarrow> (int \<Rightarrow> nat \<Rightarrow> (bytes \<times> bytes) list) \<Rightarrow> nat \<Rightarrow> nat \<Rightarrow> ('c, 'q, 'd) K3LayerW list \<Rightarrow> token list \<Rightarrow>
    KdaState list \<Rightarrow> kv_rows option list \<Rightarrow> nat \<Rightarrow> (token list \<times> KdaState list \<times> kv_rows option list) option" where
  "layers_ref F avx c weights cap L (w # ws) toks (st # sts) (kv # kvs) cached =
     (case layer_ref F avx c weights cap L w toks st kv cached of
        None \<Rightarrow> None
      | Some (toks1, st1, kv1) \<Rightarrow>
          map_option (\<lambda>(toks2, sts2, kvs2). (toks2, st1 # sts2, kv1 # kvs2))
            (layers_ref F avx c weights cap (Suc L) ws toks1 sts kvs cached))"
| "layers_ref F avx c weights cap L _ toks sts kvs cached = Some (toks, sts, kvs)"

fun stack_ok :: "K3Cfg \<Rightarrow> nat \<Rightarrow> nat \<Rightarrow> ('c, 'q, 'd) K3LayerW list \<Rightarrow> KdaState list \<Rightarrow> kv_rows option list \<Rightarrow> bool" where
  "stack_ok c cap L (w # ws) (st # sts) (kv # kvs) = (attn_ok c cap L w st kv \<and> stack_ok c cap (Suc L) ws sts kvs)"
| "stack_ok c cap L [] [] [] = True"
| "stack_ok c cap L _ _ _ = False"

fun stack_agree :: "nat \<Rightarrow> ('c, 'q, 'd) K3LayerW list \<Rightarrow> kv_rows option list \<Rightarrow> kv_rows option list \<Rightarrow> bool" where
  "stack_agree n (w # ws) (kv # kvs) (kv' # kvs') = ((ly_kda w = None \<longrightarrow> kv_agree n kv kv') \<and> stack_agree n ws kvs kvs')"
| "stack_agree n [] [] [] = True"
| "stack_agree n _ _ _ = False"

lemma layers_returns:
  "stack_ok c cap L ws sts kvs \<Longrightarrow> cached + length toks \<le> cap \<Longrightarrow>
   \<exists>toks' sts' kvs'. layers_ref F avx c weights cap L ws toks sts kvs cached = Some (toks', sts', kvs') \<and>
     length toks' = length toks \<and> stack_ok c cap L ws sts' kvs'"
proof (induction c cap L ws sts kvs arbitrary: toks rule: stack_ok.induct)
  case (1 c cap L w ws st sts kv kvs)
  obtain t1 st1 kv1 where l: "layer_ref F avx c weights cap L w toks st kv cached = Some (t1, st1, kv1)"
    "length t1 = length toks" "attn_ok c cap L w st1 kv1"
    using layer_returns [of c cap L w st kv cached toks F avx weights] "1.prems" by auto
  then show ?case using "1.IH" [of t1] "1.prems" by auto
qed auto

lemma layers_split:
  "stack_ok c cap L ws sts kvs \<Longrightarrow> cached + length xs + length ys \<le> cap \<Longrightarrow>
   layers_ref F avx c weights cap L ws xs sts kvs cached = Some (a, sts1, kvs1) \<Longrightarrow>
   layers_ref F avx c weights cap L ws ys sts1 kvs1 (cached + length xs) = Some (b, sts2, kvs2) \<Longrightarrow>
   layers_ref F avx c weights cap L ws (xs @ ys) sts kvs cached = Some (a @ b, sts2, kvs2)"
proof (induction c cap L ws sts kvs arbitrary: xs ys a b sts1 kvs1 sts2 kvs2 rule: stack_ok.induct)
  case (1 c cap L w ws st sts kv kvs)
  have ok: "attn_ok c cap L w st kv" using "1.prems"(1) by simp
  obtain xs1 st1 kv1 where l1: "layer_ref F avx c weights cap L w xs st kv cached = Some (xs1, st1, kv1)"
    "length xs1 = length xs" "attn_ok c cap L w st1 kv1"
    using layer_returns [OF ok, of cached xs F avx weights] "1.prems"(2) by auto
  obtain s1 k1 where r1: "layers_ref F avx c weights cap (Suc L) ws xs1 sts kvs cached = Some (a, s1, k1)"
    "sts1 = st1 # s1" "kvs1 = kv1 # k1" using "1.prems"(3) l1(1) by auto
  obtain ys1 st2 kv2 where l2: "layer_ref F avx c weights cap L w ys st1 kv1 (cached + length xs) = Some (ys1, st2, kv2)"
    "length ys1 = length ys"
    using layer_returns [OF l1(3), of "cached + length xs" ys F avx weights] "1.prems"(2) by auto
  obtain s2 k2 where r2: "layers_ref F avx c weights cap (Suc L) ws ys1 s1 k1 (cached + length xs) = Some (b, s2, k2)"
    "sts2 = st2 # s2" "kvs2 = kv2 # k2" using "1.prems"(4) l2(1) r1(2,3) by auto
  have "layer_ref F avx c weights cap L w (xs @ ys) st kv cached = Some (xs1 @ ys1, st2, kv2)"
    by (rule layer_split [OF ok "1.prems"(2) l1(1) l2(1)])
  moreover have "layers_ref F avx c weights cap (Suc L) ws (xs1 @ ys1) sts kvs cached = Some (a @ b, s2, k2)"
    using "1.IH" [of xs1 ys1 a s1 k1 b s2 k2] "1.prems"(1,2) r1(1) r2(1) l1(2) l2(2) by simp
  ultimately show ?case using r2 by simp
qed auto

lemma layers_stale:
  "stack_ok c cap L ws sts kvs \<Longrightarrow> stack_ok c cap' L ws sts kvs' \<Longrightarrow> stack_agree cached ws kvs kvs' \<Longrightarrow>
   cached + length xs \<le> cap \<Longrightarrow> cached + length xs \<le> cap' \<Longrightarrow>
   layers_ref F avx c weights cap L ws xs sts kvs cached = Some (a, sts1, kvs1) \<Longrightarrow>
   \<exists>kvs1'. layers_ref F avx c weights cap' L ws xs sts kvs' cached = Some (a, sts1, kvs1') \<and>
     stack_agree (cached + length xs) ws kvs1 kvs1'"
proof (induction c cap L ws sts kvs arbitrary: xs a sts1 kvs1 kvs' rule: stack_ok.induct)
  case (1 c cap L w ws st sts kv kvs)
  obtain kv' ks' where k: "kvs' = kv' # ks'" using "1.prems"(3) by (cases kvs') auto
  have ok: "attn_ok c cap L w st kv" "attn_ok c cap' L w st kv'" using "1.prems"(1,2) k by simp_all
  obtain xs1 st1 kv1 where l1: "layer_ref F avx c weights cap L w xs st kv cached = Some (xs1, st1, kv1)"
    "length xs1 = length xs" using layer_returns [OF ok(1), of cached xs F avx weights] "1.prems"(4) by auto
  obtain s1 k1 where r1: "layers_ref F avx c weights cap (Suc L) ws xs1 sts kvs cached = Some (a, s1, k1)"
    "sts1 = st1 # s1" "kvs1 = kv1 # k1" using "1.prems"(6) l1(1) by auto
  obtain kv1' where l2: "layer_ref F avx c weights cap' L w xs st kv' cached = Some (xs1, st1, kv1')"
    "ly_kda w = None \<longrightarrow> kv_agree (cached + length xs) kv1 kv1'"
    using layer_stale [OF ok _ _ _ l1(1)] "1.prems"(3-5) k by auto
  obtain k1' where "layers_ref F avx c weights cap' (Suc L) ws xs1 sts ks' cached = Some (a, s1, k1')"
    "stack_agree (cached + length xs) ws k1 k1'"
    using "1.IH" [of ks' xs1 a s1 k1] "1.prems"(1-5) r1(1) l1(2) k by auto
  then show ?case using l2 r1 k by simp
next
  case (2 c cap L)
  then show ?case by (cases kvs') auto
qed auto

text \<open>Without a cache a layer sees exactly what it would see with an empty one.\<close>

lemma attn_full:
  assumes "attn_ok c cap L w st kv" "length xs \<le> cap" "attn_step F avx c cap L w xs st kv 0 = Some (a, st1, kv1)"
  shows "attn_step F avx c cap' L w xs st None cached' = Some (a, st1, None)"
proof (cases "ly_kda w")
  case (Some kda)
  then show ?thesis using assms(3) by (auto simp: attn_step_kda split: prod.splits)
next
  case None
  obtain mla k r where m: "ly_mla w = Some mla" "k3_is_mla c (int L)" "kv = Some (k, r)" "length k = cap" "length r = cap"
    "kda_shape c st" using attn_ok_mla [OF assms(1) None] .
  have "k3_mla_cached F avx mla c xs (Some (k, r)) 0 cap = Some (a, kv1)" "st1 = st"
    using assms(3) m(3) by (auto simp: attn_step_mla [OF None m(1,2)])
  then show ?thesis using mla_uncached [OF m(4,5) assms(2)] by (simp add: attn_step_mla [OF None m(1,2)])
qed

lemma layers_full:
  "stack_ok c cap L ws sts kvs \<Longrightarrow> length xs \<le> cap \<Longrightarrow>
   layers_ref F avx c weights cap L ws xs sts kvs 0 = Some (a, sts1, kvs1) \<Longrightarrow>
   layers_ref F avx c weights cap' L ws xs sts (replicate (length ws) None) cached' = Some (a, sts1, replicate (length ws) None)"
proof (induction c cap L ws sts kvs arbitrary: xs a sts1 kvs1 rule: stack_ok.induct)
  case (1 c cap L w ws st sts kv kvs)
  have ok: "attn_ok c cap L w st kv" using "1.prems"(1) by simp
  obtain xs1 st1 kv1 where l1: "layer_ref F avx c weights cap L w xs st kv 0 = Some (xs1, st1, kv1)"
    "length xs1 = length xs" using layer_returns [OF ok, of 0 xs F avx weights] "1.prems"(2) by auto
  obtain s1 k1 where r1: "layers_ref F avx c weights cap (Suc L) ws xs1 sts kvs 0 = Some (a, s1, k1)"
    "sts1 = st1 # s1" using "1.prems"(3) l1(1) by auto
  have "layer_ref F avx c weights cap' L w xs st None cached' = Some (xs1, st1, None)"
    using l1(1) attn_full [OF ok, of "map (layer_in F c w) xs" F avx _ _ _ cap' cached'] "1.prems"(2) by (auto simp: layer_ref_def)
  then show ?case using "1.IH" [of xs1 a s1 k1] "1.prems"(1,2) r1 l1(2) by simp
qed auto

section \<open>Streaming computes the reference\<close>

definition run_ok ::
  "K3St \<Rightarrow> (int \<Rightarrow> bytes) \<Rightarrow> K3Cfg \<Rightarrow> (K3Cache, K3ExpertQ, Disk \<times> bool) Machine \<Rightarrow> K3Cache Run \<Rightarrow> bool" where
  "run_ok st fl cfg m s \<longleftrightarrow> cache_inv st fl (ru_src s) \<and> n_layers (ru_src s) = cf_n_layers cfg \<and>
     (\<forall>n. dk_file (fst (ma_disk m n)) = fl) \<and> ma_view m = cache_view"

lemma moe_ref_point:
  "moe_ref F avx c (x\<lparr>mo_src := a, mo_layer := b, mo_cache_only := d\<rparr>) weights = moe_ref F avx c x weights"
proof -
  let ?y = "x\<lparr>mo_src := a, mo_layer := b, mo_cache_only := d\<rparr>"
  have "route F c ?y = route F c x" by (intro ext) (simp add: route_def Let_def)
  moreover have "moe_tail F avx c ?y = moe_tail F avx c x" by (intro ext) (simp add: moe_tail_def Let_def)
  ultimately show ?thesis unfolding moe_ref_def by simp
qed

lemma mlp_streams:
  assumes "run_ok st fl cfg m s" "st_sane st" "experts_fit st cfg" "int L < cf_n_layers cfg"
  shows "\<exists>tmp s'. layer_mlp m nb junk cfg (point_at (cache_src st np) False (int L) w) hin s = Some (tmp, s') \<and>
    run_ok st fl cfg m s' \<and> ru_drops s \<le> ru_drops s' \<and>
    (ru_drops s' = ru_drops s \<longrightarrow> tmp = map (\<lambda>x. case ly_moe w of
        Some moe \<Rightarrow> moe_ref (ma_fpu m) (ma_avx m) cfg moe (checkpoint_expert st fl (int L)) x
      | None \<Rightarrow> dense_mlp (ma_fpu m) (ma_avx m) cfg w x) hin)"
proof (cases "ly_moe w")
  case None
  have "dense_mlp F avx c (point_at src d l w) = dense_mlp F avx c w" for F avx c src d l
    by (intro ext) (simp add: dense_mlp_def point_at_def)
  then show ?thesis using assms(1) None by (simp add: layer_mlp_def point_at_def)
next
  case (Some moe)
  let ?moe = "moe\<lparr>mo_src := Some (cache_src st np), mo_layer := int L, mo_cache_only := False\<rparr>"
  have "streams st fl cfg m ?moe s" using assms(1,4) by (auto simp: streams_def run_ok_def)
  from prefill_streams [OF this assms(2,3), of nb junk hin]
  show ?thesis using Some by (fastforce simp: layer_mlp_def point_at_def moe_ref_point streams_def run_ok_def)
qed

section \<open>The streamed layers\<close>

text \<open>A layer can take \<open>n\<close> tokens: without a cache always, with one as long as there is room.\<close>

definition layer_can :: "K3Cfg \<Rightarrow> nat \<Rightarrow> nat \<Rightarrow> nat \<Rightarrow> nat \<Rightarrow> ('c, 'q, 'd) K3LayerW \<Rightarrow> KdaState \<Rightarrow> kv_rows option \<Rightarrow> bool" where
  "layer_can c cap cached n L w st kv \<longleftrightarrow> kda_shape c st \<and>
     (ly_kda w \<noteq> None \<or> ly_mla w \<noteq> None \<and> k3_is_mla c (int L) \<and>
        (case kv of None \<Rightarrow> True | Some (k, r) \<Rightarrow> length k = cap \<and> length r = cap \<and> cached + n \<le> cap))"

fun stack_can :: "K3Cfg \<Rightarrow> nat \<Rightarrow> nat \<Rightarrow> nat \<Rightarrow> nat \<Rightarrow> ('c, 'q, 'd) K3LayerW list \<Rightarrow> KdaState list \<Rightarrow> kv_rows option list \<Rightarrow> bool" where
  "stack_can c cap cached n L (w # ws) (st # sts) (kv # kvs) =
     (layer_can c cap cached n L w st kv \<and> stack_can c cap cached n (Suc L) ws sts kvs)"
| "stack_can c cap cached n L [] [] [] = True"
| "stack_can c cap cached n L _ _ _ = False"

lemma stack_ok_can: "stack_ok c cap L ws sts kvs \<Longrightarrow> cached + n \<le> cap \<Longrightarrow> stack_can c cap cached n L ws sts kvs"
  by (induction c cap L ws sts kvs rule: stack_ok.induct) (auto simp: attn_ok_def layer_can_def split: option.splits)

lemma layer_can_returns:
  assumes "layer_can c cap cached (length toks) L w st kv"
  shows "\<exists>toks' st' kv'. layer_ref F avx c weights cap L w toks st kv cached = Some (toks', st', kv') \<and>
    length toks' = length toks \<and> layer_can c cap cached (length toks) L w st' kv' \<and>
    (attn_ok c cap L w st kv \<longrightarrow> attn_ok c cap L w st' kv')"
proof (cases "ly_kda w = None \<and> kv = None")
  case True
  let ?rows = "replicate (length toks) []"
  have ok: "attn_ok c (length toks) L w st (Some (?rows, ?rows))"
    using assms True by (auto simp: layer_can_def attn_ok_def)
  obtain tmp st' kv' where s: "attn_step F avx c (length toks) L w (map (layer_in F c w) toks) st (Some (?rows, ?rows)) 0 = Some (tmp, st', kv')"
    "length tmp = length toks" "attn_ok c (length toks) L w st' kv'"
    using attn_returns [OF ok, of 0 "map (layer_in F c w) toks" F avx] by auto
  have "attn_step F avx c cap L w (map (layer_in F c w) toks) st None cached = Some (tmp, st', None)"
    using attn_full [OF ok _ s(1)] by simp
  then show ?thesis using s assms True by (auto simp: layer_ref_def layer_can_def attn_ok_def)
next
  case False
  show ?thesis
  proof (cases "ly_kda w")
    case None
    then have ok: "attn_ok c cap L w st kv" "cached + length toks \<le> cap"
      using assms False by (auto simp: layer_can_def attn_ok_def)
    then show ?thesis using layer_returns [OF ok, of F avx weights] None
      by (fastforce simp: layer_can_def attn_ok_def split: option.splits)
  next
    case (Some kda)
    have sh: "kda_shape c st" using assms by (simp add: layer_can_def)
    obtain os s' where k: "k3_kda_layer F avx kda c (map (layer_in F c w) toks) (Some st) = (os, Some s')"
      using kda_state_Some by blast
    then show ?thesis using kda_shape_next [OF sh k] Some
      by (auto simp: layer_ref_def attn_step_kda layer_can_def attn_ok_def)
  qed
qed

definition point_from :: "('c, 'q, 'd) K3ExpertSrc \<Rightarrow> bool \<Rightarrow> nat \<Rightarrow> ('c, 'q, 'd) K3LayerW list \<Rightarrow> ('c, 'q, 'd) K3LayerW list" where
  "point_from src d L ws = map2 (\<lambda>l w. point_at src d (int l) w) [L..<L + length ws] ws"

lemma point_from_simps:
  "point_from src d L [] = []"
  "point_from src d L (w # ws) = point_at src d (int L) w # point_from src d (Suc L) ws"
  by (simp_all add: point_from_def upt_conv_Cons del: upt_Suc)

lemma point_at_sel:
  "ly_in_norm (point_at src d l w) = ly_in_norm w" "ly_post_norm (point_at src d l w) = ly_post_norm w"
  "ly_attn_res_norm (point_at src d l w) = ly_attn_res_norm w" "ly_attn_res_proj (point_at src d l w) = ly_attn_res_proj w"
  "ly_mlp_res_norm (point_at src d l w) = ly_mlp_res_norm w" "ly_mlp_res_proj (point_at src d l w) = ly_mlp_res_proj w"
  "ly_kda (point_at src d l w) = ly_kda w" "ly_mla (point_at src d l w) = ly_mla w"
  by (simp_all add: point_at_def)

lemma layer_attention_point:
  "layer_attention F avx c (point_at src d l w) = layer_attention F avx c w"
  "mlp_input F c (point_at src d l w) = mlp_input F c w"
proof -
  have "mix_before F c (point_at src d l w) = mix_before F c w" unfolding mix_before_def point_at_sel ..
  moreover have "attention F avx c (point_at src d l w) = attention F avx c w"
    by (intro ext) (simp only: attention_def point_at_sel)
  ultimately show "layer_attention F avx c (point_at src d l w) = layer_attention F avx c w"
    by (intro ext) (simp only: layer_attention_def point_at_sel)
  show "mlp_input F c (point_at src d l w) = mlp_input F c w" unfolding mlp_input_def point_at_sel ..
qed

text \<open>The attention half of a layer is the reference's; the residual is added over whatever the MLP half returns.\<close>

lemma layer_ref_attention:
  "layer_ref F avx c weights cap L w toks st kv cached =
     map_option (\<lambda>(t, st', kv'). (map (mlp_ref F avx c weights L w) t, the st', if k3_is_mla c (int L) then kv' else kv))
       (layer_attention F avx c w (int L) toks (Some st) (if k3_is_mla c (int L) then kv else None) cached cap)"
  by (simp add: layer_ref_def layer_attention_def attn_step_def layer_in_def [abs_def] option.map_comp comp_def case_prod_beta' Let_def)

lemma layer_streams:
  assumes run: "run_ok st fl cfg m s" "st_sane st" "experts_fit st cfg" "int L < cf_n_layers cfg"
    and ref: "layer_ref (ma_fpu m) (ma_avx m) cfg (checkpoint_expert st fl) cap L w toks ks kv cached = Some (toks1, ks1, kv1)"
  shows "\<exists>t st' kv' s'. k3_decoder_layer_inc m nb junk cfg (point_at (cache_src st np) False (int L) w) (int L) toks (Some ks)
      (if k3_is_mla cfg (int L) then kv else None) cached cap s = Some (t, st', kv', s') \<and> the st' = ks1 \<and>
    (if k3_is_mla cfg (int L) then kv' else kv) = kv1 \<and> run_ok st fl cfg m s' \<and> ru_drops s \<le> ru_drops s' \<and>
    length t \<le> length toks1 \<and> (ru_drops s' = ru_drops s \<longrightarrow> t = toks1)"
proof -
  let ?F = "ma_fpu m" and ?avx = "ma_avx m" and ?w = "point_at (cache_src st np) False (int L) w"
  obtain t1 st' kv' where a: "layer_attention ?F ?avx cfg w (int L) toks (Some ks) (if k3_is_mla cfg (int L) then kv else None) cached cap =
      Some (t1, st', kv')" "toks1 = map (mlp_ref ?F ?avx cfg (checkpoint_expert st fl) L w) t1" "the st' = ks1"
      "(if k3_is_mla cfg (int L) then kv' else kv) = kv1"
    using ref unfolding layer_ref_attention by auto
  obtain tmp s' where b: "layer_mlp m nb junk cfg ?w (map (mlp_input ?F cfg w) t1) s = Some (tmp, s')" "run_ok st fl cfg m s'"
    "ru_drops s \<le> ru_drops s'" "ru_drops s' = ru_drops s \<longrightarrow> tmp = map (\<lambda>x. case ly_moe w of
        Some moe \<Rightarrow> moe_ref ?F ?avx cfg moe (checkpoint_expert st fl (int L)) x
      | None \<Rightarrow> dense_mlp ?F ?avx cfg w x) (map (mlp_input ?F cfg w) t1)"
    using mlp_streams [OF run, of nb junk np w "map (mlp_input ?F cfg w) t1"] by blast
  let ?t = "map2 (\<lambda>(pref, blocks) t. (vadd ?F (nat (cf_hidden cfg)) pref t, blocks)) t1 tmp"
  have "k3_decoder_layer_inc m nb junk cfg ?w (int L) toks (Some ks) (if k3_is_mla cfg (int L) then kv else None) cached cap s =
      Some (?t, st', kv', s')"
    using a(1) b(1) by (simp add: k3_decoder_layer_inc_def layer_attention_point)
  moreover have "?t = toks1" if "ru_drops s' = ru_drops s"
    using b(4) that a(2) by (auto simp: mlp_ref_def [abs_def] zip_map2 zip_same_conv_map intro!: map_cong split: option.splits)
  ultimately show ?thesis using a b by (intro exI conjI) auto
qed

lemma stack_can_mono: "stack_can c cap cached n L ws sts kvs \<Longrightarrow> n' \<le> n \<Longrightarrow> stack_can c cap cached n' L ws sts kvs"
  by (induction c cap cached n L ws sts kvs rule: stack_can.induct) (auto simp: layer_can_def split: option.splits)

lemma layers_stream:
  "stack_can cfg cap cached n L ws sts kvs \<Longrightarrow> length toks \<le> n \<Longrightarrow> run_ok st fl cfg m s \<Longrightarrow> st_sane st \<Longrightarrow>
   experts_fit st cfg \<Longrightarrow> int (L + length ws) \<le> cf_n_layers cfg \<Longrightarrow>
   \<exists>t sts' kvs' s'. run_layers m nb junk cfg cached cap L (point_from (cache_src st np) False L ws) toks sts kvs s =
       Some (t, sts', kvs', s') \<and> run_ok st fl cfg m s' \<and> ru_drops s \<le> ru_drops s' \<and>
     (stack_ok cfg cap L ws sts kvs \<longrightarrow> stack_ok cfg cap L ws sts' kvs') \<and>
     (ru_drops s' = ru_drops s \<longrightarrow>
       layers_ref (ma_fpu m) (ma_avx m) cfg (checkpoint_expert st fl) cap L ws toks sts kvs cached = Some (t, sts', kvs'))"
proof (induction cfg cap cached n L ws sts kvs arbitrary: toks s rule: stack_can.induct)
  case (1 cfg cap cached n L w ws ks sts kv kvs)
  let ?F = "ma_fpu m" and ?avx = "ma_avx m" and ?W = "checkpoint_expert st fl"
  have can: "layer_can cfg cap cached (length toks) L w ks kv" "stack_can cfg cap cached n (Suc L) ws sts kvs"
    using "1.prems"(1,2) stack_can_mono [of cfg cap cached n L "[w]" "[ks]" "[kv]" "length toks"] by auto
  obtain toks1 ks1 kv1 where l: "layer_ref ?F ?avx cfg ?W cap L w toks ks kv cached = Some (toks1, ks1, kv1)"
    "length toks1 = length toks" "attn_ok cfg cap L w ks kv \<longrightarrow> attn_ok cfg cap L w ks1 kv1"
    using layer_can_returns [OF can(1), of ?F ?avx ?W] by blast
  have L: "int L < cf_n_layers cfg" using "1.prems"(6) by simp
  obtain t1 st' kv' s1 where r: "k3_decoder_layer_inc m nb junk cfg (point_at (cache_src st np) False (int L) w) (int L) toks (Some ks)
      (if k3_is_mla cfg (int L) then kv else None) cached cap s = Some (t1, st', kv', s1)" "the st' = ks1"
    "(if k3_is_mla cfg (int L) then kv' else kv) = kv1" "run_ok st fl cfg m s1" "ru_drops s \<le> ru_drops s1"
    "length t1 \<le> length toks1" "ru_drops s1 = ru_drops s \<longrightarrow> t1 = toks1"
    using layer_streams [OF "1.prems"(3-5) L l(1), of nb junk np] by blast
  obtain t2 sts2 kvs2 s2 where i: "run_layers m nb junk cfg cached cap (Suc L) (point_from (cache_src st np) False (Suc L) ws) t1 sts kvs s1 =
      Some (t2, sts2, kvs2, s2)" "run_ok st fl cfg m s2" "ru_drops s1 \<le> ru_drops s2"
    "stack_ok cfg cap (Suc L) ws sts kvs \<longrightarrow> stack_ok cfg cap (Suc L) ws sts2 kvs2"
    "ru_drops s2 = ru_drops s1 \<longrightarrow> layers_ref ?F ?avx cfg ?W cap (Suc L) ws t1 sts kvs cached = Some (t2, sts2, kvs2)"
    using "1.IH" [OF can(2), of t1 s1] "1.prems"(2,4-6) r(4,6) l(2) by auto
  have "run_layers m nb junk cfg cached cap L (point_from (cache_src st np) False L (w # ws)) toks (ks # sts) (kv # kvs) s =
      Some (t2, ks1 # sts2, kv1 # kvs2, s2)"
    using r(1-3) i(1) by (simp add: point_from_simps Let_def)
  moreover have "ru_drops s2 = ru_drops s \<longrightarrow>
      layers_ref ?F ?avx cfg ?W cap L (w # ws) toks (ks # sts) (kv # kvs) cached = Some (t2, ks1 # sts2, kv1 # kvs2)"
    using r(5,7) i(3,5) l(1) by (cases "ru_drops s1 = ru_drops s") auto
  ultimately show ?case using i(2-4) r(5) l(3) by simp
qed (simp_all add: point_from_simps)

text \<open>A draft pass routes among resident experts only: it leaves the source untouched.\<close>

lemma moe_draft:
  assumes "mo_src w = Some src" "src_resident src = Some res" "mo_cache_only w"
  shows "\<exists>os. k3_moe_prefill m nb junk c w xs s = Some (os, s)"
proof -
  have run: "\<exists>a. run_experts m c w z es acc s = Some (a, s)" for z es acc
    by (induction es arbitrary: acc) (auto simp: run_expert_def assms Let_def split: option.splits)
  have token: "\<exists>ot. moe_token m c w xt s = Some (ot, s)" for xt
  proof -
    obtain idx wt where "select_experts m c w xt (ru_src s) = (idx, wt)" by fastforce
    then show ?thesis
      using run [of "k3_mmw (ma_fpu m) (ma_avx m) xt (mo_down w) (mo_wdt w) (nat (cf_hidden c)) (nat (cf_latent c))"
          "zip idx wt" "replicate (nat (cf_latent c)) 0"]
      by (auto simp: moe_token_def moe_prefetch_def assms Let_def split: option.splits)
  qed
  have "\<exists>os. k3_moe m c w xs s = Some (os, s)"
  proof (induction xs)
    case (Cons x xs)
    then show ?case using token [of x] by auto
  qed simp
  then show ?thesis by (simp add: k3_moe_prefill_def assms)
qed

lemma mlp_draft:
  assumes "src_resident src = Some res"
  shows "\<exists>tmp. layer_mlp m nb junk c (point_at src True l w) hin s = Some (tmp, s)"
proof (cases "ly_moe w")
  case None
  then show ?thesis by (simp add: layer_mlp_def point_at_def)
next
  case (Some moe)
  then show ?thesis
    using moe_draft [of "moe\<lparr>mo_src := Some src, mo_layer := l, mo_cache_only := True\<rparr>" src res m nb junk c hin s] assms
    by (simp add: layer_mlp_def point_at_def)
qed

lemma layers_draft:
  "stack_ok c cap L ws sts kvs \<Longrightarrow> cached + length toks \<le> cap \<Longrightarrow> src_resident src = Some res \<Longrightarrow>
   \<exists>t sts' kvs'. run_layers m nb junk c cached cap L (point_from src True L ws) toks sts kvs s = Some (t, sts', kvs', s) \<and>
     stack_ok c cap L ws sts' kvs'"
proof (induction c cap L ws sts kvs arbitrary: toks rule: stack_ok.induct)
  case (1 c cap L w ws ks sts kv kvs)
  let ?F = "ma_fpu m" and ?avx = "ma_avx m"
  obtain toks1 ks1 kv1 where l: "layer_ref ?F ?avx c (\<lambda>_ _. []) cap L w toks ks kv cached = Some (toks1, ks1, kv1)"
    "length toks1 = length toks" "attn_ok c cap L w ks1 kv1"
    using layer_returns [of c cap L w ks kv cached toks ?F ?avx "\<lambda>_ _. []"] "1.prems" by auto
  obtain t1 st' kv' where a: "layer_attention ?F ?avx c w (int L) toks (Some ks) (if k3_is_mla c (int L) then kv else None) cached cap =
      Some (t1, st', kv')" "length t1 = length toks" "the st' = ks1" "(if k3_is_mla c (int L) then kv' else kv) = kv1"
    using l(1,2) unfolding layer_ref_attention by auto
  obtain tmp where b: "layer_mlp m nb junk c (point_at src True (int L) w) (map (mlp_input ?F c w) t1) s = Some (tmp, s)"
    using mlp_draft [OF "1.prems"(3)] by blast
  let ?t = "map2 (\<lambda>(pref, blocks) t. (vadd ?F (nat (cf_hidden c)) pref t, blocks)) t1 tmp"
  have r: "k3_decoder_layer_inc m nb junk c (point_at src True (int L) w) (int L) toks (Some ks)
      (if k3_is_mla c (int L) then kv else None) cached cap s = Some (?t, st', kv', s)"
    using a(1) b by (simp add: k3_decoder_layer_inc_def layer_attention_point)
  have room: "cached + length ?t \<le> cap" using "1.prems"(2) a(2) by (simp add: min_def)
  have rest: "stack_ok c cap (Suc L) ws sts kvs" using "1.prems"(1) by simp
  obtain t2 sts2 kvs2 where "run_layers m nb junk c cached cap (Suc L) (point_from src True (Suc L) ws) ?t sts kvs s =
      Some (t2, sts2, kvs2, s)" "stack_ok c cap (Suc L) ws sts2 kvs2"
    using "1.IH" [OF rest room "1.prems"(3)] by blast
  then show ?case using r a(3,4) l(3) by (auto simp: point_from_simps Let_def)
qed (simp_all add: point_from_simps)

end
