(* ===== verification/K3_Carry.thy ===== *)
theory K3_Carry
  imports K3_Forward_Laws
begin

text \<open>
  What the carried state stands for. The state of a decode in progress represents the sequence of ids it has
  consumed; feeding more ids extends that sequence, and the logits of every position are the ones a recompute of
  the whole prefix gives.
\<close>

section \<open>Reference passes\<close>

definition embed_tokens :: "K3Cfg \<Rightarrow> ('c, 'q, 'd) Weights \<Rightarrow> nat list \<Rightarrow> token list" where
  "embed_tokens c w = map (\<lambda>i. (k3_embed_row (we_embed w) (we_wdt w) i (nat (cf_hidden c)), []))"

text \<open>All layers over a whole sequence, from zero states and with no cache; the logits of its last position.\<close>

definition recompute ::
  "fpu \<Rightarrow> bool \<Rightarrow> K3Cfg \<Rightarrow> (int \<Rightarrow> nat \<Rightarrow> (bytes \<times> bytes) list) \<Rightarrow> ('c, 'q, 'd) Weights \<Rightarrow> nat list \<Rightarrow> token list" where
  "recompute F avx c weights w xs =
     (case layers_ref F avx c weights 0 0 (we_lay w) (embed_tokens c w xs) (replicate (length (we_lay w)) (kda_zero c))
             (replicate (length (we_lay w)) None) 0 of
        Some (t, _) \<Rightarrow> t | None \<Rightarrow> [])"

definition next_logits ::
  "fpu \<Rightarrow> bool \<Rightarrow> K3Cfg \<Rightarrow> (int \<Rightarrow> nat \<Rightarrow> (bytes \<times> bytes) list) \<Rightarrow> ('c, 'q, 'd) Weights \<Rightarrow> nat list \<Rightarrow> f32 list" where
  "next_logits F avx c weights w xs = logits F avx c w (last (recompute F avx c weights w xs))"

section \<open>Stacks of states\<close>

lemma stack_ok_length: "stack_ok c cap L ws sts kvs \<Longrightarrow> length sts = length ws \<and> length kvs = length ws"
  by (induction c cap L ws sts kvs rule: stack_ok.induct) auto

lemma stack_ok_mix: "stack_ok c cap L ws sts kvs \<Longrightarrow> stack_ok c cap L ws sts' kvs' \<Longrightarrow> stack_ok c cap L ws sts kvs'"
proof (induction c cap L ws sts kvs arbitrary: sts' kvs' rule: stack_ok.induct)
  case (1 c cap L w ws st sts kv kvs)
  obtain s t k l where "sts' = s # t" "kvs' = k # l" using "1.prems"(2) by (cases sts'; cases kvs') auto
  then show ?case using "1.IH" [of t l] "1.prems" by (auto simp: attn_ok_def)
next
  case (2 c cap L)
  then show ?case by (cases sts'; cases kvs') auto
qed auto

lemma layers_some:
  "stack_ok c cap L ws sts kvs \<Longrightarrow> cached + length toks \<le> cap \<Longrightarrow> None \<notin> set kvs \<Longrightarrow>
   layers_ref F avx c weights cap L ws toks sts kvs cached = Some (t, sts', kvs') \<Longrightarrow> None \<notin> set kvs'"
proof (induction c cap L ws sts kvs arbitrary: toks t sts' kvs' rule: stack_ok.induct)
  case (1 c cap L w ws st sts kv kvs)
  obtain t1 st1 kv1 where l: "layer_ref F avx c weights cap L w toks st kv cached = Some (t1, st1, kv1)"
    "length t1 = length toks" "attn_ok c cap L w st1 kv1"
    using layer_returns [of c cap L w st kv cached toks F avx weights] "1.prems" by auto
  obtain s1 k1 where r: "layers_ref F avx c weights cap (Suc L) ws t1 sts kvs cached = Some (t, s1, k1)" "kvs' = kv1 # k1"
    using "1.prems"(4) l(1) by auto
  have "kv1 \<noteq> None"
  proof (cases "ly_kda w")
    case None
    then show ?thesis using l(3) by (cases kv1) (auto simp: attn_ok_def)
  next
    case (Some kda)
    then show ?thesis using l(1) "1.prems"(3) by (cases kv1) (auto simp: layer_ref_def attn_step_kda split: prod.splits)
  qed
  then show ?case using "1.IH" [of t1 t s1 k1] "1.prems" l(2) r by auto
qed auto

text \<open>A pass over the rows of a cache leaves the rows before it as they were.\<close>

lemma layers_keep:
  "stack_ok c cap L ws sts kvs \<Longrightarrow> cached + length toks \<le> cap \<Longrightarrow>
   layers_ref F avx c weights cap L ws toks sts kvs cached = Some (t, sts', kvs') \<Longrightarrow> stack_agree cached ws kvs kvs'"
proof (induction c cap L ws sts kvs arbitrary: toks t sts' kvs' rule: stack_ok.induct)
  case (1 c cap L w ws st sts kv kvs)
  have ok: "attn_ok c cap L w st kv" using "1.prems"(1) by simp
  obtain t1 st1 kv1 where l: "layer_ref F avx c weights cap L w toks st kv cached = Some (t1, st1, kv1)"
    "length t1 = length toks" using layer_returns [OF ok, of cached toks F avx weights] "1.prems"(2) by auto
  obtain s1 k1 where r: "layers_ref F avx c weights cap (Suc L) ws t1 sts kvs cached = Some (t, s1, k1)" "kvs' = kv1 # k1"
    using "1.prems"(3) l(1) by auto
  have "kv_agree cached kv kv1" if None: "ly_kda w = None"
  proof -
    obtain mla k r where m: "ly_mla w = Some mla" "k3_is_mla c (int L)" "kv = Some (k, r)" "length k = cap" "length r = cap"
      "kda_shape c st" using attn_ok_mla [OF ok None] .
    show ?thesis using l(1) m mla_returns [OF m(4,5), of cached "map (layer_in F c w) toks" F avx mla c] "1.prems"(2)
      by (auto simp: layer_ref_def attn_step_mla [OF None m(1,2)] kv_agree_def)
  qed
  then show ?case using "1.IH" [of t1 t s1 k1] "1.prems" l(2) r by auto
qed auto

lemma stack_agree_trans: "stack_agree n ws a b \<Longrightarrow> stack_agree n ws b d \<Longrightarrow> stack_agree n ws a d"
proof (induction n ws a b arbitrary: d rule: stack_agree.induct)
  case (1 n w ws kv kvs kv' kvs')
  then show ?case by (cases d) (auto simp: kv_agree_def split: option.splits)
next
  case (2 n)
  then show ?case by (cases d) auto
qed auto

lemma stack_agree_refl: "length kvs = length ws \<Longrightarrow> None \<notin> set kvs \<Longrightarrow> stack_agree n ws kvs kvs"
proof (induction ws arbitrary: kvs)
  case (Cons w ws)
  then show ?case by (cases kvs) (auto simp: kv_agree_def split: option.splits)
qed simp

text \<open>The positions of a pass before the last ones do not see them.\<close>

lemma layers_take:
  assumes "stack_ok c cap L ws sts kvs" "cached + length toks \<le> cap" "i \<le> length toks"
    and "layers_ref F avx c weights cap L ws toks sts kvs cached = Some (t, sts2, kvs2)"
  shows "\<exists>sts1 kvs1. layers_ref F avx c weights cap L ws (take i toks) sts kvs cached = Some (take i t, sts1, kvs1)"
proof -
  obtain a sts1 kvs1 where A: "layers_ref F avx c weights cap L ws (take i toks) sts kvs cached = Some (a, sts1, kvs1)"
    "length a = i" "stack_ok c cap L ws sts1 kvs1"
    using layers_returns [OF assms(1), of cached "take i toks" F avx weights] assms(2,3) by auto
  obtain b sts3 kvs3 where B: "layers_ref F avx c weights cap L ws (drop i toks) sts1 kvs1 (cached + i) = Some (b, sts3, kvs3)"
    using layers_returns [OF A(3), of "cached + i" "drop i toks" F avx weights] assms(2,3) by auto
  have "layers_ref F avx c weights cap L ws (take i toks @ drop i toks) sts kvs cached = Some (a @ b, sts3, kvs3)"
    using layers_split [OF assms(1) _ A(1), of "drop i toks"] assms(2,3) B by simp
  then show ?thesis using assms(4) A by simp
qed

section \<open>Consumed ids\<close>

text \<open>The state has a cache and fits the layers.\<close>

definition carry_fit :: "K3Cfg \<Rightarrow> ('c, 'q, 'd) Weights \<Rightarrow> Carry \<Rightarrow> bool" where
  "carry_fit c w ca \<longleftrightarrow> ca_cached ca \<le> we_kv_cap w \<and>
     (\<exists>kv. ca_kv ca = Some kv \<and> stack_ok c (we_kv_cap w) 0 (we_lay w) (ca_ks ca) (map Some kv))"

text \<open>
  The state represents the ids \<open>xs\<close>: the recurrent states are those of a pass over \<open>xs\<close> from zero, and the first
  \<open>length xs\<close> rows of the cache are the ones such a pass writes. What lies behind them does not matter.
\<close>

definition consumed ::
  "fpu \<Rightarrow> bool \<Rightarrow> K3Cfg \<Rightarrow> (int \<Rightarrow> nat \<Rightarrow> (bytes \<times> bytes) list) \<Rightarrow> ('c, 'q, 'd) Weights \<Rightarrow> nat list \<Rightarrow> Carry \<Rightarrow> bool" where
  "consumed F avx c weights w xs ca \<longleftrightarrow> carry_fit c w ca \<and> ca_cached ca = length xs \<and>
     (\<exists>kv0 t kvs. let zero = replicate (length (we_lay w)) (kda_zero c) in
        stack_ok c (we_kv_cap w) 0 (we_lay w) zero kv0 \<and>
        layers_ref F avx c weights (we_kv_cap w) 0 (we_lay w) (embed_tokens c w xs) zero kv0 0 = Some (t, ca_ks ca, kvs) \<and>
        stack_ok c (we_kv_cap w) 0 (we_lay w) (ca_ks ca) kvs \<and>
        stack_agree (length xs) (we_lay w) kvs (map Some (the (ca_kv ca))))"

lemma length_embed_tokens [simp]: "length (embed_tokens c w xs) = length xs"
  by (simp add: embed_tokens_def)

lemma embed_tokens_append: "embed_tokens c w (xs @ ys) = embed_tokens c w xs @ embed_tokens c w ys"
  by (simp add: embed_tokens_def)

lemma take_embed_tokens: "take i (embed_tokens c w xs) = embed_tokens c w (take i xs)"
  by (simp add: embed_tokens_def take_map)

text \<open>A pass from zero with a cache finds the tokens a recompute finds.\<close>

lemma recompute_cached:
  assumes "stack_ok c cap 0 (we_lay w) (replicate (length (we_lay w)) (kda_zero c)) kv0" "length xs \<le> cap"
    and "layers_ref F avx c weights cap 0 (we_lay w) (embed_tokens c w xs) (replicate (length (we_lay w)) (kda_zero c)) kv0 0 =
      Some (t, sts, kvs)"
  shows "recompute F avx c weights w xs = t"
  using layers_full [OF assms(1) _ assms(3), of 0 0] assms(2) by (simp add: recompute_def)

text \<open>Feeding \<open>ids\<close> to a state that has consumed \<open>xs\<close>.\<close>

lemma feed_ref:
  assumes C: "consumed F avx c weights w xs ca" and room: "length xs + length ids \<le> we_kv_cap w"
    and R: "layers_ref F avx c weights (we_kv_cap w) 0 (we_lay w) (embed_tokens c w ids) (ca_ks ca) (map Some (the (ca_kv ca)))
      (ca_cached ca) = Some (b, sts, kvs)"
  shows "consumed F avx c weights w (xs @ ids) (ca\<lparr>ca_ks := sts, ca_kv := Some (map the kvs), ca_cached := length xs + length ids\<rparr>)"
    and "consumed F avx c weights w xs (ca\<lparr>ca_kv := Some (map the kvs)\<rparr>)"
    and "length b = length ids" and "\<And>i. i < length ids \<Longrightarrow> logits F avx c w (b ! i) = next_logits F avx c weights w (xs @ take (Suc i) ids)"
proof -
  let ?zero = "replicate (length (we_lay w)) (kda_zero c)" and ?cap = "we_kv_cap w" and ?ws = "we_lay w"
  obtain kv where kv: "ca_kv ca = Some kv" "stack_ok c ?cap 0 ?ws (ca_ks ca) (map Some kv)" "ca_cached ca = length xs"
    using C by (auto simp: consumed_def carry_fit_def)
  obtain kv0 t kvs0 where z: "stack_ok c ?cap 0 ?ws ?zero kv0"
    "layers_ref F avx c weights ?cap 0 ?ws (embed_tokens c w xs) ?zero kv0 0 = Some (t, ca_ks ca, kvs0)"
    "stack_ok c ?cap 0 ?ws (ca_ks ca) kvs0" "stack_agree (length xs) ?ws kvs0 (map Some kv)"
    using C kv(1) by (auto simp: consumed_def Let_def)
  have t: "length t = length xs" using layers_returns [OF z(1), of 0 "embed_tokens c w xs" F avx weights] z(2) room by auto
  obtain b1 sts1 kvs1 where n: "layers_ref F avx c weights ?cap 0 ?ws (embed_tokens c w ids) (ca_ks ca) kvs0 (length xs) = Some (b1, sts1, kvs1)"
    "length b1 = length ids" "stack_ok c ?cap 0 ?ws sts1 kvs1"
    using layers_returns [OF z(3), of "length xs" "embed_tokens c w ids" F avx weights] room by auto
  obtain kvs1' where s: "layers_ref F avx c weights ?cap 0 ?ws (embed_tokens c w ids) (ca_ks ca) (map Some kv) (length xs) = Some (b1, sts1, kvs1')"
    "stack_agree (length xs + length ids) ?ws kvs1 kvs1'"
    using layers_stale [OF z(3) kv(2) z(4) _ _ n(1)] room by auto
  have same: "b = b1" "sts = sts1" "kvs = kvs1'" using R s(1) kv by simp_all
  have R': "layers_ref F avx c weights ?cap 0 ?ws (embed_tokens c w ids) (ca_ks ca) (map Some kv) (length xs) = Some (b, sts, kvs)"
    using R kv by simp
  have ok: "stack_ok c ?cap 0 ?ws sts kvs"
    using layers_returns [OF kv(2), of "length xs" "embed_tokens c w ids" F avx weights] R' room by auto
  have "None \<notin> set kvs" using layers_some [OF kv(2) _ _ R'] room by auto
  then have the: "map (Some \<circ> the) kvs = kvs" by (induction kvs) auto
  have whole: "layers_ref F avx c weights ?cap 0 ?ws (embed_tokens c w (xs @ ids)) ?zero kv0 0 = Some (t @ b, sts, kvs1)"
    using layers_split [OF z(1) _ z(2), of "embed_tokens c w ids" b1 sts1 kvs1] n(1) room same by (simp add: embed_tokens_append)
  show "consumed F avx c weights w (xs @ ids) (ca\<lparr>ca_ks := sts, ca_kv := Some (map the kvs), ca_cached := length xs + length ids\<rparr>)"
    using ok the z(1) whole n(3) s(2) room same by (auto simp: consumed_def carry_fit_def Let_def)
  have keep: "stack_agree (length xs) ?ws (map Some kv) kvs" using layers_keep [OF kv(2) _ R'] room by simp
  show "consumed F avx c weights w xs (ca\<lparr>ca_kv := Some (map the kvs)\<rparr>)"
    using stack_ok_mix [OF kv(2) ok] the kv(3) room z stack_agree_trans [OF z(4) keep]
    by (auto simp: consumed_def carry_fit_def Let_def)
  show "length b = length ids" using n(2) same by simp
  fix i assume i: "i < length ids"
  obtain sts2 kvs2 where "layers_ref F avx c weights ?cap 0 ?ws (take (length xs + Suc i) (embed_tokens c w (xs @ ids))) ?zero kv0 0 =
      Some (take (length xs + Suc i) (t @ b), sts2, kvs2)"
    using layers_take [OF z(1) _ _ whole, of "length xs + Suc i"] room i by auto
  then have "recompute F avx c weights w (xs @ take (Suc i) ids) = t @ take (Suc i) b"
    using recompute_cached [OF z(1), of "xs @ take (Suc i) ids"] room i t by (simp add: take_embed_tokens)
  moreover have "last (t @ take (Suc i) b) = b ! i" using i n(2) same by (simp add: take_Suc_conv_app_nth)
  ultimately show "logits F avx c w (b ! i) = next_logits F avx c weights w (xs @ take (Suc i) ids)"
    by (simp add: next_logits_def)
qed

section \<open>The forward pass\<close>

lemma stack_ok_the: "stack_ok c cap L ws sts kvs \<Longrightarrow> stack_ok c cap L ws sts (map (Some \<circ> the) kvs)"
  by (induction c cap L ws sts kvs rule: stack_ok.induct) (auto simp: attn_ok_def split: option.splits)

lemma point_from_nth: "map (\<lambda>L. point_at src d (int L) (ws ! L)) [0..<length ws] = point_from src d 0 ws"
  by (rule nth_equalityI) (simp_all add: point_from_def)

lemma forward_cached:
  "ca_kv ca = Some kv \<Longrightarrow> forward m nb junk c w src ids ca s =
     map_option (\<lambda>(toks, ks, kvs, s'). (map (logits (ma_fpu m) (ma_avx m) c w) toks, ca\<lparr>ca_ks := ks, ca_kv := Some (map the kvs)\<rparr>, s'))
       (run_layers m nb junk c (ca_cached ca) (we_kv_cap w) 0 (point_from src (we_draft_mode w) 0 (we_lay w))
          (embed_tokens c w ids) (ca_ks ca) (map Some kv) s)"
  by (simp add: forward_def Let_def point_from_nth embed_tokens_def)

lemma forward_uncached:
  "ca_kv ca = None \<Longrightarrow> forward m nb junk c w src ids ca s =
     map_option (\<lambda>(toks, ks, kvs, s'). (map (logits (ma_fpu m) (ma_avx m) c w) toks, ca\<lparr>ca_ks := ks, ca_kv := None\<rparr>, s'))
       (run_layers m nb junk c (ca_cached ca) (we_kv_cap w) 0 (point_from src (we_draft_mode w) 0 (we_lay w))
          (embed_tokens c w ids) (replicate (length (we_lay w)) (kda_zero c)) (replicate (length (we_lay w)) None) s)"
  by (simp add: forward_def Let_def point_from_nth embed_tokens_def)

lemma forward_streams:
  assumes run: "run_ok st fl cfg m s" "st_sane st" "experts_fit st cfg" and n: "int (length (we_lay w)) \<le> cf_n_layers cfg"
    and w: "\<not> we_draft_mode w" "carry_fit cfg w ca" "ca_cached ca + length ids \<le> we_kv_cap w"
  shows "\<exists>lg ca' s'. forward m nb junk cfg w (cache_src st np) ids ca s = Some (lg, ca', s') \<and> run_ok st fl cfg m s' \<and>
    ru_drops s \<le> ru_drops s' \<and> carry_fit cfg w (ca'\<lparr>ca_cached := ca_cached ca + length ids\<rparr>) \<and> carry_fit cfg w (ca'\<lparr>ca_ks := ca_ks ca\<rparr>) \<and>
    ca_cached ca' = ca_cached ca \<and>
    (ru_drops s' = ru_drops s \<longrightarrow> (\<forall>xs. consumed (ma_fpu m) (ma_avx m) cfg (checkpoint_expert st fl) w xs ca \<longrightarrow>
       consumed (ma_fpu m) (ma_avx m) cfg (checkpoint_expert st fl) w (xs @ ids) (ca'\<lparr>ca_cached := length xs + length ids\<rparr>) \<and>
       consumed (ma_fpu m) (ma_avx m) cfg (checkpoint_expert st fl) w xs (ca'\<lparr>ca_ks := ca_ks ca\<rparr>) \<and>
       lg = map (\<lambda>i. next_logits (ma_fpu m) (ma_avx m) cfg (checkpoint_expert st fl) w (xs @ take (Suc i) ids)) [0..<length ids]))"
proof -
  let ?F = "ma_fpu m" and ?avx = "ma_avx m" and ?W = "checkpoint_expert st fl" and ?cap = "we_kv_cap w"
  obtain kv where kv: "ca_kv ca = Some kv" "stack_ok cfg ?cap 0 (we_lay w) (ca_ks ca) (map Some kv)"
    using w(2) by (auto simp: carry_fit_def)
  have can: "stack_can cfg ?cap (ca_cached ca) (length ids) 0 (we_lay w) (ca_ks ca) (map Some kv)"
    using stack_ok_can [OF kv(2)] w(3) by simp
  obtain t sts kvs s' where r: "run_layers m nb junk cfg (ca_cached ca) ?cap 0 (point_from (cache_src st np) False 0 (we_lay w))
      (embed_tokens cfg w ids) (ca_ks ca) (map Some kv) s = Some (t, sts, kvs, s')" "run_ok st fl cfg m s'" "ru_drops s \<le> ru_drops s'"
    "stack_ok cfg ?cap 0 (we_lay w) sts kvs"
    "ru_drops s' = ru_drops s \<longrightarrow> layers_ref ?F ?avx cfg ?W ?cap 0 (we_lay w) (embed_tokens cfg w ids) (ca_ks ca) (map Some kv) (ca_cached ca) = Some (t, sts, kvs)"
    using layers_stream [OF can _ run, of "embed_tokens cfg w ids" nb junk np] n kv(2) by auto
  let ?ca = "ca\<lparr>ca_ks := sts, ca_kv := Some (map the kvs)\<rparr>"
  have f: "forward m nb junk cfg w (cache_src st np) ids ca s = Some (map (logits ?F ?avx cfg w) t, ?ca, s')"
    using r(1) w(1) by (simp add: forward_cached [OF kv(1)])
  have fit: "carry_fit cfg w (?ca\<lparr>ca_cached := ca_cached ca + length ids\<rparr>)" "carry_fit cfg w (?ca\<lparr>ca_ks := ca_ks ca\<rparr>)"
    using stack_ok_the [OF r(4)] stack_ok_mix [OF kv(2) stack_ok_the [OF r(4)]] w(3) by (simp_all add: carry_fit_def)
  have "consumed ?F ?avx cfg ?W w (xs @ ids) (?ca\<lparr>ca_cached := length xs + length ids\<rparr>) \<and>
      consumed ?F ?avx cfg ?W w xs (?ca\<lparr>ca_ks := ca_ks ca\<rparr>) \<and>
      map (logits ?F ?avx cfg w) t = map (\<lambda>i. next_logits ?F ?avx cfg ?W w (xs @ take (Suc i) ids)) [0..<length ids]"
    if "ru_drops s' = ru_drops s" "consumed ?F ?avx cfg ?W w xs ca" for xs
  proof -
    have "ca_cached ca = length xs" using that(2) by (simp add: consumed_def)
    then have R: "length xs + length ids \<le> ?cap" "layers_ref ?F ?avx cfg ?W ?cap 0 (we_lay w) (embed_tokens cfg w ids) (ca_ks ca)
        (map Some (the (ca_kv ca))) (ca_cached ca) = Some (t, sts, kvs)" using r(5) that(1) w(3) kv(1) by simp_all
    note feed = feed_ref [OF that(2) R]
    have "map (logits ?F ?avx cfg w) t = map (\<lambda>i. next_logits ?F ?avx cfg ?W w (xs @ take (Suc i) ids)) [0..<length ids]"
      using feed(3,4) by (intro nth_equalityI) simp_all
    then show ?thesis using feed(1,2) by simp
  qed
  then show ?thesis using f fit r(2,3) by auto
qed

text \<open>Every layer attends one way or the other, and an MLA layer is one the configuration lists.\<close>

fun layers_attend :: "K3Cfg \<Rightarrow> nat \<Rightarrow> ('c, 'q, 'd) K3LayerW list \<Rightarrow> bool" where
  "layers_attend c L [] = True"
| "layers_attend c L (w # ws) = ((ly_kda w \<noteq> None \<or> ly_mla w \<noteq> None \<and> k3_is_mla c (int L)) \<and> layers_attend c (Suc L) ws)"

lemma kda_zero_shape: "kda_shape c (kda_zero c)"
  by (simp add: kda_shape_def kda_zero_def Let_def)

lemma zero_can:
  "layers_attend c L ws \<Longrightarrow>
   stack_can c cap cached n L ws (replicate (length ws) (kda_zero c)) (replicate (length ws) None)"
  by (induction ws arbitrary: L) (auto simp: layer_can_def kda_zero_shape)

text \<open>Without a cache the pass is the recompute.\<close>

lemma forward_recomputes:
  assumes run: "run_ok st fl cfg m s" "st_sane st" "experts_fit st cfg" and n: "int (length (we_lay w)) \<le> cf_n_layers cfg"
    and w: "\<not> we_draft_mode w" "ca_kv ca = None"
    and attend: "layers_attend cfg 0 (we_lay w)"
  shows "\<exists>lg ca' s'. forward m nb junk cfg w (cache_src st np) ids ca s = Some (lg, ca', s') \<and> run_ok st fl cfg m s' \<and>
    ru_drops s \<le> ru_drops s' \<and> ca_kv ca' = None \<and> ca_cached ca' = ca_cached ca \<and>
    (ru_drops s' = ru_drops s \<longrightarrow> lg = map (logits (ma_fpu m) (ma_avx m) cfg w) (recompute (ma_fpu m) (ma_avx m) cfg (checkpoint_expert st fl) w ids))"
proof -
  let ?F = "ma_fpu m" and ?avx = "ma_avx m" and ?W = "checkpoint_expert st fl" and ?n = "length (we_lay w)"
  obtain t sts kvs s' where r: "run_layers m nb junk cfg (ca_cached ca) (we_kv_cap w) 0 (point_from (cache_src st np) False 0 (we_lay w))
      (embed_tokens cfg w ids) (replicate ?n (kda_zero cfg)) (replicate ?n None) s = Some (t, sts, kvs, s')" "run_ok st fl cfg m s'"
    "ru_drops s \<le> ru_drops s'"
    "ru_drops s' = ru_drops s \<longrightarrow> layers_ref ?F ?avx cfg ?W (we_kv_cap w) 0 (we_lay w) (embed_tokens cfg w ids) (replicate ?n (kda_zero cfg)) (replicate ?n None) (ca_cached ca) = Some (t, sts, kvs)"
    using layers_stream [OF zero_can [OF attend] _ run, of "embed_tokens cfg w ids" "length ids" nb junk "ca_cached ca" "we_kv_cap w" np] n by auto
  have cap: "layers_ref F avx c weights cap L ws toks sts (replicate (length ws) None) cached =
      layers_ref F avx c weights cap' L ws toks sts (replicate (length ws) None) cached'" for F avx c weights cap cap' L and ws :: "(_, _, _) K3LayerW list" and toks sts cached cached'
  proof (induction ws arbitrary: L toks sts)
    case (Cons w ws)
    have "layer_ref F avx c weights cap L w toks st None cached = layer_ref F avx c weights cap' L w toks st None cached'" for st
      by (simp add: layer_ref_def attn_step_def attention_def k3_mla_cached_def Let_def cong: option.case_cong)
    then show ?case using Cons by (cases sts) (auto cong: option.case_cong)
  qed simp
  have "recompute ?F ?avx cfg ?W w ids = t" if "ru_drops s' = ru_drops s"
    using r(4) that cap [of ?F ?avx cfg ?W "we_kv_cap w" 0 "we_lay w" "embed_tokens cfg w ids" "replicate ?n (kda_zero cfg)" "ca_cached ca" 0 0]
    by (simp add: recompute_def)
  then show ?thesis using r(1-3) w by (auto simp: forward_uncached)
qed

text \<open>A draft pass leaves the source and its drops alone and the state fitting.\<close>

lemma forward_drafts:
  assumes "src_resident src = Some res" "we_draft_mode w" "carry_fit c w ca" "ca_cached ca + length ids \<le> we_kv_cap w"
  shows "\<exists>lg ca'. forward m nb junk c w src ids ca s = Some (lg, ca', s) \<and>
    carry_fit c w (ca'\<lparr>ca_cached := ca_cached ca + length ids\<rparr>) \<and> carry_fit c w (ca'\<lparr>ca_ks := ca_ks ca\<rparr>) \<and>
    ca_cached ca' = ca_cached ca"
proof -
  obtain kv where kv: "ca_kv ca = Some kv" "stack_ok c (we_kv_cap w) 0 (we_lay w) (ca_ks ca) (map Some kv)"
    using assms(3) by (auto simp: carry_fit_def)
  obtain t sts kvs where r: "run_layers m nb junk c (ca_cached ca) (we_kv_cap w) 0 (point_from src True 0 (we_lay w))
      (embed_tokens c w ids) (ca_ks ca) (map Some kv) s = Some (t, sts, kvs, s)" "stack_ok c (we_kv_cap w) 0 (we_lay w) sts kvs"
    using layers_draft [OF kv(2) _ assms(1), of "ca_cached ca" "embed_tokens c w ids" m nb junk s] assms(4) by auto
  then show ?thesis using assms(2,4) stack_ok_the [OF r(2)] stack_ok_mix [OF kv(2) stack_ok_the [OF r(2)]]
    by (simp add: forward_cached [OF kv(1)] carry_fit_def)
qed

section \<open>A fresh state\<close>

lemma concat_segs: "length s = n * h \<Longrightarrow> concat (map (\<lambda>c. seg s (c * h) h) [0..<n]) = s"
proof (induction n arbitrary: s)
  case (Suc n)
  have "concat (map (\<lambda>c. seg (take (n * h) s) (c * h) h) [0..<n]) = take (n * h) s" using Suc by simp
  moreover have "seg (take (n * h) s) (c * h) h = seg s (c * h) h" if "c < n" for c
  proof -
    have "c * h + h \<le> n * h" using that by (metis Suc_leI add.commute mult_Suc mult_le_mono1)
    then show ?thesis by (simp add: seg_def drop_take take_take min_def)
  qed
  then have "map (\<lambda>c. seg (take (n * h) s) (c * h) h) [0..<n] = map (\<lambda>c. seg s (c * h) h) [0..<n]" by simp
  ultimately have "concat (map (\<lambda>c. seg s (c * h) h) [0..<n]) = take (n * h) s" by simp
  then show ?case using Suc.prems by (simp add: seg_def)
qed simp

text \<open>No token, no change.\<close>

lemma kda_empty: "kda_shape c st \<Longrightarrow> k3_kda_layer F avx w c [] (Some st) = ([], Some st)"
  by (simp add: k3_kda_layer_def k3_shortconv_def kda_shape_def Let_def channel_def concat_segs)

lemma layers_empty:
  "stack_ok c cap L ws sts kvs \<Longrightarrow> cached \<le> cap \<Longrightarrow> layers_ref F avx c weights cap L ws [] sts kvs cached = Some ([], sts, kvs)"
proof (induction c cap L ws sts kvs rule: stack_ok.induct)
  case (1 c cap L w ws st sts kv kvs)
  have ok: "attn_ok c cap L w st kv" using "1.prems"(1) by simp
  have "layer_ref F avx c weights cap L w [] st kv cached = Some ([], st, kv)"
  proof (cases "ly_kda w")
    case (Some kda)
    then show ?thesis using ok kda_empty [of c st F avx kda] by (simp add: layer_ref_def attn_step_kda attn_ok_def)
  next
    case None
    obtain mla k r where m: "ly_mla w = Some mla" "k3_is_mla c (int L)" "kv = Some (k, r)" "length k = cap" "length r = cap"
      "kda_shape c st" using attn_ok_mla [OF ok None] .
    then show ?thesis using "1.prems"(2)
      by (simp add: layer_ref_def attn_step_mla [OF None m(1,2)] k3_mla_cached_def write_rows_def)
  qed
  then show ?case using "1.IH" "1.prems" by simp
qed auto

lemma zero_ok:
  "layers_attend c L ws \<Longrightarrow> length k = cap \<Longrightarrow> length r = cap \<Longrightarrow>
   stack_ok c cap L ws (replicate (length ws) (kda_zero c)) (replicate (length ws) (Some (k, r)))"
  by (induction ws arbitrary: L) (auto simp: attn_ok_def kda_zero_shape)

lemma fresh_consumed:
  assumes "layers_attend c 0 (we_lay w)"
  shows "consumed F avx c weights w [] (fresh_carry c w)"
proof -
  let ?n = "length (we_lay w)" and ?cap = "we_kv_cap w"
  define k r where "k = replicate ?cap (replicate (kv_width c) (0 :: f32))"
    and "r = replicate ?cap (replicate (nat (cf_qk_rope c)) (0 :: f32))"
  have ok: "stack_ok c ?cap 0 (we_lay w) (replicate ?n (kda_zero c)) (replicate ?n (Some (k, r)))"
    using zero_ok [OF assms, of k ?cap r] by (simp add: k_def r_def)
  have fc: "ca_ks (fresh_carry c w) = replicate ?n (kda_zero c)" "ca_kv (fresh_carry c w) = Some (replicate ?n (k, r))"
    "ca_cached (fresh_carry c w) = 0" by (simp_all add: fresh_carry_def Let_def k_def r_def)
  show ?thesis unfolding consumed_def carry_fit_def Let_def fc
    using ok layers_empty [OF ok, of 0 F avx weights] stack_agree_refl [of "replicate ?n (Some (k, r))" "we_lay w" 0]
    by (auto simp: embed_tokens_def intro!: exI [of _ "replicate ?n (Some (k, r))"])
qed

section \<open>Rows, and a cache of another size\<close>

lemma stack_ok_attend: "stack_ok c cap L ws sts kvs \<Longrightarrow> layers_attend c L ws"
  by (induction c cap L ws sts kvs rule: stack_ok.induct) (auto simp: attn_ok_def)

lemma stack_agree_0: "stack_ok c cap L ws sts kvs \<Longrightarrow> stack_ok c cap' L ws sts' kvs' \<Longrightarrow> stack_agree 0 ws kvs kvs'"
proof (induction c cap L ws sts kvs arbitrary: sts' kvs' rule: stack_ok.induct)
  case (1 c cap L w ws st sts kv kvs)
  obtain s t k l where "sts' = s # t" "kvs' = k # l" using "1.prems"(2) by (cases sts'; cases kvs') auto
  then show ?case using "1.IH" [of t l] "1.prems" by (auto simp: attn_ok_def kv_agree_def split: option.splits)
next
  case (2 c cap L)
  then show ?case by (cases sts'; cases kvs') auto
qed auto

lemma stack_agree_sym: "stack_agree n ws a b \<Longrightarrow> stack_agree n ws b a"
  by (induction n ws a b rule: stack_agree.induct) (auto simp: kv_agree_def split: option.splits)

text \<open>A state moved to a cache of another capacity still stands for the same ids.\<close>

lemma consumed_recap:
  assumes C: "consumed F avx c weights w xs ca" and kv: "ca_kv ca = Some kv" "ca_kv ca' = Some kv'"
    and w': "w' = w\<lparr>we_kv_cap := cap'\<rparr>" and fit: "carry_fit c w' ca'"
    and same: "ca_ks ca' = ca_ks ca" "ca_cached ca' = length xs" "stack_agree (length xs) (we_lay w) (map Some kv) (map Some kv')"
  shows "consumed F avx c weights w' xs ca'"
proof -
  let ?zero = "replicate (length (we_lay w)) (kda_zero c)" and ?cap = "we_kv_cap w" and ?ws = "we_lay w"
  obtain kv0 t kvs where z: "stack_ok c ?cap 0 ?ws ?zero kv0"
    "layers_ref F avx c weights ?cap 0 ?ws (embed_tokens c w xs) ?zero kv0 0 = Some (t, ca_ks ca, kvs)"
    "stack_ok c ?cap 0 ?ws (ca_ks ca) kvs" "stack_agree (length xs) ?ws kvs (map Some kv)"
    using C kv(1) by (auto simp: consumed_def Let_def)
  have len: "length xs \<le> ?cap" "length xs \<le> cap'" using C fit same(2) w' by (auto simp: consumed_def carry_fit_def)
  let ?rows = "replicate cap' []" and ?n = "length (we_lay w)"
  have ok': "stack_ok c cap' 0 ?ws ?zero (replicate ?n (Some (?rows, ?rows)))"
    by (rule zero_ok [OF stack_ok_attend [OF z(1)]]) simp_all
  obtain kvs' where s: "layers_ref F avx c weights cap' 0 ?ws (embed_tokens c w xs) ?zero (replicate ?n (Some (?rows, ?rows))) 0 =
      Some (t, ca_ks ca, kvs')" "stack_agree (length xs) ?ws kvs kvs'"
    using layers_stale [OF z(1) ok' stack_agree_0 [OF z(1) ok'] _ _ z(2)] len by auto
  have okv: "stack_ok c cap' 0 ?ws (ca_ks ca) kvs'"
    using layers_returns [OF ok', of 0 "embed_tokens c w xs" F avx weights] s(1) len(2) by auto
  have "embed_tokens c w' = embed_tokens c w" by (intro ext) (simp add: embed_tokens_def w')
  moreover have "stack_agree (length xs) ?ws kvs' (map Some kv')"
    using stack_agree_trans [OF stack_agree_sym [OF s(2)] stack_agree_trans [OF z(4) same(3)]] .
  ultimately show ?thesis unfolding consumed_def Let_def
    using fit same(1,2) ok' okv s(1) kv(2) by (auto simp: w')
qed

text \<open>The rows a run has consumed are as wide as the configuration says.\<close>

fun stack_wide :: "K3Cfg \<Rightarrow> nat \<Rightarrow> ('c, 'q, 'd) K3LayerW list \<Rightarrow> kv_rows option list \<Rightarrow> bool" where
  "stack_wide c n (w # ws) (kv # kvs) = ((ly_kda w = None \<longrightarrow> (case kv of None \<Rightarrow> False | Some (k, r) \<Rightarrow>
     (\<forall>x\<in>set (take n k). length x = kv_width c) \<and> (\<forall>x\<in>set (take n r). length x = nat (cf_qk_rope c)))) \<and> stack_wide c n ws kvs)"
| "stack_wide c n [] [] = True"
| "stack_wide c n _ _ = False"

lemma mla_kv_wide: "length (fst (mla_kv F avx w c x)) = kv_width c" "length (snd (mla_kv F avx w c x)) = nat (cf_qk_rope c)"
  by (simp_all add: mla_kv_def kv_width_def Let_def seg_def)

lemma layers_wide:
  "stack_ok c cap L ws sts kvs \<Longrightarrow> length toks \<le> cap \<Longrightarrow>
   layers_ref F avx c weights cap L ws toks sts kvs 0 = Some (t, sts', kvs') \<Longrightarrow> stack_wide c (length toks) ws kvs'"
proof (induction c cap L ws sts kvs arbitrary: toks t sts' kvs' rule: stack_ok.induct)
  case (1 c cap L w ws st sts kv kvs)
  have ok: "attn_ok c cap L w st kv" using "1.prems"(1) by simp
  obtain t1 st1 kv1 where l: "layer_ref F avx c weights cap L w toks st kv 0 = Some (t1, st1, kv1)"
    "length t1 = length toks" using layer_returns [OF ok, of 0 toks F avx weights] "1.prems"(2) by auto
  obtain s1 k1 where r: "layers_ref F avx c weights cap (Suc L) ws t1 sts kvs 0 = Some (t, s1, k1)" "kvs' = kv1 # k1"
    using "1.prems"(3) l(1) by auto
  have "case kv1 of None \<Rightarrow> False | Some (k, r) \<Rightarrow> (\<forall>x\<in>set (take (length toks) k). length x = kv_width c) \<and>
      (\<forall>x\<in>set (take (length toks) r). length x = nat (cf_qk_rope c))" if None: "ly_kda w = None"
  proof -
    obtain mla k r where m: "ly_mla w = Some mla" "k3_is_mla c (int L)" "kv = Some (k, r)" "length k = cap" "length r = cap"
      "kda_shape c st" using attn_ok_mla [OF ok None] .
    show ?thesis using l(1) m "1.prems"(2)
      by (auto simp: layer_ref_def attn_step_mla [OF None m(1,2)] k3_mla_cached_def Let_def write_rows_def mla_kv_wide)
  qed
  then show ?case using "1.IH" [of t1 t s1 k1] "1.prems" l(2) r by auto
qed auto

lemma stack_wide_agree: "stack_wide c n ws a \<Longrightarrow> stack_agree n ws a b \<Longrightarrow> stack_wide c n ws b"
proof (induction c n ws a arbitrary: b rule: stack_wide.induct)
  case (1 c n w ws kv kvs)
  obtain x y where "b = x # y" using "1.prems"(2) by (cases b) auto
  then show ?case using 1 by (auto simp: kv_agree_def split: option.splits)
next
  case (2 c n)
  then show ?case by (cases b) auto
qed auto

lemma consumed_wide:
  assumes "consumed F avx c weights w xs ca"
  shows "stack_wide c (length xs) (we_lay w) (map Some (the (ca_kv ca)))"
  using assms layers_wide [of c "we_kv_cap w" 0 "we_lay w" _ _ "embed_tokens c w xs" F avx weights] stack_wide_agree
  by (fastforce simp: consumed_def carry_fit_def Let_def)

end
