(* ===== verification/K3_Generate_Laws.thy ===== *)
theory K3_Generate_Laws
  imports K3_Generate K3_Carry
begin

text \<open>
  Generation emits the greedy continuation of the prompt, whatever is drafted: the contract of a forward pass and of
  a draft model, what the loop does under it, and the contract discharged for the streamed passes.
\<close>

section \<open>The greedy continuation\<close>

fun greedy :: "(nat list \<Rightarrow> nat) \<Rightarrow> nat \<Rightarrow> nat list \<Rightarrow> nat list" where
  "greedy nx 0 xs = xs"
| "greedy nx (Suc n) xs = greedy nx n (xs @ [nx xs])"

lemma greedy_add: "greedy nx (a + b) xs = greedy nx b (greedy nx a xs)"
  by (induction a arbitrary: xs) auto

lemma length_greedy [simp]: "length (greedy nx n xs) = length xs + n"
  by (induction n arbitrary: xs) auto

lemma greedy_accepts:
  assumes "m \<le> length d" "\<And>i. i < m \<Longrightarrow> nx (xs @ take i d) = d ! i"
  shows "xs @ take m d @ [nx (xs @ take m d)] = greedy nx (Suc m) xs"
proof -
  have "xs @ take j d = greedy nx j xs" if "j \<le> m" for j
    using that
  proof (induction j)
    case (Suc j)
    have "xs @ take (Suc j) d = (xs @ take j d) @ [d ! j]" using Suc.prems assms(1) by (simp add: take_Suc_conv_app_nth)
    also have "\<dots> = greedy nx (j + 1) xs" using Suc assms(2) [of j] by (simp only: greedy_add) simp
    finally show ?case by simp
  qed simp
  from this [of m] have "xs @ take m d = greedy nx m xs" by simp
  moreover have "greedy nx (m + 1) xs = greedy nx m xs @ [nx (greedy nx m xs)]" by (simp only: greedy_add) simp
  ultimately show ?thesis by (metis Suc_eq_plus1 append.assoc)
qed

lemma accepted_spec:
  assumes "length d \<le> length arg"
  shows "accepted arg d \<le> length d" "\<And>i. i < accepted arg d \<Longrightarrow> arg ! i = d ! i"
    "accepted arg d < length d \<Longrightarrow> arg ! accepted arg d \<noteq> d ! accepted arg d"
proof -
  let ?z = "zip arg d"
  have len: "length ?z = length d" using assms by simp
  show "accepted arg d \<le> length d" unfolding accepted_def using length_takeWhile_le [of _ ?z] len by (metis (no_types))
  show "arg ! i = d ! i" if "i < accepted arg d" for i
    using that nth_mem [of i "takeWhile (\<lambda>(a, b). a = b) ?z"] set_takeWhileD [of "takeWhile (\<lambda>(a, b). a = b) ?z ! i" "\<lambda>(a, b). a = b" ?z]
      takeWhile_nth [of i "\<lambda>(a, b). a = b" ?z] length_takeWhile_le [of "\<lambda>(a, b). a = b" ?z] len
    by (auto simp: accepted_def)
  show "arg ! accepted arg d \<noteq> d ! accepted arg d" if "accepted arg d < length d"
    using that nth_length_takeWhile [of "\<lambda>(a, b). a = b" ?z] len assms by (simp add: accepted_def)
qed

section \<open>Drafts\<close>

lemma length_ngram_draft: "length (ngram_draft sq cap n) \<le> cap"
proof -
  have "length (takeWhile P [0..<min cap k]) \<le> cap" for P k
    using length_takeWhile_le [of P "[0..<min cap k]"] by simp
  then show ?thesis by (auto simp: ngram_draft_def split: list.split)
qed

lemma length_spec_draft: "length (spec_draft sq cap) \<le> cap"
  using length_ngram_draft [of sq "min cap K3_SPEC_MAX"] by (auto simp: spec_draft_def Let_def intro: le_trans)

text \<open>A draft repeats what the sequence itself went on with after an earlier occurrence of its last ids.\<close>

lemma ngram_draft_source:
  assumes "ngram_draft sq cap n \<noteq> []"
  shows "\<exists>j. j + n < length sq \<and> (\<forall>i < n. sq ! (j + i) = sq ! (length sq - n + i)) \<and>
    (\<forall>i < length (ngram_draft sq cap n). j + n + i < length sq \<and> ngram_draft sq cap n ! i = sq ! (j + n + i))"
proof -
  obtain m1 older where f: "filter (suffix_at sq n) (rev [0..<length sq - n]) = m1 # older" "n + 1 \<le> length sq"
    using assms by (auto simp: ngram_draft_def split: if_splits list.splits)
  have "m1 \<in> set (filter (suffix_at sq n) (rev [0..<length sq - n]))" by (simp add: f(1))
  then have m: "m1 < length sq - n" "suffix_at sq n m1" by auto
  let ?P = "agreed sq n m1 (case older of [] \<Rightarrow> None | m2 # _ \<Rightarrow> Some m2)" and ?k = "min cap (length sq - (m1 + n))"
  have d: "ngram_draft sq cap n = map (\<lambda>i. sq ! (m1 + n + i)) (takeWhile ?P [0..<?k])"
    using f by (simp add: ngram_draft_def)
  have nth: "takeWhile ?P [0..<?k] ! i = i \<and> i < ?k" if "i < length (takeWhile ?P [0..<?k])" for i
    using that takeWhile_nth [of i ?P "[0..<?k]"] length_takeWhile_le [of ?P "[0..<?k]"] by simp
  have "m1 + n + i < length sq \<and> ngram_draft sq cap n ! i = sq ! (m1 + n + i)" if "i < length (ngram_draft sq cap n)" for i
    using nth [of i] that unfolding d length_map by (auto simp: less_diff_conv ac_simps)
  then show ?thesis using m by (intro exI [of _ m1]) (auto simp: suffix_at_def list_all_iff)
qed

section \<open>The contract of a forward pass\<close>

text \<open>
  A pass returns as long as there is room, and when nothing was dropped meanwhile a state that stood for \<open>xs\<close> stands
  for \<open>xs @ ids\<close>, with the logits of every position; its rows put under the old recurrent state stand for \<open>xs\<close> again.
\<close>

locale decoder =
  fixes fw :: "'r fwd" and good :: "'r \<Rightarrow> bool" and drops :: "'r \<Rightarrow> int" and reset :: "'r \<Rightarrow> 'r"
    and fit :: "Carry \<Rightarrow> bool" and holds :: "nat list \<Rightarrow> Carry \<Rightarrow> bool" and cap :: nat and lgt :: "nat list \<Rightarrow> f32 list"
  assumes pass: "good r \<Longrightarrow> fit ca \<Longrightarrow> ca_cached ca + length ids \<le> cap \<Longrightarrow>
      \<exists>lg ca' r'. fw ids ca r = Some (lg, ca', r') \<and> good r' \<and> drops r \<le> drops r' \<and> ca_cached ca' = ca_cached ca \<and>
        fit (ca'\<lparr>ca_cached := ca_cached ca + length ids\<rparr>) \<and> fit (ca'\<lparr>ca_ks := ca_ks ca\<rparr>) \<and>
        (drops r' = drops r \<longrightarrow> (\<forall>xs. holds xs ca \<longrightarrow>
           holds (xs @ ids) (ca'\<lparr>ca_cached := length xs + length ids\<rparr>) \<and> holds xs (ca'\<lparr>ca_ks := ca_ks ca\<rparr>) \<and>
           lg = map (\<lambda>i. lgt (xs @ take (Suc i) ids)) [0..<length ids]))"
    and holds_length: "holds xs ca \<Longrightarrow> ca_cached ca = length xs"
    and reset_good: "good r \<Longrightarrow> good (reset r) \<and> drops (reset r) = drops r"
begin

abbreviation nx :: "nat list \<Rightarrow> nat" where
  "nx xs \<equiv> argmax (lgt xs)"

lemma feed_ok:
  assumes "good r" "fit ca" "n = ca_cached ca + length ids" "n \<le> cap"
  shows "\<exists>lg ca' r'. feed fw ids n ca r = Some (lg, ca', r') \<and> good r' \<and> drops r \<le> drops r' \<and> fit ca' \<and> ca_cached ca' = n \<and>
    (drops r' = drops r \<longrightarrow> (\<forall>xs. holds xs ca \<longrightarrow>
       holds (xs @ ids) ca' \<and> lg = map (\<lambda>i. lgt (xs @ take (Suc i) ids)) [0..<length ids]))"
proof -
  obtain lg ca' r' where p: "fw ids ca r = Some (lg, ca', r')" "good r'" "drops r \<le> drops r'" "fit (ca'\<lparr>ca_cached := n\<rparr>)"
    "drops r' = drops r \<longrightarrow> (\<forall>xs. holds xs ca \<longrightarrow> holds (xs @ ids) (ca'\<lparr>ca_cached := length xs + length ids\<rparr>) \<and>
       lg = map (\<lambda>i. lgt (xs @ take (Suc i) ids)) [0..<length ids])"
    using pass [OF assms(1,2), of ids] assms(3,4) by auto
  moreover have "holds (xs @ ids) (ca'\<lparr>ca_cached := n\<rparr>)" if "drops r' = drops r" "holds xs ca" for xs
    using p(5) that holds_length [OF that(2)] assms(3) by simp
  ultimately show ?thesis by (auto simp: feed_def)
qed

end

text \<open>A draft model is under no obligation but to return, and to leave the source alone.\<close>

locale drafted = decoder fw good drops reset fit holds cap lgt
  for fw :: "'r fwd" and good drops reset fit holds cap lgt +
  fixes draft :: "'r fwd option" and dfit :: "Carry \<Rightarrow> bool"
  assumes draft_pass: "draft = Some dfw \<Longrightarrow> dfit ca \<Longrightarrow> ca_cached ca + length ids \<le> cap \<Longrightarrow>
      \<exists>lg ca'. dfw ids ca r = Some (lg, ca', r) \<and> dfit (ca'\<lparr>ca_cached := ca_cached ca + length ids\<rparr>)"
    and draft_back: "dfit a \<Longrightarrow> dfit b \<Longrightarrow> n \<le> cap \<Longrightarrow> dfit (b\<lparr>ca_ks := ca_ks a, ca_cached := n\<rparr>)"
begin

definition drafting :: "nat \<Rightarrow> Carry \<Rightarrow> bool" where
  "drafting n dca \<longleftrightarrow> (draft \<noteq> None \<longrightarrow> dfit dca \<and> ca_cached dca = n)"

lemma resync_ok:
  assumes "drafting k dca" "n = k + length ids" "n \<le> cap"
  shows "\<exists>dca'. resync draft ids n dca r = Some (dca', r) \<and> drafting n dca'"
proof (cases draft)
  case (Some dfw)
  then show ?thesis using draft_pass [OF Some, of dca ids r] assms unfolding drafting_def by (auto simp: resync_def feed_def)
next
  case None
  then show ?thesis unfolding drafting_def by (simp add: resync_def)
qed

lemma chain_ok:
  "draft = Some dfw \<Longrightarrow> dfit dca \<Longrightarrow> ca_cached dca + n \<le> cap \<Longrightarrow>
   \<exists>d dca'. draft_chain dfw n prev dca r = (d, dca', r) \<and> length d = n \<and> dfit dca' \<and> ca_cached dca' = ca_cached dca + n"
proof (induction n arbitrary: prev dca)
  case (Suc n)
  obtain lg ca' where p: "dfw [prev] dca r = Some (lg, ca', r)" "dfit (ca'\<lparr>ca_cached := ca_cached dca + 1\<rparr>)"
    using draft_pass [of dfw dca "[prev]" r] Suc.prems by auto
  obtain d dca2 where "draft_chain dfw n (argmax (last lg)) (ca'\<lparr>ca_cached := ca_cached dca + 1\<rparr>) r = (d, dca2, r)" "length d = n" "dfit dca2"
    "ca_cached dca2 = ca_cached dca + 1 + n"
    using Suc.IH [of "ca'\<lparr>ca_cached := ca_cached dca + 1\<rparr>" "argmax (last lg)"] Suc.prems p(2) by auto
  then show ?case using p(1) by (simp add: feed_def)
qed simp

lemma propose_ok:
  assumes "drafting (ca_cached (ge_ca g)) (ge_dr g)" "go_kv_cap opt = cap"
  shows "\<exists>d dca. propose opt draft g = (d, dca, ge_run g) \<and> drafting (ca_cached (ge_ca g) + (if draft = None then 0 else length d)) dca \<and>
    length d \<le> go_spec_n opt \<and> (d = [] \<longrightarrow> dca = ge_dr g) \<and>
    (d \<noteq> [] \<longrightarrow> length (ge_seq g) + go_spec_n opt + 1 < go_tmax opt \<and> ca_cached (ge_ca g) + go_spec_n opt + 1 \<le> cap)"
proof (cases "0 < go_spec_n opt \<and> length (ge_seq g) + go_spec_n opt + 1 < go_tmax opt \<and> ca_cached (ge_ca g) + go_spec_n opt + 1 \<le> go_kv_cap opt")
  case True
  show ?thesis
  proof (cases draft)
    case None
    then show ?thesis using True assms(2) length_spec_draft unfolding drafting_def by (simp add: propose_def Let_def)
  next
    case (Some dfw)
    obtain d dca' where "draft_chain dfw (go_spec_n opt) (ge_seq g ! ca_cached (ge_ca g)) (ge_dr g) (ge_run g) = (d, dca', ge_run g)"
      "length d = go_spec_n opt" "dfit dca'" "ca_cached dca' = ca_cached (ge_ca g) + go_spec_n opt"
      using chain_ok [OF Some, of "ge_dr g" "go_spec_n opt" "ge_seq g ! ca_cached (ge_ca g)" "ge_run g"] True assms Some
      unfolding drafting_def by auto
    then show ?thesis using True Some assms(2) unfolding drafting_def by (auto simp: propose_def Let_def)
  qed
next
  case False
  then have "propose opt draft g = ([], ge_dr g, ge_run g)" by (auto simp: propose_def Let_def)
  then show ?thesis using assms(1) by (simp cong: if_cong)
qed

text \<open>Restoring and replaying the accepted prefix leaves a state that stands for it.\<close>

lemma replay_ok:
  assumes st: "good r" "fit ca" "ca_cached ca = base" and len: "length ids = nd + 1" "base + nd + 1 \<le> cap" "m \<le> nd"
    and p: "fw ids ca r = Some (lg, ca1, r1)"
  shows "\<exists>ca2 r2. replay fw ids base nd m ca ca1 r1 = Some (ca2, r2) \<and> good r2 \<and> drops r \<le> drops r1 \<and> drops r1 \<le> drops r2 \<and>
    fit ca2 \<and> ca_cached ca2 = base + m + 1 \<and>
    (drops r2 = drops r \<longrightarrow> (\<forall>xs. holds xs ca \<longrightarrow> holds (xs @ take (m + 1) ids) ca2 \<and>
       lg = map (\<lambda>i. lgt (xs @ take (Suc i) ids)) [0..<length ids]))"
proof -
  have q: "good r1" "drops r \<le> drops r1" "ca_cached ca1 = base" "fit (ca1\<lparr>ca_cached := base + (nd + 1)\<rparr>)" "fit (ca1\<lparr>ca_ks := ca_ks ca\<rparr>)"
    "drops r1 = drops r \<longrightarrow> (\<forall>xs. holds xs ca \<longrightarrow> holds (xs @ ids) (ca1\<lparr>ca_cached := length xs + length ids\<rparr>) \<and>
       holds xs (ca1\<lparr>ca_ks := ca_ks ca\<rparr>) \<and> lg = map (\<lambda>i. lgt (xs @ take (Suc i) ids)) [0..<length ids])"
    using pass [OF st(1,2), of ids] st(3) len(1,2) p by auto
  show ?thesis
  proof (cases "m = nd")
    case True
    have "holds (xs @ ids) (ca1\<lparr>ca_cached := base + nd + 1\<rparr>)" if "drops r1 = drops r" "holds xs ca" for xs
      using q(6) that holds_length [OF that(2)] st(3) len(1) by simp
    then show ?thesis using True q len(1) by (auto simp: replay_def)
  next
    case False
    let ?ca = "ca1\<lparr>ca_ks := ca_ks ca\<rparr>"
    have rb: "ca1\<lparr>ca_ks := ca_ks ca, ca_cached := base\<rparr> = ?ca" using q(3) by simp
    obtain lg2 ca2 r2 where f: "feed fw (take (m + 1) ids) (base + m + 1) ?ca r1 = Some (lg2, ca2, r2)" "good r2" "drops r1 \<le> drops r2"
      "fit ca2" "ca_cached ca2 = base + m + 1"
      "drops r2 = drops r1 \<longrightarrow> (\<forall>xs. holds xs ?ca \<longrightarrow> holds (xs @ take (m + 1) ids) ca2)"
      using feed_ok [OF q(1,5), of "base + m + 1" "take (m + 1) ids"] q(3) len by auto
    have "holds (xs @ take (m + 1) ids) ca2 \<and> lg = map (\<lambda>i. lgt (xs @ take (Suc i) ids)) [0..<length ids]"
      if "drops r2 = drops r" "holds xs ca" for xs
    proof -
      have "drops r2 = drops r1" "drops r1 = drops r" using f(3) q(2) that(1) by simp_all
      then show ?thesis using f(6) q(6) that(2) by blast
    qed
    then show ?thesis using False f q(2) rb by (auto simp: replay_def)
  qed
qed

lemma redraft_ok:
  assumes "drafting base dca" "drafting (base + (if draft = None then 0 else length d)) dca1" "d \<noteq> []" "length ids = length d + 1"
    and "base + length d + 1 \<le> cap" "m \<le> length d"
  shows "\<exists>dca2. redraft draft ids d base m dca dca1 r = Some (dca2, r) \<and> drafting (base + m + 1) dca2"
proof (cases draft)
  case None
  then show ?thesis unfolding drafting_def by (simp add: redraft_def resync_def)
next
  case (Some dfw)
  have d: "drafting base dca" "drafting (base + length d) dca1" using assms(1,2) Some unfolding drafting_def by simp_all
  show ?thesis
  proof (cases "m = length d")
    case True
    have "ca_cached dca1 = base + length d" using d(2) Some unfolding drafting_def by simp
    then show ?thesis using resync_ok [OF d(2), of "base + m + 1" "[last d]" r] True assms(5) by (simp add: redraft_def)
  next
    case False
    let ?dca = "dca1\<lparr>ca_ks := ca_ks dca, ca_cached := base\<rparr>"
    have "drafting base ?dca" using draft_back [of dca dca1 base] d assms(5) Some unfolding drafting_def by simp
    from resync_ok [OF this, of "base + m + 1" "take (m + 1) ids" r]
    show ?thesis using False Some assms(4-6) by (simp add: redraft_def)
  qed
qed

text \<open>One step of the loop, up to the push: what it emits, and what the state stands for afterwards.\<close>

definition pending :: "nat list \<Rightarrow> 'r Gen \<Rightarrow> bool" where
  "pending sq g \<longleftrightarrow> good (ge_run g) \<and> fit (ge_ca g) \<and> ca_cached (ge_ca g) + 1 = length sq \<and> drafting (ca_cached (ge_ca g)) (ge_dr g)"

definition advances :: "nat \<Rightarrow> 'r Gen \<Rightarrow> bool \<Rightarrow> nat list \<Rightarrow> 'r Gen \<Rightarrow> bool" where
  "advances k g exact emit g' \<longleftrightarrow> pending (ge_seq g @ emit) g' \<and> drops (ge_run g) \<le> drops (ge_run g') \<and> length emit \<le> k + 1 \<and>
     (drops (ge_run g') = drops (ge_run g) \<and> exact \<longrightarrow>
        holds (butlast (ge_seq g @ emit)) (ge_ca g') \<and> ge_seq g @ emit = greedy nx (length emit) (ge_seq g))"

lemma pending_split:
  assumes "pending (ge_seq g) g"
  obtains xs x where "ge_seq g = xs @ [x]" "ca_cached (ge_ca g) = length xs"
proof -
  have "ge_seq g \<noteq> []" "ca_cached (ge_ca g) = length (butlast (ge_seq g))" using assms unfolding pending_def by auto
  then show thesis using that [of "butlast (ge_seq g)" "last (ge_seq g)"] by simp
qed

lemma verify_ok:
  assumes pd: "pending (ge_seq g) g" and d: "d \<noteq> []" "ca_cached (ge_ca g) + length d + 1 \<le> cap"
    and dr: "drafting (ca_cached (ge_ca g) + (if draft = None then 0 else length d)) dca"
  shows "\<exists>emit g'. verify_drafts fw draft d dca (ge_run g) g = Some (emit, g') \<and>
    advances (length d) g (holds (butlast (ge_seq g)) (ge_ca g)) emit g'"
proof -
  obtain xs x where sq: "ge_seq g = xs @ [x]" "ca_cached (ge_ca g) = length xs" using pending_split [OF pd] .
  let ?ids = "x # d" and ?b = "length xs"
  have p0: "good (ge_run g)" "fit (ge_ca g)" "drafting ?b (ge_dr g)" using pd sq(2) unfolding pending_def by simp_all
  have room: "?b + length d + 1 \<le> cap" using d(2) sq(2) by simp
  obtain lg ca1 r1 where p: "fw ?ids (ge_ca g) (ge_run g) = Some (lg, ca1, r1)"
    using pass [OF p0(1,2), of ?ids] room sq(2) by auto
  define m where "m = accepted (map argmax lg) d"
  have m: "m \<le> length d" unfolding m_def accepted_def by (rule le_trans [OF length_takeWhile_le]) simp
  obtain ca2 r2 where r: "replay fw ?ids ?b (length d) m (ge_ca g) ca1 r1 = Some (ca2, r2)" "good r2" "drops (ge_run g) \<le> drops r2"
    "fit ca2" "ca_cached ca2 = ?b + m + 1"
    "drops r2 = drops (ge_run g) \<longrightarrow> (\<forall>xs. holds xs (ge_ca g) \<longrightarrow> holds (xs @ take (m + 1) ?ids) ca2 \<and>
       lg = map (\<lambda>i. lgt (xs @ take (Suc i) ?ids)) [0..<length ?ids])"
    using replay_ok [OF p0(1,2) sq(2) _ room m p] by auto
  have dr': "drafting (?b + (if draft = None then 0 else length d)) dca" using dr sq(2) by simp
  obtain dca2 where rd: "redraft draft ?ids d ?b m (ge_dr g) dca r2 = Some (dca2, r2)" "drafting (?b + m + 1) dca2"
    using redraft_ok [OF p0(3) dr' d(1) _ room m, of ?ids r2] by auto
  let ?emit = "take m d @ [map argmax lg ! m]" and ?g = "g\<lparr>ge_ca := ca2, ge_dr := dca2, ge_run := r2\<rparr>"
  have v: "verify_drafts fw draft d dca (ge_run g) g = Some (?emit, ?g)"
    using p r(1) rd(1) by (simp add: verify_drafts_def Let_def sq m_def)
  have ex: "holds (butlast (ge_seq g @ ?emit)) (ge_ca ?g) \<and> ge_seq g @ ?emit = greedy nx (length ?emit) (ge_seq g)"
    if "drops (ge_run ?g) = drops (ge_run g)" "holds (butlast (ge_seq g)) (ge_ca g)"
  proof -
    have h: "holds (xs @ take (m + 1) ?ids) ca2" "lg = map (\<lambda>i. lgt (xs @ take (Suc i) ?ids)) [0..<length ?ids]"
      using r(6) that sq(1) by simp_all
    have arg: "map argmax lg ! i = nx (ge_seq g @ take i d)" if "i \<le> length d" for i
      using that unfolding h(2) sq(1) by (simp add: nth_append del: upt_Suc)
    have "length d \<le> length (map argmax lg)" using h(2) by simp
    note acc = accepted_spec [OF this, folded m_def]
    have "nx (ge_seq g @ take i d) = d ! i" if "i < m" for i using acc(2) [OF that] arg [of i] that m by simp
    from greedy_accepts [OF m this] have "ge_seq g @ ?emit = greedy nx (length ?emit) (ge_seq g)" using arg [OF m] m by simp
    moreover have "holds (butlast (ge_seq g @ ?emit)) (ge_ca ?g)" using h(1) by (simp add: sq(1) butlast_append)
    ultimately show ?thesis by blast
  qed
  have "pending (ge_seq g @ ?emit) ?g" using r(2,4,5) rd(2) m sq unfolding pending_def by simp
  moreover have "drops (ge_run g) \<le> drops (ge_run ?g)" "length ?emit \<le> length d + 1" using r(3) by simp_all
  ultimately have "advances (length d) g (holds (butlast (ge_seq g)) (ge_ca g)) ?emit ?g"
    using ex unfolding advances_def by blast
  then show ?thesis using v by blast
qed

lemma plain_ok:
  assumes pd: "pending (ge_seq g) g" and room: "length (ge_seq g) \<le> cap"
  shows "\<exists>emit g'. plain_step fw draft (ge_dr g) (ge_run g) g = Some (emit, g') \<and>
    advances 0 g (holds (butlast (ge_seq g)) (ge_ca g)) emit g'"
proof -
  obtain xs x where sq: "ge_seq g = xs @ [x]" "ca_cached (ge_ca g) = length xs" using pending_split [OF pd] .
  have p0: "good (ge_run g)" "fit (ge_ca g)" "drafting (length xs) (ge_dr g)" using pd sq(2) unfolding pending_def by simp_all
  obtain lg ca r where f: "feed fw [x] (length xs + 1) (ge_ca g) (ge_run g) = Some (lg, ca, r)" "good r" "drops (ge_run g) \<le> drops r" "fit ca"
    "ca_cached ca = length xs + 1" "drops r = drops (ge_run g) \<longrightarrow> (\<forall>xs. holds xs (ge_ca g) \<longrightarrow> holds (xs @ [x]) ca \<and> lg = [lgt (xs @ [x])])"
    using feed_ok [OF p0(1,2), of "length xs + 1" "[x]"] room sq by auto
  obtain dca where "resync draft [x] (length xs + 1) (ge_dr g) r = Some (dca, r)" "drafting (length xs + 1) dca"
    using resync_ok [OF p0(3), of "length xs + 1" "[x]" r] room sq by auto
  then show ?thesis using f sq unfolding advances_def pending_def by (auto simp: plain_step_def Let_def butlast_append)
qed

text \<open>The first step consumes the whole prompt, or on a resumed run what the saved state had not consumed.\<close>

definition starting :: "GenOpt \<Rightarrow> 'r Gen \<Rightarrow> bool" where
  "starting opt g \<longleftrightarrow> good (ge_run g) \<and> fit (ge_ca g) \<and> ca_cached (ge_ca g) < length (ge_seq g) \<and> length (ge_seq g) \<le> cap \<and>
     drafting 0 (ge_dr g) \<and> (go_resumed opt \<or> ca_cached (ge_ca g) = 0)"

lemma first_ok:
  assumes st: "starting opt g"
  shows "\<exists>emit g'. first_step opt fw draft g = Some (emit, g') \<and>
    advances 0 g (holds (take (ca_cached (ge_ca g)) (ge_seq g)) (ge_ca g)) emit g'"
proof -
  let ?b = "ca_cached (ge_ca g)" and ?sq = "ge_seq g"
  have s: "good (ge_run g)" "fit (ge_ca g)" "?b < length ?sq" "length ?sq \<le> cap" "drafting 0 (ge_dr g)" "go_resumed opt \<or> ?b = 0"
    using st unfolding starting_def by simp_all
  obtain lg ca r where f: "feed fw (drop ?b ?sq) (length ?sq) (ge_ca g) (ge_run g) = Some (lg, ca, r)" "good r" "drops (ge_run g) \<le> drops r"
    "fit ca" "ca_cached ca = length ?sq" "drops r = drops (ge_run g) \<longrightarrow> (\<forall>xs. holds xs (ge_ca g) \<longrightarrow> holds (xs @ drop ?b ?sq) ca \<and>
       lg = map (\<lambda>i. lgt (xs @ take (Suc i) (drop ?b ?sq))) [0..<length (drop ?b ?sq)])"
    using feed_ok [OF s(1,2), of "length ?sq" "drop ?b ?sq"] s(3,4) by auto
  have "drop (if go_resumed opt then 0 else ?b) ?sq = ?sq" using s(6) by auto
  then obtain dca where "resync draft (drop (if go_resumed opt then 0 else ?b) ?sq) (length ?sq) (ge_dr g) r = Some (dca, r)" "drafting (length ?sq) dca"
    using resync_ok [OF s(5), of "length ?sq" ?sq r] s(4) by auto
  moreover have "holds ?sq ca \<and> argmax (last lg) = nx ?sq" if "drops r = drops (ge_run g)" "holds (take ?b ?sq) (ge_ca g)"
    using f(6) that s(3) by (auto simp: last_map last_upt)
  ultimately show ?thesis using f s(3) unfolding advances_def pending_def
    by (auto simp: first_step_def Let_def butlast_append)
qed

lemma step_ok:
  assumes pd: "pending (ge_seq g) g" and room: "length (ge_seq g) \<le> cap" and opt: "go_incremental opt" "go_kv_cap opt = cap"
  shows "\<exists>k emit g'. gen_step opt reset fw draft False g = Some (emit, g') \<and>
    advances k g (holds (butlast (ge_seq g)) (ge_ca g)) emit g' \<and> (k = 0 \<or> length (ge_seq g) + k + 1 < go_tmax opt)"
proof -
  let ?g = "g\<lparr>ge_run := reset (ge_run g)\<rparr>"
  have g: "good (ge_run ?g)" "drops (ge_run ?g) = drops (ge_run g)" using reset_good [of "ge_run g"] pd unfolding pending_def by auto
  have pd': "pending (ge_seq ?g) ?g" using pd g(1) unfolding pending_def by simp
  have adv: "advances k ?g e emit g' = advances k g e emit g'" for k e emit g' using g(2) unfolding advances_def by simp
  have dr: "drafting (ca_cached (ge_ca ?g)) (ge_dr ?g)" using pd unfolding pending_def by simp
  obtain d dca where p: "propose opt draft ?g = (d, dca, ge_run ?g)" "drafting (ca_cached (ge_ca ?g) + (if draft = None then 0 else length d)) dca"
    "length d \<le> go_spec_n opt" "d = [] \<longrightarrow> dca = ge_dr ?g"
    "d \<noteq> [] \<longrightarrow> length (ge_seq ?g) + go_spec_n opt + 1 < go_tmax opt \<and> ca_cached (ge_ca ?g) + go_spec_n opt + 1 \<le> cap"
    using propose_ok [OF dr opt(2)] by blast
  show ?thesis
  proof (cases "d = []")
    case True
    obtain emit g' where "plain_step fw draft (ge_dr ?g) (ge_run ?g) ?g = Some (emit, g')"
      "advances 0 ?g (holds (butlast (ge_seq ?g)) (ge_ca ?g)) emit g'" using plain_ok [OF pd'] room by auto
    then show ?thesis using True p(1,4) opt(1) by (intro exI [of _ 0]) (auto simp: gen_step_def adv)
  next
    case False
    obtain emit g' where "verify_drafts fw draft d dca (ge_run ?g) ?g = Some (emit, g')"
      "advances (length d) ?g (holds (butlast (ge_seq ?g)) (ge_ca ?g)) emit g'" using verify_ok [OF pd' False _ p(2)] p(3,5) False by auto
    moreover have "length (ge_seq g) + length d + 1 < go_tmax opt" using p(3,5) False by simp
    ultimately show ?thesis using False p(1) opt(1) by (intro exI [of _ "length d"]) (auto simp: gen_step_def adv)
  qed
qed

text \<open>
  The guard on drafting leaves room for every accepted draft, so that nothing emitted is ever cut off and the state
  never runs ahead of the sequence.
\<close>

lemma push_all:
  assumes "length emit \<le> k + 1" "k = 0 \<or> length (ge_seq g) + k + 1 < go_tmax opt" "length (ge_out g) < go_gen opt"
    and "go_tmax opt + length (ge_out g) = length (ge_seq g) + go_gen opt + 1"
  shows "push_out opt emit g = g\<lparr>ge_seq := ge_seq g @ emit, ge_out := ge_out g @ emit\<rparr>"
    and "length (ge_out g @ emit) \<le> go_gen opt" "length (ge_seq g @ emit) < go_tmax opt"
proof -
  have "length emit \<le> go_gen opt - length (ge_out g)" "length emit < go_tmax opt - length (ge_seq g)" using assms by auto
  then show "push_out opt emit g = g\<lparr>ge_seq := ge_seq g @ emit, ge_out := ge_out g @ emit\<rparr>" "length (ge_out g @ emit) \<le> go_gen opt"
    "length (ge_seq g @ emit) < go_tmax opt" using assms(3) by (simp_all add: push_out_def Let_def)
qed

definition sized :: "GenOpt \<Rightarrow> 'r Gen \<Rightarrow> bool" where
  "sized opt g \<longleftrightarrow> go_incremental opt \<and> go_kv_cap opt = cap \<and> go_tmax opt \<le> cap \<and> length (ge_out g) \<le> go_gen opt \<and>
     go_tmax opt + length (ge_out g) = length (ge_seq g) + go_gen opt + 1"

text \<open>What a finished run has: all that was asked for, a state one id behind its sequence, and the greedy continuation.\<close>

definition finishes :: "GenOpt \<Rightarrow> 'r Gen \<Rightarrow> bool \<Rightarrow> 'r Gen \<Rightarrow> bool" where
  "finishes opt g exact g' \<longleftrightarrow> pending (ge_seq g') g' \<and> length (ge_out g') = go_gen opt \<and> drops (ge_run g) \<le> drops (ge_run g') \<and>
     ge_seq g' = ge_seq g @ drop (length (ge_out g)) (ge_out g') \<and> take (length (ge_out g)) (ge_out g') = ge_out g \<and>
     (drops (ge_run g') = drops (ge_run g) \<and> exact \<longrightarrow>
        holds (butlast (ge_seq g')) (ge_ca g') \<and> ge_seq g' = greedy nx (go_gen opt - length (ge_out g)) (ge_seq g))"

lemma finishes_step:
  assumes step: "advances k g exact emit g1" and eq: "ge_seq g1 = ge_seq g" "ge_out g1 = ge_out g" and emit: "emit \<noteq> []"
    and fit: "length (ge_out g @ emit) \<le> go_gen opt"
    and g2: "ge_seq g2 = ge_seq g @ emit" "ge_out g2 = ge_out g @ emit" "ge_run g2 = ge_run g1" "ge_ca g2 = ge_ca g1"
    and rest: "finishes opt g2 (holds (butlast (ge_seq g2)) (ge_ca g2)) g'"
  shows "finishes opt g exact g'"
proof -
  let ?n = "length (ge_out g)"
  have r: "pending (ge_seq g') g'" "length (ge_out g') = go_gen opt" "drops (ge_run g1) \<le> drops (ge_run g')"
    "ge_seq g' = (ge_seq g @ emit) @ drop (?n + length emit) (ge_out g')" "take (?n + length emit) (ge_out g') = ge_out g @ emit"
    "drops (ge_run g') = drops (ge_run g1) \<and> holds (butlast (ge_seq g @ emit)) (ge_ca g1) \<longrightarrow> holds (butlast (ge_seq g')) (ge_ca g') \<and>
       ge_seq g' = greedy nx (go_gen opt - (?n + length emit)) (ge_seq g @ emit)"
    using rest unfolding finishes_def g2 length_append by blast+
  have a: "drops (ge_run g) \<le> drops (ge_run g1)" "drops (ge_run g1) = drops (ge_run g) \<and> exact \<longrightarrow>
      holds (butlast (ge_seq g @ emit)) (ge_ca g1) \<and> ge_seq g @ emit = greedy nx (length emit) (ge_seq g)"
    using step unfolding advances_def by blast+
  have out: "ge_out g' = (ge_out g @ emit) @ drop (?n + length emit) (ge_out g')"
    using append_take_drop_id [of "?n + length emit" "ge_out g'"] r(5) by simp
  then have pre: "take ?n (ge_out g') = ge_out g" "drop ?n (ge_out g') = emit @ drop (?n + length emit) (ge_out g')"
    by (metis append_assoc append_eq_conv_conj)+
  have "holds (butlast (ge_seq g')) (ge_ca g') \<and> ge_seq g' = greedy nx (go_gen opt - ?n) (ge_seq g)"
    if "drops (ge_run g') = drops (ge_run g)" exact
  proof -
    have same: "drops (ge_run g1) = drops (ge_run g)" using a(1) r(3) that(1) by simp
    then have h: "holds (butlast (ge_seq g @ emit)) (ge_ca g1)" "ge_seq g @ emit = greedy nx (length emit) (ge_seq g)" using a(2) that(2) by blast+
    have "go_gen opt - ?n = length emit + (go_gen opt - (?n + length emit))" using fit by simp
    then have "greedy nx (go_gen opt - ?n) (ge_seq g) = greedy nx (go_gen opt - (?n + length emit)) (ge_seq g @ emit)"
      by (simp only: greedy_add h(2) [symmetric])
    moreover have "drops (ge_run g') = drops (ge_run g1)" using same that(1) by simp
    ultimately show ?thesis using r(6) h(1) by metis
  qed
  then show ?thesis using r(1-4) a(1) pre unfolding finishes_def by auto
qed

lemma generate_step:
  assumes g: "sized opt g" "length (ge_out g) < go_gen opt"
    and step: "gen_step opt reset fw draft first g = Some (emit, g1)" "advances k g exact emit g1" "k = 0 \<or> length (ge_seq g) + k + 1 < go_tmax opt"
  shows "generate opt reset fw draft first g = generate opt reset fw draft False (g1\<lparr>ge_seq := ge_seq g @ emit, ge_out := ge_out g @ emit\<rparr>)"
    and "sized opt (g1\<lparr>ge_seq := ge_seq g @ emit, ge_out := ge_out g @ emit\<rparr>)"
    and "pending (ge_seq g @ emit) (g1\<lparr>ge_seq := ge_seq g @ emit, ge_out := ge_out g @ emit\<rparr>)"
proof -
  note keep = step_keeps [OF step(1)]
  have k: "length emit \<le> k + 1" "pending (ge_seq g @ emit) g1" using step(2) unfolding advances_def by simp_all
  have t: "go_tmax opt + length (ge_out g) = length (ge_seq g) + go_gen opt + 1" using g(1) unfolding sized_def by simp
  note pa = push_all [where g = g1, OF k(1), unfolded keep(2,3), OF step(3) g(2) t]
  show "generate opt reset fw draft first g = generate opt reset fw draft False (g1\<lparr>ge_seq := ge_seq g @ emit, ge_out := ge_out g @ emit\<rparr>)"
    using g(2) step(1) pa(1,3) by (subst generate.simps) (simp add: Let_def not_le)
  show "sized opt (g1\<lparr>ge_seq := ge_seq g @ emit, ge_out := ge_out g @ emit\<rparr>)"
    using g(1) pa(2) unfolding sized_def by simp
  show "pending (ge_seq g @ emit) (g1\<lparr>ge_seq := ge_seq g @ emit, ge_out := ge_out g @ emit\<rparr>)"
    using k(2) unfolding pending_def by simp
qed

lemma loop_ok:
  assumes "pending (ge_seq g) g" "sized opt g"
  shows "\<exists>g'. generate opt reset fw draft False g = Some g' \<and> finishes opt g (holds (butlast (ge_seq g)) (ge_ca g)) g'"
  using assms
proof (induction "go_gen opt - length (ge_out g)" arbitrary: g rule: less_induct)
  case less
  show ?case
  proof (cases "length (ge_out g) < go_gen opt")
    case True
    have s: "go_incremental opt" "go_kv_cap opt = cap" "length (ge_seq g) \<le> cap" using less.prems(2) True unfolding sized_def by auto
    obtain k emit g1 where st: "gen_step opt reset fw draft False g = Some (emit, g1)"
      "advances k g (holds (butlast (ge_seq g)) (ge_ca g)) emit g1" "k = 0 \<or> length (ge_seq g) + k + 1 < go_tmax opt"
      using step_ok [OF less.prems(1) s(3,1,2)] by blast
    let ?g2 = "g1\<lparr>ge_seq := ge_seq g @ emit, ge_out := ge_out g @ emit\<rparr>"
    note gs = generate_step [OF less.prems(2) True st] and keep = step_keeps [OF st(1)]
    have smaller: "go_gen opt - length (ge_out ?g2) < go_gen opt - length (ge_out g)" using True keep(1) by (cases emit) auto
    obtain g' where g': "generate opt reset fw draft False ?g2 = Some g'" "finishes opt ?g2 (holds (butlast (ge_seq ?g2)) (ge_ca ?g2)) g'"
      using less.hyps [OF smaller] gs(2,3) by auto
    have "length (ge_out g @ emit) \<le> go_gen opt" using gs(2) unfolding sized_def by simp
    from finishes_step [OF st(2) keep(3,2,1) this _ _ _ _ g'(2)] have "finishes opt g (holds (butlast (ge_seq g)) (ge_ca g)) g'" by simp
    then show ?thesis using g'(1) gs(1) by simp
  next
    case False
    then have "generate opt reset fw draft False g = Some g" by (simp add: generate.simps)
    then show ?thesis using less.prems False unfolding finishes_def sized_def by simp
  qed
qed

theorem generate_ok:
  assumes "starting opt g" "sized opt g" "0 < go_gen opt" "ge_out g = []"
  shows "\<exists>g'. generate opt reset fw draft True g = Some g' \<and>
    finishes opt g (holds (take (ca_cached (ge_ca g)) (ge_seq g)) (ge_ca g)) g'"
proof -
  let ?g = "g\<lparr>ge_run := reset (ge_run g)\<rparr>"
  have rg: "good (ge_run ?g)" "drops (ge_run ?g) = drops (ge_run g)" using reset_good [of "ge_run g"] assms(1) unfolding starting_def by auto
  have "starting opt ?g" using assms(1) rg unfolding starting_def by simp
  then obtain emit g1 where f: "first_step opt fw draft ?g = Some (emit, g1)"
    "advances 0 ?g (holds (take (ca_cached (ge_ca ?g)) (ge_seq ?g)) (ge_ca ?g)) emit g1" using first_ok by blast
  have "advances 0 ?g e emit g1 = advances 0 g e emit g1" for e using rg(2) unfolding advances_def by simp
  then have st: "gen_step opt reset fw draft True g = Some (emit, g1)" "advances 0 g (holds (take (ca_cached (ge_ca g)) (ge_seq g)) (ge_ca g)) emit g1"
    using f assms(2) unfolding sized_def by (simp_all add: gen_step_def)
  let ?g2 = "g1\<lparr>ge_seq := ge_seq g @ emit, ge_out := ge_out g @ emit\<rparr>"
  have out: "length (ge_out g) < go_gen opt" using assms(3,4) by simp
  note gs = generate_step [OF assms(2) out st] and keep = step_keeps [OF st(1)]
  obtain g' where g': "generate opt reset fw draft False ?g2 = Some g'" "finishes opt ?g2 (holds (butlast (ge_seq ?g2)) (ge_ca ?g2)) g'"
    using loop_ok [of ?g2 opt] gs(2,3) by auto
  have "length (ge_out g @ emit) \<le> go_gen opt" using gs(2) unfolding sized_def by simp
  from finishes_step [OF st(2) keep(3,2,1) this _ _ _ _ g'(2)] show ?thesis using g'(1) gs(1) by simp
qed

end

section \<open>The streamed passes meet the contract\<close>

definition model_ok ::
  "K3St \<Rightarrow> (int \<Rightarrow> bytes) \<Rightarrow> K3Cfg \<Rightarrow> (K3Cache, K3ExpertQ, Disk \<times> bool) Machine \<Rightarrow> (K3Cache, K3ExpertQ, Disk \<times> bool) Weights \<Rightarrow>
    K3Cache Run \<Rightarrow> bool" where
  "model_ok st fl cfg m w s \<longleftrightarrow> run_ok st fl cfg m s \<and> st_sane st \<and> experts_fit st cfg \<and>
     int (length (we_lay w)) \<le> cf_n_layers cfg \<and> \<not> we_draft_mode w"

definition draft_ok ::
  "K3Cfg \<Rightarrow> nat \<Rightarrow> (K3Cache, K3ExpertQ, Disk \<times> bool) Weights option \<Rightarrow> Carry \<Rightarrow> bool" where
  "draft_ok cfg cap dw ca \<longleftrightarrow> (case dw of None \<Rightarrow> True | Some w \<Rightarrow> we_draft_mode w \<and> we_kv_cap w = cap \<and> carry_fit cfg w ca)"

interpretation streamed: drafted "forward m nb junk cfg w (cache_src st np)" "model_ok st fl cfg m w" ru_drops reset_run "carry_fit cfg w"
  "consumed (ma_fpu m) (ma_avx m) cfg (checkpoint_expert st fl) w" "we_kv_cap w"
  "next_logits (ma_fpu m) (ma_avx m) cfg (checkpoint_expert st fl) w"
  "map_option (\<lambda>w. forward m nb junk cfg w (cache_src st np)) dw" "draft_ok cfg (we_kv_cap w) dw"
  for m nb junk cfg w st fl np dw
proof (unfold_locales, goal_cases)
  case (1 s ca ids)
  then show ?case using forward_streams [of st fl cfg m s w ca ids nb junk np] unfolding model_ok_def by auto
next
  case (2 xs ca)
  then show ?case by (simp add: consumed_def)
next
  case (3 s)
  have "n_layers (k3_cache_reset_stats c) = n_layers c" for c by (simp add: k3_cache_reset_stats_def)
  then show ?case using 3 by (simp add: model_ok_def run_ok_def reset_run_def reset_stats_ok)
next
  case (4 dfw ca ids s)
  then obtain d where d: "dw = Some d" "dfw = forward m nb junk cfg d (cache_src st np)" "we_draft_mode d" "we_kv_cap d = we_kv_cap w"
    "carry_fit cfg d ca" by (auto simp: draft_ok_def)
  have "src_resident (cache_src st np) = Some (\<lambda>l e c. cache_resident l e c)" by (simp add: cache_src_def)
  from forward_drafts [OF this d(3,5), of ids m nb junk s] show ?case using d 4(3) by (auto simp: draft_ok_def)
next
  case (5 a b n)
  then show ?case using stack_ok_mix [of cfg "we_kv_cap w" 0] by (fastforce simp: draft_ok_def carry_fit_def split: option.splits)
qed

text \<open>The hypotheses of a run, and the greedy choice it is held against.\<close>

definition greedy_next ::
  "K3St \<Rightarrow> (int \<Rightarrow> bytes) \<Rightarrow> K3Cfg \<Rightarrow> ('c, 'q, 'd) Machine \<Rightarrow> ('c, 'q, 'd) Weights \<Rightarrow> nat list \<Rightarrow> nat" where
  "greedy_next st fl cfg m w xs = argmax (next_logits (ma_fpu m) (ma_avx m) cfg (checkpoint_expert st fl) w xs)"

definition gen_ready ::
  "GenOpt \<Rightarrow> K3Cfg \<Rightarrow> (K3Cache, K3ExpertQ, Disk \<times> bool) Weights \<Rightarrow> (K3Cache, K3ExpertQ, Disk \<times> bool) Weights option \<Rightarrow>
    K3Cache Run Gen \<Rightarrow> bool" where
  "gen_ready opt cfg w dw g \<longleftrightarrow> go_incremental opt \<and> 0 < go_gen opt \<and> ge_out g = [] \<and>
     go_tmax opt = length (ge_seq g) + go_gen opt + 1 \<and> go_kv_cap opt = we_kv_cap w \<and> we_kv_cap w = go_tmax opt \<and>
     ca_cached (ge_ca g) < length (ge_seq g) \<and> (go_resumed opt \<or> ca_cached (ge_ca g) = 0) \<and>
     (dw \<noteq> None \<longrightarrow> draft_ok cfg (we_kv_cap w) dw (ge_dr g) \<and> ca_cached (ge_dr g) = 0)"

lemma generate_greedy:
  assumes "model_ok st fl cfg m w (ge_run g)" "gen_ready opt cfg w dw g"
    and "consumed (ma_fpu m) (ma_avx m) cfg (checkpoint_expert st fl) w (take (ca_cached (ge_ca g)) (ge_seq g)) (ge_ca g)"
  shows "\<exists>g'. generate_run m nb junk cfg w dw (cache_src st np) opt g = Some g' \<and> length (ge_out g') = go_gen opt \<and>
    ge_seq g' = ge_seq g @ ge_out g' \<and> ca_cached (ge_ca g') + 1 = length (ge_seq g') \<and>
    model_ok st fl cfg m w (ge_run g') \<and> ru_drops (ge_run g) \<le> ru_drops (ge_run g') \<and>
    (ru_drops (ge_run g') = ru_drops (ge_run g) \<longrightarrow> ge_seq g' = greedy (greedy_next st fl cfg m w) (go_gen opt) (ge_seq g) \<and>
       consumed (ma_fpu m) (ma_avx m) cfg (checkpoint_expert st fl) w (butlast (ge_seq g')) (ge_ca g'))"
proof -
  have "carry_fit cfg w (ge_ca g)" using assms(3) by (simp add: consumed_def)
  then have "streamed.starting st fl cfg m w nb junk np dw opt g" "streamed.sized w opt g"
    using assms(1,2) unfolding streamed.starting_def streamed.drafting_def streamed.sized_def gen_ready_def by auto
  from streamed.generate_ok [OF this] assms(2)
  obtain g' where g': "generate_run m nb junk cfg w dw (cache_src st np) opt g = Some g'"
    "streamed.finishes st fl cfg m w nb junk np dw opt g
      (consumed (ma_fpu m) (ma_avx m) cfg (checkpoint_expert st fl) w (take (ca_cached (ge_ca g)) (ge_seq g)) (ge_ca g)) g'"
    unfolding generate_run_def gen_ready_def by auto
  show ?thesis using g' assms(2,3) unfolding streamed.finishes_def streamed.pending_def gen_ready_def greedy_next_def by auto
qed

section \<open>Full recompute\<close>

lemma length_recompute:
  assumes "layers_attend c 0 (we_lay w)"
  shows "length (recompute F avx c weights w xs) = length xs"
proof -
  let ?n = "length (we_lay w)" and ?rows = "replicate (length xs) []"
  have ok: "stack_ok c (length xs) 0 (we_lay w) (replicate ?n (kda_zero c)) (replicate ?n (Some (?rows, ?rows)))"
    by (rule zero_ok [OF assms]) simp_all
  obtain t sts kvs where "layers_ref F avx c weights (length xs) 0 (we_lay w) (embed_tokens c w xs) (replicate ?n (kda_zero c))
      (replicate ?n (Some (?rows, ?rows))) 0 = Some (t, sts, kvs)" "length t = length xs"
    using layers_returns [OF ok, of 0 "embed_tokens c w xs" F avx weights] by auto
  then show ?thesis using recompute_cached [OF ok] by simp
qed

definition full_ready :: "GenOpt \<Rightarrow> K3Cfg \<Rightarrow> ('c, 'q, 'd) Weights \<Rightarrow> 'r Gen \<Rightarrow> bool" where
  "full_ready opt cfg w g \<longleftrightarrow> \<not> go_incremental opt \<and> ca_kv (ge_ca g) = None \<and> layers_attend cfg 0 (we_lay w) \<and> ge_seq g \<noteq> [] \<and>
     length (ge_out g) \<le> go_gen opt \<and> go_tmax opt + length (ge_out g) = length (ge_seq g) + go_gen opt + 1"

lemma full_step_ok:
  assumes "model_ok st fl cfg m w (ge_run g)" "full_ready opt cfg w g" "length (ge_out g) < go_gen opt"
  shows "\<exists>x g'. generate opt reset_run (forward m nb junk cfg w (cache_src st np)) draft first g =
      generate opt reset_run (forward m nb junk cfg w (cache_src st np)) draft False g' \<and>
    ge_seq g' = ge_seq g @ [x] \<and> ge_out g' = ge_out g @ [x] \<and> model_ok st fl cfg m w (ge_run g') \<and> full_ready opt cfg w g' \<and>
    ru_drops (ge_run g) \<le> ru_drops (ge_run g') \<and>
    (ru_drops (ge_run g') = ru_drops (ge_run g) \<longrightarrow> x = greedy_next st fl cfg m w (ge_seq g))"
proof -
  let ?s = "reset_run (ge_run g)" and ?F = "ma_fpu m" and ?W = "checkpoint_expert st fl"
  have ok: "model_ok st fl cfg m w ?s" "ru_drops ?s = ru_drops (ge_run g)"
    using streamed.reset_good [OF assms(1)] by simp_all
  have g: "ca_kv (ge_ca g) = None" "layers_attend cfg 0 (we_lay w)" "ge_seq g \<noteq> []" "\<not> go_incremental opt"
    "go_tmax opt + length (ge_out g) = length (ge_seq g) + go_gen opt + 1" using assms(2) by (simp_all add: full_ready_def)
  obtain lg ca s' where f: "forward m nb junk cfg w (cache_src st np) (ge_seq g) (ge_ca g) ?s = Some (lg, ca, s')" "run_ok st fl cfg m s'"
    "ru_drops ?s \<le> ru_drops s'" "ca_kv ca = None" "ru_drops s' = ru_drops ?s \<longrightarrow> lg = map (logits ?F (ma_avx m) cfg w) (recompute ?F (ma_avx m) cfg ?W w (ge_seq g))"
    using forward_recomputes [of st fl cfg m ?s w "ge_ca g" nb junk np "ge_seq g"] ok(1) g(1,2) unfolding model_ok_def by auto
  let ?x = "argmax (last lg)" and ?g1 = "g\<lparr>ge_run := s', ge_ca := ca\<rparr>"
  have step: "gen_step opt reset_run (forward m nb junk cfg w (cache_src st np)) draft first g = Some ([?x], ?g1)"
    using f(1) g(4) by (simp add: gen_step_def full_step_def)
  have k: "0 < min (go_gen opt - length (ge_out g)) (go_tmax opt - length (ge_seq g))" "length (ge_seq g) + 1 < go_tmax opt"
    using assms(3) g(5) by auto
  let ?g2 = "?g1\<lparr>ge_seq := ge_seq g @ [?x], ge_out := ge_out g @ [?x]\<rparr>"
  have push: "push_out opt [?x] ?g1 = ?g2"
    using k(1) by (simp add: push_out_def Let_def take_Cons')
  have "generate opt reset_run (forward m nb junk cfg w (cache_src st np)) draft first g =
      generate opt reset_run (forward m nb junk cfg w (cache_src st np)) draft False ?g2"
    using assms(3) step push k(2) by (subst generate.simps) (simp add: Let_def)
  moreover have "full_ready opt cfg w ?g2" using assms(3) g f(4) by (simp add: full_ready_def)
  moreover have "model_ok st fl cfg m w s'" using ok(1) f(2) by (simp add: model_ok_def)
  moreover have "?x = greedy_next st fl cfg m w (ge_seq g)" if "ru_drops s' = ru_drops (ge_run g)"
  proof -
    have "recompute ?F (ma_avx m) cfg ?W w (ge_seq g) \<noteq> []" using length_recompute [OF g(2), of ?F "ma_avx m" ?W "ge_seq g"] g(3) by auto
    then show ?thesis using f(5) that ok(2) by (simp add: greedy_next_def next_logits_def last_map)
  qed
  ultimately show ?thesis using f(3) ok(2) by (intro exI [of _ ?x] exI [of _ ?g2]) auto
qed

lemma generate_full:
  assumes "model_ok st fl cfg m w (ge_run g)" "full_ready opt cfg w g"
  shows "\<exists>g'. generate opt reset_run (forward m nb junk cfg w (cache_src st np)) draft first g = Some g' \<and>
    length (ge_out g') = go_gen opt \<and> ru_drops (ge_run g) \<le> ru_drops (ge_run g') \<and>
    ge_seq g' = ge_seq g @ drop (length (ge_out g)) (ge_out g') \<and> take (length (ge_out g)) (ge_out g') = ge_out g \<and>
    (ru_drops (ge_run g') = ru_drops (ge_run g) \<longrightarrow>
       ge_seq g' = greedy (greedy_next st fl cfg m w) (go_gen opt - length (ge_out g)) (ge_seq g))"
  using assms
proof (induction "go_gen opt - length (ge_out g)" arbitrary: g first)
  case 0
  then have "\<not> length (ge_out g) < go_gen opt" "length (ge_out g) = go_gen opt" by (simp_all add: full_ready_def)
  then show ?case by (subst generate.simps) simp
next
  case (Suc n)
  then have lt: "length (ge_out g) < go_gen opt" by simp
  let ?gen = "generate opt reset_run (forward m nb junk cfg w (cache_src st np)) draft"
  obtain x g1 where s: "?gen first g = ?gen False g1" "ge_seq g1 = ge_seq g @ [x]" "ge_out g1 = ge_out g @ [x]"
    "model_ok st fl cfg m w (ge_run g1)" "full_ready opt cfg w g1" "ru_drops (ge_run g) \<le> ru_drops (ge_run g1)"
    "ru_drops (ge_run g1) = ru_drops (ge_run g) \<longrightarrow> x = greedy_next st fl cfg m w (ge_seq g)"
    using full_step_ok [OF Suc.prems lt] by blast
  have n: "n = go_gen opt - length (ge_out g1)" using Suc.hyps(2) s(3) by simp
  obtain g' where g': "?gen False g1 = Some g'" "length (ge_out g') = go_gen opt" "ru_drops (ge_run g1) \<le> ru_drops (ge_run g')"
    "ge_seq g' = ge_seq g1 @ drop (length (ge_out g1)) (ge_out g')" "take (length (ge_out g1)) (ge_out g') = ge_out g1"
    "ru_drops (ge_run g') = ru_drops (ge_run g1) \<longrightarrow> ge_seq g' = greedy (greedy_next st fl cfg m w) n (ge_seq g1)"
    using Suc.hyps(1) [OF n s(4,5)] n by blast
  have out: "ge_out g' = ge_out g @ [x] @ drop (length (ge_out g1)) (ge_out g')"
    using append_take_drop_id [of "length (ge_out g1)" "ge_out g'"] unfolding g'(5) unfolding s(3) by simp
  then have "take (length (ge_out g)) (ge_out g') = ge_out g" "drop (length (ge_out g)) (ge_out g') = [x] @ drop (length (ge_out g1)) (ge_out g')"
    by (metis append_eq_conv_conj)+
  moreover have "ge_seq g' = greedy (greedy_next st fl cfg m w) (Suc n) (ge_seq g)" if "ru_drops (ge_run g') = ru_drops (ge_run g)"
    using g'(3,6) s(2,6,7) that by (metis greedy.simps(2) order_antisym)
  ultimately show ?case using g'(1-4) s(1,2,6) Suc.hyps(2) by auto
qed

end
