(* ===== verification/K3_State.thy ===== *)
theory K3_State
  imports K3_Carry
begin

unbundle bit_operations_syntax

text \<open>
  The conversation state of \<open>k3_run.c\<close> on disk: header, ids, recurrent states and the occupied rows of the cache.
  Every field is a multiple of four bytes wide, so a file is read as 32-bit words, low byte first.
\<close>

section \<open>Words and headers\<close>

definition put_i64 :: "int \<Rightarrow> 32 word list" where
  "put_i64 v = [word_of_int v, word_of_int (v div 2 ^ 32)]"

definition get_i64 :: "32 word \<Rightarrow> 32 word \<Rightarrow> int" where
  "get_i64 lo hi = sint hi * 2 ^ 32 + uint lo"

record K3StateHdr =
  sh_magic :: "32 word"
  sh_version :: int
  sh_fp :: "int list"
  sh_n_bound :: int
  sh_n_mla :: int
  sh_cached :: int
  sh_nseq :: int
  sh_kper :: int
  sh_kvpp :: int
  sh_ropepp :: int

text \<open>\<open>K3ST\<close>.\<close>

definition K3_STATE_MAGIC :: "32 word" where
  "K3_STATE_MAGIC = 0x5453334B"

definition K3_STATE_VER :: int where
  "K3_STATE_VER = 1"

definition k3_state_fp :: "K3Cfg \<Rightarrow> int list" where
  "k3_state_fp c = [cf_hidden c, cf_n_layers c, cf_vocab c, cf_kda_heads c, cf_kda_head_dim c, cf_conv_k c,
     cf_n_heads c, cf_qk_nope c, cf_qk_rope c, cf_v_head c, cf_n_experts c, cf_topk c]"

definition hdr_words :: "K3StateHdr \<Rightarrow> 32 word list" where
  "hdr_words h = [sh_magic h, word_of_int (sh_version h)] @ map word_of_int (sh_fp h) @
     map word_of_int [sh_n_bound h, sh_n_mla h, sh_cached h, sh_nseq h] @
     put_i64 (sh_kper h) @ put_i64 (sh_kvpp h) @ put_i64 (sh_ropepp h)"

definition hdr_of :: "32 word list \<Rightarrow> K3StateHdr" where
  "hdr_of w = \<lparr>sh_magic = w ! 0, sh_version = sint (w ! 1), sh_fp = map (\<lambda>i. sint (w ! (2 + i))) [0..<12],
     sh_n_bound = sint (w ! 14), sh_n_mla = sint (w ! 15), sh_cached = sint (w ! 16), sh_nseq = sint (w ! 17),
     sh_kper = get_i64 (w ! 18) (w ! 19), sh_kvpp = get_i64 (w ! 20) (w ! 21), sh_ropepp = get_i64 (w ! 22) (w ! 23)\<rparr>"

section \<open>Reading and writing\<close>

datatype state_err = SE_OPEN | SE_NOT_STATE | SE_VERSION int | SE_ARCH | SE_LAYERS | SE_POSITIONS | SE_TRUNCATED

definition k3_state_peek :: "bytes option \<Rightarrow> state_err + K3StateHdr" where
  "k3_state_peek f =
     (case f of
        None \<Rightarrow> Inl SE_OPEN
      | Some b \<Rightarrow>
          let h = hdr_of (as_f32 b)
          in if length b < 96 \<or> sh_magic h \<noteq> K3_STATE_MAGIC then Inl SE_NOT_STATE
             else if sh_version h \<noteq> K3_STATE_VER then Inl (SE_VERSION (sh_version h)) else Inr h)"

text \<open>An \<open>fread\<close> of so many items: a count is converted to \<open>size_t\<close>, a short read is an error.\<close>

definition items :: "int \<Rightarrow> nat" where
  "items n = nat (n mod 2 ^ 64)"

definition fread_words :: "nat \<Rightarrow> 32 word list \<Rightarrow> (32 word list \<times> 32 word list) option" where
  "fread_words n ws = (if n \<le> length ws then Some (take n ws, drop n ws) else None)"

fun fread_slices :: "nat \<Rightarrow> nat \<Rightarrow> 32 word list \<Rightarrow> (32 word list list \<times> 32 word list) option" where
  "fread_slices 0 n ws = Some ([], ws)"
| "fread_slices (Suc k) n ws =
     (case fread_words n ws of
        None \<Rightarrow> None
      | Some (s, ws1) \<Rightarrow> map_option (\<lambda>(ss, ws2). (s # ss, ws2)) (fread_slices k n ws1))"

record StateBody =
  sb_seq :: "nat list"
  sb_ks :: "f32 list"
  sb_kv :: "f32 list list"
  sb_rope :: "f32 list list"

definition read_body :: "K3StateHdr \<Rightarrow> int \<Rightarrow> int \<Rightarrow> 32 word list \<Rightarrow> StateBody option" where
  "read_body h n_bound n_mla ws =
     (case fread_words (items (sh_nseq h)) ws of
        None \<Rightarrow> None
      | Some (sq, ws1) \<Rightarrow>
          (case fread_words (items (sh_kper h * n_bound)) ws1 of
             None \<Rightarrow> None
           | Some (ks, ws2) \<Rightarrow>
               (case fread_slices (nat n_mla) (items (sh_cached h * sh_kvpp h)) ws2 of
                  None \<Rightarrow> None
                | Some (kv, ws3) \<Rightarrow>
                    map_option (\<lambda>(rp, _). \<lparr>sb_seq = map unat sq, sb_ks = ks, sb_kv = kv, sb_rope = rp\<rparr>)
                      (fread_slices (nat n_mla) (items (sh_cached h * sh_ropepp h)) ws3))))"

definition k3_state_load :: "bytes option \<Rightarrow> K3Cfg \<Rightarrow> K3StateHdr \<Rightarrow> int \<Rightarrow> int \<Rightarrow> int \<Rightarrow> state_err + StateBody" where
  "k3_state_load f c h n_bound n_mla kv_cap =
     (if k3_state_fp c \<noteq> sh_fp h then Inl SE_ARCH
      else if sh_n_bound h \<noteq> n_bound \<or> sh_n_mla h \<noteq> n_mla then Inl SE_LAYERS
      else if sh_cached h > kv_cap then Inl SE_POSITIONS
      else case f of
             None \<Rightarrow> Inl SE_OPEN
           | Some b \<Rightarrow> (case read_body h n_bound n_mla (drop 24 (as_f32 b)) of None \<Rightarrow> Inl SE_TRUNCATED | Some s \<Rightarrow> Inr s))"

text \<open>
  Writing: \<open>room\<close> is how many bytes the disk takes, nothing when the file cannot be opened. The result is the return
  code and what is on disk afterwards.
\<close>

definition k3_state_save ::
  "nat option \<Rightarrow> K3Cfg \<Rightarrow> StateBody \<Rightarrow> int \<Rightarrow> int \<Rightarrow> int \<Rightarrow> int \<Rightarrow> int \<Rightarrow> int \<Rightarrow> int \<times> bytes option" where
  "k3_state_save room c s n_bound n_mla cached kper kvpp ropepp =
     (let h = \<lparr>sh_magic = K3_STATE_MAGIC, sh_version = K3_STATE_VER, sh_fp = k3_state_fp c, sh_n_bound = n_bound,
                sh_n_mla = n_mla, sh_cached = cached, sh_nseq = int (length (sb_seq s)), sh_kper = kper, sh_kvpp = kvpp,
                sh_ropepp = ropepp\<rparr>;
          out = put_words (hdr_words h @ map of_nat (sb_seq s) @ take (items (kper * n_bound)) (sb_ks s) @
                  concat (map (take (items (cached * kvpp))) (take (nat n_mla) (sb_kv s))) @
                  concat (map (take (items (cached * ropepp))) (take (nat n_mla) (sb_rope s))))
      in case room of
           None \<Rightarrow> (-1, None)
         | Some n \<Rightarrow> if length out \<le> n then (0, Some out) else (-1, Some (take n out)))"

section \<open>The state in memory\<close>

text \<open>A layer's recurrent state is one block: the matrices, then the three convolution histories.\<close>

definition kda_words :: "K3Cfg \<Rightarrow> nat" where
  "kda_words c = (let P = nat (cf_kda_heads c) * nat (cf_kda_head_dim c) in P * nat (cf_kda_head_dim c) + 3 * (P * (nat (cf_conv_k c) - 1)))"

definition flat_kda :: "KdaState \<Rightarrow> f32 list" where
  "flat_kda st = kd_S st @ kd_q st @ kd_k st @ kd_v st"

definition unflat_kda :: "K3Cfg \<Rightarrow> f32 list \<Rightarrow> KdaState" where
  "unflat_kda c xs =
     (let P = nat (cf_kda_heads c) * nat (cf_kda_head_dim c); s = P * nat (cf_kda_head_dim c); n = P * (nat (cf_conv_k c) - 1)
      in \<lparr>kd_S = take s xs, kd_q = seg xs s n, kd_k = seg xs (s + n) n, kd_v = seg xs (s + 2 * n) n\<rparr>)"

text \<open>\<open>mla_slot\<close>: the slices of the cache belong to the MLA layers in their order.\<close>

definition mla_layers :: "K3Cfg \<Rightarrow> nat \<Rightarrow> nat list" where
  "mla_layers c n = filter (\<lambda>L. k3_is_mla c (int L)) [0..<n]"

definition mla_slot :: "K3Cfg \<Rightarrow> nat \<Rightarrow> nat" where
  "mla_slot c L = length (mla_layers c L)"

definition body_of :: "K3Cfg \<Rightarrow> nat list \<Rightarrow> Carry \<Rightarrow> StateBody" where
  "body_of c sq ca =
     (let kv = the (ca_kv ca); ls = mla_layers c (length (ca_ks ca))
      in \<lparr>sb_seq = sq, sb_ks = concat (map flat_kda (ca_ks ca)),
          sb_kv = map (\<lambda>L. concat (fst (kv ! L))) ls, sb_rope = map (\<lambda>L. concat (snd (kv ! L))) ls\<rparr>)"

definition save_run :: "nat option \<Rightarrow> K3Cfg \<Rightarrow> nat list \<Rightarrow> Carry \<Rightarrow> int \<times> bytes option" where
  "save_run room c sq ca =
     k3_state_save room c (body_of c sq ca) (int (length (ca_ks ca))) (int (length (mla_layers c (length (ca_ks ca)))))
       (int (ca_cached ca)) (int (kda_words c)) (cf_n_heads c * (cf_qk_nope c + cf_v_head c)) (cf_qk_rope c)"

text \<open>A slice is written over the front of a cleared cache.\<close>

definition restore :: "K3Cfg \<Rightarrow> ('c, 'q, 'd) Weights \<Rightarrow> K3StateHdr \<Rightarrow> StateBody \<Rightarrow> Carry" where
  "restore c w h s =
     (let n = length (we_lay w); cached = nat (sh_cached h); fresh = fresh_carry c w;
          put = (\<lambda>wd flat old. write_rows 0 (rows cached wd flat) old)
      in \<lparr>ca_ks = map (unflat_kda c) (rows n (kda_words c) (sb_ks s)),
          ca_kv = Some (map (\<lambda>L. let (k, r) = the (ca_kv fresh) ! L
                                 in if k3_is_mla c (int L)
                                    then (put (kv_width c) (sb_kv s ! mla_slot c L) k,
                                          put (nat (cf_qk_rope c)) (sb_rope s ! mla_slot c L) r)
                                    else (k, r)) [0..<n]),
          ca_cached = cached\<rparr>)"

definition load_run :: "bytes option \<Rightarrow> K3Cfg \<Rightarrow> ('c, 'q, 'd) Weights \<Rightarrow> state_err + (nat list \<times> Carry)" where
  "load_run f c w =
     (case k3_state_peek f of
        Inl e \<Rightarrow> Inl e
      | Inr h \<Rightarrow>
          (case k3_state_load f c h (int (length (we_lay w))) (int (length (mla_layers c (length (we_lay w))))) (int (we_kv_cap w)) of
             Inl e \<Rightarrow> Inl e
           | Inr s \<Rightarrow> Inr (sb_seq s, restore c w h s)))"

section \<open>Fields round trip\<close>

text \<open>Values of the C types they are stored as.\<close>

definition in32 :: "int \<Rightarrow> bool" where
  "in32 v \<longleftrightarrow> - (2 ^ 31) \<le> v \<and> v < 2 ^ 31"

definition in63 :: "int \<Rightarrow> bool" where
  "in63 v \<longleftrightarrow> 0 \<le> v \<and> v < 2 ^ 63"

lemma sint_in32: "in32 v \<Longrightarrow> sint (word_of_int v :: 32 word) = v"
  by (simp add: in32_def sint_sbintrunc' signed_take_bit_int_eq_self)

lemma i64_round: "in63 v \<Longrightarrow> get_i64 (word_of_int v) (word_of_int (v div 2 ^ 32)) = v"
proof -
  assume v: "in63 v"
  then have "v div 2 ^ 32 < 2 ^ 31" "0 \<le> v div 2 ^ 32" by (auto simp: in63_def)
  then have "sint (word_of_int (v div 2 ^ 32) :: 32 word) = v div 2 ^ 32" by (intro sint_in32) (simp add: in32_def)
  moreover have "uint (word_of_int v :: 32 word) = v mod 2 ^ 32" by (simp add: uint_word_of_int take_bit_eq_mod)
  ultimately show ?thesis by (simp add: get_i64_def)
qed

definition hdr_in :: "K3StateHdr \<Rightarrow> bool" where
  "hdr_in h \<longleftrightarrow> in32 (sh_version h) \<and> length (sh_fp h) = 12 \<and> (\<forall>v\<in>set (sh_fp h). in32 v) \<and> in32 (sh_n_bound h) \<and> in32 (sh_n_mla h) \<and>
     in32 (sh_cached h) \<and> in32 (sh_nseq h) \<and> in63 (sh_kper h) \<and> in63 (sh_kvpp h) \<and> in63 (sh_ropepp h)"

lemma length_hdr_words: "length (sh_fp h) = 12 \<Longrightarrow> length (hdr_words h) = 24"
  by (simp add: hdr_words_def put_i64_def)

lemma hdr_round:
  assumes "hdr_in h"
  shows "hdr_of (hdr_words h @ rest) = h"
proof -
  have len: "length (sh_fp h) = 12" using assms by (simp add: hdr_in_def)
  let ?w = "hdr_words h @ rest"
  have fp: "?w ! (2 + i) = word_of_int (sh_fp h ! i)" if "i < 12" for i
    using that len by (simp add: hdr_words_def nth_append)
  have "?w ! (14 + i) = ((map word_of_int [sh_n_bound h, sh_n_mla h, sh_cached h, sh_nseq h] @
      put_i64 (sh_kper h) @ put_i64 (sh_kvpp h) @ put_i64 (sh_ropepp h)) @ rest) ! i" for i
    using len by (simp add: hdr_words_def nth_append put_i64_def)
  from this [of 0] this [of 1] this [of 2] this [of 3] this [of 4] this [of 5] this [of 6] this [of 7] this [of 8] this [of 9]
  have "?w ! 14 = word_of_int (sh_n_bound h)" "?w ! 15 = word_of_int (sh_n_mla h)" "?w ! 16 = word_of_int (sh_cached h)"
    "?w ! 17 = word_of_int (sh_nseq h)" "?w ! 18 = word_of_int (sh_kper h)" "?w ! 19 = word_of_int (sh_kper h div 2 ^ 32)"
    "?w ! 20 = word_of_int (sh_kvpp h)" "?w ! 21 = word_of_int (sh_kvpp h div 2 ^ 32)"
    "?w ! 22 = word_of_int (sh_ropepp h)" "?w ! 23 = word_of_int (sh_ropepp h div 2 ^ 32)" by (simp_all add: put_i64_def)
  moreover have "?w ! 0 = sh_magic h" "?w ! 1 = word_of_int (sh_version h)" by (simp_all add: hdr_words_def)
  moreover have "map (\<lambda>i. sint (?w ! (2 + i))) [0..<12] = sh_fp h"
    using fp assms len by (intro nth_equalityI) (auto simp: hdr_in_def sint_in32)
  ultimately show ?thesis using assms unfolding hdr_of_def hdr_in_def
    by (intro K3StateHdr.equality) (simp_all only: K3StateHdr.simps sint_in32 i64_round, simp)
qed

lemma fread_words_append: "n = length a \<Longrightarrow> fread_words n (a @ b) = Some (a, b)"
  by (simp add: fread_words_def)

lemma fread_slices_append:
  "\<forall>s\<in>set ss. length s = n \<Longrightarrow> fread_slices (length ss) n (concat ss @ b) = Some (ss, b)"
  by (induction ss) (simp_all add: fread_words_append)

lemma items_nat: "0 \<le> v \<Longrightarrow> v < 2 ^ 64 \<Longrightarrow> items v = nat v"
  by (simp add: items_def)

text \<open>What a save that succeeds wrote, a load finds.\<close>

lemma save_load:
  assumes h: "hdr_in h" "h = \<lparr>sh_magic = K3_STATE_MAGIC, sh_version = K3_STATE_VER, sh_fp = k3_state_fp c, sh_n_bound = n_bound,
      sh_n_mla = n_mla, sh_cached = cached, sh_nseq = int (length (sb_seq s)), sh_kper = kper, sh_kvpp = kvpp, sh_ropepp = ropepp\<rparr>"
    and ids: "\<forall>i\<in>set (sb_seq s). i < 2 ^ 31"
    and len: "length (sb_ks s) = items (kper * n_bound)" "length (sb_kv s) = nat n_mla" "length (sb_rope s) = nat n_mla"
      "\<forall>x\<in>set (sb_kv s). items (cached * kvpp) \<le> length x" "\<forall>x\<in>set (sb_rope s). items (cached * ropepp) \<le> length x"
    and saved: "k3_state_save room c s n_bound n_mla cached kper kvpp ropepp = (0, f)"
  shows "k3_state_peek f = Inr h" and "cached \<le> kv_cap \<Longrightarrow> k3_state_load f c h n_bound n_mla kv_cap =
      Inr (s\<lparr>sb_kv := map (take (items (cached * kvpp))) (sb_kv s), sb_rope := map (take (items (cached * ropepp))) (sb_rope s)\<rparr>)"
proof -
  let ?ws = "hdr_words h @ map of_nat (sb_seq s) @ sb_ks s @ concat (map (take (items (cached * kvpp))) (sb_kv s)) @
      concat (map (take (items (cached * ropepp))) (sb_rope s))"
  have f: "f = Some (put_words ?ws)"
    using saved len(1-3) unfolding k3_state_save_def Let_def h(2) [symmetric] by (auto split: option.splits if_splits)
  have l24: "length (hdr_words h) = 24" using h(1) length_hdr_words by (simp add: hdr_in_def)
  have "sh_magic h = K3_STATE_MAGIC" "sh_version h = K3_STATE_VER" by (simp_all add: h(2))
  then show "k3_state_peek f = Inr h" using hdr_round [OF h(1)] l24 by (simp add: f k3_state_peek_def words_round)
  have d: "drop 24 (as_f32 (put_words ?ws)) = map of_nat (sb_seq s) @ sb_ks s @ concat (map (take (items (cached * kvpp))) (sb_kv s)) @
      concat (map (take (items (cached * ropepp))) (sb_rope s)) @ []" using l24 by (simp add: words_round)
  have "int (length (sb_seq s)) < 2 ^ 31" using h by (simp add: hdr_in_def in32_def)
  then have n: "items (int (length (sb_seq s))) = length (sb_seq s)" by (simp add: items_nat)
  have sq: "map (unat \<circ> (of_nat :: nat \<Rightarrow> 32 word)) (sb_seq s) = sb_seq s"
    using ids by (intro map_idI) (force simp: unat_of_nat take_bit_nat_eq_self)
  have kv: "fread_slices (nat n_mla) (items (cached * kvpp)) (concat (map (take (items (cached * kvpp))) (sb_kv s)) @ b) =
      Some (map (take (items (cached * kvpp))) (sb_kv s), b)" for b
    using fread_slices_append [of "map (take (items (cached * kvpp))) (sb_kv s)" "items (cached * kvpp)" b] len(2,4) by simp
  have rp: "fread_slices (nat n_mla) (items (cached * ropepp)) (concat (map (take (items (cached * ropepp))) (sb_rope s)) @ b) =
      Some (map (take (items (cached * ropepp))) (sb_rope s), b)" for b
    using fread_slices_append [of "map (take (items (cached * ropepp))) (sb_rope s)" "items (cached * ropepp)" b] len(3,5) by simp
  have sel: "sh_nseq h = int (length (sb_seq s))" "sh_kper h = kper" "sh_cached h = cached" "sh_kvpp h = kvpp" "sh_ropepp h = ropepp"
    "sh_fp h = k3_state_fp c" "sh_n_bound h = n_bound" "sh_n_mla h = n_mla" by (simp_all add: h(2))
  have b: "read_body h n_bound n_mla (drop 24 (as_f32 (put_words ?ws))) =
      Some (s\<lparr>sb_kv := map (take (items (cached * kvpp))) (sb_kv s), sb_rope := map (take (items (cached * ropepp))) (sb_rope s)\<rparr>)"
    unfolding d read_body_def sel by (simp add: n fread_words_append len(1) kv rp [of "[]", simplified] sq)
  show "k3_state_load f c h n_bound n_mla kv_cap =
      Inr (s\<lparr>sb_kv := map (take (items (cached * kvpp))) (sb_kv s), sb_rope := map (take (items (cached * ropepp))) (sb_rope s)\<rparr>)"
    if "cached \<le> kv_cap" using that b by (simp add: k3_state_load_def sel f)
qed

section \<open>A saved run resumes\<close>

lemma save_succeeds: "\<exists>room f. save_run room c sq ca = (0, f)"
  by (rule exI [of _ "Some _"]) (force simp: save_run_def k3_state_save_def Let_def)

lemma length_flat_kda: "kda_shape c st \<Longrightarrow> length (flat_kda st) = kda_words c"
  by (simp add: kda_shape_def flat_kda_def kda_words_def Let_def)

lemma unflat_flat: "kda_shape c st \<Longrightarrow> unflat_kda c (flat_kda st) = st"
  by (simp add: kda_shape_def flat_kda_def unflat_kda_def seg_def Let_def mult.assoc)

lemma rows_concat:
  assumes "\<forall>x\<in>set xs. length x = k"
  shows "rows (length xs) k (concat xs) = xs"
proof -
  have "concat xs = concat (map (\<lambda>i. xs ! i) [0..<length xs])" by (simp add: map_nth)
  then show ?thesis using assms seg_concat [of _ "length xs" "(!) xs" k] by (intro nth_equalityI) (simp_all add: rows_def)
qed

lemma stack_ok_shape: "stack_ok c cap L ws sts kvs \<Longrightarrow> \<forall>st\<in>set sts. kda_shape c st"
  by (induction c cap L ws sts kvs rule: stack_ok.induct) (auto simp: attn_ok_def)

lemma ks_round:
  assumes "\<forall>st\<in>set sts. kda_shape c st"
  shows "map (unflat_kda c) (rows (length sts) (kda_words c) (concat (map flat_kda sts))) = sts"
proof -
  have "rows (length sts) (kda_words c) (concat (map flat_kda sts)) = map flat_kda sts"
    using rows_concat [of "map flat_kda sts" "kda_words c"] assms by (simp add: length_flat_kda)
  then show ?thesis using assms by (simp add: map_idI unflat_flat)
qed

lemma mla_slot_nth: "k3_is_mla c (int L) \<Longrightarrow> L < n \<Longrightarrow> mla_slot c L < length (mla_layers c n) \<and> mla_layers c n ! mla_slot c L = L"
proof -
  assume a: "k3_is_mla c (int L)" "L < n"
  have "[0..<n] = [0..<L] @ L # [Suc L..<n]" using a(2) by (metis upt_add_eq_append upt_conv_Cons le_add_diff_inverse less_imp_le zero_le)
  then have "mla_layers c n = mla_layers c L @ L # filter (\<lambda>L. k3_is_mla c (int L)) [Suc L..<n]" using a(1) by (simp add: mla_layers_def)
  then show ?thesis by (simp add: mla_slot_def)
qed

text \<open>The layers that attend over the cache are the ones the configuration lists, as binding a layer makes them.\<close>

definition mla_matches :: "K3Cfg \<Rightarrow> ('c, 'q, 'd) K3LayerW list \<Rightarrow> bool" where
  "mla_matches c ws \<longleftrightarrow> list_all (\<lambda>L. ly_kda (ws ! L) = None \<longleftrightarrow> k3_is_mla c (int L)) [0..<length ws]"

lemma stack_wide_nth:
  "stack_wide c n ws kvs \<Longrightarrow> L < length ws \<Longrightarrow> ly_kda (ws ! L) = None \<Longrightarrow> \<exists>k r. kvs ! L = Some (k, r) \<and>
     (\<forall>x\<in>set (take n k). length x = kv_width c) \<and> (\<forall>x\<in>set (take n r). length x = nat (cf_qk_rope c))"
proof (induction c n ws kvs arbitrary: L rule: stack_wide.induct)
  case (1 c n w ws kv kvs)
  then show ?case by (cases L) (auto split: option.splits)
qed auto

lemma stack_ok_nth:
  "stack_ok c cap L0 ws sts kvs \<Longrightarrow> L < length ws \<Longrightarrow> ly_kda (ws ! L) = None \<Longrightarrow>
   \<exists>k r. kvs ! L = Some (k, r) \<and> length k = cap \<and> length r = cap"
proof (induction c cap L0 ws sts kvs arbitrary: L rule: stack_ok.induct)
  case (1 c cap L0 w ws st sts kv kvs)
  then show ?case by (cases L) (auto simp: attn_ok_def split: option.splits)
qed auto

lemma stack_agreeI:
  "length a = length ws \<Longrightarrow> length b = length ws \<Longrightarrow> (\<And>L. L < length ws \<Longrightarrow> ly_kda (ws ! L) = None \<Longrightarrow> kv_agree n (a ! L) (b ! L)) \<Longrightarrow>
   stack_agree n ws a b"
proof (induction ws arbitrary: a b)
  case (Cons w ws)
  obtain x xs y ys where ab: "a = x # xs" "b = y # ys" using Cons.prems(1,2) by (cases a; cases b) auto
  have "stack_agree n ws xs ys" using Cons.prems(1,2) Cons.prems(3) [of "Suc _"] by (intro Cons.IH) (auto simp: ab)
  then show ?case using Cons.prems(3) [of 0] by (simp add: ab)
qed simp

lemma stack_okI:
  "layers_attend c L0 ws \<Longrightarrow> length sts = length ws \<Longrightarrow> length kvs = length ws \<Longrightarrow> \<forall>st\<in>set sts. kda_shape c st \<Longrightarrow>
   (\<And>L. L < length ws \<Longrightarrow> ly_kda (ws ! L) = None \<Longrightarrow> \<exists>k r. kvs ! L = Some (k, r) \<and> length k = cap \<and> length r = cap) \<Longrightarrow>
   stack_ok c cap L0 ws sts kvs"
proof (induction ws arbitrary: L0 sts kvs)
  case (Cons w ws)
  obtain x xs y ys where ab: "sts = x # xs" "kvs = y # ys" using Cons.prems(2,3) by (cases sts; cases kvs) auto
  have "stack_ok c cap (Suc L0) ws xs ys" using Cons.prems Cons.prems(5) [of "Suc _"] by (intro Cons.IH) (auto simp: ab)
  then show ?case using Cons.prems(1,4) Cons.prems(5) [of 0] by (auto simp: ab attn_ok_def)
qed simp

text \<open>The quantities a state file stores are ones its fields can hold.\<close>

definition state_in :: "K3Cfg \<Rightarrow> nat \<Rightarrow> nat \<Rightarrow> nat list \<Rightarrow> bool" where
  "state_in c n cached sq \<longleftrightarrow> list_all in32 (k3_state_fp c) \<and> 0 \<le> cf_n_heads c \<and> 0 \<le> cf_qk_nope c \<and> 0 \<le> cf_v_head c \<and> 0 \<le> cf_qk_rope c \<and>
     in32 (int n) \<and> in32 (int cached) \<and> in32 (int (length sq)) \<and> list_all (\<lambda>i. i < 2 ^ 31) sq \<and>
     in63 (int (kda_words c)) \<and> in63 (int (kv_width c)) \<and> in63 (int (kda_words c * n)) \<and> in63 (int (cached * kv_width c)) \<and>
     in63 (int (cached * nat (cf_qk_rope c)))"

lemma length_concat_const: "\<forall>x\<in>set xs. length x = k \<Longrightarrow> length (concat xs) = length xs * k"
  by (induction xs) auto

lemma take_concat_rows: "\<forall>x\<in>set (take n xs). length x = k \<Longrightarrow> n \<le> length xs \<Longrightarrow> take (n * k) (concat xs) = concat (take n xs)"
proof -
  assume a: "\<forall>x\<in>set (take n xs). length x = k" "n \<le> length xs"
  have "length (concat (take n xs)) = n * k" using a length_concat_const [OF a(1)] by simp
  moreover have "concat xs = concat (take n xs) @ concat (drop n xs)" by (simp flip: concat_append)
  ultimately show ?thesis by (simp add: append_eq_conv_conj)
qed

lemma rows_take:
  assumes "\<forall>x\<in>set (take n xs). length x = k" "n \<le> length xs"
  shows "rows n k (take (n * k) (concat xs)) = take n xs"
  using rows_concat [OF assms(1)] assms by (simp add: take_concat_rows min_absorb2)

lemma items_mult: "in63 (int (a * b)) \<Longrightarrow> items (int a * int b) = a * b"
  by (simp add: items_nat in63_def flip: of_nat_mult)

text \<open>What the carried state of a consumed sequence looks like, layer by layer.\<close>

lemma consumed_rows:
  assumes C: "consumed F avx c weights w xs ca" and n: "mla_matches c (we_lay w)"
  obtains kv where "ca_kv ca = Some kv" "ca_cached ca = length xs" "length (ca_ks ca) = length (we_lay w)" "length kv = length (we_lay w)"
    "\<forall>st\<in>set (ca_ks ca). kda_shape c st" "length xs \<le> we_kv_cap w" "layers_attend c 0 (we_lay w)"
    "\<And>L. L < length (we_lay w) \<Longrightarrow> k3_is_mla c (int L) \<Longrightarrow> length (fst (kv ! L)) = we_kv_cap w \<and> length (snd (kv ! L)) = we_kv_cap w \<and>
      (\<forall>x\<in>set (take (length xs) (fst (kv ! L))). length x = kv_width c) \<and>
      (\<forall>x\<in>set (take (length xs) (snd (kv ! L))). length x = nat (cf_qk_rope c))"
proof -
  obtain kv where kv: "ca_kv ca = Some kv" "stack_ok c (we_kv_cap w) 0 (we_lay w) (ca_ks ca) (map Some kv)" "ca_cached ca = length xs"
    "length xs \<le> we_kv_cap w" using C by (auto simp: consumed_def carry_fit_def)
  have "ly_kda (we_lay w ! L) = None \<longleftrightarrow> k3_is_mla c (int L)" if "L < length (we_lay w)" for L
    using n that by (simp add: mla_matches_def list_all_iff)
  then show thesis
    using that [of kv] kv(1,3,4) stack_ok_length [OF kv(2)] stack_ok_shape [OF kv(2)] stack_ok_attend [OF kv(2)] stack_ok_nth [OF kv(2)]
      stack_wide_nth [OF consumed_wide [OF C]] by fastforce
qed

text \<open>The body a load returns: all of the recurrent states, of each slice the consumed rows.\<close>

definition saved_body :: "K3Cfg \<Rightarrow> nat list \<Rightarrow> Carry \<Rightarrow> StateBody" where
  "saved_body c sq ca = (let s = body_of c sq ca in
     s\<lparr>sb_kv := map (take (ca_cached ca * kv_width c)) (sb_kv s), sb_rope := map (take (ca_cached ca * nat (cf_qk_rope c))) (sb_rope s)\<rparr>)"

lemma load_saved:
  assumes C: "consumed F avx c weights w xs ca" and n: "mla_matches c (we_lay w)" "state_in c (length (we_lay w)) (length xs) sq"
    and saved: "save_run room c sq ca = (0, f)" and cap: "length xs \<le> cap'"
  shows "\<exists>h. sh_cached h = int (length xs) \<and> load_run f c (w\<lparr>we_kv_cap := cap'\<rparr>) =
    Inr (sq, restore c (w\<lparr>we_kv_cap := cap'\<rparr>) h (saved_body c sq ca))"
proof -
  let ?n = "length (we_lay w)" and ?k = "kv_width c" and ?r = "nat (cf_qk_rope c)"
  obtain kv where kv: "ca_kv ca = Some kv" "ca_cached ca = length xs" "length (ca_ks ca) = ?n" "length kv = ?n"
    "\<forall>st\<in>set (ca_ks ca). kda_shape c st" "length xs \<le> we_kv_cap w"
    "\<And>L. L < ?n \<Longrightarrow> k3_is_mla c (int L) \<Longrightarrow> length (fst (kv ! L)) = we_kv_cap w \<and> length (snd (kv ! L)) = we_kv_cap w \<and>
      (\<forall>x\<in>set (take (length xs) (fst (kv ! L))). length x = ?k) \<and> (\<forall>x\<in>set (take (length xs) (snd (kv ! L))). length x = ?r)"
    using consumed_rows [OF C n(1)] by metis
  let ?ls = "mla_layers c ?n" and ?s = "body_of c sq ca"
  have kvpp: "cf_n_heads c * (cf_qk_nope c + cf_v_head c) = int ?k" "cf_qk_rope c = int ?r"
    using n(2) by (simp_all add: state_in_def kv_width_def)
  have it: "items (int (kda_words c) * int ?n) = kda_words c * ?n" "items (int (length xs) * int ?k) = length xs * ?k"
    "items (int (length xs) * int ?r) = length xs * ?r" using n(2) unfolding state_in_def by (blast intro: items_mult)+
  define h where "h = \<lparr>sh_magic = K3_STATE_MAGIC, sh_version = K3_STATE_VER, sh_fp = k3_state_fp c, sh_n_bound = int ?n,
      sh_n_mla = int (length ?ls), sh_cached = int (length xs), sh_nseq = int (length (sb_seq ?s)), sh_kper = int (kda_words c),
      sh_kvpp = int ?k, sh_ropepp = int ?r\<rparr>"
  have ls: "length ?ls \<le> ?n" by (simp add: mla_layers_def order_trans [OF length_filter_le])
  have h: "hdr_in h" using n(2) ls
    by (auto simp: h_def hdr_in_def state_in_def K3_STATE_VER_def list_all_iff in32_def in63_def body_of_def Let_def k3_state_fp_def)
  have seqs: "sb_seq ?s = sq" by (simp add: body_of_def Let_def)
  have ids: "\<forall>i\<in>set (sb_seq ?s). i < 2 ^ 31" using n(2) by (simp add: seqs state_in_def list_all_iff)
  have "length (concat (map flat_kda (ca_ks ca))) = kda_words c * ?n"
    using length_concat_const [of "map flat_kda (ca_ks ca)" "kda_words c"] kv(3,5) by (simp add: length_flat_kda)
  then have body: "length (sb_ks ?s) = items (int (kda_words c) * int ?n)" "length (sb_kv ?s) = nat (int (length ?ls))"
    "length (sb_rope ?s) = nat (int (length ?ls))" by (simp_all add: body_of_def Let_def kv(3) it)
  have wide: "length xs * k \<le> length (concat x)" if "\<forall>y\<in>set (take (length xs) x). length y = k" "length xs \<le> length x"
    for x :: "f32 list list" and k
    using length_concat_const [OF that(1)] that(2)
    by (metis append_take_drop_id concat_append le_add1 length_append length_take min_absorb2)
  have "length xs * ?k \<le> length (concat (fst (kv ! L))) \<and> length xs * ?r \<le> length (concat (snd (kv ! L)))" if "L \<in> set ?ls" for L
    using kv(6) kv(7) [of L] that wide by (auto simp: mla_layers_def)
  then have slices: "\<forall>x\<in>set (sb_kv ?s). items (int (length xs) * int ?k) \<le> length x" "\<forall>x\<in>set (sb_rope ?s). items (int (length xs) * int ?r) \<le> length x"
    unfolding it by (auto simp: body_of_def Let_def kv(1,3))
  have sv: "k3_state_save room c ?s (int ?n) (int (length ?ls)) (int (length xs)) (int (kda_words c)) (int ?k) (int ?r) = (0, f)"
    using saved unfolding save_run_def kv(2,3) kvpp(1) by (metis kvpp(2))
  note sl = save_load [OF h h_def ids body slices sv]
  have "load_run f c (w\<lparr>we_kv_cap := cap'\<rparr>) = Inr (sq, restore c (w\<lparr>we_kv_cap := cap'\<rparr>) h (saved_body c sq ca))"
    using sl(1) sl(2) [of "int cap'"] cap unfolding it by (simp add: load_run_def seqs saved_body_def kv(2) Let_def)
  then show ?thesis by (intro exI [of _ h]) (simp add: h_def)
qed

lemma restore_consumed:
  assumes C: "consumed F avx c weights w xs ca" and n: "mla_matches c (we_lay w)" and h: "sh_cached h = int (length xs)" and cap: "length xs \<le> cap'"
  shows "consumed F avx c weights (w\<lparr>we_kv_cap := cap'\<rparr>) xs (restore c (w\<lparr>we_kv_cap := cap'\<rparr>) h (saved_body c sq ca))"
proof -
  let ?n = "length (we_lay w)" and ?k = "kv_width c" and ?r = "nat (cf_qk_rope c)" and ?w = "w\<lparr>we_kv_cap := cap'\<rparr>"
  obtain kv where kv: "ca_kv ca = Some kv" "ca_cached ca = length xs" "length (ca_ks ca) = ?n" "length kv = ?n"
    "\<forall>st\<in>set (ca_ks ca). kda_shape c st" "length xs \<le> we_kv_cap w" "layers_attend c 0 (we_lay w)"
    "\<And>L. L < ?n \<Longrightarrow> k3_is_mla c (int L) \<Longrightarrow> length (fst (kv ! L)) = we_kv_cap w \<and> length (snd (kv ! L)) = we_kv_cap w \<and>
      (\<forall>x\<in>set (take (length xs) (fst (kv ! L))). length x = ?k) \<and> (\<forall>x\<in>set (take (length xs) (snd (kv ! L))). length x = ?r)"
    using consumed_rows [OF C n] by metis
  let ?ca = "restore c ?w h (saved_body c sq ca)"
  obtain kv' where kv': "ca_kv ?ca = Some kv'" "length kv' = ?n" by (simp add: restore_def Let_def)
  have ks: "ca_ks ?ca = ca_ks ca" using ks_round [OF kv(5)] kv(3) by (simp add: restore_def saved_body_def body_of_def Let_def)
  have cached: "ca_cached ?ca = length xs" by (simp add: restore_def Let_def h)
  have at: "\<exists>k r. kv' ! L = (k, r) \<and> length k = cap' \<and> length r = cap' \<and> take (length xs) k = take (length xs) (fst (kv ! L)) \<and>
      take (length xs) r = take (length xs) (snd (kv ! L))" if L: "L < ?n" "k3_is_mla c (int L)" for L
  proof -
    note row = kv(8) [OF L] and slot = mla_slot_nth [OF L(2,1)]
    have "sb_kv (saved_body c sq ca) ! mla_slot c L = take (length xs * ?k) (concat (fst (kv ! L)))"
      "sb_rope (saved_body c sq ca) ! mla_slot c L = take (length xs * ?r) (concat (snd (kv ! L)))"
      using slot by (simp_all add: saved_body_def body_of_def Let_def kv(1-3))
    moreover have "rows (length xs) ?k (take (length xs * ?k) (concat (fst (kv ! L)))) = take (length xs) (fst (kv ! L))"
      "rows (length xs) ?r (take (length xs * ?r) (concat (snd (kv ! L)))) = take (length xs) (snd (kv ! L))"
      using row kv(6) by (intro rows_take; simp)+
    ultimately have "kv' ! L = (write_rows 0 (take (length xs) (fst (kv ! L))) (replicate cap' (replicate ?k 0)),
        write_rows 0 (take (length xs) (snd (kv ! L))) (replicate cap' (replicate ?r 0)))"
      using kv'(1) L by (auto simp: restore_def Let_def fresh_carry_def h)
    then show ?thesis using row kv(6) cap by (simp add: write_rows_def)
  qed
  have kda: "k3_is_mla c (int L)" if "L < ?n" "ly_kda (we_lay w ! L) = None" for L using n that by (simp add: mla_matches_def list_all_iff)
  have "stack_ok c cap' 0 (we_lay w) (ca_ks ca) (map Some kv')"
    using kv(3,5,7) kv'(2) at kda by (intro stack_okI) fastforce+
  then have fit: "carry_fit c ?w ?ca" using cached cap ks kv'(1) by (simp add: carry_fit_def)
  have "kv_agree (length xs) (Some (kv ! L)) (Some (kv' ! L))" if "L < ?n" "ly_kda (we_lay w ! L) = None" for L
    using at [OF that(1) kda [OF that]] by (cases "kv ! L") (auto simp: kv_agree_def)
  then have "stack_agree (length xs) (we_lay w) (map Some kv) (map Some kv')" using kv(4) kv'(2) by (intro stack_agreeI) simp_all
  from consumed_recap [OF C kv(1) kv'(1) refl fit ks cached this] show ?thesis .
qed

lemma resume:
  assumes C: "consumed F avx c weights w xs ca" and n: "mla_matches c (we_lay w)" "state_in c (length (we_lay w)) (length xs) sq"
    and saved: "save_run room c sq ca = (0, f)" and cap: "length xs \<le> cap'"
  shows "\<exists>ca'. load_run f c (w\<lparr>we_kv_cap := cap'\<rparr>) = Inr (sq, ca') \<and> ca_cached ca' = length xs \<and>
    consumed F avx c weights (w\<lparr>we_kv_cap := cap'\<rparr>) xs ca'"
proof -
  obtain h where h: "sh_cached h = int (length xs)" "load_run f c (w\<lparr>we_kv_cap := cap'\<rparr>) =
      Inr (sq, restore c (w\<lparr>we_kv_cap := cap'\<rparr>) h (saved_body c sq ca))" using load_saved [OF C n saved cap] by blast
  then show ?thesis using restore_consumed [OF C n(1) h(1) cap, of sq] by (auto simp: consumed_def)
qed

end
