(* ===== verification/K3_Demo.thy ===== *)
theory K3_Demo
  imports K3_Examples K3_Config_Demo K3_Generate_Laws K3_State
begin

text \<open>
  A two-layer model over the small checkpoint: a KDA layer with a mixture, then an MLA layer with a dense MLP. It
  instantiates the properties of decoding.
\<close>

definition demo_fpu :: fpu where
  "demo_fpu = \<lparr>fp_expf = (\<lambda>x. f_one), fp_tanhf = (\<lambda>x. x), fp_nan32 = (\<lambda>_. 0x7FC00000), fp_nan64 = (\<lambda>_. 0x7FF8000000000000)\<rparr>"

type_synonym demo_layer = "(K3Cache, K3ExpertQ, Disk \<times> bool) K3LayerW"

definition demo_machine :: "(K3Cache, K3ExpertQ, Disk \<times> bool) Machine" where
  "demo_machine = \<lparr>ma_fpu = demo_fpu, ma_avx = False, ma_disk = (\<lambda>_. (demo_disk, True)), ma_view = cache_view\<rparr>"

definition ones :: "nat \<Rightarrow> f32 list" where
  "ones n = replicate n f_one"

definition demo_bytes :: "nat \<Rightarrow> bytes" where
  "demo_bytes n = map of_nat [0..<4 * n]"

definition demo_kda :: K3KdaW where
  "demo_kda = \<lparr>kw_q = demo_bytes 4, kw_k = demo_bytes 4, kw_v = demo_bytes 4, kw_q_conv = ones 4, kw_k_conv = ones 4,
     kw_v_conv = ones 4, kw_f_a = demo_bytes 4, kw_f_b = demo_bytes 4, kw_A_log = ones 1, kw_dt_bias = ones 2,
     kw_b = demo_bytes 2, kw_g = demo_bytes 4, kw_o_norm = ones 2, kw_o = demo_bytes 4, kw_wdt = K3_WF32\<rparr>"

definition demo_mla :: K3MlaW where
  "demo_mla = \<lparr>ml_q_a = demo_bytes 4, ml_q_b = demo_bytes 6, ml_kv_a = demo_bytes 6, ml_kv_b = demo_bytes 8, ml_o = demo_bytes 4,
     ml_g = Some (demo_bytes 4), ml_q_a_norm = ones 2, ml_kv_a_norm = ones 2, ml_wdt = K3_WF32\<rparr>"

definition demo_moe :: "(K3Cache, K3ExpertQ, Disk \<times> bool) K3MoeW" where
  "demo_moe = \<lparr>mo_gate = ones 4, mo_bias = None, mo_w1 = [], mo_w3 = [], mo_w2 = [], mo_latent_norm = ones 2,
     mo_down = demo_bytes 4, mo_up = demo_bytes 4, mo_sh1 = demo_bytes 4, mo_sh3 = demo_bytes 4, mo_sh2 = demo_bytes 4,
     mo_wdt = K3_WF32, mo_src = None, mo_layer = 0, mo_cache_only = False\<rparr>"

definition demo_layers :: "demo_layer list" where
  "demo_layers =
     [\<lparr>ly_in_norm = ones 2, ly_post_norm = ones 2, ly_attn_res_norm = ones 2, ly_attn_res_proj = ones 2, ly_mlp_res_norm = ones 2,
       ly_mlp_res_proj = ones 2, ly_kda = Some demo_kda, ly_mla = None, ly_moe = Some demo_moe, ly_dense_gate = [],
       ly_dense_up = [], ly_dense_down = [], ly_wdt = K3_WF32\<rparr>,
      \<lparr>ly_in_norm = ones 2, ly_post_norm = ones 2, ly_attn_res_norm = ones 2, ly_attn_res_proj = ones 2, ly_mlp_res_norm = ones 2,
       ly_mlp_res_proj = ones 2, ly_kda = None, ly_mla = Some demo_mla, ly_moe = None, ly_dense_gate = demo_bytes 4,
       ly_dense_up = demo_bytes 4, ly_dense_down = demo_bytes 4, ly_wdt = K3_WF32\<rparr>]"

definition demo_weights :: "nat \<Rightarrow> (K3Cache, K3ExpertQ, Disk \<times> bool) Weights" where
  "demo_weights cap = \<lparr>we_lay = demo_layers, we_embed = demo_bytes 8, we_lm_head = demo_bytes 8, we_norm = ones 2,
     we_out_res = Some (ones 2, ones 2), we_wdt = K3_WF32, we_kv_cap = cap, we_draft_mode = False\<rparr>"

definition demo_run :: "K3Cache Run" where
  "demo_run = \<lparr>ru_src = demo_cache, ru_calls = 0, ru_drops = 0\<rparr>"

lemma demo_absent: "list_all (\<lambda>(l, e). list_all (\<lambda>w. find (\<lambda>t. t_name t = expert_name l e w ''weight_packed'') demo_ts = None) W) [(0,1),(1,0),(1,1)]" by code_simp


lemma demo_none: "find_pair demo_st l e w = None" if "(l, e) \<in> {(0,1),(1,0),(1,1)}" "w \<in> set W"
  using demo_absent that unfolding find_pair_def demo_find by (auto simp: list_all_iff)

lemma demo_sizes: "list_all (\<lambda>(p, s). t_nbytes p = 32 \<and> t_nbytes s = 2) demo_pairs" by (simp add: demo_pairs_def demo_part_def)

lemma demo_fit: "experts_fit demo_st demo_cfg"
proof -
  have "expert_fits demo_st demo_cfg l e" if "l \<in> {0, 1}" "e \<in> {0, 1}" for l e
  proof (cases "l = 0 \<and> e = 0")
    case True
    then show ?thesis using demo_sizes
      by (simp add: expert_fits_def W_def demo_find_pairs demo_cfg_def matrix_fits_def demo_pairs_def demo_part_def)
  next
    case False
    then have "(l, int e) \<in> {(0, 1), (1, 0), (1, 1)}" using that by auto
    then show ?thesis using demo_none [of l "int e"] by (simp add: expert_fits_def matrix_fits_def W_def)
  qed
  then show ?thesis by (simp add: experts_fit_def demo_cfg_def list_all_iff upt_rec upto_rec1)
qed

lemma demo_run_ok: "run_ok demo_st demo_file demo_cfg demo_machine demo_run"
  by (simp add: run_ok_def demo_run_def demo_machine_def demo_inv demo_disk_file demo_cache_sel demo_cfg_def)

lemma demo_model_ok: "model_ok demo_st demo_file demo_cfg demo_machine (demo_weights cap) demo_run"
  by (simp add: model_ok_def demo_run_ok demo_sane demo_fit demo_weights_def) (simp add: demo_layers_def demo_cfg_def)

lemma demo_attend: "layers_attend demo_cfg 0 (we_lay (demo_weights cap))" "mla_matches demo_cfg (we_lay (demo_weights cap))"
  by (simp_all add: demo_weights_def demo_layers_def demo_cfg_def k3_is_mla_def mla_matches_def upt_rec)

lemma demo_consumed: "consumed F avx demo_cfg weights (demo_weights cap) [] (fresh_carry demo_cfg (demo_weights cap))"
  by (rule fresh_consumed) (rule demo_attend)

text \<open>A prompt of two ids and a request for four, drafting two at a time from the sequence.\<close>

definition demo_opt :: GenOpt where
  "demo_opt = \<lparr>go_gen = 4, go_tmax = 7, go_kv_cap = 7, go_incremental = True, go_spec_n = 2, go_resumed = False\<rparr>"

definition demo_gen :: "K3Cache Run Gen" where
  "demo_gen = \<lparr>ge_seq = [1, 2], ge_out = [], ge_ca = fresh_carry demo_cfg (demo_weights 7), ge_dr = fresh_carry demo_cfg (demo_weights 7),
     ge_run = demo_run\<rparr>"

lemma demo_ready: "gen_ready demo_opt demo_cfg (demo_weights 7) None demo_gen"
  by (simp add: gen_ready_def demo_opt_def demo_gen_def demo_weights_def fresh_carry_def Let_def)

text \<open>
  A router without weights over three experts: every score is a half, and the bias prefers the second expert to
  the third and both to the first.
\<close>

definition demo_bias :: "f32 list" where
  "demo_bias = [0, 0x3F800000, 0x3F000000]"

lemma demo_choice:
  "router_choice demo_fpu [] [] (Some demo_bias) 0 0 = 0x3F000000"
  "router_choice demo_fpu [] [] (Some demo_bias) 0 1 = 0x3FC00000"
  "router_choice demo_fpu [] [] (Some demo_bias) 0 2 = 0x3F800000"
  by code_simp+

lemma demo_bias_order: "fless f_ninf 0x3F000000" "fless 0x3F000000 0x3F800000" "fless 0x3F800000 0x3FC00000"
  by code_simp+

end
