(* ===== verification/K3_Bind.thy ===== *)
theory K3_Bind
  imports K3_Load K3_Decoder "HOL-Library.Signed_Division"
begin

text \<open>
  Binding the tensors of a layer to the weight structs of the kernels: \<open>src/model/k3_bind.c\<close>, with the widening reads
  \<open>k3_st_read_f32\<close> of \<open>k3_st.c\<close>. One plan lists the tensors of a layer; it is bound either from the shards into one
  allocation, or from a packed run in memory.

  A weight pointer is modelled by the bytes it points at once the binding is done. What an allocation holds before it is
  written is an argument.
\<close>

section \<open>Widening reads\<close>

text \<open>The significand of a subnormal half is shifted up until bit ten is set.\<close>

function renorm16 :: "nat \<Rightarrow> nat \<Rightarrow> nat \<times> nat" where
  "renorm16 man sh = (if 0 < man \<and> man < 1024 then renorm16 (2 * man) (sh + 1) else (man, sh))"
  by pat_completeness auto
termination by (relation "measure (\<lambda>(man, sh). 1024 - man)") auto

declare renorm16.simps [simp del]

definition f16_to_f32 :: "16 word \<Rightarrow> f32" where
  "f16_to_f32 h =
     (let sign = push_bit 16 (ucast (h AND 0x8000)) :: 32 word;
          ex = unat (drop_bit 10 h AND 0x1F); man = unat (h AND 0x3FF)
      in if ex = 0 then
           if man = 0 then sign
           else (case renorm16 man 0 of (m, sh) \<Rightarrow>
                   sign OR push_bit 23 (of_int (127 - 15 - int sh + 1)) OR push_bit 13 (of_nat (m - 1024)))
         else if ex = 31 then sign OR 0x7F800000 OR push_bit 13 (of_nat man)
         else sign OR push_bit 23 (of_nat (ex + 127 - 15)) OR push_bit 13 (of_nat man))"

definition widen_elems :: "K3Dtype \<Rightarrow> bytes \<Rightarrow> nat \<Rightarrow> f32 list" where
  "widen_elems dt raw n =
     (case dt of
        K3_DT_BF16 \<Rightarrow> map (\<lambda>i. k3_bf16f (u16_at raw i)) [0..<n]
      | K3_DT_U8 \<Rightarrow> map (\<lambda>i. f_of_int (uint (raw ! i))) [0..<n]
      | K3_DT_F16 \<Rightarrow> map (\<lambda>i. f16_to_f32 (u16_at raw i)) [0..<n]
      | _ \<Rightarrow> [])"

definition K3_WIDEN_CHUNK :: nat where
  "K3_WIDEN_CHUNK = 4194304"

text \<open>Chunk by chunk: the elements done, and what was stored. A short read ends the loop.\<close>

function widen_loop :: "Disk \<Rightarrow> K3Tensor \<Rightarrow> nat \<Rightarrow> nat \<Rightarrow> nat \<Rightarrow> nat \<Rightarrow> f32 list \<Rightarrow> nat \<times> f32 list" where
  "widen_loop dk t esz chunk n done out =
     (if done < n \<and> 0 < chunk then
        (let k = min (n - done) chunk; at = t_off t + int (done * esz);
             raw = read_loop (dk_file dk (t_shard t)) (nat at) (k * esz) (dk_chunks dk (t_shard t) at) []
         in if length raw < k * esz then (done, out)
            else widen_loop dk t esz chunk n (done + k) (out @ widen_elems (t_dtype t) raw k))
      else (done, out))"
  by pat_completeness auto
termination by (relation "measure (\<lambda>(dk, t, esz, chunk, n, done, out). n - done)") auto

declare widen_loop.simps [simp del]

definition k3_st_read_f32 :: "Disk \<Rightarrow> K3Tensor \<Rightarrow> int \<times> f32 list" where
  "k3_st_read_f32 dk t =
     (let n = k3_st_numel t; esz = k3_st_elemsize (t_dtype t)
      in if t_dtype t = K3_DT_F32 then let b = k3_st_read dk t in (int (length b) div 4, as_f32 b)
         else if esz \<le> 0 then (0, [])
         else case widen_loop dk t (nat esz) (K3_WIDEN_CHUNK div nat esz) (nat n) 0 [] of
                (d, out) \<Rightarrow> (if d = nat n then n else int d, out))"

section \<open>The plan of a layer\<close>

text \<open>
  \<open>rq_dest\<close> stores the bytes a weight pointer points at into the structs being filled; \<open>rq_t\<close> and \<open>rq_off\<close> are
  filled in when the plan is resolved.
\<close>

record 'b Req =
  rq_name :: cstr
  rq_want :: int
  rq_take :: int
  rq_narrow :: bool
  rq_dest :: "bytes \<Rightarrow> 'b \<Rightarrow> 'b"
  rq_t :: "K3Tensor option"
  rq_off :: nat

record 'b BindPlan =
  pl_r :: "'b Req list"
  pl_bad :: nat
  pl_narrow_ok :: bool
  pl_demoted :: nat

definition MAXB :: nat where
  "MAXB = 64"

definition plan_empty :: "bool \<Rightarrow> 'b BindPlan" where
  "plan_empty narrow_ok = \<lparr>pl_r = [], pl_bad = 0, pl_narrow_ok = narrow_ok, pl_demoted = 0\<rparr>"

definition req :: "(bytes \<Rightarrow> 'b \<Rightarrow> 'b) \<Rightarrow> bool \<Rightarrow> int \<Rightarrow> int \<Rightarrow> cstr \<Rightarrow> 'b BindPlan \<Rightarrow> 'b BindPlan" where
  "req dest narrow want take' name p =
     (if length (pl_r p) \<ge> MAXB then p\<lparr>pl_bad := pl_bad p + 1\<rparr>
      else p\<lparr>pl_r := pl_r p @ [\<lparr>rq_name = snprintf_s 224 name, rq_want = want, rq_take = (if take' < 0 then want else take'),
               rq_narrow = (narrow \<and> pl_narrow_ok p), rq_dest = dest, rq_t = None, rq_off = 0\<rparr>]\<rparr>)"

definition reqw :: "(f32 list \<Rightarrow> 'b \<Rightarrow> 'b) \<Rightarrow> int \<Rightarrow> int \<Rightarrow> cstr \<Rightarrow> 'b BindPlan \<Rightarrow> 'b BindPlan" where
  "reqw dest want take' name = req (\<lambda>b. dest (as_f32 b)) False want take' name"

definition reqn :: "(bytes \<Rightarrow> 'b \<Rightarrow> 'b) \<Rightarrow> int \<Rightarrow> cstr \<Rightarrow> 'b BindPlan \<Rightarrow> 'b BindPlan" where
  "reqn dest want name = req dest True want (-1) name"

record ('c, 'q, 'd) K3LayerBind =
  lb_layer :: int
  lb_kda :: K3KdaW
  lb_mla :: K3MlaW
  lb_moe :: "('c, 'q, 'd) K3MoeW"
  lb_lay :: "('c, 'q, 'd) K3LayerW"

definition in_kda :: "(K3KdaW \<Rightarrow> K3KdaW) \<Rightarrow> ('c, 'q, 'd) K3LayerBind \<Rightarrow> ('c, 'q, 'd) K3LayerBind" where
  "in_kda f b = b\<lparr>lb_kda := f (lb_kda b)\<rparr>"

definition in_mla :: "(K3MlaW \<Rightarrow> K3MlaW) \<Rightarrow> ('c, 'q, 'd) K3LayerBind \<Rightarrow> ('c, 'q, 'd) K3LayerBind" where
  "in_mla f b = b\<lparr>lb_mla := f (lb_mla b)\<rparr>"

definition in_moe :: "(('c, 'q, 'd) K3MoeW \<Rightarrow> ('c, 'q, 'd) K3MoeW) \<Rightarrow> ('c, 'q, 'd) K3LayerBind \<Rightarrow> ('c, 'q, 'd) K3LayerBind" where
  "in_moe f b = b\<lparr>lb_moe := f (lb_moe b)\<rparr>"

definition in_lay :: "(('c, 'q, 'd) K3LayerW \<Rightarrow> ('c, 'q, 'd) K3LayerW) \<Rightarrow> ('c, 'q, 'd) K3LayerBind \<Rightarrow> ('c, 'q, 'd) K3LayerBind" where
  "in_lay f b = b\<lparr>lb_lay := f (lb_lay b)\<rparr>"

definition layer_tensor :: "int \<Rightarrow> cstr \<Rightarrow> cstr" where
  "layer_tensor L s = ''language_model.model.layers.'' @ show_int L @ ''.'' @ s"

definition norm_reqs :: "K3Cfg \<Rightarrow> int \<Rightarrow> (('c, 'q, 'd) K3LayerBind BindPlan \<Rightarrow> ('c, 'q, 'd) K3LayerBind BindPlan) list" where
  "norm_reqs c L =
     (let H = cf_hidden c; nm = layer_tensor L in
      [reqw (\<lambda>v. in_lay (\<lambda>w. w\<lparr>ly_in_norm := v\<rparr>)) H (-1) (nm ''input_layernorm.weight''),
       reqw (\<lambda>v. in_lay (\<lambda>w. w\<lparr>ly_post_norm := v\<rparr>)) H (-1) (nm ''post_attention_layernorm.weight''),
       reqw (\<lambda>v. in_lay (\<lambda>w. w\<lparr>ly_attn_res_norm := v\<rparr>)) H (-1) (nm ''self_attention_res_norm.weight''),
       reqw (\<lambda>v. in_lay (\<lambda>w. w\<lparr>ly_attn_res_proj := v\<rparr>)) H (-1) (nm ''self_attention_res_proj.weight''),
       reqw (\<lambda>v. in_lay (\<lambda>w. w\<lparr>ly_mlp_res_norm := v\<rparr>)) H (-1) (nm ''mlp_res_norm.weight''),
       reqw (\<lambda>v. in_lay (\<lambda>w. w\<lparr>ly_mlp_res_proj := v\<rparr>)) H (-1) (nm ''mlp_res_proj.weight'')])"

definition mla_reqs :: "K3Cfg \<Rightarrow> int \<Rightarrow> (('c, 'q, 'd) K3LayerBind BindPlan \<Rightarrow> ('c, 'q, 'd) K3LayerBind BindPlan) list" where
  "mla_reqs c L =
     (let H = cf_hidden c; qh = cf_qk_nope c + cf_qk_rope c; nm = (\<lambda>s. layer_tensor L (''self_attn.'' @ s)) in
      [reqn (\<lambda>v. in_mla (\<lambda>w. w\<lparr>ml_q_a := v\<rparr>)) (cf_q_lora c * H) (nm ''q_a_proj.weight''),
       reqw (\<lambda>v. in_mla (\<lambda>w. w\<lparr>ml_q_a_norm := v\<rparr>)) (cf_q_lora c) (-1) (nm ''q_a_layernorm.weight''),
       reqn (\<lambda>v. in_mla (\<lambda>w. w\<lparr>ml_q_b := v\<rparr>)) (cf_n_heads c * qh * cf_q_lora c) (nm ''q_b_proj.weight''),
       reqn (\<lambda>v. in_mla (\<lambda>w. w\<lparr>ml_kv_a := v\<rparr>)) ((cf_kv_lora c + cf_qk_rope c) * H) (nm ''kv_a_proj_with_mqa.weight''),
       reqw (\<lambda>v. in_mla (\<lambda>w. w\<lparr>ml_kv_a_norm := v\<rparr>)) (cf_kv_lora c) (-1) (nm ''kv_a_layernorm.weight''),
       reqn (\<lambda>v. in_mla (\<lambda>w. w\<lparr>ml_kv_b := v\<rparr>)) (cf_n_heads c * (cf_qk_nope c + cf_v_head c) * cf_kv_lora c) (nm ''kv_b_proj.weight''),
       reqn (\<lambda>v. in_mla (\<lambda>w. w\<lparr>ml_o := v\<rparr>)) (H * cf_n_heads c * cf_v_head c) (nm ''o_proj.weight'')] @
      (if cf_mla_out_gate c
       then [reqn (\<lambda>v. in_mla (\<lambda>w. w\<lparr>ml_g := Some v\<rparr>)) (cf_n_heads c * cf_v_head c * H) (nm ''g_proj.weight'')] else []))"

definition kda_reqs :: "K3Cfg \<Rightarrow> int \<Rightarrow> (('c, 'q, 'd) K3LayerBind BindPlan \<Rightarrow> ('c, 'q, 'd) K3LayerBind BindPlan) list" where
  "kda_reqs c L =
     (let H = cf_hidden c; P = cf_kda_heads c * cf_kda_head_dim c; nm = (\<lambda>s. layer_tensor L (''self_attn.'' @ s)) in
      [reqn (\<lambda>v. in_kda (\<lambda>w. w\<lparr>kw_q := v\<rparr>)) (P * H) (nm ''q_proj.weight''),
       reqn (\<lambda>v. in_kda (\<lambda>w. w\<lparr>kw_k := v\<rparr>)) (P * H) (nm ''k_proj.weight''),
       reqn (\<lambda>v. in_kda (\<lambda>w. w\<lparr>kw_v := v\<rparr>)) (P * H) (nm ''v_proj.weight''),
       reqn (\<lambda>v. in_kda (\<lambda>w. w\<lparr>kw_g := v\<rparr>)) (P * H) (nm ''g_proj.weight''),
       reqn (\<lambda>v. in_kda (\<lambda>w. w\<lparr>kw_o := v\<rparr>)) (H * P) (nm ''o_proj.weight''),
       reqw (\<lambda>v. in_kda (\<lambda>w. w\<lparr>kw_q_conv := v\<rparr>)) (P * cf_conv_k c) (-1) (nm ''q_conv1d.weight''),
       reqw (\<lambda>v. in_kda (\<lambda>w. w\<lparr>kw_k_conv := v\<rparr>)) (P * cf_conv_k c) (-1) (nm ''k_conv1d.weight''),
       reqw (\<lambda>v. in_kda (\<lambda>w. w\<lparr>kw_v_conv := v\<rparr>)) (P * cf_conv_k c) (-1) (nm ''v_conv1d.weight''),
       reqn (\<lambda>v. in_kda (\<lambda>w. w\<lparr>kw_f_a := v\<rparr>)) (cf_kda_head_dim c * H) (nm ''f_a_proj.weight''),
       reqn (\<lambda>v. in_kda (\<lambda>w. w\<lparr>kw_f_b := v\<rparr>)) (P * cf_kda_head_dim c) (nm ''f_b_proj.weight''),
       reqn (\<lambda>v. in_kda (\<lambda>w. w\<lparr>kw_b := v\<rparr>)) (cf_kda_heads c * H) (nm ''b_proj.weight''),
       reqw (\<lambda>v. in_kda (\<lambda>w. w\<lparr>kw_A_log := v\<rparr>)) (cf_kda_head_dim c) (cf_kda_heads c) (nm ''A_log''),
       reqw (\<lambda>v. in_kda (\<lambda>w. w\<lparr>kw_dt_bias := v\<rparr>)) P (-1) (nm ''dt_bias''),
       reqw (\<lambda>v. in_kda (\<lambda>w. w\<lparr>kw_o_norm := v\<rparr>)) (cf_kda_head_dim c) (-1) (nm ''o_norm.weight'')])"

definition mlp_reqs :: "K3Cfg \<Rightarrow> int \<Rightarrow> bool \<Rightarrow> (('c, 'q, 'd) K3LayerBind BindPlan \<Rightarrow> ('c, 'q, 'd) K3LayerBind BindPlan) list" where
  "mlp_reqs c L is_dense =
     (let H = cf_hidden c; I = cf_dense_inter c; SI = cf_moe_inter c * cf_n_shared c;
          nm = (\<lambda>s. layer_tensor L (''block_sparse_moe.'' @ s)); dn = (\<lambda>s. layer_tensor L (''mlp.'' @ s)) in
      if is_dense then
      [reqn (\<lambda>v. in_lay (\<lambda>w. w\<lparr>ly_dense_gate := v\<rparr>)) (I * H) (dn ''gate_proj.weight''),
       reqn (\<lambda>v. in_lay (\<lambda>w. w\<lparr>ly_dense_up := v\<rparr>)) (I * H) (dn ''up_proj.weight''),
       reqn (\<lambda>v. in_lay (\<lambda>w. w\<lparr>ly_dense_down := v\<rparr>)) (H * I) (dn ''down_proj.weight'')]
      else
      [reqw (\<lambda>v. in_moe (\<lambda>w. w\<lparr>mo_gate := v\<rparr>)) (cf_n_experts c * H) (-1) (nm ''gate.weight''),
       reqw (\<lambda>v. in_moe (\<lambda>w. w\<lparr>mo_bias := Some v\<rparr>)) (cf_n_experts c) (-1) (nm ''gate.e_score_correction_bias''),
       reqn (\<lambda>v. in_moe (\<lambda>w. w\<lparr>mo_down := v\<rparr>)) (cf_latent c * H) (nm ''routed_expert_down_proj.weight''),
       reqn (\<lambda>v. in_moe (\<lambda>w. w\<lparr>mo_up := v\<rparr>)) (H * cf_latent c) (nm ''routed_expert_up_proj.weight''),
       reqw (\<lambda>v. in_moe (\<lambda>w. w\<lparr>mo_latent_norm := v\<rparr>)) (cf_latent c) (-1) (nm ''routed_expert_norm.weight''),
       reqn (\<lambda>v. in_moe (\<lambda>w. w\<lparr>mo_sh1 := v\<rparr>)) (SI * H) (nm ''shared_experts.gate_proj.weight''),
       reqn (\<lambda>v. in_moe (\<lambda>w. w\<lparr>mo_sh3 := v\<rparr>)) (SI * H) (nm ''shared_experts.up_proj.weight''),
       reqn (\<lambda>v. in_moe (\<lambda>w. w\<lparr>mo_sh2 := v\<rparr>)) (H * SI) (nm ''shared_experts.down_proj.weight'')])"

definition plan_layer :: "K3Cfg \<Rightarrow> int \<Rightarrow> bool \<Rightarrow> bool \<Rightarrow> ('c, 'q, 'd) K3LayerBind BindPlan \<Rightarrow> ('c, 'q, 'd) K3LayerBind BindPlan" where
  "plan_layer c L is_mla is_dense p =
     fold (\<lambda>r. r) (norm_reqs c L @ (if is_mla then mla_reqs c L else kda_reqs c L) @ mlp_reqs c L is_dense) p"

section \<open>From the shards\<close>

text \<open>\<open>(x + 7) & ~7\<close>\<close>

definition align8 :: "nat \<Rightarrow> nat" where
  "align8 x = (x + 7) div 8 * 8"

text \<open>One tensor: \<open>None\<close> is counted as bad; the flag says that a tensor to be kept as it is was not bf16.\<close>

definition resolve_req :: "K3St \<Rightarrow> 'b Req \<Rightarrow> ('b Req \<times> bool) option" where
  "resolve_req s q =
     (case k3_st_find s (rq_name q) of
        None \<Rightarrow> None
      | Some t \<Rightarrow>
          (let have = k3_st_numel t; demoted = rq_narrow q \<and> t_dtype t \<noteq> K3_DT_BF16;
               q1 = q\<lparr>rq_t := Some t, rq_narrow := rq_narrow q \<and> \<not> demoted\<rparr>
           in if rq_want q \<ge> 0 \<and> have \<noteq> rq_want q then None
              else if rq_take q > have then None
              else if rq_narrow q1 \<and> rq_take q \<noteq> have then None
              else Some (q1, demoted)))"

definition req_size :: "'b Req \<Rightarrow> nat" where
  "req_size q = nat (rq_take q) * (if rq_narrow q then 2 else 4)"

fun resolve_reqs :: "K3St \<Rightarrow> 'b Req list \<Rightarrow> nat \<Rightarrow> 'b Req list \<times> nat \<times> nat \<times> nat" where
  "resolve_reqs s [] off = ([], off, 0, 0)"
| "resolve_reqs s (q # qs) off =
     (case resolve_req s q of
        None \<Rightarrow> (case resolve_reqs s qs off of (rs, o', b, d) \<Rightarrow> (q # rs, o', b + 1, d))
      | Some (q', demoted) \<Rightarrow>
          (let o1 = align8 off
           in case resolve_reqs s qs (o1 + req_size q') of
                (rs, o', b, d) \<Rightarrow> (q'\<lparr>rq_off := o1\<rparr> # rs, o', b, d + (if demoted then 1 else 0))))"

definition plan_resolve :: "K3St \<Rightarrow> 'b BindPlan \<Rightarrow> int \<times> 'b BindPlan" where
  "plan_resolve s p =
     (case resolve_reqs s (pl_r p) 0 of
        (rs, off, b, d) \<Rightarrow>
          let p' = p\<lparr>pl_r := rs, pl_bad := pl_bad p + b, pl_demoted := pl_demoted p + d\<rparr>
          in (if pl_bad p' \<noteq> 0 then -1 else int off, p'))"

definition load_req :: "Disk \<Rightarrow> 'b Req \<Rightarrow> bytes \<Rightarrow> bytes option" where
  "load_req dk q blob =
     (let t = the (rq_t q); have = k3_st_numel t
      in if rq_narrow q then
           let b = k3_st_read dk t in if int (length b) \<noteq> t_nbytes t then None else Some (splice blob (rq_off q) b)
         else case k3_st_read_f32 dk t of (r, fs) \<Rightarrow>
           if r \<noteq> have then None
           else if rq_take q = have then Some (splice blob (rq_off q) (put_words fs))
           else Some (splice blob (rq_off q) (put_words (take (nat (rq_take q)) fs))))"

fun plan_load :: "Disk \<Rightarrow> 'b Req list \<Rightarrow> bytes \<Rightarrow> bytes option" where
  "plan_load dk [] blob = Some blob"
| "plan_load dk (q # qs) blob = (case load_req dk q blob of None \<Rightarrow> None | Some blob' \<Rightarrow> plan_load dk qs blob')"

text \<open>Every pointer of the plan, read once the allocation is filled.\<close>

definition point_all :: "bytes \<Rightarrow> 'b Req list \<Rightarrow> 'b \<Rightarrow> 'b" where
  "point_all blob qs b = fold (\<lambda>q. rq_dest q (seg blob (rq_off q) (req_size q))) qs b"

text \<open>A cleared binding, and the tags and pointers set at the end.\<close>

definition bind_zero :: "int \<Rightarrow> ('c, 'q, 'd) K3LayerBind" where
  "bind_zero L =
     \<lparr>lb_layer = L,
      lb_kda = \<lparr>kw_q = [], kw_k = [], kw_v = [], kw_q_conv = [], kw_k_conv = [], kw_v_conv = [], kw_f_a = [], kw_f_b = [],
        kw_A_log = [], kw_dt_bias = [], kw_b = [], kw_g = [], kw_o_norm = [], kw_o = [], kw_wdt = 0\<rparr>,
      lb_mla = \<lparr>ml_q_a = [], ml_q_b = [], ml_kv_a = [], ml_kv_b = [], ml_o = [], ml_g = None, ml_q_a_norm = [],
        ml_kv_a_norm = [], ml_wdt = 0\<rparr>,
      lb_moe = \<lparr>mo_gate = [], mo_bias = None, mo_w1 = [], mo_w3 = [], mo_w2 = [], mo_latent_norm = [], mo_down = [], mo_up = [],
        mo_sh1 = [], mo_sh3 = [], mo_sh2 = [], mo_wdt = 0, mo_src = None, mo_layer = 0, mo_cache_only = False\<rparr>,
      lb_lay = \<lparr>ly_in_norm = [], ly_post_norm = [], ly_attn_res_norm = [], ly_attn_res_proj = [], ly_mlp_res_norm = [],
        ly_mlp_res_proj = [], ly_kda = None, ly_mla = None, ly_moe = None, ly_dense_gate = [], ly_dense_up = [],
        ly_dense_down = [], ly_wdt = 0\<rparr>\<rparr>"

definition bind_finish :: "bool \<Rightarrow> bool \<Rightarrow> int \<Rightarrow> ('c, 'q, 'd) K3LayerBind \<Rightarrow> ('c, 'q, 'd) K3LayerBind" where
  "bind_finish is_mla is_dense wdt b =
     (let kda = (lb_kda b)\<lparr>kw_wdt := wdt\<rparr>; mla = (lb_mla b)\<lparr>ml_wdt := wdt\<rparr>; moe = (lb_moe b)\<lparr>mo_wdt := wdt\<rparr>
      in b\<lparr>lb_kda := kda, lb_mla := mla, lb_moe := moe,
           lb_lay := (lb_lay b)\<lparr>ly_wdt := wdt, ly_kda := (if is_mla then None else Some kda),
             ly_mla := (if is_mla then Some mla else None), ly_moe := (if is_dense then None else Some moe)\<rparr>\<rparr>)"

definition k3_bind_layer_bytes :: "K3St \<Rightarrow> K3Cfg \<Rightarrow> int \<Rightarrow> int" where
  "k3_bind_layer_bytes s c L =
     fst (plan_resolve s (plan_layer c L (k3_is_mla c L) (k3_is_dense c L)
       (plan_empty True :: (unit, unit, unit) K3LayerBind BindPlan)))"

text \<open>If a large matrix is not bf16 the whole layer is bound at fp32.\<close>

definition resolve_whole :: "K3St \<Rightarrow> (bool \<Rightarrow> 'b BindPlan) \<Rightarrow> (nat \<times> 'b BindPlan) option" where
  "resolve_whole s plan =
     (case plan_resolve s (plan True) of
        (need, p) \<Rightarrow>
          if need < 0 then None
          else if pl_demoted p = 0 then Some (nat need, p)
          else case plan_resolve s (plan False) of (need', p') \<Rightarrow> if need' < 0 then None else Some (nat need', p'))"

definition load_whole :: "K3St \<Rightarrow> Disk \<Rightarrow> (nat \<Rightarrow> 8 word) \<Rightarrow> (bool \<Rightarrow> 'b BindPlan) \<Rightarrow> 'b \<Rightarrow> ('b \<times> int) option" where
  "load_whole s dk mem plan b =
     (case resolve_whole s plan of
        None \<Rightarrow> None
      | Some (need, p) \<Rightarrow>
          map_option (\<lambda>blob. (point_all blob (pl_r p) b, if pl_narrow_ok p then K3_WBF16 else K3_WF32))
            (plan_load dk (pl_r p) (map mem [0..<need])))"

definition k3_bind_layer :: "K3St \<Rightarrow> Disk \<Rightarrow> (nat \<Rightarrow> 8 word) \<Rightarrow> K3Cfg \<Rightarrow> int \<Rightarrow> ('c, 'q, 'd) K3LayerBind option" where
  "k3_bind_layer s dk mem c L =
     (let is_mla = k3_is_mla c L; is_dense = k3_is_dense c L
      in map_option (\<lambda>(b, wdt). bind_finish is_mla is_dense wdt b)
           (load_whole s dk mem (\<lambda>ok. plan_layer c L is_mla is_dense (plan_empty ok)) (bind_zero L)))"

section \<open>From a packed run\<close>

text \<open>What a resolver says of a tensor: its offset in the run, its size and its type.\<close>

type_synonym mem_find = "cstr \<Rightarrow> (int \<times> int \<times> K3Dtype) option"

text \<open>Where a weight pointer of the run points: offset and number of bytes, in the run itself or in the widen area.\<close>

datatype place = InRun nat nat | InWiden nat nat

fun read_place :: "bytes \<Rightarrow> bytes \<Rightarrow> place \<Rightarrow> bytes" where
  "read_place run widen (InRun o' n) = seg run o' n"
| "read_place run widen (InWiden o' n) = seg widen o' n"

record 'b MemBind =
  mb_w :: nat
  mb_widen :: bytes
  mb_narrowed_all :: bool
  mb_i8_seen :: bool
  mb_places :: "((bytes \<Rightarrow> 'b \<Rightarrow> 'b) \<times> place) list"

definition point_at_place :: "'b Req \<Rightarrow> place \<Rightarrow> 'b MemBind \<Rightarrow> 'b MemBind" where
  "point_at_place q pl m = m\<lparr>mb_places := mb_places m @ [(rq_dest q, pl)]\<rparr>"

definition put_wide :: "nat \<Rightarrow> 'b Req \<Rightarrow> f32 list \<Rightarrow> 'b MemBind \<Rightarrow> 'b MemBind option" where
  "put_wide cap q fs m =
     (let w = align8 (mb_w m)
      in if w + length fs * 4 > cap then None
         else Some (point_at_place q (InWiden w (length fs * 4))
                (m\<lparr>mb_widen := splice (mb_widen m) w (put_words fs), mb_w := w + length fs * 4\<rparr>)))"

definition dequant_rows :: "fpu \<Rightarrow> bytes \<Rightarrow> nat \<Rightarrow> nat \<Rightarrow> f32 list" where
  "dequant_rows F rp nr cols =
     mat nr cols (\<lambda>r k. fmul F (f_of_int (sint (rp ! (r * (4 + cols) + 4 + k)))) (u32_at rp (r * (4 + cols))))"

definition widen_i8 :: "fpu \<Rightarrow> bytes \<Rightarrow> nat \<Rightarrow> 'b Req \<Rightarrow> nat \<Rightarrow> int \<Rightarrow> 'b MemBind \<Rightarrow> 'b MemBind option" where
  "widen_i8 F run cap q off nb m =
     (let take' = rq_take q; nr = (nb - take') sdiv 4
      in if (nb - take') mod 4 \<noteq> 0 then None
         else if nr \<le> 0 \<or> take' mod nr \<noteq> 0 then None
         else put_wide cap q (dequant_rows F (drop off run) (nat nr) (nat (take' div nr))) m)"

definition mem_req :: "fpu \<Rightarrow> mem_find \<Rightarrow> bytes \<Rightarrow> nat \<Rightarrow> 'b Req \<Rightarrow> 'b MemBind \<Rightarrow> 'b MemBind option" where
  "mem_req F find' run cap q m =
     (case find' (rq_name q) of
        None \<Rightarrow> None
      | Some (off, nb, dt) \<Rightarrow>
          if dt = K3_DT_I8R then
            if rq_narrow q then Some (point_at_place q (InRun (nat off) (nat nb)) (m\<lparr>mb_i8_seen := True\<rparr>))
            else widen_i8 F run cap q (nat off) nb m
          else
            let esz = (if dt = K3_DT_F32 then 4 else if dt = K3_DT_U8 then 1 else 2); have = nb sdiv esz;
                m1 = (if rq_narrow q then m\<lparr>mb_narrowed_all := False\<rparr> else m)
            in if rq_want q \<ge> 0 \<and> have \<noteq> rq_want q then None
               else if rq_take q > have then None
               else if rq_narrow q \<and> dt = K3_DT_BF16 then Some (point_at_place q (InRun (nat off) (nat nb)) m)
               else if dt = K3_DT_F32 then Some (point_at_place q (InRun (nat off) (nat (rq_take q) * 4)) m1)
               else if dt \<noteq> K3_DT_BF16 then None
               else put_wide cap q (map (\<lambda>k. k3_bf16f (u16_at (drop (nat off) run) k)) [0..<nat (rq_take q)]) m1)"

fun mem_reqs :: "fpu \<Rightarrow> mem_find \<Rightarrow> bytes \<Rightarrow> nat \<Rightarrow> 'b Req list \<Rightarrow> 'b MemBind \<Rightarrow> 'b MemBind option" where
  "mem_reqs F find' run cap [] m = Some m"
| "mem_reqs F find' run cap (q # qs) m =
     (case mem_req F find' run cap q m of None \<Rightarrow> None | Some m' \<Rightarrow> mem_reqs F find' run cap qs m')"

definition mem_init :: "bytes \<Rightarrow> 'b MemBind" where
  "mem_init widen = \<lparr>mb_w = 0, mb_widen = widen, mb_narrowed_all = True, mb_i8_seen = False, mb_places = []\<rparr>"

text \<open>The binding, what the widen area holds after it, and the bytes of it in use.\<close>

definition k3_bind_layer_mem ::
  "fpu \<Rightarrow> K3Cfg \<Rightarrow> int \<Rightarrow> bytes \<Rightarrow> mem_find \<Rightarrow> bytes \<Rightarrow> nat \<Rightarrow> (('c, 'q, 'd) K3LayerBind \<times> bytes \<times> nat) option" where
  "k3_bind_layer_mem F c L run find' widen cap =
     (let is_mla = k3_is_mla c L; is_dense = k3_is_dense c L
      in case mem_reqs F find' run cap (pl_r (plan_layer c L is_mla is_dense (plan_empty True))) (mem_init widen) of
           None \<Rightarrow> None
         | Some m \<Rightarrow>
             if \<not> mb_narrowed_all m \<and> \<not> mb_i8_seen m then None
             else Some (bind_finish is_mla is_dense (if mb_i8_seen m then K3_WI8 else K3_WBF16)
                    (fold (\<lambda>(dest, pl). dest (read_place run (mb_widen m) pl)) (mb_places m) (bind_zero L)),
                    mb_widen m, mb_w m))"

definition k3_bind_widen_bytes :: "K3Cfg \<Rightarrow> nat" where
  "k3_bind_widen_bytes c =
     (let H = nat (cf_hidden c);
          n = 6 * H + nat (cf_q_lora c) + nat (cf_kv_lora c) + nat (cf_latent c) + nat (cf_n_experts c) * H
      in n * 4 + 4096)"

section \<open>The model-level weights\<close>

record K3ModelBind =
  md_embed :: bytes
  md_lm_head :: bytes
  md_norm :: "f32 list"
  md_out_res_norm :: "f32 list"
  md_out_res_proj :: "f32 list"
  md_wdt :: int

definition plan_model :: "K3Cfg \<Rightarrow> bool \<Rightarrow> K3ModelBind BindPlan \<Rightarrow> K3ModelBind BindPlan" where
  "plan_model c want_lm_head p =
     (let H = cf_hidden c; nm = (\<lambda>s. ''language_model.model.'' @ s) in
      fold (\<lambda>r. r)
      ([reqn (\<lambda>v m. m\<lparr>md_embed := v\<rparr>) (cf_vocab c * H) (nm ''embed_tokens.weight''),
       reqw (\<lambda>v m. m\<lparr>md_norm := v\<rparr>) H (-1) (nm ''norm.weight''),
       reqw (\<lambda>v m. m\<lparr>md_out_res_norm := v\<rparr>) H (-1) (nm ''output_attn_res_norm.weight''),
       reqw (\<lambda>v m. m\<lparr>md_out_res_proj := v\<rparr>) H (-1) (nm ''output_attn_res_proj.weight'')] @
      (if want_lm_head then [reqn (\<lambda>v m. m\<lparr>md_lm_head := v\<rparr>) (cf_vocab c * H) ''language_model.lm_head.weight''] else [])) p)"

definition k3_bind_model :: "K3St \<Rightarrow> Disk \<Rightarrow> (nat \<Rightarrow> 8 word) \<Rightarrow> K3Cfg \<Rightarrow> bool \<Rightarrow> K3ModelBind option" where
  "k3_bind_model s dk mem c want_lm_head =
     map_option (\<lambda>(m, wdt). m\<lparr>md_wdt := wdt\<rparr>)
       (load_whole s dk mem (\<lambda>ok. plan_model c want_lm_head (plan_empty ok))
          \<lparr>md_embed = [], md_lm_head = [], md_norm = [], md_out_res_norm = [], md_out_res_proj = [], md_wdt = 0\<rparr>)"

end
