(* ===== verification/K3_Trunk.thy ===== *)
theory K3_Trunk
  imports K3_Bind
begin

text \<open>
  The streamed trunk, \<open>src/io/k3_trunk.c\<close>: a prefix of the layers is pinned, the others pass through a ring of slots that
  a reader thread fills ahead of the computation. Every critical section is a function on the state; the two threads
  are interleaved by \<open>trunk_step\<close>, down to the single \<open>pread\<close>.

  A slot or a pinned buffer is the list of its bytes. \<open>-1\<close> in a table is \<open>None\<close>. The mutex makes the critical
  sections atomic; the condition variable is a guard. The time stamps are not modelled.
\<close>

section \<open>The table of contents\<close>

record K3TrunkTensor =
  tt_name :: cstr
  tt_off :: int
  tt_nbytes :: int
  tt_dtype :: K3Dtype

record K3TrunkLayer =
  tl_file_off :: int
  tl_nbytes :: int
  tl_t :: "K3TrunkTensor list"

definition K3_TRUNK_ALIGN :: nat where
  "K3_TRUNK_ALIGN = 4096"

definition dt_of :: "cstr \<Rightarrow> K3Dtype" where
  "dt_of s =
     (if s = ''BF16'' then K3_DT_BF16
      else if s = ''F32'' then K3_DT_F32
      else if s = ''U8'' then K3_DT_U8
      else if s = ''F16'' then K3_DT_F16
      else if s = ''I8R'' then K3_DT_I8R
      else K3_DT_UNKNOWN)"

text \<open>\<open>(int64_t)num\<close>: truncation, and the smallest value when the number does not fit.\<close>

definition i64_of_d :: "f64 \<Rightarrow> int" where
  "i64_of_d x =
     (case f64_val x of
        Fin s m e \<Rightarrow> (let n = signed s (if 0 \<le> e then m * 2 ^ nat e else m div 2 ^ nat (- e))
                      in if - (2 ^ 63) \<le> n \<and> n < 2 ^ 63 then n else - (2 ^ 63))
      | _ \<Rightarrow> - (2 ^ 63))"

definition num_field :: "jval \<Rightarrow> cstr \<Rightarrow> int" where
  "num_field v key = (case json_get v key of Some (J_NUM x) \<Rightarrow> i64_of_d x | _ \<Rightarrow> 0)"

definition trunk_tensor :: "cstr \<times> jval \<Rightarrow> K3TrunkTensor" where
  "trunk_tensor = (\<lambda>(name, v).
     \<lparr>tt_name = name, tt_off = num_field v ''off'', tt_nbytes = num_field v ''nbytes'',
      tt_dtype = (case json_get v ''dtype'' of Some (J_STR s) \<Rightarrow> dt_of s | _ \<Rightarrow> K3_DT_UNKNOWN)\<rparr>)"

fun trunk_layers :: "jval list \<Rightarrow> K3TrunkLayer list option" where
  "trunk_layers [] = Some []"
| "trunk_layers (e # es) =
     (case json_get e ''tensors'' of
        Some (J_OBJ kvs) \<Rightarrow>
          map_option (Cons \<lparr>tl_file_off = num_field e ''file_off'', tl_nbytes = num_field e ''nbytes'', tl_t = map trunk_tensor kvs\<rparr>)
            (trunk_layers es)
      | _ \<Rightarrow> None)"

definition find_in_layer :: "K3TrunkLayer \<Rightarrow> mem_find" where
  "find_in_layer L name =
     map_option (\<lambda>t. (tt_off t, tt_nbytes t, tt_dtype t)) (List.find (\<lambda>t. tt_name t = name) (tl_t L))"

section \<open>Sizing\<close>

text \<open>\<open>(x + 4095) & ~4095\<close>\<close>

definition align_up :: "int \<Rightarrow> int" where
  "align_up x = align_down (x + int K3_TRUNK_ALIGN - 1)"

definition biggest :: "K3TrunkLayer list \<Rightarrow> nat \<Rightarrow> int" where
  "biggest lay npin =
     (let big = fold (\<lambda>l b. if tl_nbytes l > b then tl_nbytes l else b) (drop npin lay) 0
      in if big = 0 then tl_nbytes (last lay) else big)"

definition slot_size :: "K3TrunkLayer list \<Rightarrow> int \<Rightarrow> nat \<Rightarrow> int" where
  "slot_size lay widen npin = align_up (align_up (biggest lay npin) + widen)"

text \<open>Two slots if they fit the budget, else one.\<close>

definition ring_count :: "int \<Rightarrow> int \<Rightarrow> nat" where
  "ring_count rs budget = (if 2 * rs > budget then 1 else 2)"

text \<open>The layers that fit beside the ring, as a prefix, and what is spent.\<close>

fun pin_prefix :: "K3TrunkLayer list \<Rightarrow> int \<Rightarrow> int \<Rightarrow> int \<Rightarrow> nat \<times> int" where
  "pin_prefix [] widen budget sp = (0, sp)"
| "pin_prefix (l # ls) widen budget sp =
     (if sp + (tl_nbytes l + widen) > budget then (0, sp)
      else case pin_prefix ls widen budget (sp + (tl_nbytes l + widen)) of (n, sp') \<Rightarrow> (n + 1, sp'))"

record Sizes =
  sz_slot :: int
  sz_npin :: nat
  sz_ring :: nat
  sz_spent :: int

definition size_pass :: "K3TrunkLayer list \<Rightarrow> int \<Rightarrow> int \<Rightarrow> nat \<Rightarrow> Sizes" where
  "size_pass lay widen budget npin =
     (let rs = slot_size lay widen npin; ring = ring_count rs budget
      in case pin_prefix lay widen budget (int ring * rs) of
           (np, sp) \<Rightarrow> \<lparr>sz_slot = rs, sz_npin = np, sz_ring = ring, sz_spent = sp\<rparr>)"

text \<open>
  At most four passes, until ring size and pin count no longer change. \<open>sz_spent\<close> is the account the code keeps; each
  allocation of \<open>k3_alloc_direct\<close> is rounded up to 2 MB on top of it.
\<close>

fun size_loop :: "nat \<Rightarrow> K3TrunkLayer list \<Rightarrow> int \<Rightarrow> int \<Rightarrow> Sizes \<Rightarrow> Sizes" where
  "size_loop 0 lay widen budget z = z"
| "size_loop (Suc n) lay widen budget z =
     (let z' = size_pass lay widen budget (sz_npin z)
      in if sz_slot z' = sz_slot z \<and> sz_npin z' = sz_npin z then z' else size_loop n lay widen budget z')"

definition trunk_sizes :: "K3TrunkLayer list \<Rightarrow> int \<Rightarrow> int \<Rightarrow> Sizes" where
  "trunk_sizes lay widen budget = size_loop 4 lay widen budget \<lparr>sz_slot = 0, sz_npin = 0, sz_ring = 2, sz_spent = 0\<rparr>"

section \<open>State\<close>

record K3TrunkIO =
  io_stop :: bool
  io_busy :: bool
  io_done :: bool
  io_layer :: nat
  io_slot :: nat
  io_result :: int

record K3Trunk =
  tr_lay :: "K3TrunkLayer list"
  tr_pin :: "bytes list"
  tr_arena :: "bytes list"
  tr_widen_bytes :: nat
  tr_nslot :: nat
  tr_npin :: nat
  tr_layer_of :: "nat option list"
  tr_slot_of :: "nat option list"
  tr_ring :: nat
  tr_io :: "K3TrunkIO option"
  tr_hits :: nat
  tr_misses :: nat

text \<open>
  The state after opening; \<open>mem\<close> is what the allocations hold. The reader exists only beside a second slot.
\<close>

definition trunk_init :: "K3TrunkLayer list \<Rightarrow> nat \<Rightarrow> Sizes \<Rightarrow> (nat \<Rightarrow> 8 word) \<Rightarrow> K3Trunk" where
  "trunk_init lay widen z mem =
     \<lparr>tr_lay = lay,
      tr_pin = map (\<lambda>l. map mem [0..<nat (align_up (tl_nbytes l)) + widen]) (take (sz_npin z) lay),
      tr_arena = replicate (sz_ring z) (map mem [0..<nat (sz_slot z)]),
      tr_widen_bytes = widen, tr_nslot = sz_ring z, tr_npin = sz_npin z,
      tr_layer_of = replicate (sz_ring z) None, tr_slot_of = replicate (length lay) None, tr_ring = 0,
      tr_io = (if sz_ring z \<ge> 2 then Some \<lparr>io_stop = False, io_busy = False, io_done = False, io_layer = 0, io_slot = 0, io_result = 0\<rparr>
               else None),
      tr_hits = 0, tr_misses = 0\<rparr>"

text \<open>\<open>root\<close> is the parsed \<open>trunk.json\<close>, \<open>opened\<close> whether \<open>trunk.bin\<close> could be opened, directly or buffered.\<close>

definition k3_trunk_open :: "K3Cfg \<Rightarrow> jval option \<Rightarrow> bool \<Rightarrow> int \<Rightarrow> (nat \<Rightarrow> 8 word) \<Rightarrow> K3Trunk option" where
  "k3_trunk_open c root opened budget mem =
     (case root of
        None \<Rightarrow> None
      | Some r \<Rightarrow>
          (case json_get r ''layers'' of
             Some (J_ARR kids) \<Rightarrow>
               (case trunk_layers kids of
                  None \<Rightarrow> None
                | Some lay \<Rightarrow>
                    if \<not> opened then None
                    else let widen = k3_bind_widen_bytes c
                         in Some (trunk_init lay widen (trunk_sizes lay (int widen) budget) mem))
           | _ \<Rightarrow> None))"

section \<open>Buffers and the ring\<close>

datatype buf = Pin nat | Slot nat

fun buffer :: "K3Trunk \<Rightarrow> buf \<Rightarrow> bytes" where
  "buffer tr (Pin i) = tr_pin tr ! i"
| "buffer tr (Slot s) = tr_arena tr ! s"

fun set_buffer :: "buf \<Rightarrow> bytes \<Rightarrow> K3Trunk \<Rightarrow> K3Trunk" where
  "set_buffer (Pin i) b tr = tr\<lparr>tr_pin := (tr_pin tr)[i := b]\<rparr>"
| "set_buffer (Slot s) b tr = tr\<lparr>tr_arena := (tr_arena tr)[s := b]\<rparr>"

definition n_lay :: "K3Trunk \<Rightarrow> nat" where
  "n_lay tr = length (tr_lay tr)"

definition run_len :: "K3Trunk \<Rightarrow> nat \<Rightarrow> nat" where
  "run_len tr L = nat (tl_nbytes (tr_lay tr ! L))"

text \<open>One \<open>pread\<close> of \<open>load_run\<close>, of which the kernel returns at most \<open>chunk\<close> bytes; nothing is an error or the end of file.\<close>

definition load_read :: "bytes \<Rightarrow> K3Trunk \<Rightarrow> nat \<Rightarrow> nat \<Rightarrow> nat \<Rightarrow> bytes" where
  "load_read file tr L got chunk = pread file (run_len tr L - got) (nat (tl_file_off (tr_lay tr ! L)) + got) chunk"

definition load_put :: "buf \<Rightarrow> nat \<Rightarrow> bytes \<Rightarrow> K3Trunk \<Rightarrow> K3Trunk" where
  "load_put bf got r tr = set_buffer bf (splice (buffer tr bf) got r) tr"

text \<open>The next slot of the ring, emptied: the slot, and the state with the ring advanced.\<close>

definition claim :: "K3Trunk \<Rightarrow> nat \<times> K3Trunk" where
  "claim tr =
     (let slot = tr_ring tr
      in (slot, tr\<lparr>tr_ring := (slot + 1) mod tr_nslot tr,
           tr_slot_of := (case tr_layer_of tr ! slot of None \<Rightarrow> tr_slot_of tr | Some l \<Rightarrow> (tr_slot_of tr)[l := None]),
           tr_layer_of := (tr_layer_of tr)[slot := None]\<rparr>))"

definition find_slot :: "K3Trunk \<Rightarrow> nat \<Rightarrow> nat option" where
  "find_slot tr L = List.find (\<lambda>i. tr_layer_of tr ! i = Some L) [0..<tr_nslot tr]"

section \<open>Operations\<close>

definition k3_trunk_prefetch :: "nat \<Rightarrow> K3Trunk \<Rightarrow> K3Trunk" where
  "k3_trunk_prefetch L tr =
     (if L \<ge> n_lay tr \<or> L < tr_npin tr then tr
      else if find_slot tr L \<noteq> None then tr
      else case tr_io tr of
             None \<Rightarrow> tr
           | Some io \<Rightarrow>
               if io_busy io \<or> tr_slot_of tr ! L \<noteq> None then tr
               else case claim tr of
                      (slot, tr1) \<Rightarrow>
                        tr1\<lparr>tr_io := Some (io\<lparr>io_layer := L, io_slot := slot, io_done := False, io_busy := True\<rparr>)\<rparr>)"

text \<open>\<open>trunk_io_wait\<close>: whether the layer is the one being prefetched, and what is done once the read has ended.\<close>

definition awaits :: "K3Trunk \<Rightarrow> nat \<Rightarrow> bool" where
  "awaits tr L = (case tr_io tr of None \<Rightarrow> False | Some io \<Rightarrow> (io_busy io \<or> io_done io) \<and> io_layer io = L)"

definition io_consume :: "nat \<Rightarrow> K3TrunkIO \<Rightarrow> K3Trunk \<Rightarrow> bool \<times> K3Trunk" where
  "io_consume L io tr =
     (let ok = io_result io = 0; tr1 = tr\<lparr>tr_io := Some (io\<lparr>io_done := False\<rparr>)\<rparr>
      in (ok, if ok \<and> \<not> io_stop io
              then tr1\<lparr>tr_layer_of := (tr_layer_of tr)[io_slot io := Some L], tr_slot_of := (tr_slot_of tr)[L := Some (io_slot io)],
                       tr_misses := tr_misses tr + 1\<rparr>
              else tr1))"

text \<open>What \<open>k3_trunk_bind\<close> finds out before any byte is moved.\<close>

datatype entry = E_Fail | E_Wait | E_Ready buf K3Trunk | E_Load buf K3Trunk

definition bind_enter :: "nat \<Rightarrow> K3Trunk \<Rightarrow> entry" where
  "bind_enter L tr =
     (if L \<ge> n_lay tr then E_Fail
      else if L < tr_npin tr then
        if tr_slot_of tr ! L = None then E_Load (Pin L) tr else E_Ready (Pin L) (tr\<lparr>tr_hits := tr_hits tr + 1\<rparr>)
      else if awaits tr L then E_Wait
      else case find_slot tr L of
             Some s \<Rightarrow> E_Ready (Slot s) (tr\<lparr>tr_hits := tr_hits tr + 1\<rparr>)
           | None \<Rightarrow> (case claim tr of (slot, tr1) \<Rightarrow> E_Load (Slot slot) tr1))"

text \<open>A load of its own has ended.\<close>

fun load_done :: "nat \<Rightarrow> buf \<Rightarrow> K3Trunk \<Rightarrow> K3Trunk" where
  "load_done L (Pin i) tr = tr\<lparr>tr_slot_of := (tr_slot_of tr)[L := Some L], tr_misses := tr_misses tr + 1\<rparr>"
| "load_done L (Slot s) tr = tr\<lparr>tr_layer_of := (tr_layer_of tr)[s := Some L], tr_misses := tr_misses tr + 1\<rparr>"

text \<open>The weights are bound in the buffer; the widen area follows the run at the next page.\<close>

definition bind_in :: "fpu \<Rightarrow> K3Cfg \<Rightarrow> nat \<Rightarrow> buf \<Rightarrow> K3Trunk \<Rightarrow> (('c, 'q, 'd) K3LayerBind \<times> K3Trunk) option" where
  "bind_in F c L bf tr =
     (let b = buffer tr bf; l = tr_lay tr ! L; at = nat (align_up (tl_nbytes l))
      in map_option (\<lambda>(w, widen, used). (w, set_buffer bf (take at b @ widen) tr))
           (k3_bind_layer_mem F c (int L) b (find_in_layer l) (drop at b) (tr_widen_bytes tr)))"

section \<open>The two threads\<close>

text \<open>
  The reader is idle or in \<open>load_run\<close>, with its layer, its slot and the bytes it has. The main thread walks the layers:
  it binds one, hints the next, computes, and starts over after the last. While a layer is in use the buffer it is bound
  to and the content that buffer had are kept.
\<close>

datatype 'b loc =
    Want nat
  | Waiting nat
  | Loading nat buf nat
  | Binding nat buf
  | Bound nat buf bytes 'b
  | Computing nat buf bytes 'b
  | Failed

record 'b Walk =
  wk_tr :: K3Trunk
  wk_rd :: "(nat \<times> nat \<times> nat) option"
  wk_pc :: "'b loc"

definition enter :: "nat \<Rightarrow> K3Trunk \<Rightarrow> K3Trunk \<times> 'b loc" where
  "enter L tr =
     (case bind_enter L tr of
        E_Fail \<Rightarrow> (tr, Failed)
      | E_Wait \<Rightarrow> (tr, Waiting L)
      | E_Ready bf tr' \<Rightarrow> (tr', Binding L bf)
      | E_Load bf tr' \<Rightarrow> (tr', Loading L bf 0))"

definition io_finish :: "int \<Rightarrow> K3TrunkIO \<Rightarrow> K3TrunkIO" where
  "io_finish rc io = io\<lparr>io_result := rc, io_done := True, io_busy := False\<rparr>"

inductive trunk_step ::
  "fpu \<Rightarrow> K3Cfg \<Rightarrow> bytes \<Rightarrow> ('c, 'q, 'd) K3LayerBind Walk \<Rightarrow> ('c, 'q, 'd) K3LayerBind Walk \<Rightarrow> bool"
  for F :: fpu and c :: K3Cfg and fl :: bytes where
  rd_take: "tr_io tr = Some io \<Longrightarrow> io_busy io \<Longrightarrow> \<not> io_stop io \<Longrightarrow>
    trunk_step F c fl \<lparr>wk_tr = tr, wk_rd = None, wk_pc = pc\<rparr> \<lparr>wk_tr = tr, wk_rd = Some (io_layer io, io_slot io, 0), wk_pc = pc\<rparr>"
| rd_read: "got < run_len tr L \<Longrightarrow> load_read fl tr L got chunk = r \<Longrightarrow> r \<noteq> [] \<Longrightarrow>
    trunk_step F c fl \<lparr>wk_tr = tr, wk_rd = Some (L, s, got), wk_pc = pc\<rparr>
      \<lparr>wk_tr = load_put (Slot s) got r tr, wk_rd = Some (L, s, got + length r), wk_pc = pc\<rparr>"
| rd_fail: "got < run_len tr L \<Longrightarrow> tr_io tr = Some io \<Longrightarrow>
    trunk_step F c fl \<lparr>wk_tr = tr, wk_rd = Some (L, s, got), wk_pc = pc\<rparr>
      \<lparr>wk_tr = tr\<lparr>tr_io := Some (io_finish (-1) io)\<rparr>, wk_rd = None, wk_pc = pc\<rparr>"
| rd_done: "\<not> got < run_len tr L \<Longrightarrow> tr_io tr = Some io \<Longrightarrow>
    trunk_step F c fl \<lparr>wk_tr = tr, wk_rd = Some (L, s, got), wk_pc = pc\<rparr>
      \<lparr>wk_tr = tr\<lparr>tr_io := Some (io_finish 0 io)\<rparr>, wk_rd = None, wk_pc = pc\<rparr>"
| bind: "enter L tr = (tr', pc') \<Longrightarrow>
    trunk_step F c fl \<lparr>wk_tr = tr, wk_rd = rd, wk_pc = Want L\<rparr> \<lparr>wk_tr = tr', wk_rd = rd, wk_pc = pc'\<rparr>"
| waited: "tr_io tr = Some io \<Longrightarrow> io_done io \<Longrightarrow> io_consume L io tr = (ok, tr') \<Longrightarrow>
    trunk_step F c fl \<lparr>wk_tr = tr, wk_rd = rd, wk_pc = Waiting L\<rparr>
      \<lparr>wk_tr = tr', wk_rd = rd, wk_pc = (if ok then Binding L (Slot (the (tr_slot_of tr' ! L))) else Failed)\<rparr>"
| ld_read: "got < run_len tr L \<Longrightarrow> load_read fl tr L got chunk = r \<Longrightarrow> r \<noteq> [] \<Longrightarrow>
    trunk_step F c fl \<lparr>wk_tr = tr, wk_rd = rd, wk_pc = Loading L bf got\<rparr>
      \<lparr>wk_tr = load_put bf got r tr, wk_rd = rd, wk_pc = Loading L bf (got + length r)\<rparr>"
| ld_fail: "got < run_len tr L \<Longrightarrow>
    trunk_step F c fl \<lparr>wk_tr = tr, wk_rd = rd, wk_pc = Loading L bf got\<rparr> \<lparr>wk_tr = tr, wk_rd = rd, wk_pc = Failed\<rparr>"
| ld_done: "\<not> got < run_len tr L \<Longrightarrow>
    trunk_step F c fl \<lparr>wk_tr = tr, wk_rd = rd, wk_pc = Loading L bf got\<rparr>
      \<lparr>wk_tr = load_done L bf tr, wk_rd = rd, wk_pc = Binding L bf\<rparr>"
| weights: "bind_in F c L bf tr = Some (b, tr') \<Longrightarrow>
    trunk_step F c fl \<lparr>wk_tr = tr, wk_rd = rd, wk_pc = Binding L bf\<rparr> \<lparr>wk_tr = tr', wk_rd = rd, wk_pc = Bound L bf (buffer tr' bf) b\<rparr>"
| no_weights: "bind_in F c L bf tr = (None :: (('c, 'q, 'd) K3LayerBind \<times> K3Trunk) option) \<Longrightarrow>
    trunk_step F c fl \<lparr>wk_tr = tr, wk_rd = rd, wk_pc = Binding L bf\<rparr> \<lparr>wk_tr = tr, wk_rd = rd, wk_pc = Failed\<rparr>"
| hint: "trunk_step F c fl \<lparr>wk_tr = tr, wk_rd = rd, wk_pc = Bound L bf snap b\<rparr>
      \<lparr>wk_tr = k3_trunk_prefetch (L + 1) tr, wk_rd = rd, wk_pc = Computing L bf snap b\<rparr>"
| computed: "trunk_step F c fl \<lparr>wk_tr = tr, wk_rd = rd, wk_pc = Computing L bf snap b\<rparr>
      \<lparr>wk_tr = tr, wk_rd = rd, wk_pc = Want (if L + 1 < n_lay tr then L + 1 else 0)\<rparr>"

inductive_cases trunk_stepE: "trunk_step F c fl w w'"

inductive trunk_reach :: "fpu \<Rightarrow> K3Cfg \<Rightarrow> bytes \<Rightarrow> K3Trunk \<Rightarrow> ('c, 'q, 'd) K3LayerBind Walk \<Rightarrow> bool"
  for F :: fpu and c :: K3Cfg and fl :: bytes and tr :: K3Trunk where
  start: "trunk_reach F c fl tr \<lparr>wk_tr = tr, wk_rd = None, wk_pc = Want 0\<rparr>"
| step: "trunk_reach F c fl tr w \<Longrightarrow> trunk_step F c fl w w' \<Longrightarrow> trunk_reach F c fl tr w'"

end
