(* ===== verification/K3_Bind_Laws.thy ===== *)
theory K3_Bind_Laws
  imports K3_Bind
begin

text \<open>
  Both ways of binding a layer give the weights of the checkpoint: the reads fill disjoint regions of the allocation,
  the widened vectors disjoint regions of the widen area, and a run that is a verbatim copy of the layer's tensors is
  bound to the same weights as the shards themselves.
\<close>

section \<open>What a tensor is worth\<close>

definition t_bytes :: "Disk \<Rightarrow> K3Tensor \<Rightarrow> bytes" where
  "t_bytes dk t = slice (dk_file dk (t_shard t)) (t_off t) (t_nbytes t)"

definition wide_of :: "K3Dtype \<Rightarrow> bytes \<Rightarrow> nat \<Rightarrow> f32 list" where
  "wide_of dt b n = (if dt = K3_DT_F32 then as_f32 b else widen_elems dt b n)"

text \<open>A tensor as the reader enters it: its size agrees with its shape, and its type is one of the checkpoint's.\<close>

definition entry_sized :: "K3Tensor \<Rightarrow> bool" where
  "entry_sized t \<longleftrightarrow> sane t \<and> 0 \<le> k3_st_numel t \<and> t_nbytes t = k3_st_numel t * k3_st_elemsize (t_dtype t) \<and> t_dtype t \<noteq> K3_DT_I8R"

lemma u16_at_take: "2 * i + 1 < n \<Longrightarrow> u16_at (take n b) i = u16_at b i"
  by (simp add: u16_at_def)

lemma u16_at_drop: "d * 2 \<le> length b \<Longrightarrow> u16_at (drop (d * 2) b) i = u16_at b (d + i)"
  by (simp add: u16_at_def algebra_simps)

lemma widen_elems_take:
  assumes "n * nat (k3_st_elemsize dt) \<le> k"
  shows "widen_elems dt (take k b) n = widen_elems dt b n"
  using assms by (auto simp: widen_elems_def u16_at_take split: K3Dtype.split)

lemma widen_elems_add:
  assumes "(d + k) * nat (k3_st_elemsize dt) \<le> length b" "0 < k3_st_elemsize dt" "dt \<noteq> K3_DT_F32"
  shows "widen_elems dt b (d + k) = widen_elems dt b d @ widen_elems dt (drop (d * nat (k3_st_elemsize dt)) b) k"
proof -
  have split: "map f [0..<d + k] = map f [0..<d] @ map (\<lambda>i. f (d + i)) [0..<k]" for f :: "nat \<Rightarrow> f32"
    by (rule nth_equalityI) (auto simp: nth_append)
  show ?thesis
    using assms by (cases dt) (auto simp: widen_elems_def split u16_at_drop)
qed

lemma length_widen_elems: "dt \<noteq> K3_DT_F32 \<Longrightarrow> 0 < k3_st_elemsize dt \<Longrightarrow> length (widen_elems dt b n) = n"
  by (cases dt) (simp_all add: widen_elems_def)

lemma widen_loop_full:
  fixes t dk
  defines "B \<equiv> drop (nat (t_off t)) (dk_file dk (t_shard t))"
  assumes "widen_loop dk t (nat (k3_st_elemsize (t_dtype t))) chunk n d out = (n, out')" "out = widen_elems (t_dtype t) B d"
    "0 \<le> t_off t" "0 < k3_st_elemsize (t_dtype t)" "t_dtype t \<noteq> K3_DT_F32" "d \<le> n"
    "d * nat (k3_st_elemsize (t_dtype t)) \<le> length B"
  shows "out' = widen_elems (t_dtype t) B n \<and> n * nat (k3_st_elemsize (t_dtype t)) \<le> length B"
  using assms(2-) unfolding B_def
proof (induction dk t "nat (k3_st_elemsize (t_dtype t))" chunk n d out rule: widen_loop.induct)
  case (1 dk t chunk n d out)
  let ?esz = "nat (k3_st_elemsize (t_dtype t))" and ?B = "drop (nat (t_off t)) (dk_file dk (t_shard t))"
  show ?case
  proof (cases "d < n \<and> 0 < chunk")
    case True
    define k where "k = min (n - d) chunk"
    define raw where "raw = read_loop (dk_file dk (t_shard t)) (nat (t_off t + int (d * ?esz))) (k * ?esz)
      (dk_chunks dk (t_shard t) (t_off t + int (d * ?esz))) []"
    have full: "\<not> length raw < k * ?esz"
    proof
      assume "length raw < k * ?esz"
      then have "widen_loop dk t ?esz chunk n d out = (d, out)"
        using True by (subst widen_loop.simps) (simp add: Let_def k_def raw_def)
      then show False using 1(2) True by simp
    qed
    then have rec: "widen_loop dk t ?esz chunk n (d + k) (out @ widen_elems (t_dtype t) raw k) = (n, out')"
      using 1(2) True by (subst (asm) widen_loop.simps) (simp add: Let_def k_def raw_def)
    have "raw = take (k * ?esz) (drop (nat (t_off t + int (d * ?esz))) (dk_file dk (t_shard t)))"
      using full read_loop_slice [of "dk_file dk (t_shard t)" "nat (t_off t + int (d * ?esz))" "k * ?esz"]
      unfolding raw_def by (intro read_loop_full) (meson le_antisym not_less)
    moreover have "nat (t_off t + int (d * ?esz)) = d * ?esz + nat (t_off t)" using 1(4) by (simp add: nat_add_distrib del: of_nat_mult)
    ultimately have raw: "raw = take (k * ?esz) (drop (d * ?esz) ?B)" by simp
    then have "length raw \<le> length ?B - d * ?esz" by (metis length_drop length_take min.cobounded1)
    then have len: "(d + k) * ?esz \<le> length ?B" using full 1(8) unfolding add_mult_distrib by linarith
    have "out @ widen_elems (t_dtype t) raw k = widen_elems (t_dtype t) ?B (d + k)"
      using 1(3) widen_elems_add [OF len 1(5,6)] by (simp add: raw widen_elems_take)
    then show ?thesis
      using 1(1) [OF True k_def _ raw_def full rec] 1(4-6) len k_def True by auto
  next
    case False
    then have "n = d \<and> out' = out" using 1(2,7) by (subst (asm) widen_loop.simps) auto
    then show ?thesis using 1(3,8) by simp
  qed
qed

lemma read_full:
  assumes "sane t" "int (length (k3_st_read dk t)) = t_nbytes t"
  shows "k3_st_read dk t = t_bytes dk t"
  using assms unfolding k3_st_read_def t_bytes_def slice_def by (intro read_loop_full) simp

text \<open>A widening read that reports every element delivered them all.\<close>

lemma read_f32_full:
  assumes t: "entry_sized t" "0 \<le> k3_st_numel t" and r: "k3_st_read_f32 dk t = (k3_st_numel t, fs)"
  shows "fs = wide_of (t_dtype t) (t_bytes dk t) (nat (k3_st_numel t)) \<and> length fs = nat (k3_st_numel t)"
proof (cases "t_dtype t = K3_DT_F32")
  case True
  let ?b = "k3_st_read dk t"
  have nb: "t_nbytes t = 4 * k3_st_numel t" "int (length ?b) div 4 = k3_st_numel t" "fs = as_f32 ?b"
    using t r True by (auto simp: entry_sized_def k3_st_read_f32_def Let_def)
  have "length ?b \<le> nat (t_nbytes t)" unfolding k3_st_read_def using read_loop_slice by blast
  then have "int (length ?b) = t_nbytes t" using nb(1,2) t(2) by linarith
  then have "?b = t_bytes dk t" using read_full t(1) by (simp add: entry_sized_def)
  moreover have "length (as_f32 ?b) = nat (k3_st_numel t)" using nb(2) by (simp add: as_f32_def)
  ultimately show ?thesis using nb(3) True by (simp add: wide_of_def)
next
  case False
  let ?e = "k3_st_elemsize (t_dtype t)" and ?n = "nat (k3_st_numel t)"
  show ?thesis
  proof (cases "?e \<le> 0")
    case True
    then have "t_dtype t = K3_DT_UNKNOWN \<or> t_dtype t = K3_DT_I8R" using False by (cases "t_dtype t") auto
    then show ?thesis using r by (auto simp: k3_st_read_f32_def Let_def wide_of_def widen_elems_def)
  next
    case pos: False
    let ?B = "drop (nat (t_off t)) (dk_file dk (t_shard t))"
    obtain d where w: "widen_loop dk t (nat ?e) (K3_WIDEN_CHUNK div nat ?e) ?n 0 [] = (d, fs)" "d = ?n"
      using r False pos t(2) by (auto simp: k3_st_read_f32_def Let_def split: prod.splits if_splits)
    have "fs = widen_elems (t_dtype t) ?B ?n"
      using widen_loop_full [of dk t _ ?n 0 "[]" fs] w False pos t(1)
      by (cases "t_dtype t") (auto simp: entry_sized_def sane_def widen_elems_def)
    moreover have "nat (t_nbytes t) = ?n * nat ?e" using t pos by (simp add: entry_sized_def nat_mult_distrib)
    ultimately show ?thesis
      using False pos by (simp add: wide_of_def t_bytes_def slice_def widen_elems_take length_widen_elems)
  qed
qed

section \<open>The allocation is filled region by region\<close>

definition resolved :: "'b Req \<Rightarrow> bool" where
  "resolved q \<longleftrightarrow> (\<exists>t. rq_t q = Some t \<and> entry_sized t \<and> 0 \<le> k3_st_numel t \<and> rq_take q \<le> k3_st_numel t \<and>
     (rq_narrow q \<longrightarrow> t_dtype t = K3_DT_BF16 \<and> rq_take q = k3_st_numel t))"

definition payload :: "Disk \<Rightarrow> 'b Req \<Rightarrow> bytes" where
  "payload dk q =
     (let t = the (rq_t q)
      in if rq_narrow q then t_bytes dk t
         else put_words (take (nat (rq_take q)) (wide_of (t_dtype t) (t_bytes dk t) (nat (k3_st_numel t)))))"

lemma load_req_ok:
  assumes q: "resolved q" and r: "load_req dk q blob = Some blob'"
  shows "blob' = splice blob (rq_off q) (payload dk q)" "length (payload dk q) = req_size q"
proof -
  obtain t where t: "rq_t q = Some t" "entry_sized t" "0 \<le> k3_st_numel t" "rq_take q \<le> k3_st_numel t"
    "rq_narrow q \<longrightarrow> t_dtype t = K3_DT_BF16 \<and> rq_take q = k3_st_numel t" using q by (auto simp: resolved_def)
  have "blob' = splice blob (rq_off q) (payload dk q) \<and> length (payload dk q) = req_size q"
  proof (cases "rq_narrow q")
    case True
    have l: "int (length (k3_st_read dk t)) = t_nbytes t" "blob' = splice blob (rq_off q) (k3_st_read dk t)"
      using r True t(1) by (auto simp: load_req_def Let_def split: if_splits)
    moreover have "k3_st_read dk t = t_bytes dk t" using read_full l(1) t(2) by (simp add: entry_sized_def)
    moreover have "t_nbytes t = rq_take q * 2" "0 \<le> rq_take q" using True t by (auto simp: entry_sized_def)
    ultimately show ?thesis using True t(1) by (simp add: payload_def req_size_def nat_mult_distrib)
  next
    case False
    obtain fs where f: "k3_st_read_f32 dk t = (k3_st_numel t, fs)"
      "blob' = splice blob (rq_off q) (put_words (if rq_take q = k3_st_numel t then fs else take (nat (rq_take q)) fs))"
      using r False t(1) by (auto simp: load_req_def Let_def split: if_splits prod.splits)
    have "fs = wide_of (t_dtype t) (t_bytes dk t) (nat (k3_st_numel t))" "length fs = nat (k3_st_numel t)"
      using read_f32_full [OF t(2,3) f(1)] by auto
    then show ?thesis using False f(2) t(1,3,4) by (auto simp: payload_def req_size_def)
  qed
  then show "blob' = splice blob (rq_off q) (payload dk q)" "length (payload dk q) = req_size q" by auto
qed

text \<open>The regions of a plan follow each other, from \<open>off\<close> to \<open>e\<close>.\<close>

fun laid :: "nat \<Rightarrow> 'b Req list \<Rightarrow> nat \<Rightarrow> bool" where
  "laid off [] e \<longleftrightarrow> off \<le> e"
| "laid off (q # qs) e \<longleftrightarrow> off \<le> rq_off q \<and> laid (rq_off q + req_size q) qs e"

lemma laid_le: "laid off qs e \<Longrightarrow> off \<le> e"
  by (induction qs arbitrary: off) fastforce+

lemma seg_within: "a + n \<le> k \<Longrightarrow> take k x = take k y \<Longrightarrow> seg x a n = seg y a n"
proof -
  assume "a + n \<le> k" and eq: "take k x = take k y"
  then have t: "seg z a n = seg (take k z) a n" for z by (simp add: seg_def drop_take min_def)
  show ?thesis unfolding t [of x] t [of y] eq ..
qed

lemma seg_splice: "a + length y \<le> length x \<Longrightarrow> seg (splice x a y) a (length y) = y"
  by (simp add: seg_def splice_def min_def)

lemma plan_load_ok:
  assumes "plan_load dk qs blob = Some blob'" "list_all resolved qs" "laid off qs e" "e \<le> length blob"
  shows "length blob' = length blob \<and> take off blob' = take off blob \<and>
    (\<forall>q\<in>set qs. seg blob' (rq_off q) (req_size q) = payload dk q)"
  using assms
proof (induction qs arbitrary: blob off)
  case (Cons q qs)
  obtain b1 where b1: "load_req dk q blob = Some b1" "plan_load dk qs b1 = Some blob'"
    using Cons.prems(1) by (auto split: option.splits)
  have q: "resolved q" using Cons.prems(2) by simp
  note b = load_req_ok [OF q b1(1)]
  have lay: "off \<le> rq_off q" "laid (rq_off q + req_size q) qs e" using Cons.prems(3) by auto
  then have fits: "rq_off q + req_size q \<le> length blob" using laid_le Cons.prems(4) by fastforce
  then have len: "length b1 = length blob" using b by (simp add: length_splice)
  then have IH: "length blob' = length b1 \<and> take (rq_off q + req_size q) blob' = take (rq_off q + req_size q) b1 \<and>
      (\<forall>q\<in>set qs. seg blob' (rq_off q) (req_size q) = payload dk q)"
    using Cons.IH [OF b1(2) _ lay(2)] Cons.prems(2,4) by simp
  have "seg blob' (rq_off q) (req_size q) = seg b1 (rq_off q) (req_size q)" using IH seg_within [OF order_refl] by blast
  also have "\<dots> = payload dk q" using b fits seg_splice by metis
  finally have "seg blob' (rq_off q) (req_size q) = payload dk q" .
  moreover have "take off blob' = take off blob"
  proof -
    have t: "take off z = take off (take (rq_off q + req_size q) z)" for z :: bytes using lay(1) by (simp add: min_def)
    have "take off blob' = take off b1" unfolding t [of blob'] t [of b1] using IH by simp
    also have "\<dots> = take off blob" unfolding b(1) using lay(1) fits b(2) by (simp add: take_splice)
    finally show ?thesis .
  qed
  ultimately show ?case using IH len by simp
qed simp

lemma point_all_payload:
  assumes "plan_load dk qs blob = Some blob'" "list_all resolved qs" "laid 0 qs (length blob)"
  shows "point_all blob' qs b = fold (\<lambda>q. rq_dest q (payload dk q)) qs b"
  using plan_load_ok [OF assms order_refl] unfolding point_all_def by (intro fold_cong) auto

section \<open>Resolution\<close>

text \<open>What resolution makes of a request.\<close>

definition refines :: "K3St \<Rightarrow> 'b Req \<Rightarrow> 'b Req \<Rightarrow> bool" where
  "refines s q q' \<longleftrightarrow> rq_dest q' = rq_dest q \<and> rq_take q' = rq_take q \<and> resolved q' \<and>
     (\<exists>t. k3_st_find s (rq_name q) = Some t \<and> rq_t q' = Some t \<and> (rq_want q \<ge> 0 \<longrightarrow> k3_st_numel t = rq_want q) \<and>
       rq_narrow q' = (rq_narrow q \<and> t_dtype t = K3_DT_BF16))"

definition demotes :: "K3St \<Rightarrow> 'b Req \<Rightarrow> bool" where
  "demotes s q \<longleftrightarrow> rq_narrow q \<and> (\<exists>t. k3_st_find s (rq_name q) = Some t \<and> t_dtype t \<noteq> K3_DT_BF16)"

definition well_sized :: "K3St \<Rightarrow> bool" where
  "well_sized s \<longleftrightarrow> st_sane s \<and> list_all entry_sized (st_t s)"

lemma find_sized: "well_sized s \<Longrightarrow> k3_st_find s name = Some t \<Longrightarrow> entry_sized t"
  using find_in_table unfolding well_sized_def list_all_iff by blast

lemma resolve_req_ok:
  assumes "well_sized s" "resolve_req s q = Some (q', dem)"
  shows "refines s q (q'\<lparr>rq_off := o'\<rparr>) \<and> dem = demotes s q"
proof -
  obtain t where t: "k3_st_find s (rq_name q) = Some t" using assms(2) by (auto simp: resolve_req_def split: option.splits)
  then have "entry_sized t" "0 \<le> k3_st_numel t" using find_sized [OF assms(1)] by (auto simp: entry_sized_def)
  then show ?thesis
    using assms(2) t by (auto simp: resolve_req_def refines_def resolved_def demotes_def Let_def split: if_splits)
qed

lemma align8_le: "x \<le> align8 x"
  unfolding align8_def by presburger

lemma resolve_reqs_ok:
  assumes "well_sized s" "resolve_reqs s qs off = (rs, e, 0, d)"
  shows "list_all2 (refines s) qs rs \<and> laid off rs e \<and> (d = 0 \<longleftrightarrow> \<not> list_ex (demotes s) qs)"
  using assms(2)
proof (induction qs arbitrary: off rs d)
  case (Cons q qs)
  obtain q' dem where q: "resolve_req s q = Some (q', dem)"
    using Cons.prems by (auto split: option.splits prod.splits)
  obtain rs1 d1 where r: "resolve_reqs s qs (align8 off + req_size q') = (rs1, e, 0, d1)"
    "rs = q'\<lparr>rq_off := align8 off\<rparr> # rs1" "d = d1 + (if dem then 1 else 0)"
    using Cons.prems q by (auto simp: Let_def split: prod.splits)
  have "req_size (q'\<lparr>rq_off := align8 off\<rparr>) = req_size q'" by (simp add: req_size_def)
  then show ?case
    using Cons.IH [OF r(1)] resolve_req_ok [OF assms(1) q, of "align8 off"] align8_le [of off] r(2,3) by auto
qed simp

text \<open>What binding from the shards gives: the payloads, in the format the plan settled on.\<close>

definition clean :: "(bool \<Rightarrow> 'b BindPlan) \<Rightarrow> bool" where
  "clean plan \<longleftrightarrow> (\<forall>ok. pl_bad (plan ok) = 0 \<and> pl_demoted (plan ok) = 0 \<and> pl_narrow_ok (plan ok) = ok)"

lemma plan_resolve_ok:
  assumes "well_sized s" "plan_resolve s p = (need, p')" "0 \<le> need"
  shows "list_all2 (refines s) (pl_r p) (pl_r p')" "laid 0 (pl_r p') (nat need)" "pl_narrow_ok p' = pl_narrow_ok p"
    "pl_demoted p = 0 \<Longrightarrow> pl_demoted p' = 0 \<longleftrightarrow> \<not> list_ex (demotes s) (pl_r p)"
proof -
  obtain rs e d where r: "resolve_reqs s (pl_r p) 0 = (rs, e, 0, d)" "need = int e" "p' = p\<lparr>pl_r := rs, pl_demoted := pl_demoted p + d\<rparr>"
    using assms(2,3) by (auto simp: plan_resolve_def Let_def split: prod.splits if_splits)
  note k = resolve_reqs_ok [OF assms(1) r(1)]
  show "list_all2 (refines s) (pl_r p) (pl_r p')" "laid 0 (pl_r p') (nat need)" "pl_narrow_ok p' = pl_narrow_ok p"
    "pl_demoted p = 0 \<Longrightarrow> pl_demoted p' = 0 \<longleftrightarrow> \<not> list_ex (demotes s) (pl_r p)"
    using k r(2,3) by simp_all
qed

lemma load_whole_ok:
  assumes s: "well_sized s" and c: "clean plan" and r: "load_whole s dk mem plan b = Some (b', wdt)"
  shows "\<exists>ok rs. list_all2 (refines s) (pl_r (plan ok)) rs \<and> b' = fold (\<lambda>q. rq_dest q (payload dk q)) rs b \<and>
    wdt = (if ok then K3_WBF16 else K3_WF32) \<and> ok = (\<not> list_ex (demotes s) (pl_r (plan True)))"
proof -
  obtain need p blob where p: "resolve_whole s plan = Some (need, p)" "plan_load dk (pl_r p) (map mem [0..<need]) = Some blob"
    "b' = point_all blob (pl_r p) b" "wdt = (if pl_narrow_ok p then K3_WBF16 else K3_WF32)"
    using r by (auto simp: load_whole_def split: option.splits)
  obtain n1 p1 where p1: "plan_resolve s (plan True) = (n1, p1)" "0 \<le> n1"
    using p(1) by (auto simp: resolve_whole_def split: prod.splits if_splits)
  note k1 = plan_resolve_ok [OF s p1]
  have "\<exists>ok. list_all2 (refines s) (pl_r (plan ok)) (pl_r p) \<and> laid 0 (pl_r p) need \<and> pl_narrow_ok p = ok \<and>
      ok = (\<not> list_ex (demotes s) (pl_r (plan True)))"
  proof (cases "pl_demoted p1 = 0")
    case True
    then have "need = nat n1" "p = p1" using p(1) p1 by (auto simp: resolve_whole_def split: if_splits)
    then show ?thesis using k1 True c by (auto simp: clean_def)
  next
    case False
    then obtain n2 where p2: "plan_resolve s (plan False) = (n2, p)" "0 \<le> n2" "need = nat n2"
      using p(1) p1 by (auto simp: resolve_whole_def split: if_splits prod.splits)
    then show ?thesis using plan_resolve_ok [OF s p2(1,2)] k1(4) False c by (auto simp: clean_def)
  qed
  then obtain ok where ok: "list_all2 (refines s) (pl_r (plan ok)) (pl_r p)" "laid 0 (pl_r p) need" "pl_narrow_ok p = ok"
    "ok = (\<not> list_ex (demotes s) (pl_r (plan True)))" by blast
  have "list_all resolved (pl_r p)"
    using ok(1) by (auto simp: list_all_length list_all2_conv_all_nth refines_def)
  then have "b' = fold (\<lambda>q. rq_dest q (payload dk q)) (pl_r p) b"
    using point_all_payload [OF p(2)] ok(2) p(3) by simp
  then show ?thesis using ok p(4) by auto
qed

section \<open>A packed run\<close>

text \<open>The run holds a verbatim copy of the tensors with these names, and the resolver says where.\<close>

definition packed :: "K3St \<Rightarrow> Disk \<Rightarrow> bytes \<Rightarrow> mem_find \<Rightarrow> cstr list \<Rightarrow> bool" where
  "packed s dk run find' names \<longleftrightarrow>
     (\<forall>name\<in>set names. \<forall>t. k3_st_find s name = Some t \<longrightarrow>
        (\<exists>off. find' name = Some (off, t_nbytes t, t_dtype t) \<and> 0 \<le> off \<and> off + t_nbytes t \<le> int (length run) \<and>
          slice run off (t_nbytes t) = t_bytes dk t))"

text \<open>A pointer of the plan and what it points at, as long as the used part of the widen area is left alone.\<close>

definition well_placed :: "Disk \<Rightarrow> bytes \<Rightarrow> 'b MemBind \<Rightarrow> 'b Req \<Rightarrow> ((bytes \<Rightarrow> 'b \<Rightarrow> 'b) \<times> place) \<Rightarrow> bool" where
  "well_placed dk run m q dp \<longleftrightarrow> fst dp = rq_dest q \<and>
     (\<forall>w. take (mb_w m) w = take (mb_w m) (mb_widen m) \<longrightarrow> read_place run w (snd dp) = payload dk q)"

text \<open>The widen area only grows.\<close>

definition grows :: "'b MemBind \<Rightarrow> 'b MemBind \<Rightarrow> bool" where
  "grows m m' \<longleftrightarrow> mb_w m \<le> mb_w m' \<and> length (mb_widen m') = length (mb_widen m) \<and>
     take (mb_w m) (mb_widen m') = take (mb_w m) (mb_widen m)"

lemma grows_trans: "grows a b \<Longrightarrow> grows b c \<Longrightarrow> grows a c"
  unfolding grows_def by (metis (no_types, lifting) le_trans min.absorb1 take_take)

lemma placed_grows: "well_placed dk run m q dp \<Longrightarrow> grows m m' \<Longrightarrow> well_placed dk run m' q dp"
  unfolding well_placed_def grows_def by (metis (no_types, lifting) min.absorb1 take_take)

lemma put_wide_ok:
  assumes "put_wide cap q fs m = Some m'" "cap \<le> length (mb_widen m)"
  shows "grows m m'" "mb_places m' = mb_places m @ [(rq_dest q, InWiden (align8 (mb_w m)) (length fs * 4))]"
    "mb_i8_seen m' = mb_i8_seen m" "mb_narrowed_all m' = mb_narrowed_all m"
    "take (mb_w m') w = take (mb_w m') (mb_widen m') \<Longrightarrow> read_place run w (InWiden (align8 (mb_w m)) (length fs * 4)) = put_words fs"
proof -
  let ?w = "align8 (mb_w m)"
  have m': "m' = point_at_place q (InWiden ?w (length fs * 4)) (m\<lparr>mb_widen := splice (mb_widen m) ?w (put_words fs), mb_w := ?w + length fs * 4\<rparr>)"
    and fits: "?w + length fs * 4 \<le> length (mb_widen m)"
    using assms by (auto simp: put_wide_def Let_def split: if_splits)
  then show "grows m m'" using align8_le [of "mb_w m"]
    by (simp add: grows_def point_at_place_def length_splice take_splice mult.commute)
  show "mb_places m' = mb_places m @ [(rq_dest q, InWiden ?w (length fs * 4))]"
    "mb_i8_seen m' = mb_i8_seen m" "mb_narrowed_all m' = mb_narrowed_all m" by (simp_all add: m' point_at_place_def)
  assume "take (mb_w m') w = take (mb_w m') (mb_widen m')"
  then have "seg w ?w (length fs * 4) = seg (mb_widen m') ?w (length fs * 4)"
    by (intro seg_within [of _ _ "mb_w m'"]) (simp_all add: m' point_at_place_def)
  also have "\<dots> = put_words fs"
    using seg_splice [of ?w "put_words fs" "mb_widen m"] fits by (simp add: m' point_at_place_def mult.commute)
  finally show "read_place run w (InWiden ?w (length fs * 4)) = put_words fs" by simp
qed

lemma slice_seg: "0 \<le> off \<Longrightarrow> k \<le> nat n \<Longrightarrow> take k (slice run off n) = seg run (nat off) k"
  by (simp add: slice_def seg_def min_def)

lemma mem_req_ok:
  assumes r: "mem_req F find' run cap q m = Some m'" "cap \<le> length (mb_widen m)"
    and q: "refines s q q'" and s: "well_sized s" and pk: "packed s dk run find' (rq_name q # ns)"
  shows "grows m m' \<and> mb_i8_seen m' = mb_i8_seen m \<and> (mb_narrowed_all m' \<longrightarrow> mb_narrowed_all m \<and> \<not> demotes s q) \<and>
    (\<exists>dp. mb_places m' = mb_places m @ [dp] \<and> (\<not> demotes s q \<longrightarrow> well_placed dk run m' q' dp))"
proof -
  obtain t where a: "k3_st_find s (rq_name q) = Some t" "rq_t q' = Some t" "rq_narrow q' = (rq_narrow q \<and> t_dtype t = K3_DT_BF16)"
    "rq_dest q' = rq_dest q" "rq_take q' = rq_take q" "resolved q'" using q unfolding refines_def by blast
  then have "rq_take q \<le> k3_st_numel t" by (auto simp: resolved_def)
  note t = a(1-5) this
  obtain off where off: "find' (rq_name q) = Some (off, t_nbytes t, t_dtype t)" "0 \<le> off" "off + t_nbytes t \<le> int (length run)"
    "slice run off (t_nbytes t) = t_bytes dk t" using pk t(1) by (auto simp: packed_def)
  have z: "0 \<le> k3_st_numel t" "t_nbytes t = k3_st_numel t * k3_st_elemsize (t_dtype t)" "t_dtype t \<noteq> K3_DT_I8R"
    using find_sized [OF s t(1)] by (auto simp: entry_sized_def)
  have len: "length (t_bytes dk t) = nat (t_nbytes t)" using off(2-4) z(2)
    unfolding off(4) [symmetric] slice_def by auto
  have dem: "demotes s q \<longleftrightarrow> rq_narrow q \<and> t_dtype t \<noteq> K3_DT_BF16" using t(1) by (auto simp: demotes_def)
  consider (keep) "rq_narrow q" "t_dtype t = K3_DT_BF16" "m' = point_at_place q (InRun (nat off) (nat (t_nbytes t))) m"
    | (f32) "t_dtype t = K3_DT_F32" "m' = point_at_place q (InRun (nat off) (nat (rq_take q) * 4)) (if rq_narrow q then m\<lparr>mb_narrowed_all := False\<rparr> else m)"
    | (bf16) "\<not> rq_narrow q" "t_dtype t = K3_DT_BF16"
        "put_wide cap q (map (\<lambda>k. k3_bf16f (u16_at (drop (nat off) run) k)) [0..<nat (rq_take q)]) m = Some m'"
    using r(1) off(1) z(3) by (auto simp: mem_req_def Let_def split: if_splits)
  then show ?thesis
  proof cases
    case keep
    then have "payload dk q' = seg run (nat off) (nat (t_nbytes t))"
      using t off slice_seg [of off "nat (t_nbytes t)" "t_nbytes t" run] len by (simp add: payload_def)
    then show ?thesis using keep t(4) by (simp add: grows_def point_at_place_def well_placed_def dem)
  next
    case f32
    then have "t_nbytes t = 4 * k3_st_numel t" using z(2) by simp
    then have "4 * nat (rq_take q) \<le> length (t_bytes dk t)" "4 * nat (rq_take q) \<le> nat (t_nbytes t)" using len t(6) z(1) by auto
    then have "payload dk q' = seg run (nat off) (nat (rq_take q) * 4)"
      using f32 t(2,3,5) off(2,4) put_words_as_f32 slice_seg [of off "4 * nat (rq_take q)" "t_nbytes t" run]
      by (simp add: payload_def wide_of_def mult.commute)
    then show ?thesis using f32 t(4) by (auto simp: grows_def point_at_place_def well_placed_def dem)
  next
    case bf16
    note w = put_wide_ok [OF bf16(3) r(2)]
    have nb: "nat (t_nbytes t) = 2 * nat (k3_st_numel t)" using z(1,2) bf16(2) by (simp add: nat_mult_distrib)
    have "u16_at (t_bytes dk t) k = u16_at (drop (nat off) run) k" if "k < nat (rq_take q)" for k
      unfolding off(4) [symmetric] slice_def using that t(6) nb by (intro u16_at_take) linarith
    then have "map (\<lambda>k. k3_bf16f (u16_at (t_bytes dk t) k)) [0..<nat (rq_take q)] =
        map (\<lambda>k. k3_bf16f (u16_at (drop (nat off) run) k)) [0..<nat (rq_take q)]" by (intro map_cong) auto
    moreover have "payload dk q' = put_words (map (\<lambda>k. k3_bf16f (u16_at (t_bytes dk t) k)) [0..<nat (rq_take q)])"
      using bf16(1,2) t(2,3,5,6) by (simp add: payload_def wide_of_def widen_elems_def take_map min_def)
    ultimately have "payload dk q' = put_words (map (\<lambda>k. k3_bf16f (u16_at (drop (nat off) run) k)) [0..<nat (rq_take q)])" by (simp only:)
    then show ?thesis using w t(4) bf16(1) by (simp add: well_placed_def dem)
  qed
qed

lemma mem_reqs_ok:
  assumes "mem_reqs F find' run cap qs m = Some m'" "cap \<le> length (mb_widen m)" "list_all2 (refines s) qs rs" "well_sized s"
    "packed s dk run find' (map rq_name qs)"
  shows "grows m m' \<and> mb_i8_seen m' = mb_i8_seen m \<and> (mb_narrowed_all m' \<longrightarrow> mb_narrowed_all m \<and> \<not> list_ex (demotes s) qs) \<and>
    (\<exists>dps. mb_places m' = mb_places m @ dps \<and> (\<not> list_ex (demotes s) qs \<longrightarrow> list_all2 (well_placed dk run m') rs dps))"
  using assms
proof (induction qs arbitrary: m rs)
  case (Cons q qs)
  obtain q' rs' where rs: "rs = q' # rs'" "refines s q q'" "list_all2 (refines s) qs rs'"
    using Cons.prems(3) by (auto simp: list_all2_Cons1)
  obtain m1 where m1: "mem_req F find' run cap q m = Some m1" "mem_reqs F find' run cap qs m1 = Some m'"
    using Cons.prems(1) by (auto split: option.splits)
  have pk: "packed s dk run find' (rq_name q # map rq_name qs)" "packed s dk run find' (map rq_name qs)"
    using Cons.prems(5) by (auto simp: packed_def)
  note k = mem_req_ok [OF m1(1) Cons.prems(2) rs(2) assms(4) pk(1)]
  then have "cap \<le> length (mb_widen m1)" using Cons.prems(2) by (simp add: grows_def)
  note IH = Cons.IH [OF m1(2) this rs(3) assms(4) pk(2)]
  obtain dp where dp: "mb_places m1 = mb_places m @ [dp]" "\<not> demotes s q \<longrightarrow> well_placed dk run m1 q' dp" using k by blast
  obtain dps where dps: "mb_places m' = mb_places m1 @ dps" "\<not> list_ex (demotes s) qs \<longrightarrow> list_all2 (well_placed dk run m') rs' dps"
    using IH by blast
  have "\<not> demotes s q \<Longrightarrow> well_placed dk run m' q' dp" using dp(2) placed_grows IH by blast
  then have "mb_places m' = mb_places m @ (dp # dps) \<and> (\<not> list_ex (demotes s) (q # qs) \<longrightarrow> list_all2 (well_placed dk run m') rs (dp # dps))"
    using dp(1) dps rs(1) by simp
  moreover have "grows m m'" using k IH grows_trans by blast
  moreover have "mb_i8_seen m' = mb_i8_seen m" using k IH by simp
  moreover have "mb_narrowed_all m' \<longrightarrow> mb_narrowed_all m \<and> \<not> list_ex (demotes s) (q # qs)" using k IH by simp
  ultimately show ?case by blast
qed (simp add: grows_def)

lemma fold_placed:
  assumes "list_all2 (well_placed dk run m) rs dps"
  shows "fold (\<lambda>(dest, pl). dest (read_place run (mb_widen m) pl)) dps b = fold (\<lambda>q. rq_dest q (payload dk q)) rs b"
  using assms by (induction rs dps arbitrary: b rule: list_all2_induct) (auto simp: well_placed_def)

section \<open>The two bindings agree\<close>

definition is_req :: "('b BindPlan \<Rightarrow> 'b BindPlan) \<Rightarrow> bool" where
  "is_req r \<longleftrightarrow> (\<exists>d n w k nm. r = req d n w k nm)"

lemma is_req [simp]: "is_req (reqw f w k nm)" "is_req (reqn d w nm)"
  unfolding is_req_def reqw_def reqn_def by blast+

text \<open>No plan of a layer comes near the bound on its requests.\<close>

lemma fold_reqs:
  assumes "list_all is_req rs" "length rs + length (pl_r p) \<le> MAXB"
  shows "pl_bad (fold (\<lambda>r. r) rs p) = pl_bad p \<and> pl_demoted (fold (\<lambda>r. r) rs p) = pl_demoted p \<and>
    pl_narrow_ok (fold (\<lambda>r. r) rs p) = pl_narrow_ok p"
  using assms
proof (induction rs arbitrary: p)
  case (Cons r rs)
  obtain d n w k nm where r: "r = req d n w k nm" using Cons.prems(1) by (auto simp: is_req_def)
  have "length rs + length (pl_r (r p)) \<le> MAXB" "pl_bad (r p) = pl_bad p" "pl_demoted (r p) = pl_demoted p"
    "pl_narrow_ok (r p) = pl_narrow_ok p" using Cons.prems(2) by (simp_all add: r req_def)
  then show ?case using Cons.IH [of "r p"] Cons.prems(1) by simp
qed simp

lemma clean_fold: "list_all is_req rs \<Longrightarrow> length rs \<le> MAXB \<Longrightarrow> clean (\<lambda>ok. fold (\<lambda>r. r) rs (plan_empty ok))"
  using fold_reqs [of rs] by (simp add: clean_def plan_empty_def)

lemma clean_layer: "clean (\<lambda>ok. plan_layer c L is_mla is_dense (plan_empty ok))"
  unfolding plan_layer_def
  by (rule clean_fold) (simp_all add: norm_reqs_def mla_reqs_def kda_reqs_def mlp_reqs_def Let_def MAXB_def)

lemma clean_model: "clean (\<lambda>ok. plan_model c want_lm_head (plan_empty ok))"
  unfolding plan_model_def Let_def by (rule clean_fold) (simp_all add: MAXB_def)

theorem bind_mem_is_bind:
  assumes s: "well_sized s" and res: "k3_bind_layer s dk mem c L = Some (b1 :: ('c, 'q, 'd) K3LayerBind)"
    and str: "k3_bind_layer_mem F c L run find' widen cap = Some (b2, widen', used)" and cap: "cap \<le> length widen"
    and pk: "packed s dk run find' (map rq_name (pl_r (plan_layer c L (k3_is_mla c L) (k3_is_dense c L)
      (plan_empty True :: ('c, 'q, 'd) K3LayerBind BindPlan))))"
  shows "b2 = b1"
proof -
  define plan where "plan = (\<lambda>ok. plan_layer c L (k3_is_mla c L) (k3_is_dense c L) (plan_empty ok :: ('c, 'q, 'd) K3LayerBind BindPlan))"
  obtain b wdt where b: "load_whole s dk mem plan (bind_zero L) = Some (b, wdt)" "b1 = bind_finish (k3_is_mla c L) (k3_is_dense c L) wdt b"
    using res by (auto simp: k3_bind_layer_def plan_def Let_def)
  obtain ok rs where ok: "list_all2 (refines s) (pl_r (plan ok)) rs" "b = fold (\<lambda>q. rq_dest q (payload dk q)) rs (bind_zero L)"
    "wdt = (if ok then K3_WBF16 else K3_WF32)" "ok = (\<not> list_ex (demotes s) (pl_r (plan True)))"
    using load_whole_ok [OF s _ b(1)] clean_layer unfolding plan_def by blast
  obtain m where m: "mem_reqs F find' run cap (pl_r (plan True)) (mem_init widen) = Some m" "mb_narrowed_all m \<or> mb_i8_seen m"
    "b2 = bind_finish (k3_is_mla c L) (k3_is_dense c L) (if mb_i8_seen m then K3_WI8 else K3_WBF16)
       (fold (\<lambda>(dest, pl). dest (read_place run (mb_widen m) pl)) (mb_places m) (bind_zero L))"
    using str by (auto simp: k3_bind_layer_mem_def plan_def Let_def split: option.splits if_splits)
  obtain rs1 where rs1: "list_all2 (refines s) (pl_r (plan True)) rs1"
  proof -
    obtain n1 p1 where "plan_resolve s (plan True) = (n1, p1)" "0 \<le> n1"
      using b(1) by (auto simp: load_whole_def resolve_whole_def split: option.splits prod.splits if_splits)
    from that plan_resolve_ok(1) [OF s this] show ?thesis by blast
  qed
  have pk': "packed s dk run find' (map rq_name (pl_r (plan True)))" using pk by (simp add: plan_def)
  have "cap \<le> length (mb_widen (mem_init widen))" using cap by (simp add: mem_init_def)
  from mem_reqs_ok [OF m(1) this rs1 s pk'] have "ok" "\<not> mb_i8_seen m" using m(2) ok(4) by (auto simp: mem_init_def)
  with ok(1) have "list_all2 (refines s) (pl_r (plan True)) rs" by simp
  from mem_reqs_ok [OF m(1) \<open>cap \<le> length (mb_widen (mem_init widen))\<close> this s pk']
  have "list_all2 (well_placed dk run m) rs (mb_places m)" using \<open>ok\<close> ok(4) by (auto simp: mem_init_def)
  from fold_placed [OF this] show ?thesis using m(3) b(2) ok(2,3) \<open>ok\<close> \<open>\<not> mb_i8_seen m\<close> by simp
qed

end
