(* ===== verification/K3_Trunk_Laws.thy ===== *)
theory K3_Trunk_Laws
  imports K3_Trunk K3_Bind_Laws
begin

text \<open>
  What the streamed trunk guarantees to a walk over the layers: while a layer is in use its buffer holds the layer's bytes
  and nothing writes to it, however the reader runs, for as long as no read fails.
\<close>

section \<open>Sizes\<close>

lemma align_up_ge: "x \<le> align_up x"
  unfolding align_up_def align_down_eq K3_TRUNK_ALIGN_def by (simp add: minus_mod_eq_mult_div)

lemma align_up_mono: "x \<le> y \<Longrightarrow> align_up x \<le> align_up y"
  unfolding align_up_def align_down_eq K3_TRUNK_ALIGN_def by (simp add: minus_mod_eq_mult_div zdiv_mono1)

lemma fold_max: "b \<le> fold (\<lambda>l b. if f l > b then f l else b) ls b \<and> (\<forall>l\<in>set ls. f l \<le> fold (\<lambda>l b. if f l > b then f l else b) ls (b :: int))"
proof (induction ls arbitrary: b)
  case (Cons l ls)
  from Cons.IH [of "if f l > b then f l else b"] show ?case by (auto split: if_splits)
qed simp

lemma biggest_ge: "npin \<le> i \<Longrightarrow> i < length lay \<Longrightarrow> 0 \<le> tl_nbytes (lay ! i) \<Longrightarrow> 0 \<le> tl_nbytes (last lay) \<Longrightarrow> tl_nbytes (lay ! i) \<le> biggest lay npin"
proof -
  assume i: "npin \<le> i" "i < length lay" "0 \<le> tl_nbytes (lay ! i)" "0 \<le> tl_nbytes (last lay)"
  let ?b = "fold (\<lambda>l b. if tl_nbytes l > b then tl_nbytes l else b) (drop npin lay) 0"
  have "lay ! i = drop npin lay ! (i - npin)" using i by simp
  then have "lay ! i \<in> set (drop npin lay)" using i(1,2) by (metis diff_less_mono length_drop nth_mem)
  then have "tl_nbytes (lay ! i) \<le> ?b" using fold_max [of 0 tl_nbytes "drop npin lay"] by blast
  then show ?thesis using i(3,4) by (auto simp: biggest_def Let_def)
qed

text \<open>The last pass changed nothing.\<close>

definition settled :: "K3TrunkLayer list \<Rightarrow> int \<Rightarrow> int \<Rightarrow> Sizes \<Rightarrow> bool" where
  "settled lay widen budget z \<longleftrightarrow> size_pass lay widen budget (sz_npin z) = z"

lemma pin_prefix_bound:
  "pin_prefix ls widen budget sp = (n, sp') \<Longrightarrow> n \<le> length ls \<and> (0 < n \<longrightarrow> sp' \<le> budget) \<and>
     sp' = sp + (\<Sum>l\<leftarrow>take n ls. tl_nbytes l + widen)"
proof (induction ls arbitrary: sp n)
  case (Cons l ls)
  show ?case
  proof (cases "sp + (tl_nbytes l + widen) > budget")
    case False
    then obtain k where k: "pin_prefix ls widen budget (sp + (tl_nbytes l + widen)) = (k, sp')" "n = k + 1"
      using Cons.prems by (auto split: prod.splits)
    from Cons.IH [OF k(1)] have "sp' \<le> budget" using False k(1) by (cases k) auto
    then show ?thesis using Cons.IH [OF k(1)] k(2) by (simp add: add.assoc)
  qed (use Cons.prems in auto)
qed simp

lemma sizes_fit:
  assumes z: "settled lay widen budget z" and nn: "\<forall>l\<in>set lay. 0 \<le> tl_nbytes l"
  shows "sz_npin z \<le> length lay" "sz_ring z = 1 \<or> sz_ring z = 2"
    "\<And>i. sz_npin z \<le> i \<Longrightarrow> i < length lay \<Longrightarrow> align_up (tl_nbytes (lay ! i)) + widen \<le> sz_slot z"
    "sz_spent z = int (sz_ring z) * sz_slot z + (\<Sum>l\<leftarrow>take (sz_npin z) lay. tl_nbytes l + widen)"
    "sz_spent z \<le> budget \<or> sz_ring z = 1 \<and> sz_npin z = 0"
proof -
  let ?rs = "slot_size lay widen (sz_npin z)"
  obtain np sp where r: "pin_prefix lay widen budget (int (ring_count ?rs budget) * ?rs) = (np, sp)"
    by (cases "pin_prefix lay widen budget (int (ring_count ?rs budget) * ?rs)")
  then have e: "z = \<lparr>sz_slot = ?rs, sz_npin = np, sz_ring = ring_count ?rs budget, sz_spent = sp\<rparr>"
    using z by (simp add: settled_def size_pass_def Let_def)
  have eq: "sz_slot z = ?rs" "sz_npin z = np" "sz_ring z = ring_count ?rs budget" "sz_spent z = sp" by (subst e, simp)+
  have p: "pin_prefix lay widen budget (int (sz_ring z) * sz_slot z) = (np, sp)" "sz_npin z = np" "sz_spent z = sp"
    "sz_slot z = slot_size lay widen np" "sz_ring z = ring_count (sz_slot z) budget"
    using r eq by simp_all
  note b = pin_prefix_bound [OF p(1)]
  show "sz_npin z \<le> length lay" "sz_ring z = 1 \<or> sz_ring z = 2" "sz_spent z = int (sz_ring z) * sz_slot z + (\<Sum>l\<leftarrow>take (sz_npin z) lay. tl_nbytes l + widen)"
    using b p(2,3,5) by (auto simp: ring_count_def)
  show "sz_spent z \<le> budget \<or> sz_ring z = 1 \<and> sz_npin z = 0"
    using b p(2,3,5) by (cases "0 < np") (auto simp: ring_count_def)
  fix i assume i: "sz_npin z \<le> i" "i < length lay"
  then have "tl_nbytes (lay ! i) \<le> biggest lay np" using nn p(2) biggest_ge by (metis last_in_set length_greater_0_conv nth_mem less_nat_zero_code neq0_conv)
  then have "align_up (tl_nbytes (lay ! i)) + widen \<le> align_up (biggest lay np) + widen" using align_up_mono by simp
  also have "\<dots> \<le> sz_slot z" unfolding p(4) slot_size_def by (rule align_up_ge)
  finally show "align_up (tl_nbytes (lay ! i)) + widen \<le> sz_slot z" .
qed

text \<open>
  The passes need not settle: they can alternate between one slot of the largest layer with that layer pinned and two
  smaller slots with nothing pinned, and stop in the second state, where the ring is too small for the first layer.
\<close>

lemma sizes_oscillate:
  defines "lay \<equiv> [\<lparr>tl_file_off = 0, tl_nbytes = 8193, tl_t = []\<rparr>, \<lparr>tl_file_off = 12288, tl_nbytes = 4096, tl_t = []\<rparr>]"
  shows "trunk_sizes lay 4100 36000 = \<lparr>sz_slot = 12288, sz_npin = 0, sz_ring = 2, sz_spent = 24576\<rparr>"
    "align_up (tl_nbytes (lay ! 0)) + 4100 > sz_slot (trunk_sizes lay 4100 36000)"
  unfolding lay_def by code_simp+

section \<open>The invariant of a walk\<close>

definition layer_run :: "bytes \<Rightarrow> K3Trunk \<Rightarrow> nat \<Rightarrow> bytes" where
  "layer_run fl tr L = slice fl (tl_file_off (tr_lay tr ! L)) (tl_nbytes (tr_lay tr ! L))"

text \<open>The first \<open>got\<close> bytes of the layer are in the buffer.\<close>

definition part :: "bytes \<Rightarrow> K3Trunk \<Rightarrow> buf \<Rightarrow> nat \<Rightarrow> nat \<Rightarrow> bool" where
  "part fl tr bf L got \<longleftrightarrow> got \<le> run_len tr L \<and> got \<le> length (layer_run fl tr L) \<and>
     take got (buffer tr bf) = take got (layer_run fl tr L)"

definition holds :: "bytes \<Rightarrow> K3Trunk \<Rightarrow> buf \<Rightarrow> nat \<Rightarrow> bool" where
  "holds fl tr bf L \<longleftrightarrow> take (run_len tr L) (buffer tr bf) = layer_run fl tr L"

text \<open>What never changes: the sizes of tables and buffers, and that every layer fits where it goes.\<close>

definition span_at :: "K3Trunk \<Rightarrow> nat \<Rightarrow> nat" where
  "span_at tr L = nat (align_up (tl_nbytes (tr_lay tr ! L))) + tr_widen_bytes tr"

definition geo :: "K3Trunk \<Rightarrow> bool" where
  "geo tr \<longleftrightarrow> 0 < n_lay tr \<and> tr_npin tr \<le> n_lay tr \<and>
     (tr_nslot tr = 1 \<and> tr_io tr = None \<or> tr_nslot tr = 2 \<and> tr_io tr \<noteq> None) \<and>
     length (tr_layer_of tr) = tr_nslot tr \<and> length (tr_arena tr) = tr_nslot tr \<and> tr_ring tr < tr_nslot tr \<and>
     length (tr_slot_of tr) = n_lay tr \<and> length (tr_pin tr) = tr_npin tr \<and>
     (\<forall>L < n_lay tr. 0 \<le> tl_nbytes (tr_lay tr ! L) \<and> 0 \<le> tl_file_off (tr_lay tr ! L)) \<and>
     (\<forall>L < tr_npin tr. span_at tr L \<le> length (tr_pin tr ! L)) \<and>
     (\<forall>L < n_lay tr. tr_npin tr \<le> L \<longrightarrow> (\<forall>s < tr_nslot tr. span_at tr L \<le> length (tr_arena tr ! s)))"

text \<open>The cyclic order of the streamed layers.\<close>

definition succ_l :: "K3Trunk \<Rightarrow> nat \<Rightarrow> nat" where
  "succ_l tr L = (if L + 1 < n_lay tr then L + 1 else tr_npin tr)"

definition pred_l :: "K3Trunk \<Rightarrow> nat \<Rightarrow> nat" where
  "pred_l tr L = (if L = tr_npin tr then n_lay tr - 1 else L - 1)"

text \<open>The read in flight, or ended and not consumed.\<close>

definition flight :: "K3Trunk \<Rightarrow> (nat \<times> nat) option" where
  "flight tr = (case tr_io tr of None \<Rightarrow> None | Some io \<Rightarrow> if io_busy io \<or> io_done io then Some (io_layer io, io_slot io) else None)"

text \<open>The next streamed layer to be bound.\<close>

fun upcoming :: "K3Trunk \<Rightarrow> 'b loc \<Rightarrow> nat" where
  "upcoming tr (Want p) = max p (tr_npin tr)"
| "upcoming tr (Waiting p) = max p (tr_npin tr)"
| "upcoming tr (Loading p bf got) = max p (tr_npin tr)"
| "upcoming tr (Binding p bf) = max (succ_l tr p) (tr_npin tr)"
| "upcoming tr (Bound p bf sn b) = max (succ_l tr p) (tr_npin tr)"
| "upcoming tr (Computing p bf sn b) = max (succ_l tr p) (tr_npin tr)"
| "upcoming tr Failed = 0"

definition resident :: "K3Trunk \<Rightarrow> nat \<Rightarrow> nat \<Rightarrow> bool" where
  "resident tr s L \<longleftrightarrow> s < tr_nslot tr \<and> tr_layer_of tr ! s = Some L"

definition tables :: "bytes \<Rightarrow> K3Trunk \<Rightarrow> bool" where
  "tables fl tr \<longleftrightarrow>
     (\<forall>s L. resident tr s L \<longrightarrow> tr_npin tr \<le> L \<and> L < n_lay tr \<and> holds fl tr (Slot s) L) \<and>
     (\<forall>s s' L. resident tr s L \<and> resident tr s' L \<longrightarrow> s = s') \<and>
     (\<forall>L < n_lay tr. \<forall>s. tr_slot_of tr ! L = Some s \<longrightarrow> (if L < tr_npin tr then holds fl tr (Pin L) L else resident tr s L))"

text \<open>
  The last streamed layer bound is resident, and the slot the ring points at holds nothing or the predecessor of what the
  other slot holds or is being filled with.
\<close>

definition order :: "K3Trunk \<Rightarrow> 'b loc \<Rightarrow> bool" where
  "order tr pc \<longleftrightarrow>
     ((\<forall>s L. \<not> resident tr s L) \<or> (\<exists>s. resident tr s (pred_l tr (upcoming tr pc)))) \<and>
     (tr_nslot tr = 2 \<longrightarrow> (\<forall>x. resident tr (tr_ring tr) x \<longrightarrow>
        resident tr (1 - tr_ring tr) (succ_l tr x) \<or> flight tr = Some (succ_l tr x, 1 - tr_ring tr) \<or>
        (\<exists>got. pc = Loading (succ_l tr x) (Slot (1 - tr_ring tr)) got)))"

definition reading :: "bytes \<Rightarrow> K3Trunk \<Rightarrow> (nat \<times> nat \<times> nat) option \<Rightarrow> bool" where
  "reading fl tr rd \<longleftrightarrow>
     (\<forall>io. tr_io tr = Some io \<longrightarrow> \<not> io_stop io \<and> \<not> (io_busy io \<and> io_done io) \<and>
        (io_done io \<and> io_result io = 0 \<longrightarrow> holds fl tr (Slot (io_slot io)) (io_layer io))) \<and>
     (\<forall>L s got. rd = Some (L, s, got) \<longrightarrow>
        (\<exists>io. tr_io tr = Some io \<and> io_busy io \<and> L = io_layer io \<and> s = io_slot io) \<and> part fl tr (Slot s) L got)"

definition ahead :: "K3Trunk \<Rightarrow> 'b loc \<Rightarrow> bool" where
  "ahead tr pc \<longleftrightarrow> (\<forall>x s. flight tr = Some (x, s) \<longrightarrow>
     tr_nslot tr = 2 \<and> s = 1 - tr_ring tr \<and> tr_layer_of tr ! s = None \<and> tr_npin tr \<le> x \<and> x < n_lay tr \<and>
     (\<forall>s. \<not> resident tr s x) \<and> (pc = Want x \<or> pc = Waiting x \<or> (\<exists>p bf sn b. pc = Computing p bf sn b \<and> x = p + 1)))"

text \<open>The buffer a layer is bound to, and what the binding was made from.\<close>

definition at_home :: "K3Trunk \<Rightarrow> nat \<Rightarrow> buf \<Rightarrow> bool" where
  "at_home tr p bf \<longleftrightarrow> p < n_lay tr \<and> (if p < tr_npin tr then bf = Pin p else (\<exists>s. bf = Slot s \<and> resident tr s p))"

definition bound_as :: "fpu \<Rightarrow> K3Cfg \<Rightarrow> bytes \<Rightarrow> K3Trunk \<Rightarrow> nat \<Rightarrow> ('c, 'q, 'd) K3LayerBind \<Rightarrow> bool" where
  "bound_as F c fl tr p b \<longleftrightarrow>
     (\<exists>run widen used. k3_bind_layer_mem F c (int p) run (find_in_layer (tr_lay tr ! p))
          (drop (nat (align_up (tl_nbytes (tr_lay tr ! p)))) run) (tr_widen_bytes tr) = Some (b, widen, used) \<and>
        span_at tr p \<le> length run \<and> take (run_len tr p) run = layer_run fl tr p)"

fun here :: "fpu \<Rightarrow> K3Cfg \<Rightarrow> bytes \<Rightarrow> K3Trunk \<Rightarrow> ('c, 'q, 'd) K3LayerBind loc \<Rightarrow> bool" where
  "here F c fl tr (Want p) \<longleftrightarrow> p < n_lay tr"
| "here F c fl tr (Waiting p) \<longleftrightarrow> (\<exists>s. flight tr = Some (p, s))"
| "here F c fl tr (Loading p bf got) \<longleftrightarrow> p < n_lay tr \<and> part fl tr bf p got \<and> flight tr = None \<and>
     (if p < tr_npin tr then bf = Pin p \<and> tr_slot_of tr ! p = None
      else (\<exists>s. bf = Slot s \<and> s < tr_nslot tr \<and> tr_layer_of tr ! s = None \<and> (tr_nslot tr = 2 \<longrightarrow> s = 1 - tr_ring tr) \<and>
              (\<forall>s. \<not> resident tr s p)))"
| "here F c fl tr (Binding p bf) \<longleftrightarrow> at_home tr p bf \<and> flight tr = None \<and> holds fl tr bf p"
| "here F c fl tr (Bound p bf sn b) \<longleftrightarrow> at_home tr p bf \<and> flight tr = None \<and> holds fl tr bf p \<and> buffer tr bf = sn \<and> bound_as F c fl tr p b"
| "here F c fl tr (Computing p bf sn b) \<longleftrightarrow> at_home tr p bf \<and> holds fl tr bf p \<and> buffer tr bf = sn \<and> bound_as F c fl tr p b"
| "here F c fl tr Failed \<longleftrightarrow> False"

definition steady :: "fpu \<Rightarrow> K3Cfg \<Rightarrow> bytes \<Rightarrow> K3Trunk \<Rightarrow> (nat \<times> nat \<times> nat) option \<Rightarrow> ('c, 'q, 'd) K3LayerBind loc \<Rightarrow> bool" where
  "steady F c fl tr rd pc \<longleftrightarrow>
     geo tr \<and> tables fl tr \<and> order tr pc \<and> reading fl tr rd \<and> ahead tr pc \<and> here F c fl tr pc"

definition walk_inv :: "fpu \<Rightarrow> K3Cfg \<Rightarrow> bytes \<Rightarrow> ('c, 'q, 'd) K3LayerBind Walk \<Rightarrow> bool" where
  "walk_inv F c fl w \<longleftrightarrow> wk_pc w = Failed \<or> steady F c fl (wk_tr w) (wk_rd w) (wk_pc w)"

lemmas walk_defs = resident_def flight_def at_home_def bound_as_def holds_def part_def run_len_def layer_run_def n_lay_def
  succ_l_def pred_l_def span_at_def

section \<open>Buffers\<close>

lemma buffer_set:
  assumes "case bf of Pin i \<Rightarrow> i < length (tr_pin tr) | Slot s \<Rightarrow> s < length (tr_arena tr)"
  shows "buffer (set_buffer bf b tr) bf' = (if bf' = bf then b else buffer tr bf')"
  using assms by (cases bf; cases bf') auto

lemma set_buffer_same [simp]:
  "tr_lay (set_buffer bf b tr) = tr_lay tr" "tr_widen_bytes (set_buffer bf b tr) = tr_widen_bytes tr"
  "tr_nslot (set_buffer bf b tr) = tr_nslot tr" "tr_npin (set_buffer bf b tr) = tr_npin tr"
  "tr_layer_of (set_buffer bf b tr) = tr_layer_of tr" "tr_slot_of (set_buffer bf b tr) = tr_slot_of tr"
  "tr_ring (set_buffer bf b tr) = tr_ring tr" "tr_io (set_buffer bf b tr) = tr_io tr"
  "length (tr_pin (set_buffer bf b tr)) = length (tr_pin tr)" "length (tr_arena (set_buffer bf b tr)) = length (tr_arena tr)"
  by (cases bf; simp)+

text \<open>Writing one buffer changes no table; only that buffer's content.\<close>

lemma set_buffer_walk [simp]:
  "resident (set_buffer bf b tr) s L = resident tr s L" "flight (set_buffer bf b tr) = flight tr"
  "at_home (set_buffer bf b tr) p bf' = at_home tr p bf'" "run_len (set_buffer bf b tr) L = run_len tr L"
  "layer_run fl (set_buffer bf b tr) L = layer_run fl tr L" "n_lay (set_buffer bf b tr) = n_lay tr"
  "succ_l (set_buffer bf b tr) L = succ_l tr L" "pred_l (set_buffer bf b tr) L = pred_l tr L" "span_at (set_buffer bf b tr) L = span_at tr L"
  "bound_as F c fl (set_buffer bf b tr) p w = bound_as F c fl tr p w"
  "upcoming (set_buffer bf b tr) pc = upcoming tr pc" "order (set_buffer bf b tr) pc = order tr pc" "ahead (set_buffer bf b tr) pc = ahead tr pc"
  by (simp_all add: walk_defs order_def ahead_def) (cases pc; simp add: walk_defs)+

definition is_buf :: "K3Trunk \<Rightarrow> buf \<Rightarrow> bool" where
  "is_buf tr bf \<longleftrightarrow> (case bf of Pin i \<Rightarrow> i < length (tr_pin tr) | Slot s \<Rightarrow> s < length (tr_arena tr))"

lemma holds_set:
  "is_buf tr bf \<Longrightarrow> holds fl (set_buffer bf b tr) bf' L =
     (if bf' = bf then take (run_len tr L) b = layer_run fl tr L else holds fl tr bf' L)"
  by (simp add: holds_def is_buf_def buffer_set)

lemma part_set:
  "is_buf tr bf \<Longrightarrow> bf' \<noteq> bf \<Longrightarrow> part fl (set_buffer bf b tr) bf' L got = part fl tr bf' L got"
  by (simp add: part_def is_buf_def buffer_set)

lemma geo_set:
  assumes "geo tr" "is_buf tr bf" "length b = length (buffer tr bf)"
  shows "geo (set_buffer bf b tr)"
  using assms by (cases bf) (auto simp: geo_def is_buf_def n_lay_def span_at_def nth_list_update)

text \<open>One read more.\<close>

lemma read_more:
  assumes p: "part fl tr bf L got" and g: "got < run_len tr L" and r: "load_read fl tr L got chunk = r"
    and bf: "is_buf tr bf" "run_len tr L \<le> length (buffer tr bf)" and off: "0 \<le> tl_file_off (tr_lay tr ! L)"
  shows "part fl (load_put bf got r tr) bf L (got + length r)" "length (splice (buffer tr bf) got r) = length (buffer tr bf)"
proof -
  let ?D = "drop (nat (tl_file_off (tr_lay tr ! L))) fl"
  have run: "layer_run fl tr L = take (run_len tr L) ?D" by (simp add: layer_run_def slice_def run_len_def)
  have r': "r = take (min (run_len tr L - got) chunk) (drop got ?D)" using r by (simp add: load_read_def pread_def add.commute)
  have l: "got + length r \<le> run_len tr L" "got + length r \<le> length (layer_run fl tr L)"
    using p g unfolding run r' by (auto simp: part_def run)
  have "take k z = take (length (take k z)) z" for k and z :: bytes by (simp add: min_def)
  then have rr: "r = take (length r) (drop got ?D)" unfolding r' .
  show "length (splice (buffer tr bf) got r) = length (buffer tr bf)" using l bf(2) by (intro length_splice) linarith
  have e: "take (got + length r) (splice (buffer tr bf) got r) = take got (buffer tr bf) @ r"
    using l g bf(2) by (simp add: splice_def min_def)
  have tg: "take got (buffer tr bf) = take got ?D" using p g by (simp add: part_def run min_def)
  have "take (got + length r) (layer_run fl tr L) = take (got + length r) ?D" using l(1) by (simp add: run min_def)
  also have "\<dots> = take got ?D @ take (length r) (drop got ?D)" by (rule take_add)
  finally have "take (got + length r) (layer_run fl tr L) = take got (buffer tr bf) @ r" using tg rr by metis
  then show "part fl (load_put bf got r tr) bf L (got + length r)"
    using l e bf(1) by (simp add: part_def load_put_def buffer_set is_buf_def)
qed

lemma part_full: "part fl tr bf L got \<Longrightarrow> \<not> got < run_len tr L \<Longrightarrow> holds fl tr bf L"
  by (auto simp: part_def holds_def layer_run_def slice_def run_len_def)

declare set_buffer.simps [simp del]

section \<open>Cyclic order\<close>

lemma pred_succ: "tr_npin tr \<le> L \<Longrightarrow> L < n_lay tr \<Longrightarrow> pred_l tr (succ_l tr L) = L"
  by (auto simp: pred_l_def succ_l_def)

lemma succ_pred: "tr_npin tr \<le> L \<Longrightarrow> L < n_lay tr \<Longrightarrow> succ_l tr (pred_l tr L) = L"
  by (auto simp: pred_l_def succ_l_def)

lemma succ_range: "tr_npin tr < n_lay tr \<Longrightarrow> tr_npin tr \<le> L \<Longrightarrow> tr_npin tr \<le> succ_l tr L \<and> succ_l tr L < n_lay tr"
  by (auto simp: succ_l_def)

lemma find_slot_some: "find_slot tr L = Some s \<Longrightarrow> resident tr s L"
  by (auto simp: find_slot_def resident_def find_Some_iff)

lemma find_slot_none: "find_slot tr L = None \<Longrightarrow> \<not> resident tr s L"
  by (auto simp: find_slot_def resident_def find_None_iff)

section \<open>Claiming a slot\<close>

lemma claim_same:
  assumes "claim tr = (s, tr1)"
  shows "s = tr_ring tr" "tr_ring tr1 = (tr_ring tr + 1) mod tr_nslot tr" "tr_layer_of tr1 = (tr_layer_of tr)[s := None]"
    "tr_lay tr1 = tr_lay tr" "tr_pin tr1 = tr_pin tr" "tr_arena tr1 = tr_arena tr" "tr_widen_bytes tr1 = tr_widen_bytes tr"
    "tr_nslot tr1 = tr_nslot tr" "tr_npin tr1 = tr_npin tr" "tr_io tr1 = tr_io tr"
    "tr_slot_of tr1 = (case tr_layer_of tr ! s of None \<Rightarrow> tr_slot_of tr | Some l \<Rightarrow> (tr_slot_of tr)[l := None])"
  using assms by (auto simp: claim_def Let_def)

lemma claim_resident:
  assumes "claim tr = (s, tr1)" "geo tr"
  shows "resident tr1 s' L \<longleftrightarrow> resident tr s' L \<and> s' \<noteq> tr_ring tr"
  using assms(2) by (auto simp: resident_def claim_same [OF assms(1)] geo_def nth_list_update)

lemma claim_walk:
  assumes "claim tr = (s, tr1)"
  shows "n_lay tr1 = n_lay tr" "run_len tr1 L = run_len tr L" "layer_run fl tr1 L = layer_run fl tr L" "span_at tr1 L = span_at tr L"
    "flight tr1 = flight tr" "buffer tr1 bf = buffer tr bf" "succ_l tr1 L = succ_l tr L" "pred_l tr1 L = pred_l tr L"
    "holds fl tr1 bf L = holds fl tr bf L"
  by (cases bf; simp add: walk_defs claim_same [OF assms])+

lemma claim_geo:
  assumes "claim tr = (s, tr1)" "geo tr"
  shows "geo tr1"
  using assms(2) by (auto simp: geo_def n_lay_def span_at_def claim_same [OF assms(1)] split: option.splits)

lemma erased: "L < length xs \<Longrightarrow> xs[i := None] ! L = Some s \<Longrightarrow> xs ! L = Some s \<and> i \<noteq> L"
  by (cases "i = L") auto

lemma tablesI:
  assumes "\<And>s L. resident tr s L \<Longrightarrow> tr_npin tr \<le> L \<and> L < n_lay tr \<and> holds fl tr (Slot s) L"
    and "\<And>s s' L. resident tr s L \<Longrightarrow> resident tr s' L \<Longrightarrow> s = s'"
    and "\<And>L s. L < tr_npin tr \<Longrightarrow> L < n_lay tr \<Longrightarrow> tr_slot_of tr ! L = Some s \<Longrightarrow> holds fl tr (Pin L) L"
    and "\<And>L s. \<not> L < tr_npin tr \<Longrightarrow> L < n_lay tr \<Longrightarrow> tr_slot_of tr ! L = Some s \<Longrightarrow> resident tr s L"
  shows "tables fl tr"
  unfolding tables_def using assms by (intro conjI) (blast, blast, simp)

lemma tablesD:
  assumes "tables fl tr"
  shows "resident tr s L \<Longrightarrow> tr_npin tr \<le> L" "resident tr s L \<Longrightarrow> L < n_lay tr" "resident tr s L \<Longrightarrow> holds fl tr (Slot s) L"
    and "resident tr s L \<Longrightarrow> resident tr s' L \<Longrightarrow> s = s'"
    and "L < tr_npin tr \<Longrightarrow> L < n_lay tr \<Longrightarrow> tr_slot_of tr ! L = Some s \<Longrightarrow> holds fl tr (Pin L) L"
    and "\<not> L < tr_npin tr \<Longrightarrow> L < n_lay tr \<Longrightarrow> tr_slot_of tr ! L = Some s \<Longrightarrow> resident tr s L"
proof -
  have t: "\<forall>s L. resident tr s L \<longrightarrow> tr_npin tr \<le> L \<and> L < n_lay tr \<and> holds fl tr (Slot s) L"
    "\<forall>s s' L. resident tr s L \<and> resident tr s' L \<longrightarrow> s = s'"
    "\<forall>L < n_lay tr. \<forall>s. tr_slot_of tr ! L = Some s \<longrightarrow> (if L < tr_npin tr then holds fl tr (Pin L) L else resident tr s L)"
    using assms unfolding tables_def by blast+
  from t(1) show "resident tr s L \<Longrightarrow> tr_npin tr \<le> L" "resident tr s L \<Longrightarrow> L < n_lay tr" "resident tr s L \<Longrightarrow> holds fl tr (Slot s) L" by blast+
  from t(2) show "resident tr s L \<Longrightarrow> resident tr s' L \<Longrightarrow> s = s'" by blast
  from t(3) show "L < tr_npin tr \<Longrightarrow> L < n_lay tr \<Longrightarrow> tr_slot_of tr ! L = Some s \<Longrightarrow> holds fl tr (Pin L) L"
    "\<not> L < tr_npin tr \<Longrightarrow> L < n_lay tr \<Longrightarrow> tr_slot_of tr ! L = Some s \<Longrightarrow> resident tr s L" by (metis (full_types))+
qed

lemma claim_tables:
  assumes "claim tr = (s, tr1)" "geo tr" "tables fl tr"
  shows "tables fl tr1"
proof -
  have r: "resident tr1 s' L \<longleftrightarrow> resident tr s' L \<and> s' \<noteq> tr_ring tr" for s' L by (rule claim_resident [OF assms(1,2)])
  have so: "resident tr1 s' L" if "L < n_lay tr" "tr_slot_of tr1 ! L = Some s'" "\<not> L < tr_npin tr" for L s'
  proof -
    have len: "length (tr_slot_of tr) = n_lay tr" "tr_ring tr < tr_nslot tr" using assms(2) by (auto simp: geo_def)
    have o: "tr_slot_of tr ! L = Some s'" "tr_layer_of tr ! tr_ring tr \<noteq> Some L"
      using that len claim_same(11) [OF assms(1)] claim_same(1) [OF assms(1)] erased [of L "tr_slot_of tr"]
      by (auto split: option.splits)
    then have "resident tr s' L" using tablesD(6) [OF assms(3)] that by blast
    then show ?thesis using o(2) r by (auto simp: resident_def)
  qed
  have sp: "tr_slot_of tr ! L = Some s'" if "L < n_lay tr" "tr_slot_of tr1 ! L = Some s'" for L s'
    using that assms(2) claim_same(11) [OF assms(1)] erased [of L "tr_slot_of tr"]
    by (auto simp: geo_def split: option.splits)
  note t = tablesD [OF assms(3)] and w = claim_walk [OF assms(1)] claim_same(9) [OF assms(1)]
  show ?thesis
  proof (rule tablesI, goal_cases)
    case (1 s' L) then show ?case using t(1-3) unfolding r w by blast
  next
    case (2 s1 s2 L) then show ?case using t(4) unfolding r w by blast
  next
    case (3 L s') then show ?case using t(5) sp unfolding w by blast
  next
    case (4 L s') then show ?case using so unfolding w by blast
  qed
qed

text \<open>
  A slot is only claimed for the layer that comes next. The slot of its predecessor, which may be in use, is then the other one.
\<close>

lemma claim_spares:
  assumes cl: "claim tr = (s, tr1)" and geo: "geo tr" and tab: "tables fl tr" and od: "order tr pc"
    and x: "x = upcoming tr pc" "tr_npin tr \<le> x" "x < n_lay tr" "\<And>s. \<not> resident tr s x" "flight tr = None" "\<And>bf got. pc \<noteq> Loading x bf got"
    and two: "tr_nslot tr = 2"
  shows "(\<forall>s L. \<not> resident tr1 s L) \<or> resident tr1 (1 - tr_ring tr) (pred_l tr x)"
    "\<not> resident tr (tr_ring tr) (pred_l tr x)"
    "\<And>y. resident tr1 (tr_ring tr1) y \<Longrightarrow> succ_l tr y = x"
    "tr_ring tr1 = 1 - tr_ring tr" "tr_ring tr < 2"
proof -
  show rg: "tr_ring tr < 2" using geo two by (auto simp: geo_def)
  then have "tr_ring tr = 0 \<or> tr_ring tr = 1" by linarith
  then show r1: "tr_ring tr1 = 1 - tr_ring tr" using claim_same(2) [OF cl] two by auto
  have r: "resident tr1 s' L \<longleftrightarrow> resident tr s' L \<and> s' \<noteq> tr_ring tr" for s' L by (rule claim_resident [OF cl geo])
  have "resident tr (tr_ring tr) y \<Longrightarrow> resident tr (1 - tr_ring tr) (succ_l tr y) \<or> flight tr = Some (succ_l tr y, 1 - tr_ring tr) \<or>
      (\<exists>got. pc = Loading (succ_l tr y) (Slot (1 - tr_ring tr)) got)" for y
    using od two by (auto simp: order_def)
  from this [of "pred_l tr x"] show no: "\<not> resident tr (tr_ring tr) (pred_l tr x)" using x(4-6) succ_pred [OF x(2,3)] by auto
  from od x(1) consider "\<forall>s L. \<not> resident tr s L" | s0 where "resident tr s0 (pred_l tr x)" by (auto simp: order_def)
  then have one: "(\<forall>s L. \<not> resident tr s L) \<or> resident tr (1 - tr_ring tr) (pred_l tr x)"
  proof cases
    case 2
    then have "s0 \<noteq> tr_ring tr" "s0 < 2" using no two by (auto simp: resident_def)
    then have "s0 = 1 - tr_ring tr" using rg by linarith
    then show ?thesis using 2 by simp
  qed simp
  then show "(\<forall>s L. \<not> resident tr1 s L) \<or> resident tr1 (1 - tr_ring tr) (pred_l tr x)" using r no by metis
  show "succ_l tr y = x" if "resident tr1 (tr_ring tr1) y" for y
  proof -
    have y: "resident tr (1 - tr_ring tr) y" using that r r1 by simp
    then have "resident tr (1 - tr_ring tr) (pred_l tr x)" using one by auto
    then have "y = pred_l tr x" using y by (simp add: resident_def)
    then show ?thesis using succ_pred [OF x(2,3)] by simp
  qed
qed

section \<open>Steps of the reader\<close>

lemma run_len_span: "run_len tr L \<le> span_at tr L"
  using align_up_ge [of "tl_nbytes (tr_lay tr ! L)"] by (simp add: run_len_def span_at_def)

lemma slot_buf:
  "geo tr \<Longrightarrow> s < tr_nslot tr \<Longrightarrow> is_buf tr (Slot s)"
  "geo tr \<Longrightarrow> s < tr_nslot tr \<Longrightarrow> tr_npin tr \<le> L \<Longrightarrow> L < n_lay tr \<Longrightarrow> span_at tr L \<le> length (buffer tr (Slot s))"
  by (simp_all add: geo_def is_buf_def)

lemma pin_buf:
  "geo tr \<Longrightarrow> L < tr_npin tr \<Longrightarrow> is_buf tr (Pin L)" "geo tr \<Longrightarrow> L < tr_npin tr \<Longrightarrow> span_at tr L \<le> length (buffer tr (Pin L))"
  by (simp_all add: geo_def is_buf_def)

lemma geo_off: "geo tr \<Longrightarrow> L < n_lay tr \<Longrightarrow> 0 \<le> tl_file_off (tr_lay tr ! L)"
  by (simp add: geo_def)

lemma home_buf:
  assumes "geo tr" "at_home tr p bf"
  shows "is_buf tr bf" "span_at tr p \<le> length (buffer tr bf)"
  using assms slot_buf [OF assms(1)] pin_buf [OF assms(1)] by (auto simp: at_home_def resident_def split: if_splits)

text \<open>A buffer that no table names may be written.\<close>

definition unnamed :: "K3Trunk \<Rightarrow> buf \<Rightarrow> bool" where
  "unnamed tr bf \<longleftrightarrow> (case bf of Pin i \<Rightarrow> i < n_lay tr \<longrightarrow> tr_slot_of tr ! i = None | Slot s \<Rightarrow> \<forall>L. \<not> resident tr s L)"

lemma write_tables:
  assumes "tables fl tr" "is_buf tr bf" "unnamed tr bf"
  shows "tables fl (set_buffer bf b tr)"
proof -
  note t = tablesD [OF assms(1)]
  have h: "holds fl (set_buffer bf b tr) bf' L" if "holds fl tr bf' L" "bf' \<noteq> bf" for bf' L
    using holds_set [OF assms(2)] that by simp
  show ?thesis
  proof (rule tablesI, goal_cases)
    case (1 s L)
    then have "Slot s \<noteq> bf" using assms(3) by (auto simp: unnamed_def)
    then show ?case using 1 h t(1-3) by simp
  next
    case (2 s s' L) then show ?case using t(4) by simp
  next
    case (3 L s)
    then have "Pin L \<noteq> bf" using assms(3) by (auto simp: unnamed_def)
    then show ?case using 3 h t(5) by simp
  next
    case (4 L s) then show ?case using t(6) by simp
  qed
qed

lemma io_same [simp]:
  "resident (tr\<lparr>tr_io := x\<rparr>) s L = resident tr s L" "n_lay (tr\<lparr>tr_io := x\<rparr>) = n_lay tr" "run_len (tr\<lparr>tr_io := x\<rparr>) L = run_len tr L"
  "layer_run fl (tr\<lparr>tr_io := x\<rparr>) L = layer_run fl tr L" "span_at (tr\<lparr>tr_io := x\<rparr>) L = span_at tr L" "buffer (tr\<lparr>tr_io := x\<rparr>) bf = buffer tr bf"
  "holds fl (tr\<lparr>tr_io := x\<rparr>) bf L = holds fl tr bf L" "part fl (tr\<lparr>tr_io := x\<rparr>) bf L got = part fl tr bf L got"
  "at_home (tr\<lparr>tr_io := x\<rparr>) p bf = at_home tr p bf" "bound_as F c fl (tr\<lparr>tr_io := x\<rparr>) p w = bound_as F c fl tr p w"
  "succ_l (tr\<lparr>tr_io := x\<rparr>) L = succ_l tr L" "pred_l (tr\<lparr>tr_io := x\<rparr>) L = pred_l tr L" "tables fl (tr\<lparr>tr_io := x\<rparr>) = tables fl tr"
  by (cases bf; simp add: walk_defs tables_def)+

lemma upcoming_io [simp]: "upcoming (tr\<lparr>tr_io := x\<rparr>) pc = upcoming tr pc"
  by (cases pc) simp_all

lemma geo_io: "geo (tr\<lparr>tr_io := Some y\<rparr>) = geo tr" if "tr_io tr = Some x" for x y
  using that by (simp add: geo_def)

text \<open>The reader's own flags do not matter to the walk as long as the read stays in flight.\<close>

lemma io_flight:
  assumes "flight (tr\<lparr>tr_io := x\<rparr>) = flight tr"
  shows "order (tr\<lparr>tr_io := x\<rparr>) pc = order tr pc" "ahead (tr\<lparr>tr_io := x\<rparr>) pc = ahead tr pc" "here F c fl (tr\<lparr>tr_io := x\<rparr>) pc = here F c fl tr pc"
  using assms by (simp_all add: order_def ahead_def) (cases pc; simp)

lemma inv_rd_take:
  assumes "steady F c fl tr None pc" "tr_io tr = Some io" "io_busy io"
  shows "steady F c fl tr (Some (io_layer io, io_slot io, 0)) pc"
  using assms by (simp add: steady_def reading_def part_def)

lemma inv_rd_end:
  assumes "steady F c fl tr (Some (L, s, got)) pc" "tr_io tr = Some io" "rc = 0 \<Longrightarrow> \<not> got < run_len tr L"
  shows "steady F c fl (tr\<lparr>tr_io := Some (io_finish rc io)\<rparr>) None pc"
proof -
  have rd: "io_busy io" "L = io_layer io" "s = io_slot io" "part fl tr (Slot s) L got" "\<not> io_stop io"
    using assms(1,2) by (auto simp: steady_def reading_def)
  have f: "flight (tr\<lparr>tr_io := Some (io_finish rc io)\<rparr>) = flight tr" using rd(1) assms(2) by (simp add: flight_def io_finish_def)
  have "reading fl (tr\<lparr>tr_io := Some (io_finish rc io)\<rparr>) None"
    using rd assms(3) part_full by (auto simp: reading_def io_finish_def)
  then show ?thesis using assms(1) by (simp add: steady_def io_flight [OF f] geo_io [OF assms(2)])
qed

lemma inv_rd_read:
  assumes iv: "steady F c fl tr (Some (L, s, got)) pc" and g: "got < run_len tr L" and r: "load_read fl tr L got chunk = r"
  shows "steady F c fl (load_put (Slot s) got r tr) (Some (L, s, got + length r)) pc"
proof -
  let ?b = "splice (buffer tr (Slot s)) got r" and ?tr = "load_put (Slot s) got r tr"
  have t: "?tr = set_buffer (Slot s) ?b tr" by (simp add: load_put_def)
  have i: "geo tr" "tables fl tr" "order tr pc" "reading fl tr (Some (L, s, got))" "ahead tr pc" "here F c fl tr pc"
    using iv by (auto simp: steady_def)
  obtain io where io: "tr_io tr = Some io" "io_busy io" "L = io_layer io" "s = io_slot io" "part fl tr (Slot s) L got" "\<not> io_done io"
    using i(4) by (auto simp: reading_def)
  have fl: "flight tr = Some (L, s)" using io by (simp add: flight_def)
  have a: "tr_nslot tr = 2" "s = 1 - tr_ring tr" "tr_layer_of tr ! s = None" "tr_npin tr \<le> L" "L < n_lay tr"
    "pc = Want L \<or> pc = Waiting L \<or> (\<exists>p bf sn b. pc = Computing p bf sn b \<and> L = p + 1)"
    using i(5) fl by (auto simp: ahead_def)
  have s: "s < tr_nslot tr" using a(1,2) by simp
  note b = slot_buf(1) [OF i(1) s] slot_buf(2) [OF i(1) s a(4,5)]
  from read_more [OF io(5) g r b(1) order_trans [OF run_len_span b(2)] geo_off [OF i(1) a(5)]]
  have m: "part fl ?tr (Slot s) L (got + length r)" "length ?b = length (buffer tr (Slot s))" .
  have un: "unnamed tr (Slot s)" using a(3) by (simp add: unnamed_def resident_def)
  have gt: "geo ?tr" "tables fl ?tr" unfolding t using geo_set [OF i(1) b(1) m(2)] write_tables [OF i(2) b(1) un] by auto
  have rd: "reading fl ?tr (Some (L, s, got + length r))" using i(4) io m(1) unfolding t by (auto simp: reading_def)
  have "here F c fl ?tr pc"
  proof (cases "\<exists>p bf sn b. pc = Computing p bf sn b")
    case True
    then obtain p bf sn w where pc: "pc = Computing p bf sn w" by blast
    then have "bf \<noteq> Slot s" using i(6) a(3) by (auto simp: at_home_def resident_def split: if_splits)
    then show ?thesis using i(6) b(1) by (simp add: pc t holds_set buffer_set is_buf_def)
  qed (use i(6) a(6) in \<open>auto simp: t\<close>)
  then show ?thesis using gt rd i(3,5) by (simp add: steady_def t)
qed

section \<open>Steps of the walk\<close>

lemma stat_same [simp]:
  "resident (tr\<lparr>tr_hits := x\<rparr>) s L = resident tr s L" "n_lay (tr\<lparr>tr_hits := x\<rparr>) = n_lay tr"
  "holds fl (tr\<lparr>tr_hits := x\<rparr>) bf L = holds fl tr bf L" "at_home (tr\<lparr>tr_hits := x\<rparr>) p bf = at_home tr p bf"
  "tables fl (tr\<lparr>tr_hits := x\<rparr>) = tables fl tr" "geo (tr\<lparr>tr_hits := x\<rparr>) = geo tr" "flight (tr\<lparr>tr_hits := x\<rparr>) = flight tr"
  "succ_l (tr\<lparr>tr_hits := x\<rparr>) L = succ_l tr L" "pred_l (tr\<lparr>tr_hits := x\<rparr>) L = pred_l tr L" "reading fl (tr\<lparr>tr_hits := x\<rparr>) rd = reading fl tr rd"
  by (cases bf; simp add: walk_defs tables_def geo_def reading_def)+

lemma steadyD:
  assumes "steady F c fl tr rd pc"
  shows "geo tr" "tables fl tr" "order tr pc" "reading fl tr rd" "ahead tr pc" "here F c fl tr pc"
  using assms by (auto simp: steady_def)

lemma steadyI:
  "geo tr \<Longrightarrow> tables fl tr \<Longrightarrow> order tr pc \<Longrightarrow> reading fl tr rd \<Longrightarrow> ahead tr pc \<Longrightarrow> here F c fl tr pc \<Longrightarrow> steady F c fl tr rd pc"
  by (simp add: steady_def)

text \<open>With no read in flight the reader is idle.\<close>

lemma no_flight: "flight tr = None \<Longrightarrow> reading fl tr rd \<Longrightarrow> rd = None"
  by (cases rd) (auto simp: flight_def reading_def split: option.splits if_splits)

lemma reading_idle:
  assumes "flight tr = None" "reading fl tr rd" "tr_io tr' = tr_io tr"
  shows "reading fl tr' rd"
  using assms no_flight [OF assms(1,2)] by (auto simp: flight_def reading_def split: option.splits if_splits)

lemma ahead_idle: "flight tr = None \<Longrightarrow> ahead tr pc"
  by (simp add: ahead_def)

lemma order_pc:
  assumes "order tr pc" "upcoming tr pc' = upcoming tr pc" "\<And>x bf got. pc \<noteq> Loading x bf got"
  shows "order tr pc'"
  using assms unfolding order_def by (metis (full_types))

lemma awaits_flight: "awaits tr L \<longleftrightarrow> (\<exists>s. flight tr = Some (L, s))"
  by (auto simp: awaits_def flight_def split: option.splits)

lemma want_idle: "ahead tr (Want L) \<Longrightarrow> L < tr_npin tr \<or> \<not> awaits tr L \<Longrightarrow> flight tr = None"
  by (cases "flight tr") (force simp: ahead_def awaits_flight)+

lemma upcoming_resident:
  assumes "tables fl tr" "resident tr s p"
  shows "max (succ_l tr p) (tr_npin tr) = succ_l tr p" "pred_l tr (succ_l tr p) = p"
  using tablesD(1,2) [OF assms] pred_succ by (auto simp: succ_l_def)

lemma order_here:
  assumes "tables fl tr" "order tr pc" "resident tr s p" "\<And>x bf got. pc \<noteq> Loading x bf got"
  shows "order tr (Binding p (Slot s))"
  using assms(2-4) upcoming_resident [OF assms(1,3)] unfolding order_def by auto

lemma inv_claim_load:
  assumes iv: "steady F c fl tr rd (Want L)" and L: "\<not> L < tr_npin tr" "\<not> awaits tr L" "find_slot tr L = None" and cl: "claim tr = (s, tr1)"
  shows "steady F c fl tr1 rd (Loading L (Slot s) 0)"
proof -
  note i = steadyD [OF iv]
  have n: "L < n_lay tr" "flight tr = None" using i(5,6) L(2) want_idle by auto
  have nr: "\<not> resident tr s L" for s by (rule find_slot_none [OF L(3)])
  have sr: "s = tr_ring tr" "s < tr_nslot tr" using claim_same(1) [OF cl] i(1) by (auto simp: geo_def)
  have r: "resident tr1 s' l \<longleftrightarrow> resident tr s' l \<and> s' \<noteq> tr_ring tr" for s' l by (rule claim_resident [OF cl i(1)])
  note w = claim_walk [OF cl] claim_same(8,9) [OF cl]
  have od: "order tr1 (Loading L (Slot s) 0)" "tr_nslot tr = 2 \<longrightarrow> s = 1 - tr_ring tr1"
  proof -
    have u: "upcoming tr1 (Loading L (Slot s) 0) = L" "L = upcoming tr (Want L)" using L(1) w by simp_all
    have "order tr1 (Loading L (Slot s) 0) \<and> (tr_nslot tr = 2 \<longrightarrow> s = 1 - tr_ring tr1)"
    proof (cases "tr_nslot tr = 2")
      case True
      note c = claim_spares [OF cl i(1,2,3) u(2) _ n(1) nr n(2) _ True]
      have r1: "tr_ring tr1 = 1 - tr_ring tr" "tr_ring tr < 2" using c(4,5) L(1) by auto
      have "(\<forall>s L. \<not> resident tr1 s L) \<or> (\<exists>s. resident tr1 s (pred_l tr L))" using c(1) L(1) by auto
      moreover have "succ_l tr y = L" if "resident tr1 (tr_ring tr1) y" for y using c(3) [OF _ _ that] L(1) by auto
      moreover have "s = 1 - tr_ring tr1" using sr(1) r1 by linarith
      ultimately show ?thesis unfolding order_def u w by blast
    next
      case False
      then have "tr_nslot tr = 1" "tr_ring tr = 0" using i(1) by (auto simp: geo_def)
      then have "\<not> resident tr1 s' l" for s' l using r by (auto simp: resident_def)
      then show ?thesis using False unfolding order_def w by blast
    qed
    then show "order tr1 (Loading L (Slot s) 0)" "tr_nslot tr = 2 \<longrightarrow> s = 1 - tr_ring tr1" by auto
  qed
  have "tr_layer_of tr1 ! s = None" using sr i(1) by (simp add: claim_same(3) [OF cl] geo_def)
  then have "here F c fl tr1 (Loading L (Slot s) 0)" using n sr od(2) nr L(1) r by (simp add: w part_def)
  moreover have "ahead tr1 (Loading L (Slot s) 0)" using w n(2) by (simp add: ahead_idle)
  ultimately show ?thesis
    by (intro steadyI claim_geo [OF cl i(1)] claim_tables [OF cl i(1,2)] od(1) reading_idle [OF n(2) i(4) claim_same(10) [OF cl]])
qed

lemma inv_enter:
  assumes iv: "steady F c fl tr rd (Want L)" and e: "enter L tr = (tr', pc')"
  shows "pc' = Failed \<or> steady F c fl tr' rd pc'"
proof -
  note i = steadyD [OF iv]
  have n: "L < n_lay tr" using i(6) by simp
  show ?thesis
  proof (cases "L < tr_npin tr")
    case True
    then have f: "flight tr = None" using i(5) want_idle by blast
    show ?thesis
    proof (cases "tr_slot_of tr ! L")
      case None
      then have e': "tr' = tr" "pc' = Loading L (Pin L) 0" using e n True by (auto simp: enter_def bind_enter_def)
      have "order tr pc'" by (rule order_pc [OF i(3)]) (simp_all add: e')
      then show ?thesis using i None f n True by (simp add: steady_def e' ahead_idle part_def)
    next
      case (Some s)
      then have e': "tr' = tr\<lparr>tr_hits := tr_hits tr + 1\<rparr>" "pc' = Binding L (Pin L)" using e n True by (auto simp: enter_def bind_enter_def)
      have "order tr pc'" by (rule order_pc [OF i(3)]) (use True n in \<open>auto simp: e' succ_l_def\<close>)
      then have "order tr' pc'" by (simp add: order_def e')
      then show ?thesis using i f n True tablesD(5) [OF i(2) True n Some] by (simp add: steady_def e' ahead_idle at_home_def)
    qed
  next
    case False
    consider "awaits tr L" | s where "\<not> awaits tr L" "find_slot tr L = Some s" | "\<not> awaits tr L" "find_slot tr L = None" by fastforce
    then show ?thesis
    proof cases
      case 1
      then have e': "tr' = tr" "pc' = Waiting L" using e n False by (auto simp: enter_def bind_enter_def)
      have "order tr pc'" by (rule order_pc [OF i(3)]) (simp_all add: e')
      moreover have "ahead tr pc'" using i(5) by (auto simp: ahead_def e')
      ultimately show ?thesis using i 1 by (simp add: steady_def e' awaits_flight)
    next
      case 2
      then have e': "tr' = tr\<lparr>tr_hits := tr_hits tr + 1\<rparr>" "pc' = Binding L (Slot s)" using e n False by (auto simp: enter_def bind_enter_def)
      have f: "flight tr = None" using i(5) 2(1) want_idle by blast
      have "order tr pc'" unfolding e' by (rule order_here [OF i(2,3) find_slot_some [OF 2(2)]]) simp
      then have "order tr' pc'" by (simp add: order_def e')
      moreover have "at_home tr L (Slot s)" "holds fl tr (Slot s) L"
        using find_slot_some [OF 2(2)] n False tablesD(3) [OF i(2)] by (auto simp: at_home_def)
      ultimately show ?thesis using i f by (simp add: steady_def e' ahead_idle)
    next
      case 3
      obtain s tr1 where cl: "claim tr = (s, tr1)" by (cases "claim tr")
      then have "tr' = tr1" "pc' = Loading L (Slot s) 0" using e n False 3 by (auto simp: enter_def bind_enter_def)
      then show ?thesis using inv_claim_load [OF iv False 3 cl] by simp
    qed
  qed
qed

text \<open>A load of the walk's own.\<close>

lemma loading_buf:
  assumes "geo tr" "here F c fl tr (Loading L bf got)"
  shows "is_buf tr bf" "span_at tr L \<le> length (buffer tr bf)" "unnamed tr bf"
  using assms(2) slot_buf [OF assms(1)] pin_buf [OF assms(1)]
  by (auto simp: unnamed_def resident_def split: if_splits)

lemma inv_ld_read:
  assumes iv: "steady F c fl tr rd (Loading L bf got)" and g: "got < run_len tr L" and r: "load_read fl tr L got chunk = r"
  shows "steady F c fl (load_put bf got r tr) rd (Loading L bf (got + length r))"
proof -
  let ?b = "splice (buffer tr bf) got r" and ?tr = "load_put bf got r tr"
  have t: "?tr = set_buffer bf ?b tr" by (simp add: load_put_def)
  note i = steadyD [OF iv] and b = loading_buf [OF steadyD(1,6) [OF iv]]
  have h: "L < n_lay tr" "part fl tr bf L got" "flight tr = None" using i(6) by auto
  from read_more [OF h(2) g r b(1) order_trans [OF run_len_span b(2)] geo_off [OF i(1) h(1)]]
  have m: "part fl ?tr bf L (got + length r)" "length ?b = length (buffer tr bf)" .
  have "order tr (Loading L bf (got + length r))" using i(3) by (auto simp: order_def)
  moreover have "here F c fl ?tr (Loading L bf (got + length r))" using i(6) m(1) unfolding t by (auto split: if_splits)
  moreover have "reading fl ?tr rd" by (rule reading_idle [OF h(3) i(4)]) (simp add: t)
  moreover have "geo ?tr" "tables fl ?tr" unfolding t by (rule geo_set [OF i(1) b(1) m(2)], rule write_tables [OF i(2) b(1,3)])
  moreover have "ahead ?tr (Loading L bf (got + length r))" using h(3) by (intro ahead_idle) (simp add: t)
  ultimately show ?thesis by (intro steadyI) (simp_all only: t set_buffer_walk)
qed

text \<open>A slot has been filled and takes its layer's name.\<close>

definition named :: "nat \<Rightarrow> nat \<Rightarrow> K3Trunk \<Rightarrow> K3Trunk \<Rightarrow> bool" where
  "named s L tr tr' \<longleftrightarrow> tr_layer_of tr' = (tr_layer_of tr)[s := Some L] \<and>
     (tr_slot_of tr' = tr_slot_of tr \<or> tr_slot_of tr' = (tr_slot_of tr)[L := Some s]) \<and>
     tr_lay tr' = tr_lay tr \<and> tr_pin tr' = tr_pin tr \<and> tr_arena tr' = tr_arena tr \<and> tr_widen_bytes tr' = tr_widen_bytes tr \<and>
     tr_nslot tr' = tr_nslot tr \<and> tr_npin tr' = tr_npin tr \<and> tr_ring tr' = tr_ring tr \<and> (tr_io tr' = None \<longleftrightarrow> tr_io tr = None)"

lemma inv_named:
  assumes nm: "named s L tr tr'" and geo: "geo tr" and tab: "tables fl tr" and od: "order tr pc"
    and s: "s < tr_nslot tr" "tr_layer_of tr ! s = None" "tr_nslot tr = 2 \<Longrightarrow> s = 1 - tr_ring tr" and L: "tr_npin tr \<le> L" "L < n_lay tr" "\<And>s. \<not> resident tr s L"
    and h: "holds fl tr (Slot s) L" and f: "flight tr' = None" "\<And>x s'. flight tr = Some (x, s') \<Longrightarrow> x = L \<and> s' = s"
    and p: "\<And>x bf got. pc = Loading x bf got \<Longrightarrow> x = L \<and> bf = Slot s" and rd: "reading fl tr' rd"
  shows "steady F c fl tr' rd (Binding L (Slot s))"
proof -
  have nm': "tr_layer_of tr' = (tr_layer_of tr)[s := Some L]" "tr_lay tr' = tr_lay tr" "tr_pin tr' = tr_pin tr" "tr_arena tr' = tr_arena tr"
    "tr_widen_bytes tr' = tr_widen_bytes tr" "tr_nslot tr' = tr_nslot tr" "tr_npin tr' = tr_npin tr" "tr_ring tr' = tr_ring tr"
    "tr_io tr' = None \<longleftrightarrow> tr_io tr = None" "tr_slot_of tr' = tr_slot_of tr \<or> tr_slot_of tr' = (tr_slot_of tr)[L := Some s]"
    using nm by (auto simp: named_def)
  have len: "length (tr_layer_of tr) = tr_nslot tr" "length (tr_slot_of tr) = n_lay tr" using geo by (auto simp: geo_def)
  have w: "n_lay tr' = n_lay tr" "span_at tr' l = span_at tr l" "holds fl tr' bf l = holds fl tr bf l" "succ_l tr' l = succ_l tr l" "pred_l tr' l = pred_l tr l" for l bf
    by (cases bf; simp add: walk_defs nm')+
  have r: "resident tr' s' l \<longleftrightarrow> (if s' = s then l = L else resident tr s' l)" for s' l
    using s(1) len by (auto simp: resident_def nm' nth_list_update)
  have "length (tr_slot_of tr') = n_lay tr" using nm'(10) len(2) by auto
  then have "geo tr'" using geo unfolding geo_def w by (auto simp: nm'(1-9))
  moreover have tab': "tables fl tr'"
  proof (rule tablesI, goal_cases)
    case (1 s' l) then show ?case using tablesD(1-3) [OF tab] L(1,2) h unfolding r w nm' by (auto split: if_splits)
  next
    case (2 s1 s2 l) then show ?case using tablesD(4) [OF tab] L(3) unfolding r by (auto split: if_splits)
  next
    case (3 l s') then show ?case using tablesD(5) [OF tab] L(1) nm'(10) unfolding w nm' by (auto simp: nth_list_update)
  next
    case (4 l s')
    have "l = L \<and> s' = s \<or> tr_slot_of tr ! l = Some s'" using 4 nm'(10) len(2) unfolding w by (cases "l = L") auto
    then show ?case using tablesD(6) [OF tab] 4 s(2) unfolding w nm' r by (auto simp: resident_def)
  qed
  moreover have "order tr' (Binding L (Slot s))"
  proof -
    have res: "resident tr' s L" by (simp add: r)
    note u = upcoming_resident [OF tab' res]
    have "resident tr' (1 - tr_ring tr') (succ_l tr' x)" if two: "tr_nslot tr' = 2" and x: "resident tr' (tr_ring tr') x" for x
    proof -
      have rg: "s = 1 - tr_ring tr" using s(3) two nm' by simp
      moreover have "tr_ring tr < 2" using geo two nm' by (auto simp: geo_def)
      ultimately have "tr_ring tr \<noteq> s" by presburger
      then have "resident tr (tr_ring tr) x" using x r nm' by simp
      then have "resident tr (1 - tr_ring tr) (succ_l tr x) \<or> flight tr = Some (succ_l tr x, 1 - tr_ring tr) \<or>
          (\<exists>got. pc = Loading (succ_l tr x) (Slot (1 - tr_ring tr)) got)" using od two nm' by (simp add: order_def)
      then have "succ_l tr x = L" using rg s(2) f(2) p by (auto simp: resident_def)
      then show ?thesis using rg r nm' w by simp
    qed
    then show ?thesis using res u f(1) unfolding order_def by auto
  qed
  moreover have "here F c fl tr' (Binding L (Slot s))" using f(1) L h by (simp add: w r at_home_def nm')
  ultimately show ?thesis using rd ahead_idle [OF f(1)] by (intro steadyI)
qed

lemma inv_ld_done:
  assumes iv: "steady F c fl tr rd (Loading L bf got)" and g: "\<not> got < run_len tr L"
  shows "steady F c fl (load_done L bf tr) rd (Binding L bf)"
proof -
  note i = steadyD [OF iv]
  have h: "L < n_lay tr" "holds fl tr bf L" "flight tr = None" using i(6) part_full [OF _ g] by auto
  show ?thesis
  proof (cases "L < tr_npin tr")
    case True
    have bf: "bf = Pin L" using i(6) True by simp
    define tr1 where "tr1 = load_done L bf tr"
    have t: "tr1 = tr\<lparr>tr_slot_of := (tr_slot_of tr)[L := Some L], tr_misses := tr_misses tr + 1\<rparr>" by (simp add: tr1_def bf)
    have sel: "tr_nslot tr1 = tr_nslot tr" "tr_ring tr1 = tr_ring tr" "tr_npin tr1 = tr_npin tr" "tr_io tr1 = tr_io tr"
      "tr_slot_of tr1 = (tr_slot_of tr)[L := Some L]" by (simp_all add: t)
    have w: "n_lay tr1 = n_lay tr" "resident tr1 s l = resident tr s l" "holds fl tr1 b l = holds fl tr b l" "succ_l tr1 l = succ_l tr l" "pred_l tr1 l = pred_l tr l"
      "flight tr1 = flight tr" for s l b
      by (cases b; simp add: walk_defs t)+
    have "geo tr1" using i(1) by (simp add: geo_def n_lay_def span_at_def t)
    moreover have "tables fl tr1"
    proof (rule tablesI, unfold w sel, goal_cases)
      case (1 s l) then show ?case using tablesD(1-3) [OF i(2)] by simp
    next
      case (2 s s' l) then show ?case using tablesD(4) [OF i(2)] by blast
    next
      case (3 l s) then show ?case using tablesD(5) [OF i(2)] h bf by (cases "l = L") auto
    next
      case (4 l s) then show ?case using tablesD(6) [OF i(2)] True by (cases "l = L") auto
    qed
    moreover have "order tr1 (Binding L bf)" using i(3) bf True h(1) by (auto simp: order_def w sel max_def succ_l_def [of tr L])
    moreover have "reading fl tr1 rd" by (rule reading_idle [OF h(3) i(4) sel(4)])
    moreover have "here F c fl tr1 (Binding L bf)" using h True bf by (simp add: w sel at_home_def)
    moreover have "ahead tr1 (Binding L bf)" using h(3) by (intro ahead_idle) (simp add: w)
    ultimately show ?thesis unfolding tr1_def by (intro steadyI)
  next
    case False
    then obtain s where s: "bf = Slot s" "s < tr_nslot tr" "tr_layer_of tr ! s = None" "\<And>s. \<not> resident tr s L" "tr_nslot tr = 2 \<longrightarrow> s = 1 - tr_ring tr" using i(6) by auto
    let ?tr = "load_done L bf tr"
    have nm: "named s L tr ?tr" using s(1) by (simp add: named_def)
    have io: "tr_io ?tr = tr_io tr" using s(1) by simp
    have f: "flight ?tr = None" using h(3) io by (simp add: flight_def)
    have "reading fl ?tr rd" by (rule reading_idle [OF h(3) i(4) io])
    then have "steady F c fl ?tr rd (Binding L (Slot s))"
      using False h s f by (intro inv_named [OF nm i(1,2,3)]) auto
    then show ?thesis using s(1) by simp
  qed
qed

lemma inv_waited:
  assumes iv: "steady F c fl tr rd (Waiting L)" and io: "tr_io tr = Some io" "io_done io" and cs: "io_consume L io tr = (True, tr')"
  shows "steady F c fl tr' rd (Binding L (Slot (the (tr_slot_of tr' ! L))))"
proof -
  note i = steadyD [OF iv]
  have "flight tr = Some (io_layer io, io_slot io)" using io by (simp add: flight_def)
  then have f: "flight tr = Some (L, io_slot io)" "io_layer io = L" using i(6) by auto
  have a: "tr_nslot tr = 2" "io_slot io = 1 - tr_ring tr" "tr_layer_of tr ! io_slot io = None" "tr_npin tr \<le> L" "L < n_lay tr" "\<And>s. \<not> resident tr s L"
    using i(5) f(1) by (auto simp: ahead_def)
  have q: "\<not> io_stop io" "\<not> io_busy io" "io_result io = 0 \<longrightarrow> holds fl tr (Slot (io_slot io)) L" using i(4) io f(2) by (auto simp: reading_def)
  have tr': "tr' = tr\<lparr>tr_io := Some (io\<lparr>io_done := False\<rparr>), tr_layer_of := (tr_layer_of tr)[io_slot io := Some L],
      tr_slot_of := (tr_slot_of tr)[L := Some (io_slot io)], tr_misses := tr_misses tr + 1\<rparr>" and ok: "io_result io = 0"
    using cs q(1) by (auto simp: io_consume_def Let_def)
  have nm: "named (io_slot io) L tr tr'" using io by (simp add: named_def tr')
  have rd: "rd = None" using i(4) io q(2) by (cases rd) (auto simp: reading_def)
  have "flight tr' = None" using q(2) by (simp add: flight_def tr')
  moreover have "reading fl tr' rd" using q(1) by (simp add: reading_def rd tr')
  ultimately have "steady F c fl tr' rd (Binding L (Slot (io_slot io)))"
    using a q(3) ok f(1) by (intro inv_named [OF nm i(1,2,3)]) auto
  moreover have "tr_slot_of tr' ! L = Some (io_slot io)" using i(1) a(5) by (simp add: tr' geo_def)
  ultimately show ?thesis by simp
qed

text \<open>The widen area keeps its size.\<close>

lemma put_wide_length: "put_wide cap q fs m = Some m' \<Longrightarrow> cap \<le> length (mb_widen m) \<Longrightarrow> length (mb_widen m') = length (mb_widen m)"
  by (auto simp: put_wide_def point_at_place_def Let_def length_splice split: if_splits)

lemma mem_req_length: "mem_req F find' run cap q m = Some m' \<Longrightarrow> cap \<le> length (mb_widen m) \<Longrightarrow> length (mb_widen m') = length (mb_widen m)"
  by (auto simp: mem_req_def widen_i8_def Let_def point_at_place_def split: if_splits option.splits prod.splits dest!: put_wide_length)

lemma mem_reqs_length: "mem_reqs F find' run cap qs m = Some m' \<Longrightarrow> cap \<le> length (mb_widen m) \<Longrightarrow> length (mb_widen m') = length (mb_widen m)"
proof (induction qs arbitrary: m)
  case (Cons q qs)
  then obtain m1 where m1: "mem_req F find' run cap q m = Some m1" "mem_reqs F find' run cap qs m1 = Some m'" by (auto split: option.splits)
  then show ?case using Cons.IH [OF m1(2)] Cons.prems(2) mem_req_length [OF m1(1)] by simp
qed simp

lemma bind_mem_length:
  assumes "k3_bind_layer_mem F c L run find' widen cap = Some (b, widen', used)" "cap \<le> length widen"
  shows "length widen' = length widen"
  using assms mem_reqs_length [of F find' run cap _ "mem_init widen"]
  by (auto simp: k3_bind_layer_mem_def Let_def mem_init_def split: option.splits if_splits)

lemma inv_weights:
  assumes iv: "steady F c fl tr rd (Binding L bf)" and b: "bind_in F c L bf tr = Some (b, tr')"
  shows "steady F c fl tr' rd (Bound L bf (buffer tr' bf) b)"
proof -
  note i = steadyD [OF iv]
  let ?b = "buffer tr bf" and ?at = "nat (align_up (tl_nbytes (tr_lay tr ! L)))"
  have h: "at_home tr L bf" "flight tr = None" "holds fl tr bf L" using i(6) by auto
  note bf = home_buf [OF i(1) h(1)]
  obtain widen used where w: "k3_bind_layer_mem F c (int L) ?b (find_in_layer (tr_lay tr ! L)) (drop ?at ?b) (tr_widen_bytes tr) = Some (b, widen, used)"
    "tr' = set_buffer bf (take ?at ?b @ widen) tr"
    using b by (auto simp: bind_in_def Let_def)
  have rm: "?at + tr_widen_bytes tr \<le> length ?b" using bf(2) by (simp add: span_at_def)
  have len: "length (take ?at ?b @ widen) = length ?b" using bind_mem_length [OF w(1)] rm by simp
  have ra: "run_len tr L \<le> ?at" unfolding run_len_def using align_up_ge by (intro nat_mono)
  have buf: "buffer tr' bf = take ?at ?b @ widen" using bf(1) unfolding w(2) is_buf_def by (simp add: buffer_set)
  have same: "take (run_len tr L) (take ?at ?b @ widen) = take (run_len tr L) ?b" using ra rm by (simp add: min_def)
  have ho: "holds fl tr' bf L" using h(3) same unfolding w(2) holds_set [OF bf(1)] by (simp add: holds_def)
  have other: "holds fl tr' bf' l" if "holds fl tr bf' l" "l = L \<or> bf' \<noteq> bf" for bf' l
    using that ho unfolding w(2) holds_set [OF bf(1)] by (auto split: if_splits)
  have bd: "bound_as F c fl tr L b" using w(1) bf(2) h(3) by (auto simp: bound_as_def holds_def)
  have lone: "l = L" if "resident tr s' l" "Slot s' = bf" for s' l
    using that h(1) by (auto simp: at_home_def resident_def split: if_splits)
  have "tables fl tr'"
  proof (rule tablesI, goal_cases)
    case (1 s l)
    then have r: "resident tr s l" by (simp add: w(2))
    then have "l = L \<or> Slot s \<noteq> bf" using lone by blast
    then show ?case using tablesD(1-3) [OF i(2) r] other by (simp add: w(2))
  next
    case (2 s s' l) then show ?case using tablesD(4) [OF i(2)] by (simp add: w(2))
  next
    case (3 l s)
    then have "l = L \<or> Pin l \<noteq> bf" using h(1) by (auto simp: at_home_def split: if_splits)
    then show ?case using tablesD(5) [OF i(2)] other 3 by (simp add: w(2))
  next
    case (4 l s) then show ?case using tablesD(6) [OF i(2)] by (simp add: w(2))
  qed
  moreover have "order tr (Bound L bf (buffer tr' bf) b)" by (rule order_pc [OF i(3)]) simp_all
  moreover have "reading fl tr' rd" by (rule reading_idle [OF h(2) i(4)]) (simp add: w(2))
  moreover have "geo tr'" unfolding w(2) by (rule geo_set [OF i(1) bf(1) len])
  moreover have "ahead tr' (Bound L bf (buffer tr' bf) b)" using h(2) by (intro ahead_idle) (simp add: w(2))
  ultimately show ?thesis using h ho bd by (intro steadyI) (simp_all add: w(2))
qed

lemma inv_hint:
  assumes iv: "steady F c fl tr rd (Bound p bf sn b)"
  shows "steady F c fl (k3_trunk_prefetch (Suc p) tr) rd (Computing p bf sn b)"
proof -
  note i = steadyD [OF iv]
  have h: "at_home tr p bf" "flight tr = None" "holds fl tr bf p" "buffer tr bf = sn" "bound_as F c fl tr p b" using i(6) by auto
  have od: "order tr (Computing p bf sn b)" by (rule order_pc [OF i(3)]) simp_all
  then have idle: "steady F c fl tr rd (Computing p bf sn b)" using i(1,2,4) h by (intro steadyI) (simp_all add: ahead_idle)
  show ?thesis
  proof (cases "k3_trunk_prefetch (Suc p) tr = tr")
    case False
    then obtain io s tr1 where x: "Suc p < n_lay tr" "tr_npin tr \<le> Suc p" "find_slot tr (Suc p) = None" "tr_io tr = Some io" "\<not> io_busy io"
      and cl: "claim tr = (s, tr1)"
      and t: "k3_trunk_prefetch (Suc p) tr = tr1\<lparr>tr_io := Some (io\<lparr>io_layer := Suc p, io_slot := s, io_done := False, io_busy := True\<rparr>)\<rparr>"
      by (cases "claim tr") (auto simp: k3_trunk_prefetch_def split: if_splits option.splits)
    let ?x = "Suc p" and ?tr = "k3_trunk_prefetch (Suc p) tr"
    have two: "tr_nslot tr = 2" using i(1) x(4) by (auto simp: geo_def)
    have up: "?x = upcoming tr (Bound p bf sn b)" using x(1,2) by (simp add: succ_l_def)
    have nr: "\<not> resident tr s ?x" for s by (rule find_slot_none [OF x(3)])
    note sp = claim_spares [OF cl i(1-3) up x(2,1) nr h(2) _ two, simplified]
    note w = claim_walk [OF cl] claim_same(8,9) [OF cl]
    have r: "resident tr1 s' l \<longleftrightarrow> resident tr s' l \<and> s' \<noteq> tr_ring tr" for s' l by (rule claim_resident [OF cl i(1)])
    have s: "s = 1 - tr_ring tr1" "s = tr_ring tr" using claim_same(1) [OF cl] sp(4,5) by auto
    have f: "flight ?tr = Some (?x, s)" by (simp add: flight_def t)
    have lo: "tr_layer_of tr1 ! s = None" using s(2) sp(5) two i(1) by (simp add: claim_same(3) [OF cl] geo_def)
    have home: "at_home tr1 p bf"
    proof (cases "p < tr_npin tr")
      case False
      then obtain s0 where s0: "bf = Slot s0" "resident tr s0 p" using h(1) by (auto simp: at_home_def)
      have "pred_l tr ?x = p" using False by (simp add: pred_l_def)
      then have "s0 \<noteq> tr_ring tr" using s0(2) sp(2) by auto
      then show ?thesis using s0 False h(1) r by (auto simp: at_home_def w)
    qed (use h(1) in \<open>simp add: at_home_def w\<close>)
    have bd: "bound_as F c fl tr1 p b" using h(5) by (simp add: bound_as_def walk_defs claim_same [OF cl])
    have "geo ?tr" using claim_geo [OF cl i(1)] geo_io [of tr1 io] x(4) claim_same(10) [OF cl] by (simp add: t)
    moreover have "tables fl ?tr" using claim_tables [OF cl i(1,2)] by (simp add: t)
    moreover have "order ?tr (Computing p bf sn b)"
    proof -
      have "upcoming tr1 (Computing p bf sn b) = ?x" using up w by simp
      moreover have "(\<forall>s L. \<not> resident tr1 s L) \<or> (\<exists>s. resident tr1 s (pred_l tr ?x))" using sp(1) by auto
      ultimately show ?thesis using sp(3) s(1) f unfolding order_def by (simp add: t w)
    qed
    moreover have "reading fl ?tr rd"
    proof -
      have "rd = None" by (rule no_flight [OF h(2) i(4)])
      then show ?thesis using i(4) x(4) by (simp add: reading_def t)
    qed
    moreover have "ahead ?tr (Computing p bf sn b)" using f two s x(1,2) lo nr r unfolding ahead_def by (simp add: t w)
    moreover have "here F c fl ?tr (Computing p bf sn b)" using home h(3,4) bd by (simp add: t w)
    ultimately show ?thesis by (intro steadyI)
  qed (use idle in simp)
qed

lemma inv_computed:
  assumes iv: "steady F c fl tr rd (Computing p bf sn b)"
  shows "steady F c fl tr rd (Want (if p + 1 < n_lay tr then p + 1 else 0))"
proof -
  note i = steadyD [OF iv]
  have "order tr (Want (if p + 1 < n_lay tr then p + 1 else 0))" by (rule order_pc [OF i(3)]) (auto simp: succ_l_def)
  moreover have "ahead tr (Want (if p + 1 < n_lay tr then p + 1 else 0))" using i(5) by (fastforce simp: ahead_def)
  moreover have "0 < n_lay tr" using i(1) by (simp add: geo_def)
  ultimately show ?thesis using i(1,2,4) by (intro steadyI) auto
qed

section \<open>Every reachable state\<close>

lemma inv_step:
  assumes "trunk_step F c fl w w'" "walk_inv F c fl w"
  shows "walk_inv F c fl w'"
  using assms
proof (cases rule: trunk_step.cases)
  case (rd_take tr io pc) then show ?thesis using assms(2) by (auto simp: walk_inv_def intro: inv_rd_take)
next
  case (rd_read got tr L chunk r s pc) then show ?thesis using assms(2) by (auto simp: walk_inv_def intro: inv_rd_read)
next
  case (rd_fail got tr L io s pc) then show ?thesis using assms(2) inv_rd_end [of F c fl tr L s got pc io "-1"] by (auto simp: walk_inv_def)
next
  case (rd_done got tr L io s pc) then show ?thesis using assms(2) inv_rd_end [of F c fl tr L s got pc io 0] by (auto simp: walk_inv_def)
next
  case (bind L tr tr' pc' rd) then show ?thesis using assms(2) inv_enter [of F c fl tr rd L tr' pc'] by (auto simp: walk_inv_def)
next
  case (waited tr io L ok tr' rd) then show ?thesis using assms(2) by (cases ok) (auto simp: walk_inv_def intro: inv_waited)
next
  case (ld_read got tr L chunk r rd bf) then show ?thesis using assms(2) by (auto simp: walk_inv_def intro: inv_ld_read)
next
  case (ld_done got tr L rd bf) then show ?thesis using assms(2) by (auto simp: walk_inv_def intro: inv_ld_done)
next
  case (weights L bf tr b tr' rd) then show ?thesis using assms(2) by (auto simp: walk_inv_def intro: inv_weights)
next
  case (hint tr rd L bf snap b) then show ?thesis using assms(2) inv_hint [of F c fl tr rd L bf snap b] by (auto simp: walk_inv_def)
next
  case (computed tr rd L bf snap b) then show ?thesis using assms(2) inv_computed [of F c fl tr rd L bf snap b] by (simp add: walk_inv_def)
qed (auto simp: walk_inv_def)

text \<open>A layout as the packer writes it, and sizes that have settled.\<close>

definition layout_ok :: "K3TrunkLayer list \<Rightarrow> bool" where
  "layout_ok lay \<longleftrightarrow> lay \<noteq> [] \<and> (\<forall>l\<in>set lay. 0 \<le> tl_nbytes l \<and> 0 \<le> tl_file_off l)"

lemma init_geo:
  assumes lay: "layout_ok lay" and z: "settled lay (int widen) budget z"
  shows "geo (trunk_init lay widen z mem)"
proof -
  have nn: "\<forall>l\<in>set lay. 0 \<le> tl_nbytes l" using lay by (simp add: layout_ok_def)
  note f = sizes_fit [OF z nn]
  have fits: "nat (align_up (tl_nbytes (lay ! L))) + widen \<le> nat (sz_slot z)" if "sz_npin z \<le> L" "L < length lay" for L
  proof -
    have "0 \<le> align_up (tl_nbytes (lay ! L))" using nn that(2) align_up_ge order_trans by (metis nth_mem)
    then show ?thesis using f(3) [OF that] by linarith
  qed
  show ?thesis
    using lay f(1,2) fits by (auto simp: geo_def trunk_init_def n_lay_def span_at_def layout_ok_def)
qed

lemma init_inv:
  assumes "layout_ok lay" "settled lay (int widen) budget z"
  shows "walk_inv F c fl \<lparr>wk_tr = trunk_init lay widen z mem, wk_rd = None, wk_pc = Want 0\<rparr>"
proof -
  let ?tr = "trunk_init lay widen z mem"
  have nr: "\<not> resident ?tr s L" for s L by (simp add: resident_def trunk_init_def)
  have "geo ?tr" by (rule init_geo [OF assms])
  moreover have "tables fl ?tr" by (rule tablesI) (simp_all add: nr, simp_all add: trunk_init_def n_lay_def)
  moreover have "flight ?tr = None" by (simp add: flight_def trunk_init_def)
  moreover have "reading fl ?tr None" by (simp add: reading_def trunk_init_def)
  moreover have "0 < n_lay ?tr" using assms(1) by (simp add: n_lay_def trunk_init_def layout_ok_def)
  ultimately show ?thesis by (simp add: walk_inv_def steady_def order_def nr ahead_idle)
qed

lemma trunk_reach_inv:
  assumes "trunk_reach F c fl (trunk_init lay widen z mem) w" "layout_ok lay" "settled lay (int widen) budget z"
  shows "walk_inv F c fl w"
  using assms(1) by (induction rule: trunk_reach.induct) (use init_inv [OF assms(2,3)] inv_step in blast)+

lemma step_lay: "trunk_step F c fl w w' \<Longrightarrow> tr_lay (wk_tr w') = tr_lay (wk_tr w) \<and> tr_widen_bytes (wk_tr w') = tr_widen_bytes (wk_tr w)"
proof (induction rule: trunk_step.induct)
  case (bind L tr tr' pc' rd)
  then show ?case by (cases "claim tr") (auto simp: enter_def bind_enter_def claim_same split: if_splits option.splits prod.splits)
next
  case (weights L bf tr b tr' rd) then show ?case by (auto simp: bind_in_def Let_def)
next
  case (ld_done got tr L rd bf) then show ?case by (cases bf) simp_all
next
  case (hint tr rd L bf snap b)
  then show ?case by (cases "claim tr") (auto simp: k3_trunk_prefetch_def claim_same split: option.splits)
qed (auto simp: load_put_def io_consume_def Let_def)

lemma reach_lay:
  "trunk_reach F c fl (trunk_init lay widen z mem) w \<Longrightarrow> tr_lay (wk_tr w) = lay \<and> tr_widen_bytes (wk_tr w) = widen"
  by (induction rule: trunk_reach.induct) (use step_lay in \<open>force simp: trunk_init_def\<close>)+

text \<open>The layer in use: its buffer is as it was when the layer was bound, and holds the layer's bytes of the file.\<close>

fun in_use :: "'b loc \<Rightarrow> (nat \<times> buf \<times> bytes \<times> 'b) option" where
  "in_use (Bound L bf sn b) = Some (L, bf, sn, b)"
| "in_use (Computing L bf sn b) = Some (L, bf, sn, b)"
| "in_use pc = None"

lemma in_use_here:
  assumes "in_use pc = Some (L, bf, sn, b)" "here F c fl tr pc"
  shows "L < n_lay tr" "buffer tr bf = sn" "holds fl tr bf L" "bound_as F c fl tr L b"
  using assms by (cases pc; auto simp: at_home_def)+

lemma packed_prefix:
  assumes "packed s dk run find' ns" "take (length run) buf = run"
  shows "packed s dk buf find' ns"
proof -
  have le: "length run \<le> length buf" using assms(2) by (metis length_take min.cobounded1 min.commute)
  have "slice buf off n = slice run off n" if "0 \<le> off" "off + n \<le> int (length run)" for off n
  proof (cases "0 \<le> n")
    case True
    then show ?thesis using that assms(2) by (intro slice_prefix [of "length run"]) auto
  qed (simp add: slice_def)
  then show ?thesis using assms(1) le unfolding packed_def by (smt (verit) of_nat_mono)
qed

lemma streamed_layer:
  assumes reach: "trunk_reach F c fl (trunk_init lay widen z mem) w" and lay: "layout_ok lay" and z: "settled lay (int widen) budget z"
    and use: "in_use (wk_pc w) = Some (L, bf, sn, b :: ('c, 'q, 'd) K3LayerBind)"
  shows "L < length lay" "buffer (wk_tr w) bf = sn" "take (nat (tl_nbytes (lay ! L))) sn = slice fl (tl_file_off (lay ! L)) (tl_nbytes (lay ! L))"
    "\<lbrakk>well_sized s; k3_bind_layer s dk mem' c (int L) = Some b1;
      packed s dk (slice fl (tl_file_off (lay ! L)) (tl_nbytes (lay ! L))) (find_in_layer (lay ! L))
        (map rq_name (pl_r (plan_layer c (int L) (k3_is_mla c (int L)) (k3_is_dense c (int L)) (plan_empty True :: ('c, 'q, 'd) K3LayerBind BindPlan))))\<rbrakk>
     \<Longrightarrow> b = b1"
proof -
  note l = reach_lay [OF reach]
  have "wk_pc w \<noteq> Failed" using use by auto
  then have "here F c fl (wk_tr w) (wk_pc w)" using trunk_reach_inv [OF reach lay z] by (simp add: walk_inv_def steady_def)
  note h = in_use_here [OF use this]
  show "L < length lay" "buffer (wk_tr w) bf = sn" "take (nat (tl_nbytes (lay ! L))) sn = slice fl (tl_file_off (lay ! L)) (tl_nbytes (lay ! L))"
    using h(1-3) l by (simp_all add: n_lay_def holds_def run_len_def layer_run_def)
  let ?run = "slice fl (tl_file_off (lay ! L)) (tl_nbytes (lay ! L))"
  obtain run widen' used where r: "k3_bind_layer_mem F c (int L) run (find_in_layer (lay ! L)) (drop (nat (align_up (tl_nbytes (lay ! L)))) run) widen = Some (b, widen', used)"
    "span_at (wk_tr w) L \<le> length run" "take (nat (tl_nbytes (lay ! L))) run = ?run"
    using h(4) l by (auto simp: bound_as_def run_len_def layer_run_def)
  have cap: "widen \<le> length (drop (nat (align_up (tl_nbytes (lay ! L)))) run)" using r(2) l by (simp add: span_at_def)
  have "take (length ?run) run = ?run" using r(3) by (metis append_eq_conv_conj append_take_drop_id)
  note pf = packed_prefix [OF _ this]
  show "b = b1" if "well_sized s" "k3_bind_layer s dk mem' c (int L) = Some b1"
    "packed s dk ?run (find_in_layer (lay ! L))
        (map rq_name (pl_r (plan_layer c (int L) (k3_is_mla c (int L)) (k3_is_dense c (int L)) (plan_empty True :: ('c, 'q, 'd) K3LayerBind BindPlan))))"
    by (rule bind_mem_is_bind [OF that(1,2) r(1) cap pf [OF that(3)]])
qed

text \<open>The walk is never stuck: when it waits, the reader has work or has finished.\<close>

lemma reader_runs:
  assumes "tr_io tr = Some io" "io_busy io" "\<not> io_stop io"
  shows "\<exists>w'. trunk_step F c fl \<lparr>wk_tr = tr, wk_rd = rd, wk_pc = pc\<rparr> w'"
proof (cases rd)
  case None then show ?thesis using trunk_step.rd_take [OF assms] by blast
next
  case (Some x)
  then obtain L s got where "rd = Some (L, s, got)" by (cases x) auto
  then show ?thesis using trunk_step.rd_fail [OF _ assms(1)] trunk_step.rd_done [OF _ assms(1)] by (cases "got < run_len tr L") blast+
qed

lemma waits_for_its_layer:
  assumes "walk_inv F c fl w" "wk_pc w = Waiting L"
  shows "\<exists>io. tr_io (wk_tr w) = Some io \<and> io_layer io = L \<and> (io_busy io \<or> io_done io) \<and> \<not> io_stop io"
proof -
  have st: "steady F c fl (wk_tr w) (wk_rd w) (wk_pc w)" using assms by (simp add: walk_inv_def)
  then obtain s where "flight (wk_tr w) = Some (L, s)" using steadyD(6) [OF st] assms(2) by auto
  then obtain io where io: "tr_io (wk_tr w) = Some io" "io_busy io \<or> io_done io" "io_layer io = L"
    by (auto simp: flight_def split: option.splits if_splits)
  moreover have "\<not> io_stop io" using steadyD(4) [OF st] io(1) by (simp add: reading_def)
  ultimately show ?thesis by blast
qed

lemma never_stuck:
  fixes w :: "('c, 'q, 'd) K3LayerBind Walk"
  assumes "walk_inv F c fl w" "wk_pc w \<noteq> Failed"
  shows "\<exists>w'. trunk_step F c fl w w'"
proof -
  obtain tr rd pc where w: "w = \<lparr>wk_tr = tr, wk_rd = rd, wk_pc = pc\<rparr>" by (cases w)
  have st: "steady F c fl tr rd pc" using assms w by (auto simp: walk_inv_def)
  show ?thesis
  proof (cases pc)
    case (Want L)
    obtain tr' and pc' :: "('c, 'q, 'd) K3LayerBind loc" where "enter L tr = (tr', pc')" by fastforce
    from trunk_step.bind [OF this] show ?thesis unfolding w Want by blast
  next
    case (Waiting L)
    then obtain s where "flight tr = Some (L, s)" using steadyD(6) [OF st] by auto
    then obtain io where io: "tr_io tr = Some io" "io_busy io \<or> io_done io" by (auto simp: flight_def split: option.splits if_splits)
    have "\<not> io_stop io" using steadyD(4) [OF st] io(1) by (simp add: reading_def)
    then have "io_busy io \<Longrightarrow> ?thesis" using reader_runs [OF io(1)] unfolding w by blast
    moreover have "?thesis" if d: "io_done io"
    proof -
      obtain ok tr' where "io_consume L io tr = (ok, tr')" by (cases "io_consume L io tr")
      from trunk_step.waited [OF io(1) d this] show ?thesis unfolding w Waiting by blast
    qed
    ultimately show ?thesis using io(2) by blast
  next
    case (Loading L bf got)
    then show ?thesis using trunk_step.ld_fail trunk_step.ld_done unfolding w by (cases "got < run_len tr L") blast+
  next
    case (Binding L bf)
    show ?thesis
    proof (cases "bind_in F c L bf tr :: (('c, 'q, 'd) K3LayerBind \<times> K3Trunk) option")
      case None then show ?thesis using trunk_step.no_weights unfolding w Binding by blast
    next
      case (Some x)
      then obtain b tr' where "bind_in F c L bf tr = Some (b :: ('c, 'q, 'd) K3LayerBind, tr')" by (cases x) auto
      from trunk_step.weights [OF this] show ?thesis unfolding w Binding by blast
    qed
  next
    case (Bound L bf sn b) then show ?thesis using trunk_step.hint unfolding w by blast
  next
    case (Computing L bf sn b) then show ?thesis using trunk_step.computed unfolding w by blast
  qed (use assms w in simp)
qed

end
