(* ===== verification/K3_Trunk_Demo.thy ===== *)
theory K3_Trunk_Demo
  imports K3_Trunk_Laws
begin

text \<open>
  A checkpoint whose layer has one element in every tensor, the trunk packed from it, and a walk up to the point where the
  first layer is computed with while the second is read.
\<close>

section \<open>The plan\<close>

definition unit_cfg :: K3Cfg where
  "unit_cfg = \<lparr>cf_hidden = 1, cf_n_layers = 2, cf_vocab = 1, cf_rms_eps = 0, cf_kda_heads = 1, cf_kda_head_dim = 1,
     cf_conv_k = 1, cf_gate_lb = 0, cf_n_heads = 1, cf_q_lora = 1, cf_kv_lora = 1, cf_qk_nope = 1,
     cf_qk_rope = 1, cf_v_head = 1, cf_mla_out_gate = True, cf_n_experts = 1, cf_topk = 1, cf_n_shared = 1,
     cf_latent = 1, cf_moe_inter = 1, cf_routed_scale = 0, cf_moe_renorm = True, cf_latent_norm = True,
     cf_first_dense = 2, cf_dense_inter = 1, cf_attn_res_block = 12, cf_situ_b1 = 0, cf_situ_b2 = 0, cf_full_attn = []\<rparr>"

definition unit_plan :: "bool \<Rightarrow> (unit, unit, unit) K3LayerBind BindPlan" where
  "unit_plan ok = plan_layer unit_cfg 0 False True (plan_empty ok)"

definition unit_names :: "cstr list" where
  "unit_names = map rq_name (pl_r (unit_plan True))"

lemma unit_kind: "k3_is_mla unit_cfg 0 = False" "k3_is_dense unit_cfg 0 = True"
  by (simp_all add: unit_cfg_def k3_is_mla_def k3_is_dense_def)

definition unit_req :: "('b BindPlan \<Rightarrow> 'b BindPlan) \<Rightarrow> bool" where
  "unit_req r \<longleftrightarrow> (\<exists>d n k nm. r = req d n 1 k nm \<and> (k = 1 \<or> k < 0))"

lemma unit_req [simp]: "unit_req (reqw f 1 (-1) nm)" "unit_req (reqw f 1 1 nm)" "unit_req (reqn d 1 nm)"
  unfolding unit_req_def reqw_def reqn_def by force+

lemma unit_fold:
  assumes "list_all unit_req rs" "\<forall>q\<in>set (pl_r p). rq_want q = 1 \<and> rq_take q = 1"
  shows "\<forall>q\<in>set (pl_r (fold (\<lambda>r. r) rs p)). rq_want q = 1 \<and> rq_take q = 1"
  using assms
proof (induction rs arbitrary: p)
  case (Cons r rs)
  obtain d n k nm where r: "r = req d n 1 k nm" "k = 1 \<or> k < 0" using Cons.prems(1) by (auto simp: unit_req_def)
  have "\<forall>q\<in>set (pl_r (r p)). rq_want q = 1 \<and> rq_take q = 1" using Cons.prems(2) r by (auto simp: req_def)
  then show ?case using Cons.IH [of "r p"] Cons.prems(1) by simp
qed simp

lemma fold_length:
  "list_all is_req rs \<Longrightarrow> length rs + length (pl_r p) \<le> MAXB \<Longrightarrow> length (pl_r (fold (\<lambda>r. r) rs p)) = length rs + length (pl_r p)"
proof (induction rs arbitrary: p)
  case (Cons r rs)
  obtain d n w k nm where r: "r = req d n w k nm" using Cons.prems(1) by (auto simp: is_req_def)
  then show ?case using Cons.IH [of "r p"] Cons.prems by (auto simp: req_def)
qed simp

lemma unit_plan_reqs: "\<forall>q\<in>set (pl_r (unit_plan ok)). rq_want q = 1 \<and> rq_take q = 1" "length (pl_r (unit_plan ok)) = 23"
proof -
  let ?rs = "norm_reqs unit_cfg 0 @ kda_reqs unit_cfg 0 @ mlp_reqs unit_cfg 0 True"
  have "list_all unit_req ?rs" by (simp add: norm_reqs_def kda_reqs_def mlp_reqs_def Let_def unit_cfg_def)
  from unit_fold [OF this, of "plan_empty ok"] show "\<forall>q\<in>set (pl_r (unit_plan ok)). rq_want q = 1 \<and> rq_take q = 1"
    by (simp add: unit_plan_def plan_layer_def plan_empty_def)
  have "list_all is_req ?rs" "length ?rs = 23" by (simp_all add: norm_reqs_def kda_reqs_def mlp_reqs_def Let_def)
  moreover have "length (pl_r (fold (\<lambda>r. r) rs p)) = 23" if "list_all is_req rs" "length rs = 23" "pl_r p = []"
    for rs and p :: "(unit, unit, unit) K3LayerBind BindPlan"
    using fold_length [OF that(1), of p] that(2,3) by (simp add: MAXB_def)
  moreover have "pl_r (plan_empty ok :: (unit, unit, unit) K3LayerBind BindPlan) = []" by (simp add: plan_empty_def)
  ultimately have "length (pl_r (fold (\<lambda>r. r) ?rs (plan_empty ok :: (unit, unit, unit) K3LayerBind BindPlan))) = 23" by blast
  then show "length (pl_r (unit_plan ok)) = 23" unfolding unit_plan_def plan_layer_def if_False .
qed

section \<open>The checkpoint\<close>

definition unit_tensor :: "cstr \<Rightarrow> K3Tensor" where
  "unit_tensor name = \<lparr>t_name = name, t_shard = 0, t_dtype = K3_DT_BF16, t_shape = [1], t_off = 0, t_nbytes = 2\<rparr>"

definition unit_ts :: "K3Tensor list" where
  "unit_ts = map unit_tensor (remdups unit_names)"

definition unit_st :: K3St where
  "unit_st = (case index_tensors unit_ts of
      Index_Ok b \<Rightarrow> \<lparr>st_nshard = 1, st_t = unit_ts, st_bucket = b\<rparr>
    | _ \<Rightarrow> \<lparr>st_nshard = 1, st_t = [], st_bucket = []\<rparr>)"

definition unit_disk :: Disk where
  "unit_disk = \<lparr>dk_file = (\<lambda>sh. [0x80, 0x3F]), dk_direct = (\<lambda>sh. False), dk_chunks = (\<lambda>sh o'. [2])\<rparr>"

lemma unit_index: "\<exists>b. index_tensors unit_ts = Index_Ok b \<and>
  (\<forall>ns name. k3_st_find \<lparr>st_nshard = ns, st_t = unit_ts, st_bucket = b\<rparr> name = find (\<lambda>t. t_name t = name) unit_ts)"
proof -
  have "length unit_ts \<le> length unit_names" by (simp add: unit_ts_def length_remdups_leq)
  then have "length unit_ts \<le> 2 ^ 29" using unit_plan_reqs(2) by (simp add: unit_names_def)
  moreover have "distinct (map t_name unit_ts)" by (simp add: unit_ts_def unit_tensor_def comp_def)
  ultimately show ?thesis using index_tensors_spec by auto
qed

lemma find_map: "find (\<lambda>t. t_name t = name) (map unit_tensor ns) = (if name \<in> set ns then Some (unit_tensor name) else None)"
  by (induction ns) (auto simp: unit_tensor_def)

lemma unit_find: "k3_st_find unit_st name = (if name \<in> set unit_names then Some (unit_tensor name) else None)"
  using unit_index find_map [of name "remdups unit_names"] by (auto simp: unit_st_def unit_ts_def)

lemma unit_sized: "well_sized unit_st"
proof -
  obtain b where b: "index_tensors unit_ts = Index_Ok b" using unit_index by blast
  have "sane (unit_tensor n)" "entry_sized (unit_tensor n)" for n
    by (simp_all add: sane_def entry_sized_def unit_tensor_def k3_st_numel_def)
  then show ?thesis
    using index_tensors_range [OF b] b
    by (auto simp: unit_st_def well_sized_def st_sane_def list_all_iff unit_ts_def split: option.splits)
qed

section \<open>The resident binding\<close>

definition unit_ask :: "'b Req \<Rightarrow> bool" where
  "unit_ask q \<longleftrightarrow> rq_want q = 1 \<and> rq_take q = 1 \<and> rq_name q \<in> set unit_names"

lemma unit_asks: "list_all unit_ask (pl_r (unit_plan True))"
  using unit_plan_reqs(1) [of True] by (auto simp: list_all_iff unit_ask_def unit_names_def)

lemma unit_resolve:
  assumes "list_all unit_ask qs"
  shows "\<exists>rs o'. resolve_reqs unit_st qs off = (rs, o', 0, 0) \<and>
    list_all (\<lambda>q. rq_take q = 1 \<and> (\<exists>n. rq_t q = Some (unit_tensor n))) rs"
  using assms
proof (induction qs arbitrary: off)
  case (Cons q qs)
  have r: "resolve_req unit_st q = Some (q\<lparr>rq_t := Some (unit_tensor (rq_name q))\<rparr>, False)"
    using Cons.prems by (simp add: unit_ask_def resolve_req_def unit_find unit_tensor_def k3_st_numel_def Let_def)
  obtain rs o' where "resolve_reqs unit_st qs (align8 off + req_size (q\<lparr>rq_t := Some (unit_tensor (rq_name q))\<rparr>)) = (rs, o', 0, 0)"
    "list_all (\<lambda>q. rq_take q = 1 \<and> (\<exists>n. rq_t q = Some (unit_tensor n))) rs"
    using Cons.IH Cons.prems by fastforce
  then show ?case using r Cons.prems by (auto simp: unit_ask_def Let_def)
qed simp

lemma unit_read: "length (k3_st_read unit_disk (unit_tensor n)) = 2" "fst (k3_st_read_f32 unit_disk (unit_tensor n)) = 1"
  "length (snd (k3_st_read_f32 unit_disk (unit_tensor n))) = 1"
  by (simp_all add: k3_st_read_def k3_st_read_f32_def unit_disk_def unit_tensor_def pread_def k3_st_numel_def K3_WIDEN_CHUNK_def Let_def
    widen_loop.simps widen_elems_def)

lemma unit_load:
  assumes "list_all (\<lambda>q. rq_take q = 1 \<and> (\<exists>n. rq_t q = Some (unit_tensor n))) rs"
  shows "\<exists>blob'. plan_load unit_disk rs blob = Some blob'"
  using assms
proof (induction rs arbitrary: blob)
  case (Cons q qs)
  obtain n where q: "rq_take q = 1" "rq_t q = Some (unit_tensor n)" using Cons.prems by auto
  have "t_nbytes (unit_tensor n) = 2" "k3_st_numel (unit_tensor n) = 1" by (simp_all add: unit_tensor_def k3_st_numel_def)
  moreover obtain fs where "k3_st_read_f32 unit_disk (unit_tensor n) = (1, fs)" using unit_read(2) [of n] by (metis prod.collapse)
  ultimately have "\<exists>b1. load_req unit_disk q blob = Some b1" using unit_read(1) [of n] q by (simp add: load_req_def Let_def)
  then show ?case using Cons by auto
qed simp

lemma unit_bind: "\<exists>b. k3_bind_layer unit_st unit_disk (\<lambda>i. 0) unit_cfg 0 = Some (b :: (unit, unit, unit) K3LayerBind)"
proof -
  obtain rs o' where rs: "resolve_reqs unit_st (pl_r (unit_plan True)) 0 = (rs, o', 0, 0)"
    "list_all (\<lambda>q. rq_take q = 1 \<and> (\<exists>n. rq_t q = Some (unit_tensor n))) rs"
    using unit_resolve [OF unit_asks] by blast
  have cl: "pl_bad (unit_plan True) = 0" "pl_demoted (unit_plan True) = 0"
  proof -
    have "clean unit_plan" unfolding unit_plan_def by (rule clean_layer)
    then show "pl_bad (unit_plan True) = 0" "pl_demoted (unit_plan True) = 0" by (simp_all add: clean_def)
  qed
  have "plan_resolve unit_st (unit_plan True) = (int o', (unit_plan True)\<lparr>pl_r := rs, pl_bad := 0, pl_demoted := 0\<rparr>)"
    using rs(1) cl by (simp add: plan_resolve_def Let_def)
  then have "resolve_whole unit_st unit_plan = Some (o', (unit_plan True)\<lparr>pl_r := rs, pl_bad := 0, pl_demoted := 0\<rparr>)"
    by (simp add: resolve_whole_def)
  moreover obtain blob where "plan_load unit_disk rs (map (\<lambda>i. 0) [0..<o']) = Some blob" using unit_load [OF rs(2)] by blast
  ultimately have "\<exists>x. load_whole unit_st unit_disk (\<lambda>i. 0) unit_plan (bind_zero 0) = Some x" by (auto simp: load_whole_def)
  moreover have "unit_plan = (\<lambda>ok. plan_layer unit_cfg 0 False True (plan_empty ok))" by (simp add: unit_plan_def fun_eq_iff)
  ultimately show ?thesis by (auto simp: k3_bind_layer_def unit_kind Let_def)
qed

section \<open>The trunk\<close>

definition unit_lay :: "K3TrunkLayer list" where
  "unit_lay = [\<lparr>tl_file_off = 0, tl_nbytes = 2, tl_t = map (\<lambda>n. \<lparr>tt_name = n, tt_off = 0, tt_nbytes = 2, tt_dtype = K3_DT_BF16\<rparr>) unit_names\<rparr>,
     \<lparr>tl_file_off = 2, tl_nbytes = 2, tl_t = []\<rparr>]"

definition unit_file :: bytes where
  "unit_file = [0x80, 0x3F, 0x80, 0x3F]"

definition unit_trunk :: K3Trunk where
  "unit_trunk = trunk_init unit_lay 300 (trunk_sizes unit_lay 300 16384) (\<lambda>i. 0)"

lemma unit_find_in: "n \<in> set unit_names \<Longrightarrow> find_in_layer (unit_lay ! 0) n = Some (0, 2, K3_DT_BF16)"
proof -
  have "List.find (\<lambda>t. tt_name t = n) (map (\<lambda>n. \<lparr>tt_name = n, tt_off = 0, tt_nbytes = 2, tt_dtype = K3_DT_BF16\<rparr>) ns) =
      (if n \<in> set ns then Some \<lparr>tt_name = n, tt_off = 0, tt_nbytes = 2, tt_dtype = K3_DT_BF16\<rparr> else None)" for ns
    by (induction ns) auto
  then show "n \<in> set unit_names \<Longrightarrow> find_in_layer (unit_lay ! 0) n = Some (0, 2, K3_DT_BF16)"
    by (simp add: find_in_layer_def unit_lay_def)
qed

lemma unit_packed: "packed unit_st unit_disk (slice unit_file 0 2) (find_in_layer (unit_lay ! 0)) unit_names"
  using unit_find_in by (auto simp: packed_def unit_find unit_tensor_def slice_def unit_file_def t_bytes_def unit_disk_def)

lemma unit_mem:
  assumes "list_all unit_ask qs" "mb_w m + 12 * length qs \<le> cap" "mb_narrowed_all m"
  shows "\<exists>m'. mem_reqs F (find_in_layer (unit_lay ! 0)) run cap qs m = Some m' \<and> mb_narrowed_all m'"
  using assms
proof (induction qs arbitrary: m)
  case (Cons q qs)
  have al: "align8 w + 4 \<le> w + 12" for w by (simp add: align8_def)
  have "\<exists>m1. mem_req F (find_in_layer (unit_lay ! 0)) run cap q m = Some m1 \<and> mb_w m1 \<le> mb_w m + 12 \<and> mb_narrowed_all m1"
    using Cons.prems al [of "mb_w m"] unit_find_in [of "rq_name q"]
    by (cases "rq_narrow q") (auto simp: unit_ask_def mem_req_def put_wide_def point_at_place_def Let_def signed_divide_int_def)
  then obtain m1 where m1: "mem_req F (find_in_layer (unit_lay ! 0)) run cap q m = Some m1" "mb_w m1 \<le> mb_w m + 12" "mb_narrowed_all m1" by blast
  then show ?case using Cons.IH [of m1] Cons.prems by auto
qed simp

lemma unit_bind_mem: "\<exists>b widen' used. k3_bind_layer_mem F unit_cfg 0 run (find_in_layer (unit_lay ! 0)) widen 300 = Some (b :: (unit, unit, unit) K3LayerBind, widen', used)"
  using unit_mem [OF unit_asks, of "mem_init widen" 300 F run] unit_plan_reqs(2) [of True]
  by (auto simp: k3_bind_layer_mem_def unit_kind mem_init_def Let_def unit_plan_def)

section \<open>A walk\<close>

lemma unit_sizes: "trunk_sizes unit_lay 300 16384 = \<lparr>sz_slot = 8192, sz_npin = 0, sz_ring = 2, sz_spent = 16384\<rparr>"
  "settled unit_lay 300 16384 (trunk_sizes unit_lay 300 16384)"
proof -
  have al: "align_up 2 = 4096" "align_up 4396 = 8192" by (simp_all add: align_up_def align_down_eq K3_TRUNK_ALIGN_def)
  have ps: "size_pass unit_lay 300 16384 0 = \<lparr>sz_slot = 8192, sz_npin = 0, sz_ring = 2, sz_spent = 16384\<rparr>"
    by (simp add: size_pass_def slot_size_def biggest_def unit_lay_def ring_count_def al)
  show z: "trunk_sizes unit_lay 300 16384 = \<lparr>sz_slot = 8192, sz_npin = 0, sz_ring = 2, sz_spent = 16384\<rparr>"
    by (simp add: trunk_sizes_def numeral_eq_Suc ps)
  show "settled unit_lay 300 16384 (trunk_sizes unit_lay 300 16384)" by (simp add: settled_def z ps)
qed

lemma unit_lay_sel: "length unit_lay = 2" "tl_nbytes (unit_lay ! 0) = 2" "tl_file_off (unit_lay ! 0) = 0"
  by (simp_all add: unit_lay_def)

lemma unit_layout: "layout_ok unit_lay"
  by (simp add: layout_ok_def unit_lay_def)

lemma unit_trunk_sel:
  "n_lay unit_trunk = 2" "tr_npin unit_trunk = 0" "awaits unit_trunk L = False" "find_slot unit_trunk L = None"
  "tr_lay unit_trunk = unit_lay" "tr_widen_bytes unit_trunk = 300" "length (tr_arena unit_trunk) = 2" "tr_ring unit_trunk = 0"
  "run_len unit_trunk 0 = 2"
  unfolding unit_trunk_def unit_sizes(1)
  by (simp_all add: trunk_init_def n_lay_def unit_lay_def awaits_def find_slot_def find_None_iff run_len_def)

text \<open>The first layer is loaded, bound and in use; the second has been asked for.\<close>

lemma unit_walk:
  "\<exists>w sn b. trunk_reach F unit_cfg unit_file unit_trunk w \<and> wk_pc w = Computing 0 (Slot 0) sn (b :: (unit, unit, unit) K3LayerBind)"
proof -
  let ?R = "trunk_reach F unit_cfg unit_file unit_trunk :: (unit, unit, unit) K3LayerBind Walk \<Rightarrow> bool"
  obtain tr1 where cl: "claim unit_trunk = (0, tr1)" using unit_trunk_sel(8) by (simp add: claim_def Let_def)
  have "enter 0 unit_trunk = (tr1, Loading 0 (Slot 0) 0 :: (unit, unit, unit) K3LayerBind loc)"
    by (simp add: enter_def bind_enter_def unit_trunk_sel cl)
  from trunk_reach.step [OF trunk_reach.start trunk_step.bind [OF this]]
  have r1: "?R \<lparr>wk_tr = tr1, wk_rd = None, wk_pc = Loading 0 (Slot 0) 0\<rparr>" .
  have l1: "run_len tr1 0 = 2" "tr_lay tr1 = unit_lay" "tr_widen_bytes tr1 = 300"
    using claim_walk(2) [OF cl] claim_same [OF cl] unit_trunk_sel by simp_all
  have rd: "load_read unit_file tr1 0 0 2 = [0x80, 0x3F]" by (simp add: load_read_def l1 pread_def unit_lay_def unit_file_def)
  define tr2 where "tr2 = load_put (Slot 0) 0 [0x80, 0x3F] tr1"
  have "trunk_step F unit_cfg unit_file \<lparr>wk_tr = tr1, wk_rd = None, wk_pc = Loading 0 (Slot 0) 0\<rparr>
      \<lparr>wk_tr = tr2, wk_rd = None, wk_pc = Loading 0 (Slot 0) 2 :: (unit, unit, unit) K3LayerBind loc\<rparr>"
    using trunk_step.ld_read [of 0 tr1 0 unit_file 2, OF _ rd, of F unit_cfg None "Slot 0"] l1(1) by (simp add: tr2_def numeral_2_eq_2)
  from trunk_reach.step [OF r1 this] have r2: "?R \<lparr>wk_tr = tr2, wk_rd = None, wk_pc = Loading 0 (Slot 0) 2\<rparr>" .
  have l2: "run_len tr2 0 = 2" "tr_lay tr2 = unit_lay" "tr_widen_bytes tr2 = 300" using l1 by (simp_all add: tr2_def load_put_def)
  define tr3 where "tr3 = load_done 0 (Slot 0) tr2"
  have r3: "?R \<lparr>wk_tr = tr3, wk_rd = None, wk_pc = Binding 0 (Slot 0)\<rparr>"
    using trunk_reach.step [OF r2 trunk_step.ld_done [of 2 tr2 0]] l2(1) by (simp add: tr3_def)
  have l3: "tr_lay tr3 = unit_lay" "tr_widen_bytes tr3 = 300" using l2 by (simp_all add: tr3_def)
  obtain b widen' used where "k3_bind_layer_mem F unit_cfg 0 (buffer tr3 (Slot 0)) (find_in_layer (unit_lay ! 0))
      (drop (nat (align_up (tl_nbytes (unit_lay ! 0)))) (buffer tr3 (Slot 0))) 300 = Some (b :: (unit, unit, unit) K3LayerBind, widen', used)"
    using unit_bind_mem by blast
  then have "\<exists>tr4. bind_in F unit_cfg 0 (Slot 0) tr3 = Some (b, tr4)" by (simp add: bind_in_def Let_def l3 del: buffer.simps)
  then obtain tr4 where b: "bind_in F unit_cfg 0 (Slot 0) tr3 = Some (b, tr4)" ..
  from trunk_reach.step [OF trunk_reach.step [OF r3 trunk_step.weights [OF b]] trunk_step.hint]
  have "?R \<lparr>wk_tr = k3_trunk_prefetch (0 + 1) tr4, wk_rd = None, wk_pc = Computing 0 (Slot 0) (buffer tr4 (Slot 0)) b\<rparr>" .
  then show ?thesis by (intro exI conjI) (assumption, simp)
qed

end
