(* ===== verification/K3_Tok.thy ===== *)
theory K3_Tok
  imports K3_Config K3_Header K3_Load
begin

text \<open>
  The tokenizer loader, \<open>src/tokenizer/k3_tok.h\<close>, with what it uses of \<open>third_party/tok.h\<close>: the byte map, the vocabulary
  hash map and the decoder. A vocabulary file has one line \<open>base64(token) rank\<close> per token. What a file holds and what its
  JSON parses to are arguments.

  A raw byte is a \<open>char\<close>. The loader exits on malformed input; the model returns the error.
\<close>

section \<open>Base64\<close>

definition b64_alphabet :: cstr where
  "b64_alphabet = ''ABCDEFGHIJKLMNOPQRSTUVWXYZabcdefghijklmnopqrstuvwxyz0123456789+/''"

text \<open>The table \<open>t\<close>: the value of a letter.\<close>

fun index_of :: "'a \<Rightarrow> 'a list \<Rightarrow> nat option" where
  "index_of c [] = None"
| "index_of c (x # xs) = (if x = c then Some 0 else map_option Suc (index_of c xs))"

text \<open>The accumulator is an \<open>int\<close> that is shifted without being masked; it wraps.\<close>

fun b64_loop :: "cstr \<Rightarrow> nat \<Rightarrow> nat \<Rightarrow> cstr \<Rightarrow> cstr option" where
  "b64_loop [] acc bits out = Some out"
| "b64_loop (c # cs) acc bits out =
     (if c = CHR ''='' then Some out
      else case index_of c b64_alphabet of
             None \<Rightarrow> None
           | Some v \<Rightarrow>
               (let acc' = (acc * 64 + v) mod 2 ^ 32; bits' = bits + 6
                in if bits' \<ge> 8 then b64_loop cs acc' (bits' - 8) (out @ [char_of (acc' div 2 ^ (bits' - 8) mod 256)])
                   else b64_loop cs acc' bits' out))"

definition k3_b64 :: "cstr \<Rightarrow> cstr option" where
  "k3_b64 s = b64_loop s 0 0 []"

section \<open>The byte map\<close>

text \<open>UTF-8 of a code point, and the code point at the start of a string with the bytes it takes.\<close>

definition u8_put :: "nat \<Rightarrow> cstr" where
  "u8_put cp =
     (if cp < 0x80 then [char_of cp]
      else if cp < 0x800 then [char_of (0xC0 + cp div 64), char_of (0x80 + cp mod 64)]
      else if cp < 0x10000 then [char_of (0xE0 + cp div 4096), char_of (0x80 + cp div 64 mod 64), char_of (0x80 + cp mod 64)]
      else [char_of (0xF0 + cp div 262144), char_of (0x80 + cp div 4096 mod 64), char_of (0x80 + cp div 64 mod 64), char_of (0x80 + cp mod 64)])"

definition cont :: "char \<Rightarrow> nat" where
  "cont c = chr_code c mod 64"

fun u8_next :: "cstr \<Rightarrow> nat \<times> nat" where
  "u8_next [] = (0, 1)"
| "u8_next (c # s) =
     (let x = chr_code c
      in if x < 0x80 then (x, 1)
         else if x div 32 = 0x6 \<and> length s \<ge> 1 then (x mod 32 * 64 + cont (s ! 0), 2)
         else if x div 16 = 0xE \<and> length s \<ge> 2 then (x mod 16 * 4096 + cont (s ! 0) * 64 + cont (s ! 1), 3)
         else if x div 8 = 0x1E \<and> length s \<ge> 3 then (x mod 8 * 262144 + cont (s ! 0) * 4096 + cont (s ! 1) * 64 + cont (s ! 2), 4)
         else (x, 1))"

definition is_direct :: "nat \<Rightarrow> bool" where
  "is_direct b \<longleftrightarrow> (33 \<le> b \<and> b \<le> 126) \<or> (161 \<le> b \<and> b \<le> 172) \<or> (174 \<le> b \<and> b \<le> 255)"

definition byte_cp :: "nat \<Rightarrow> nat" where
  "byte_cp b = (if is_direct b then b else 256 + length (filter (\<lambda>x. \<not> is_direct x) [0..<b]))"

definition byte2str :: "cstr list" where
  "byte2str = map (\<lambda>b. u8_put (byte_cp b)) [0..<256]"

definition cp2byte :: "int list" where
  "cp2byte = fold (\<lambda>b t. if byte_cp b < 1024 then t[byte_cp b := int b] else t) [0..<256] (replicate 1024 (-1))"

section \<open>The vocabulary\<close>

text \<open>
  Linear probing over entries of a key and a value. \<open>None\<close> of a result is a loop that does not end, on a table without an
  empty entry.
\<close>

type_synonym hmap = "(cstr \<times> int) option list"

definition tags :: "hmap \<Rightarrow> nat option list" where
  "tags e = map (\<lambda>j. map_option (\<lambda>_. j) (e ! j)) [0..<length e]"

definition hm_slot :: "hmap \<Rightarrow> cstr \<Rightarrow> nat option" where
  "hm_slot e k = probe (length e) (length e) (tags e) (\<lambda>j. map_option fst (e ! j) = Some k) (start_bucket (length e) k)"

definition hm_put :: "hmap \<Rightarrow> cstr \<Rightarrow> int \<Rightarrow> hmap option" where
  "hm_put e k v = map_option (\<lambda>j. e[j := Some (k, v)]) (hm_slot e k)"

definition hm_get :: "hmap \<Rightarrow> cstr \<Rightarrow> int option" where
  "hm_get e k = map_option (\<lambda>j. case e ! j of None \<Rightarrow> -1 | Some (k', v) \<Rightarrow> v) (hm_slot e k)"

section \<open>The tokenizer\<close>

definition K3_TOK_VOCAB :: nat where
  "K3_TOK_VOCAB = 163840"

record Special =
  sp_str :: cstr
  sp_id :: int

record Tok =
  tk_vocab :: hmap
  tk_id2str :: "cptr list"
  tk_id_added :: "bool list"
  tk_id_special :: "bool list"
  tk_sp :: "Special list"
  tk_byte2str :: "cstr list"
  tk_cp2byte :: "int list"
  tk_kimi :: bool
  tk_o200k :: bool
  tk_rankbpe :: bool

datatype tok_error =
    No_Rank_Field nat
  | Rank_Out_Of_Range int
  | Token_Too_Long int
  | Bad_Base64 int
  | Vocab_Full
  | Model_Empty
  | No_Added_Tokens
  | No_Content cstr
  | Id_Out_Of_Range int

definition k3_bytelevel :: "Tok \<Rightarrow> cstr \<Rightarrow> cstr" where
  "k3_bytelevel T bs = concat (map (\<lambda>b. tk_byte2str T ! chr_code b) bs)"

definition tok_init :: Tok where
  "tok_init =
     \<lparr>tk_vocab = replicate (bucket_count 163584 1) None, tk_id2str = replicate K3_TOK_VOCAB None,
      tk_id_added = replicate K3_TOK_VOCAB False, tk_id_special = replicate K3_TOK_VOCAB False, tk_sp = [],
      tk_byte2str = byte2str, tk_cp2byte = cp2byte, tk_kimi = True, tk_o200k = True, tk_rankbpe = True\<rparr>"

text \<open>\<open>atoi\<close>: the long value saturates and is cut to an \<open>int\<close>; without a digit it is zero.\<close>

definition decimal_value :: "cstr \<Rightarrow> int" where
  "decimal_value ds = fold (\<lambda>c a. a * 10 + (int (chr_code c) - 48)) ds 0"

definition atoi :: "cstr \<Rightarrow> int" where
  "atoi s =
     (let q = dropWhile c_isspace s;
          sgn = (q \<noteq> [] \<and> (hd q = CHR ''-'' \<or> hd q = CHR ''+''));
          ds = takeWhile c_isdigit (if sgn then tl q else q);
          n = (if sgn \<and> hd q = CHR ''-'' then - decimal_value ds else decimal_value ds)
      in to_int (max (- (2 ^ 63)) (min (2 ^ 63 - 1) n)))"

text \<open>
  One line: \<open>ls\<close> is the file from the start of the line. The rank is read from the file, not from the line, so a line
  whose rank is missing takes the number at the start of the next one.
\<close>

definition the_line :: "cstr \<Rightarrow> cstr" where
  "the_line ls = (let l = takeWhile (\<lambda>c. c \<noteq> CHR 0x0A) ls in if l \<noteq> [] \<and> last l = CHR 0x0D then butlast l else l)"

definition load_line :: "cstr \<Rightarrow> cstr \<Rightarrow> nat \<Rightarrow> Tok \<Rightarrow> tok_error + Tok" where
  "load_line ls line nrank T =
     (let b = takeWhile (\<lambda>c. c \<noteq> CHR '' '') line
      in if length b \<ge> length line then Inl (No_Rank_Field nrank)
         else let rank = atoi (drop (length b + 1) ls)
              in if rank < 0 \<or> rank \<ge> int K3_TOK_VOCAB then Inl (Rank_Out_Of_Range rank)
                 else if length b > 512 * 4 div 3 then Inl (Token_Too_Long rank)
                 else case k3_b64 b of
                        None \<Rightarrow> Inl (Bad_Base64 rank)
                      | Some raw \<Rightarrow>
                          (let key = k3_bytelevel T raw
                           in case hm_put (tk_vocab T) key rank of
                                None \<Rightarrow> Inl Vocab_Full
                              | Some e \<Rightarrow> Inr (T\<lparr>tk_vocab := e, tk_id2str := (tk_id2str T)[nat rank := Some key]\<rparr>)))"

function load_ranks :: "cstr \<Rightarrow> nat \<Rightarrow> Tok \<Rightarrow> tok_error + (nat \<times> Tok)" where
  "load_ranks ls nrank T =
     (if ls = [] then Inr (nrank, T)
      else let rest = drop (length (takeWhile (\<lambda>c. c \<noteq> CHR 0x0A) ls) + 1) ls
           in if the_line ls = [] then load_ranks rest nrank T
              else case load_line ls (the_line ls) nrank T of
                     Inl e \<Rightarrow> Inl e
                   | Inr T' \<Rightarrow> load_ranks rest (nrank + 1) T')"
  by pat_completeness auto
termination by (relation "measure (\<lambda>(ls, nrank, T). length ls)") auto

declare load_ranks.simps [simp del]

fun load_added :: "(cstr \<times> jval) list \<Rightarrow> Tok \<Rightarrow> tok_error + Tok" where
  "load_added [] T = Inr T"
| "load_added ((key, e) # kvs) T =
     (let id = atoi key
      in case json_get e ''content'' of
           Some (J_STR s) \<Rightarrow>
             if id < 0 \<or> id \<ge> int K3_TOK_VOCAB then Inl (Id_Out_Of_Range id)
             else load_added kvs
               (T\<lparr>tk_sp := tk_sp T @ [\<lparr>sp_str = s, sp_id = id\<rparr>], tk_id2str := (tk_id2str T)[nat id := Some s],
                  tk_id_added := (tk_id_added T)[nat id := True],
                  tk_id_special := (if json_get e ''special'' = Some (J_BOOL True) then (tk_id_special T)[nat id := True]
                                    else tk_id_special T)\<rparr>)
         | _ \<Rightarrow> Inl (No_Content key))"

text \<open>\<open>qsort\<close> by falling length; entries of one length keep their order here, which \<open>qsort\<close> leaves open.\<close>

definition sort_specials :: "Special list \<Rightarrow> Special list" where
  "sort_specials sp = sort_key (\<lambda>s. - int (length (sp_str s))) sp"

text \<open>\<open>root\<close> is the parsed configuration. Only an object has keys; an array in its place would be read through a null pointer.\<close>

definition k3_tok_load :: "cstr \<Rightarrow> jval \<Rightarrow> tok_error + Tok" where
  "k3_tok_load buf root =
     (case load_ranks buf 0 tok_init of
        Inl e \<Rightarrow> Inl e
      | Inr (nrank, T) \<Rightarrow>
          if nrank = 0 then Inl Model_Empty
          else case json_get root ''added_tokens_decoder'' of
                 None \<Rightarrow> Inl No_Added_Tokens
               | Some adt \<Rightarrow>
                   (case load_added (case adt of J_OBJ kvs \<Rightarrow> kvs | _ \<Rightarrow> []) T of
                      Inl e \<Rightarrow> Inl e
                    | Inr T' \<Rightarrow> Inr (T'\<lparr>tk_sp := sort_specials (tk_sp T')\<rparr>)))"

section \<open>Decoding\<close>

function decode_str :: "int list \<Rightarrow> cstr \<Rightarrow> cstr" where
  "decode_str t [] = []"
| "decode_str t (c # s) =
     (case u8_next (c # s) of
        (cp, k) \<Rightarrow> (if cp < 1024 \<and> t ! cp \<ge> 0 then [char_of (nat (t ! cp))] else []) @ decode_str t (drop (k - 1) s))"
  by pat_completeness auto
termination by (relation "measure (\<lambda>(t, s). length s)") auto

definition decode_id :: "Tok \<Rightarrow> int \<Rightarrow> cstr" where
  "decode_id T i =
     (if i < 0 \<or> i \<ge> int K3_TOK_VOCAB then []
      else case tk_id2str T ! nat i of
             None \<Rightarrow> []
           | Some s \<Rightarrow> if tk_id_added T ! nat i then s else decode_str (tk_cp2byte T) s)"

text \<open>Every byte is written only while there is room.\<close>

definition tok_decode :: "Tok \<Rightarrow> int list \<Rightarrow> nat \<Rightarrow> cstr" where
  "tok_decode T ids cap = take cap (concat (map (decode_id T) ids))"

end
