(* ===== verification/K3_Tok_Laws.thy ===== *)
theory K3_Tok_Laws
  imports K3_Tok
begin

text \<open>
  A vocabulary file that was written line by line loads, every token is found under its rank, and a sequence of ranks decodes
  to the bytes of its tokens.
\<close>

section \<open>The hash map\<close>

text \<open>Every entry is reached from its bucket over entries with other keys.\<close>

definition reached :: "hmap \<Rightarrow> nat \<Rightarrow> cstr \<Rightarrow> bool" where
  "reached e j k \<longleftrightarrow> (\<exists>d < length e. walk (length e) (start_bucket (length e) k) d = j \<and>
     (\<forall>d' < d. \<exists>k' v'. e ! walk (length e) (start_bucket (length e) k) d' = Some (k', v') \<and> k' \<noteq> k))"

definition hm_inv :: "nat \<Rightarrow> hmap \<Rightarrow> bool" where
  "hm_inv p e \<longleftrightarrow> length e = 2 ^ p \<and> p < 64 \<and> (\<forall>j k v. j < length e \<longrightarrow> e ! j = Some (k, v) \<longrightarrow> reached e j k)"

definition hm_has :: "hmap \<Rightarrow> cstr \<Rightarrow> int \<Rightarrow> bool" where
  "hm_has e k v \<longleftrightarrow> (\<exists>j < length e. e ! j = Some (k, v))"

definition hm_used :: "hmap \<Rightarrow> nat" where
  "hm_used e = length (filter (\<lambda>x. x \<noteq> None) e)"

lemma hm_room: "hm_used e < length e \<Longrightarrow> \<exists>i < length e. e ! i = None"
proof (rule ccontr)
  assume u: "hm_used e < length e" and "\<not> (\<exists>i<length e. e ! i = None)"
  then have "\<forall>x\<in>set e. x \<noteq> None" by (metis in_set_conv_nth)
  then have "filter (\<lambda>x. x \<noteq> None) e = e" by (simp add: filter_id_conv)
  then show False using u by (simp add: hm_used_def)
qed

lemma hm_used_put: "j < length e \<Longrightarrow> hm_used (e[j := Some x]) \<le> hm_used e + 1"
proof (induction e arbitrary: j)
  case (Cons y e)
  then show ?case by (cases j) (auto simp: hm_used_def)
qed (simp add: hm_used_def)

lemma hm_reach: "hm_inv p e \<Longrightarrow> i < length e \<Longrightarrow> e ! i = Some (k, v) \<Longrightarrow> reached e i k"
  unfolding hm_inv_def by blast

lemma hm_slot_spec:
  assumes iv: "hm_inv p e" and room: "hm_used e < length e"
  obtains j d where "hm_slot e k = Some j" "j < length e" "d < length e" "j = walk (length e) (start_bucket (length e) k) d"
    "\<forall>d' < d. \<exists>k' v'. e ! walk (length e) (start_bucket (length e) k) d' = Some (k', v') \<and> k' \<noteq> k"
    "e ! j = None \<and> (\<forall>v. \<not> hm_has e k v) \<or> (\<exists>v. e ! j = Some (k, v))"
proof -
  let ?n = "length e" and ?b = "start_bucket (length e) k" and ?hit = "\<lambda>j. map_option fst (e ! j) = Some k"
  have len: "?n = 2 ^ p" "p < 64" "0 < ?n" using iv by (auto simp: hm_inv_def)
  have lt: "walk ?n ?b x < ?n" for x using len(3) by simp
  have tag: "tags e ! i = map_option (\<lambda>_. i) (e ! i)" if "i < ?n" for i using that by (simp add: tags_def)
  have st: "stops (tags e) ?hit (walk ?n ?b x) \<longleftrightarrow> (e ! walk ?n ?b x = None \<or> map_option fst (e ! walk ?n ?b x) = Some k)" for x
    using tag [OF lt] by (simp add: stops_def split: option.splits)
  obtain i where "i < ?n" "tags e ! i = None" using hm_room [OF room] tag by auto
  from probe_total [OF len(1) start_bucket_lt [OF len(1,2)] this, of ?hit]
  obtain d where d: "d < ?n" "hm_slot e k = Some (walk ?n ?b d)" "stops (tags e) ?hit (walk ?n ?b d)"
    "\<forall>d' < d. \<not> stops (tags e) ?hit (walk ?n ?b d')"
    unfolding hm_slot_def by blast
  have before: "\<forall>d' < d. \<exists>k' v'. e ! walk ?n ?b d' = Some (k', v') \<and> k' \<noteq> k" using d(4) unfolding st by fastforce
  have "\<not> hm_has e k v" if none: "e ! walk ?n ?b d = None" for v
  proof
    assume "hm_has e k v"
    then obtain j where j: "j < ?n" "e ! j = Some (k, v)" by (auto simp: hm_has_def)
    then obtain d0 where d0: "walk ?n ?b d0 = j" "\<forall>d' < d0. \<exists>k' v'. e ! walk ?n ?b d' = Some (k', v') \<and> k' \<noteq> k" "e ! walk ?n ?b d0 = Some (k, v)"
      using hm_reach [OF iv j] j(2) unfolding reached_def by blast
    consider "d < d0" | "d = d0" | "d0 < d" by linarith
    then show False using d0 none before by cases (fastforce, simp, fastforce)
  qed
  then have "e ! walk ?n ?b d = None \<and> (\<forall>v. \<not> hm_has e k v) \<or> (\<exists>v. e ! walk ?n ?b d = Some (k, v))"
    using d(3) unfolding st by (cases "e ! walk ?n ?b d") auto
  then show thesis using that d(1,2) lt before by blast
qed

lemma hm_unique: "hm_inv p e \<Longrightarrow> hm_used e < length e \<Longrightarrow> hm_has e k v \<Longrightarrow> hm_get e k = Some v"
proof -
  assume iv: "hm_inv p e" and room: "hm_used e < length e" and has: "hm_has e k v"
  obtain j d where s: "hm_slot e k = Some j" "j = walk (length e) (start_bucket (length e) k) d"
    "\<forall>d' < d. \<exists>k' v'. e ! walk (length e) (start_bucket (length e) k) d' = Some (k', v') \<and> k' \<noteq> k"
    "e ! j = None \<and> (\<forall>v. \<not> hm_has e k v) \<or> (\<exists>v. e ! j = Some (k, v))"
    using hm_slot_spec [OF iv room, of k] by metis
  obtain i where i: "i < length e" "e ! i = Some (k, v)" using has by (auto simp: hm_has_def)
  then obtain d0 where d0: "walk (length e) (start_bucket (length e) k) d0 = i"
    "\<forall>d' < d0. \<exists>k' v'. e ! walk (length e) (start_bucket (length e) k) d' = Some (k', v') \<and> k' \<noteq> k"
    using hm_reach [OF iv i] unfolding reached_def by blast
  have "d = d0" using s(2-4) d0 i(2) has by (metis linorder_neqE_nat option.inject prod.inject)
  then show "hm_get e k = Some v" using s d0 i(2) by (simp add: hm_get_def)
qed

lemma hm_put_spec:
  assumes iv: "hm_inv p e" and room: "hm_used e < length e"
  obtains e' where "hm_put e k v = Some e'" "hm_inv p e'" "length e' = length e" "hm_used e' \<le> hm_used e + 1" "hm_has e' k v"
    "\<And>k' v'. k' \<noteq> k \<Longrightarrow> hm_has e k' v' \<Longrightarrow> hm_has e' k' v'"
proof -
  let ?n = "length e" and ?b = "start_bucket (length e) k"
  obtain j d where s: "hm_slot e k = Some j" "j < ?n" "d < ?n" "j = walk ?n ?b d"
    "\<forall>d' < d. \<exists>k' v'. e ! walk ?n ?b d' = Some (k', v') \<and> k' \<noteq> k" "e ! j = None \<or> (\<exists>v. e ! j = Some (k, v))"
    using hm_slot_spec [OF iv room, of k] by metis
  let ?e = "e[j := Some (k, v)]"
  have other: "\<exists>k2 v2. ?e ! i = Some (k2, v2) \<and> k2 \<noteq> k'" if "\<exists>k2 v2. e ! i = Some (k2, v2) \<and> k2 \<noteq> k'" "i \<noteq> j \<or> k \<noteq> k'" for i k'
    using that s(2) by (cases "i = j") auto
  have "hm_inv p ?e"
  proof -
    have "reached ?e i k'" if i: "i < ?n" "?e ! i = Some (k', v')" for i k' v'
    proof (cases "i = j")
      case True
      then have k': "k' = k" using i s(2) by simp
      have "\<exists>k2 v2. ?e ! walk ?n ?b d' = Some (k2, v2) \<and> k2 \<noteq> k" if dd: "d' < d" for d'
      proof -
        obtain k2 v2 where "e ! walk ?n ?b d' = Some (k2, v2)" "k2 \<noteq> k" using s(5) dd by blast
        moreover have "walk ?n ?b d' \<noteq> j" using calculation s(6) by auto
        ultimately show ?thesis by auto
      qed
      then show ?thesis unfolding reached_def k' True using s(3,4) by auto
    next
      case False
      then have old: "e ! i = Some (k', v')" using i(2) by simp
      then obtain d0 where d0: "d0 < ?n" "walk ?n (start_bucket ?n k') d0 = i"
        "\<forall>d' < d0. \<exists>k2 v2. e ! walk ?n (start_bucket ?n k') d' = Some (k2, v2) \<and> k2 \<noteq> k'"
        using hm_reach [OF iv i(1) old] unfolding reached_def by blast
      have "\<exists>k2 v2. ?e ! walk ?n (start_bucket ?n k') d' = Some (k2, v2) \<and> k2 \<noteq> k'" if "d' < d0" for d'
      proof (rule other)
        show "\<exists>k2 v2. e ! walk ?n (start_bucket ?n k') d' = Some (k2, v2) \<and> k2 \<noteq> k'" using d0(3) that by blast
        then show "walk ?n (start_bucket ?n k') d' \<noteq> j \<or> k \<noteq> k'" using s(6) by auto
      qed
      then show ?thesis using d0(1,2) unfolding reached_def by auto
    qed
    then show ?thesis using iv by (simp add: hm_inv_def)
  qed
  moreover have "hm_has ?e k v" using s(2) by (auto simp: hm_has_def)
  moreover have "hm_has ?e k' v'" if ne: "k' \<noteq> k" and old: "hm_has e k' v'" for k' v'
  proof -
    obtain i where i: "i < ?n" "e ! i = Some (k', v')" using old by (auto simp: hm_has_def)
    then have "i \<noteq> j" using ne s(6) by auto
    then show ?thesis using i by (auto simp: hm_has_def)
  qed
  ultimately show thesis using that [of ?e] s(1,2) hm_used_put [OF s(2)] by (simp add: hm_put_def)
qed

section \<open>Base64\<close>

definition b64_char :: "nat \<Rightarrow> char" where
  "b64_char v = b64_alphabet ! v"

text \<open>The standard encoding, padded.\<close>

fun b64_encode :: "cstr \<Rightarrow> cstr" where
  "b64_encode [] = []"
| "b64_encode [a] = [b64_char (chr_code a div 4), b64_char (chr_code a mod 4 * 16), CHR ''='', CHR ''='']"
| "b64_encode [a, b] =
     [b64_char (chr_code a div 4), b64_char (chr_code a mod 4 * 16 + chr_code b div 16), b64_char (chr_code b mod 16 * 4), CHR ''='']"
| "b64_encode (a # b # c # r) =
     b64_char (chr_code a div 4) # b64_char (chr_code a mod 4 * 16 + chr_code b div 16) #
     b64_char (chr_code b mod 16 * 4 + chr_code c div 64) # b64_char (chr_code c mod 64) # b64_encode r"

lemma index_of_nth: "distinct xs \<Longrightarrow> i < length xs \<Longrightarrow> index_of (xs ! i) xs = Some i"
proof (induction xs arbitrary: i)
  case (Cons x xs) then show ?case by (cases i) auto
qed simp

lemma b64_alphabet: "distinct b64_alphabet" "length b64_alphabet = 64" "CHR ''='' \<notin> set b64_alphabet"
  "CHR '' '' \<notin> set b64_alphabet" "CHR 0x0A \<notin> set b64_alphabet"
  by code_simp+

lemma b64_char_in: "v < 64 \<Longrightarrow> b64_char v \<in> set b64_alphabet"
  by (simp add: b64_char_def b64_alphabet(2))

lemma b64_step:
  assumes "v < 64"
  shows "b64_loop (b64_char v # cs) acc bits out =
     (let acc' = (acc * 64 + v) mod 2 ^ 32
      in if bits \<ge> 2 then b64_loop cs acc' (bits - 2) (out @ [char_of (acc' div 2 ^ (bits - 2) mod 256)]) else b64_loop cs acc' (bits + 6) out)"
proof -
  have "b64_char v \<noteq> CHR ''=''" using b64_char_in [OF assms] b64_alphabet(3) by metis
  moreover have "index_of (b64_char v) b64_alphabet = Some v"
    unfolding b64_char_def by (rule index_of_nth) (use assms b64_alphabet(1,2) in simp_all)
  ultimately show ?thesis by (simp add: Let_def del: power_numeral)
qed

lemma b64_pad: "b64_loop (CHR ''='' # cs) acc bits out = Some out"
  by simp

lemma code_lt: "chr_code c < 256"
  by (simp add: chr_code_def)

lemma char_of_code [simp]: "char_of (chr_code c) = c"
  by (simp add: chr_code_def)

lemma code_of_char: "n < 256 \<Longrightarrow> chr_code (char_of n) = n"
  by (simp add: chr_code_def)

text \<open>The wrapped accumulator: only its low bits are used.\<close>

lemma wrapped: "(t mod 2 ^ 32) div 16 mod 256 = t div 16 mod 256" "(t mod 2 ^ 32) div 4 mod 256 = t div 4 mod 256"
  "(t mod 2 ^ 32) mod 256 = t mod 256" "((t mod 2 ^ 32) * 64 + v) mod 2 ^ 32 = (t * 64 + v) mod 2 ^ 32" for t v :: nat
proof -
  have "(t mod (16 * 268435456)) div 16 = t div 16 mod 268435456" unfolding mod_mult2_eq [of t 16 268435456] by simp
  moreover have "(t mod (4 * 1073741824)) div 4 = t div 4 mod 1073741824" unfolding mod_mult2_eq [of t 4 1073741824] by simp
  ultimately show "(t mod 2 ^ 32) div 16 mod 256 = t div 16 mod 256" "(t mod 2 ^ 32) div 4 mod 256 = t div 4 mod 256"
    by (simp_all add: mod_mod_cancel)
  show "(t mod 2 ^ 32) mod 256 = t mod 256" by (simp add: mod_mod_cancel)
  show "((t mod 2 ^ 32) * 64 + v) mod 2 ^ 32 = (t * 64 + v) mod 2 ^ 32" by (metis mod_add_left_eq mod_mult_left_eq)
qed

lemma group_values:
  fixes a x y z :: nat
  assumes "x < 256" "y < 256" "z < 256"
  shows "((a * 64 + x div 4) * 64 + (x mod 4 * 16 + y div 16)) div 16 mod 256 = x"
    "(((a * 64 + x div 4) * 64 + (x mod 4 * 16 + y div 16)) * 64 + (y mod 16 * 4 + z div 64)) div 4 mod 256 = y"
    "((((a * 64 + x div 4) * 64 + (x mod 4 * 16 + y div 16)) * 64 + (y mod 16 * 4 + z div 64)) * 64 + z mod 64) mod 256 = z"
proof -
  have t2: "(a * 64 + q) * 64 + (r * 16 + w) = (a * 256 + x) * 16 + w" if "q * 4 + r = x" for q r w unfolding that [symmetric] by (simp add: algebra_simps)
  have t3: "((a * 256 + x) * 16 + q) * 64 + (r * 4 + w) = (a * 65536 + x * 256 + y) * 4 + w" if "q * 16 + r = y" for q r w unfolding that [symmetric] by (simp add: algebra_simps)
  have t4: "((a * 65536 + x * 256 + y) * 4 + q) * 64 + r = (a * 65536 + x * 256 + y) * 256 + z" if "q * 64 + r = z" for q r unfolding that [symmetric] by (simp add: algebra_simps)
  note t = t2 [OF div_mult_mod_eq] t3 [OF div_mult_mod_eq] t4 [OF div_mult_mod_eq]
  have m: "(a * 256 + x) mod 256 = x" "(a * 65536 + x * 256 + y) mod 256 = y" "((a * 65536 + x * 256 + y) * 256 + z) mod 256 = z"
  proof -
    have k: "(k * 256 + w) mod 256 = w" if "w < 256" for k w :: nat using that by simp
    have "a * 65536 + x * 256 + y = (a * 256 + x) * 256 + y" by simp
    then show "(a * 256 + x) mod 256 = x" "(a * 65536 + x * 256 + y) mod 256 = y" "((a * 65536 + x * 256 + y) * 256 + z) mod 256 = z"
      using assms k by (simp_all only:)
  qed
  have d: "(k * n + w) div n = k" if "w < n" for k n w :: nat using that by simp
  have "y div 16 < 16" "z div 64 < 4" using assms by linarith+
  then show "((a * 64 + x div 4) * 64 + (x mod 4 * 16 + y div 16)) div 16 mod 256 = x"
    "(((a * 64 + x div 4) * 64 + (x mod 4 * 16 + y div 16)) * 64 + (y mod 16 * 4 + z div 64)) div 4 mod 256 = y"
    "((((a * 64 + x div 4) * 64 + (x mod 4 * 16 + y div 16)) * 64 + (y mod 16 * 4 + z div 64)) * 64 + z mod 64) mod 256 = z"
    unfolding t by (simp_all only: d m)
qed

declare b64_loop.simps(2) [simp del]

lemma b64_two:
  assumes "v < 64" "u < 64"
  shows "b64_loop (b64_char v # b64_char u # cs) acc 0 out =
    b64_loop cs (((acc * 64 + v) * 64 + u) mod 2 ^ 32) 4 (out @ [char_of (((acc * 64 + v) * 64 + u) div 16 mod 256)])"
proof -
  have "b64_loop (b64_char v # b64_char u # cs) acc 0 out = b64_loop (b64_char u # cs) ((acc * 64 + v) mod 2 ^ 32) 6 out"
    using b64_step [OF assms(1)] by (simp add: Let_def)
  also have "\<dots> = b64_loop cs (((acc * 64 + v) mod 2 ^ 32 * 64 + u) mod 2 ^ 32) 4
      (out @ [char_of (((acc * 64 + v) mod 2 ^ 32 * 64 + u) mod 2 ^ 32 div 16 mod 256)])"
    unfolding b64_step [OF assms(2)] by (simp add: Let_def)
  finally show ?thesis unfolding wrapped(1,4) .
qed

lemma b64_three:
  assumes "v < 64"
  shows "b64_loop (b64_char v # cs) (t mod 2 ^ 32) 4 out = b64_loop cs ((t * 64 + v) mod 2 ^ 32) 2 (out @ [char_of ((t * 64 + v) div 4 mod 256)])"
proof -
  have "b64_loop (b64_char v # cs) (t mod 2 ^ 32) 4 out =
      b64_loop cs ((t mod 2 ^ 32 * 64 + v) mod 2 ^ 32) 2 (out @ [char_of ((t mod 2 ^ 32 * 64 + v) mod 2 ^ 32 div 4 mod 256)])"
    unfolding b64_step [OF assms] by (simp add: Let_def)
  then show ?thesis unfolding wrapped(2,4) .
qed

lemma b64_four:
  assumes "v < 64"
  shows "b64_loop (b64_char v # cs) (t mod 2 ^ 32) 2 out = b64_loop cs ((t * 64 + v) mod 2 ^ 32) 0 (out @ [char_of ((t * 64 + v) mod 256)])"
proof -
  have "b64_loop (b64_char v # cs) (t mod 2 ^ 32) 2 out =
      b64_loop cs ((t mod 2 ^ 32 * 64 + v) mod 2 ^ 32) 0 (out @ [char_of ((t mod 2 ^ 32 * 64 + v) mod 2 ^ 32 mod 256)])"
    unfolding b64_step [OF assms] by (simp add: Let_def)
  then show ?thesis unfolding wrapped(3,4) .
qed

lemma sextets:
  "chr_code a div 4 < 64" "chr_code a mod 4 * 16 + chr_code b div 16 < 64" "chr_code b mod 16 * 4 + chr_code c div 64 < 64" "chr_code c mod 64 < 64"
  "chr_code a mod 4 * 16 < 64" "chr_code b mod 16 * 4 < 64"
  using code_lt [of a] code_lt [of b] code_lt [of c] by auto

lemma b64_round: "b64_loop (b64_encode bs) acc 0 out = Some (out @ bs)"
proof (induction bs arbitrary: acc out rule: b64_encode.induct)
  case (2 a)
  have "((acc * 64 + chr_code a div 4) * 64 + chr_code a mod 4 * 16) div 16 mod 256 = chr_code a"
    using group_values(1) [of "chr_code a" 0 0 acc, OF code_lt] by simp
  then show ?case by (simp only: b64_encode.simps b64_two [OF sextets(1,5)] b64_pad char_of_code)
next
  case (3 a b)
  have "((acc * 64 + chr_code a div 4) * 64 + (chr_code a mod 4 * 16 + chr_code b div 16)) div 16 mod 256 = chr_code a"
    "(((acc * 64 + chr_code a div 4) * 64 + (chr_code a mod 4 * 16 + chr_code b div 16)) * 64 + chr_code b mod 16 * 4) div 4 mod 256 = chr_code b"
    using group_values(1,2) [of "chr_code a" "chr_code b" 0 acc, OF code_lt code_lt] by simp_all
  then show ?case by (simp only: b64_encode.simps b64_two [OF sextets(1,2)] b64_three [OF sextets(6)] b64_pad char_of_code append_assoc append.simps)
next
  case (4 a b c r)
  note g = group_values [of "chr_code a" "chr_code b" "chr_code c" acc, OF code_lt code_lt code_lt]
  show ?case
    by (simp only: b64_encode.simps b64_two [OF sextets(1,2)] b64_three [OF sextets(3)] b64_four [OF sextets(4)] g "4.IH" char_of_code append_assoc append.simps)
qed simp

lemma k3_b64_encode: "k3_b64 (b64_encode bs) = Some bs"
  by (simp add: k3_b64_def b64_round)

lemma b64_encode_chars: "set (b64_encode bs) \<subseteq> insert (CHR ''='') (set b64_alphabet)"
proof (induction bs rule: b64_encode.induct)
  case (2 a) show ?case using b64_char_in [OF sextets(1) [of a]] b64_char_in [OF sextets(5) [of a]] by simp
next
  case (3 a b)
  show ?case using b64_char_in [OF sextets(1) [of a]] b64_char_in [OF sextets(2) [of a b]] b64_char_in [OF sextets(6) [of b]] by simp
next
  case (4 a b c r)
  then show ?case
    using b64_char_in [OF sextets(1) [of a]] b64_char_in [OF sextets(2) [of a b]] b64_char_in [OF sextets(3) [of b c]] b64_char_in [OF sextets(4) [of c]]
    by simp
qed simp

lemma length_b64_encode: "length (b64_encode bs) = (length bs + 2) div 3 * 4"
proof (induction bs rule: b64_encode.induct)
  case (4 a b c r)
  have "length (b64_encode (a # b # c # r)) = (length r + 2) div 3 * 4 + 4" using 4 by simp
  also have "\<dots> = (length r + 2 + 3) div 3 * 4" by (simp only: div_add_self2 add_mult_distrib)
  finally show ?case by (simp add: add.assoc)
qed simp_all

text \<open>The buffer of 512 bytes is never overrun, whatever the line holds.\<close>

lemma b64_loop_length: "b64_loop s acc bits out = Some r \<Longrightarrow> bits < 8 \<Longrightarrow> 8 * length r \<le> 8 * length out + bits + 6 * length s"
proof (induction s acc bits out rule: b64_loop.induct)
  case (2 c cs acc bits out)
  then show ?case by (fastforce simp: b64_loop.simps(2) Let_def split: if_splits option.splits)
qed simp

lemma b64_fits: "k3_b64 s = Some r \<Longrightarrow> length s \<le> 512 * 4 div 3 \<Longrightarrow> length r < 512"
  using b64_loop_length [of s 0 0 "[]" r] by (simp add: k3_b64_def)

section \<open>The byte map\<close>

lemma u8_round:
  assumes "cp < 0x800"
  shows "u8_next (u8_put cp @ s) = (cp, length (u8_put cp))" "u8_put cp \<noteq> []"
proof -
  show "u8_put cp \<noteq> []" by (simp add: u8_put_def)
  show "u8_next (u8_put cp @ s) = (cp, length (u8_put cp))"
  proof (cases "cp < 0x80")
    case True
    then show ?thesis by (simp add: u8_put_def code_of_char Let_def)
  next
    case False
    have q: "2 \<le> cp div 64" "cp div 64 < 32" using assms False by auto
    have dm: "(k * n + r) div n = k" "(k * n + r) mod n = r" if "r < n" for k n r :: nat using that by simp_all
    then have x: "(192 + cp div 64) div 32 = 6" "(192 + cp div 64) mod 32 = cp div 64" using dm [of "cp div 64" 32 6] q(2) by simp_all
    have c: "cont (char_of (128 + cp mod 64)) = cp mod 64" using dm(2) [of "cp mod 64" 64 2] by (simp add: cont_def code_of_char)
    have "chr_code (char_of (192 + cp div 64)) = 192 + cp div 64" using q(2) by (intro code_of_char) simp
    then show ?thesis using False assms x c by (simp add: u8_put_def Let_def)
  qed
qed

lemma decode_next:
  assumes "cp < 0x800"
  shows "decode_str t (u8_put cp @ s) = (if cp < 1024 \<and> t ! cp \<ge> 0 then [char_of (nat (t ! cp))] else []) @ decode_str t s"
proof -
  obtain c r where c: "u8_put cp = c # r" using u8_round(2) [OF assms] by (cases "u8_put cp") auto
  then show ?thesis using u8_round(1) [OF assms, of s] by (simp del: u8_next.simps)
qed

lemma byte_cp_bound: "b < 256 \<Longrightarrow> byte_cp b < 512"
proof -
  assume "b < 256"
  moreover have "length (filter (\<lambda>x. \<not> is_direct x) [0..<b]) \<le> b" by (metis length_filter_le length_upt diff_zero)
  ultimately show ?thesis by (simp add: byte_cp_def)
qed

lemma byte_cp_less: "b < b' \<Longrightarrow> b' < 256 \<Longrightarrow> byte_cp b \<noteq> byte_cp b'"
proof -
  assume b: "b < b'" "b' < 256"
  have "length (filter (\<lambda>x. \<not> is_direct x) [0..<b]) < length (filter (\<lambda>x. \<not> is_direct x) [0..<b'])" if "\<not> is_direct b"
  proof -
    have "[0..<b'] = [0..<b] @ [b..<b']" using upt_add_eq_append [of 0 b "b' - b"] b(1) by simp
    then have "[0..<b'] = [0..<b] @ b # [Suc b..<b']" using b(1) by (simp add: upt_conv_Cons)
    then show ?thesis using that by simp
  qed
  then show ?thesis using b by (auto simp: byte_cp_def)
qed

lemma cp2byte_fold:
  "n \<le> 256 \<Longrightarrow> length (fold (\<lambda>b t. if byte_cp b < 1024 then t[byte_cp b := int b] else t) [0..<n] (replicate 1024 (-1))) = 1024 \<and>
     (\<forall>b < n. fold (\<lambda>b t. if byte_cp b < 1024 then t[byte_cp b := int b] else t) [0..<n] (replicate 1024 (-1)) ! byte_cp b = int b)"
proof (induction n)
  case (Suc n)
  have "byte_cp n < 1024" using byte_cp_bound [of n] Suc.prems by simp
  moreover have "byte_cp n \<noteq> byte_cp b" if "b < n" for b using byte_cp_less [OF that] Suc.prems by simp
  ultimately show ?case using Suc by (auto simp: less_Suc_eq)
qed simp

lemma cp2byte_ok: "b < 256 \<Longrightarrow> cp2byte ! byte_cp b = int b"
  using cp2byte_fold [of 256] by (simp add: cp2byte_def)

definition bytemap_ok :: "Tok \<Rightarrow> bool" where
  "bytemap_ok T \<longleftrightarrow> tk_byte2str T = byte2str \<and> tk_cp2byte T = cp2byte"

lemma bytelevel_Cons: "bytemap_ok T \<Longrightarrow> k3_bytelevel T (b # bs) = u8_put (byte_cp (chr_code b)) @ k3_bytelevel T bs"
  using code_lt [of b] by (simp add: k3_bytelevel_def bytemap_ok_def byte2str_def)

text \<open>The byte-level key of a token decodes to the token; so tokens have keys of their own.\<close>

lemma decode_bytelevel: "bytemap_ok T \<Longrightarrow> decode_str (tk_cp2byte T) (k3_bytelevel T bs) = bs"
proof (induction bs)
  case (Cons b bs)
  have "byte_cp (chr_code b) < 512" "cp2byte ! byte_cp (chr_code b) = int (chr_code b)" using byte_cp_bound cp2byte_ok code_lt by blast+
  then show ?case using Cons by (simp add: bytelevel_Cons decode_next bytemap_ok_def)
qed (simp add: k3_bytelevel_def)

lemma bytelevel_inj: "bytemap_ok T \<Longrightarrow> k3_bytelevel T x = k3_bytelevel T y \<Longrightarrow> x = y"
  using decode_bytelevel by metis

lemma bytelevel_same: "bytemap_ok T \<Longrightarrow> bytemap_ok T' \<Longrightarrow> k3_bytelevel T bs = k3_bytelevel T' bs"
  by (simp add: k3_bytelevel_def bytemap_ok_def)

section \<open>Decimal numbers\<close>

lemma digits_snoc: "decimal_value (ds @ [c]) = decimal_value ds * 10 + (int (chr_code c) - 48)"
  by (simp add: decimal_value_def)

lemma show_nat_value: "decimal_value (show_nat n) = int n \<and> (\<forall>c\<in>set (show_nat n). c_isdigit c) \<and> show_nat n \<noteq> []"
proof (induction n rule: show_nat.induct)
  case (1 n)
  have d: "chr_code (digit_char m) = 48 + m" if "m < 10" for m using that by (simp add: digit_char_def code_of_char)
  show ?case
  proof (cases "n < 10")
    case True
    then show ?thesis using d [of n] by (simp add: show_nat.simps [of n] decimal_value_def c_isdigit_def)
  next
    case False
    have "int (n div 10) * 10 + int (n mod 10) = int n" by (simp add: zdiv_int zmod_int)
    then show ?thesis using 1 False d [of "n mod 10"] by (simp add: show_nat.simps [of n] digits_snoc c_isdigit_def)
  qed
qed

lemma atoi_show:
  assumes "n < 2 ^ 31" "s = [] \<or> \<not> c_isdigit (hd s)"
  shows "atoi (show_nat n @ s) = int n"
proof -
  note d = show_nat_value [of n]
  obtain c r where c: "show_nat n = c # r" using d by (cases "show_nat n") auto
  have "c_isdigit c" using d c by simp
  then have "\<not> c_isspace c" "c \<noteq> CHR ''-''" "c \<noteq> CHR ''+''" by (auto simp: c_isdigit_def c_isspace_def chr_code_def)
  then have q: "dropWhile c_isspace (show_nat n @ s) = show_nat n @ s" "hd (show_nat n @ s) = c" using c by simp_all
  have "takeWhile c_isdigit (show_nat n @ s) = show_nat n @ takeWhile c_isdigit s" by (rule takeWhile_append2) (use d in blast)
  also have "takeWhile c_isdigit s = []" using assms(2) by (cases s) auto
  finally have t: "takeWhile c_isdigit (show_nat n @ s) = show_nat n" by simp
  have "to_int (int n) = int n"
    using assms(1) signed_take_bit_int_eq_self [of 31 "int n"] by (simp add: to_int_def signed_of_int del: of_int_of_nat_eq)
  then show ?thesis using \<open>c \<noteq> CHR ''-''\<close> \<open>c \<noteq> CHR ''+''\<close> d assms(1) by (simp add: atoi_def q t Let_def)
qed

section \<open>Loading\<close>

definition tok_line :: "cstr \<times> nat \<Rightarrow> cstr" where
  "tok_line = (\<lambda>(bs, r). b64_encode bs @ CHR '' '' # show_nat r @ [CHR 0x0A])"

definition tok_file :: "(cstr \<times> nat) list \<Rightarrow> cstr" where
  "tok_file vs = concat (map tok_line vs)"

definition vocab_ok :: "(cstr \<times> nat) list \<Rightarrow> bool" where
  "vocab_ok vs \<longleftrightarrow> vs \<noteq> [] \<and> length vs \<le> 163584 \<and> distinct (map fst vs) \<and> distinct (map snd vs) \<and>
     list_all (\<lambda>(bs, r). length bs \<le> 510 \<and> r < K3_TOK_VOCAB) vs"

definition added_ok :: "(cstr \<times> nat) list \<Rightarrow> (cstr \<times> jval) list \<Rightarrow> bool" where
  "added_ok vs kvs \<longleftrightarrow> list_all (\<lambda>(key, e). (\<exists>s. json_get e ''content'' = Some (J_STR s)) \<and>
     0 \<le> atoi key \<and> atoi key < int K3_TOK_VOCAB \<and> nat (atoi key) \<notin> snd ` set vs) kvs"

text \<open>What the tokenizer knows of the tokens loaded so far.\<close>

definition loaded :: "(cstr \<times> nat) list \<Rightarrow> Tok \<Rightarrow> bool" where
  "loaded vs T \<longleftrightarrow> bytemap_ok T \<and> (\<exists>p. hm_inv p (tk_vocab T)) \<and> length (tk_vocab T) = bucket_count 163584 1 \<and>
     hm_used (tk_vocab T) \<le> length vs \<and> length (tk_id2str T) = K3_TOK_VOCAB \<and> length (tk_id_added T) = K3_TOK_VOCAB \<and>
     (\<forall>(bs, r)\<in>set vs. hm_has (tk_vocab T) (k3_bytelevel T bs) (int r) \<and> tk_id2str T ! r = Some (k3_bytelevel T bs))"

lemma vocab_cap: "327168 \<le> bucket_count 163584 1"
  using bucket_count_load [of 1 163584] by simp

lemma tok_init_loaded: "loaded [] tok_init"
proof -
  obtain p where p: "bucket_count 163584 1 = 2 ^ p" using bucket_count_pow [of 1 0 163584] by auto
  have "(2 :: nat) ^ p < 2 ^ 64" using bucket_count_bound [of 1 163584] p by simp
  then have "p < 64" by (simp only: power_strict_increasing_iff)
  then show ?thesis using p by (auto simp: loaded_def tok_init_def bytemap_ok_def hm_inv_def hm_used_def)
qed

lemma line_shape:
  assumes "ls = tok_line (bs, r) @ rest"
  shows "takeWhile (\<lambda>c. c \<noteq> CHR 0x0A) ls = b64_encode bs @ CHR '' '' # show_nat r"
    "the_line ls = b64_encode bs @ CHR '' '' # show_nat r" "drop (length (takeWhile (\<lambda>c. c \<noteq> CHR 0x0A) ls) + 1) ls = rest"
    "takeWhile (\<lambda>c. c \<noteq> CHR '' '') (the_line ls) = b64_encode bs"
    "drop (length (b64_encode bs) + 1) ls = show_nat r @ CHR 0x0A # rest"
proof -
  note d = show_nat_value [of r]
  have dig: "c \<noteq> CHR 0x0A" "c \<noteq> CHR 0x0D" if "c \<in> set (show_nat r)" for c
  proof -
    have "c_isdigit c" using d that by blast
    then show "c \<noteq> CHR 0x0A" "c \<noteq> CHR 0x0D" by (auto simp: c_isdigit_def chr_code_def)
  qed
  have enc: "CHR 0x0A \<notin> set (b64_encode bs)" "CHR '' '' \<notin> set (b64_encode bs)" using b64_encode_chars [of bs] b64_alphabet(4,5) by auto
  have ls: "ls = (b64_encode bs @ CHR '' '' # show_nat r) @ CHR 0x0A # rest" by (simp add: assms tok_line_def)
  have "\<forall>c\<in>set (b64_encode bs @ CHR '' '' # show_nat r). c \<noteq> CHR 0x0A" using dig(1) enc(1) by auto
  then show t: "takeWhile (\<lambda>c. c \<noteq> CHR 0x0A) ls = b64_encode bs @ CHR '' '' # show_nat r"
    unfolding ls by (subst takeWhile_append2) auto
  have "last (b64_encode bs @ CHR '' '' # show_nat r) = last (show_nat r)" using d by simp
  then have "last (b64_encode bs @ CHR '' '' # show_nat r) \<noteq> CHR 0x0D" using d dig(2) by (metis last_in_set)
  then show l: "the_line ls = b64_encode bs @ CHR '' '' # show_nat r" by (simp add: the_line_def t Let_def)
  show "drop (length (takeWhile (\<lambda>c. c \<noteq> CHR 0x0A) ls) + 1) ls = rest" unfolding t by (simp add: ls)
  show "takeWhile (\<lambda>c. c \<noteq> CHR '' '') (the_line ls) = b64_encode bs" unfolding l using enc(2) by (subst takeWhile_append2) auto
  show "drop (length (b64_encode bs) + 1) ls = show_nat r @ CHR 0x0A # rest" by (simp add: ls)
qed

lemma load_one:
  assumes T: "loaded vs T" and ls: "ls = tok_line (bs, r) @ rest" and r: "r < K3_TOK_VOCAB" "length bs \<le> 510"
    and new: "bs \<notin> fst ` set vs" "r \<notin> snd ` set vs" and n: "length vs < 163584"
  shows "\<exists>T'. load_line ls (the_line ls) nrank T = Inr T' \<and> loaded (vs @ [(bs, r)]) T' \<and> tk_id_added T' = tk_id_added T"
proof -
  note sh = line_shape [OF ls]
  obtain p where T': "bytemap_ok T" "hm_inv p (tk_vocab T)" "length (tk_vocab T) = bucket_count 163584 1" "hm_used (tk_vocab T) \<le> length vs"
    "length (tk_id2str T) = K3_TOK_VOCAB" "length (tk_id_added T) = K3_TOK_VOCAB"
    "\<forall>(bs, r)\<in>set vs. hm_has (tk_vocab T) (k3_bytelevel T bs) (int r) \<and> tk_id2str T ! r = Some (k3_bytelevel T bs)"
    using T by (auto simp: loaded_def)
  let ?k = "k3_bytelevel T bs"
  have "hm_used (tk_vocab T) < length (tk_vocab T)" using T'(3,4) n vocab_cap by linarith
  from hm_put_spec [OF T'(2) this, of ?k "int r"] obtain e where e: "hm_put (tk_vocab T) ?k (int r) = Some e" "hm_inv p e"
    "length e = length (tk_vocab T)" "hm_used e \<le> hm_used (tk_vocab T) + 1" "hm_has e ?k (int r)"
    "\<And>k' v'. k' \<noteq> ?k \<Longrightarrow> hm_has (tk_vocab T) k' v' \<Longrightarrow> hm_has e k' v'" by blast
  have rank: "atoi (drop (length (b64_encode bs) + 1) ls) = int r"
    unfolding sh(5) by (rule atoi_show) (use r in \<open>simp_all add: K3_TOK_VOCAB_def c_isdigit_def chr_code_def\<close>)
  have len: "length (b64_encode bs) \<le> 512 * 4 div 3" using r(2) by (simp add: length_b64_encode)
  let ?T = "T\<lparr>tk_vocab := e, tk_id2str := (tk_id2str T)[r := Some ?k]\<rparr>"
  have "load_line ls (the_line ls) nrank T = Inr ?T"
    unfolding load_line_def sh(4) Let_def rank using len r(1) e(1) by (simp add: sh(2) k3_b64_encode)
  moreover have bm: "bytemap_ok ?T" "\<And>x. k3_bytelevel ?T x = k3_bytelevel T x" using T'(1) by (simp_all add: bytemap_ok_def k3_bytelevel_def)
  have "hm_has e (k3_bytelevel T x) (int q) \<and> (tk_id2str T)[r := Some ?k] ! q = Some (k3_bytelevel T x)" if "(x, q) \<in> set (vs @ [(bs, r)])" for x q
  proof (cases "(x, q) \<in> set vs")
    case True
    then have "x \<noteq> bs" "q \<noteq> r" using new by force+
    then have "k3_bytelevel T x \<noteq> ?k" using bytelevel_inj [OF T'(1)] by blast
    then show ?thesis using True T'(7) e(6) \<open>q \<noteq> r\<close> by auto
  next
    case False
    then show ?thesis using that e(5) T'(5) r(1) by auto
  qed
  then have "loaded (vs @ [(bs, r)]) ?T"
    using bm e(2-4) T'(3-6) unfolding loaded_def by auto
  moreover have "tk_id_added ?T = tk_id_added T" by simp
  ultimately show ?thesis by blast
qed

lemma load_file:
  assumes "loaded vs T" "vocab_ok (vs @ us)"
  shows "\<exists>T'. load_ranks (tok_file us) n T = Inr (n + length us, T') \<and> loaded (vs @ us) T' \<and> tk_id_added T' = tk_id_added T"
  using assms
proof (induction us arbitrary: vs n T)
  case Nil
  then show ?case by (simp add: tok_file_def load_ranks.simps)
next
  case (Cons x us)
  obtain bs r where x: "x = (bs, r)" by (cases x)
  let ?ls = "tok_file (x # us)"
  have ls: "?ls = tok_line (bs, r) @ tok_file us" by (simp add: tok_file_def x)
  have v: "r < K3_TOK_VOCAB" "length bs \<le> 510" "bs \<notin> fst ` set vs" "r \<notin> snd ` set vs" "length vs < 163584" "vocab_ok ((vs @ [x]) @ us)"
    using Cons.prems(2) by (auto simp: vocab_ok_def x)
  obtain T' where T': "load_line ?ls (the_line ?ls) n T = Inr T'" "loaded (vs @ [x]) T'" "tk_id_added T' = tk_id_added T"
    using load_one [OF Cons.prems(1) ls v(1-5)] x by blast
  obtain T'' where T'': "load_ranks (tok_file us) (n + 1) T' = Inr (n + 1 + length us, T'')" "loaded ((vs @ [x]) @ us) T''" "tk_id_added T'' = tk_id_added T'"
    using Cons.IH [OF T'(2) v(6)] by blast
  have "?ls \<noteq> []" "the_line ?ls \<noteq> []" using line_shape(2) [OF ls] by (auto simp: ls tok_line_def)
  then have "load_ranks ?ls n T = load_ranks (tok_file us) (n + 1) T'"
    using T'(1) line_shape(3) [OF ls] by (subst load_ranks.simps) simp
  then show ?case using T'' T'(3) by auto
qed

lemma load_added_ok:
  assumes "added_ok vs kvs" "\<And>bs r. (bs, r) \<in> set vs \<Longrightarrow> r < K3_TOK_VOCAB \<and> \<not> tk_id_added T ! r" "loaded vs T"
  shows "\<exists>T'. load_added kvs T = Inr T' \<and> loaded vs T' \<and> (\<forall>(bs, r)\<in>set vs. \<not> tk_id_added T' ! r)"
  using assms
proof (induction kvs arbitrary: T)
  case (Cons kv kvs)
  obtain key e where kv: "kv = (key, e)" by (cases kv)
  obtain s where s: "json_get e ''content'' = Some (J_STR s)" "0 \<le> atoi key" "atoi key < int K3_TOK_VOCAB" "nat (atoi key) \<notin> snd ` set vs" "added_ok vs kvs"
    using Cons.prems(1) by (auto simp: added_ok_def kv)
  let ?T = "T\<lparr>tk_sp := tk_sp T @ [\<lparr>sp_str = s, sp_id = atoi key\<rparr>], tk_id2str := (tk_id2str T)[nat (atoi key) := Some s],
      tk_id_added := (tk_id_added T)[nat (atoi key) := True],
      tk_id_special := (if json_get e ''special'' = Some (J_BOOL True) then (tk_id_special T)[nat (atoi key) := True] else tk_id_special T)\<rparr>"
  have ne: "nat (atoi key) \<noteq> r" if "(bs, r) \<in> set vs" for bs r using s(4) that by force
  have "load_added (kv # kvs) T = load_added kvs ?T" using s(1-3) by (simp add: kv Let_def)
  moreover have "loaded vs ?T"
  proof -
    have "k3_bytelevel ?T x = k3_bytelevel T x" for x by (simp add: k3_bytelevel_def)
    then show ?thesis using Cons.prems(3) ne by (fastforce simp: loaded_def bytemap_ok_def)
  qed
  moreover have "r < K3_TOK_VOCAB \<and> \<not> tk_id_added ?T ! r" if "(bs, r) \<in> set vs" for bs r
    using Cons.prems(2) [OF that] ne [OF that] by simp
  ultimately show ?case using Cons.IH [OF s(5), of ?T] by auto
qed auto

lemma tok_round_trip:
  assumes v: "vocab_ok vs" and a: "json_get root ''added_tokens_decoder'' = Some (J_OBJ kvs)" "added_ok vs kvs"
  shows "\<exists>T. k3_tok_load (tok_file vs) root = Inr T \<and>
    (\<forall>(bs, r)\<in>set vs. hm_get (tk_vocab T) (k3_bytelevel T bs) = Some (int r)) \<and>
    (\<forall>xs cap. set xs \<subseteq> set vs \<longrightarrow> tok_decode T (map (int \<circ> snd) xs) cap = take cap (concat (map fst xs)))"
proof -
  obtain T where T: "load_ranks (tok_file vs) 0 tok_init = Inr (length vs, T)" "loaded vs T" "tk_id_added T = tk_id_added tok_init"
    using load_file [OF tok_init_loaded, of vs 0] v by auto
  have rg: "r < K3_TOK_VOCAB" if "(bs, r) \<in> set vs" for bs r using v that by (auto simp: vocab_ok_def list_all_iff)
  obtain T1 where T1: "load_added kvs T = Inr T1" "loaded vs T1" "\<forall>(bs, r)\<in>set vs. \<not> tk_id_added T1 ! r"
    using load_added_ok [OF a(2) _ T(2)] rg T(3) by (auto simp: tok_init_def)
  let ?T = "T1\<lparr>tk_sp := sort_specials (tk_sp T1)\<rparr>"
  have "k3_tok_load (tok_file vs) root = Inr ?T" using T(1) T1(1) a(1) v by (simp add: k3_tok_load_def vocab_ok_def)
  moreover have "loaded vs ?T"
  proof -
    have "k3_bytelevel ?T = k3_bytelevel T1" by (simp add: k3_bytelevel_def fun_eq_iff)
    then show ?thesis using T1(2) by (simp add: loaded_def bytemap_ok_def)
  qed
  then obtain p where L: "bytemap_ok ?T" "hm_inv p (tk_vocab ?T)" "hm_used (tk_vocab ?T) < length (tk_vocab ?T)"
    "\<forall>(bs, r)\<in>set vs. hm_has (tk_vocab ?T) (k3_bytelevel ?T bs) (int r) \<and> tk_id2str ?T ! r = Some (k3_bytelevel ?T bs)"
    using v vocab_cap unfolding loaded_def vocab_ok_def by (auto intro: le_less_trans)
  have "hm_get (tk_vocab ?T) (k3_bytelevel ?T bs) = Some (int r)" if "(bs, r) \<in> set vs" for bs r
    using hm_unique [OF L(2,3)] L(4) that by blast
  moreover have "decode_id ?T (int r) = bs" if "(bs, r) \<in> set vs" for bs r
  proof -
    have "tk_id2str ?T ! r = Some (k3_bytelevel ?T bs)" "\<not> tk_id_added ?T ! r" using L(4) T1(3) that by auto
    then show ?thesis using rg [OF that] decode_bytelevel [OF L(1), of bs] by (simp add: decode_id_def)
  qed
  then have "tok_decode ?T (map (int \<circ> snd) xs) cap = take cap (concat (map fst xs))" if "set xs \<subseteq> set vs" for xs cap
  proof -
    have "decode_id ?T (int (snd x)) = fst x" if "x \<in> set xs" for x
      using that \<open>set xs \<subseteq> set vs\<close> \<open>\<And>r bs. (bs, r) \<in> set vs \<Longrightarrow> decode_id ?T (int r) = bs\<close> by (cases x) auto
    then have "map (decode_id ?T \<circ> (int \<circ> snd)) xs = map fst xs" by (intro map_cong) auto
    then show ?thesis unfolding tok_decode_def map_map by (rule arg_cong)
  qed
  ultimately show ?thesis by blast
qed

end
