(* ===== verification/Spec2Isabelle.thy ===== *)
theory Spec2Isabelle
  imports Agent_State Agent_Permissions Agent_Reasoning Agent_Protocol Agent_Plan Agent_Memory
    Agent_Context Agent_Tools Agent_Platform Agent_Sandbox Agent_Builtins Agent_Loop Agent_Balance Agent_Fence
    K3_Demo K3_Trunk_Demo K3_Tok_Laws
begin

text \<open>
  A verification development of the repository: an inference engine that runs a mixture-of-experts model from disk
  (\<open>src/src\<close>, \<open>src/include\<close>), and an agent runtime that lets a model act through tools (\<open>src/agent\<close>).

  \<^bold>\<open>The engine.\<close> A checkpoint is a directory of shards; \<open>k3_st.c\<close> scans their headers and builds a name index,
  \<open>k3_load.c\<close> resolves and loads one routed expert, \<open>k3_cache.c\<close> keeps experts in a bounded arena and serves them to the
  layers, \<open>k3_ops.c\<close> holds the kernels, the router, the mixture, both kinds of attention and the decoder layer, and
  \<open>k3_run.c\<close> the forward pass, the generation loop with its drafts, and the saved conversation state. The configuration
  comes from \<open>k3_cfg.h\<close>. The weights of a layer are bound by \<open>k3_bind.c\<close>, from the shards or from the packed runs
  that \<open>k3_trunk.c\<close> streams through a ring of slots with a reader thread. A layer asks the cache for the experts its router selects, through the interface
  \<open>K3ExpertSrc\<close>; a read that fails is counted in \<open>k3_expert_drops\<close>.

  \<^item> \<open>K3_Store\<close>, \<open>K3_Header\<close>: data types, scanner, tensor table, hash index, lookup, plain and aligned reads (\<open>k3_st.c\<close>).
    A disk is an argument: what each \<open>pread\<close> returns, short reads and errors included.
  \<^item> \<open>K3_Load\<close>: names, geometry and both layouts of an expert (\<open>k3_load.c\<close>).
  \<^item> \<open>K3_Cache\<close>, \<open>K3_Cache_Laws\<close>, \<open>K3_Cache_Batch\<close>, \<open>K3_Source\<close>, \<open>K3_Live\<close>: the cache (\<open>k3_cache.c\<close>), the invariant that
    ties its two tables and the arena's bytes to the checkpoint, the three phases of a batch, reachability, and when a
    request must succeed. The locale \<open>expert_source\<close> is the contract of \<open>K3ExpertSrc\<close>, interpreted on the cache.
  \<^item> \<open>K3_Float\<close>: IEEE 754 binary32 and binary64 on bit patterns, rounding to nearest even; \<open>expf\<close>, \<open>tanhf\<close> and the
    payload of a produced NaN are the arguments \<open>fpu\<close>. The build sets \<open>-ffp-contract=off\<close>, so a product and a sum
    round separately unless the source writes \<open>fma\<close>.
  \<^item> \<open>K3_Kernels\<close>: every kernel of \<open>k3_ops.c\<close>, with the order of its roundings, in the scalar and the AVX2 build.
  \<^item> \<open>K3_Moe\<close>, \<open>K3_Moe_Laws\<close>, \<open>K3_Moe_Cache\<close>: router and mixture, per token and batched, over an expert source; the
    locale \<open>moe_source\<close> extends \<open>expert_source\<close> by what the bytes are worth to the kernels and is interpreted on the cache.
  \<^item> \<open>K3_Attention\<close>, \<open>K3_Attention_Laws\<close>: gated MLA with its cache, Kimi Delta Attention with its recurrent state; a
    sequence may be fed in pieces.
  \<^item> \<open>K3_Decoder\<close>, \<open>K3_Forward_Laws\<close>, \<open>K3_Carry\<close>: the decoder layer, \<open>forward\<close>, and what a carried state stands for: the
    predicate \<open>consumed\<close> relates it to the ids fed so far, over a cache whose later rows may be stale.
  \<^item> \<open>K3_Generate\<close>, \<open>K3_Generate_Laws\<close>: the generation loop, with drafts from the sequence or from a second model. The
    locales \<open>decoder\<close> and \<open>drafted\<close> are the contracts of a forward pass and of a draft model; \<open>streamed\<close> interprets them.
  \<^item> \<open>K3_State\<close>: the state file, byte by byte.
  \<^item> \<open>K3_Bind\<close>, \<open>K3_Bind_Laws\<close>: the plan of a layer's tensors, the widening reads, and both ways of binding it (\<open>k3_bind.c\<close>,
    \<open>k3_st_read_f32\<close>); a packed run with the checkpoint's bytes binds to the same weights.
  \<^item> \<open>K3_Trunk\<close>, \<open>K3_Trunk_Laws\<close>: the streamed trunk (\<open>k3_trunk.c\<close>): table of contents, sizing, ring, prefetch and bind.
    \<open>trunk_step\<close> interleaves the reader thread with the walk of \<open>forward\<close> over the layers; each critical section and each
    \<open>pread\<close> is one step. The invariant \<open>walk_inv\<close> holds in every state reached, for a walk over all layers of the trunk and
    until a read fails, after which the source gives up. \<open>K3_Trunk_Demo\<close>: a checkpoint and a trunk of one-element tensors.
  \<^item> \<open>K3_Tok\<close>, \<open>K3_Tok_Laws\<close>: the tokenizer loader (\<open>k3_tok.h\<close>) with the byte map, the hash map and the decoder of the vendored
    \<open>tok.h\<close>: base64 and byte-level round trips, the map as a dictionary, the vocabulary file.
  \<^item> \<open>K3_Config\<close>: \<open>K3Cfg\<close>, the layer map and the reader (\<open>k3_cfg.h\<close>); \<open>K3_Config_Demo\<close>, \<open>K3_Examples\<close>, \<open>K3_Demo\<close>: a
    configuration, a checkpoint and a model small enough to compute with.

  \<^bold>\<open>The agent.\<close> A task is planned by asking a model (\<open>planner.c\<close>), then a loop (\<open>agent_loop.c\<close>) builds a prompt
  (\<open>context.c\<close>, \<open>memory.c\<close>), parses the reply into an action (\<open>jsonx.c\<close>, \<open>protocol.c\<close>), dispatches a tool through the
  registry and its permission gate (\<open>tool_registry.c\<close>, \<open>permissions.c\<close>), verifies the outcome and recovers
  (\<open>verification.c\<close>, \<open>reflection.c\<close>). Tools act inside a sandbox (\<open>sandbox.c\<close>).

  \<^item> \<open>Agent_Prelude\<close>: C strings, bounded formatting, shared facts; \<open>Agent_Json\<close>: JSON values and \<open>jsonx.c\<close>;
    \<open>Agent_Balance\<close>: a grammar of balanced text, which the scan for an object recognises exactly.
  \<^item> \<open>Agent_State\<close> (locale \<open>guarded_machine\<close>), \<open>Agent_Config\<close>, \<open>Agent_Permissions\<close> (locale \<open>override_table\<close>),
    \<open>Agent_Reasoning\<close>, \<open>Agent_Protocol\<close>, \<open>Agent_Plan\<close>, \<open>Agent_Memory\<close> (locale \<open>bounded_log\<close>), \<open>Agent_Context\<close>: one
    theory per component of the same name.
  \<^item> \<open>Agent_Tools\<close> (locale \<open>gatekeeper\<close>): registry and gate; \<open>Agent_Platform\<close>: files, paths, subprocesses over the calls
    of the operating system as a record of functions on a world; \<open>Agent_Sandbox\<close>; \<open>Agent_Builtins\<close> (locale
    \<open>path_tool\<close>): file, shell, git and web tools; \<open>Agent_Fence\<close>: the operating system fenced at the workspace root, on
    which the file tools run unchanged; \<open>Agent_Loop\<close>: the agent object and the loop.

  \<^bold>\<open>What is shown.\<close> Decoding: the emitted ids are the greedy continuation, with any drafts, whatever the disk does as
  long as no expert is dropped; incremental decode equals recompute; a saved state resumes; the streamed mixture is the
  one over the checkpoint's bytes; a streamed layer is the resident one, reader and walk never wait for each other in vain, and the trunk keeps to its budget; the builds agree bit for bit; the tokenizer decodes what it loaded; the router selects by biased and weighs by unbiased score; a configuration loads
  whole or not at all. Storage: lookup, loads, coherence, pins, replacement, liveness and the commuting reads of the
  cache. Agent: the loop ends with an outcome that matches its record and keeps its invariant, a dry run executes
  nothing, only permitted and confirmed tools run, paths stay in the sandbox and the file tools touch nothing outside it,
  writes are atomic, edits unambiguous, subprocess output is cut exactly, objects are extracted as balanced spans, the task
  state follows its diagram, plans round trip, the planner delivers.

  \<^bold>\<open>Bounds and termination.\<close> The model uses no fuel. Loops whose recursion is not structural have a measure; the
  generation loop ends because every step emits at least one id, the poll loop of \<open>proc_run\<close> ranges over the list of
  what its turns observe. \<open>None\<close> from a forward pass is the abort of the source (a cache position out of
  bounds, a source that never returns). Sizes are natural numbers or integers where the source computes in \<open>size_t\<close> or
  \<open>int\<close> without wrapping; where a conversion wraps (\<open>K3_Header\<close>, \<open>K3_Load\<close>, \<open>K3_State\<close>) it is written out on words. The numbers of an untrusted
  header wrap at 64 bits (\<open>int64\<close>); a checkpoint has at most \<open>2 ^ 29\<close> tensors, below which the \<open>int\<close> counters do not wrap.
  Allocations are rounded up to 2 MB behind the sizes the code accounts for.
  Floats are words. Allocation is assumed to succeed, which the source enforces by aborting.

  \<^bold>\<open>Not modelled.\<close> Terminal output, option parsing and presets (\<open>k3_run.c\<close>, \<open>agent/main.c\<close>), logging, the HTTP server and
  sockets, SQLite, and platform macros: input and output with no state the properties speak of. The
  encoder of the vendored \<open>tok.h\<close>; of cJSON and \<open>json.h\<close>, parsing and printing are arguments. The agent's own copy of the
  generation loop (\<open>k3_engine.c\<close>) runs the same forward pass. Teardown (\<open>k3_st_close\<close>, \<open>k3_trunk_close\<close>) frees memory
  and joins the reader. \<open>forward\<close> takes the bound weights of its layers as given; that streaming provides them is the
  theorem on streamed layers. Threads of OpenMP split loops over disjoint outputs only; the reads of a cache batch are
  modelled in every order.
\<close>

section \<open>Concrete instances\<close>

text \<open>
  Small instances of the interfaces the model takes as arguments: an operating system whose world is
  a map from paths to contents, a JSON library that knows one document, an agent without database.
\<close>

definition mem_fs :: "(cstr \<Rightarrow> cptr) Posix" where
  "mem_fs =
     \<lparr>px_realpath = (\<lambda>p w. if p = ''/ws'' \<or> w p \<noteq> None then Inr p else Inl ENOENT),
      px_getcwd = (\<lambda>w. Some ''/ws''),
      px_stat = (\<lambda>p w. map_option (\<lambda>d. \<lparr>stat_is_dir = False, stat_size = int (length d), stat_mtime = 0\<rparr>) (w p)),
      px_readdir = (\<lambda>p w. None),
      px_mkdir = (\<lambda>p w. (Some EEXIST, w)),
      px_fopen_read = (\<lambda>p w. map_option (\<lambda>d. \<lparr>rf_size = Some (length d), rf_data = d, rf_error = False\<rparr>) (w p)),
      px_create = (\<lambda>p d w. (Stored, w(p \<mapsto> d))),
      px_append = (\<lambda>p d w. (Stored, w(p \<mapsto> or_default (w p) [] @ d))),
      px_rename = (\<lambda>p q w. (True, (w(q := w p))(p := if p = q then w p else None))),
      px_remove = (\<lambda>p w. (True, w(p := None))),
      px_time = (\<lambda>w. 0),
      px_spawn = (\<lambda>cmd wd t env w. (None, w))\<rparr>"

definition no_fs :: "unit Posix" where
  "no_fs =
     \<lparr>px_realpath = (\<lambda>p w. if p = ''/ws'' then Inr ''/ws'' else Inl ENOENT),
      px_getcwd = (\<lambda>w. Some ''/ws''), px_stat = (\<lambda>p w. None), px_readdir = (\<lambda>p w. None),
      px_mkdir = (\<lambda>p w. (Some EEXIST, w)), px_fopen_read = (\<lambda>p w. None),
      px_create = (\<lambda>p d w. (NoOpen, w)), px_append = (\<lambda>p d w. (NoOpen, w)),
      px_rename = (\<lambda>p q w. (False, w)), px_remove = (\<lambda>p w. (False, w)),
      px_time = (\<lambda>w. 0), px_spawn = (\<lambda>cmd wd t env w. (None, w))\<rparr>"

definition true_fs :: "nat Posix" where
  "true_fs =
     \<lparr>px_realpath = (\<lambda>p w. Inr p), px_getcwd = (\<lambda>w. Some ''/ws''), px_stat = (\<lambda>p w. None),
      px_readdir = (\<lambda>p w. None), px_mkdir = (\<lambda>p w. (Some EEXIST, w)), px_fopen_read = (\<lambda>p w. None),
      px_create = (\<lambda>p d w. (NoOpen, w)), px_append = (\<lambda>p d w. (NoOpen, w)),
      px_rename = (\<lambda>p q w. (False, w)), px_remove = (\<lambda>p w. (False, w)), px_time = (\<lambda>w. 0),
      px_spawn = (\<lambda>cmd wd t env w. (Some ([\<lparr>tk_expired = False, tk_ready = True, tk_reads = [''ok''],
        tk_wait = Some (Exited 0), tk_final = [], tk_reaped = Killed\<rparr>], 0), Suc w))\<rparr>"

definition demo_box :: Sandbox where
  "demo_box = \<lparr>sb_root = ''/ws'', sb_enabled = True, sb_backup_seq = 0\<rparr>"

definition demo_backend :: "unit ModelBackend" where
  "demo_backend = \<lparr>mb_generate = (\<lambda>req w. ((1, \<lparr>res_text = None, res_error = ''offline''\<rparr>), w)),
     mb_count_tokens = None, mb_context_window = 4096\<rparr>"

definition demo_tool :: "unit AgentTool" where
  "demo_tool = \<lparr>tool_name = ''noop'', tool_description = ''Do nothing.'', tool_args_schema = None,
     tool_security_level = SEC_SAFE, tool_requires_confirmation = False,
     tool_execute = (\<lambda>args ctx res w. (0, tool_result_ok res (Some ''done''), w))\<rparr>"

definition demo_agent :: "unit Agent" where
  "demo_agent =
     \<lparr>ag_cfg = agent_config_defaults ''prompts'', ag_backend = demo_backend,
      ag_tools = \<lparr>reg_tools = [demo_tool]\<rparr>, ag_perm = permissions_create APPROVAL_RISKY 3,
      ag_root = ''/ws'', ag_db = None, ag_events = None, ag_system_prompt = None, ag_confirm = None\<rparr>"

definition demo_host :: "unit Host" where
  "demo_host = \<lparr>h_parse = (\<lambda>s. None), h_print = (\<lambda>v. ''{}''), h_double = (\<lambda>i. 0),
     h_bump = (\<lambda>f n. f), h_exists = (\<lambda>p w. False), h_now = (\<lambda>w. 0)\<rparr>"

definition demo_task :: AgentTask where
  "demo_task = task_create ''task_1'' 0 (Some ''say hello'') 5"

text \<open>A model that finishes at once, and a JSON library that reads its reply.\<close>

definition final_value :: json where
  "final_value = JObject [(''action'', JString ''final''), (''answer'', JString ''hello'')]"

definition final_host :: "unit Host" where
  "final_host = demo_host\<lparr>h_parse := (\<lambda>s. if s = ''{}'' then Some final_value else None)\<rparr>"

definition final_agent :: "unit Agent" where
  "final_agent = demo_agent\<lparr>ag_backend := demo_backend\<lparr>mb_generate :=
     (\<lambda>req w. ((0, \<lparr>res_text = Some ''{}'', res_error = []\<rparr>), w))\<rparr>\<rparr>"

definition final_act :: AgentAction where
  "final_act = agent_action_init\<lparr>act_type := ACT_FINAL, act_raw := Some ''{}'', act_answer := Some ''hello''\<rparr>"

section \<open>Decoding\<close>

text \<open>
  C1. Generation emits the greedy continuation. Whatever is drafted, from the sequence itself or by a second model
  that computes anything at all, an incremental run from a state that stands for the ids it has consumed returns, emits
  exactly the number of ids asked for, and leaves a state one id behind the sequence. When no expert was dropped
  on the way, the ids are those that choosing the largest logit of a recompute of the whole sequence gives, one by one.
\<close>

theorem drafting_does_not_change_the_output:
  assumes "model_ok st fl cfg m w (ge_run g)" and "gen_ready opt cfg w dw g"
    and "consumed (ma_fpu m) (ma_avx m) cfg (checkpoint_expert st fl) w (take (ca_cached (ge_ca g)) (ge_seq g)) (ge_ca g)"
  shows "\<exists>g'. generate_run m nb junk cfg w dw (cache_src st np) opt g = Some g' \<and> length (ge_out g') = go_gen opt \<and>
    ge_seq g' = ge_seq g @ ge_out g' \<and> ca_cached (ge_ca g') + 1 = length (ge_seq g') \<and>
    (ru_drops (ge_run g') = ru_drops (ge_run g) \<longrightarrow>
       ge_seq g' = greedy (greedy_next st fl cfg m w) (go_gen opt) (ge_seq g))"
  using generate_greedy [OF assms, of nb junk np] by blast

theorem drafting_does_not_change_the_output_witness:
  "\<exists>g'. generate_run demo_machine False (\<lambda>_ _. []) demo_cfg (demo_weights 7) None (cache_src demo_st False) demo_opt demo_gen = Some g' \<and>
     length (ge_out g') = 4 \<and> length (ge_seq g') = 6 \<and>
     (ru_drops (ge_run g') = 0 \<longrightarrow>
        ge_seq g' = greedy (greedy_next demo_st demo_file demo_cfg demo_machine (demo_weights 7)) 4 [1, 2])"
proof -
  have c: "consumed F avx demo_cfg W (demo_weights 7) (take (ca_cached (ge_ca demo_gen)) (ge_seq demo_gen)) (ge_ca demo_gen)" for F avx W
    using demo_consumed [of F avx W 7] by (simp add: demo_gen_def fresh_carry_def Let_def)
  have "model_ok demo_st demo_file demo_cfg demo_machine (demo_weights 7) (ge_run demo_gen)"
    using demo_model_ok by (simp add: demo_gen_def)
  from drafting_does_not_change_the_output [OF this demo_ready c, of False "\<lambda>_ _. []" False]
  show ?thesis by (auto simp: demo_gen_def demo_opt_def demo_run_def)
qed

text \<open>
  C2. Incremental decode agrees with full recompute: a run that carries state and drafts, and a run that processes the
  whole sequence again for every id, both return and, when neither dropped an expert, emit the same ids, whatever
  disks, caches and prefetching they used.
\<close>

theorem incremental_equals_recompute:
  assumes "model_ok st fl cfg m w (ge_run g)" and "gen_ready opt cfg w dw g"
    and "consumed (ma_fpu m) (ma_avx m) cfg (checkpoint_expert st fl) w (take (ca_cached (ge_ca g)) (ge_seq g)) (ge_ca g)"
    and "model_ok st fl cfg m2 w (ge_run g2)" and "full_ready opt2 cfg w g2" and "ma_fpu m2 = ma_fpu m" and "ma_avx m2 = ma_avx m"
    and "ge_seq g2 = ge_seq g" and "ge_out g2 = []" and "go_gen opt2 = go_gen opt"
  shows "\<exists>g1 g3. generate_run m nb junk cfg w dw (cache_src st np) opt g = Some g1 \<and>
    generate_run m2 nb2 junk2 cfg w None (cache_src st np2) opt2 g2 = Some g3 \<and>
    (ru_drops (ge_run g1) = ru_drops (ge_run g) \<and> ru_drops (ge_run g3) = ru_drops (ge_run g2) \<longrightarrow> ge_out g1 = ge_out g3)"
proof -
  obtain g1 where g1: "generate_run m nb junk cfg w dw (cache_src st np) opt g = Some g1" "ge_seq g1 = ge_seq g @ ge_out g1"
    "ru_drops (ge_run g1) = ru_drops (ge_run g) \<longrightarrow> ge_seq g1 = greedy (greedy_next st fl cfg m w) (go_gen opt) (ge_seq g)"
    using generate_greedy [OF assms(1-3), of nb junk np] by blast
  obtain g3 where "generate_run m2 nb2 junk2 cfg w None (cache_src st np2) opt2 g2 = Some g3" "ge_seq g3 = ge_seq g2 @ ge_out g3"
    "ru_drops (ge_run g3) = ru_drops (ge_run g2) \<longrightarrow> ge_seq g3 = greedy (greedy_next st fl cfg m2 w) (go_gen opt2) (ge_seq g2)"
    using generate_full [OF assms(4,5), of nb2 junk2 np2 None True] assms(9) by (auto simp: generate_run_def)
  moreover have "greedy_next st fl cfg m2 w = greedy_next st fl cfg m w" using assms(6,7) by (intro ext) (simp add: greedy_next_def)
  ultimately show ?thesis using g1 assms(8,10) by (metis same_append_eq)
qed

theorem incremental_equals_recompute_witness:
  "\<exists>g1 g3. generate_run demo_machine False (\<lambda>_ _. []) demo_cfg (demo_weights 7) None (cache_src demo_st False) demo_opt demo_gen = Some g1 \<and>
     generate_run demo_machine True (\<lambda>_ _. []) demo_cfg (demo_weights 7) None (cache_src demo_st True) (demo_opt\<lparr>go_incremental := False\<rparr>)
       (demo_gen\<lparr>ge_ca := \<lparr>ca_ks = [], ca_kv = None, ca_cached = 0\<rparr>\<rparr>) = Some g3 \<and>
     (ru_drops (ge_run g1) = 0 \<and> ru_drops (ge_run g3) = 0 \<longrightarrow> ge_out g1 = ge_out g3)"
proof -
  let ?g2 = "demo_gen\<lparr>ge_ca := \<lparr>ca_ks = [], ca_kv = None, ca_cached = 0\<rparr>\<rparr>" and ?opt2 = "demo_opt\<lparr>go_incremental := False\<rparr>"
  have c: "consumed F avx demo_cfg W (demo_weights 7) (take (ca_cached (ge_ca demo_gen)) (ge_seq demo_gen)) (ge_ca demo_gen)" for F avx W
    using demo_consumed [of F avx W 7] by (simp add: demo_gen_def fresh_carry_def Let_def)
  have m: "model_ok demo_st demo_file demo_cfg demo_machine (demo_weights 7) (ge_run demo_gen)"
    "model_ok demo_st demo_file demo_cfg demo_machine (demo_weights 7) (ge_run ?g2)" using demo_model_ok by (simp_all add: demo_gen_def)
  have f: "full_ready ?opt2 demo_cfg (demo_weights 7) ?g2" using demo_attend(1) [of 7] by (simp add: full_ready_def demo_opt_def demo_gen_def)
  from incremental_equals_recompute [OF m(1) demo_ready c m(2) f, of False "\<lambda>_ _. []" False True "\<lambda>_ _. []" True]
  show ?thesis by (auto simp: demo_gen_def demo_opt_def demo_run_def)
qed

text \<open>
  C3. A saved conversation resumes: what a save wrote in full, a load into a run with a cache of any sufficient size
  reads back, the ids as well as a state that stands for the same consumed ids. The hypotheses bound the quantities by
  the fields that hold them.
\<close>

theorem saved_state_resumes:
  assumes "consumed F avx c weights w xs ca" and "mla_matches c (we_lay w)" and "state_in c (length (we_lay w)) (length xs) sq"
    and "save_run room c sq ca = (0, f)" and "length xs \<le> cap"
  shows "\<exists>ca'. load_run f c (w\<lparr>we_kv_cap := cap\<rparr>) = Inr (sq, ca') \<and> ca_cached ca' = length xs \<and>
    consumed F avx c weights (w\<lparr>we_kv_cap := cap\<rparr>) xs ca'"
  by (rule resume [OF assms])

theorem saved_state_resumes_witness:
  "\<exists>room f ca'. save_run room demo_cfg [3] (fresh_carry demo_cfg (demo_weights 7)) = (0, f) \<and>
     load_run f demo_cfg (demo_weights 9) = Inr ([3], ca') \<and> ca_cached ca' = 0"
proof -
  obtain room f where f: "save_run room demo_cfg [3] (fresh_carry demo_cfg (demo_weights 7)) = (0, f)" using save_succeeds by blast
  have i: "state_in demo_cfg (length (we_lay (demo_weights 7))) (length ([] :: nat list)) [3]"
    by (simp add: state_in_def in32_def in63_def k3_state_fp_def demo_cfg_def kda_words_def kv_width_def demo_weights_def demo_layers_def)
  have "(demo_weights 7)\<lparr>we_kv_cap := 9\<rparr> = demo_weights 9" by (simp add: demo_weights_def)
  then show ?thesis
    using saved_state_resumes [OF demo_consumed demo_attend(2) i f, of 9 demo_fpu False "\<lambda>_ _. []"] f by auto
qed

text \<open>
  C4. The mixture of experts over the streaming cache: a prefill returns and keeps the cache coherent whatever the
  disk does, and with no expert dropped it gives for every token the mixture over the checkpoint's own bytes; so the
  batched path, the per-token path and the prefetching one agree, from any two caches of the same checkpoint.
\<close>

theorem streamed_mixture_is_exact:
  assumes "streams st fl cfg m w s" and "streams st fl cfg m2 w2 s2" and "st_sane st" and "experts_fit st cfg"
    and "ma_fpu m2 = ma_fpu m" and "ma_avx m2 = ma_avx m" and "moe_ref (ma_fpu m) (ma_avx m) cfg w2 = moe_ref (ma_fpu m) (ma_avx m) cfg w"
    and "mo_layer w2 = mo_layer w"
  shows "\<exists>os s' os2 s2'. k3_moe_prefill m nb junk cfg w xs s = Some (os, s') \<and> streams st fl cfg m w s' \<and>
    k3_moe_prefill m2 nb2 junk2 cfg w2 xs s2 = Some (os2, s2') \<and>
    (ru_drops s' = ru_drops s \<longrightarrow>
       os = map (moe_ref (ma_fpu m) (ma_avx m) cfg w (checkpoint_expert st fl (mo_layer w))) xs) \<and>
    (ru_drops s' = ru_drops s \<and> ru_drops s2' = ru_drops s2 \<longrightarrow> os = os2)"
proof -
  obtain os s' where a: "k3_moe_prefill m nb junk cfg w xs s = Some (os, s')" "streams st fl cfg m w s'"
    "ru_drops s' = ru_drops s \<longrightarrow> os = map (moe_ref (ma_fpu m) (ma_avx m) cfg w (checkpoint_expert st fl (mo_layer w))) xs"
    using prefill_streams [OF assms(1,3,4), of nb junk xs] by blast
  obtain os2 s2' where b: "k3_moe_prefill m2 nb2 junk2 cfg w2 xs s2 = Some (os2, s2')"
    "ru_drops s2' = ru_drops s2 \<longrightarrow> os2 = map (moe_ref (ma_fpu m2) (ma_avx m2) cfg w2 (checkpoint_expert st fl (mo_layer w2))) xs"
    using prefill_streams [OF assms(2-4), of nb2 junk2 xs] by blast
  have "moe_ref (ma_fpu m2) (ma_avx m2) cfg w2 (checkpoint_expert st fl (mo_layer w2)) =
      moe_ref (ma_fpu m) (ma_avx m) cfg w (checkpoint_expert st fl (mo_layer w))" unfolding assms(5-8) ..
  then show ?thesis using a b by auto
qed

theorem streamed_mixture_is_exact_witness:
  "\<exists>os s' os2 s2'. k3_moe_prefill demo_machine False (\<lambda>_ _. []) demo_cfg (demo_moe\<lparr>mo_src := Some (cache_src demo_st False)\<rparr>)
       [[0, 0], [f_one, 0]] demo_run = Some (os, s') \<and>
     k3_moe_prefill demo_machine True (\<lambda>_ _. [f_one]) demo_cfg (demo_moe\<lparr>mo_src := Some (cache_src demo_st True)\<rparr>)
       [[0, 0], [f_one, 0]] demo_run = Some (os2, s2') \<and>
     (ru_drops s' = 0 \<and> ru_drops s2' = 0 \<longrightarrow> os = os2)"
proof -
  let ?w = "\<lambda>np. demo_moe\<lparr>mo_src := Some (cache_src demo_st np)\<rparr>"
  have s: "streams demo_st demo_file demo_cfg demo_machine (?w np) demo_run" for np
    using demo_run_ok by (auto simp: streams_def run_ok_def demo_moe_def demo_cfg_def)
  have e: "?w np = demo_moe\<lparr>mo_src := Some (cache_src demo_st np), mo_layer := 0, mo_cache_only := False\<rparr>" for np
    by (simp add: demo_moe_def)
  have "moe_ref F avx c (?w np) = moe_ref F avx c demo_moe" for F avx c np
    using moe_ref_point [where x = demo_moe and a = "Some (cache_src demo_st np)" and b = 0 and d = False] e [of np] by (intro ext) (simp only:)
  then have eq: "moe_ref F avx c (?w True) = moe_ref F avx c (?w False)" for F avx c by simp
  have l: "mo_layer (?w True) = mo_layer (?w False)" by simp
  from streamed_mixture_is_exact [OF s s demo_sane demo_fit refl refl eq l, of False "\<lambda>_ _. []" "[[0, 0], [f_one, 0]]" True "\<lambda>_ _. [f_one]"]
  show ?thesis unfolding demo_run_def by auto
qed

text \<open>
  C5. Streaming a layer is invisible. Through every interleaving of the reader thread and the walk over the layers, down
  to the single read, the buffer of the layer in use is never written, and the weights the layer is computed with are those
  that binding it from the shards gives: for sizes that have settled and a trunk packed from the checkpoint.
\<close>

theorem streamed_layer_is_the_resident_layer:
  assumes "trunk_reach F c fl (trunk_init lay wd (trunk_sizes lay (int wd) bytes_max) mem) w"
    and "layout_ok lay" and "settled lay (int wd) bytes_max (trunk_sizes lay (int wd) bytes_max)"
    and "in_use (wk_pc w) = Some (L, bf, sn, b :: ('c, 'q, 'd) K3LayerBind)"
    and "well_sized s" and "k3_bind_layer s dk mem' c (int L) = Some b1"
    and "packed s dk (slice fl (tl_file_off (lay ! L)) (tl_nbytes (lay ! L))) (find_in_layer (lay ! L))
      (map rq_name (pl_r (plan_layer c (int L) (k3_is_mla c (int L)) (k3_is_dense c (int L))
        (plan_empty True :: ('c, 'q, 'd) K3LayerBind BindPlan))))"
  shows "buffer (wk_tr w) bf = sn \<and> b = b1"
  using streamed_layer(2,4) [OF assms(1-4)] assms(5-7) by blast

theorem streamed_layer_is_the_resident_layer_witness:
  "\<exists>w bf sn b. trunk_reach demo_fpu unit_cfg unit_file unit_trunk w \<and> wk_pc w = Computing 0 bf sn b \<and>
     buffer (wk_tr w) bf = sn \<and> k3_bind_layer unit_st unit_disk (\<lambda>i. 0) unit_cfg 0 = Some (b :: (unit, unit, unit) K3LayerBind)"
proof -
  obtain w sn b where w: "trunk_reach demo_fpu unit_cfg unit_file unit_trunk w" "wk_pc w = Computing 0 (Slot 0) sn (b :: (unit, unit, unit) K3LayerBind)"
    using unit_walk by blast
  obtain b1 where b1: "k3_bind_layer unit_st unit_disk (\<lambda>i. 0) unit_cfg 0 = Some (b1 :: (unit, unit, unit) K3LayerBind)" using unit_bind by blast
  have "in_use (wk_pc w) = Some (0, Slot 0, sn, b)" by (simp add: w(2))
  from streamed_layer_is_the_resident_layer [of demo_fpu unit_cfg unit_file unit_lay 300 16384 "\<lambda>i. 0" w, OF _ unit_layout _ this unit_sized, of unit_disk "\<lambda>i. 0" b1]
  have "buffer (wk_tr w) (Slot 0) = sn \<and> b = b1"
    using w(1) b1 unit_sizes(2) unit_packed by (simp add: unit_trunk_def unit_lay_sel unit_names_def unit_plan_def unit_kind)
  then show ?thesis using w b1 by blast
qed

text \<open>
  C6. The reader and the walk never wait for each other in vain: in every state reached, unless the source has given up,
  one of them can take a step, and a walk that waits for a layer waits for a read of that very layer that is under way or
  finished, by a reader that has not been told to stop.
\<close>

theorem trunk_waits_are_answered:
  fixes w :: "('c, 'q, 'd) K3LayerBind Walk"
  assumes "trunk_reach F c fl (trunk_init lay wd (trunk_sizes lay (int wd) bytes_max) mem) w"
    and "layout_ok lay" and "settled lay (int wd) bytes_max (trunk_sizes lay (int wd) bytes_max)"
  shows "(wk_pc w \<noteq> Failed \<longrightarrow> (\<exists>w'. trunk_step F c fl w w')) \<and>
    (\<forall>L. wk_pc w = Waiting L \<longrightarrow> (\<exists>io. tr_io (wk_tr w) = Some io \<and> io_layer io = L \<and>
       (io_busy io \<or> io_done io) \<and> \<not> io_stop io))"
  using never_stuck [OF trunk_reach_inv [OF assms]] waits_for_its_layer [OF trunk_reach_inv [OF assms]] by blast

theorem trunk_waits_are_answered_witness:
  "\<exists>w w'. trunk_reach demo_fpu unit_cfg unit_file unit_trunk (w :: (unit, unit, unit) K3LayerBind Walk) \<and>
     wk_pc w \<noteq> Want 0 \<and> trunk_step demo_fpu unit_cfg unit_file w w'"
proof -
  obtain w sn b where w: "trunk_reach demo_fpu unit_cfg unit_file unit_trunk w"
    "wk_pc w = Computing 0 (Slot 0) sn (b :: (unit, unit, unit) K3LayerBind)"
    using unit_walk by blast
  from trunk_waits_are_answered [of demo_fpu unit_cfg unit_file unit_lay 300 16384 "\<lambda>i. 0" w, OF _ unit_layout] w unit_sizes(2)
  have "\<exists>w'. trunk_step demo_fpu unit_cfg unit_file w w'" by (simp add: unit_trunk_def)
  then show ?thesis using w by auto
qed

text \<open>
  C7. The trunk keeps to its budget: once the sizes have settled, every layer that streams fits a slot with its widen
  area, the layers that do not stream are a prefix, and what is spent is within the budget unless one slot alone exceeds it.
\<close>

theorem trunk_fits_its_budget:
  assumes "settled lay wd bytes_max (trunk_sizes lay wd bytes_max)" and "\<forall>l\<in>set lay. 0 \<le> tl_nbytes l" and "z = trunk_sizes lay wd bytes_max"
  shows "sz_npin z \<le> length lay \<and> (sz_ring z = 1 \<or> sz_ring z = 2) \<and>
    (\<forall>i < length lay. sz_npin z \<le> i \<longrightarrow> align_up (tl_nbytes (lay ! i)) + wd \<le> sz_slot z) \<and>
    sz_spent z = int (sz_ring z) * sz_slot z + (\<Sum>l\<leftarrow>take (sz_npin z) lay. tl_nbytes l + wd) \<and>
    (sz_spent z \<le> bytes_max \<or> sz_ring z = 1 \<and> sz_npin z = 0)"
  using sizes_fit [OF assms(1,2)] unfolding assms(3) by blast

theorem trunk_fits_its_budget_witness:
  "settled unit_lay 300 16384 (trunk_sizes unit_lay 300 16384) \<and> sz_spent (trunk_sizes unit_lay 300 16384) \<le> 16384 \<and>
   align_up 2 + 300 \<le> sz_slot (trunk_sizes unit_lay 300 16384)"
proof -
  have "\<forall>l\<in>set unit_lay. 0 \<le> tl_nbytes l" by (simp add: unit_lay_def)
  note f = trunk_fits_its_budget [OF unit_sizes(2) this refl]
  have "align_up (tl_nbytes (unit_lay ! 0)) + 300 \<le> sz_slot (trunk_sizes unit_lay 300 16384)" using f unfolding unit_sizes(1) unit_lay_sel(1) by force
  moreover have "sz_spent (trunk_sizes unit_lay 300 16384) \<le> 16384" using f unfolding unit_sizes(1) by auto
  ultimately show ?thesis using unit_sizes(2) unit_lay_sel by simp
qed

text \<open>
  C8. The builds agree bit for bit: the AVX2 and the scalar code of the MXFP4 kernel and of the bf16 kernel compute the
  same floats whatever the operands, NaN and infinities included; bf16 weights multiplied as stored give what the fp32
  kernel gives on the widened weights; so a mixture whose trunk is not quantised to int8 is the same on both builds.
\<close>

theorem builds_agree_bitwise:
  assumes "out * inn \<le> length Wh" and "mo_wdt w \<noteq> K3_WI8"
  shows "k3_matmul_mxfp4 F True x p sc inn out grp = k3_matmul_mxfp4 F False x p sc inn out grp \<and>
    k3_matmul_bf16 F avx x Wh inn out = k3_matmul F x (map k3_bf16f Wh) inn out \<and>
    moe_ref F True cfg w weights xt = moe_ref F False cfg w weights xt"
  using mxfp4_builds_agree [of F True False] bf16_is_widened [OF assms(1)] moe_ref_builds [OF assms(2)] by metis

theorem builds_agree_bitwise_witness:
  "k3_matmul_bf16 demo_fpu True (ones 2) [0x3F80, 0x4000] 2 1 = k3_matmul demo_fpu (ones 2) [0x3F800000, 0x40000000] 2 1 \<and>
   moe_ref demo_fpu True demo_cfg demo_moe (\<lambda>_. []) (ones 2) = moe_ref demo_fpu False demo_cfg demo_moe (\<lambda>_. []) (ones 2)"
proof -
  have w: "1 * 2 \<le> length [0x3F80, 0x4000 :: 16 word]" "mo_wdt demo_moe \<noteq> K3_WI8" by (simp_all add: demo_moe_def K3_WF32_def K3_WI8_def)
  have "map k3_bf16f [0x3F80, 0x4000] = [0x3F800000, 0x40000000]" by code_simp
  then show ?thesis using builds_agree_bitwise [OF w, of demo_fpu "ones 2" _ _ _ True demo_cfg "\<lambda>_. []" "ones 2"] by simp
qed

text \<open>
  C9. The router selects by biased score and weighs by unbiased score: when at least \<open>topk\<close> of the selection scores
  (score plus bias) lie above minus infinity, the ids are \<open>topk\<close> distinct experts in range, no expert left out has a
  larger selection score than one taken, and the weights are the unbiased scores of the experts taken, in the order of
  the ids, renormalised and scaled as configured. Where the bias leaves every score as it is, the ids come in descending
  order of the score.
\<close>

theorem router_takes_the_best:
  assumes "topk \<le> card {e. e < ne \<and> fless f_ninf (router_choice F x gate bias hidden e)}"
    and "k3_router F x gate bias hidden ne topk renorm scale = (idx, wt)"
  shows "length idx = topk \<and> distinct idx \<and> (\<forall>e\<in>set idx. e < ne) \<and>
    (\<forall>a\<in>set idx. \<forall>e < ne. e \<notin> set idx \<longrightarrow> \<not> fless (router_choice F x gate bias hidden a) (router_choice F x gate bias hidden e)) \<and>
    wt = map (\<lambda>y. fmul F y scale) ((if renorm \<and> topk > 1 then renormalise F else id) (map (router_score F x gate hidden) idx)) \<and>
    ((\<forall>e < ne. router_choice F x gate bias hidden e = router_score F x gate hidden e) \<longrightarrow>
      sorted_wrt (\<lambda>a b. \<not> fless (router_score F x gate hidden a) (router_score F x gate hidden b)) idx)"
  by (intro conjI impI router_selects [OF assms] router_score_order [OF assms])

theorem router_takes_the_best_witness:
  "\<exists>idx wt. k3_router demo_fpu [] [] (Some demo_bias) 0 3 2 True f_one = (idx, wt) \<and> set idx = {1, 2} \<and>
     wt = map (\<lambda>y. fmul demo_fpu y f_one) (renormalise demo_fpu (map (router_score demo_fpu [] [] 0) idx))"
proof -
  let ?ch = "router_choice demo_fpu [] [] (Some demo_bias) 0"
  have live: "fless f_ninf (?ch 0)" "fless f_ninf (?ch 1)" "fless f_ninf (?ch 2)"
    using demo_bias_order fless_trans unfolding demo_choice by blast+
  have "card {0, 1, 2 :: nat} \<le> card {e. e < 3 \<and> fless f_ninf (?ch e)}"
    by (rule card_mono) (use live in auto)
  then have l: "2 \<le> card {e. e < 3 \<and> fless f_ninf (?ch e)}" by simp
  obtain idx wt where r: "k3_router demo_fpu [] [] (Some demo_bias) 0 3 2 True f_one = (idx, wt)"
    by (cases "k3_router demo_fpu [] [] (Some demo_bias) 0 3 2 True f_one")
  note best = router_takes_the_best [OF l r]
  have outside: "e \<in> set idx" if "a \<in> set idx" "e < 3" "fless (?ch a) (?ch e)" for a e
    using best that by blast
  have two: "card (set idx) = 2" and sub: "set idx \<subseteq> {0, 1, 2}"
    using best by (auto simp: distinct_card less_Suc_eq numeral_3_eq_3)
  have below: "fless (?ch 0) (?ch 1)" "fless (?ch 0) (?ch 2)"
    using demo_bias_order fless_trans unfolding demo_choice by blast+
  have "0 \<notin> set idx"
  proof
    assume z: "0 \<in> set idx"
    then have "1 \<in> set idx" "2 \<in> set idx" using outside [of 0 1] outside [of 0 2] below by auto
    with z have "card {0, 1, 2 :: nat} \<le> card (set idx)" by (intro card_mono) auto
    with two show False by simp
  qed
  with sub have "set idx \<subseteq> {1, 2}" by auto
  then have "set idx = {1, 2}" using two by (intro card_subset_eq) auto
  with best r show ?thesis by auto
qed

text \<open>
  C10. The tokenizer round trip: a vocabulary file of distinct tokens and ranks loads, every token is found in the
  vocabulary under its rank, and any sequence of ranks decodes to the bytes of its tokens, cut at the room there is.
\<close>

theorem tokenizer_round_trip:
  assumes "vocab_ok vs" and "json_get root ''added_tokens_decoder'' = Some (J_OBJ kvs)" and "added_ok vs kvs"
  shows "\<exists>T. k3_tok_load (tok_file vs) root = Inr T \<and>
    (\<forall>(bs, r)\<in>set vs. hm_get (tk_vocab T) (k3_bytelevel T bs) = Some (int r)) \<and>
    (\<forall>xs cap. set xs \<subseteq> set vs \<longrightarrow> tok_decode T (map (int \<circ> snd) xs) cap = take cap (concat (map fst xs)))"
  using tok_round_trip [OF assms] .

theorem tokenizer_round_trip_witness:
  "\<exists>T. k3_tok_load (tok_file [(''A'', 0), ([CHR 0xE4, CHR 0xB3], 7)])
      (J_OBJ [(''added_tokens_decoder'', J_OBJ [(''163584'', J_OBJ [(''content'', J_STR ''[BOS]'')])])]) = Inr T \<and>
     hm_get (tk_vocab T) (k3_bytelevel T ''A'') = Some 0 \<and> tok_decode T [7, 0] 10 = [CHR 0xE4, CHR 0xB3, CHR ''A'']"
proof -
  let ?vs = "[(''A'', 0), ([CHR 0xE4, CHR 0xB3], 7)]" and ?kvs = "[(''163584'', J_OBJ [(''content'', J_STR ''[BOS]'')])]"
  have "vocab_ok ?vs" by (simp add: vocab_ok_def K3_TOK_VOCAB_def)
  moreover have "json_get (J_OBJ [(''added_tokens_decoder'', J_OBJ ?kvs)]) ''added_tokens_decoder'' = Some (J_OBJ ?kvs)" by simp
  moreover have "atoi ''163584'' = 163584" by code_simp
  then have "added_ok ?vs ?kvs" by (simp add: added_ok_def K3_TOK_VOCAB_def)
  ultimately obtain T where T: "k3_tok_load (tok_file ?vs) (J_OBJ [(''added_tokens_decoder'', J_OBJ ?kvs)]) = Inr T"
    "\<forall>(bs, r)\<in>set ?vs. hm_get (tk_vocab T) (k3_bytelevel T bs) = Some (int r)"
    "\<And>xs cap. set xs \<subseteq> set ?vs \<Longrightarrow> tok_decode T (map (int \<circ> snd) xs) cap = take cap (concat (map fst xs))"
    using tokenizer_round_trip by blast
  have "tok_decode T [7, 0] 10 = [CHR 0xE4, CHR 0xB3, CHR ''A'']" using T(3) [of "rev ?vs" 10] by simp
  then show ?thesis using T(1,2) by auto
qed

text \<open>
  C11. A configuration is loaded whole or not at all: what the reader accepts has every one of its numbers from the file,
  the listed full-attention layers included, and passes the structural checks; so the model has at least one MLA
  and one KDA layer.
\<close>

theorem model_config_is_complete:
  assumes "k3_cfg_load F fa_max root = Inr c"
  shows "cfg_complete F (cfg_src root) c \<and> cfg_ok c \<and>
    (\<exists>kids. k3cfg_find (cfg_src root) ''full_attn_layers'' None = Some (J_ARR kids) \<and> length kids \<le> fa_max \<and>
       list_all2 (\<lambda>v f. \<exists>x. v = J_NUM x \<and> f = int_of_d x) kids (cf_full_attn c)) \<and>
    (\<exists>l. 0 \<le> l \<and> l < cf_n_layers c \<and> k3_is_mla c l) \<and> (\<exists>l. 0 \<le> l \<and> l < cf_n_layers c \<and> k3_is_kda c l)"
  using cfg_load_ok [OF assms] cfg_mixed by blast

theorem model_config_is_complete_witness:
  "\<exists>c. k3_cfg_load demo_fpu 128 demo_doc = Inr c \<and> cfg_ok c \<and> (\<exists>l. 0 \<le> l \<and> l < cf_n_layers c \<and> k3_is_mla c l)"
proof -
  obtain c where "k3_cfg_load demo_fpu 128 demo_doc = Inr c" using demo_load by blast
  from model_config_is_complete [OF this] this show ?thesis by blast
qed

section \<open>The agent loop\<close>

text \<open>
  C12. A fresh task always comes to an outcome (the loop is a total function), and the outcome
  matches the task: a completed run has an answer, a failed or exhausted one is in state FAILED with
  an answer, one that needs the user carries the question. The loop never exceeds the task's
  iteration budget, and the step index never goes below zero.
\<close>

theorem agent_loop_run_outcome:
  assumes "task_plan t = None" and "\<not> agent_state_is_terminal (task_state t)"
  shows "case agent_loop_run h a t opt w of (r, t', w') \<Rightarrow>
     outcome_ok r t' \<and> task_max_iterations t' = task_max_iterations t \<and>
     task_iteration t' \<le> max (task_iteration t) (task_max_iterations t) \<and> 0 \<le> task_current_step t'"
proof -
  obtain r t' w' where run: "loop_setup_and_run h a t opt None w = (r, t', w')" by (metis prod.exhaust)
  from setup_and_run_ok [OF assms run] show ?thesis by (simp add: agent_loop_run_def run)
qed

theorem agent_loop_run_outcome_witness:
  "task_plan demo_task = None \<and> \<not> agent_state_is_terminal (task_state demo_task) \<and>
   (case agent_loop_run demo_host demo_agent demo_task None () of (r, t', w') \<Rightarrow>
     outcome_ok r t' \<and> task_max_iterations t' = task_max_iterations demo_task \<and>
     task_iteration t' \<le> max (task_iteration demo_task) (task_max_iterations demo_task) \<and>
     0 \<le> task_current_step t')"
proof -
  have "task_plan demo_task = None" "\<not> agent_state_is_terminal (task_state demo_task)"
    by (simp_all add: demo_task_def task_create_def agent_state_is_terminal_def)
  then show ?thesis by (intro conjI agent_loop_run_outcome)
qed

text \<open>
  C13. A dry run executes no tool: its outcome, the task it leaves and the world it leaves do not
  depend on what the bodies of the registered tools do.
\<close>

theorem dry_run_executes_nothing:
  assumes "dry opt"
  shows "agent_loop_run h (with_bodies f a) t opt w = agent_loop_run h a t opt w"
  using setup_and_run_dry [OF assms] by (simp add: agent_loop_run_def)

theorem dry_run_executes_nothing_witness:
  "dry (Some \<lparr>opt_plan_only = False, opt_dry_run = True\<rparr>) \<and>
   agent_loop_run demo_host (with_bodies (\<lambda>t args ctx res w. (-1, tool_result_ok res None, w)) demo_agent)
     demo_task (Some \<lparr>opt_plan_only = False, opt_dry_run = True\<rparr>) () =
   agent_loop_run demo_host demo_agent demo_task (Some \<lparr>opt_plan_only = False, opt_dry_run = True\<rparr>) ()"
proof -
  have "dry (Some \<lparr>opt_plan_only = False, opt_dry_run = True\<rparr>)" by (simp add: dry_def)
  then show ?thesis by (intro conjI dry_run_executes_nothing)
qed

text \<open>
  C14. The loop invariant: from a context whose step index lies in its plan, whose observation ring
  and reflection budget are well formed and whose task is not terminal, every iteration either
  re-establishes all of that or returns an outcome that matches the task.
\<close>

theorem iteration_preserves_invariant:
  assumes "loop_inv L" and "\<not> agent_state_is_terminal (task_state (L_task L))"
  shows "case iterate h a opt L nt w of (r, L', w') \<Rightarrow> step_ok_out r L'"
  using iterate_ok [OF assms] by (auto split: prod.split)

theorem iteration_preserves_invariant_witness:
  "loop_inv (loop_init demo_agent demo_task) \<and>
   \<not> agent_state_is_terminal (task_state (L_task (loop_init demo_agent demo_task))) \<and>
   (case iterate demo_host demo_agent None (loop_init demo_agent demo_task) None () of
      (r, L', w') \<Rightarrow> step_ok_out r L')"
proof -
  have "loop_inv (loop_init demo_agent demo_task)"
    using ring_ok_init [of "task_id demo_task" 16]
    by (simp add: loop_inv_def loop_init_def demo_task_def task_create_def memory_set_goal_def
        ring_ok_def budget_ok_init plan_init_def)
  moreover have "\<not> agent_state_is_terminal (task_state (L_task (loop_init demo_agent demo_task)))"
    by (simp add: loop_init_def demo_task_def task_create_def agent_state_is_terminal_def)
  ultimately show ?thesis by (intro conjI iteration_preserves_invariant)
qed

text \<open>
  C15. An action the loop acts on is well formed, and a tool it names is in the registry: whatever the
  model wrote, no other action gets past \<open>decide_action\<close>.
\<close>

theorem decided_actions_are_valid:
  assumes "decide_action h a L nt w = ((True, act), w')"
  shows "wf_action (tool_name_list a) act \<and>
    (act_type act = ACT_TOOL \<longrightarrow> tool_registry_find (ag_tools a) (the (act_tool act)) \<noteq> None)"
  using decide_action_wf [OF assms]
  by (auto simp: wf_action_def find_None_names tool_name_list_def)

theorem decided_actions_are_valid_witness:
  "decide_action final_host final_agent (loop_init final_agent demo_task) None () =
     ((True, final_act), ()) \<and>
   wf_action (tool_name_list final_agent) final_act"
proof -
  have gen: "mb_generate (ag_backend final_agent) req w = ((0, \<lparr>res_text = Some ''{}'', res_error = []\<rparr>), w)"
    for req w by (simp add: final_agent_def)
  have act: "agent_action_parse (h_parse final_host) (h_print final_host) (Some ''{}'') = final_act"
    by (simp add: agent_action_parse_def jx_extract_object.simps find_object_def fill_from_obj_def
        agent_action_init_def type_of_name_def jx_defs Let_def char_defs final_host_def final_act_def final_value_def)
  have valid: "agent_action_validate final_act ns = (True, final_act)" for ns
    by (simp add: agent_action_validate_def final_act_def)
  have db: "ag_db final_agent = None" by (simp add: final_agent_def demo_agent_def)
  have ty: "act_type final_act = ACT_FINAL" by (simp add: final_act_def)
  have d: "decide_action final_host final_agent (loop_init final_agent demo_task) None () = ((True, final_act), ())"
    unfolding decide_action_def Let_def gen prod.case by (simp add: act valid db ty)
  show ?thesis using decided_actions_are_valid [OF d] d by simp
qed

section \<open>The tool gate\<close>

text \<open>
  C16. The runtime, not the model, decides what runs: a call that succeeds, or that changes the world
  beyond what the approver did to it, is of a registered and enabled tool whose confirmation, where the
  policy or the tool asks for one, was given; and then exactly that tool was dispatched.
\<close>

theorem only_permitted_tools_run:
  assumes "tool_registry_execute print r name args ctx w = (res, w')"
    and "tr_ok res \<or> w' \<noteq> consulted (print, r, name, args, ctx) w"
  shows "\<exists>t. tool_registry_find r name = Some t \<and> tool_name t = name \<and> enabled_in ctx name \<and>
    (needs_confirmation t name (tc_permissions ctx) \<longrightarrow>
       (\<exists>cf. tc_confirm ctx = Some cf \<and>
          fst (cf name (tool_security_level t) (case args of None \<Rightarrow> ''{}'' | Some v \<Rightarrow> print v) w))) \<and>
    (res, w') = dispatch t name args ctx (consulted (print, r, name, args, ctx) w)"
proof -
  let ?c = "(print, r, name, args, ctx)"
  have run: "run_call ?c w = (res, w')" using assms(1) by (simp add: run_call_def)
  have perm: "permitted ?c w"
    using rg.success_was_permitted [of ?c w] rg.untouched_unless_permitted [of ?c w] assms(2) run by auto
  then obtain t where t: "tool_registry_find r name = Some t" "enabled_in ctx name" "fst (ask t ?c w)"
    by (auto simp: permitted_def split: option.splits)
  moreover have "tool_name t = name" using find_Some_name [OF t(1)] by simp
  moreover have "(res, w') = dispatch t name args ctx (consulted ?c w)"
    using rg.granted [OF perm] run t(1) by (simp add: effect_call_def)
  ultimately show ?thesis by (auto simp: ask_def split: option.splits if_splits)
qed

theorem only_permitted_tools_run_witness:
  "\<exists>res w'. tool_registry_execute (\<lambda>v. ''{}'') \<lparr>reg_tools = [demo_tool]\<rparr> ''noop'' None
      (agent_tool_context demo_agent ''t'') () = (res, w') \<and> tr_ok res \<and>
   (\<exists>t. tool_registry_find \<lparr>reg_tools = [demo_tool]\<rparr> ''noop'' = Some t \<and> tool_name t = ''noop'')"
proof -
  let ?ctx = "agent_tool_context demo_agent ''t''" and ?r = "\<lparr>reg_tools = [demo_tool]\<rparr>"
  obtain res w' where x: "tool_registry_execute (\<lambda>v. ''{}'') ?r ''noop'' None ?ctx () = (res, w')"
    by (metis prod.exhaust)
  then have "tr_ok res"
    by (auto simp: tool_registry_execute_def tool_registry_find_def demo_tool_def agent_tool_context_def
        demo_agent_def permissions_is_enabled_def lookup_perm_def permissions_create_def
        needs_confirmation_def permissions_needs_confirmation_def permissions_autonomy_allows_def
        level_ord dispatch_def event_bus_emit_def tool_result_defs Let_def)
  with only_permitted_tools_run [OF x] x show ?thesis by blast
qed

text \<open>
  C17. A critical tool is never dispatched without confirmation, whatever the approval mode and
  the autonomy level; and with a policy and no approver the call is refused with a permission error.
\<close>

theorem critical_tools_need_approval:
  assumes "tool_registry_find r name = Some t" and "tool_security_level t = SEC_CRITICAL"
    and "tc_permissions ctx = Some p" and "tc_confirm ctx = None"
  shows "\<not> tr_ok (fst (tool_registry_execute print r name args ctx w)) \<and>
    tr_error_class (fst (tool_registry_execute print r name args ctx w)) = REC_PERMISSION_ERROR \<and>
    snd (tool_registry_execute print r name args ctx w) = w"
  using assms critical_needs_confirmation [OF assms(2), of name p]
  by (simp add: tool_registry_execute_def)

theorem critical_tools_need_approval_witness:
  "\<not> tr_ok (fst (tool_registry_execute (\<lambda>v. ''{}'') \<lparr>reg_tools = [demo_tool\<lparr>tool_security_level := SEC_CRITICAL\<rparr>]\<rparr>
     ''noop'' None (agent_tool_context demo_agent ''t'') ()))"
  using critical_tools_need_approval [of "\<lparr>reg_tools = [demo_tool\<lparr>tool_security_level := SEC_CRITICAL\<rparr>]\<rparr>"
      "''noop''" "demo_tool\<lparr>tool_security_level := SEC_CRITICAL\<rparr>" "agent_tool_context demo_agent ''t''"
      "ag_perm demo_agent" "\<lambda>v. ''{}''" None "()"]
  by (simp add: tool_registry_find_def demo_tool_def agent_tool_context_def demo_agent_def)

text \<open>
  The registry is a table of at most 64 tools with distinct names: registering a tool keeps that,
  a tool that was accepted is found under its name and no other name is affected.
\<close>

theorem registry_register_find:
  assumes "registry_ok r" and "tool_registry_register r t = (0, r')"
  shows "registry_ok r' \<and> tool_registry_find r' (tool_name t) = Some t \<and>
    (\<forall>n. n \<noteq> tool_name t \<longrightarrow> tool_registry_find r' n = tool_registry_find r n)"
  using registry_ok_register [OF assms(1), of t] find_after_register [OF assms(2)] assms(2) by simp

theorem registry_register_find_witness:
  "registry_ok tool_registry_create \<and>
   tool_registry_register tool_registry_create demo_tool = (0, \<lparr>reg_tools = [demo_tool]\<rparr>) \<and>
   tool_registry_find \<lparr>reg_tools = [demo_tool]\<rparr> (tool_name demo_tool) = Some demo_tool"
proof -
  have r: "tool_registry_register tool_registry_create demo_tool = (0, \<lparr>reg_tools = [demo_tool]\<rparr>)"
    by (simp add: tool_registry_register_def tool_registry_create_def tool_registry_find_def MAX_TOOLS_def)
  show ?thesis using registry_register_find [OF registry_ok_create r] r registry_ok_create by blast
qed

section \<open>The sandbox and the file tools\<close>

text \<open>
  C18. With the sandbox enabled, every path it resolves, whether existing or new, lies under the
  workspace root: its components extend the root's and none of the added ones is \<open>..\<close>. The hypothesis is
  what \<open>realpath\<close> documents: its result has no \<open>..\<close> component.
\<close>

theorem sandbox_confines_paths:
  assumes "realpath_canonical px" and "sb_enabled s" and "sandbox_resolve px s path n w = Some out"
  shows "confined (sb_root s) out \<and> length out < n"
  using sandbox_resolve_confined [OF assms] sandbox_resolve_real(3) [OF assms(3)] by simp

lemma no_fs_canonical: "realpath_canonical no_fs"
  by (simp add: realpath_canonical_def no_fs_def path_comps_def keep_comp_def)

lemma demo_resolve: "sandbox_resolve no_fs demo_box (Some ''a.txt'') 4096 () = Some ''/ws/a.txt''"
  by (simp add: sandbox_resolve_def demo_box_def fs_realpath_def realpath_leaf_def no_fs_def
      strrchr_split_def snprintf_s_def within_def strncmp_eq_def PATH_MAX_def Let_def)

theorem sandbox_confines_paths_witness:
  "sandbox_resolve no_fs demo_box (Some ''a.txt'') 4096 () = Some ''/ws/a.txt'' \<and>
   confined ''/ws'' ''/ws/a.txt''"
  using sandbox_confines_paths [OF no_fs_canonical _ demo_resolve] demo_resolve
  by (simp add: demo_box_def)





text \<open>
  C20. Writing a file is all or nothing. Let the path and its temporary sibling denote different files: then afterwards
  the file holds either exactly the new bytes (return value 0) or what it held before, and every file that neither
  of the two paths denotes is unchanged. The hypothesis on the operating system is what POSIX documents of creating,
  renaming and removing, for paths that may denote the same file under different names.
\<close>

theorem write_is_atomic:
  assumes "file_laws px same" and "write_entire_file px p d w = (rc, w')" and "\<not> same (tmp_name p) p w"
  shows "file_content px p w' = (if rc = 0 then Some d else file_content px p w) \<and>
    (\<forall>q. \<not> same (tmp_name p) q w \<longrightarrow> \<not> same p q w \<longrightarrow> file_content px q w' = file_content px q w)"
  using write_entire_file_atomic [OF assms] by blast

text \<open>A file system in which a doubled slash is one slash, so that a file has many names.\<close>

fun squeeze :: "cstr \<Rightarrow> cstr" where
  "squeeze (a # b # cs) = (if a = CHR ''/'' \<and> b = CHR ''/'' then squeeze (b # cs) else a # squeeze (b # cs))"
| "squeeze cs = cs"

definition alias_fs :: "(cstr \<Rightarrow> cptr) Posix" where
  "alias_fs = mem_fs\<lparr>
     px_fopen_read := (\<lambda>p. px_fopen_read mem_fs (squeeze p)), px_create := (\<lambda>p. px_create mem_fs (squeeze p)),
     px_rename := (\<lambda>p q. px_rename mem_fs (squeeze p) (squeeze q)), px_remove := (\<lambda>p. px_remove mem_fs (squeeze p))\<rparr>"

lemma alias_fs_laws: "file_laws alias_fs (\<lambda>a b w. squeeze a = squeeze b)"
  by (auto simp: file_laws_def alias_fs_def mem_fs_def file_content_def option.map_comp comp_def)

theorem write_is_atomic_witness:
  "\<exists>rc w'. write_entire_file alias_fs ''/ws//f'' ''new'' [''/ws/f'' \<mapsto> ''x'', ''/ws/g'' \<mapsto> ''y''] = (rc, w') \<and>
     file_content alias_fs ''/ws//f'' w' = Some ''new'' \<and> file_content alias_fs ''/ws/g'' w' = Some ''y''"
proof -
  let ?w = "[''/ws/f'' \<mapsto> ''x'', ''/ws/g'' \<mapsto> ''y''] :: cstr \<Rightarrow> cptr"
  obtain rc w' where x: "write_entire_file alias_fs ''/ws//f'' ''new'' ?w = (rc, w')" by fastforce
  moreover have "rc = 0" using x by (simp add: write_entire_file_def alias_fs_def mem_fs_def tmp_name_def)
  moreover have "file_content alias_fs ''/ws/g'' ?w = Some ''y''"
    by (simp add: file_content_def alias_fs_def mem_fs_def)
  ultimately show ?thesis
    using write_is_atomic [OF alias_fs_laws x] by (simp add: tmp_name_def)
qed

text \<open>
  C21. A patch replaces one occurrence of the old block and nothing else; in a file without NUL bytes
  an accepted block that is not empty occurs exactly once.
\<close>

theorem patch_is_unambiguous:
  assumes "patch data olds news = Patched out"
  shows "\<exists>a b. data = a @ olds @ b \<and> out = a @ news @ b \<and>
    (olds \<noteq> [] \<and> CHR 0x00 \<notin> set data \<longrightarrow> (\<forall>a' b'. data = a' @ olds @ b' \<longrightarrow> a' = a))"
proof -
  obtain a b where ab: "data = a @ olds @ b" "out = a @ news @ b" using patch_sound [OF assms] by blast
  moreover have "a' = a" if "olds \<noteq> []" "CHR 0x00 \<notin> set data" "data = a' @ olds @ b'" for a' b'
    by (rule patch_unique [OF assms that ab(1)])
  ultimately show ?thesis by blast
qed

theorem patch_is_unambiguous_witness:
  "patch ''int x;'' ''x'' ''y'' = Patched ''int y;'' \<and>
   (\<exists>a b. ''int x;'' = a @ ''x'' @ b \<and> ''int y;'' = a @ ''y'' @ b)"
proof -
  have "patch ''int x;'' ''x'' ''y'' = Patched ''int y;''" by (simp add: patch_def as_cstr_def Let_def)
  then show ?thesis using patch_is_unambiguous by blast
qed

section \<open>Shell, subprocesses, web\<close>

text \<open>
  C22. \<open>shell_execute\<close> starts a process only for a command in which no forbidden pattern occurs in any
  letter case, and no dangerous one unless the arguments carry \<open>confirmed\<close>; the working directory is
  the workspace root or resolved by the sandbox, and the timeout lies between 1 and 600 seconds.
  Otherwise it fails and leaves the world alone.
\<close>

theorem shell_runs_only_cleared_commands:
  assumes "t_shell_execute px lc args ctx res e = (rc, r, e')" and "tr_ok r \<or> e' \<noteq> e"
  shows "\<exists>cmd wd t. jx_str args ''command'' None = Some cmd \<and>
    (\<forall>pat \<in> set FORBIDDEN. \<not> sublist (map c_tolower pat) (map c_tolower cmd)) \<and>
    (jx_bool args ''confirmed'' False \<or>
       (\<forall>pat \<in> set DANGER. \<not> sublist (map c_tolower pat) (map c_tolower cmd))) \<and>
    (wd = sb_root (env_sb e) \<or> (\<exists>d. resolve_in px e d = Some wd)) \<and> 1 \<le> t \<and> t \<le> 600 \<and>
    e' = e\<lparr>env_os := snd (proc_run px cmd (Some wd) t SHELL_OUTPUT_MAX True (env_os e))\<rparr>"
proof -
  obtain cmd wd where c: "shell_cleared args cmd" and wd: "shell_workdir px args e = Some wd"
    and e': "e' = e\<lparr>env_os := snd (proc_run px cmd (Some wd)
      (clamp_timeout (jx_int args ''timeout'' SHELL_TIMEOUT_DEFAULT)) SHELL_OUTPUT_MAX True (env_os e))\<rparr>"
    using shell_execute_gate [OF assms(1)] assms(2) by blast
  have ne: "pat \<noteq> []" if "pat \<in> set FORBIDDEN \<or> pat \<in> set DANGER" for pat
    using that by (auto simp: FORBIDDEN_def DANGER_def)
  have "wd = sb_root (env_sb e) \<or> (\<exists>d. resolve_in px e d = Some wd)"
    using wd by (auto simp: shell_workdir_def split: option.splits)
  moreover have "\<forall>pat \<in> set FORBIDDEN. \<not> sublist (map c_tolower pat) (map c_tolower cmd)"
    and "jx_bool args ''confirmed'' False \<or>
       (\<forall>pat \<in> set DANGER. \<not> sublist (map c_tolower pat) (map c_tolower cmd))"
    using c ne by (auto simp: shell_cleared_def match_any_None ci_match_iff)
  moreover have "jx_str args ''command'' None = Some cmd" using c by (simp add: shell_cleared_def)
  ultimately show ?thesis
    using e' clamp_timeout_range [of "jx_int args ''timeout'' SHELL_TIMEOUT_DEFAULT"] by blast
qed

theorem shell_runs_only_cleared_commands_witness:
  "\<exists>cmd. jx_str (JObject [(''command'', JString ''ls'')]) ''command'' None = Some cmd \<and>
    (\<forall>pat \<in> set FORBIDDEN. \<not> sublist (map c_tolower pat) (map c_tolower cmd))"
proof -
  let ?e = "\<lparr>env_os = 0, env_sb = demo_box\<rparr>" and ?a = "JObject [(''command'', JString ''ls'')]"
    and ?lc = "\<lparr>lc_strftime = (\<lambda>i. []), lc_fixed2 = (\<lambda>d. ''0.00''), lc_double = (\<lambda>i. 0)\<rparr>"
  obtain rc r e' where x: "t_shell_execute true_fs ?lc ?a (undefined :: nat Env ToolContext)
      tool_result_init ?e = (rc, r, e')" by (metis prod.exhaust)
  have pats: "match_any ''ls'' FORBIDDEN = None" "match_any ''ls'' DANGER = None"
    by (simp_all add: FORBIDDEN_def DANGER_def strncasecmp_eq_def c_tolower_def c_isupper_def chr_code_def)
  have "e' \<noteq> ?e"
    using x pats by (auto simp: t_shell_execute_def jx_defs proc_run_def true_fs_def SHELL_OUTPUT_MAX_def Let_def)
  then show ?thesis using shell_runs_only_cleared_commands [OF x] by blast
qed

text \<open>
  C23. The output of a subprocess is the exact prefix of everything that is read from it: over all turns of the poll
  loop, up to the one in which the child has exited or the deadline has passed, the first \<open>max_output\<close> bytes read are
  kept (all of them without a limit), and the truncation flag is raised precisely when more was read. The run is
  reported as timed out precisely when the deadline passed in one of these turns, and then with exit code -1. (What
  the child had written but was not yet read when the deadline passed is not part of what is read, and no flag tells.)
\<close>

theorem output_cap_is_exact:
  assumes "px_spawn px cmd wd timeout env w = (Some (ticks, secs), w1)" and "proper_reads ticks"
    and "proc_run px cmd wd timeout mx env w = (Some r, w')"
  shows "pr_output r = (if mx = 0 then output_read (timeout > 0) ticks else take mx (output_read (timeout > 0) ticks)) \<and>
    (pr_output_truncated r \<longleftrightarrow> 0 < mx \<and> mx < length (output_read (timeout > 0) ticks)) \<and>
    (pr_timed_out r \<longleftrightarrow> (\<exists>t\<in>set (turns (timeout > 0) ticks). timeout > 0 \<and> tk_expired t)) \<and>
    (pr_timed_out r \<longrightarrow> pr_exit_code r = -1)"
proof -
  define cs where "cs = concat (map turn_reads (turns (timeout > 0) ticks))"
  have ne: "\<forall>c\<in>set cs. c \<noteq> []" using proper_turn_reads [OF assms(2), of "timeout > 0"] unfolding cs_def by auto
  have d: "drain mx cs ([], False) = (if mx = 0 then (concat cs, False) else (take mx (concat cs), mx < length (concat cs)))"
    using drain_capped [of mx "[]" cs False] ne by (simp add: drain_uncapped)
  show ?thesis
    using assms(1,3) poll_loop_reads [of mx "timeout > 0" ticks "([], False)"] d
    unfolding output_read_def cs_def [symmetric] by (auto simp: proc_run_def split: if_splits)
qed

definition two_turns :: "Tick list" where
  "two_turns =
     [\<lparr>tk_expired = False, tk_ready = True, tk_reads = [''ab''], tk_wait = None, tk_final = [], tk_reaped = Killed\<rparr>,
      \<lparr>tk_expired = False, tk_ready = True, tk_reads = [''cd''], tk_wait = Some (Exited 0), tk_final = [''ef''],
       tk_reaped = Killed\<rparr>]"

theorem output_cap_is_exact_witness:
  "\<exists>r w'. proc_run (true_fs\<lparr>px_spawn := (\<lambda>cmd wd t env w. (Some (two_turns, 0), Suc w))\<rparr>) ''ls'' None 5 5 True 0 =
      (Some r, w') \<and> pr_output r = ''abcde'' \<and> pr_output_truncated r \<and> \<not> pr_timed_out r"
proof -
  let ?px = "true_fs\<lparr>px_spawn := (\<lambda>cmd wd t env w. (Some (two_turns, 0), Suc w))\<rparr>"
  have s: "px_spawn ?px ''ls'' None 5 True 0 = (Some (two_turns, 0), 1)" by simp
  have p: "proper_reads two_turns" by (simp add: proper_reads_def two_turns_def)
  obtain r w' where r: "proc_run ?px ''ls'' None 5 5 True 0 = (Some r, w')"
    by (cases "poll_loop 5 True two_turns ([], False) False") (auto simp: proc_run_def split: prod.splits)
  from output_cap_is_exact [OF s p r] r show ?thesis
    by (auto simp: output_read_def two_turns_def turn_ends_def turn_reads_def)
qed

text \<open>
  The text \<open>web_fetch\<close> extracts from a page holds no markup delimiter, whatever the page is, and
  has at most \<open>cap\<close> characters.
\<close>

theorem html_text_is_clean:
  "CHR ''<'' \<notin> set (html_to_text html cap) \<and> CHR ''>'' \<notin> set (html_to_text html cap) \<and>
   length (html_to_text html cap) \<le> cap"
  using html_to_text_clean [of html cap] html_to_text_cap [of html cap] by (simp add: lt_def gt_def)

text \<open>
  Within a session no backup overwrites another one: two backups whose names fit the path buffer
  have the same name only if they are of the same base name, sequence number and time.
\<close>

theorem backups_do_not_collide:
  assumes "length (backup_path s base n t) < 4299" and "length (backup_path s base' m u) < 4299"
    and "n \<noteq> m"
  shows "backup_path s base n t \<noteq> backup_path s base' m u"
  using backup_path_inject [OF assms(1,2)] assms(3) by blast

theorem backups_do_not_collide_witness:
  "backup_path demo_box ''f'' 0 5 \<noteq> backup_path demo_box ''f'' 1 5"
  by (rule backups_do_not_collide)
    (simp_all add: backup_path_def backup_dir_def demo_box_def snprintf_s_def show_nat.simps)

section \<open>Model output: JSON, actions, plans\<close>

text \<open>
  C24. What \<open>jx_extract_object\<close> returns is the parse of a balanced span of the text: an opening brace, an inside built
  from plain characters, string literals (whose braces and escaped quotes do not count) and balanced objects, and the
  closing brace. It is the first: every balanced span that starts earlier in the text does not parse.
\<close>

theorem extraction_is_a_balanced_span:
  assumes "jx_extract_object parse src = Some (j, start, n)"
  shows "\<exists>u b r. src = u @ start \<and> start = CHR ''{'' # b @ CHR ''}'' # r \<and> braces_match b \<and> n = length b + 2 \<and>
     parse (take n start) = Some j \<and>
     (\<forall>u' s b' r'. src = u' @ s \<longrightarrow> length u' < length u \<longrightarrow> s = CHR ''{'' # b' @ CHR ''}'' # r' \<longrightarrow>
        braces_match b' \<longrightarrow> parse (take (length b' + 2) s) = None)"
proof -
  from jx_extract_object_sound [OF assms] have "find_object start = Some (start, n)" "parse (take n start) = Some j"
    by blast+
  moreover from this(1) obtain b r where "start = CHR ''{'' # b @ CHR ''}'' # r" "n = length b + 2" "braces_match b"
    unfolding find_object_iff by blast
  ultimately show ?thesis using jx_extract_object_first [OF assms] by blast
qed

theorem extraction_is_a_balanced_span_witness:
  "\<exists>b. ''see {x} {\"}\":{}}.'' = ''see {x} '' @ CHR ''{'' # b @ ''}.'' \<and> braces_match b \<and> b = ''\"}\":{}''"
proof -
  define p :: json_parser where "p = (\<lambda>s. if hd (tl s) = DQ then Some JNull else None)"
  have "jx_extract_object p ''see {x} {\"}\":{}}.'' = Some (JNull, ''{\"}\":{}}.'', 8)"
    by (simp add: jx_extract_object.simps find_object_def char_defs p_def)
  from extraction_is_a_balanced_span [OF this] obtain b r where
    "CHR ''{'' # b @ CHR ''}'' # r = ''{\"}\":{}}.''" "length b = 6" "braces_match b" by auto
  moreover from this have "b = ''\"}\":{}''" by (auto simp: append_eq_Cons_conv)
  ultimately show ?thesis by simp
qed



text \<open>
  Validation accepts exactly the well-formed actions: a tool action names a known tool and has an
  object of arguments, a final one has an answer, a question is not empty, a plan has steps; what is
  rejected carries an error text.
\<close>

theorem validation_is_exact:
  "case agent_action_validate a (Some names) of (ok, a') \<Rightarrow>
     (ok = wf_action names a) \<and> (if ok then a' = a else act_error a' \<noteq> [])"
  using validate_sound [of a names] validate_ok_same [of a "Some names"]
    validate_explains [of a "Some names"] by (auto split: prod.split)

text \<open>
  C26. Serialising a plan and parsing it back gives the plan with its goal and every step's id,
  description, tool, expectation and verification; only the progress flags are lost. The hypotheses say
  that the printed document is one balanced object and that the JSON library reads it back.
\<close>

theorem plan_round_trip:
  assumes "plan_steps p \<noteq> []" and "n_steps p \<le> MAX_PLAN"
    and "\<forall>s \<in> set (plan_steps p). step_description s \<noteq> None"
    and "find_object (print (plan_value dbl p)) = Some (print (plan_value dbl p), length (print (plan_value dbl p)))"
    and "parse (print (plan_value dbl p)) = Some (plan_value dbl p)"
  shows "plan_parse_text parse (Some (plan_to_json print dbl p)) =
    (True, \<lparr>plan_goal = plan_goal p, plan_steps = map reset_step (plan_steps p), plan_error = []\<rparr>)"
proof -
  have "print (plan_value dbl p) \<noteq> []" using find_object_span [OF assms(4)] by auto
  then have "find_json parse (Some (plan_to_json print dbl p)) = Some (plan_value dbl p)"
    using assms(4,5) by (simp add: find_json_def plan_to_json_def jx_extract_object.simps)
  then show ?thesis
    using plan_from_value [OF assms(1-3), of dbl]
    by (simp add: plan_parse_text_def plan_from_object_def Let_def)
qed

theorem plan_round_trip_witness:
  "plan_parse_text (\<lambda>s. if s = ''{}'' then Some (plan_value (\<lambda>i. 0) (fallback_plan ''g'')) else None)
     (Some (plan_to_json (\<lambda>v. ''{}'') (\<lambda>i. 0) (fallback_plan ''g''))) =
   (True, fallback_plan ''g'')"
proof -
  have "find_object ''{}'' = Some (''{}'', length ''{}'')" by (simp add: find_object_def char_defs)
  then show ?thesis
    using plan_round_trip [of "fallback_plan ''g''" "\<lambda>v. ''{}''" "\<lambda>i. 0"
        "\<lambda>s. if s = ''{}'' then Some (plan_value (\<lambda>i. 0) (fallback_plan ''g'')) else None"]
    by (simp add: fallback_plan_def plan_init_def reset_step_def MAX_PLAN_def)
qed

text \<open>
  C27. The planner always delivers a usable plan, whatever the model answers and however often it
  fails: between 1 and 64 steps, each with a description and none of them done.
\<close>

theorem planner_always_delivers:
  "plan_ok (fst (planner_make_plan parse bump be pl goal mem w))"
  by (rule planner_make_plan_ok)

section \<open>Memory, policy, configuration\<close>

text \<open>
  C28. The ring of observations, read oldest first, holds exactly the newest \<open>cap\<close> observations in the
  order they were made (12 of them when the requested capacity is not positive).
\<close>

theorem ring_keeps_the_newest:
  "ring_list (fold ring_add xs (mem_st (memory_init tid cap))) =
   keep_last (if 0 < cap then nat cap else 12) xs"
proof -
  let ?s = "mem_st (memory_init tid cap)"
  have "ring_list ?s = []" "st_cap ?s = (if 0 < cap then nat cap else 12)"
    by (simp_all add: memory_init_def ring_list_def)
  then show ?thesis using ring.entries_fold [OF ring_ok_init, of tid cap xs] by simp
qed

text \<open>
  The observations put into the prompt are a suffix of the joined lines, so the newest ones
  survive, and a positive budget of characters is never exceeded.
\<close>

theorem observations_fit_budget:
  assumes "0 < max_chars"
  shows "int (length (memory_recent_observations m max_chars)) \<le> max_chars \<and>
    suffix (memory_recent_observations m max_chars) (concat (map obs_line (ring_list (mem_st m))))"
  using recent_observations_budget [OF assms] recent_observations_suffix by blast

theorem observations_fit_budget_witness:
  "int (length (memory_recent_observations (memory_init ''t'' 4) 100)) \<le> 100"
  using observations_fit_budget [of 100 "memory_init ''t'' 4"] by simp



text \<open>
  Whatever the configuration file holds, the loaded configuration is well formed: every string
  fits its buffer with the terminator and the autonomy level is between 0 and 4.
\<close>

theorem config_load_well_formed:
  "config_ok (snd (agent_config_load parse fc prompt_dir data))"
  by (rule agent_config_load_ok)

text \<open>
  C30. The guard of the task state is exactly the state diagram of the documentation: a request is accepted and
  carried out if it repeats the state or is an edge of the diagram, and any other request is refused and leaves
  the state as it is. So every sequence of requests visits only states joined by edges of the diagram, a
  terminal state is never left again, and FAILED is open from every other state.
\<close>

theorem state_machine_guarded:
  "agent_state_transition s b =
     (if s = b \<or> (s, b) \<in> set state_diagram then (True, b) else (False, s)) \<and>
   successively (\<lambda>x y. x = y \<or> (x, y) \<in> set state_diagram) (states_visited s bs) \<and>
   hd (states_visited s bs) = s \<and>
   (if agent_state_is_terminal s then set (states_visited s bs) = {s}
    else agent_state_transition s AGENT_FAILED = (True, AGENT_FAILED))"
  using states_visited_edges [of s bs] states_visited_final [of s bs]
  by (auto simp: agent_state_transition_def allowed_iff_diagram allowed_failed [unfolded allowed_iff_diagram]
      cong: if_cong)

section \<open>The checkpoint reader\<close>

text \<open>
  C31. An opened checkpoint of at most \<open>2 ^ 29\<close> tensors: its tensor names are distinct, lookup through the hash index
  finds exactly what a search of the table finds, and every tensor of the table belongs to a shard, has a known type
  and at most four dimensions, and passed the checks of its span and its end as the code computes them in 64 bits. A
  tensor of which neither the size of its shape nor its end leaves the 64 bits has a byte span that is exactly the
  product of its dimensions times the element size, and ends inside the file of its shard.
\<close>

theorem checkpoint_lookup_is_exact:
  assumes "k3_st_open alloc room (Some listing) = Open_Ok s" and "room \<le> 2 ^ 29"
  shows "distinct (map t_name (st_t s)) \<and>
    (\<forall>name. k3_st_find s name = find (\<lambda>t. t_name t = name) (st_t s)) \<and>
    (\<forall>t\<in>set (st_t s). \<exists>k < length (shard_order listing). t_shard t = int k \<and>
       tensor_wf (int (length (sf_bytes (shard_order listing ! k)))) t \<and>
       (no_wrap t \<longrightarrow> t_nbytes t = prod_list (t_shape t) * k3_st_elemsize (t_dtype t) \<and>
          t_off t + t_nbytes t \<le> int (length (sf_bytes (shard_order listing ! k)))))"
  using open_table [OF assms] tensor_exact [OF _ _ of_nat_0_le_iff] by blast

theorem checkpoint_lookup_is_exact_witness:
  "\<exists>s. k3_st_open (\<lambda>n. True) 10 (Some [demo_shard]) = Open_Ok s \<and> st_t s = [demo_a] \<and> no_wrap demo_a \<and>
     k3_st_find s ''a'' = Some demo_a \<and> k3_st_find s ''b'' = None \<and>
     t_nbytes demo_a = 2 \<and> t_off demo_a + t_nbytes demo_a \<le> 63"
proof -
  obtain s where s: "k3_st_open (\<lambda>n. True) 10 (Some [demo_shard]) = Open_Ok s" "st_t s = [demo_a]"
    using demo_open by blast
  have w: "no_wrap demo_a" by (simp add: no_wrap_def demo_a_def)
  then show ?thesis
    using checkpoint_lookup_is_exact [OF s(1)] s by (auto simp: demo_a_def)
qed

text \<open>
  C32. The header length of a shard is checked before anything depends on it: for every length below \<open>2 ^ 64 - 8\<close> the
  scan reports an impossible length exactly when the length is zero or the file has fewer bytes than the length and
  its eight bytes, whether or not memory could be had for it, and a header that is read never exceeds the buffer
  allocated for it. (For the eight largest lengths the sum in the check wraps around.)
\<close>

theorem header_length_is_checked:
  assumes "length (sf_bytes sf) < 2 ^ 63" and "length (pread (sf_bytes sf) 8 0 (sf_first sf)) = 8"
    and "hlen = le_u64 (pread (sf_bytes sf) 8 0 (sf_first sf))" and "unat hlen < 2 ^ 64 - 8"
  shows "(scan_shard alloc room shard sf b = Scan_Fail (Impossible_Length hlen) \<longleftrightarrow>
       hlen = 0 \<or> length (sf_bytes sf) < 8 + unat hlen) \<and>
    scan_shard alloc room shard sf b \<noteq> Scan_Overrun"
  using impossible_length_iff [OF assms] scan_shard_no_overrun [OF assms(1)] assms(3,4) by blast

theorem header_length_is_checked_witness:
  "scan_shard (\<lambda>n. False) 10 0 short_shard [] = Scan_Fail (Impossible_Length 200) \<and>
   scan_shard (\<lambda>n. True) 10 0 demo_shard [] \<noteq> Scan_Fail (Impossible_Length 53)"
proof -
  have "length (sf_bytes demo_shard) = 63 \<and> length (pread (sf_bytes demo_shard) 8 0 (sf_first demo_shard)) = 8 \<and>
      le_u64 (pread (sf_bytes demo_shard) 8 0 (sf_first demo_shard)) = 53"
    by code_simp
  moreover have "length (sf_bytes short_shard) = 63 \<and>
      length (pread (sf_bytes short_shard) 8 0 (sf_first short_shard)) = 8 \<and>
      le_u64 (pread (sf_bytes short_shard) 8 0 (sf_first short_shard)) = 200"
    by code_simp
  ultimately show ?thesis
    using header_length_is_checked [OF _ _ refl, of demo_shard "\<lambda>n. True" 10 0 "[]"]
      header_length_is_checked [OF _ _ refl, of short_shard "\<lambda>n. False" 10 0 "[]"] by simp
qed

section \<open>Streamed experts\<close>

text \<open>
  C33. Loading an expert: the buffer keeps its length whatever the disk delivers, and when the load reports
  the expert's full size, all six tensors are in the buffer where the geometry says, inside it and byte for
  byte as in the checkpoint, for a contiguous expert read in one go as for a scattered one read in six.
\<close>

theorem expert_load_serves_the_tensors:
  assumes "st_sane s" and "k3_expert_ref s layer expert = Some r" and "er_nbytes r \<le> int (length buf)"
    and "k3_expert_load_direct s dk r buf (int (length buf)) = (got, pad, buf')"
  shows "length buf' = length buf \<and> (got = er_nbytes r \<longrightarrow> holds_expert s (dk_file dk) r pad buf')"
  using full_load_holds [OF assms] by blast

theorem expert_load_serves_the_tensors_witness:
  "case k3_expert_load_direct demo_st demo_disk demo_ref (replicate 102 0) 102 of
     (got, pad, buf') \<Rightarrow> length buf' = 102 \<and> (got = 102 \<longrightarrow> holds_expert demo_st demo_file demo_ref pad buf')"
proof -
  obtain got pad buf' where run: "k3_expert_load_direct demo_st demo_disk demo_ref (replicate 102 0) 102 = (got, pad, buf')"
    by (metis prod.exhaust)
  then have "k3_expert_load_direct demo_st demo_disk demo_ref (replicate 102 0) (int (length (replicate 102 (0 :: 8 word)))) =
      (got, pad, buf')" by simp
  from expert_load_serves_the_tensors [OF demo_sane demo_expert _ this] run show ?thesis
    by (simp add: demo_ref_bytes demo_disk_file)
qed

text \<open>
  C34. A cache that initialises is well formed and empty of reservations, has a slot more than one token
  needs, keeps its slots aligned for direct reads, large enough for the widened read of the expert it was
  sized from, and inside the memory budget.
\<close>

theorem cache_init_geometry:
  assumes "k3_cache_init st cfg bud mem junk = Some c" and "st_sane st" and "0 \<le> bud"
    and "0 \<le> cf_n_layers cfg" and "0 < cf_n_experts cfg"
  shows "cache_inv st file c \<and> cf_topk cfg + 1 \<le> int (nslot c) \<and> slot_bytes c mod 4096 = 0 \<and>
    int (nslot c) * slot_bytes c \<le> bud \<and>
    (\<exists>L r. k3_expert_ref st L 0 = Some r \<and> er_nbytes r + 8192 \<le> slot_bytes c)"
  by (rule cache_init_ok [OF assms])

theorem cache_init_geometry_witness:
  "cache_inv demo_st demo_file demo_cache \<and> 2 \<le> int (nslot demo_cache) \<and>
   int (nslot demo_cache) * slot_bytes demo_cache \<le> 100000"
  using cache_init_geometry [OF demo_init demo_sane, of demo_file] by (simp add: demo_cfg_def)

text \<open>
  C35. Through every sequence of requests, batches, prefetches, pins and resets, each with its own disk
  outcomes, the cache stays coherent: the slot and key tables are inverse to each other, only resident
  experts are pinned, no reservation is left, and every slot that claims an expert holds its bytes.
\<close>

theorem cache_stays_coherent:
  assumes "k3_cache_init st cfg bud mem junk = Some c0" and "st_sane st" and "0 \<le> bud"
    and "0 \<le> cf_n_layers cfg" and "0 < cf_n_experts cfg" and "cache_reach st file c0 c"
  shows "cache_inv st file c"
  by (rule reach_inv [OF assms(6) _ assms(2)]) (use cache_init_ok [OF assms(1-5)] in blast)

theorem cache_stays_coherent_witness:
  "\<exists>n c. cache_getmany demo_st demo_disk 0 [0, 1, 0] demo_cache = Some (n, c) \<and> cache_inv demo_st demo_file c"
proof -
  note demo_cache_sel(1)
  then obtain n c where run: "cache_getmany demo_st demo_disk 0 [0, 1, 0] demo_cache = Some (n, c)" and l: "0 < n_layers demo_cache"
    using cache_getmany_ok [OF demo_inv demo_sane demo_disk_file, of 0] by fastforce
  have "cache_reach demo_st demo_file demo_cache c"
    by (rule cache_reach.getmany [OF cache_reach.start demo_disk_file _ l run]) simp
  from cache_stays_coherent [OF demo_init demo_sane _ _ _ this] run show ?thesis by (simp add: demo_cfg_def)
qed

text \<open>
  C36. A request never leaves the tables, and if it succeeds the three pairs of pointers it returns read
  the six tensors of exactly that layer and expert, byte for byte as in the checkpoint, and stay inside one
  slot. Otherwise it reports an error; in both cases the cache stays coherent.
\<close>

theorem get_serves_checkpoint_bytes:
  assumes "cache_inv st file c" and "st_sane st" and "dk_file dk = file"
  shows "\<exists>q c'. cache_get st dk grow layer expert c = Some (q, c') \<and> cache_inv st file c' \<and>
    (\<forall>x. q = Some x \<longrightarrow> q_serves st file c' layer expert x)"
  using cache_get_ok [OF assms] by blast

theorem get_serves_checkpoint_bytes_witness:
  "\<exists>x c'. cache_get demo_st demo_disk True 0 0 demo_cache = Some (Some x, c') \<and> q_serves demo_st demo_file c' 0 0 x"
  using get_serves_checkpoint_bytes [OF demo_inv demo_sane demo_disk_file, of True 0 0] demo_get by auto

text \<open>
  C37. A request must succeed when the disk delivers what its files hold, the expert's tensors lie in
  their files, the expert fits a slot with the margin of a widened read, and a slot is free or can be
  evicted; afterwards the expert is resident.
\<close>

theorem get_succeeds_on_a_sound_disk:
  assumes "cache_inv st file c" and "st_sane st" and "st_inside st file" and "delivers dk" and "dk_file dk = file"
    and "in_range c layer expert" and "k3_expert_ref st layer expert = Some r" and "er_nbytes r + 8192 \<le> slot_bytes c"
    and "pick_victim c \<noteq> None"
  shows "\<exists>q c'. cache_get st dk grow layer expert c = Some (Some q, c') \<and> cache_resident layer expert c' = Some q"
  using get_succeeds [OF assms] by blast

theorem get_succeeds_on_a_sound_disk_witness:
  "\<exists>q c'. cache_get demo_st demo_disk True 0 0 demo_cache = Some (Some q, c') \<and> cache_resident 0 0 c' = Some q"
  by (rule get_succeeds_on_a_sound_disk [OF demo_inv demo_sane demo_inside demo_delivers demo_disk_file _ demo_expert])
    (simp_all add: in_range_def demo_cache_sel demo_ref_bytes demo_victim)

text \<open>
  C38. A pinned expert is never moved: across requests and batches it keeps its slot, its reference and its
  bytes, and it stays pinned.
\<close>

theorem pinned_experts_stay:
  assumes "cache_inv st file c" and "st_sane st" and "dk_file dk = file" and "pinned_at c k s = Some x"
  shows "(cache_get st dk grow layer expert c = Some (q, c') \<longrightarrow> pinned_at c' k s = Some x) \<and>
    (0 \<le> layer \<and> layer < n_layers c \<and> cache_getmany st dk layer ids c = Some (n, c') \<longrightarrow> pinned_at c' k s = Some x)"
  using cache_get_ok [OF assms(1-3), of grow layer expert] cache_getmany_ok [OF assms(1-3), of layer ids]
    evolves_pinned [OF _ assms(4)] by auto

theorem pinned_experts_stay_witness:
  "\<exists>c s x q c'. pinned_at c 0 s = Some x \<and> cache_get demo_st demo_disk True 0 1 c = Some (q, c') \<and>
     pinned_at c' 0 s = Some x"
proof -
  obtain c s x where c: "cache_inv demo_st demo_file c" "pinned_at c 0 s = Some x" using demo_pinned by blast
  obtain q c' where "cache_get demo_st demo_disk True 0 1 c = Some (q, c')"
    using cache_get_ok [OF c(1) demo_sane demo_disk_file] by blast
  then show ?thesis using pinned_experts_stay [OF c(1) demo_sane demo_disk_file c(2)] c(2) by blast
qed

text \<open>
  C39. The slot that a miss takes over is an empty one if there is any, and otherwise the least recently
  used of the slots that are neither pinned nor reserved; none is taken exactly when every slot is
  reserved, pinned, or carries the largest stamp.
\<close>

theorem victim_is_least_recently_used:
  "case pick_victim c of
     Some s \<Rightarrow> s < nslot c \<and> (key_of c ! s = K3_SLOT_EMPTY \<or>
       evictable c s \<and> (\<forall>i < nslot c. key_of c ! i \<noteq> K3_SLOT_EMPTY \<and>
         (evictable c i \<longrightarrow> used_at c ! s \<le> used_at c ! i)))
   | None \<Rightarrow> \<forall>i < nslot c. key_of c ! i \<noteq> K3_SLOT_EMPTY \<and> (evictable c i \<longrightarrow> used_at c ! i = - 1)"
  using pick_victim_Some [of c] pick_victim_None [of c] by (cases "pick_victim c") auto

theorem victim_is_least_recently_used_witness:
  "pick_victim (demo_cache\<lparr>key_of := [Holds 0, Holds 1], used_at := [9, 3], pinned := [False, False]\<rparr>) = Some 1"
proof -
  let ?c = "demo_cache\<lparr>key_of := [Holds 0, Holds 1], used_at := [9, 3], pinned := [False, False]\<rparr>"
  have v: "pick_victim ?c \<noteq> None" by (simp add: pick_victim_def nslot_def upt_rec)
  then obtain s where s: "pick_victim ?c = Some s" by blast
  have b: "s < 2" "used_at ?c ! s \<le> used_at ?c ! 1"
    using victim_is_least_recently_used [of ?c] s by (auto simp: nslot_def evictable_def nth_Cons split: nat.splits)
  have "s \<noteq> 0"
  proof
    assume "s = 0"
    with b(2) have "(9 :: 64 word) \<le> 3" by simp
    then show False by simp
  qed
  then have "s = 1" using b(1) by simp
  then show ?thesis using s by simp
qed

text \<open>
  C40. The reads of a batch may run in any order: they are issued sorted by shard and offset, the slots
  they fill are distinct, and every permutation of them leaves the same cache and delivers the same
  result to each entry.
\<close>

theorem batch_reads_commute:
  assumes "cache_inv st file c" and "0 \<le> layer" and "layer < n_layers c"
    and "reserve st layer ids [] c = Some (w, c1)" and "mset xs = mset w"
  shows "distinct (map w_slot xs) \<and> length xs \<le> K3_MAX_TOPK \<and> sorted_wrt (\<lambda>x y. \<not> after x y) (sort_work w) \<and>
    snd (read_all st dk xs c1) = snd (read_all st dk (sort_work w) c1) \<and>
    mset (fst (read_all st dk xs c1)) = mset (fst (read_all st dk (sort_work w) c1))"
proof -
  have "batch_inv st layer c []" "cache_wf st file c" using assms(1) by (simp_all add: batch_inv_idle cache_inv_def)
  from reserve_ok [OF this(2,1) assms(2,3), of ids] assms(4)
  have w: "distinct (map w_slot w)" "length w \<le> K3_MAX_TOPK" by (auto simp: batch_inv_def K3_MAX_TOPK_def)
  have m: "mset (sort_work w) = mset xs" using assms(5) by (simp add: mset_sort_work)
  have d: "distinct (map w_slot xs)" using w(1) assms(5) by (metis mset_eq_imp_distinct_iff mset_map)
  then have d2: "distinct (map w_slot (sort_work w))" using m by (metis mset_eq_imp_distinct_iff mset_map)
  from reads_order_irrelevant [OF d2 m] w(2) d sort_work_sorted assms(5) show ?thesis
    by (metis size_mset)
qed

theorem batch_reads_commute_witness:
  "\<exists>w c1. reserve demo_st 0 [0, 1] [] demo_cache = Some (w, c1) \<and> distinct (map w_slot (rev w)) \<and>
     snd (read_all demo_st demo_disk (rev w) c1) = snd (read_all demo_st demo_disk (sort_work w) c1)"
proof -
  have l: "0 < n_layers demo_cache" by (simp add: demo_cache_sel)
  have "batch_inv demo_st 0 demo_cache []" "cache_wf demo_st demo_file demo_cache"
    using demo_inv by (simp_all add: batch_inv_idle cache_inv_def)
  from reserve_ok [OF this(2,1) order_refl l, of "[0, 1]"] obtain w c1
    where run: "reserve demo_st 0 [0, 1] [] demo_cache = Some (w, c1)" by auto
  from batch_reads_commute [OF demo_inv order_refl l run, of "rev w"] run show ?thesis by auto
qed

end
